(* ===== verification/Prelude.thy ===== *)
theory Prelude
  imports Main "HOL-Library.Word"
begin

text \<open>
  Shared vocabulary of the development: the machine integers of the Rust sources, results
  with errors as values, big-endian byte strings, positions in byte buffers, and the two
  containers whose iteration order the sources rely on. Two collections of lemmas carry
  the component proofs: \<open>buf_simps\<close> (reading a buffer at a position) and \<open>res_simps\<close>
  (chaining results).
\<close>

unbundle bit_operations_syntax

named_theorems buf_simps \<open>reading a byte buffer at a position\<close>
named_theorems res_simps \<open>sequencing of fallible computations\<close>

subsection \<open>Machine integers\<close>

type_synonym u8 = "8 word"
type_synonym u16 = "16 word"
type_synonym u32 = "32 word"
type_synonym u64 = "64 word"
type_synonym bytes = "u8 list"

text \<open>
  \<open>usize\<close> values are \<open>nat\<close>s: a slice never has more than \<open>isize::MAX\<close> elements, and where a
  length read from the wire is added to a position the overflow is written out. Signed
  64-bit arithmetic wraps in the release profile, which \<open>wrap_i64\<close> writes out.
\<close>

definition usize_limit :: nat where
  "usize_limit = 2 ^ 64"

definition wrap_i64 :: "int \<Rightarrow> int" where
  "wrap_i64 x = (x + 2 ^ 63) mod 2 ^ 64 - 2 ^ 63"

lemma ucast_u16_u64 [simp]: "ucast (ucast (w :: u16) :: u64) = w"
  by (rule bit_word_eqI) (auto simp: bit_simps)

lemma ucast_u16_u32 [simp]: "ucast (ucast (w :: u16) :: u32) = w"
  by (rule bit_word_eqI) (auto simp: bit_simps)

lemma ucast_scast_u32 [simp]: "ucast (scast (w :: u32) :: u64) = w"
  by (rule bit_word_eqI) (auto simp: bit_simps)

definition sat_add_u64 :: "u64 \<Rightarrow> u64 \<Rightarrow> u64" where
  "sat_add_u64 a b = (if unat a + unat b < 2 ^ 64 then a + b else -1)"

definition sat_sub_u64 :: "u64 \<Rightarrow> u64 \<Rightarrow> u64" where
  "sat_sub_u64 a b = (if b \<le> a then a - b else 0)"

definition sat_add_u32 :: "u32 \<Rightarrow> u32 \<Rightarrow> u32" where
  "sat_add_u32 a b = (if unat a + unat b < 2 ^ 32 then a + b else -1)"

definition sat_sub_u32 :: "u32 \<Rightarrow> u32 \<Rightarrow> u32" where
  "sat_sub_u32 a b = (if b \<le> a then a - b else 0)"

definition sat_mul_u32 :: "u32 \<Rightarrow> u32 \<Rightarrow> u32" where
  "sat_mul_u32 a b = (if unat a * unat b < 2 ^ 32 then a * b else -1)"

lemma wrap_i64_id: "- (2 ^ 63) \<le> x \<Longrightarrow> x < 2 ^ 63 \<Longrightarrow> wrap_i64 x = x"
  by (simp add: wrap_i64_def)

lemma wrap_i64_range: "- (2 ^ 63) \<le> wrap_i64 x" "wrap_i64 x < 2 ^ 63"
  using pos_mod_bound [of "2 ^ 64" "x + 2 ^ 63"] pos_mod_sign [of "2 ^ 64" "x + 2 ^ 63"]
  by (simp_all add: wrap_i64_def)

lemma wrap_i64_add: "wrap_i64 (wrap_i64 a + b) = wrap_i64 (a + b)"
proof -
  have "(wrap_i64 a + b + 2 ^ 63) mod 2 ^ 64 = ((a + 2 ^ 63) mod 2 ^ 64 + b) mod 2 ^ 64"
    by (simp add: wrap_i64_def)
  also have "\<dots> = (a + 2 ^ 63 + b) mod 2 ^ 64"
    by (rule mod_add_left_eq)
  also have "a + 2 ^ 63 + b = a + b + 2 ^ 63"
    by simp
  finally show ?thesis
    by (simp add: wrap_i64_def)
qed

lemma unat_sat_add_u64: "unat (sat_add_u64 a b) = min (unat a + unat b) (2 ^ 64 - 1)"
proof (cases "unat a + unat b < 2 ^ 64")
  case True
  then show ?thesis by (simp add: sat_add_u64_def unat_word_ariths)
next
  case False
  then show ?thesis by (simp add: sat_add_u64_def unsigned_minus_1_eq_mask mask_eq_exp_minus_1)
qed

lemma unat_sat_sub_u64: "unat (sat_sub_u64 a b) = unat a - unat b"
  by (auto simp: sat_sub_u64_def unat_sub word_le_nat_alt)

lemma unat_sat_add_u32: "unat (sat_add_u32 a b) = min (unat a + unat b) (2 ^ 32 - 1)"
proof (cases "unat a + unat b < 2 ^ 32")
  case True
  then show ?thesis by (simp add: sat_add_u32_def unat_word_ariths)
next
  case False
  then show ?thesis by (simp add: sat_add_u32_def unsigned_minus_1_eq_mask mask_eq_exp_minus_1)
qed

lemma unat_sat_sub_u32: "unat (sat_sub_u32 a b) = unat a - unat b"
  by (auto simp: sat_sub_u32_def unat_sub word_le_nat_alt)

lemma unat_sat_mul_u32: "unat (sat_mul_u32 a b) = min (unat a * unat b) (2 ^ 32 - 1)"
proof (cases "unat a * unat b < 2 ^ 32")
  case True
  then show ?thesis by (simp add: sat_mul_u32_def unat_word_ariths)
next
  case False
  then show ?thesis by (simp add: sat_mul_u32_def unsigned_minus_1_eq_mask mask_eq_exp_minus_1)
qed

subsection \<open>Results\<close>

text \<open>A Rust \<open>Result<T, E>\<close> is \<open>'e + 'a\<close>; \<open>rbind\<close> is the question-mark operator.\<close>

fun rbind :: "'e + 'a \<Rightarrow> ('a \<Rightarrow> 'e + 'b) \<Rightarrow> 'e + 'b" where
  "rbind (Inl e) f = Inl e"
| "rbind (Inr x) f = f x"

definition is_ok :: "'e + 'a \<Rightarrow> bool" where
  "is_ok r = (case r of Inl _ \<Rightarrow> False | Inr _ \<Rightarrow> True)"

definition res_unwrap_or :: "'a \<Rightarrow> 'e + 'a \<Rightarrow> 'a" where
  "res_unwrap_or d r = (case r of Inl _ \<Rightarrow> d | Inr x \<Rightarrow> x)"

lemma rbind_Inr_iff [res_simps]: "rbind r f = Inr y \<longleftrightarrow> (\<exists>x. r = Inr x \<and> f x = Inr y)"
  by (cases r) auto

lemma rbind_Inl_iff: "rbind r f = Inl e \<longleftrightarrow> r = Inl e \<or> (\<exists>x. r = Inr x \<and> f x = Inl e)"
  by (cases r) auto

lemma rbind_assoc: "rbind (rbind r f) g = rbind r (\<lambda>x. rbind (f x) g)"
  by (cases r) auto

lemma rbind_cong [fundef_cong]:
  "r = r' \<Longrightarrow> (\<And>x. r' = Inr x \<Longrightarrow> f x = f' x) \<Longrightarrow> rbind r f = rbind r' f'"
  by (cases r') auto

lemma is_ok_simps [simp]: "is_ok (Inr x)" "\<not> is_ok (Inl e)"
  by (simp_all add: is_ok_def)

lemma is_ok_iff: "is_ok r \<longleftrightarrow> (\<exists>x. r = Inr x)"
  by (cases r) auto

lemma res_unwrap_or_simps [simp]: "res_unwrap_or d (Inr x) = x" "res_unwrap_or d (Inl e) = d"
  by (simp_all add: res_unwrap_or_def)

subsection \<open>Positions in a buffer\<close>

text \<open>
  The parsers keep a buffer and a position. \<open>at_pos data pos bs\<close> says that \<open>pos\<close> is a
  position of the buffer and that exactly \<open>bs\<close> is left to read there.
\<close>

definition at_pos :: "'a list \<Rightarrow> nat \<Rightarrow> 'a list \<Rightarrow> bool" where
  "at_pos data pos bs \<longleftrightarrow> pos \<le> length data \<and> drop pos data = bs"

definition subslice :: "'a list \<Rightarrow> nat \<Rightarrow> nat \<Rightarrow> 'a list" where
  "subslice data from til = take (til - from) (drop from data)"

lemma at_pos_start: "at_pos bs 0 bs"
  by (simp add: at_pos_def)

lemma at_pos_prefix: "at_pos (pre @ bs) (length pre) bs"
  by (simp add: at_pos_def)

lemma at_pos_length [buf_simps]: "at_pos data pos bs \<Longrightarrow> length data = pos + length bs"
  by (auto simp: at_pos_def)

lemma at_pos_append: "at_pos data pos (xs @ bs) \<Longrightarrow> at_pos data (pos + length xs) bs"
proof -
  assume *: "at_pos data pos (xs @ bs)"
  then have "drop (length xs) (drop pos data) = bs" and "pos + length xs \<le> length data"
    using at_pos_length [OF *] by (simp_all add: at_pos_def)
  then show "at_pos data (pos + length xs) bs"
    by (simp add: at_pos_def add.commute)
qed

lemma at_pos_append3:
  "at_pos data pos (x # y # z # bs) \<Longrightarrow> at_pos data (pos + 3) bs"
  using at_pos_append [of data pos "[x, y, z]" bs] by (simp add: numeral_3_eq_3)

lemma at_pos_Cons: "at_pos data pos (x # bs) \<Longrightarrow> at_pos data (Suc pos) bs"
  using at_pos_append [of data pos "[x]" bs] by simp

lemma at_pos_nth [buf_simps]: "at_pos data pos bs \<Longrightarrow> i < length bs \<Longrightarrow> data ! (pos + i) = bs ! i"
  by (auto simp: at_pos_def)

lemma at_pos_hd [buf_simps]: "at_pos data pos (x # bs) \<Longrightarrow> data ! pos = x"
  using at_pos_nth [of data pos "x # bs" 0] by simp

lemma at_pos_subslice: "at_pos data pos (xs @ bs) \<Longrightarrow> n = length xs \<Longrightarrow> subslice data pos (pos + n) = xs"
  by (simp add: at_pos_def subslice_def)

lemma length_subslice [simp]:
  "a \<le> b \<Longrightarrow> b \<le> length data \<Longrightarrow> length (subslice data a b) = b - a"
  by (simp add: subslice_def)

subsection \<open>Big-endian integers\<close>

definition be_u16 :: "u16 \<Rightarrow> bytes" where
  "be_u16 w = [ucast (drop_bit 8 w), ucast w]"

definition be_u32 :: "u32 \<Rightarrow> bytes" where
  "be_u32 w = [ucast (drop_bit 24 w), ucast (drop_bit 16 w), ucast (drop_bit 8 w), ucast w]"

definition be_u64 :: "u64 \<Rightarrow> bytes" where
  "be_u64 w = be_u32 (ucast (drop_bit 32 w)) @ be_u32 (ucast w)"

definition from_be_u16 :: "u8 \<Rightarrow> u8 \<Rightarrow> u16" where
  "from_be_u16 a b = push_bit 8 (ucast a) OR ucast b"

definition from_be_u32 :: "u8 \<Rightarrow> u8 \<Rightarrow> u8 \<Rightarrow> u8 \<Rightarrow> u32" where
  "from_be_u32 a b c d =
     push_bit 24 (ucast a) OR push_bit 16 (ucast b) OR push_bit 8 (ucast c) OR ucast d"

definition from_be_u64 :: "bytes \<Rightarrow> u64" where
  "from_be_u64 bs =
     push_bit 32 (ucast (from_be_u32 (bs ! 0) (bs ! 1) (bs ! 2) (bs ! 3))) OR
     ucast (from_be_u32 (bs ! 4) (bs ! 5) (bs ! 6) (bs ! 7))"

lemma length_be [simp]: "length (be_u16 h) = 2" "length (be_u32 w) = 4" "length (be_u64 d) = 8"
  by (simp_all add: be_u16_def be_u32_def be_u64_def)

lemma from_be_u16_be [simp]: "from_be_u16 (ucast (drop_bit 8 w)) (ucast w) = w"
  by (rule bit_word_eqI) (auto simp: from_be_u16_def bit_simps)

lemma from_be_u32_be [simp]:
  "from_be_u32 (ucast (drop_bit 24 w)) (ucast (drop_bit 16 w)) (ucast (drop_bit 8 w)) (ucast w) = w"
proof (rule bit_word_eqI)
  fix n
  assume "n < LENGTH(32)"
  then consider "n < 8" | "8 \<le> n" "n < 16" | "16 \<le> n" "n < 24" | "24 \<le> n" "n < 32"
    by fastforce
  then show "bit (from_be_u32 (ucast (drop_bit 24 w)) (ucast (drop_bit 16 w))
      (ucast (drop_bit 8 w)) (ucast w)) n = bit w n"
    by cases (auto simp: from_be_u32_def bit_simps)
qed

lemma from_be_u64_be [simp]: "from_be_u64 (be_u64 w @ rest) = w"
proof -
  have "from_be_u64 (be_u64 w @ rest) =
      push_bit 32 (ucast (ucast (drop_bit 32 w) :: u32)) OR ucast (ucast w :: u32)"
    by (simp add: from_be_u64_def be_u64_def be_u32_def nth_append)
  also have "\<dots> = w"
    by (rule bit_word_eqI) (auto simp: bit_simps)
  finally show ?thesis .
qed

end
