(* ===== verification/Vlq.thy ===== *)
theory Vlq
  imports Prelude
begin

text \<open>
  Variable-length quantities: the integer coding of every message and of the handshake
  (\<open>vlq_encode\<close>, \<open>vlq_decode\<close> and \<open>vlq_byte_len\<close> of message.rs, repeated in handshake.rs,
  which adds the ZigZag coding of signed integers). The theory also fixes the error type of
  the network crate and the interface of a codec that reads at a position of a buffer, with
  the counted-list reader proved once for every such codec.
\<close>

subsection \<open>Errors of the network crate\<close>

text \<open>
  \<open>NetworkError\<close> of error.rs, the variants that the modelled code constructs; the numbers
  that \<open>format!\<close> puts into a message are left out of the string. \<open>Panic\<close> is not a variant
  of the source: it stands for a Rust panic (an index out of range, a read past the end of
  a \<open>Bytes\<close>, a capacity overflow).
\<close>

datatype network_error =
    ConnectionClosed
  | InvalidMessage string
  | MessageTooLarge nat nat
  | Serialization string
  | Panic string

subsection \<open>Encoding\<close>

function vlq_encode :: "u64 \<Rightarrow> bytes" where
  "vlq_encode value =
     (let byte = ucast (value AND 0x7F) :: u8; value' = drop_bit 7 value
      in if value' \<noteq> 0 then (byte OR 0x80) # vlq_encode value' else [byte])"
  by pat_completeness auto

lemma unat_drop_bit_7: "unat (drop_bit 7 (v :: u64)) = unat v div 128"
  by (simp add: drop_bit_eq_div unat_div_distrib)

termination vlq_encode
proof (relation "measure unat", goal_cases)
  case 1
  show ?case by simp
next
  case (2 val byte val')
  then have "val \<noteq> 0" by auto
  then have "unat val \<noteq> 0" by (simp add: unat_eq_0)
  with 2 show ?case by (simp add: unat_drop_bit_7)
qed

declare vlq_encode.simps [simp del]

text \<open>\<open>vlq_byte_len\<close>: the number of 7-bit groups, at least one.\<close>

function vlq_len_loop :: "u64 \<Rightarrow> nat \<Rightarrow> nat" where
  "vlq_len_loop v len = (if 0 < v then vlq_len_loop (drop_bit 7 v) (len + 1) else len)"
  by pat_completeness auto
termination vlq_len_loop
proof (relation "measure (\<lambda>(v, len). unat v)", goal_cases)
  case 1
  show ?case by simp
next
  case (2 v len)
  then have "unat v \<noteq> 0" by (simp add: unat_eq_0)
  then show ?case by (simp add: unat_drop_bit_7)
qed

declare vlq_len_loop.simps [simp del]

definition vlq_byte_len :: "u64 \<Rightarrow> nat" where
  "vlq_byte_len value = (if value = 0 then 1 else vlq_len_loop value 0)"

subsection \<open>Decoding\<close>

function vlq_decode_loop :: "bytes \<Rightarrow> nat \<Rightarrow> u64 \<Rightarrow> nat \<Rightarrow> network_error + u64 \<times> nat" where
  "vlq_decode_loop data pos result shift =
     (if length data \<le> pos then Inl (InvalidMessage ''Truncated VLQ'')
      else
        let byte = data ! pos; pos' = pos + 1;
            result' = result OR push_bit shift (ucast (byte AND 0x7F))
        in if byte AND 0x80 = 0 then Inr (result', pos')
           else if shift + 7 > 63 then Inl (InvalidMessage ''VLQ overflow'')
           else vlq_decode_loop data pos' result' (shift + 7))"
  by pat_completeness auto
termination vlq_decode_loop
  by (relation "measure (\<lambda>(data, pos, result, shift). length data - pos)") auto

declare vlq_decode_loop.simps [simp del]

definition vlq_decode :: "bytes \<Rightarrow> nat \<Rightarrow> network_error + u64 \<times> nat" where
  "vlq_decode data pos = vlq_decode_loop data pos 0 0"

subsection \<open>ZigZag coding of signed integers\<close>

text \<open>\<open>i64\<close> is two's complement: the shift to the right is arithmetic.\<close>

definition zigzag :: "u64 \<Rightarrow> u64" where
  "zigzag value = push_bit 1 value XOR signed_drop_bit 63 value"

definition unzigzag :: "u64 \<Rightarrow> u64" where
  "unzigzag encoded = drop_bit 1 encoded XOR (- (encoded AND 1))"

definition vlq_encode_signed :: "u64 \<Rightarrow> bytes" where
  "vlq_encode_signed value = vlq_encode (zigzag value)"

definition vlq_decode_signed :: "bytes \<Rightarrow> nat \<Rightarrow> network_error + u64 \<times> nat" where
  "vlq_decode_signed data pos =
     rbind (vlq_decode data pos) (\<lambda>(encoded, new_pos). Inr (unzigzag encoded, new_pos))"

subsection \<open>Length of an encoding\<close>

lemma vlq_encode_not_Nil [simp]: "vlq_encode v \<noteq> []"
  by (subst vlq_encode.simps) (simp add: Let_def)

lemma vlq_len_loop_encode: "v \<noteq> 0 \<Longrightarrow> vlq_len_loop v n = n + length (vlq_encode v)"
proof (induction v arbitrary: n rule: vlq_encode.induct)
  case (1 v)
  show ?case
  proof (cases "drop_bit 7 v = 0")
    case True
    have "vlq_len_loop 0 (n + 1) = n + 1" by (subst vlq_len_loop.simps) simp
    with 1 True show ?thesis
      by (simp add: vlq_len_loop.simps [of v] vlq_encode.simps [of v] word_gt_0 Let_def)
  next
    case False
    with 1 have "vlq_len_loop (drop_bit 7 v) (n + 1) = n + 1 + length (vlq_encode (drop_bit 7 v))"
      by simp
    with 1 False show ?thesis
      by (simp add: vlq_len_loop.simps [of v] vlq_encode.simps [of v] word_gt_0 Let_def)
  qed
qed

lemma vlq_byte_len_encode: "vlq_byte_len v = length (vlq_encode v)"
  by (simp add: vlq_byte_len_def vlq_len_loop_encode vlq_encode.simps [of 0])

lemma vlq_encode_length_bound: "unat v < 128 ^ n \<Longrightarrow> 0 < n \<Longrightarrow> length (vlq_encode v) \<le> n"
proof (induction v arbitrary: n rule: vlq_encode.induct)
  case (1 v)
  show ?case
  proof (cases "drop_bit 7 v = 0")
    case True
    with 1 show ?thesis by (simp add: vlq_encode.simps [of v] Let_def)
  next
    case False
    then have "unat (drop_bit 7 v) \<noteq> 0" by (simp add: unat_eq_0)
    then have big: "128 \<le> unat v" by (simp add: unat_drop_bit_7)
    obtain m where m: "n = Suc m" using 1 by (cases n) auto
    with 1 big have "0 < m" by (cases m) auto
    moreover have "unat (drop_bit 7 v) < 128 ^ m"
      using 1 m by (simp add: unat_drop_bit_7 less_mult_imp_div_less mult.commute)
    ultimately have "length (vlq_encode (drop_bit 7 v)) \<le> m"
      using 1 False by simp
    with False m show ?thesis by (simp add: vlq_encode.simps [of v] Let_def)
  qed
qed

lemma vlq_encode_length_10: "length (vlq_encode v) \<le> 10"
proof (rule vlq_encode_length_bound)
  have "unat v < 2 ^ 64" using unsigned_less [of v] by simp
  also have "(2 :: nat) ^ 64 < 128 ^ 10" by simp
  finally show "unat v < 128 ^ 10" .
qed simp

subsection \<open>The round trip\<close>

lemma low_bits_of_byte: "(ucast (ucast ((v :: u64) AND 0x7F) AND (0x7F :: u8)) :: u64) = v AND 0x7F"
proof -
  have "(ucast (ucast (v AND mask 7) AND (mask 7 :: u8)) :: u64) = v AND mask 7"
    by (rule bit_word_eqI) (auto simp: bit_simps)
  then show ?thesis by (simp add: mask_eq_exp_minus_1)
qed

lemma low_bits_of_cont_byte:
  "(ucast ((ucast ((v :: u64) AND 0x7F) OR 0x80) AND (0x7F :: u8)) :: u64) = v AND 0x7F"
proof -
  have "((ucast (v AND 0x7F) OR 0x80) AND (0x7F :: u8)) = ucast (v AND 0x7F) AND 0x7F"
    by (simp add: bit.conj_disj_distrib2)
  then show ?thesis by (simp only: low_bits_of_byte)
qed

lemma cont_bit_clear: "ucast ((v :: u64) AND 0x7F) AND (0x80 :: u8) = 0"
proof -
  have "ucast (v AND mask 7) AND (NOT (mask 7) :: u8) = 0"
    by (rule bit_word_eqI) (auto simp: bit_simps)
  moreover have neg: "(- 0x80 :: u8) = 0x80" by simp
  ultimately show ?thesis by (simp add: mask_eq_exp_minus_1 neg)
qed

lemma cont_bit_set: "((ucast ((v :: u64) AND 0x7F) OR 0x80) AND (0x80 :: u8)) \<noteq> 0"
  by (simp add: bit.conj_disj_distrib2 cont_bit_clear)

lemma split_low_bits: "((v :: u64) AND 0x7F) OR push_bit 7 (drop_bit 7 v) = v"
proof -
  have "bit ((v AND mask 7) OR push_bit 7 (drop_bit 7 v)) n = bit v n" if "n < 64" for n
    using that by (cases "n < 7") (auto simp: bit_simps)
  then have "(v AND mask 7) OR push_bit 7 (drop_bit 7 v) = v"
    by (intro bit_word_eqI) simp
  then show ?thesis by (simp add: mask_eq_exp_minus_1)
qed

lemma vlq_encode_small:
  assumes "unat v < 128"
  shows "vlq_encode v = [ucast v]"
proof -
  have "unat (drop_bit 7 v) = 0" using assms by (simp add: unat_drop_bit_7)
  then have hi: "drop_bit 7 v = 0" by (simp add: unat_eq_0)
  with split_low_bits [of v] have "v AND 0x7F = v" by simp
  with hi show ?thesis by (simp add: vlq_encode.simps [of v] Let_def)
qed

lemma vlq_decode_loop_encode:
  "at_pos data pos (vlq_encode v @ rest) \<Longrightarrow> shift < 64 \<Longrightarrow> unat v < 2 ^ (64 - shift) \<Longrightarrow>
   vlq_decode_loop data pos r shift = Inr (r OR push_bit shift v, pos + length (vlq_encode v))"
proof (induction v arbitrary: pos r shift rule: vlq_encode.induct)
  case (1 v)
  let ?low = "ucast (v AND 0x7F) :: u8"
  show ?case
  proof (cases "drop_bit 7 v = 0")
    case True
    then have enc: "vlq_encode v = [?low]" by (simp add: vlq_encode.simps [of v] Let_def)
    have v: "v AND 0x7F = v" using split_low_bits [of v] True by simp
    have at: "at_pos data pos (?low # rest)" using 1 enc by simp
    have "vlq_decode_loop data pos r shift = Inr (r OR push_bit shift (v AND 0x7F), Suc pos)"
      by (subst vlq_decode_loop.simps)
         (simp add: at_pos_hd [OF at] at_pos_length [OF at] low_bits_of_byte cont_bit_clear)
    with v show ?thesis by (simp add: enc)
  next
    case False
    let ?hi = "drop_bit 7 v"
    from False have enc: "vlq_encode v = (?low OR 0x80) # vlq_encode ?hi"
      by (simp add: vlq_encode.simps [of v] Let_def)
    have at: "at_pos data pos ((?low OR 0x80) # vlq_encode ?hi @ rest)" using 1 enc by simp
    from False have "unat ?hi \<noteq> 0" by (simp add: unat_eq_0)
    then have "2 ^ 7 \<le> unat v" by (simp add: unat_drop_bit_7)
    then have "(2 :: nat) ^ 7 < 2 ^ (64 - shift)" using 1 by linarith
    then have "7 < 64 - shift" by (rule power_less_imp_less_exp [rotated]) simp
    then obtain k where k: "64 - shift = k + 7" "shift + 7 < 64" "64 - (shift + 7) = k"
      by (metis diff_add_inverse2 diff_diff_left less_diff_conv less_imp_add_positive add.commute)
    have hi: "unat ?hi < 2 ^ (64 - (shift + 7))"
      using 1 k by (simp add: unat_drop_bit_7 power_add less_mult_imp_div_less)
    have "vlq_decode_loop data pos r shift =
        vlq_decode_loop data (pos + 1) (r OR push_bit shift (v AND 0x7F)) (shift + 7)"
      using k by (subst vlq_decode_loop.simps)
        (simp add: at_pos_hd [OF at] at_pos_length [OF at] low_bits_of_cont_byte cont_bit_set)
    also have "\<dots> = Inr ((r OR push_bit shift (v AND 0x7F)) OR push_bit (shift + 7) ?hi,
        pos + 1 + length (vlq_encode ?hi))"
      using 1 False at_pos_Cons [OF at] k hi by simp
    also have "(r OR push_bit shift (v AND 0x7F)) OR push_bit (shift + 7) ?hi
        = r OR push_bit shift ((v AND 0x7F) OR push_bit 7 ?hi)"
      by (simp add: push_bit_or or.assoc)
    finally show ?thesis by (simp only: enc split_low_bits) simp
  qed
qed

lemma vlq_decode_encode [buf_simps]:
  assumes "at_pos data pos (vlq_encode v @ rest)"
  shows "vlq_decode data pos = Inr (v, pos + length (vlq_encode v))"
proof -
  have "unat v < 2 ^ (64 - 0)" using unsigned_less [of v] by simp
  with assms show ?thesis
    by (simp add: vlq_decode_def vlq_decode_loop_encode [where shift = 0])
qed

lemma bit_zigzag: "n < 64 \<Longrightarrow> bit (zigzag v) n = ((0 < n \<and> bit v (n - 1)) \<noteq> bit v 63)"
  unfolding zigzag_def bit_xor_iff bit_push_bit_iff bit_signed_drop_bit_iff
  by (cases n) auto

lemma unzigzag_zigzag [simp]: "unzigzag (zigzag v) = v"
proof (rule bit_word_eqI)
  fix n
  assume n: "n < LENGTH(64)"
  have one: "zigzag v AND 1 = (if bit v 63 then 1 else 0)"
    by (rule bit_word_eqI) (auto simp: bit_and_iff bit_1_iff bit_zigzag)
  have drop: "bit (drop_bit 1 (zigzag v)) n = (n < 63 \<and> bit v n \<noteq> bit v 63)"
    using n bit_imp_le_length [of "zigzag v" "Suc n"]
    unfolding bit_drop_bit_eq by (auto simp: bit_zigzag)
  from n have "n < 63 \<or> n = 63" by auto
  with n show "bit (unzigzag (zigzag v)) n = bit v n"
    unfolding unzigzag_def one bit_xor_iff drop by (auto simp: bit_simps)
qed

lemma vlq_decode_encode_signed [buf_simps]:
  "at_pos data pos (vlq_encode_signed v @ rest) \<Longrightarrow>
   vlq_decode_signed data pos = Inr (v, pos + length (vlq_encode_signed v))"
  by (simp add: vlq_encode_signed_def vlq_decode_signed_def vlq_decode_encode)

subsection \<open>What decoding consumes\<close>

lemma vlq_decode_loop_bounds:
  "vlq_decode_loop data pos r shift = Inr (v, pos') \<Longrightarrow> shift = 7 * k \<Longrightarrow> k \<le> 9 \<Longrightarrow>
   pos < pos' \<and> pos' \<le> length data \<and> pos' + k \<le> pos + 10"
proof (induction data pos r shift arbitrary: k rule: vlq_decode_loop.induct)
  case (1 data pos r shift)
  show ?case
  proof (cases "length data \<le> pos \<or> data ! pos AND 0x80 = 0")
    case True
    with "1.prems" show ?thesis
      by (auto simp: vlq_decode_loop.simps [of data pos] Let_def split: if_splits)
  next
    case False
    with "1.prems" have le: "shift + 7 \<le> 63"
      and rec: "vlq_decode_loop data (pos + 1)
        (r OR push_bit shift (ucast (data ! pos AND 0x7F))) (shift + 7) = Inr (v, pos')"
      by (auto simp: vlq_decode_loop.simps [of data pos] Let_def split: if_splits)
    have "pos + 1 < pos' \<and> pos' \<le> length data \<and> pos' + (k + 1) \<le> pos + 1 + 10"
      using False le "1.prems" by (intro "1.IH" [OF _ refl refl refl _ _ rec]) auto
    then show ?thesis by simp
  qed
qed

lemma vlq_decode_bounds:
  "vlq_decode data pos = Inr (v, pos') \<Longrightarrow> pos < pos' \<and> pos' \<le> length data \<and> pos' \<le> pos + 10"
  using vlq_decode_loop_bounds [of data pos 0 0 v pos' 0] by (simp add: vlq_decode_def)

text \<open>Only the bytes from the position on matter.\<close>

lemma vlq_decode_no_panic: "vlq_decode data pos \<noteq> Inl (Panic s)"
proof -
  have "vlq_decode_loop data pos r shift \<noteq> Inl (Panic s)" for r shift
    by (induction data pos r shift rule: vlq_decode_loop.induct)
       (subst vlq_decode_loop.simps, auto simp: Let_def)
  then show ?thesis by (simp add: vlq_decode_def)
qed

subsection \<open>The interface of a codec\<close>

text \<open>
  A codec writes a value as bytes and reads it back at a position of a buffer, leaving what
  follows. \<open>read_n\<close> is the reader of the loops \<open>for _ in 0..count\<close>; a client that writes a
  count and the encodings one after another reads the same list back.
\<close>

fun read_n :: "(bytes \<Rightarrow> nat \<Rightarrow> network_error + 'a \<times> nat) \<Rightarrow> nat \<Rightarrow> bytes \<Rightarrow> nat \<Rightarrow>
    network_error + 'a list \<times> nat" where
  "read_n dec 0 data pos = Inr ([], pos)"
| "read_n dec (Suc n) data pos =
     rbind (dec data pos) (\<lambda>(x, pos').
       rbind (read_n dec n data pos') (\<lambda>(xs, pos''). Inr (x # xs, pos'')))"

locale pos_codec =
  fixes enc :: "'a \<Rightarrow> bytes"
    and dec :: "bytes \<Rightarrow> nat \<Rightarrow> network_error + 'a \<times> nat"
    and wf :: "'a \<Rightarrow> bool"
  assumes dec_enc: "wf x \<Longrightarrow> length data < usize_limit \<Longrightarrow> at_pos data pos (enc x @ rest) \<Longrightarrow>
      dec data pos = Inr (x, pos + length (enc x))"
begin

lemma dec_enc_whole: "wf x \<Longrightarrow> length (enc x) < usize_limit \<Longrightarrow> dec (enc x) 0 = Inr (x, length (enc x))"
  using dec_enc [of x "enc x" 0 "[]"] by (simp add: at_pos_start)

lemma read_n_concat:
  "list_all wf xs \<Longrightarrow> length data < usize_limit \<Longrightarrow> at_pos data pos (concat (map enc xs) @ rest) \<Longrightarrow>
   read_n dec (length xs) data pos = Inr (xs, pos + length (concat (map enc xs)))"
proof (induction xs arbitrary: pos)
  case Nil
  then show ?case by simp
next
  case (Cons x xs)
  from Cons.prems have at: "at_pos data pos (enc x @ concat (map enc xs) @ rest)" by simp
  from Cons.prems dec_enc [OF _ _ at]
  have x: "dec data pos = Inr (x, pos + length (enc x))" by simp
  have "read_n dec (length xs) data (pos + length (enc x)) =
      Inr (xs, pos + length (enc x) + length (concat (map enc xs)))"
    using Cons at_pos_append [OF at] by simp
  with x show ?case by (simp add: add.assoc)
qed

text \<open>Distinct well-formed values have distinct encodings, and no encoding extends another.\<close>

lemma enc_inj:
  assumes "wf x" "wf y" "enc x @ r = enc y @ r'" "length (enc x @ r) < usize_limit"
  shows "x = y \<and> r = r'"
  using dec_enc [of x "enc x @ r" 0 r] dec_enc [of y "enc y @ r'" 0 r'] assms
  by (simp add: at_pos_start)

end

interpretation vlq: pos_codec vlq_encode vlq_decode "\<lambda>_. True"
  by unfold_locales (rule vlq_decode_encode)

interpretation vlq_signed: pos_codec vlq_encode_signed vlq_decode_signed "\<lambda>_. True"
  by unfold_locales (rule vlq_decode_encode_signed)

subsection \<open>Properties\<close>

text \<open>An integer written by \<open>vlq_encode\<close> anywhere in a buffer is read back by \<open>vlq_decode\<close>
  at its position, and the reader stops right after the \<open>vlq_byte_len\<close> bytes it was written
  with, at most ten.\<close>

theorem vlq_roundtrip:
  "vlq_decode (pre @ vlq_encode v @ rest) (length pre) = Inr (v, length pre + vlq_byte_len v) \<and>
   vlq_byte_len v \<le> 10"
  using vlq_decode_encode [OF at_pos_prefix] vlq_encode_length_10
  by (simp add: vlq_byte_len_encode)

text \<open>The signed (ZigZag) coding is read back exactly as well, for every 64-bit value.\<close>

theorem vlq_signed_roundtrip:
  "vlq_decode_signed (pre @ vlq_encode_signed v @ rest) (length pre) =
     Inr (v, length pre + length (vlq_encode_signed v))"
  by (rule vlq_decode_encode_signed [OF at_pos_prefix])

end
