(* ===== verification/Utf8.thy ===== *)
theory Utf8
  imports Prelude
begin

text \<open>
  \<open>String::from_utf8_lossy\<close> of the standard library, which every parser of a name or of a
  URL calls. A Rust string is the list of its UTF-8 bytes; \<open>utf8_step\<close> is one step of the
  library's scan (how many bytes it takes, and whether they are a character), \<open>utf8\<close> says
  that a byte string is valid UTF-8, and the lossy conversion is the identity there.
\<close>

definition cont_byte :: "u8 \<Rightarrow> bool" where
  "cont_byte b \<longleftrightarrow> b AND 192 = 128"

definition utf8_char_width :: "u8 \<Rightarrow> nat" where
  "utf8_char_width b =
     (if b < 0x80 then 1 else if 0xC2 \<le> b \<and> b \<le> 0xDF then 2
      else if 0xE0 \<le> b \<and> b \<le> 0xEF then 3 else if 0xF0 \<le> b \<and> b \<le> 0xF4 then 4 else 0)"

definition safe_get :: "bytes \<Rightarrow> nat \<Rightarrow> u8" where
  "safe_get xs i = (if i < length xs then xs ! i else 0)"

definition second_of_3 :: "u8 \<Rightarrow> u8 \<Rightarrow> bool" where
  "second_of_3 b c \<longleftrightarrow>
     b = 0xE0 \<and> 0xA0 \<le> c \<and> c \<le> 0xBF \<or> 0xE1 \<le> b \<and> b \<le> 0xEC \<and> 0x80 \<le> c \<and> c \<le> 0xBF
     \<or> b = 0xED \<and> 0x80 \<le> c \<and> c \<le> 0x9F \<or> 0xEE \<le> b \<and> b \<le> 0xEF \<and> 0x80 \<le> c \<and> c \<le> 0xBF"

definition second_of_4 :: "u8 \<Rightarrow> u8 \<Rightarrow> bool" where
  "second_of_4 b c \<longleftrightarrow>
     b = 0xF0 \<and> 0x90 \<le> c \<and> c \<le> 0xBF \<or> 0xF1 \<le> b \<and> b \<le> 0xF3 \<and> 0x80 \<le> c \<and> c \<le> 0xBF
     \<or> b = 0xF4 \<and> 0x80 \<le> c \<and> c \<le> 0x8F"

definition utf8_step :: "bytes \<Rightarrow> nat \<times> bool" where
  "utf8_step bs =
     (let b = safe_get bs 0; w = utf8_char_width b in
      if w = 1 then (1, True)
      else if w = 2 then (if cont_byte (safe_get bs 1) then (2, True) else (1, False))
      else if w = 3 then
        (if \<not> second_of_3 b (safe_get bs 1) then (1, False)
         else if \<not> cont_byte (safe_get bs 2) then (2, False) else (3, True))
      else if w = 4 then
        (if \<not> second_of_4 b (safe_get bs 1) then (1, False)
         else if \<not> cont_byte (safe_get bs 2) then (2, False)
         else if \<not> cont_byte (safe_get bs 3) then (3, False) else (4, True))
      else (1, False))"

lemma utf8_step_pos: "0 < fst (utf8_step bs)"
  by (auto simp: utf8_step_def Let_def)

definition replacement_char :: bytes where
  "replacement_char = [0xEF, 0xBF, 0xBD]"

function from_utf8_lossy :: "bytes \<Rightarrow> bytes" where
  "from_utf8_lossy bs =
     (if bs = [] then []
      else case utf8_step bs of (n, ok) \<Rightarrow>
        (if ok then take n bs else replacement_char) @ from_utf8_lossy (drop n bs))"
  by pat_completeness auto
termination from_utf8_lossy
proof (relation "measure length", goal_cases)
  case 1
  show ?case by simp
next
  case (2 bs n ok)
  then have "0 < n" using utf8_step_pos [of bs] by (metis fst_conv)
  with 2 show ?case by simp
qed

function utf8 :: "bytes \<Rightarrow> bool" where
  "utf8 bs =
     (if bs = [] then True else case utf8_step bs of (n, ok) \<Rightarrow> ok \<and> utf8 (drop n bs))"
  by pat_completeness auto
termination utf8
proof (relation "measure length", goal_cases)
  case 1
  show ?case by simp
next
  case (2 bs n ok)
  then have "0 < n" using utf8_step_pos [of bs] by (metis fst_conv)
  with 2 show ?case by simp
qed

declare from_utf8_lossy.simps [simp del] utf8.simps [simp del]

lemma utf8_Nil [simp]: "utf8 []" "from_utf8_lossy [] = []"
  by (simp_all add: utf8.simps [of "[]"] from_utf8_lossy.simps [of "[]"])

lemma from_utf8_lossy_id [simp]: "utf8 bs \<Longrightarrow> from_utf8_lossy bs = bs"
proof (induction bs rule: utf8.induct)
  case (1 bs)
  then show ?case
    by (cases "bs = []")
       (auto simp: from_utf8_lossy.simps [of bs] utf8.simps [of bs] split: prod.splits)
qed

lemma utf8_ascii: "list_all (\<lambda>b. b < 0x80) bs \<Longrightarrow> utf8 bs"
proof (induction bs)
  case Nil
  show ?case by simp
next
  case (Cons b bs)
  then have "utf8_step (b # bs) = (1, True)"
    by (simp add: utf8_step_def safe_get_def utf8_char_width_def)
  with Cons show ?case by (simp add: utf8.simps [of "b # bs"])
qed

end
