(* ===== verification/Handshake.thy ===== *)
theory Handshake
  imports Vlq Utf8
begin

text \<open>
  The raw handshake and the peer specification of handshake.rs: their data, the two
  serializers and the two parsers, which share every step but the timestamp. A failed read
  is an error value; a length from the wire that overflows the position is a panic. The
  lemmas show that a well-formed peer specification is read back whatever follows it, that
  the position never leaves the buffer, and how the incremental reader of the handshake
  behaves.
\<close>

subsection \<open>Data\<close>

datatype ip_addr = V4 u8 u8 u8 u8 | V6 bytes

record declared_address =
  da_ip :: ip_addr
  da_port :: u16

text \<open>\<open>i32\<close> fields are kept as their 32-bit two's complement words.\<close>

datatype peer_feature =
    Mode u8 bool "u32 option" u32
  | Session bytes u64
  | LocalAddress ip_addr u16
  | RestApiUrl bytes
  | UnknownFeature u8 bytes

record peer_spec =
  ps_agent_name :: bytes
  ps_version :: "u8 \<times> u8 \<times> u8"
  ps_peer_name :: bytes
  ps_declared_addr :: "declared_address option"
  ps_features :: "peer_feature list"

record handshake_data =
  hs_time :: u64
  hs_spec :: peer_spec

definition MAX_HANDSHAKE_SIZE :: nat where
  "MAX_HANDSHAKE_SIZE = 8096"

definition from_handshake :: "handshake_data \<Rightarrow> peer_spec" where
  "from_handshake h = hs_spec h"

definition peer_spec_new :: "bytes \<Rightarrow> u8 \<times> u8 \<times> u8 \<Rightarrow> bytes \<Rightarrow> declared_address option \<Rightarrow> peer_spec" where
  "peer_spec_new agent version peer addr =
     \<lparr>ps_agent_name = agent, ps_version = version, ps_peer_name = peer,
      ps_declared_addr = addr, ps_features = []\<rparr>"

definition handshake_new :: "u64 \<Rightarrow> bytes \<Rightarrow> u8 \<times> u8 \<times> u8 \<Rightarrow> bytes \<Rightarrow> handshake_data" where
  "handshake_new now agent version peer =
     \<lparr>hs_time = now, hs_spec = peer_spec_new agent version peer None\<rparr>"

definition with_mainnet_features :: "handshake_data \<Rightarrow> u64 \<Rightarrow> handshake_data" where
  "with_mainnet_features h session_id =
     h\<lparr>hs_spec := (hs_spec h)\<lparr>ps_features :=
        ps_features (hs_spec h) @ [Mode 0 True None (- 1), Session [1, 0, 2, 4] session_id]\<rparr>\<rparr>"

subsection \<open>Writing\<close>

fun ip_octets :: "ip_addr \<Rightarrow> bytes" where
  "ip_octets (V4 a b c d) = [a, b, c, d]"
| "ip_octets (V6 os) = os"

fun ip_size_tag :: "ip_addr \<Rightarrow> u8" where
  "ip_size_tag (V4 a b c d) = 8"
| "ip_size_tag (V6 os) = 20"

definition len_u64 :: "bytes \<Rightarrow> u64" where
  "len_u64 bs = of_nat (length bs)"

definition serialize_name :: "bytes \<Rightarrow> bytes" where
  "serialize_name s = of_nat (length s) # s"

definition serialize_addr :: "declared_address option \<Rightarrow> bytes" where
  "serialize_addr a =
     (case a of
        None \<Rightarrow> [0]
      | Some d \<Rightarrow> 1 # ip_size_tag (da_ip d) # ip_octets (da_ip d) @ vlq_encode (ucast (da_port d)))"

fun feature_id :: "peer_feature \<Rightarrow> u8" where
  "feature_id (Mode st ver nip keep) = 16"
| "feature_id (Session magic sid) = 3"
| "feature_id (LocalAddress ip port) = 2"
| "feature_id (RestApiUrl url) = 4"
| "feature_id (UnknownFeature i d) = i"

fun feature_data :: "peer_feature \<Rightarrow> bytes" where
  "feature_data (Mode st ver nip keep) =
     st # (if ver then 1 else 0) #
     (case nip of Some suffix \<Rightarrow> 1 # be_u32 suffix | None \<Rightarrow> [0]) @
     vlq_encode_signed (scast keep)"
| "feature_data (Session magic sid) = magic @ vlq_encode sid"
| "feature_data (LocalAddress ip port) = ip_octets ip @ be_u32 (ucast port)"
| "feature_data (RestApiUrl url) = of_nat (length url) # url"
| "feature_data (UnknownFeature i d) = d"

definition serialize_feature :: "peer_feature \<Rightarrow> bytes" where
  "serialize_feature f = feature_id f # vlq_encode (len_u64 (feature_data f)) @ feature_data f"

definition serialize_features :: "peer_feature list \<Rightarrow> bytes" where
  "serialize_features fs = of_nat (length fs) # concat (map serialize_feature fs)"

definition peer_spec_serialize :: "peer_spec \<Rightarrow> bytes" where
  "peer_spec_serialize p =
     (case ps_version p of (v0, v1, v2) \<Rightarrow>
        serialize_name (ps_agent_name p) @ [v0, v1, v2] @ serialize_name (ps_peer_name p) @
        serialize_addr (ps_declared_addr p) @ serialize_features (ps_features p))"

definition handshake_serialize :: "handshake_data \<Rightarrow> bytes" where
  "handshake_serialize h = vlq_encode (hs_time h) @ peer_spec_serialize (hs_spec h)"

subsection \<open>Reading\<close>

definition parse_name :: "string \<Rightarrow> string \<Rightarrow> bytes \<Rightarrow> nat \<Rightarrow> network_error + bytes \<times> nat" where
  "parse_name missing short data pos =
     (if length data \<le> pos then Inl (InvalidMessage missing)
      else let len = unat (data ! pos); p = pos + 1 in
        if p + len > length data then Inl (InvalidMessage short)
        else Inr (from_utf8_lossy (subslice data p (p + len)), p + len))"

definition parse_version :: "bytes \<Rightarrow> nat \<Rightarrow> network_error + (u8 \<times> u8 \<times> u8) \<times> nat" where
  "parse_version data pos =
     (if pos + 3 > length data then Inl (InvalidMessage ''Truncated version'')
      else Inr ((data ! pos, data ! (pos + 1), data ! (pos + 2)), pos + 3))"

definition parse_ip :: "u8 \<Rightarrow> bytes \<Rightarrow> nat \<Rightarrow> network_error + ip_addr \<times> nat" where
  "parse_ip addr_type data pos =
     (if addr_type = 8 then
        if pos + 4 > length data then Inl (InvalidMessage ''Truncated IPv4 address'')
        else Inr (V4 (data ! pos) (data ! (pos + 1)) (data ! (pos + 2)) (data ! (pos + 3)), pos + 4)
      else if addr_type = 20 then
        if pos + 16 > length data then Inl (InvalidMessage ''Truncated IPv6 address'')
        else Inr (V6 (subslice data pos (pos + 16)), pos + 16)
      else Inl (InvalidMessage ''Unknown address type''))"

definition parse_addr :: "bytes \<Rightarrow> nat \<Rightarrow> network_error + declared_address option \<times> nat" where
  "parse_addr data pos =
     (if pos < length data \<and> data ! pos = 1 then
        let p = pos + 1 in
        if length data \<le> p then Inl (InvalidMessage ''Truncated declared address'')
        else rbind (parse_ip (data ! p) data (p + 1)) (\<lambda>(ip, p2).
          rbind (vlq_decode data p2) (\<lambda>(port, p3).
            Inr (Some \<lparr>da_ip = ip, da_port = ucast port\<rparr>, p3)))
      else if pos < length data then Inr (None, pos + 1)
      else Inr (None, pos))"

definition parse_mode :: "bytes \<Rightarrow> peer_feature" where
  "parse_mode d =
     (let (nip, blocks_pos) =
        (if d ! 2 = 1 then
           (if 7 \<le> length d then (Some (from_be_u32 (d ! 3) (d ! 4) (d ! 5) (d ! 6)), 7)
            else (None, 3))
         else (None, 3));
          (keep, _) = res_unwrap_or (1, 0) (vlq_decode_signed d blocks_pos)
      in Mode (d ! 0) (d ! 1 \<noteq> 0) nip (ucast keep))"

definition parse_feature :: "u8 \<Rightarrow> bytes \<Rightarrow> peer_feature" where
  "parse_feature i d =
     (if i = 16 then (if length d < 3 then UnknownFeature i d else parse_mode d)
      else if i = 3 then
        (if 5 \<le> length d
         then Session (take 4 d) (fst (res_unwrap_or (0, 4) (vlq_decode d 4)))
         else UnknownFeature i d)
      else if i = 2 then
        (if length d = 8
         then LocalAddress (V4 (d ! 0) (d ! 1) (d ! 2) (d ! 3))
                (ucast (from_be_u32 (d ! 4) (d ! 5) (d ! 6) (d ! 7)))
         else UnknownFeature i d)
      else if i = 4 then
        (if d \<noteq> [] \<and> 1 + unat (d ! 0) \<le> length d
         then RestApiUrl (from_utf8_lossy (subslice d 1 (1 + unat (d ! 0))))
         else UnknownFeature i d)
      else UnknownFeature i d)"

text \<open>
  The loop over the features. \<open>pos + feature_len\<close> is computed in \<open>usize\<close>: when it overflows,
  the debug build panics at the addition and the release build passes the length test with
  a wrapped end below the start and panics at the slice.
\<close>

fun parse_features :: "nat \<Rightarrow> bytes \<Rightarrow> nat \<Rightarrow> network_error + peer_feature list \<times> nat" where
  "parse_features 0 data pos = Inr ([], pos)"
| "parse_features (Suc n) data pos =
     (if length data \<le> pos then Inr ([], pos)
      else rbind (vlq_decode data (pos + 1)) (\<lambda>(flen, p).
        if usize_limit \<le> p + unat flen then Inl (Panic ''slice index'')
        else if p + unat flen > length data then Inl (InvalidMessage ''Truncated feature data'')
        else rbind (parse_features n data (p + unat flen)) (\<lambda>(fs, q).
          Inr (parse_feature (data ! pos) (subslice data p (p + unat flen)) # fs, q))))"

definition parse_feature_block :: "bytes \<Rightarrow> nat \<Rightarrow> network_error + peer_feature list \<times> nat" where
  "parse_feature_block data pos =
     (if pos < length data then parse_features (unat (data ! pos)) data (pos + 1)
      else Inr ([], pos))"

text \<open>The common body; the two parsers differ in the text of one error.\<close>

definition parse_body :: "string \<Rightarrow> bytes \<Rightarrow> nat \<Rightarrow> network_error + peer_spec \<times> nat" where
  "parse_body missing data pos =
     rbind (parse_name missing ''Truncated agent name'' data pos) (\<lambda>(agent, p1).
     rbind (parse_version data p1) (\<lambda>(version, p2).
     rbind (parse_name missing ''Truncated peer name'' data p2) (\<lambda>(peer, p3).
     rbind (parse_addr data p3) (\<lambda>(addr, p4).
     rbind (parse_feature_block data p4) (\<lambda>(features, p5).
       Inr (\<lparr>ps_agent_name = agent, ps_version = version, ps_peer_name = peer,
             ps_declared_addr = addr, ps_features = features\<rparr>, p5))))))"

definition peer_spec_parse :: "bytes \<Rightarrow> nat \<Rightarrow> network_error + peer_spec \<times> nat" where
  "peer_spec_parse data pos = parse_body ''Truncated PeerSpec'' data pos"

definition handshake_parse :: "bytes \<Rightarrow> network_error + handshake_data" where
  "handshake_parse data =
     (if MAX_HANDSHAKE_SIZE < length data then Inl (InvalidMessage ''Handshake too large'')
      else rbind (vlq_decode data 0) (\<lambda>(time, p).
        rbind (parse_body ''Truncated handshake'' data p) (\<lambda>(spec, _).
          Inr \<lparr>hs_time = time, hs_spec = spec\<rparr>)))"

subsection \<open>Queries\<close>

fun find_session :: "peer_feature list \<Rightarrow> (bytes \<times> u64) option" where
  "find_session [] = None"
| "find_session (Session magic sid # fs) = Some (magic, sid)"
| "find_session (f # fs) = find_session fs"

definition get_magic :: "handshake_data \<Rightarrow> bytes option" where
  "get_magic h = map_option fst (find_session (ps_features (hs_spec h)))"

definition get_session_id :: "handshake_data \<Rightarrow> u64 option" where
  "get_session_id h = map_option snd (find_session (ps_features (hs_spec h)))"

subsection \<open>The incremental reader\<close>

text \<open>
  \<open>HandshakeCodec::read_handshake\<close> over the list of chunks that successive reads of the
  socket return; a read of no bytes, and the end of the list, is the closed connection. The
  result carries the codec: its buffer and its completion flag.
\<close>

record handshake_codec =
  hc_complete :: bool
  hc_buffer :: bytes

definition handshake_codec_new :: handshake_codec where
  "handshake_codec_new = \<lparr>hc_complete = False, hc_buffer = []\<rparr>"

definition try_handshake :: "bytes \<Rightarrow> network_error + handshake_data option" where
  "try_handshake buf =
     (case handshake_parse buf of
        Inr h \<Rightarrow> Inr (Some h)
      | Inl (Panic s) \<Rightarrow> Inl (Panic s)
      | Inl _ \<Rightarrow> Inr None)"

fun read_handshake :: "handshake_codec \<Rightarrow> bytes list \<Rightarrow>
    (network_error + handshake_data) \<times> handshake_codec \<times> bytes list" where
  "read_handshake c chunks =
     (case (if hc_buffer c \<noteq> [] then try_handshake (hc_buffer c) else Inr None) of
        Inl e \<Rightarrow> (Inl e, c, chunks)
      | Inr (Some h) \<Rightarrow> (Inr h, c\<lparr>hc_complete := True\<rparr>, chunks)
      | Inr None \<Rightarrow>
          if MAX_HANDSHAKE_SIZE < length (hc_buffer c)
          then (Inl (InvalidMessage ''Handshake too large''), c, chunks)
          else (case chunks of
            [] \<Rightarrow> (Inl ConnectionClosed, c, [])
          | chunk # chunks' \<Rightarrow>
              if chunk = [] then (Inl ConnectionClosed, c, chunks')
              else let c' = c\<lparr>hc_buffer := hc_buffer c @ chunk\<rparr> in
                (case try_handshake (hc_buffer c') of
                   Inl e \<Rightarrow> (Inl e, c', chunks')
                 | Inr (Some h) \<Rightarrow> (Inr h, c'\<lparr>hc_complete := True\<rparr>, chunks')
                 | Inr None \<Rightarrow> read_handshake c' chunks')))"

declare read_handshake.simps [simp del]

subsection \<open>Round trip of the parts\<close>

lemma u8_len [simp]: "length s < 256 \<Longrightarrow> unat (of_nat (length s) :: u8) = length s"
  by (simp add: unat_of_nat)

lemma unat_len_u64 [simp]: "length s < usize_limit \<Longrightarrow> unat (len_u64 s) = length s"
  by (simp add: len_u64_def usize_limit_def unat_of_nat)

lemma parse_name_serialize:
  assumes "utf8 s" "length s < 256" and at: "at_pos data pos (serialize_name s @ rest)"
  shows "parse_name missing short data pos = Inr (s, pos + length (serialize_name s))"
proof -
  have at1: "at_pos data pos (of_nat (length s) # s @ rest)"
    using at by (simp add: serialize_name_def)
  have at2: "at_pos data (Suc pos) (s @ rest)" using at1 by (rule at_pos_Cons)
  show ?thesis
    using assms at_pos_length [OF at1] at_pos_subslice [OF at2 refl]
    by (simp add: parse_name_def at_pos_hd [OF at1] serialize_name_def Let_def)
qed

lemma parse_version_serialize:
  assumes at: "at_pos data pos (v0 # v1 # v2 # rest)"
  shows "parse_version data pos = Inr ((v0, v1, v2), pos + 3)"
proof -
  have "data ! (pos + i) = (v0 # v1 # v2 # rest) ! i" if "i < 3" for i
    using at_pos_nth [OF at, of i] that by simp
  from this [of 0] this [of 1] this [of 2] show ?thesis
    using at_pos_length [OF at] by (simp add: parse_version_def numeral_2_eq_2)
qed

fun wf_ip :: "ip_addr \<Rightarrow> bool" where
  "wf_ip (V4 a b c d) \<longleftrightarrow> True"
| "wf_ip (V6 os) \<longleftrightarrow> length os = 16"

lemma parse_ip_octets:
  assumes at: "at_pos data pos (ip_octets ip @ rest)" and wf: "wf_ip ip"
  shows "parse_ip (ip_size_tag ip) data pos = Inr (ip, pos + length (ip_octets ip))"
proof (cases ip)
  case (V4 a b c d)
  have "data ! (pos + i) = (a # b # c # d # rest) ! i" if "i < 4" for i
    using at_pos_nth [OF at, of i] that V4 by simp
  from this [of 0] this [of 1] this [of 2] this [of 3] show ?thesis
    using V4 at_pos_length [OF at] by (simp add: parse_ip_def numeral_eq_Suc)
next
  case (V6 os)
  with wf at show ?thesis
    using at_pos_length [OF at] at_pos_subslice [of data pos os rest 16]
    by (simp add: parse_ip_def)
qed

lemma parse_addr_serialize:
  assumes at: "at_pos data pos (serialize_addr a @ rest)"
    and wf: "case a of None \<Rightarrow> True | Some d \<Rightarrow> wf_ip (da_ip d)"
  shows "parse_addr data pos = Inr (a, pos + length (serialize_addr a))"
proof (cases a)
  case None
  with at have at1: "at_pos data pos (0 # rest)" by (simp add: serialize_addr_def)
  with None show ?thesis
    by (simp add: parse_addr_def at_pos_hd [OF at1] at_pos_length [OF at1] serialize_addr_def)
next
  case (Some d)
  let ?ip = "da_ip d" and ?port = "vlq_encode (ucast (da_port d))"
  have at1: "at_pos data pos (1 # ip_size_tag ?ip # ip_octets ?ip @ ?port @ rest)"
    using at Some by (simp add: serialize_addr_def)
  have at2: "at_pos data (Suc pos) (ip_size_tag ?ip # ip_octets ?ip @ ?port @ rest)"
    using at1 by (rule at_pos_Cons)
  have at3: "at_pos data (Suc (Suc pos)) (ip_octets ?ip @ ?port @ rest)"
    using at2 by (rule at_pos_Cons)
  have at4: "at_pos data (Suc (Suc pos) + length (ip_octets ?ip)) (?port @ rest)"
    using at3 by (rule at_pos_append)
  have ip: "parse_ip (ip_size_tag ?ip) data (Suc (Suc pos)) =
      Inr (?ip, Suc (Suc pos) + length (ip_octets ?ip))"
    using parse_ip_octets [OF at3] wf Some by simp
  show ?thesis
    using Some ip vlq_decode_encode [OF at4] at_pos_length [OF at2]
    by (simp add: parse_addr_def at_pos_hd [OF at1] at_pos_hd [OF at2] serialize_addr_def Let_def)
qed

subsection \<open>Round trip of a feature\<close>

text \<open>
  The features the format can carry: a session has four magic bytes, a local address is an
  IPv4 address (the reader accepts eight bytes only), a URL fits its length byte, and an
  unknown feature is one that the reader does not interpret.
\<close>

fun wf_feature :: "peer_feature \<Rightarrow> bool" where
  "wf_feature (Mode st ver nip keep) \<longleftrightarrow> True"
| "wf_feature (Session magic sid) \<longleftrightarrow> length magic = 4"
| "wf_feature (LocalAddress ip port) \<longleftrightarrow> (\<exists>a b c d. ip = V4 a b c d)"
| "wf_feature (RestApiUrl url) \<longleftrightarrow> utf8 url \<and> length url < 256"
| "wf_feature (UnknownFeature i d) \<longleftrightarrow> parse_feature i d = UnknownFeature i d"

lemma parse_mode_data: "parse_feature 16 (feature_data (Mode st ver nip keep)) = Mode st ver nip keep"
proof -
  let ?keep = "vlq_encode_signed (scast keep)"
  have ne: "?keep \<noteq> []" by (simp add: vlq_encode_signed_def)
  show ?thesis
  proof (cases nip)
    case None
    have at: "at_pos (feature_data (Mode st ver nip keep)) 3 (?keep @ [])"
      using None at_pos_prefix [of "[st, if ver then 1 else 0, 0]" ?keep]
      by (simp add: numeral_3_eq_3 split: if_splits)
    show ?thesis
      using ne vlq_decode_encode_signed [OF at] None
      by (simp add: parse_feature_def parse_mode_def Let_def)
  next
    case (Some suffix)
    have at: "at_pos (feature_data (Mode st ver nip keep)) 7 (?keep @ [])"
      using Some at_pos_prefix [of "st # (if ver then 1 else 0) # 1 # be_u32 suffix" ?keep]
      by (simp add: numeral_eq_Suc split: if_splits)
    show ?thesis
      using ne vlq_decode_encode_signed [OF at] Some
      by (simp add: parse_feature_def parse_mode_def Let_def be_u32_def)
  qed
qed

lemma parse_session_data:
  assumes "length magic = 4"
  shows "parse_feature 3 (magic @ vlq_encode sid) = Session magic sid"
proof -
  have at: "at_pos (magic @ vlq_encode sid) 4 (vlq_encode sid @ [])"
    using assms at_pos_prefix [of magic "vlq_encode sid"] by simp
  have "Suc 0 \<le> length (vlq_encode sid)" by (simp add: Suc_le_eq)
  then show ?thesis
    using assms vlq_decode_encode [OF at] by (simp add: parse_feature_def)
qed

lemma parse_feature_data:
  "wf_feature f \<Longrightarrow> parse_feature (feature_id f) (feature_data f) = f"
proof (cases f)
  case (LocalAddress ip port)
  assume "wf_feature f"
  with LocalAddress obtain a b c d where ip: "ip = V4 a b c d" by auto
  with LocalAddress ip show ?thesis
    by (simp add: parse_feature_def be_u32_def nth_append)
next
  case (RestApiUrl url)
  assume "wf_feature f"
  with RestApiUrl show ?thesis by (simp add: parse_feature_def subslice_def)
qed (use parse_mode_data parse_session_data in auto)

lemma feature_data_fits:
  assumes "at_pos data pos (serialize_feature f @ rest)" "length data < usize_limit"
  shows "length (feature_data f) < usize_limit"
  using assms at_pos_length [OF assms(1)] by (simp add: serialize_feature_def)

lemma parse_features_concat:
  "list_all wf_feature fs \<Longrightarrow> length data < usize_limit \<Longrightarrow>
   at_pos data pos (concat (map serialize_feature fs) @ rest) \<Longrightarrow>
   parse_features (length fs) data pos =
     Inr (fs, pos + length (concat (map serialize_feature fs)))"
proof (induction fs arbitrary: pos)
  case Nil
  then show ?case by simp
next
  case (Cons f fs)
  let ?d = "feature_data f" and ?tail = "concat (map serialize_feature fs) @ rest"
  have at: "at_pos data pos (serialize_feature f @ ?tail)" using Cons.prems by simp
  have at1: "at_pos data pos (feature_id f # vlq_encode (len_u64 ?d) @ ?d @ ?tail)"
    using at by (simp add: serialize_feature_def)
  have at2: "at_pos data (Suc pos) (vlq_encode (len_u64 ?d) @ ?d @ ?tail)"
    using at1 by (rule at_pos_Cons)
  define p where "p = Suc pos + length (vlq_encode (len_u64 ?d))"
  have at3: "at_pos data p (?d @ ?tail)" unfolding p_def using at2 by (rule at_pos_append)
  have fits: "length ?d < usize_limit" by (rule feature_data_fits [OF at Cons.prems(2)])
  have inside: "p + length ?d \<le> length data" using at_pos_length [OF at3] by simp
  have rest: "parse_features (length fs) data (p + length ?d) =
      Inr (fs, p + length ?d + length (concat (map serialize_feature fs)))"
    using Cons at_pos_append [OF at3] by simp
  have this_feature: "parse_feature (data ! pos) (subslice data p (p + length ?d)) = f"
    using Cons.prems at_pos_subslice [OF at3 refl] parse_feature_data at_pos_hd [OF at1] by simp
  have dec: "vlq_decode data (Suc pos) = Inr (len_u64 ?d, p)"
    using vlq_decode_encode [OF at2] by (simp add: p_def)
  have "pos < length data" using at_pos_length [OF at1] by simp
  then have "parse_features (length (f # fs)) data pos =
      Inr (f # fs, p + length ?d + length (concat (map serialize_feature fs)))"
    using inside Cons.prems(2) fits by (simp add: dec rest this_feature)
  moreover have "length (serialize_feature f) = Suc (length (vlq_encode (len_u64 ?d)) + length ?d)"
    by (simp add: serialize_feature_def)
  ultimately show ?case by (simp add: p_def)
qed

lemma parse_feature_block_serialize:
  assumes "list_all wf_feature fs" "length fs < 256" "length data < usize_limit"
    and at: "at_pos data pos (serialize_features fs @ rest)"
  shows "parse_feature_block data pos = Inr (fs, pos + length (serialize_features fs))"
proof -
  have at1: "at_pos data pos (of_nat (length fs) # concat (map serialize_feature fs) @ rest)"
    using at by (simp add: serialize_features_def)
  have "unat (of_nat (length fs) :: u8) = length fs" using assms(2) by (simp add: unat_of_nat)
  then show ?thesis
    using assms parse_features_concat [OF _ _ at_pos_Cons [OF at1]]
    by (simp add: parse_feature_block_def at_pos_hd [OF at1] at_pos_length [OF at1]
        serialize_features_def)
qed

subsection \<open>Round trip of a peer specification\<close>

definition wf_spec :: "peer_spec \<Rightarrow> bool" where
  "wf_spec p \<longleftrightarrow>
     utf8 (ps_agent_name p) \<and> length (ps_agent_name p) < 256 \<and>
     utf8 (ps_peer_name p) \<and> length (ps_peer_name p) < 256 \<and>
     (case ps_declared_addr p of None \<Rightarrow> True | Some d \<Rightarrow> wf_ip (da_ip d)) \<and>
     list_all wf_feature (ps_features p) \<and> length (ps_features p) < 256"

lemma parse_body_serialize:
  assumes wf: "wf_spec p" and len: "length data < usize_limit"
    and at: "at_pos data pos (peer_spec_serialize p @ rest)"
  shows "parse_body missing data pos = Inr (p, pos + length (peer_spec_serialize p))"
proof -
  obtain v0 v1 v2 where v: "ps_version p = (v0, v1, v2)" by (cases "ps_version p")
  let ?a = "serialize_name (ps_agent_name p)" and ?n = "serialize_name (ps_peer_name p)"
    and ?d = "serialize_addr (ps_declared_addr p)" and ?f = "serialize_features (ps_features p)"
  have at0: "at_pos data pos (?a @ v0 # v1 # v2 # ?n @ ?d @ ?f @ rest)"
    using at v by (simp add: peer_spec_serialize_def)
  have at1: "at_pos data (pos + length ?a) (v0 # v1 # v2 # ?n @ ?d @ ?f @ rest)"
    using at0 by (rule at_pos_append)
  have at2: "at_pos data (pos + length ?a + 3) (?n @ ?d @ ?f @ rest)"
    using at1 by (rule at_pos_append3)
  have at3: "at_pos data (pos + length ?a + 3 + length ?n) (?d @ ?f @ rest)"
    using at2 by (rule at_pos_append)
  have at4: "at_pos data (pos + length ?a + 3 + length ?n + length ?d) (?f @ rest)"
    using at3 by (rule at_pos_append)
  have r1: "parse_name missing ''Truncated agent name'' data pos =
      Inr (ps_agent_name p, pos + length ?a)"
    using wf by (intro parse_name_serialize [OF _ _ at0]) (auto simp: wf_spec_def)
  have r3: "parse_name missing ''Truncated peer name'' data (pos + length ?a + 3) =
      Inr (ps_peer_name p, pos + length ?a + 3 + length ?n)"
    using wf by (intro parse_name_serialize [OF _ _ at2]) (auto simp: wf_spec_def)
  have r4: "parse_addr data (pos + length ?a + 3 + length ?n) =
      Inr (ps_declared_addr p, pos + length ?a + 3 + length ?n + length ?d)"
    using wf by (intro parse_addr_serialize [OF at3]) (auto simp: wf_spec_def)
  have r5: "parse_feature_block data (pos + length ?a + 3 + length ?n + length ?d) =
      Inr (ps_features p, pos + length ?a + 3 + length ?n + length ?d + length ?f)"
    using wf len by (intro parse_feature_block_serialize [OF _ _ _ at4]) (auto simp: wf_spec_def)
  show ?thesis
    by (simp add: parse_body_def r1 parse_version_serialize [OF at1] r3 r4 r5)
       (simp add: v peer_spec_serialize_def)
qed

interpretation spec: pos_codec peer_spec_serialize peer_spec_parse wf_spec
  by unfold_locales (simp add: peer_spec_parse_def parse_body_serialize)

lemma handshake_parse_serialize:
  assumes "wf_spec (hs_spec h)" "length (handshake_serialize h @ rest) \<le> MAX_HANDSHAKE_SIZE"
  shows "handshake_parse (handshake_serialize h @ rest) = Inr h"
proof -
  let ?data = "handshake_serialize h @ rest"
  have at: "at_pos ?data 0 (vlq_encode (hs_time h) @ peer_spec_serialize (hs_spec h) @ rest)"
    by (simp add: at_pos_start handshake_serialize_def)
  have len: "length ?data < usize_limit"
    using assms(2) by (simp add: MAX_HANDSHAKE_SIZE_def usize_limit_def)
  show ?thesis
    using assms vlq_decode_encode [OF at] parse_body_serialize [OF assms(1) len at_pos_append [OF at]]
    by (simp add: handshake_parse_def not_less)
qed

subsection \<open>Positions stay inside the buffer\<close>

lemma parse_name_bounds:
  "parse_name m e data pos = Inr (s, p) \<Longrightarrow> pos < p \<and> p \<le> length data"
  by (auto simp: parse_name_def Let_def split: if_splits)

lemma parse_version_bounds: "parse_version data pos = Inr (v, p) \<Longrightarrow> pos < p \<and> p \<le> length data"
  by (auto simp: parse_version_def split: if_splits)

lemma parse_ip_bounds: "parse_ip t data pos = Inr (ip, p) \<Longrightarrow> pos < p \<and> p \<le> length data"
  by (auto simp: parse_ip_def split: if_splits)

lemma parse_addr_bounds:
  assumes "parse_addr data pos = Inr (a, p)" "pos \<le> length data"
  shows "pos \<le> p \<and> p \<le> length data"
proof (cases "pos < length data \<and> data ! pos = 1")
  case True
  with assms(1) obtain ip p2 port where
    "parse_ip (data ! Suc pos) data (Suc (Suc pos)) = Inr (ip, p2)" "vlq_decode data p2 = Inr (port, p)"
    by (auto simp: parse_addr_def Let_def res_simps split: if_splits)
  then show ?thesis using parse_ip_bounds vlq_decode_bounds by fastforce
next
  case False
  with assms show ?thesis by (auto simp: parse_addr_def split: if_splits)
qed

lemma parse_features_bounds:
  "parse_features n data pos = Inr (fs, p) \<Longrightarrow> pos \<le> length data \<Longrightarrow>
   pos \<le> p \<and> p \<le> length data \<and> length fs \<le> n"
proof (induction n data pos arbitrary: fs p rule: parse_features.induct)
  case (1 data pos)
  then show ?case by simp
next
  case (2 n data pos)
  show ?case
  proof (cases "length data \<le> pos")
    case True
    with 2 show ?thesis by auto
  next
    case False
    with "2.prems" obtain flen q fs' where
      dec: "vlq_decode data (pos + 1) = Inr (flen, q)" and small: "q + unat flen < usize_limit"
      and le: "q + unat flen \<le> length data"
      and rec: "parse_features n data (q + unat flen) = Inr (fs', p)" and fs: "length fs = Suc (length fs')"
      by (auto simp: res_simps not_le not_less split: if_splits prod.splits)
    have "q + unat flen \<le> p \<and> p \<le> length data \<and> length fs' \<le> n"
      using False dec small le rec by (intro "2.IH" [OF False dec refl]) auto
    moreover have "pos + 1 < q" using vlq_decode_bounds [OF dec] by simp
    ultimately show ?thesis using fs by simp
  qed
qed

lemma parse_body_bounds:
  assumes "parse_body m data pos = Inr (spec, p)"
  shows "pos < p \<and> p \<le> length data \<and> length (ps_features spec) < 256"
proof -
  from assms obtain agent p1 version p2 peer p3 addr p4 features where
    n1: "parse_name m ''Truncated agent name'' data pos = Inr (agent, p1)" and
    v: "parse_version data p1 = Inr (version, p2)" and
    n2: "parse_name m ''Truncated peer name'' data p2 = Inr (peer, p3)" and
    a: "parse_addr data p3 = Inr (addr, p4)" and
    f: "parse_feature_block data p4 = Inr (features, p)" and
    fs: "ps_features spec = features"
    by (auto simp: parse_body_def res_simps)
  have p3: "pos < p3" "p3 \<le> length data"
    using parse_name_bounds [OF n1] parse_version_bounds [OF v] parse_name_bounds [OF n2] by auto
  have p4: "p3 \<le> p4" "p4 \<le> length data" using parse_addr_bounds [OF a p3(2)] by auto
  have "p4 \<le> p \<and> p \<le> length data \<and> length features < 256"
  proof (cases "p4 < length data")
    case True
    with f have "parse_features (unat (data ! p4)) data (p4 + 1) = Inr (features, p)"
      by (simp add: parse_feature_block_def)
    from parse_features_bounds [OF this] True have
      "p4 + 1 \<le> p" "p \<le> length data" "length features \<le> unat (data ! p4)" by auto
    moreover have "unat (data ! p4) < 256" using unsigned_less [of "data ! p4"] by simp
    ultimately show ?thesis by simp
  next
    case False
    with f p4 show ?thesis by (simp add: parse_feature_block_def)
  qed
  with p3 p4 fs show ?thesis by simp
qed

subsection \<open>Properties\<close>

definition example_spec :: peer_spec where
  "example_spec =
     \<lparr>ps_agent_name = [101, 114, 103, 111], ps_version = (6, 0, 1), ps_peer_name = [110],
      ps_declared_addr = Some \<lparr>da_ip = V4 127 0 0 1, da_port = 9030\<rparr>,
      ps_features = [Mode 0 True (Some 7) (- 1), Session [1, 0, 2, 4] 300,
        LocalAddress (V4 10 0 0 1) 9030, RestApiUrl [104], UnknownFeature 9 [1, 2]]\<rparr>"

lemma wf_example_spec: "wf_spec example_spec"
proof -
  have "utf8 [101, 114, 103, 111]" "utf8 [110]" "utf8 [104]"
    by (rule utf8_ascii, simp)+
  then show ?thesis by (simp add: wf_spec_def example_spec_def parse_feature_def)
qed

text \<open>A well-formed peer specification written at any position of a buffer is read back by
  \<open>PeerSpec::parse\<close> with every field and feature, whatever follows it, and the position
  returned is the end of what was written.\<close>

theorem peer_spec_roundtrip:
  assumes "wf_spec p" and "length (pre @ peer_spec_serialize p @ rest) < usize_limit"
  shows "peer_spec_parse (pre @ peer_spec_serialize p @ rest) (length pre) =
     Inr (p, length pre + length (peer_spec_serialize p))"
  by (rule spec.dec_enc [OF assms at_pos_prefix])

theorem peer_spec_roundtrip_witness:
  "wf_spec example_spec \<and> peer_spec_parse (peer_spec_serialize example_spec @ [7]) 0 =
     Inr (example_spec, length (peer_spec_serialize example_spec))"
proof -
  have "length (peer_spec_serialize example_spec) < usize_limit - 1"
    by (simp add: peer_spec_serialize_def example_spec_def serialize_name_def serialize_addr_def
        serialize_features_def serialize_feature_def be_u32_def len_u64_def vlq_encode.simps
        vlq_encode_signed_def zigzag_def usize_limit_def signed_drop_bit_def Let_def)
  then show ?thesis
    using peer_spec_roundtrip [OF wf_example_spec, of "[]" "[7]"] wf_example_spec by simp
qed

text \<open>Whatever bytes a peer sends, a successful \<open>PeerSpec::parse\<close> has moved forward, has not
  left the buffer, and has read fewer than 256 features.\<close>

theorem peer_spec_parse_in_bounds:
  assumes "peer_spec_parse data pos = Inr (spec, p)"
  shows "pos < p \<and> p \<le> length data \<and> length (ps_features spec) < 256"
  using assms unfolding peer_spec_parse_def by (rule parse_body_bounds)

theorem peer_spec_parse_in_bounds_witness:
  "\<exists>spec. peer_spec_parse [0, 1, 2, 3, 0, 0, 0] 0 = Inr (spec, 7) \<and> length (ps_features spec) < 256"
proof -
  let ?spec = "\<lparr>ps_agent_name = [], ps_version = (1, 2, 3), ps_peer_name = [],
      ps_declared_addr = None, ps_features = []\<rparr>"
  have "peer_spec_parse [0, 1, 2, 3, 0, 0, 0] 0 = Inr (?spec, 7)"
    by (simp add: peer_spec_parse_def parse_body_def parse_name_def parse_version_def parse_addr_def
        parse_feature_block_def subslice_def from_utf8_lossy.simps [of "[]"] Let_def)
  with peer_spec_parse_in_bounds [OF this] show ?thesis by blast
qed

text \<open>A handshake delivered in one piece is read back whole, and bytes that follow it in the
  same read do not disturb it; the reader marks the handshake complete.\<close>

theorem read_handshake_whole:
  assumes "wf_spec (hs_spec h)" and "length (handshake_serialize h @ rest) \<le> MAX_HANDSHAKE_SIZE"
  shows "read_handshake handshake_codec_new [handshake_serialize h @ rest] =
     (Inr h, \<lparr>hc_complete = True, hc_buffer = handshake_serialize h @ rest\<rparr>, [])"
proof -
  have "handshake_serialize h \<noteq> []" by (simp add: handshake_serialize_def)
  then show ?thesis
    using handshake_parse_serialize [OF assms]
    by (simp add: read_handshake.simps handshake_codec_new_def try_handshake_def
        MAX_HANDSHAKE_SIZE_def Let_def)
qed

definition example_handshake :: handshake_data where
  "example_handshake = with_mainnet_features (handshake_new 5 [101] (6, 0, 1) [110]) 300"

lemmas example_handshake_defs = example_handshake_def with_mainnet_features_def handshake_new_def
  peer_spec_new_def handshake_serialize_def peer_spec_serialize_def serialize_name_def
  serialize_addr_def serialize_features_def serialize_feature_def len_u64_def
  vlq_encode_signed_def zigzag_def

lemma wf_example_handshake: "wf_spec (hs_spec example_handshake)"
proof -
  have "utf8 [101]" "utf8 [110]" by (rule utf8_ascii, simp)+
  then show ?thesis
    by (simp add: wf_spec_def example_handshake_def with_mainnet_features_def handshake_new_def
        peer_spec_new_def)
qed

lemma example_handshake_bytes:
  "handshake_serialize example_handshake =
     [5, 1, 101, 6, 0, 1, 1, 110, 0, 2, 16, 4, 0, 1, 0, 1, 3, 6, 1, 0, 2, 4, 172, 2]"
proof -
  have "signed_drop_bit 63 (- 1 :: u64) = - 1"
    by (rule bit_word_eqI) (simp add: bit_signed_drop_bit_iff)
  then have "zigzag (scast (- 1 :: u32)) = 1" by (simp add: zigzag_def)
  then show ?thesis
    by (simp add: example_handshake_defs vlq_encode.simps Let_def)
qed

theorem read_handshake_whole_witness:
  "read_handshake handshake_codec_new [handshake_serialize example_handshake @ [9, 9]] =
     (Inr example_handshake,
      \<lparr>hc_complete = True, hc_buffer = handshake_serialize example_handshake @ [9, 9]\<rparr>, [])"
  using read_handshake_whole [OF wf_example_handshake, of "[9, 9]"]
  by (simp add: example_handshake_bytes MAX_HANDSHAKE_SIZE_def)

text \<open>
  The part of a handshake before its declared address parses on its own: the reader takes
  the missing address for absent and the missing features for none.
\<close>

definition handshake_stem :: "handshake_data \<Rightarrow> bytes" where
  "handshake_stem h =
     (case ps_version (hs_spec h) of (v0, v1, v2) \<Rightarrow>
        vlq_encode (hs_time h) @ serialize_name (ps_agent_name (hs_spec h)) @ [v0, v1, v2] @
        serialize_name (ps_peer_name (hs_spec h)))"

definition bare :: "handshake_data \<Rightarrow> handshake_data" where
  "bare h = h\<lparr>hs_spec := (hs_spec h)\<lparr>ps_declared_addr := None, ps_features := []\<rparr>\<rparr>"

lemma handshake_serialize_stem:
  "handshake_serialize h = handshake_stem h @
     serialize_addr (ps_declared_addr (hs_spec h)) @ serialize_features (ps_features (hs_spec h))"
  by (simp add: handshake_serialize_def handshake_stem_def peer_spec_serialize_def split: prod.splits)

lemma handshake_parse_stem:
  assumes wf: "wf_spec (hs_spec h)" and len: "length (handshake_stem h) \<le> MAX_HANDSHAKE_SIZE"
  shows "handshake_parse (handshake_stem h) = Inr (bare h)"
proof -
  let ?s = "hs_spec h" and ?data = "handshake_stem h"
  obtain v0 v1 v2 where v: "ps_version ?s = (v0, v1, v2)" by (cases "ps_version ?s")
  let ?t = "vlq_encode (hs_time h)" and ?a = "serialize_name (ps_agent_name ?s)"
    and ?n = "serialize_name (ps_peer_name ?s)"
  have data: "?data = ?t @ ?a @ v0 # v1 # v2 # ?n" by (simp add: handshake_stem_def v)
  have at0: "at_pos ?data 0 (?t @ ?a @ v0 # v1 # v2 # ?n)" by (simp add: data at_pos_start)
  have at1: "at_pos ?data (length ?t) (?a @ v0 # v1 # v2 # ?n)" using at_pos_append [OF at0] by simp
  have at2: "at_pos ?data (length ?t + length ?a) (v0 # v1 # v2 # ?n)"
    using at1 by (rule at_pos_append)
  have at3: "at_pos ?data (length ?t + length ?a + 3) (?n @ [])"
    using at_pos_append3 [OF at2] by simp
  have r1: "parse_name ''Truncated handshake'' ''Truncated agent name'' ?data (length ?t) =
      Inr (ps_agent_name ?s, length ?t + length ?a)"
    using wf by (intro parse_name_serialize [OF _ _ at1]) (auto simp: wf_spec_def)
  have r3: "parse_name ''Truncated handshake'' ''Truncated peer name'' ?data (length ?t + length ?a + 3) =
      Inr (ps_peer_name ?s, length ?data)"
    using wf parse_name_serialize [OF _ _ at3] by (simp add: wf_spec_def data)
  show ?thesis
    using len vlq_decode_encode [OF at0]
    by (simp add: handshake_parse_def parse_body_def r1 r3 parse_version_serialize [OF at2]
        parse_addr_def parse_feature_block_def bare_def v not_less)
qed

text \<open>When the transport cuts a handshake right after the peer name, \<open>read_handshake\<close> does
  not wait for the rest: it returns a handshake without declared address and without
  features, and leaves the tail that carries them unread.\<close>

theorem read_handshake_cut:
  assumes "wf_spec (hs_spec h)" and "length (handshake_serialize h) \<le> MAX_HANDSHAKE_SIZE"
  shows "\<exists>cut tail. handshake_serialize h = cut @ tail \<and> tail \<noteq> [] \<and>
     fst (read_handshake handshake_codec_new [cut, tail]) = Inr (bare h) \<and>
     snd (snd (read_handshake handshake_codec_new [cut, tail])) = [tail]"
proof (intro exI conjI)
  let ?tail = "serialize_addr (ps_declared_addr (hs_spec h)) @ serialize_features (ps_features (hs_spec h))"
  show "handshake_serialize h = handshake_stem h @ ?tail" by (rule handshake_serialize_stem)
  show "?tail \<noteq> []" by (simp add: serialize_features_def)
  have "length (handshake_stem h) \<le> MAX_HANDSHAKE_SIZE"
    using assms(2) by (simp add: handshake_serialize_stem)
  then have p: "handshake_parse (handshake_stem h) = Inr (bare h)"
    by (rule handshake_parse_stem [OF assms(1)])
  moreover have "handshake_stem h \<noteq> []" by (simp add: handshake_stem_def split: prod.splits)
  ultimately have r: "read_handshake handshake_codec_new [handshake_stem h, ?tail] =
      (Inr (bare h), \<lparr>hc_complete = True, hc_buffer = handshake_stem h\<rparr>, [?tail])"
    by (simp add: read_handshake.simps handshake_codec_new_def try_handshake_def
        MAX_HANDSHAKE_SIZE_def Let_def)
  show "fst (read_handshake handshake_codec_new [handshake_stem h, ?tail]) = Inr (bare h)"
    by (simp only: r fst_conv)
  show "snd (snd (read_handshake handshake_codec_new [handshake_stem h, ?tail])) = [?tail]"
    by (simp only: r snd_conv)
qed

theorem read_handshake_cut_witness:
  "bare example_handshake \<noteq> example_handshake \<and>
   (\<exists>cut tail. handshake_serialize example_handshake = cut @ tail \<and> tail \<noteq> [] \<and>
     fst (read_handshake handshake_codec_new [cut, tail]) = Inr (bare example_handshake) \<and>
     snd (snd (read_handshake handshake_codec_new [cut, tail])) = [tail])"
proof
  show "bare example_handshake \<noteq> example_handshake"
    by (simp add: bare_def example_handshake_def with_mainnet_features_def handshake_new_def
        peer_spec_new_def)
  show "\<exists>cut tail. handshake_serialize example_handshake = cut @ tail \<and> tail \<noteq> [] \<and>
     fst (read_handshake handshake_codec_new [cut, tail]) = Inr (bare example_handshake) \<and>
     snd (snd (read_handshake handshake_codec_new [cut, tail])) = [tail]"
    using read_handshake_cut [OF wf_example_handshake]
    by (simp add: example_handshake_bytes MAX_HANDSHAKE_SIZE_def)
qed

text \<open>A handshake of nineteen bytes whose feature announces a length of \<open>2 ^ 64 - 1\<close> bytes
  makes the parser panic, in the debug build at the addition and in the release build at
  the slice, instead of returning an error.\<close>

theorem handshake_feature_length_panics:
  "handshake_parse ([0, 0, 6, 0, 1, 0, 0, 1, 9] @ vlq_encode (- 1)) = Inl (Panic ''slice index'')"
proof -
  let ?data = "[0, 0, 6, 0, 1, 0, 0, 1, 9] @ vlq_encode (- 1)"
  have dec: "vlq_decode ?data 9 = Inr (- 1, 9 + length (vlq_encode (- 1)))"
    using vlq_decode_encode [of ?data 9 "- 1" "[]"] by (simp add: at_pos_def)
  have "unat (- 1 :: u64) = 2 ^ 64 - 1" by (simp add: unsigned_minus_1_eq_mask mask_eq_exp_minus_1)
  then have f: "parse_features 1 ?data 8 = Inl (Panic ''slice index'')"
    using dec by (simp add: usize_limit_def)
  have t: "vlq_decode ?data 0 = Inr (0, 1)"
    using vlq_decode_encode [of ?data 0 0 "[0, 6, 0, 1, 0, 0, 1, 9] @ vlq_encode (- 1)"]
    by (simp add: at_pos_def vlq_encode.simps [of 0] Let_def)
  have n1: "parse_name m e ?data 1 = Inr ([], 2)" "parse_name m e ?data 5 = Inr ([], 6)" for m e
    by (simp_all add: parse_name_def subslice_def Let_def)
  have v: "parse_version ?data 2 = Inr ((6, 0, 1), 5)" by (simp add: parse_version_def)
  have a: "parse_addr ?data 6 = Inr (None, 7)" by (simp add: parse_addr_def)
  have b: "parse_feature_block ?data 7 = Inl (Panic ''slice index'')"
    using f by (simp add: parse_feature_block_def)
  have "length ?data \<le> MAX_HANDSHAKE_SIZE"
    using vlq_encode_length_10 [of "- 1"] by (simp add: MAX_HANDSHAKE_SIZE_def)
  then show ?thesis
    unfolding handshake_parse_def parse_body_def t by (simp only: not_less if_False rbind.simps
        prod.case n1 v a b if_not_P)
qed

end
