(* ===== verification/Messages.thy ===== *)
theory Messages
  imports Handshake
begin

text \<open>
  The P2P messages of message.rs: the message types, the payload records, \<open>Message::encode\<close>
  and \<open>Message::decode\<close> with the two payloads that have a coding of their own (\<open>SyncInfo\<close>
  and \<open>SnapshotsInfo\<close>). A \<open>Bytes\<close> value is the list of the bytes left in it. The JSON coding
  of the legacy handshake message is serde's and is a parameter, as is the size the compiler
  gives to \<open>PeerSpec\<close>, which decides when \<open>Vec::with_capacity\<close> overflows.
\<close>

subsection \<open>Message types\<close>

datatype message_type =
    TGetPeers | TPeers | THandshake | TSyncInfo | TInv | TRequestModifier | TModifier
  | TGetSnapshotsInfo | TSnapshotsInfo | TGetManifest | TManifest
  | TGetUtxoSnapshotChunk | TUtxoSnapshotChunk

fun type_code :: "message_type \<Rightarrow> u8" where
  "type_code TGetPeers = 1"
| "type_code TPeers = 2"
| "type_code THandshake = 75"
| "type_code TSyncInfo = 65"
| "type_code TInv = 55"
| "type_code TRequestModifier = 22"
| "type_code TModifier = 33"
| "type_code TGetSnapshotsInfo = 76"
| "type_code TSnapshotsInfo = 77"
| "type_code TGetManifest = 78"
| "type_code TManifest = 79"
| "type_code TGetUtxoSnapshotChunk = 80"
| "type_code TUtxoSnapshotChunk = 81"

definition message_type_try_from :: "u8 \<Rightarrow> network_error + message_type" where
  "message_type_try_from v =
     (if v = 1 then Inr TGetPeers
      else if v = 2 then Inr TPeers
      else if v = 75 then Inr THandshake
      else if v = 65 then Inr TSyncInfo
      else if v = 55 then Inr TInv
      else if v = 22 then Inr TRequestModifier
      else if v = 33 then Inr TModifier
      else if v = 76 then Inr TGetSnapshotsInfo
      else if v = 77 then Inr TSnapshotsInfo
      else if v = 78 then Inr TGetManifest
      else if v = 79 then Inr TManifest
      else if v = 80 then Inr TGetUtxoSnapshotChunk
      else if v = 81 then Inr TUtxoSnapshotChunk
      else Inl (InvalidMessage ''Unknown message type''))"

subsection \<open>Payloads\<close>

record handshake_msg =
  hm_agent_name :: bytes
  hm_version :: "u8 \<times> u8 \<times> u8"
  hm_node_name :: bytes
  hm_declared_addr :: "bytes option"
  hm_features :: bytes

record sync_info =
  last_header_ids :: "bytes list"
  last_headers :: "bytes list"

record inv_data =
  inv_type_id :: u8
  inv_ids :: "bytes list"

record modifier_item =
  mi_id :: bytes
  mi_data :: bytes

record modifier_data =
  md_type_id :: u8
  md_modifiers :: "modifier_item list"

type_synonym snapshots_info = "(u32 \<times> bytes) list"

datatype message =
    MHandshake handshake_msg
  | MGetPeers
  | MPeers "peer_spec list"
  | MSyncInfo sync_info
  | MInv inv_data
  | MRequestModifier inv_data
  | MModifier modifier_data
  | MGetSnapshotsInfo
  | MSnapshotsInfo snapshots_info
  | MGetManifest bytes
  | MManifest bytes
  | MGetUtxoSnapshotChunk bytes
  | MUtxoSnapshotChunk bytes

definition MAX_MANIFEST_SIZE :: nat where
  "MAX_MANIFEST_SIZE = 4 * 1024 * 1024"

definition MAX_CHUNK_SIZE :: nat where
  "MAX_CHUNK_SIZE = 4 * 1024 * 1024"

definition MAX_SNAPSHOTS_INFO_ENTRIES :: nat where
  "MAX_SNAPSHOTS_INFO_ENTRIES = 100"

fun get_message_type :: "message \<Rightarrow> message_type" where
  "get_message_type (MHandshake h) = THandshake"
| "get_message_type MGetPeers = TGetPeers"
| "get_message_type (MPeers ps) = TPeers"
| "get_message_type (MSyncInfo i) = TSyncInfo"
| "get_message_type (MInv i) = TInv"
| "get_message_type (MRequestModifier r) = TRequestModifier"
| "get_message_type (MModifier m) = TModifier"
| "get_message_type MGetSnapshotsInfo = TGetSnapshotsInfo"
| "get_message_type (MSnapshotsInfo i) = TSnapshotsInfo"
| "get_message_type (MGetManifest r) = TGetManifest"
| "get_message_type (MManifest d) = TManifest"
| "get_message_type (MGetUtxoSnapshotChunk r) = TGetUtxoSnapshotChunk"
| "get_message_type (MUtxoSnapshotChunk d) = TUtxoSnapshotChunk"

text \<open>What the messages need from outside the sources.\<close>

record message_env =
  to_json :: "handshake_msg \<Rightarrow> bytes option"
  from_json :: "bytes \<Rightarrow> handshake_msg option"
  peer_spec_size :: nat

text \<open>\<open>Vec::with_capacity\<close> panics when the bytes of the capacity exceed \<open>isize::MAX\<close>.\<close>

definition with_capacity :: "nat \<Rightarrow> u64 \<Rightarrow> network_error + unit" where
  "with_capacity elem_size count =
     (if unat count * elem_size < 2 ^ 63 then Inr () else Inl (Panic ''capacity overflow''))"

subsection \<open>Synchronisation info\<close>

definition sync_info_empty :: sync_info where
  "sync_info_empty = \<lparr>last_header_ids = [], last_headers = []\<rparr>"

definition sync_info_v1 :: "bytes list \<Rightarrow> sync_info" where
  "sync_info_v1 ids = \<lparr>last_header_ids = ids, last_headers = []\<rparr>"

definition sync_info_v2 :: "bytes list \<Rightarrow> sync_info" where
  "sync_info_v2 hs = \<lparr>last_header_ids = [], last_headers = hs\<rparr>"

definition is_v2 :: "sync_info \<Rightarrow> bool" where
  "is_v2 s \<longleftrightarrow> last_headers s \<noteq> []"

definition with_len :: "bytes \<Rightarrow> bytes" where
  "with_len bs = vlq_encode (len_u64 bs) @ bs"

definition count_u64 :: "'a list \<Rightarrow> u64" where
  "count_u64 xs = of_nat (length xs)"

definition sync_info_serialize :: "sync_info \<Rightarrow> bytes" where
  "sync_info_serialize s =
     (if is_v2 s
      then vlq_encode 0 @ [0xFF, of_nat (length (last_headers s))] @
           concat (map with_len (last_headers s))
      else vlq_encode (count_u64 (last_header_ids s)) @ concat (last_header_ids s))"

text \<open>\<open>take_ids n bs\<close>: up to \<open>n\<close> identifiers of 32 bytes, as many as the bytes hold.\<close>

function take_ids :: "nat \<Rightarrow> bytes \<Rightarrow> bytes list" where
  "take_ids n bs =
     (if 32 \<le> length bs \<and> 0 < n then take 32 bs # take_ids (n - 1) (drop 32 bs) else [])"
  by pat_completeness auto
termination take_ids
  by (relation "measure fst") auto

declare take_ids.simps [simp del]

fun v2_headers :: "nat \<Rightarrow> bytes \<Rightarrow> nat \<Rightarrow> network_error + bytes list" where
  "v2_headers 0 data pos = Inr []"
| "v2_headers (Suc n) data pos =
     (if length data \<le> pos then Inr []
      else case vlq_decode data pos of
        Inl e \<Rightarrow> Inl (InvalidMessage ''Failed to decode header length'')
      | Inr (len, p) \<Rightarrow>
          if usize_limit \<le> p + unat len then Inl (Panic ''slice index'')
          else if p + unat len > length data then Inr []
          else rbind (v2_headers n data (p + unat len)) (\<lambda>hs.
                 Inr (subslice data p (p + unat len) # hs)))"

definition sync_info_parse :: "bytes \<Rightarrow> network_error + sync_info" where
  "sync_info_parse data =
     (if data = [] then Inr sync_info_empty
      else case vlq_decode data 0 of
        Inl e \<Rightarrow> Inl (InvalidMessage ''Failed to decode count'')
      | Inr (count, pos) \<Rightarrow>
          if count = 0 \<and> pos < length data \<and> data ! pos = 0xFF then
            let p = pos + 1 in
            if length data \<le> p then Inr sync_info_empty
            else rbind (v2_headers (unat (data ! p)) data (p + 1)) (\<lambda>hs. Inr (sync_info_v2 hs))
          else rbind (with_capacity 24 count) (\<lambda>_.
            Inr (sync_info_v1 (take_ids (unat count) (drop pos data)))))"

subsection \<open>Snapshots info\<close>

definition snapshots_info_serialize :: "snapshots_info \<Rightarrow> bytes" where
  "snapshots_info_serialize ms =
     vlq_encode (count_u64 ms) @ concat (map (\<lambda>(height, i). be_u32 height @ i) ms)"

fun read_manifests :: "nat \<Rightarrow> bytes \<Rightarrow> nat \<Rightarrow> network_error + snapshots_info" where
  "read_manifests 0 data pos = Inr []"
| "read_manifests (Suc n) data pos =
     (if pos + 4 + 32 > length data then Inl (InvalidMessage ''Truncated snapshots info'')
      else rbind (read_manifests n data (pos + 36)) (\<lambda>ms.
        Inr ((from_be_u32 (data ! pos) (data ! (pos + 1)) (data ! (pos + 2)) (data ! (pos + 3)),
              subslice data (pos + 4) (pos + 4 + 32)) # ms)))"

definition snapshots_info_parse :: "bytes \<Rightarrow> network_error + snapshots_info" where
  "snapshots_info_parse data =
     (if data = [] then Inr []
      else case vlq_decode data 0 of
        Inl e \<Rightarrow> Inl (InvalidMessage ''Failed to decode count'')
      | Inr (count, pos) \<Rightarrow>
          if MAX_SNAPSHOTS_INFO_ENTRIES < unat count
          then Inl (InvalidMessage ''Too many snapshots info entries'')
          else read_manifests (unat count) data pos)"

subsection \<open>Encoding a message\<close>

definition inv_body :: "inv_data \<Rightarrow> bytes" where
  "inv_body i = inv_type_id i # vlq_encode (count_u64 (inv_ids i)) @ concat (inv_ids i)"

definition modifier_item_bytes :: "modifier_item \<Rightarrow> bytes" where
  "modifier_item_bytes m = mi_id m @ with_len (mi_data m)"

fun encode_body :: "message_env \<Rightarrow> message \<Rightarrow> network_error + bytes" where
  "encode_body env (MHandshake h) =
     (case to_json env h of
        None \<Rightarrow> Inl (Serialization ''serde_json'')
      | Some json \<Rightarrow> Inr (be_u32 (of_nat (length json)) @ json))"
| "encode_body env MGetPeers = Inr []"
| "encode_body env (MPeers ps) =
     Inr (vlq_encode (count_u64 ps) @ concat (map peer_spec_serialize ps))"
| "encode_body env (MSyncInfo i) = Inr (sync_info_serialize i)"
| "encode_body env (MInv i) = Inr (inv_body i)"
| "encode_body env (MRequestModifier r) = Inr (inv_body r)"
| "encode_body env (MModifier m) =
     Inr (md_type_id m # vlq_encode (count_u64 (md_modifiers m)) @
          concat (map modifier_item_bytes (md_modifiers m)))"
| "encode_body env MGetSnapshotsInfo = Inr []"
| "encode_body env (MSnapshotsInfo i) = Inr (snapshots_info_serialize i)"
| "encode_body env (MGetManifest i) = Inr i"
| "encode_body env (MManifest d) = Inr (with_len d)"
| "encode_body env (MGetUtxoSnapshotChunk i) = Inr i"
| "encode_body env (MUtxoSnapshotChunk d) = Inr (with_len d)"

definition message_encode :: "message_env \<Rightarrow> message \<Rightarrow> network_error + bytes" where
  "message_encode env m =
     rbind (encode_body env m) (\<lambda>body. Inr (type_code (get_message_type m) # body))"

subsection \<open>Decoding a message\<close>

definition get_u8 :: "bytes \<Rightarrow> network_error + u8 \<times> bytes" where
  "get_u8 bs = (case bs of [] \<Rightarrow> Inl (Panic ''get_u8'') | b # bs' \<Rightarrow> Inr (b, bs'))"

definition get_u32 :: "bytes \<Rightarrow> network_error + u32 \<times> bytes" where
  "get_u32 bs =
     (if length bs < 4 then Inl (Panic ''get_u32'')
      else Inr (from_be_u32 (bs ! 0) (bs ! 1) (bs ! 2) (bs ! 3), drop 4 bs))"

definition advance :: "nat \<Rightarrow> bytes \<Rightarrow> network_error + bytes" where
  "advance n bs = (if length bs < n then Inl (Panic ''advance'') else Inr (drop n bs))"

definition decode_inv :: "bytes \<Rightarrow> network_error + inv_data" where
  "decode_inv bs =
     rbind (get_u8 bs) (\<lambda>(type_id, bs1).
     rbind (vlq_decode bs1 0) (\<lambda>(count, _).
     rbind (advance (vlq_byte_len count) bs1) (\<lambda>bs2.
     rbind (with_capacity 24 count) (\<lambda>_.
       Inr \<lparr>inv_type_id = type_id, inv_ids = take_ids (unat count) bs2\<rparr>))))"

fun read_modifiers :: "nat \<Rightarrow> bytes \<Rightarrow> network_error + modifier_item list" where
  "read_modifiers 0 bs = Inr []"
| "read_modifiers (Suc n) bs =
     (if length bs < 32 then Inl (InvalidMessage ''Modifier ID truncated'')
      else
        rbind (vlq_decode (drop 32 bs) 0) (\<lambda>(len, vlq_len).
        rbind (advance vlq_len (drop 32 bs)) (\<lambda>bs2.
          if length bs2 < unat len then Inl (InvalidMessage ''Modifier data truncated'')
          else rbind (read_modifiers n (drop (unat len) bs2)) (\<lambda>ms.
            Inr (\<lparr>mi_id = take 32 bs, mi_data = take (unat len) bs2\<rparr> # ms)))))"

definition decode_modifier :: "bytes \<Rightarrow> network_error + modifier_data" where
  "decode_modifier bs =
     rbind (get_u8 bs) (\<lambda>(type_id, bs1).
     rbind (vlq_decode bs1 0) (\<lambda>(count, vlq_len).
     rbind (advance vlq_len bs1) (\<lambda>bs2.
     rbind (with_capacity 48 count) (\<lambda>_.
     rbind (read_modifiers (unat count) bs2) (\<lambda>ms.
       Inr \<lparr>md_type_id = type_id, md_modifiers = ms\<rparr>)))))"

definition decode_blob :: "nat \<Rightarrow> bytes \<Rightarrow> network_error + bytes" where
  "decode_blob max_size bs =
     rbind (vlq_decode bs 0) (\<lambda>(len, vlq_len).
     rbind (advance vlq_len bs) (\<lambda>bs2.
       if max_size < unat len then Inl (InvalidMessage ''too large'')
       else if length bs2 < unat len then Inl (InvalidMessage ''data truncated'')
       else Inr (take (unat len) bs2)))"

definition decode_id :: "bytes \<Rightarrow> network_error + bytes" where
  "decode_id bs = (if length bs < 32 then Inl (InvalidMessage ''ID truncated'') else Inr (take 32 bs))"

definition decode_peers :: "message_env \<Rightarrow> bytes \<Rightarrow> network_error + peer_spec list" where
  "decode_peers env data =
     rbind (vlq_decode data 0) (\<lambda>(count, pos).
     rbind (with_capacity (peer_spec_size env) count) (\<lambda>_.
     rbind (read_n peer_spec_parse (unat count) data pos) (\<lambda>(ps, _). Inr ps)))"

definition decode_handshake :: "message_env \<Rightarrow> bytes \<Rightarrow> network_error + handshake_msg" where
  "decode_handshake env bs =
     rbind (get_u32 bs) (\<lambda>(len, bs1).
       if length bs1 < unat len then Inl (InvalidMessage ''Truncated handshake'')
       else case from_json env (take (unat len) bs1) of
         None \<Rightarrow> Inl (Serialization ''serde_json'')
       | Some h \<Rightarrow> Inr h)"

fun decode_body :: "message_env \<Rightarrow> message_type \<Rightarrow> bytes \<Rightarrow> network_error + message" where
  "decode_body env THandshake bs = rbind (decode_handshake env bs) (\<lambda>h. Inr (MHandshake h))"
| "decode_body env TGetPeers bs = Inr MGetPeers"
| "decode_body env TPeers bs = rbind (decode_peers env bs) (\<lambda>ps. Inr (MPeers ps))"
| "decode_body env TSyncInfo bs = rbind (sync_info_parse bs) (\<lambda>i. Inr (MSyncInfo i))"
| "decode_body env TInv bs = rbind (decode_inv bs) (\<lambda>i. Inr (MInv i))"
| "decode_body env TRequestModifier bs = rbind (decode_inv bs) (\<lambda>r. Inr (MRequestModifier r))"
| "decode_body env TModifier bs = rbind (decode_modifier bs) (\<lambda>m. Inr (MModifier m))"
| "decode_body env TGetSnapshotsInfo bs = Inr MGetSnapshotsInfo"
| "decode_body env TSnapshotsInfo bs = rbind (snapshots_info_parse bs) (\<lambda>i. Inr (MSnapshotsInfo i))"
| "decode_body env TGetManifest bs = rbind (decode_id bs) (\<lambda>i. Inr (MGetManifest i))"
| "decode_body env TManifest bs = rbind (decode_blob MAX_MANIFEST_SIZE bs) (\<lambda>d. Inr (MManifest d))"
| "decode_body env TGetUtxoSnapshotChunk bs = rbind (decode_id bs) (\<lambda>i. Inr (MGetUtxoSnapshotChunk i))"
| "decode_body env TUtxoSnapshotChunk bs =
     rbind (decode_blob MAX_CHUNK_SIZE bs) (\<lambda>d. Inr (MUtxoSnapshotChunk d))"

definition message_decode :: "message_env \<Rightarrow> bytes \<Rightarrow> network_error + message" where
  "message_decode env bs =
     (case bs of
        [] \<Rightarrow> Inl (InvalidMessage ''Empty message'')
      | t # body \<Rightarrow> rbind (message_type_try_from t) (\<lambda>ty. decode_body env ty body))"

subsection \<open>Well-formed messages\<close>

text \<open>
  What the wire can carry: identifiers have 32 bytes, counts fit their field, blobs respect
  the limits, a synchronisation info uses one of its two formats, and the bytes of the
  counted vectors fit the address space.
\<close>

definition ids32 :: "bytes list \<Rightarrow> bool" where
  "ids32 xs \<longleftrightarrow> list_all (\<lambda>i. length i = 32) xs"

definition wf_sync_info :: "sync_info \<Rightarrow> bool" where
  "wf_sync_info s \<longleftrightarrow>
     (if is_v2 s then last_header_ids s = [] \<and> length (last_headers s) < 256
      else ids32 (last_header_ids s))"

fun wf_message :: "message_env \<Rightarrow> message \<Rightarrow> bool" where
  "wf_message env (MHandshake h) \<longleftrightarrow>
     (\<exists>j. to_json env h = Some j \<and> from_json env j = Some h \<and> length j < 2 ^ 32)"
| "wf_message env (MPeers ps) \<longleftrightarrow>
     list_all wf_spec ps \<and> length ps * peer_spec_size env < 2 ^ 63"
| "wf_message env (MSyncInfo i) \<longleftrightarrow> wf_sync_info i"
| "wf_message env (MInv i) \<longleftrightarrow> ids32 (inv_ids i)"
| "wf_message env (MRequestModifier i) \<longleftrightarrow> ids32 (inv_ids i)"
| "wf_message env (MModifier m) \<longleftrightarrow> list_all (\<lambda>i. length (mi_id i) = 32) (md_modifiers m)"
| "wf_message env (MSnapshotsInfo ms) \<longleftrightarrow>
     length ms \<le> MAX_SNAPSHOTS_INFO_ENTRIES \<and> list_all (\<lambda>m. length (snd m) = 32) ms"
| "wf_message env (MGetManifest i) \<longleftrightarrow> length i = 32"
| "wf_message env (MManifest d) \<longleftrightarrow> length d \<le> MAX_MANIFEST_SIZE"
| "wf_message env (MGetUtxoSnapshotChunk i) \<longleftrightarrow> length i = 32"
| "wf_message env (MUtxoSnapshotChunk d) \<longleftrightarrow> length d \<le> MAX_CHUNK_SIZE"
| "wf_message env MGetPeers \<longleftrightarrow> True"
| "wf_message env MGetSnapshotsInfo \<longleftrightarrow> True"

subsection \<open>Round trip of the payloads\<close>

text \<open>Bodies stay below \<open>2 ^ 58\<close> bytes, far above the ten megabytes of a frame.\<close>

definition small_body :: "bytes \<Rightarrow> bool" where
  "small_body bs \<longleftrightarrow> length bs < 2 ^ 58"

lemma small_body_usize: "small_body bs \<Longrightarrow> length bs < usize_limit"
  by (simp add: small_body_def usize_limit_def)

lemma unat_count_u64: "length xs < usize_limit \<Longrightarrow> unat (count_u64 xs) = length xs"
  by (simp add: count_u64_def usize_limit_def unat_of_nat)

lemma message_type_roundtrip [simp]: "message_type_try_from (type_code t) = Inr t"
  by (cases t) (simp_all add: message_type_try_from_def)

lemma ids32_concat: "ids32 ids \<Longrightarrow> length (concat ids) = 32 * length ids"
  by (induction ids) (auto simp: ids32_def)

lemma take_ids_concat: "ids32 ids \<Longrightarrow> take_ids (length ids) (concat ids @ rest) = ids"
proof (induction ids)
  case Nil
  then show ?case by (simp add: take_ids.simps)
next
  case (Cons i ids)
  then show ?case by (simp add: ids32_def take_ids.simps [of "Suc (length ids)"])
qed

lemma vlq_decode_front: "vlq_decode (vlq_encode v @ rest) 0 = Inr (v, length (vlq_encode v))"
  using vlq_decode_encode [of "vlq_encode v @ rest" 0 v rest] by (simp add: at_pos_start)

lemma advance_front [simp]: "advance (length xs) (xs @ bs) = Inr bs"
  by (simp add: advance_def)

lemma with_capacity_ok:
  "unat count * n < 2 ^ 63 \<Longrightarrow> with_capacity n count = Inr ()"
  by (simp add: with_capacity_def)

lemma count_of_ids:
  assumes "ids32 ids" "length (concat ids) < 2 ^ 58"
  shows "unat (count_u64 ids) = length ids" "with_capacity 24 (count_u64 ids) = Inr ()"
proof -
  have "length ids < 2 ^ 53" using assms by (simp add: ids32_concat)
  then show count: "unat (count_u64 ids) = length ids"
    by (simp add: unat_count_u64 usize_limit_def)
  with \<open>length ids < 2 ^ 53\<close> show "with_capacity 24 (count_u64 ids) = Inr ()"
    by (intro with_capacity_ok) simp
qed

lemma decode_inv_body:
  assumes "ids32 (inv_ids i)" "small_body (inv_body i)"
  shows "decode_inv (inv_body i) = Inr i"
proof -
  have "length (concat (inv_ids i)) < 2 ^ 58"
    using assms(2) by (simp add: small_body_def inv_body_def)
  note c = count_of_ids [OF assms(1) this]
  show ?thesis
    using take_ids_concat [OF assms(1), of "[]"]
    by (simp add: decode_inv_def inv_body_def get_u8_def vlq_decode_front vlq_byte_len_encode c)
qed

lemma v2_headers_concat:
  "length data < usize_limit \<Longrightarrow> at_pos data pos (concat (map with_len hs)) \<Longrightarrow>
   v2_headers (length hs) data pos = Inr hs"
proof (induction hs arbitrary: pos)
  case Nil
  then show ?case by simp
next
  case (Cons h hs)
  have at: "at_pos data pos (vlq_encode (len_u64 h) @ h @ concat (map with_len hs))"
    using Cons.prems by (simp add: with_len_def [of h])
  define p where "p = pos + length (vlq_encode (len_u64 h))"
  have at2: "at_pos data p (h @ concat (map with_len hs))"
    unfolding p_def using at by (rule at_pos_append)
  have len: "length data = p + length h + length (concat (map with_len hs))"
    using at_pos_length [OF at2] by simp
  have "pos < length data" using at_pos_length [OF at] by simp
  moreover have "v2_headers (length hs) data (p + length h) = Inr hs"
    using Cons at_pos_append [OF at2] by simp
  moreover have "subslice data p (p + length h) = h" using at2 by (rule at_pos_subslice) simp
  moreover have "vlq_decode data pos = Inr (len_u64 h, p)"
    using vlq_decode_encode [OF at] by (simp add: p_def)
  ultimately show ?case using Cons.prems(1) len by simp
qed

lemma sync_info_parse_serialize:
  assumes wf: "wf_sync_info s" and small: "small_body (sync_info_serialize s)"
  shows "sync_info_parse (sync_info_serialize s) = Inr s"
proof (cases "is_v2 s")
  case True
  let ?hs = "last_headers s"
  have zero: "vlq_encode 0 = [0]" by (simp add: vlq_encode.simps)
  let ?data = "[0, 0xFF, of_nat (length ?hs)] @ concat (map with_len ?hs)"
  have ser: "sync_info_serialize s = ?data" using True by (simp add: sync_info_serialize_def zero)
  have "vlq_decode ?data 0 = Inr (0, 1)"
    using vlq_decode_front [of 0 "[0xFF, of_nat (length ?hs)] @ concat (map with_len ?hs)"]
    by (simp add: zero)
  moreover have "v2_headers (length ?hs) ?data 3 = Inr ?hs"
  proof (rule v2_headers_concat)
    show "length ?data < usize_limit" using small_body_usize [OF small] by (simp only: ser)
    show "at_pos ?data 3 (concat (map with_len ?hs))"
      using at_pos_prefix [of "[0, 0xFF, of_nat (length ?hs)]" "concat (map with_len ?hs)"]
      by (simp add: numeral_3_eq_3)
  qed
  moreover have "unat (of_nat (length ?hs) :: u8) = length ?hs"
    using wf True by (simp add: wf_sync_info_def unat_of_nat)
  ultimately show ?thesis
    using wf True by (simp add: ser sync_info_parse_def sync_info_v2_def wf_sync_info_def
        numeral_3_eq_3 Let_def)
next
  case False
  let ?ids = "last_header_ids s"
  have ids: "ids32 ?ids" using wf False by (simp add: wf_sync_info_def)
  have ser: "sync_info_serialize s = vlq_encode (count_u64 ?ids) @ concat ?ids"
    using False by (simp add: sync_info_serialize_def)
  have "length (concat ?ids) < 2 ^ 58" using small by (simp add: small_body_def ser)
  note c = count_of_ids [OF ids this]
  have "count_u64 ?ids = 0 \<longrightarrow> ?ids = []" using c(1) by auto
  then show ?thesis
    using False take_ids_concat [OF ids, of "[]"] vlq_decode_front [of "count_u64 ?ids" "concat ?ids"] c
    by (auto simp: ser sync_info_parse_def sync_info_v1_def is_v2_def)
qed

lemma read_manifests_concat:
  "list_all (\<lambda>m. length (snd m) = 32) ms \<Longrightarrow>
   at_pos data pos (concat (map (\<lambda>(height, i). be_u32 height @ i) ms)) \<Longrightarrow>
   read_manifests (length ms) data pos = Inr ms"
proof (induction ms arbitrary: pos)
  case Nil
  then show ?case by simp
next
  case (Cons m ms)
  obtain h i where m: "m = (h, i)" by (cases m)
  let ?tail = "concat (map (\<lambda>(height, i). be_u32 height @ i) ms)"
  have at: "at_pos data pos (be_u32 h @ i @ ?tail)" using Cons.prems m by simp
  have at2: "at_pos data (pos + 4) (i @ ?tail)" using at_pos_append [OF at] by simp
  have i: "length i = 32" using Cons.prems m by simp
  have at3: "at_pos data (pos + 36) ?tail" using at_pos_append [OF at2] i by (simp add: add.assoc)
  have nth: "data ! (pos + k) = be_u32 h ! k" if "k < 4" for k
    using at_pos_nth [OF at, of k] that by (simp add: nth_append)
  have h: "from_be_u32 (data ! pos) (data ! (pos + 1)) (data ! (pos + 2)) (data ! (pos + 3)) = h"
    using nth [of 0] nth [of 1] nth [of 2] nth [of 3] by (simp add: be_u32_def)
  have "subslice data (pos + 4) (pos + 4 + 32) = i" using at2 i by (intro at_pos_subslice) simp_all
  with h show ?case
    using Cons.IH [OF _ at3] Cons.prems m at_pos_length [OF at2] i by simp
qed

lemma snapshots_info_parse_serialize:
  assumes "length ms \<le> MAX_SNAPSHOTS_INFO_ENTRIES" "list_all (\<lambda>m. length (snd m) = 32) ms"
  shows "snapshots_info_parse (snapshots_info_serialize ms) = Inr ms"
proof -
  let ?tail = "concat (map (\<lambda>(height, i). be_u32 height @ i) ms)"
  have count: "unat (count_u64 ms) = length ms"
    using assms(1) by (simp add: unat_count_u64 MAX_SNAPSHOTS_INFO_ENTRIES_def usize_limit_def)
  have at: "at_pos (vlq_encode (count_u64 ms) @ ?tail) (length (vlq_encode (count_u64 ms))) ?tail"
    by (rule at_pos_prefix)
  show ?thesis
    using assms count read_manifests_concat [OF assms(2) at] vlq_decode_front [of "count_u64 ms" ?tail]
    by (simp add: snapshots_info_parse_def snapshots_info_serialize_def)
qed

lemma read_modifiers_concat:
  "list_all (\<lambda>i. length (mi_id i) = 32) ms \<Longrightarrow>
   length (concat (map modifier_item_bytes ms)) < usize_limit \<Longrightarrow>
   read_modifiers (length ms) (concat (map modifier_item_bytes ms)) = Inr ms"
proof (induction ms)
  case Nil
  then show ?case by simp
next
  case (Cons m ms)
  let ?tail = "concat (map modifier_item_bytes ms)"
  have "length (mi_data m) < usize_limit"
    using Cons.prems by (simp add: modifier_item_bytes_def with_len_def)
  then have "unat (len_u64 (mi_data m)) = length (mi_data m)" by simp
  with Cons show ?case
    by (simp add: modifier_item_bytes_def [of m] with_len_def vlq_decode_front)
qed

lemma decode_modifier_body:
  assumes ids: "list_all (\<lambda>i. length (mi_id i) = 32) (md_modifiers m)"
    and enc: "encode_body env (MModifier m) = Inr bs" and small: "small_body bs"
  shows "decode_modifier bs = Inr m"
proof -
  let ?ms = "md_modifiers m"
  have bs: "bs = md_type_id m # vlq_encode (count_u64 ?ms) @ concat (map modifier_item_bytes ?ms)"
    using enc by simp
  have "32 * length ms \<le> length (concat (map modifier_item_bytes ms))"
    if "list_all (\<lambda>i. length (mi_id i) = 32) ms" for ms
    using that by (induction ms) (auto simp: modifier_item_bytes_def)
  from this [OF ids] have len: "length ?ms < 2 ^ 53"
    using small by (simp add: small_body_def bs)
  then have count: "unat (count_u64 ?ms) = length ?ms"
    by (simp add: unat_count_u64 usize_limit_def)
  have "with_capacity 48 (count_u64 ?ms) = Inr ()"
    using len count by (intro with_capacity_ok) simp
  moreover have "read_modifiers (length ?ms) (concat (map modifier_item_bytes ?ms)) = Inr ?ms"
    using small_body_usize [OF small] by (intro read_modifiers_concat [OF ids]) (simp add: bs)
  ultimately show ?thesis
    using count by (simp add: decode_modifier_def bs get_u8_def vlq_decode_front)
qed

lemma decode_blob_with_len:
  assumes "length d \<le> n" "n < usize_limit"
  shows "decode_blob n (with_len d) = Inr d"
  using assms by (simp add: decode_blob_def with_len_def vlq_decode_front)

lemma decode_peers_body:
  assumes wf: "list_all wf_spec ps" "length ps * peer_spec_size env < 2 ^ 63"
    and small: "small_body (vlq_encode (count_u64 ps) @ concat (map peer_spec_serialize ps))"
  shows "decode_peers env (vlq_encode (count_u64 ps) @ concat (map peer_spec_serialize ps)) = Inr ps"
proof -
  let ?tail = "concat (map peer_spec_serialize ps)"
  let ?data = "vlq_encode (count_u64 ps) @ ?tail"
  have pos: "0 < length (peer_spec_serialize p)" for p
    by (simp add: peer_spec_serialize_def serialize_name_def split: prod.splits)
  have "length ps \<le> length ?tail"
  proof (induction ps)
    case (Cons p ps)
    with pos [of p] have "Suc (length ps) \<le> length (peer_spec_serialize p)
        + length (concat (map peer_spec_serialize ps))" by linarith
    then show ?case by simp
  qed simp
  then have count: "unat (count_u64 ps) = length ps"
    using small by (simp add: unat_count_u64 usize_limit_def small_body_def)
  have "with_capacity (peer_spec_size env) (count_u64 ps) = Inr ()"
    using wf(2) count by (intro with_capacity_ok) simp
  moreover have "read_n peer_spec_parse (length ps) ?data (length (vlq_encode (count_u64 ps))) =
      Inr (ps, length (vlq_encode (count_u64 ps)) + length ?tail)"
    using wf(1) small_body_usize [OF small]
    by (intro spec.read_n_concat [where rest = "[]"]) (simp_all add: at_pos_prefix)
  ultimately show ?thesis
    using count by (simp add: decode_peers_def vlq_decode_front)
qed

lemma decode_handshake_body:
  assumes "to_json env h = Some j" "from_json env j = Some h" "length j < 2 ^ 32"
  shows "decode_handshake env (be_u32 (of_nat (length j)) @ j) = Inr h"
proof -
  have "unat (of_nat (length j) :: u32) = length j" using assms(3) by (simp add: unat_of_nat)
  moreover have "get_u32 (be_u32 w @ bs) = Inr (w, bs)" for w bs
    by (simp add: get_u32_def be_u32_def)
  ultimately show ?thesis using assms by (simp add: decode_handshake_def)
qed

lemma decode_encode_body:
  assumes "wf_message env m" "encode_body env m = Inr body" "small_body body"
  shows "decode_body env (get_message_type m) body = Inr m"
proof (cases m)
  case (MHandshake h)
  with assms show ?thesis by (auto simp: decode_handshake_body)
next
  case (MModifier md)
  with assms decode_modifier_body [of md env body] show ?thesis by (simp del: encode_body.simps(7))
qed (use assms in \<open>auto simp: decode_inv_body decode_peers_body sync_info_parse_serialize
      snapshots_info_parse_serialize decode_blob_with_len decode_id_def
      MAX_MANIFEST_SIZE_def MAX_CHUNK_SIZE_def usize_limit_def\<close>)

lemma message_decode_encode:
  assumes "wf_message env m" "message_encode env m = Inr bs" "small_body bs"
  shows "message_decode env bs = Inr m"
proof -
  from assms(2) obtain body where "encode_body env m = Inr body"
    and bs: "bs = type_code (get_message_type m) # body"
    by (auto simp: message_encode_def res_simps)
  moreover have "small_body body" using assms(3) bs by (simp add: small_body_def)
  ultimately have "decode_body env (get_message_type m) body = Inr m"
    using assms(1) by (intro decode_encode_body)
  then show ?thesis by (simp add: message_decode_def bs)
qed

subsection \<open>Panics\<close>

definition panics :: "network_error + 'a \<Rightarrow> bool" where
  "panics r \<longleftrightarrow> (\<exists>s. r = Inl (Panic s))"

lemma panics_rbind: "panics (rbind r f) \<longleftrightarrow> panics r \<or> (\<exists>x. r = Inr x \<and> panics (f x))"
  by (cases r) (auto simp: panics_def)

lemma panics_simps [simp]:
  "\<not> panics (Inr x)" "\<not> panics (Inl (InvalidMessage t))" "panics (Inl (Panic t))"
  by (auto simp: panics_def)

lemma vlq_decode_not_panics [simp]: "\<not> panics (vlq_decode data pos)"
  using vlq_decode_no_panic by (auto simp: panics_def)

lemma decode_blob_not_panics: "\<not> panics (decode_blob n bs)"
  using vlq_decode_bounds [of bs 0]
  by (auto simp: decode_blob_def panics_rbind advance_def res_simps split: if_splits prod.splits)

lemma read_manifests_not_panics: "\<not> panics (read_manifests n data pos)"
  by (induction n arbitrary: pos) (auto simp: panics_rbind)

lemma snapshots_info_not_panics: "\<not> panics (snapshots_info_parse data)"
  using read_manifests_not_panics by (auto simp: snapshots_info_parse_def split: sum.splits)

lemma decode_id_not_panics: "\<not> panics (decode_id bs)"
  by (simp add: decode_id_def)

subsection \<open>Properties\<close>

definition example_env :: message_env where
  "example_env = \<lparr>to_json = \<lambda>h. Some (hm_agent_name h),
     from_json = \<lambda>j. Some \<lparr>hm_agent_name = j, hm_version = (0, 0, 0), hm_node_name = [],
        hm_declared_addr = None, hm_features = []\<rparr>, peer_spec_size = 104\<rparr>"

text \<open>C26: every well-formed message, of each of the thirteen types, is decoded from the bytes it
  was encoded to. For the JSON handshake message this rests on serde reading back what it
  wrote, which is part of the message being well-formed.\<close>

theorem message_roundtrip:
  assumes "wf_message env m" and "message_encode env m = Inr bs" and "small_body bs"
  shows "message_decode env bs = Inr m"
  using assms by (rule message_decode_encode)

theorem message_roundtrip_witness:
  "message_decode example_env [55, 2, 1, 0, 1, 2, 3, 4, 5, 6, 7, 8, 9, 10, 11, 12, 13, 14, 15, 16,
     17, 18, 19, 20, 21, 22, 23, 24, 25, 26, 27, 28, 29, 30, 31] =
   Inr (MInv \<lparr>inv_type_id = 2, inv_ids = [[0, 1, 2, 3, 4, 5, 6, 7, 8, 9, 10, 11, 12, 13, 14, 15, 16,
     17, 18, 19, 20, 21, 22, 23, 24, 25, 26, 27, 28, 29, 30, 31]]\<rparr>)"
  by (rule message_roundtrip)
     (simp_all add: ids32_def small_body_def message_encode_def inv_body_def count_u64_def
       vlq_encode.simps Let_def)

text \<open>Whatever payload a peer sends, decoding a message of the peers request or of the six
  UTXO snapshot types returns a message or an error and never panics.\<close>

theorem snapshot_messages_never_panic:
  assumes "t \<in> {TGetPeers, TGetSnapshotsInfo, TSnapshotsInfo, TGetManifest, TManifest,
     TGetUtxoSnapshotChunk, TUtxoSnapshotChunk}"
  shows "\<not> panics (message_decode env (type_code t # payload))"
  using assms decode_blob_not_panics snapshots_info_not_panics decode_id_not_panics
  by (auto simp: message_decode_def panics_rbind simp del: type_code.simps)

theorem snapshot_messages_never_panic_witness:
  "\<not> panics (message_decode example_env [79, 255, 255, 255, 255, 127])"
  using snapshot_messages_never_panic [of TManifest example_env "[255, 255, 255, 255, 127]"]
  by simp

text \<open>A message that consists of its type byte alone makes the decoder panic when the type is
  an inventory, a modifier request, a modifier or a JSON handshake: the unchecked reads of
  the body run past its end.\<close>

theorem empty_body_panics:
  "panics (message_decode env [type_code TInv]) \<and>
   panics (message_decode env [type_code TRequestModifier]) \<and>
   panics (message_decode env [type_code TModifier]) \<and>
   panics (message_decode env [type_code THandshake])"
  by (simp add: message_decode_def panics_rbind decode_inv_def decode_modifier_def
      decode_handshake_def get_u8_def get_u32_def del: type_code.simps)

text \<open>An inventory whose count is written in a longer form than needed is misread: the decoder
  skips the canonical length of the count instead of the bytes it read, so the identifier
  it returns starts with a byte of the count and lacks its own last byte.\<close>

theorem inv_overlong_count_shifts_ids:
  assumes "length i = 32"
  shows "message_decode env (type_code TInv # t # 0x81 # 0x00 # i) =
     Inr (MInv \<lparr>inv_type_id = t, inv_ids = [0x00 # butlast i]\<rparr>)"
proof -
  let ?bs = "0x81 # 0x00 # i"
  have dec: "vlq_decode ?bs 0 = Inr (1, Suc (Suc 0))"
    by (simp add: vlq_decode_def vlq_decode_loop.simps Let_def)
  have len: "vlq_byte_len 1 = 1" by (simp add: vlq_byte_len_encode vlq_encode.simps Let_def)
  have cap: "with_capacity 24 1 = Inr ()" by (simp add: with_capacity_def)
  have "take 32 (0x00 # i) = 0x00 # butlast i"
    using assms by (simp add: butlast_conv_take take_Cons')
  then have "take_ids 1 (0x00 # i) = [0x00 # butlast i]"
    using assms by (simp add: take_ids.simps)
  with dec len cap show ?thesis
    by (simp add: message_decode_def decode_inv_def get_u8_def advance_def del: type_code.simps)
qed

theorem inv_overlong_count_shifts_ids_witness:
  "message_decode example_env (type_code TInv # 2 # 0x81 # 0x00 # replicate 32 7) =
     Inr (MInv \<lparr>inv_type_id = 2, inv_ids = [0x00 # butlast (replicate 32 7)]\<rparr>)"
  by (rule inv_overlong_count_shifts_ids) simp

subsection \<open>What the decoder guarantees of a received message\<close>

text \<open>
  The type of a message on the wire: all that a well-formed message promises, except that
  of the JSON handshake it is only known that \<open>serde\<close> read it from some bytes, and of a list
  of peers that its count fits the capacity it was read with.
\<close>

fun wire_typed :: "message_env \<Rightarrow> message \<Rightarrow> bool" where
  "wire_typed env (MHandshake h) \<longleftrightarrow> (\<exists>j. from_json env j = Some h \<and> length j < 2 ^ 32)"
| "wire_typed env (MPeers ps) \<longleftrightarrow> length ps * peer_spec_size env < 2 ^ 63"
| "wire_typed env m \<longleftrightarrow> wf_message env m"

lemma take_ids_typed: "ids32 (take_ids n bs)"
proof (induction n bs rule: take_ids.induct)
  case (1 n bs)
  then show ?case by (subst take_ids.simps) (auto simp: ids32_def)
qed

lemma decode_inv_typed: "decode_inv bs = Inr i \<Longrightarrow> ids32 (inv_ids i)"
  by (auto simp: decode_inv_def take_ids_typed rbind_Inr_iff split: prod.splits)

lemma v2_headers_count: "v2_headers n data pos = Inr hs \<Longrightarrow> length hs \<le> n"
  by (induction n data pos arbitrary: hs rule: v2_headers.induct)
     (auto simp: rbind_Inr_iff split: if_splits sum.splits prod.splits)

lemma sync_info_typed:
  assumes "sync_info_parse data = Inr s"
  shows "wf_sync_info s"
proof -
  have v2: "wf_sync_info (sync_info_v2 hs)"
    if "v2_headers (unat (b :: u8)) data pos = Inr hs" for b pos hs
  proof -
    have "length hs < 256"
      using v2_headers_count [OF that] unsigned_less [of b, where 'a = nat] by simp
    then show ?thesis by (simp add: wf_sync_info_def sync_info_v2_def ids32_def)
  qed
  have v1: "wf_sync_info (sync_info_v1 (take_ids n bs))" for n bs
    by (simp add: wf_sync_info_def sync_info_v1_def is_v2_def take_ids_typed)
  have "wf_sync_info sync_info_empty"
    by (simp add: wf_sync_info_def sync_info_empty_def is_v2_def ids32_def)
  with assms v1 v2 show ?thesis
    by (auto simp: sync_info_parse_def rbind_Inr_iff Let_def split: if_splits sum.splits prod.splits)
qed

lemma read_manifests_typed:
  "read_manifests n data pos = Inr ms \<Longrightarrow> length ms = n \<and> list_all (\<lambda>m. length (snd m) = 32) ms"
  by (induction n data pos arbitrary: ms rule: read_manifests.induct)
     (auto simp: rbind_Inr_iff subslice_def split: if_splits)

lemma read_modifiers_typed:
  "read_modifiers n bs = Inr ms \<Longrightarrow> list_all (\<lambda>i. length (mi_id i) = 32) ms"
  by (induction n bs arbitrary: ms rule: read_modifiers.induct)
     (fastforce simp: rbind_Inr_iff split: if_splits prod.splits)+

lemma decode_blob_typed: "decode_blob n bs = Inr d \<Longrightarrow> length d \<le> n"
  by (auto simp: decode_blob_def rbind_Inr_iff split: if_splits prod.splits)

lemma decode_id_typed: "decode_id bs = Inr i \<Longrightarrow> length i = 32"
  by (auto simp: decode_id_def split: if_splits)

lemma read_n_count: "read_n f n data pos = Inr (xs, p) \<Longrightarrow> length xs = n"
  by (induction n arbitrary: pos xs p) (auto simp: rbind_Inr_iff split: prod.splits)

lemma decode_peers_typed:
  "decode_peers env data = Inr ps \<Longrightarrow> length ps * peer_spec_size env < 2 ^ 63"
  by (auto simp: decode_peers_def with_capacity_def rbind_Inr_iff dest!: read_n_count
      split: if_splits prod.splits)

lemma decode_handshake_typed:
  assumes "decode_handshake env bs = Inr h"
  shows "\<exists>j. from_json env j = Some h \<and> length j < 2 ^ 32"
proof -
  obtain len :: u32 and bs1 where "from_json env (take (unat len) bs1) = Some h"
    using assms by (auto simp: decode_handshake_def rbind_Inr_iff split: if_splits option.splits prod.splits)
  moreover have "length (take (unat len) bs1) < 2 ^ 32"
    using unsigned_less [of len, where 'a = nat] by simp
  ultimately show ?thesis by blast
qed

lemma snapshots_info_typed:
  "snapshots_info_parse data = Inr ms \<Longrightarrow>
   length ms \<le> MAX_SNAPSHOTS_INFO_ENTRIES \<and> list_all (\<lambda>m. length (snd m) = 32) ms"
  by (auto simp: snapshots_info_parse_def dest: read_manifests_typed
      split: if_splits sum.splits prod.splits)

lemma decode_modifier_typed:
  "decode_modifier bs = Inr m \<Longrightarrow> list_all (\<lambda>i. length (mi_id i) = 32) (md_modifiers m)"
  by (auto simp: decode_modifier_def rbind_Inr_iff dest: read_modifiers_typed split: prod.splits)

lemma decode_body_typed:
  "decode_body env t bs = Inr m \<Longrightarrow> wire_typed env m \<and> get_message_type m = t"
  by (cases t)
     (auto simp: rbind_Inr_iff dest: decode_handshake_typed [simplified] decode_peers_typed sync_info_typed
       decode_inv_typed decode_modifier_typed snapshots_info_typed decode_id_typed decode_blob_typed)

text \<open>C40: every message the decoder returns, from whatever bytes, is well typed: it is of the
  type its first byte names, its identifiers have 32 bytes, its counts fit their fields, the
  manifests it lists are at most a hundred and the blobs it carries are within the limits.\<close>

theorem decoded_messages_typed:
  assumes "message_decode env bs = Inr m"
  shows "wire_typed env m \<and> message_type_try_from (hd bs) = Inr (get_message_type m)"
proof -
  obtain t body ty where "bs = t # body" "message_type_try_from t = Inr ty"
    "decode_body env ty body = Inr m"
    using assms by (auto simp: message_decode_def rbind_Inr_iff split: list.splits)
  with decode_body_typed [of env ty body m] show ?thesis by simp
qed

theorem decoded_messages_typed_witness:
  "wire_typed example_env (MGetManifest (replicate 32 7)) \<and>
   message_type_try_from 78 = Inr TGetManifest"
  using decoded_messages_typed [of example_env "78 # replicate 40 7" "MGetManifest (replicate 32 7)"]
  by (simp add: message_decode_def message_type_try_from_def decode_id_def)

end
