(* ===== verification/Codec.thy ===== *)
theory Codec
  imports Messages "HOL-Library.Sublist"
begin

text \<open>
  Message framing of codec.rs: \<open>MessageCodec\<close> as a \<open>Decoder\<close> and an \<open>Encoder\<close>, the peer
  address record and the feature flags. The hash is BLAKE2b-256, a parameter of the model.
  The locale \<open>framing\<close> states what a stream needs from a frame codec (a whole frame is taken
  off the buffer, a strict part of one leaves it untouched) and shows once that the
  messages read do not depend on how the transport cuts the stream into chunks.
\<close>

subsection \<open>The codec\<close>

definition BASE_HEADER_SIZE :: nat where
  "BASE_HEADER_SIZE = 9"

definition CHECKSUM_SIZE :: nat where
  "CHECKSUM_SIZE = 4"

definition MAX_MESSAGE_SIZE :: nat where
  "MAX_MESSAGE_SIZE = 10 * 1024 * 1024"

definition MAINNET_MAGIC :: bytes where
  "MAINNET_MAGIC = [0x01, 0x00, 0x02, 0x04]"

record message_codec =
  mc_magic :: bytes
  mc_max_size :: nat

definition codec_with_magic :: "bytes \<Rightarrow> message_codec" where
  "codec_with_magic magic = \<lparr>mc_magic = magic, mc_max_size = MAX_MESSAGE_SIZE\<rparr>"

definition codec_new :: message_codec where
  "codec_new = codec_with_magic MAINNET_MAGIC"

definition checksum :: "(bytes \<Rightarrow> bytes) \<Rightarrow> bytes \<Rightarrow> bytes" where
  "checksum hash payload = take 4 (hash payload)"

definition verify_checksum :: "(bytes \<Rightarrow> bytes) \<Rightarrow> bytes \<Rightarrow> bytes \<Rightarrow> bool" where
  "verify_checksum hash payload expected \<longleftrightarrow> checksum hash payload = expected"

definition frame_size :: "nat \<Rightarrow> nat" where
  "frame_size len = (if 0 < len then BASE_HEADER_SIZE + CHECKSUM_SIZE + len else BASE_HEADER_SIZE)"

text \<open>\<open>decode\<close> returns its result and what is left of the buffer.\<close>

definition codec_decode :: "message_env \<Rightarrow> (bytes \<Rightarrow> bytes) \<Rightarrow> message_codec \<Rightarrow> bytes \<Rightarrow>
    (network_error + message option) \<times> bytes" where
  "codec_decode env hash c src =
     (if length src < BASE_HEADER_SIZE then (Inr None, src)
      else if take 4 src \<noteq> mc_magic c then (Inl (InvalidMessage ''Invalid magic''), src)
      else
        let msg_type = src ! 4;
            len = unat (from_be_u32 (src ! 5) (src ! 6) (src ! 7) (src ! 8))
        in if mc_max_size c < len then (Inl (MessageTooLarge len (mc_max_size c)), src)
        else if length src < frame_size len then (Inr None, src)
        else
          let src1 = drop BASE_HEADER_SIZE src in
          if 0 < len then
            let sum = take 4 src1; src2 = drop CHECKSUM_SIZE src1;
                payload = take len src2; src3 = drop len src2
            in if \<not> verify_checksum hash payload sum
               then (Inl (InvalidMessage ''Checksum mismatch''), src3)
               else (rbind (message_decode env (msg_type # payload)) (\<lambda>m. Inr (Some m)), src3)
          else (rbind (message_decode env [msg_type]) (\<lambda>m. Inr (Some m)), src1))"

text \<open>\<open>encode\<close> appends the frame to the destination buffer.\<close>

definition codec_encode :: "message_env \<Rightarrow> (bytes \<Rightarrow> bytes) \<Rightarrow> message_codec \<Rightarrow> message \<Rightarrow> bytes \<Rightarrow>
    network_error + bytes" where
  "codec_encode env hash c item dst =
     rbind (message_encode env item) (\<lambda>encoded.
       case encoded of
         [] \<Rightarrow> Inl (InvalidMessage ''Empty encoded message'')
       | msg_type # payload \<Rightarrow>
           let len = length payload in
           if mc_max_size c < len then Inl (MessageTooLarge len (mc_max_size c))
           else Inr (dst @ mc_magic c @ [msg_type] @ be_u32 (of_nat len) @
                     (if 0 < len then checksum hash payload @ payload else [])))"

subsection \<open>Feature flags and peer addresses\<close>

datatype feature_flag = FullNode | StateSnapshot | NiPoPoW | Archive

fun flag_bits :: "feature_flag \<Rightarrow> u8" where
  "flag_bits FullNode = 0x01"
| "flag_bits StateSnapshot = 0x02"
| "flag_bits NiPoPoW = 0x04"
| "flag_bits Archive = 0x08"

definition flag_is_set :: "feature_flag \<Rightarrow> u8 \<Rightarrow> bool" where
  "flag_is_set f features \<longleftrightarrow> features AND flag_bits f \<noteq> 0"

definition flag_combine :: "feature_flag list \<Rightarrow> u8" where
  "flag_combine fs = foldl (\<lambda>acc f. acc OR flag_bits f) 0 fs"

record peer_address =
  pa_address :: bytes
  pa_last_seen :: u64
  pa_failures :: u32

definition peer_address_new :: "bytes \<Rightarrow> peer_address" where
  "peer_address_new a = \<lparr>pa_address = a, pa_last_seen = 0, pa_failures = 0\<rparr>"

definition peer_address_serialize :: "peer_address \<Rightarrow> bytes" where
  "peer_address_serialize a =
     be_u16 (of_nat (length (pa_address a))) @ pa_address a @
     be_u64 (pa_last_seen a) @ be_u32 (pa_failures a)"

definition peer_address_deserialize :: "bytes \<Rightarrow> network_error + peer_address \<times> bytes" where
  "peer_address_deserialize bs =
     (if length bs < 2 then Inl (InvalidMessage ''PeerAddress too short'')
      else
        let addr_len = unat (from_be_u16 (bs ! 0) (bs ! 1)); bs1 = drop 2 bs in
        if length bs1 < addr_len + 12 then Inl (InvalidMessage ''PeerAddress truncated'')
        else
          let bs2 = drop addr_len bs1; bs3 = drop 8 bs2 in
          Inr (\<lparr>pa_address = from_utf8_lossy (take addr_len bs1),
                pa_last_seen = from_be_u64 bs2,
                pa_failures = from_be_u32 (bs3 ! 0) (bs3 ! 1) (bs3 ! 2) (bs3 ! 3)\<rparr>, drop 4 bs3))"

lemma foldl_or: "foldl (\<lambda>acc f. acc OR flag_bits f) a fs = a OR foldl (\<lambda>acc f. acc OR flag_bits f) 0 fs"
proof (induction fs arbitrary: a)
  case Nil
  show ?case by simp
next
  case (Cons f fs)
  show ?case
    using Cons [of "a OR flag_bits f"] Cons [of "flag_bits f"] by (simp add: or.assoc)
qed

lemma flag_bits_disjoint: "flag_bits g AND flag_bits f \<noteq> 0 \<longleftrightarrow> g = f"
  by (cases g; cases f) simp_all

lemma flag_is_set_combine: "flag_is_set f (flag_combine fs) \<longleftrightarrow> f \<in> set fs"
proof (induction fs)
  case Nil
  show ?case by (simp add: flag_is_set_def flag_combine_def)
next
  case (Cons g fs)
  have "flag_combine (g # fs) = flag_bits g OR flag_combine fs"
    using foldl_or [of "flag_bits g" fs] by (simp add: flag_combine_def)
  then have "flag_is_set f (flag_combine (g # fs)) \<longleftrightarrow>
      flag_bits g AND flag_bits f \<noteq> 0 \<or> flag_is_set f (flag_combine fs)"
    by (simp add: flag_is_set_def bit.conj_disj_distrib2 or_eq_0_iff)
  with Cons show ?case using flag_bits_disjoint [of g f] by auto
qed

lemma peer_address_roundtrip:
  assumes "utf8 (pa_address a)" "length (pa_address a) < 2 ^ 16"
  shows "peer_address_deserialize (peer_address_serialize a @ rest) = Inr (a, rest)"
proof -
  have "unat (of_nat (length (pa_address a)) :: u16) = length (pa_address a)"
    using assms(2) by (simp add: unat_of_nat)
  then show ?thesis
    using assms(1)
    by (simp add: peer_address_deserialize_def peer_address_serialize_def be_u16_def be_u32_def Let_def)
qed

subsection \<open>One frame\<close>

text \<open>The codecs the node builds: four magic bytes, and a limit that the length field can hold.\<close>

definition wf_codec :: "message_codec \<Rightarrow> bool" where
  "wf_codec c \<longleftrightarrow> length (mc_magic c) = 4 \<and> mc_max_size c < 2 ^ 32"

lemma wf_codec_new: "wf_codec codec_new"
  by (simp add: wf_codec_def codec_new_def codec_with_magic_def MAINNET_MAGIC_def MAX_MESSAGE_SIZE_def)

definition frame :: "(bytes \<Rightarrow> bytes) \<Rightarrow> message_codec \<Rightarrow> u8 \<Rightarrow> bytes \<Rightarrow> bytes" where
  "frame hash c t payload =
     mc_magic c @ [t] @ be_u32 (of_nat (length payload)) @
     (if payload = [] then [] else checksum hash payload @ payload)"

lemma frame_header:
  assumes "wf_codec c" "length payload \<le> mc_max_size c"
    and "take 9 (src :: bytes) = take 9 (frame hash c t payload)" "9 \<le> length src"
  shows "take 4 src = mc_magic c" "src ! 4 = t"
    "unat (from_be_u32 (src ! 5) (src ! 6) (src ! 7) (src ! 8)) = length payload"
proof -
  let ?len = "of_nat (length payload) :: u32"
  have len: "unat ?len = length payload" using assms(1,2) by (simp add: wf_codec_def unat_of_nat)
  have magic: "length (mc_magic c) = 4" using assms(1) by (simp add: wf_codec_def)
  have hd: "take 9 (frame hash c t payload) = mc_magic c @ t # be_u32 ?len"
    using magic by (simp add: frame_def)
  have "take 4 src = take 4 (take 9 src)" by (simp add: min_def)
  with assms(3) hd magic show "take 4 src = mc_magic c" by simp
  have nth: "src ! (4 + i) = (t # be_u32 ?len) ! i" if "i < 5" for i
  proof -
    have "src ! (4 + i) = take 9 src ! (4 + i)" using that by simp
    also have "\<dots> = (t # be_u32 ?len) ! i"
      using assms(3) hd magic by (metis nth_append_length_plus)
    finally show ?thesis .
  qed
  show "src ! 4 = t" using nth [of 0] by simp
  show "unat (from_be_u32 (src ! 5) (src ! 6) (src ! 7) (src ! 8)) = length payload"
    using nth [of 1] nth [of 2] nth [of 3] nth [of 4] len by (simp add: be_u32_def)
qed

lemma length_frame:
  assumes "wf_codec c" "length (hash payload) = 32"
  shows "length (frame hash c t payload) = frame_size (length payload)"
  using assms by (simp add: frame_def frame_size_def wf_codec_def checksum_def
      BASE_HEADER_SIZE_def CHECKSUM_SIZE_def)

lemma codec_decode_frame:
  assumes wf: "wf_codec c" and hash: "length (hash payload) = 32"
    and fits: "length payload \<le> mc_max_size c"
  shows "codec_decode env hash c (frame hash c t payload @ rest) =
     (rbind (message_decode env (t # payload)) (\<lambda>m. Inr (Some m)), rest)"
proof -
  let ?src = "frame hash c t payload @ rest"
  have len: "length (frame hash c t payload) = frame_size (length payload)"
    using wf hash by (rule length_frame)
  then have ge: "9 \<le> length (frame hash c t payload)"
    by (simp add: frame_size_def BASE_HEADER_SIZE_def)
  then have "take 9 ?src = take 9 (frame hash c t payload)" and "9 \<le> length ?src" by simp_all
  note h = frame_header [OF wf fits this]
  have magic: "length (mc_magic c) = 4" using wf by (simp add: wf_codec_def)
  have drop9: "drop 9 ?src =
      (if payload = [] then [] else checksum hash payload @ payload) @ rest"
    using magic by (simp add: frame_def)
  have "length (checksum hash payload) = 4" using hash by (simp add: checksum_def)
  then show ?thesis
    using h len fits drop9
    by (cases "payload = []")
       (simp_all add: codec_decode_def Let_def BASE_HEADER_SIZE_def CHECKSUM_SIZE_def
         frame_size_def verify_checksum_def)
qed

lemma codec_decode_partial:
  assumes wf: "wf_codec c" and hash: "length (hash payload) = 32"
    and fits: "length payload \<le> mc_max_size c"
    and pre: "strict_prefix src (frame hash c t payload)"
  shows "codec_decode env hash c src = (Inr None, src)"
proof (cases "length src < 9")
  case True
  then show ?thesis by (simp add: codec_decode_def BASE_HEADER_SIZE_def)
next
  case False
  obtain ys where ys: "frame hash c t payload = src @ ys" using pre by (auto elim: strict_prefixE')
  have "length src < frame_size (length payload)"
    using prefix_length_less [OF pre] length_frame [of c hash payload t] wf hash by simp
  moreover have "take 9 src = take 9 (frame hash c t payload)" using ys False by simp
  ultimately show ?thesis
    using False frame_header [OF wf fits, of src hash t] fits
    by (simp add: codec_decode_def Let_def BASE_HEADER_SIZE_def)
qed

lemma codec_encode_frame:
  assumes "codec_encode env hash c m dst = Inr out"
  obtains t payload where "message_encode env m = Inr (t # payload)"
    "length payload \<le> mc_max_size c" "out = dst @ frame hash c t payload"
proof -
  from assms obtain e where e: "message_encode env m = Inr e"
    by (auto simp: codec_encode_def res_simps)
  with assms that show thesis
    by (cases e) (auto simp: codec_encode_def Let_def frame_def split: if_splits)
qed

subsection \<open>A stream of frames\<close>

text \<open>
  How a framed transport uses a decoder: \<open>drain\<close> decodes until the decoder asks for more,
  \<open>feed\<close> appends each chunk that arrives and drains the buffer.
\<close>

fun drain :: "nat \<Rightarrow> (bytes \<Rightarrow> ('e + 'a option) \<times> bytes) \<Rightarrow> bytes \<Rightarrow> 'a list \<times> bytes" where
  "drain 0 dec buf = ([], buf)"
| "drain (Suc n) dec buf =
     (case dec buf of
        (Inr (Some m), buf') \<Rightarrow> (case drain n dec buf' of (ms, b) \<Rightarrow> (m # ms, b))
      | _ \<Rightarrow> ([], buf))"

fun feed :: "(bytes \<Rightarrow> ('e + 'a option) \<times> bytes) \<Rightarrow> bytes \<Rightarrow> bytes list \<Rightarrow> 'a list \<times> bytes" where
  "feed dec buf [] = ([], buf)"
| "feed dec buf (chunk # chunks) =
     (case drain (Suc (length (buf @ chunk))) dec (buf @ chunk) of
        (ms, buf') \<Rightarrow> (case feed dec buf' chunks of (ms', b) \<Rightarrow> (ms @ ms', b)))"

locale framing =
  fixes enc :: "'a \<Rightarrow> bytes"
    and dec :: "bytes \<Rightarrow> ('e + 'a option) \<times> bytes"
    and ok :: "'a \<Rightarrow> bool"
  assumes whole: "ok m \<Longrightarrow> dec (enc m @ rest) = (Inr (Some m), rest)"
    and part: "ok m \<Longrightarrow> strict_prefix buf (enc m) \<Longrightarrow> dec buf = (Inr None, buf)"
    and empty: "dec [] = (Inr None, [])"
begin

lemma enc_not_Nil: "ok m \<Longrightarrow> enc m \<noteq> []"
  using whole [of m "[]"] empty by auto

text \<open>A buffer that starts a sequence of frames drains to the frames that are complete.\<close>

lemma drain_prefix:
  "list_all ok ms \<Longrightarrow> prefix buf (concat (map enc ms)) \<Longrightarrow> length buf < n \<Longrightarrow>
   \<exists>ms1 ms2 b. drain n dec buf = (ms1, b) \<and> ms = ms1 @ ms2 \<and>
     buf = concat (map enc ms1) @ b \<and> prefix b (concat (map enc ms2)) \<and>
     (ms2 = [] \<or> strict_prefix b (enc (hd ms2)))"
proof (induction ms arbitrary: buf n)
  case Nil
  then show ?case using empty by (cases n) auto
next
  case (Cons m ms)
  then obtain k where n: "n = Suc k" by (cases n) auto
  have ok: "ok m" using Cons.prems by simp
  show ?case
  proof (cases "strict_prefix buf (enc m)")
    case True
    then have "drain n dec buf = ([], buf)" using part [OF ok True] by (simp add: n)
    with True Cons.prems show ?thesis
      by (intro exI [of _ "[]"] exI [of _ "m # ms"] exI [of _ buf]) simp
  next
    case False
    then obtain b where b: "buf = enc m @ b" "prefix b (concat (map enc ms))"
      using Cons.prems by (auto simp: prefix_append strict_prefix_def)
    have "length b < k" using b Cons.prems n enc_not_Nil [OF ok] by (cases "enc m") auto
    from Cons.IH [OF _ b(2) this] obtain ms1 ms2 b' where
      r: "drain k dec b = (ms1, b')" "ms = ms1 @ ms2" "b = concat (map enc ms1) @ b'"
        "prefix b' (concat (map enc ms2))" "ms2 = [] \<or> strict_prefix b' (enc (hd ms2))"
      using Cons.prems by auto
    then show ?thesis
      using whole [OF ok, of b] by (intro exI [of _ "m # ms1"] exI [of _ ms2] exI [of _ b']) (simp add: n b)
  qed
qed

lemma feed_stream:
  "list_all ok ms \<Longrightarrow> buf @ concat chunks = concat (map enc ms) \<Longrightarrow>
   ms = [] \<or> strict_prefix buf (enc (hd ms)) \<Longrightarrow> feed dec buf chunks = (ms, [])"
proof (induction chunks arbitrary: buf ms)
  case Nil
  show ?case
  proof (cases ms)
    case Nil
    with Nil.prems show ?thesis by simp
  next
    case (Cons m ms')
    with Nil.prems have "length buf < length (enc m)" by (auto dest: prefix_length_less)
    with Nil.prems Cons show ?thesis by simp
  qed
next
  case (Cons chunk chunks)
  have "prefix (buf @ chunk) (concat (map enc ms))"
    using Cons.prems(2) by (metis append.assoc concat.simps(2) prefixI)
  from drain_prefix [OF Cons.prems(1) this lessI] obtain ms1 ms2 b where
    r: "drain (Suc (length (buf @ chunk))) dec (buf @ chunk) = (ms1, b)" "ms = ms1 @ ms2"
      "buf @ chunk = concat (map enc ms1) @ b" "ms2 = [] \<or> strict_prefix b (enc (hd ms2))"
    by blast
  have "b @ concat chunks = concat (map enc ms2)"
    using Cons.prems(2) r(2,3) by (metis append.assoc concat.simps(2) concat_append map_append same_append_eq)
  then have "feed dec b chunks = (ms2, [])"
    using Cons.prems(1) r(2,4) by (intro Cons.IH) auto
  with r show ?case by simp
qed

theorem feed_chunks:
  "list_all ok ms \<Longrightarrow> concat chunks = concat (map enc ms) \<Longrightarrow> feed dec [] chunks = (ms, [])"
  using feed_stream [of ms "[]" chunks] enc_not_Nil [of "hd ms"]
  by (cases ms) (auto simp: strict_prefix_def eq_commute [of "[]"])

end

subsection \<open>The message codec is a framing\<close>

text \<open>
  The frame a message is sent as, and the messages a codec can send: well-formed ones whose
  encoding respects the limit of the codec.
\<close>

definition message_frame :: "message_env \<Rightarrow> (bytes \<Rightarrow> bytes) \<Rightarrow> message_codec \<Rightarrow> message \<Rightarrow> bytes" where
  "message_frame env hash c m =
     (case message_encode env m of
        Inr (t # payload) \<Rightarrow> frame hash c t payload
      | _ \<Rightarrow> [])"

definition sendable :: "message_env \<Rightarrow> message_codec \<Rightarrow> message \<Rightarrow> bool" where
  "sendable env c m \<longleftrightarrow>
     wf_message env m \<and>
     (case message_encode env m of Inr bs \<Rightarrow> length bs \<le> Suc (mc_max_size c) | Inl _ \<Rightarrow> False)"

lemma sendable_frame:
  assumes "sendable env c m"
  obtains t payload where "message_encode env m = Inr (t # payload)"
    "length payload \<le> mc_max_size c" "message_frame env hash c m = frame hash c t payload"
proof -
  from assms obtain bs where bs: "message_encode env m = Inr bs" "length bs \<le> Suc (mc_max_size c)"
    by (auto simp: sendable_def split: sum.splits)
  then obtain payload where "bs = type_code (get_message_type m) # payload"
    by (auto simp: message_encode_def res_simps)
  with bs that show thesis by (simp add: message_frame_def)
qed

text \<open>
  The message codec meets the interface for every codec the node builds and every hash with
  32-byte digests, as BLAKE2b-256 has.
\<close>

definition codec_sends :: "message_env \<Rightarrow> (bytes \<Rightarrow> bytes) \<Rightarrow> message_codec \<Rightarrow> message \<Rightarrow> bool" where
  "codec_sends env hash c m \<longleftrightarrow>
     wf_codec c \<and> (\<forall>bs. length (hash bs) = 32) \<and> sendable env c m"

lemma codec_decode_whole:
  assumes "codec_sends env hash c m"
  shows "codec_decode env hash c (message_frame env hash c m @ rest) = (Inr (Some m), rest)"
proof -
  from assms have wf: "wf_codec c" and hash: "\<And>bs. length (hash bs) = 32"
    and m: "sendable env c m"
    by (auto simp: codec_sends_def)
  from m obtain t payload where e: "message_encode env m = Inr (t # payload)"
    "length payload \<le> mc_max_size c" "message_frame env hash c m = frame hash c t payload"
    by (rule sendable_frame)
  have "mc_max_size c < 2 ^ 32" using wf by (simp add: wf_codec_def)
  then have "small_body (t # payload)" using e(2) by (simp add: small_body_def)
  then have "message_decode env (t # payload) = Inr m"
    using m e(1) by (intro message_decode_encode) (auto simp: sendable_def)
  with e wf hash show ?thesis by (simp add: codec_decode_frame)
qed

lemma codec_decode_part:
  assumes "codec_sends env hash c m" "strict_prefix buf (message_frame env hash c m)"
  shows "codec_decode env hash c buf = (Inr None, buf)"
proof -
  from assms(1) have "sendable env c m" by (simp add: codec_sends_def)
  then obtain t payload where e: "length payload \<le> mc_max_size c"
    "message_frame env hash c m = frame hash c t payload"
    by (rule sendable_frame)
  with assms show ?thesis
    by (intro codec_decode_partial [of c hash payload buf t]) (auto simp: codec_sends_def)
qed

interpretation mcodec: framing "message_frame env hash c" "codec_decode env hash c" "codec_sends env hash c"
  for env hash c
proof unfold_locales
  show "codec_decode env hash c [] = (Inr None, [])"
    by (simp add: codec_decode_def BASE_HEADER_SIZE_def)
qed (rule codec_decode_whole codec_decode_part; assumption)+

subsection \<open>Properties\<close>

text \<open>C24: framing is transparent to segmentation. Any list of messages that the codec can send,
  concatenated as frames and cut into chunks at arbitrary places, is received as the same
  list in the same order, and the buffer is empty at the end. The hash is any function with
  32-byte digests.\<close>

theorem codec_stream:
  assumes "wf_codec c" and "\<forall>bs. length (hash bs) = 32" and "list_all (sendable env c) ms"
    and "concat chunks = concat (map (message_frame env hash c) ms)"
  shows "feed (codec_decode env hash c) [] chunks = (ms, [])"
proof (rule mcodec.feed_chunks [OF _ assms(4)])
  show "list_all (codec_sends env hash c) ms"
    using assms by (simp add: list_all_iff codec_sends_def)
qed

theorem codec_stream_witness:
  "feed (codec_decode example_env (\<lambda>_. replicate 32 0) codec_new) []
     [[1, 0, 2], [4, 1, 0, 0, 0, 0, 1], [0, 2, 4, 76, 0, 0, 0, 0]] = ([MGetPeers, MGetSnapshotsInfo], [])"
proof (rule codec_stream [OF wf_codec_new])
  show "\<forall>bs. length (replicate 32 0 :: bytes) = 32" by simp
  show "list_all (sendable example_env codec_new) [MGetPeers, MGetSnapshotsInfo]"
    by (simp add: sendable_def message_encode_def)
  show "concat [[1, 0, 2], [4, 1, 0, 0, 0, 0, 1], [0, 2, 4, 76, 0, 0, 0, 0]] =
      concat (map (message_frame example_env (\<lambda>_. replicate 32 0) codec_new) [MGetPeers, MGetSnapshotsInfo])"
    by (simp add: message_frame_def message_encode_def frame_def codec_new_def codec_with_magic_def
        MAINNET_MAGIC_def be_u32_def)
qed

text \<open>A frame that \<open>encode\<close> writes for a well-formed message is taken off the buffer by
  \<open>decode\<close>, which returns the message and leaves exactly the bytes behind the frame.\<close>

theorem codec_roundtrip:
  assumes "wf_codec c" and "\<forall>bs. length (hash bs) = 32" and "wf_message env m"
    and "codec_encode env hash c m [] = Inr out"
  shows "codec_decode env hash c (out @ rest) = (Inr (Some m), rest)"
proof -
  from assms(4) obtain t payload where e: "message_encode env m = Inr (t # payload)"
    "length payload \<le> mc_max_size c" "out = [] @ frame hash c t payload"
    by (rule codec_encode_frame)
  then have "codec_sends env hash c m" using assms by (simp add: codec_sends_def sendable_def)
  from codec_decode_whole [OF this] e show ?thesis by (simp add: message_frame_def)
qed

lemma take_4_replicate: "replicate 4 (b :: u8) = [b, b, b, b]"
  by (simp add: numeral_eq_Suc)

theorem codec_roundtrip_witness:
  "codec_decode example_env (\<lambda>_. replicate 32 5) codec_new
     ([1, 0, 2, 4, 77, 0, 0, 0, 1, 5, 5, 5, 5, 0] @ [42]) = (Inr (Some (MSnapshotsInfo [])), [42])"
proof (rule codec_roundtrip [OF wf_codec_new])
  show "codec_encode example_env (\<lambda>_. replicate 32 5) codec_new (MSnapshotsInfo []) [] =
      Inr [1, 0, 2, 4, 77, 0, 0, 0, 1, 5, 5, 5, 5, 0]"
    by (simp add: codec_encode_def message_encode_def snapshots_info_serialize_def count_u64_def
        vlq_encode.simps [of 0] codec_new_def codec_with_magic_def MAINNET_MAGIC_def be_u32_def
        MAX_MESSAGE_SIZE_def checksum_def take_4_replicate Let_def)
qed (simp_all add: MAX_SNAPSHOTS_INFO_ENTRIES_def)

text \<open>A frame whose payload does not match its checksum is reported as an error, its bytes are
  taken off the buffer, and no message is delivered.\<close>

theorem codec_rejects_corruption:
  assumes "wf_codec c" and "length cs = 4" and "payload \<noteq> []" and "length payload \<le> mc_max_size c"
    and "checksum hash payload \<noteq> cs"
  shows "codec_decode env hash c
       (mc_magic c @ [t] @ be_u32 (of_nat (length payload)) @ cs @ payload @ rest) =
     (Inl (InvalidMessage ''Checksum mismatch''), rest)"
proof -
  let ?src = "mc_magic c @ [t] @ be_u32 (of_nat (length payload)) @ cs @ payload @ rest"
  have magic: "length (mc_magic c) = 4" using assms(1) by (simp add: wf_codec_def)
  then have "take 9 ?src = take 9 (frame hash c t payload)" and "9 \<le> length ?src"
    by (simp_all add: frame_def)
  note h = frame_header [OF assms(1,4) this]
  have "drop 9 ?src = cs @ payload @ rest" using magic by simp
  with h magic assms show ?thesis
    by (simp add: codec_decode_def Let_def BASE_HEADER_SIZE_def CHECKSUM_SIZE_def frame_size_def
        verify_checksum_def)
qed

theorem codec_rejects_corruption_witness:
  "codec_decode example_env (\<lambda>_. replicate 32 5) codec_new
     (mc_magic codec_new @ [77] @ be_u32 (of_nat (length [0 :: u8])) @ [5, 5, 5, 6] @ [0] @ [42]) =
   (Inl (InvalidMessage ''Checksum mismatch''), [42])"
  by (rule codec_rejects_corruption [OF wf_codec_new])
     (simp_all add: checksum_def codec_new_def codec_with_magic_def MAX_MESSAGE_SIZE_def take_4_replicate)

end
