(* ===== verification/F64.thy ===== *)
theory F64
  imports Complex_Main "HOL-Library.Log_Nat"
begin

text \<open>
  The IEEE double precision numbers as far as the sources use them: conversion from
  integers, division, multiplication, comparison and the saturating cast back to \<open>u64\<close>.
  A finite number is its exact rational value, and every operation rounds its exact result
  to nearest, ties to even, with gradual underflow and overflow to infinity. The two zeros
  are one value: no operation modelled here divides by a zero that can be negative.
\<close>

datatype f64 = F64_NaN | F64_PInf | F64_NInf | Fin rat

text \<open>The exponent \<open>e\<close> with \<open>2 ^ e \<le> x < 2 ^ (e + 1)\<close>, from the bit lengths of the fraction.\<close>

definition pow2 :: "int \<Rightarrow> rat" where
  "pow2 e = (if 0 \<le> e then 2 ^ nat e else 1 / 2 ^ nat (- e))"

definition f64_exponent :: "rat \<Rightarrow> int" where
  "f64_exponent x =
     (let (n, d) = quotient_of x; k = bitlen n - bitlen d
      in if x < pow2 k then k - 1 else k)"

definition round_half_even :: "rat \<Rightarrow> int" where
  "round_half_even x =
     (let f = floor x; r = x - of_int f
      in if r < 1 / 2 then f else if 1 / 2 < r then f + 1 else if even f then f else f + 1)"

text \<open>Rounding of a non-negative value: 53 significant bits, least exponent \<open>- 1074\<close>.\<close>

definition round_pos :: "rat \<Rightarrow> f64" where
  "round_pos x =
     (if x = 0 then Fin 0
      else let q = max (f64_exponent x - 52) (- 1074);
               v = of_int (round_half_even (x / pow2 q)) * pow2 q
           in if 2 ^ 1024 \<le> v then F64_PInf else Fin v)"

fun f64_uminus :: "f64 \<Rightarrow> f64" where
  "f64_uminus F64_NaN = F64_NaN"
| "f64_uminus F64_PInf = F64_NInf"
| "f64_uminus F64_NInf = F64_PInf"
| "f64_uminus (Fin x) = Fin (- x)"

definition round_f64 :: "rat \<Rightarrow> f64" where
  "round_f64 x = (if 0 \<le> x then round_pos x else f64_uminus (round_pos (- x)))"

definition f64_of_int :: "int \<Rightarrow> f64" where
  "f64_of_int n = round_f64 (of_int n)"

definition f64_of_nat :: "nat \<Rightarrow> f64" where
  "f64_of_nat n = f64_of_int (int n)"

fun f64_lt :: "f64 \<Rightarrow> f64 \<Rightarrow> bool" where
  "f64_lt F64_NaN _ = False"
| "f64_lt _ F64_NaN = False"
| "f64_lt F64_NInf y = (y \<noteq> F64_NInf)"
| "f64_lt _ F64_NInf = False"
| "f64_lt F64_PInf _ = False"
| "f64_lt _ F64_PInf = True"
| "f64_lt (Fin x) (Fin y) = (x < y)"

definition inf_signed :: "bool \<Rightarrow> f64" where
  "inf_signed pos = (if pos then F64_PInf else F64_NInf)"

fun f64_div :: "f64 \<Rightarrow> f64 \<Rightarrow> f64" where
  "f64_div (Fin x) (Fin y) =
     (if y \<noteq> 0 then round_f64 (x / y) else if x = 0 then F64_NaN else inf_signed (0 < x))"
| "f64_div F64_NaN _ = F64_NaN"
| "f64_div _ F64_NaN = F64_NaN"
| "f64_div (Fin _) _ = Fin 0"
| "f64_div F64_PInf (Fin y) = inf_signed (0 \<le> y)"
| "f64_div F64_NInf (Fin y) = inf_signed (y < 0)"
| "f64_div _ _ = F64_NaN"

fun f64_mul :: "f64 \<Rightarrow> f64 \<Rightarrow> f64" where
  "f64_mul (Fin x) (Fin y) = round_f64 (x * y)"
| "f64_mul F64_NaN _ = F64_NaN"
| "f64_mul _ F64_NaN = F64_NaN"
| "f64_mul (Fin x) F64_PInf = (if x = 0 then F64_NaN else inf_signed (0 < x))"
| "f64_mul (Fin x) F64_NInf = (if x = 0 then F64_NaN else inf_signed (x < 0))"
| "f64_mul F64_PInf (Fin y) = (if y = 0 then F64_NaN else inf_signed (0 < y))"
| "f64_mul F64_NInf (Fin y) = (if y = 0 then F64_NaN else inf_signed (y < 0))"
| "f64_mul F64_PInf F64_PInf = F64_PInf"
| "f64_mul F64_PInf F64_NInf = F64_NInf"
| "f64_mul F64_NInf F64_PInf = F64_NInf"
| "f64_mul F64_NInf F64_NInf = F64_PInf"

fun f64_add :: "f64 \<Rightarrow> f64 \<Rightarrow> f64" where
  "f64_add (Fin x) (Fin y) = round_f64 (x + y)"
| "f64_add F64_NaN _ = F64_NaN"
| "f64_add _ F64_NaN = F64_NaN"
| "f64_add F64_PInf F64_NInf = F64_NaN"
| "f64_add F64_NInf F64_PInf = F64_NaN"
| "f64_add F64_PInf _ = F64_PInf"
| "f64_add F64_NInf _ = F64_NInf"
| "f64_add (Fin _) y = y"

definition f64_sub :: "f64 \<Rightarrow> f64 \<Rightarrow> f64" where
  "f64_sub x y = f64_add x (f64_uminus y)"

text \<open>\<open>f64::clamp\<close>: a NaN stays a NaN.\<close>

definition f64_clamp :: "f64 \<Rightarrow> f64 \<Rightarrow> f64 \<Rightarrow> f64" where
  "f64_clamp lo hi x = (if f64_lt x lo then lo else if f64_lt hi x then hi else x)"

text \<open>The cast \<open>as u64\<close> truncates, saturates at both ends and sends NaN to zero.\<close>

fun f64_to_u64 :: "f64 \<Rightarrow> nat" where
  "f64_to_u64 F64_NaN = 0"
| "f64_to_u64 F64_PInf = 2 ^ 64 - 1"
| "f64_to_u64 F64_NInf = 0"
| "f64_to_u64 (Fin x) = min (nat (floor x)) (2 ^ 64 - 1)"

text \<open>Rounding keeps the sign, so a quotient of natural numbers is never below zero.\<close>

definition f64_nonneg :: "f64 \<Rightarrow> bool" where
  "f64_nonneg x = (case x of F64_NaN \<Rightarrow> False | F64_PInf \<Rightarrow> True | F64_NInf \<Rightarrow> False | Fin q \<Rightarrow> 0 \<le> q)"

lemma pow2_pos: "0 < pow2 e"
  by (simp add: pow2_def)

lemma round_half_even_nonneg: "0 \<le> x \<Longrightarrow> 0 \<le> round_half_even x"
  by (auto simp: round_half_even_def Let_def)

lemma round_pos_nonneg: "0 \<le> x \<Longrightarrow> f64_nonneg (round_pos x)"
  by (auto simp: round_pos_def Let_def f64_nonneg_def
      intro!: mult_nonneg_nonneg round_half_even_nonneg order.strict_implies_order [OF pow2_pos]
        divide_nonneg_nonneg)

lemma round_f64_nonneg: "0 \<le> x \<Longrightarrow> f64_nonneg (round_f64 x)"
  by (simp add: round_f64_def round_pos_nonneg)

lemma f64_of_int_nonneg: "0 \<le> n \<Longrightarrow> f64_nonneg (f64_of_int n)"
  by (simp add: f64_of_int_def round_f64_nonneg)

lemma f64_of_nat_nonneg: "f64_nonneg (f64_of_nat n)"
  by (simp add: f64_of_nat_def f64_of_int_nonneg)

lemma f64_div_nonneg:
  assumes "f64_nonneg x" "f64_nonneg y"
  shows "f64_div x y = F64_NaN \<or> f64_nonneg (f64_div x y)"
  using assms
  by (cases x; cases y) (auto simp: f64_nonneg_def inf_signed_def
      intro: round_f64_nonneg [unfolded f64_nonneg_def])

lemma f64_nonneg_not_neg: "f64_nonneg x \<Longrightarrow> \<not> f64_lt x (Fin 0)"
  by (cases x) (auto simp: f64_nonneg_def)

lemma f64_ratio_not_neg:
  assumes "0 \<le> a"
  shows "\<not> f64_lt (f64_div (f64_of_int a) (f64_of_nat b)) (Fin 0)"
  using f64_div_nonneg [OF f64_of_int_nonneg [OF assms] f64_of_nat_nonneg [of b]]
  by (auto dest: f64_nonneg_not_neg)

end
