(* ===== verification/Mempool_Order.thy ===== *)
theory Mempool_Order
  imports Prelude F64 "HOL-Library.List_Lexorder" "HOL-Library.Signed_Division"
begin

text \<open>
  The ordering of pooled transactions (\<open>crates/ergo-mempool/src/ordering.rs\<close>): weighted
  transaction identifiers, the legacy fee ordering, the comparisons the sources give them,
  and the ordered set \<open>BTreeSet\<close> that keeps the pool sorted. A \<open>BTreeSet\<close> is the list of its
  elements in iteration order; its operations search with the comparison alone.
\<close>

subsection \<open>Comparisons\<close>

datatype ordering = Less | Equal | Greater

definition compare_lin :: "'a::linorder \<Rightarrow> 'a \<Rightarrow> ordering" where
  "compare_lin a b = (if a < b then Less else if a = b then Equal else Greater)"

definition f64_partial_cmp :: "f64 \<Rightarrow> f64 \<Rightarrow> ordering option" where
  "f64_partial_cmp a b =
     (if f64_lt a b then Some Less else if f64_lt b a then Some Greater
      else if a = F64_NaN \<or> b = F64_NaN then None else Some Equal)"

subsection \<open>Weighted transaction identifiers\<close>

record weighted_tx_id =
  w_tx_id :: bytes
  w_weight :: int
  w_fee_per_factor :: int
  w_size :: nat
  w_created :: u64

text \<open>\<open>fee as i64\<close> and the product wrap; the division truncates towards zero.\<close>

definition wtx_new :: "bytes \<Rightarrow> u64 \<Rightarrow> nat \<Rightarrow> u64 \<Rightarrow> weighted_tx_id" where
  "wtx_new tx_id fee sz created =
     (let fee_per_factor =
            (if sz = 0 then 0 else wrap_i64 (sint fee * 1024) sdiv wrap_i64 (int sz))
      in \<lparr>w_tx_id = tx_id, w_weight = fee_per_factor, w_fee_per_factor = fee_per_factor,
          w_size = sz, w_created = created\<rparr>)"

definition wtx_with_weight :: "bytes \<Rightarrow> int \<Rightarrow> int \<Rightarrow> nat \<Rightarrow> u64 \<Rightarrow> weighted_tx_id" where
  "wtx_with_weight tx_id weight fee_per_factor sz created =
     \<lparr>w_tx_id = tx_id, w_weight = weight, w_fee_per_factor = fee_per_factor,
      w_size = sz, w_created = created\<rparr>"

definition wtx_fee_per_byte :: "weighted_tx_id \<Rightarrow> f64" where
  "wtx_fee_per_byte w =
     (if w_size w = 0 then Fin 0 else f64_div (f64_of_int (w_fee_per_factor w)) (Fin 1024))"

definition wtx_fee :: "weighted_tx_id \<Rightarrow> u64" where
  "wtx_fee w = word_of_int ((w_fee_per_factor w * int (w_size w)) sdiv 1024)"

definition wtx_eq :: "weighted_tx_id \<Rightarrow> weighted_tx_id \<Rightarrow> bool" where
  "wtx_eq a b = (w_tx_id a = w_tx_id b)"

definition wtx_cmp :: "weighted_tx_id \<Rightarrow> weighted_tx_id \<Rightarrow> ordering" where
  "wtx_cmp a b =
     (case compare_lin (w_weight b) (w_weight a) of
        Equal \<Rightarrow> compare_lin (w_tx_id a) (w_tx_id b)
      | ord \<Rightarrow> ord)"

subsection \<open>The legacy fee ordering\<close>

record fee_ordering =
  fo_tx_id :: bytes
  fo_fee :: u64
  fo_size :: nat
  fo_arrival_time :: u64

definition fo_fee_per_byte :: "fee_ordering \<Rightarrow> f64" where
  "fo_fee_per_byte x =
     (if fo_size x = 0 then Fin 0
      else f64_div (f64_of_int (uint (fo_fee x))) (f64_of_nat (fo_size x)))"

definition fo_cmp :: "fee_ordering \<Rightarrow> fee_ordering \<Rightarrow> ordering" where
  "fo_cmp a b =
     (case f64_partial_cmp (fo_fee_per_byte b) (fo_fee_per_byte a) of
        Some Less \<Rightarrow> Less
      | Some Greater \<Rightarrow> Greater
      | _ \<Rightarrow> compare_lin (fo_arrival_time a) (fo_arrival_time b))"

subsection \<open>Ordered sets\<close>

fun bt_insert :: "('a \<Rightarrow> 'a \<Rightarrow> ordering) \<Rightarrow> 'a \<Rightarrow> 'a list \<Rightarrow> 'a list" where
  "bt_insert cmp x [] = [x]"
| "bt_insert cmp x (y # ys) =
     (case cmp x y of
        Less \<Rightarrow> x # y # ys
      | Equal \<Rightarrow> y # ys
      | Greater \<Rightarrow> y # bt_insert cmp x ys)"

fun bt_remove :: "('a \<Rightarrow> 'a \<Rightarrow> ordering) \<Rightarrow> 'a \<Rightarrow> 'a list \<Rightarrow> 'a list" where
  "bt_remove cmp x [] = []"
| "bt_remove cmp x (y # ys) =
     (case cmp x y of
        Less \<Rightarrow> y # ys
      | Equal \<Rightarrow> ys
      | Greater \<Rightarrow> y # bt_remove cmp x ys)"

definition bt_sorted :: "('a \<Rightarrow> 'a \<Rightarrow> ordering) \<Rightarrow> 'a list \<Rightarrow> bool" where
  "bt_sorted cmp xs = sorted_wrt (\<lambda>a b. cmp a b = Less) xs"

text \<open>
  What an ordered set asks of an \<open>Ord\<close> instance: the comparison is one of keys in a linear
  order. The set operations are proved once for every such comparison.
\<close>

locale key_order =
  fixes cmp :: "'a \<Rightarrow> 'a \<Rightarrow> ordering"
    and lt :: "'a \<Rightarrow> 'a \<Rightarrow> bool"
    and same :: "'a \<Rightarrow> 'a \<Rightarrow> bool"
  assumes cmp_Less: "cmp a b = Less \<longleftrightarrow> lt a b"
    and cmp_Equal: "cmp a b = Equal \<longleftrightarrow> same a b"
    and cmp_Greater: "cmp a b = Greater \<longleftrightarrow> lt b a"
    and lt_trans: "lt a b \<Longrightarrow> lt b c \<Longrightarrow> lt a c"
    and same_lt: "same a b \<Longrightarrow> lt b c \<Longrightarrow> lt a c"
    and lt_same: "lt a b \<Longrightarrow> same b c \<Longrightarrow> lt a c"
begin

lemma lt_irrefl: "\<not> lt a a"
  using cmp_Less [of a a] cmp_Greater [of a a] by auto

lemma same_refl: "same a a"
  using cmp_Less [of a a] cmp_Greater [of a a] cmp_Equal [of a a] lt_irrefl
  by (cases "cmp a a") auto

lemma sorted_Cons: "bt_sorted cmp (x # xs) \<longleftrightarrow> (\<forall>y \<in> set xs. lt x y) \<and> bt_sorted cmp xs"
  by (simp add: bt_sorted_def cmp_Less)

lemma sorted_Nil: "bt_sorted cmp []"
  by (simp add: bt_sorted_def)

lemma not_same_lt: "same a b \<Longrightarrow> \<not> lt a b"
  using cmp_Equal [of a b] cmp_Less [of a b] by auto

lemma set_bt_insert:
  "(\<forall>y \<in> set xs. \<not> same x y) \<Longrightarrow> set (bt_insert cmp x xs) = insert x (set xs)"
  by (induction xs) (auto split: ordering.split simp: cmp_Equal)

lemma set_bt_insert_subset: "set (bt_insert cmp x xs) \<subseteq> insert x (set xs)"
  by (induction xs) (auto split: ordering.split)

lemma sorted_bt_insert: "bt_sorted cmp xs \<Longrightarrow> bt_sorted cmp (bt_insert cmp x xs)"
proof (induction xs)
  case Nil
  then show ?case by (simp add: sorted_Cons sorted_Nil)
next
  case (Cons y ys)
  then show ?case
    using set_bt_insert_subset [of x ys]
    by (auto split: ordering.split simp: sorted_Cons cmp_Less cmp_Greater intro: lt_trans)
qed

lemma set_bt_remove:
  "bt_sorted cmp xs \<Longrightarrow> set (bt_remove cmp x xs) = {y \<in> set xs. \<not> same x y}"
proof (induction xs)
  case (Cons y ys)
  have after: "\<not> same x z" if "lt x z" for z
    using that not_same_lt by blast
  show ?case
  proof (cases "cmp x y")
    case Less
    then have "lt x y"
      by (simp add: cmp_Less)
    then show ?thesis
      using Less Cons.prems after by (auto simp: sorted_Cons dest: lt_trans)
  next
    case Equal
    then have "same x y"
      by (simp add: cmp_Equal)
    then show ?thesis
      using Equal Cons.prems after by (auto simp: sorted_Cons dest: same_lt)
  next
    case Greater
    then have "\<not> same x y"
      using cmp_Equal [of x y] by simp
    then show ?thesis
      using Cons Greater by (auto simp: sorted_Cons)
  qed
qed simp

lemma sorted_bt_remove: "bt_sorted cmp xs \<Longrightarrow> bt_sorted cmp (bt_remove cmp x xs)"
proof (induction xs)
  case (Cons y ys)
  then show ?case
    using set_bt_remove [of ys x] by (auto split: ordering.split simp: sorted_Cons)
qed (simp add: sorted_Nil)

lemma sorted_distinct: "bt_sorted cmp xs \<Longrightarrow> distinct xs"
  by (induction xs) (auto simp: sorted_Cons lt_irrefl)

end

text \<open>The order of weighted identifiers: larger weight first, then the smaller identifier.\<close>

definition wtx_lt :: "weighted_tx_id \<Rightarrow> weighted_tx_id \<Rightarrow> bool" where
  "wtx_lt a b =
     (w_weight b < w_weight a \<or> w_weight a = w_weight b \<and> w_tx_id a < w_tx_id b)"

definition wtx_same :: "weighted_tx_id \<Rightarrow> weighted_tx_id \<Rightarrow> bool" where
  "wtx_same a b = (w_weight a = w_weight b \<and> w_tx_id a = w_tx_id b)"

interpretation wtx: key_order wtx_cmp wtx_lt wtx_same
  by unfold_locales (auto simp: wtx_cmp_def wtx_lt_def wtx_same_def compare_lin_def)

text \<open>Where an element goes: the last element of the set is the one every other precedes.\<close>

lemma wtx_last_least:
  assumes "bt_sorted wtx_cmp xs" "w \<in> set xs"
  shows "w_weight (last xs) \<le> w_weight w"
  using assms
proof (induction xs)
  case (Cons y ys)
  then show ?case
    by (cases "ys = []") (auto simp: wtx.sorted_Cons wtx_lt_def intro: order.strict_implies_order)
qed simp

lemma wtx_sorted_weights:
  "bt_sorted wtx_cmp xs \<Longrightarrow> sorted_wrt (\<ge>) (map w_weight xs)"
  by (induction xs) (auto simp: wtx.sorted_Cons wtx_lt_def)

lemma wtx_prefix_heavier:
  assumes "bt_sorted wtx_cmp xs" "w \<in> set (take n xs)" "v \<in> set (drop n xs)"
  shows "w_weight v \<le> w_weight w"
proof -
  have "sorted_wrt (\<ge>) (map w_weight (take n xs @ drop n xs))"
    using wtx_sorted_weights [OF assms(1)] by simp
  then show ?thesis
    using assms(2,3) unfolding map_append sorted_wrt_append by auto
qed

end
