(* ===== verification/Containers.thy ===== *)
theory Containers
  imports Main "HOL-Library.AList"
begin

text \<open>
  Hash maps as association lists with distinct keys: what the lookups, the sums over the
  entries and the number of entries become under the updates and deletions of the library.
  The components iterate hash maps through an order that is a parameter of their model, so
  nothing rests on the order of the list.
\<close>

declare map_of_eq_Some_iff [simp del] Some_eq_map_of_iff [simp del]

lemma ran_upd_keyed:
  assumes "\<And>k v. m k = Some v \<Longrightarrow> f v = k"
  shows "ran (m(k \<mapsto> v)) = insert v {x \<in> ran m. f x \<noteq> k}"
  using assms unfolding ran_def by auto

lemma ran_del_keyed:
  assumes "\<And>k v. m k = Some v \<Longrightarrow> f v = k"
  shows "ran (m(k := None)) = {x \<in> ran m. f x \<noteq> k}"
  using assms unfolding ran_def by auto

lemma map_of_fold_delete:
  "map_of (fold AList.delete ks m) = (\<lambda>i. if i \<in> set ks then None else map_of m i)"
  by (induction ks arbitrary: m) (auto simp: delete_conv' fun_eq_iff)

lemma map_of_fold_update:
  "map_of (fold (\<lambda>i. AList.update i v) ks m) = (\<lambda>i. if i \<in> set ks then Some v else map_of m i)"
  by (induction ks arbitrary: m) (auto simp: update_conv' fun_eq_iff)

lemma sum_list_delete:
  fixes f :: "'k \<times> 'v \<Rightarrow> nat"
  assumes "distinct (map fst m)" "map_of m k = Some v"
  shows "sum_list (map f m) = f (k, v) + sum_list (map f (AList.delete k m))"
  using assms
proof (induction m)
  case (Cons kv m)
  show ?case
  proof (cases "fst kv = k")
    case True
    then have "AList.delete k m = m"
      using Cons.prems by (simp add: delete_id)
    then show ?thesis
      using True Cons.prems by (cases kv) auto
  next
    case False
    then show ?thesis
      using Cons by (cases kv) auto
  qed
qed simp

lemma length_delete:
  "distinct (map fst m) \<Longrightarrow> map_of m k = Some v \<Longrightarrow> length m = Suc (length (AList.delete k m))"
  using sum_list_delete [of m k v "\<lambda>_. 1"] by (simp add: sum_list_triv)

lemma update_fresh: "map_of m k = None \<Longrightarrow> AList.update k v m = m @ [(k, v)]"
  by (induction m) (auto split: if_splits)

lemma length_update:
  "distinct (map fst m) \<Longrightarrow> length (AList.update k v m) = (if map_of m k = None then Suc (length m) else length m)"
  by (induction m) auto

lemma length_delete_le: "length (AList.delete k m) \<le> length m"
  by (simp add: AList.delete_eq)

lemma map_of_values:
  "distinct (map fst m) \<Longrightarrow> v \<in> set (map snd m) \<longleftrightarrow> (\<exists>k. map_of m k = Some v)"
  by (force simp: map_of_eq_Some_iff)

end
