(* ===== verification/Mempool.thy ===== *)
theory Mempool
  imports Mempool_Order Containers
begin

text \<open>
  The transaction pool (\<open>crates/ergo-mempool/src/pool.rs\<close>): admission with its checks, the
  indexes by input and by output, the propagation of weights to the pooled parents of a
  transaction, eviction, removal after a block and expiry. A \<open>DashMap\<close> is an association
  list. What the code takes from its surroundings is the record \<open>pool_env\<close>: the readings of
  the two clocks (nanoseconds of the monotonic one, milliseconds of the system time) and the order in which a hash container is iterated, which may differ at
  every reading; \<open>mp_ticks\<close> counts the readings. Each operation is atomic, as its locks make
  it for a single caller.

  The main results: every operation keeps the indexes, the order and the size counter
  consistent and the pool conflict free and within its limits; admission always returns;
  and the removal after a block leaves no transaction that the block confirmed or conflicts
  with. The weights do not have the two properties that the documentation claims for them,
  which is proved on concrete pools.
\<close>

subsection \<open>Data\<close>

datatype mempool_error =
    AlreadyExists bytes
  | ValidationFailed string
  | DoubleSpend bytes
  | TooLarge nat nat
  | PoolFull nat nat
  | FeeTooLow u64 u64
  | NotFound bytes
  | InputNotFound bytes
  | ConsensusFailed string
  | StateFailed string

record mempool_config =
  max_size :: nat
  max_transactions :: nat
  tx_expiry_secs :: u64
  min_fee_per_byte :: f64

definition DEFAULT_MAX_SIZE :: nat where
  "DEFAULT_MAX_SIZE = 100 * 1024 * 1024"

definition DEFAULT_MAX_TXS :: nat where
  "DEFAULT_MAX_TXS = 10000"

definition DEFAULT_TX_EXPIRY_SECS :: u64 where
  "DEFAULT_TX_EXPIRY_SECS = 3600"

definition default_config :: mempool_config where
  "default_config =
     \<lparr>max_size = DEFAULT_MAX_SIZE, max_transactions = DEFAULT_MAX_TXS,
      tx_expiry_secs = DEFAULT_TX_EXPIRY_SECS, min_fee_per_byte = Fin 0\<rparr>"

record pooled_transaction =
  ptx_id :: bytes
  ptx_bytes :: bytes
  ptx_fee :: u64
  ptx_inputs :: "bytes list"
  ptx_outputs :: "bytes list"
  ptx_arrival_time :: u64
  ptx_estimated_cost :: "u64 option"

record mempool_stats =
  st_tx_count :: nat
  st_total_size :: nat
  st_min_fee_per_byte :: f64
  st_max_fee_per_byte :: f64

record mempool =
  mp_config :: mempool_config
  mp_transactions :: "(bytes \<times> pooled_transaction) list"
  mp_registry :: "(bytes \<times> weighted_tx_id) list"
  mp_weight_order :: "weighted_tx_id list"
  mp_output_to_tx :: "(bytes \<times> bytes) list"
  mp_input_to_tx :: "(bytes \<times> bytes) list"
  mp_total_size :: nat
  mp_ticks :: nat

record pool_env =
  now_ns :: "nat \<Rightarrow> nat"
  wall_ms :: "nat \<Rightarrow> u64"
  iter_order :: "nat \<Rightarrow> bytes list \<Rightarrow> bytes list"

definition MAX_PARENT_SCAN_DEPTH :: nat where
  "MAX_PARENT_SCAN_DEPTH = 500"

definition MAX_PARENT_SCAN_TIME_MS :: nat where
  "MAX_PARENT_SCAN_TIME_MS = 500"

text \<open>\<open>usize\<close> addition and subtraction as the release profile performs them.\<close>

definition usize_add :: "nat \<Rightarrow> nat \<Rightarrow> nat" where
  "usize_add a b = nat ((int a + int b) mod 2 ^ 64)"

definition usize_sub :: "nat \<Rightarrow> nat \<Rightarrow> nat" where
  "usize_sub a b = nat ((int a - int b) mod 2 ^ 64)"

subsection \<open>Queries\<close>

definition cost_adjusted_priority :: "pooled_transaction \<Rightarrow> f64" where
  "cost_adjusted_priority tx =
     (let cost = (case ptx_estimated_cost tx of None \<Rightarrow> 1000 | Some c \<Rightarrow> c);
          size_penalty = of_nat (length (ptx_bytes tx)) :: u64
      in if cost + size_penalty = 0 then Fin 0
         else f64_div (f64_of_int (uint (ptx_fee tx))) (f64_of_int (uint (cost + size_penalty))))"

definition ptx_fee_per_byte :: "pooled_transaction \<Rightarrow> f64" where
  "ptx_fee_per_byte tx =
     (if ptx_bytes tx = [] then Fin 0
      else f64_div (f64_of_int (uint (ptx_fee tx))) (f64_of_nat (length (ptx_bytes tx))))"

definition mempool_new :: "mempool_config \<Rightarrow> mempool" where
  "mempool_new config =
     \<lparr>mp_config = config, mp_transactions = [], mp_registry = [], mp_weight_order = [],
      mp_output_to_tx = [], mp_input_to_tx = [], mp_total_size = 0, mp_ticks = 0\<rparr>"

definition mempool_with_defaults :: mempool where
  "mempool_with_defaults = mempool_new default_config"

definition mp_get :: "mempool \<Rightarrow> bytes \<Rightarrow> pooled_transaction option" where
  "mp_get mp tx_id = map_of (mp_transactions mp) tx_id"

definition mp_contains :: "mempool \<Rightarrow> bytes \<Rightarrow> bool" where
  "mp_contains mp tx_id = (map_of (mp_transactions mp) tx_id \<noteq> None)"

definition is_input_spent :: "mempool \<Rightarrow> bytes \<Rightarrow> bool" where
  "is_input_spent mp input_id = (map_of (mp_input_to_tx mp) input_id \<noteq> None)"

definition get_spending_tx :: "mempool \<Rightarrow> bytes \<Rightarrow> bytes option" where
  "get_spending_tx mp input_id = map_of (mp_input_to_tx mp) input_id"

definition get_creating_tx :: "mempool \<Rightarrow> bytes \<Rightarrow> bytes option" where
  "get_creating_tx mp output_id = map_of (mp_output_to_tx mp) output_id"

definition get_by_output_id :: "mempool \<Rightarrow> bytes \<Rightarrow> pooled_transaction option" where
  "get_by_output_id mp box_id =
     Option.bind (map_of (mp_output_to_tx mp) box_id) (map_of (mp_transactions mp))"

text \<open>
  The two searches by content parse the transaction with \<open>ergo_lib\<close>: \<open>out_tokens\<close> gives the
  token identifiers of each output of a parsed transaction, \<open>out_trees\<close> the serialised script
  of each output where it serialises, and \<open>hash\<close> is Blake2b-256.
\<close>

definition txs_in_order :: "pool_env \<Rightarrow> mempool \<Rightarrow> pooled_transaction list" where
  "txs_in_order env mp =
     List.map_filter (mp_get mp) (iter_order env (mp_ticks mp) (map fst (mp_transactions mp)))"

definition get_by_token_id ::
  "(bytes \<Rightarrow> bytes list list option) \<Rightarrow> pool_env \<Rightarrow> mempool \<Rightarrow> bytes \<Rightarrow> pooled_transaction list" where
  "get_by_token_id out_tokens env mp token_id =
     filter (\<lambda>tx. case out_tokens (ptx_bytes tx) of
                    None \<Rightarrow> False
                  | Some outputs \<Rightarrow> list_ex (\<lambda>tokens. token_id \<in> set tokens) outputs)
       (txs_in_order env mp)"

definition get_by_ergo_tree ::
  "(bytes \<Rightarrow> bytes option list option) \<Rightarrow> (bytes \<Rightarrow> bytes) \<Rightarrow> pool_env \<Rightarrow> mempool \<Rightarrow> bytes
     \<Rightarrow> pooled_transaction list" where
  "get_by_ergo_tree out_trees hash env mp tree_hash =
     filter (\<lambda>tx. case out_trees (ptx_bytes tx) of
                    None \<Rightarrow> False
                  | Some outputs \<Rightarrow>
                      list_ex (\<lambda>t. case t of None \<Rightarrow> False | Some b \<Rightarrow> hash b = tree_hash) outputs)
       (txs_in_order env mp)"

definition get_by_weight :: "mempool \<Rightarrow> nat \<Rightarrow> pooled_transaction list" where
  "get_by_weight mp limit =
     List.map_filter (\<lambda>wtx. mp_get mp (w_tx_id wtx)) (take limit (mp_weight_order mp))"

definition get_by_fee :: "mempool \<Rightarrow> nat \<Rightarrow> pooled_transaction list" where
  "get_by_fee mp limit = get_by_weight mp limit"

definition get_all_ids :: "pool_env \<Rightarrow> mempool \<Rightarrow> bytes list" where
  "get_all_ids env mp = iter_order env (mp_ticks mp) (map fst (mp_transactions mp))"

definition get_weight :: "mempool \<Rightarrow> bytes \<Rightarrow> int option" where
  "get_weight mp tx_id = map_option w_weight (map_of (mp_registry mp) tx_id)"

definition mp_len :: "mempool \<Rightarrow> nat" where
  "mp_len mp = length (mp_transactions mp)"

definition mp_is_empty :: "mempool \<Rightarrow> bool" where
  "mp_is_empty mp = (mp_transactions mp = [])"

definition mp_stats :: "mempool \<Rightarrow> mempool_stats" where
  "mp_stats mp =
     (let order = mp_weight_order mp;
          (min_fpb, max_fpb) =
            (if order = [] then (Fin 0, Fin 0)
             else (wtx_fee_per_byte (last order), wtx_fee_per_byte (hd order)))
      in \<lparr>st_tx_count = length (mp_transactions mp), st_total_size = mp_total_size mp,
          st_min_fee_per_byte = min_fpb, st_max_fee_per_byte = max_fpb\<rparr>)"

subsection \<open>Weights of parents\<close>

definition parent_ids :: "mempool \<Rightarrow> pooled_transaction \<Rightarrow> bytes list" where
  "parent_ids mp tx = remdups (List.map_filter (map_of (mp_output_to_tx mp)) (ptx_inputs tx))"

definition reweigh :: "bytes \<Rightarrow> weighted_tx_id \<Rightarrow> int \<Rightarrow> mempool \<Rightarrow> mempool" where
  "reweigh parent_id old_wtx weight_delta mp =
     (let new_wtx = wtx_with_weight (w_tx_id old_wtx) (wrap_i64 (w_weight old_wtx + weight_delta))
                      (w_fee_per_factor old_wtx) (w_size old_wtx) (w_created old_wtx)
      in mp\<lparr>mp_registry := AList.update parent_id new_wtx (mp_registry mp),
            mp_weight_order :=
              bt_insert wtx_cmp new_wtx (bt_remove wtx_cmp old_wtx (mp_weight_order mp))\<rparr>)"

definition tick :: "mempool \<Rightarrow> mempool" where
  "tick mp = mp\<lparr>mp_ticks := Suc (mp_ticks mp)\<rparr>"

text \<open>The first argument is what is left of the depth limit: \<open>MAX_PARENT_SCAN_DEPTH + 1 - depth\<close>.\<close>

primrec update_family_recursive ::
  "nat \<Rightarrow> pool_env \<Rightarrow> pooled_transaction \<Rightarrow> int \<Rightarrow> nat \<Rightarrow> mempool \<Rightarrow> mempool" where
  "update_family_recursive 0 env tx weight_delta start_time mp = mp"
| "update_family_recursive (Suc n) env tx weight_delta start_time mp =
     (if MAX_PARENT_SCAN_TIME_MS < (now_ns env (mp_ticks mp) - start_time) div 1000000 then tick mp
      else fold (\<lambda>parent_id mp.
               if parent_id = ptx_id tx then mp
               else case map_of (mp_registry mp) parent_id of
                      None \<Rightarrow> mp
                    | Some old_wtx \<Rightarrow>
                        (case map_of (mp_transactions mp) parent_id of
                           None \<Rightarrow> mp
                         | Some parent_tx \<Rightarrow>
                             update_family_recursive n env parent_tx weight_delta start_time
                               (reweigh parent_id old_wtx weight_delta mp)))
             (iter_order env (mp_ticks mp) (parent_ids mp tx)) (tick mp))"

definition update_family :: "pool_env \<Rightarrow> pooled_transaction \<Rightarrow> int \<Rightarrow> mempool \<Rightarrow> mempool" where
  "update_family env tx weight_delta mp =
     update_family_recursive (Suc MAX_PARENT_SCAN_DEPTH) env tx weight_delta
       (now_ns env (mp_ticks mp)) (tick mp)"

subsection \<open>Removal and eviction\<close>

definition detach_tx ::
  "bytes \<Rightarrow> pooled_transaction \<Rightarrow> weighted_tx_id option \<Rightarrow> mempool \<Rightarrow> mempool" where
  "detach_tx tx_id tx wtx mp =
     mp\<lparr>mp_transactions := AList.delete tx_id (mp_transactions mp),
        mp_registry := AList.delete tx_id (mp_registry mp),
        mp_weight_order :=
          (case wtx of
             None \<Rightarrow> mp_weight_order mp
           | Some w \<Rightarrow> bt_remove wtx_cmp w (mp_weight_order mp)),
        mp_input_to_tx := fold AList.delete (ptx_inputs tx) (mp_input_to_tx mp),
        mp_output_to_tx := fold AList.delete (ptx_outputs tx) (mp_output_to_tx mp),
        mp_total_size := usize_sub (mp_total_size mp) (length (ptx_bytes tx))\<rparr>"

definition mp_remove ::
  "pool_env \<Rightarrow> bytes \<Rightarrow> mempool \<Rightarrow> (mempool_error + pooled_transaction) \<times> mempool" where
  "mp_remove env tx_id mp =
     (case map_of (mp_transactions mp) tx_id of
        None \<Rightarrow> (Inl (NotFound tx_id), mp)
      | Some tx \<Rightarrow>
          let wtx = map_of (mp_registry mp) tx_id;
              mp1 = detach_tx tx_id tx wtx mp
          in (Inr tx, case wtx of
                        None \<Rightarrow> mp1
                      | Some w \<Rightarrow> update_family env tx (wrap_i64 (- w_weight w)) mp1))"

definition evict_lowest_weight :: "pool_env \<Rightarrow> mempool \<Rightarrow> (mempool_error + unit) \<times> mempool" where
  "evict_lowest_weight env mp =
     (if mp_weight_order mp = [] then (Inr (), mp)
      else case mp_remove env (w_tx_id (last (mp_weight_order mp))) mp of
             (Inl e, mp1) \<Rightarrow> (Inl e, mp1)
           | (Inr _, mp1) \<Rightarrow> (Inr (), mp1))"

text \<open>A loop of \<open>maybe_evict\<close>; \<open>None\<close> is a loop that does not end.\<close>

partial_function (option) evict_while ::
  "(mempool \<Rightarrow> bool) \<Rightarrow> pool_env \<Rightarrow> mempool \<Rightarrow> mempool option" where
  "evict_while over env mp =
     (if over mp
      then case evict_lowest_weight env mp of
             (Inl _, mp1) \<Rightarrow> Some mp1
           | (Inr _, mp1) \<Rightarrow> evict_while over env mp1
      else Some mp)"

declare evict_while.simps [code]

definition over_count :: "mempool \<Rightarrow> bool" where
  "over_count mp = (max_transactions (mp_config mp) < length (mp_transactions mp))"

definition over_size :: "mempool \<Rightarrow> bool" where
  "over_size mp = (max_size (mp_config mp) < mp_total_size mp)"

definition maybe_evict :: "pool_env \<Rightarrow> mempool \<Rightarrow> mempool option" where
  "maybe_evict env mp = Option.bind (evict_while over_count env mp) (evict_while over_size env)"

subsection \<open>Admission\<close>

definition insert_tx :: "pooled_transaction \<Rightarrow> weighted_tx_id \<Rightarrow> mempool \<Rightarrow> mempool" where
  "insert_tx tx wtx mp =
     mp\<lparr>mp_registry := AList.update (ptx_id tx) wtx (mp_registry mp),
        mp_input_to_tx :=
          fold (\<lambda>i. AList.update i (ptx_id tx)) (ptx_inputs tx) (mp_input_to_tx mp),
        mp_output_to_tx :=
          fold (\<lambda>b. AList.update b (ptx_id tx)) (ptx_outputs tx) (mp_output_to_tx mp),
        mp_weight_order := bt_insert wtx_cmp wtx (mp_weight_order mp),
        mp_total_size := usize_add (mp_total_size mp) (length (ptx_bytes tx)),
        mp_transactions := AList.update (ptx_id tx) tx (mp_transactions mp)\<rparr>"

definition add_check :: "pooled_transaction \<Rightarrow> mempool \<Rightarrow> mempool_error option" where
  "add_check tx mp =
     (let config = mp_config mp; tx_size = length (ptx_bytes tx) in
      if mp_contains mp (ptx_id tx) then Some (AlreadyExists (ptx_id tx))
      else if max_size config div 10 < tx_size then Some (TooLarge tx_size (max_size config div 10))
      else if f64_lt (f64_div (f64_of_int (uint (ptx_fee tx))) (f64_of_nat tx_size))
                (min_fee_per_byte config)
      then Some (FeeTooLow (ptx_fee tx)
                   (of_nat (f64_to_u64 (f64_mul (min_fee_per_byte config) (f64_of_nat tx_size)))))
      else map_option DoubleSpend (find (is_input_spent mp) (ptx_inputs tx)))"

definition mp_add ::
  "pool_env \<Rightarrow> pooled_transaction \<Rightarrow> mempool \<Rightarrow> ((mempool_error + unit) \<times> mempool) option" where
  "mp_add env tx mp =
     (case add_check tx mp of
        Some e \<Rightarrow> Some (Inl e, mp)
      | None \<Rightarrow>
          let wtx = wtx_new (ptx_id tx) (ptx_fee tx) (length (ptx_bytes tx)) (ptx_arrival_time tx);
              mp1 = update_family env tx (w_weight wtx) (insert_tx tx wtx mp)
          in map_option (Pair (Inr ())) (maybe_evict env mp1))"

subsection \<open>Maintenance\<close>

definition mp_clear :: "mempool \<Rightarrow> mempool" where
  "mp_clear mp =
     mp\<lparr>mp_transactions := [], mp_registry := [], mp_input_to_tx := [], mp_output_to_tx := [],
        mp_weight_order := [], mp_total_size := 0\<rparr>"

text \<open>A loop that removes identifiers and counts the successful removals.\<close>

primrec remove_count :: "pool_env \<Rightarrow> bytes list \<Rightarrow> nat \<times> mempool \<Rightarrow> nat \<times> mempool" where
  "remove_count env [] s = s"
| "remove_count env (tx_id # ids) s =
     (let (r, mp1) = mp_remove env tx_id (snd s)
      in remove_count env ids (if is_ok r then (fst s + 1, mp1) else (fst s, mp1)))"

definition remove_confirmed ::
  "pool_env \<Rightarrow> bytes list \<Rightarrow> bytes list \<Rightarrow> mempool \<Rightarrow> nat \<times> mempool" where
  "remove_confirmed env tx_ids spent_inputs mp =
     (let s = remove_count env tx_ids (0, mp);
          to_remove = filter (\<lambda>tx_id. tx_id \<notin> set tx_ids)
                        (List.map_filter (get_spending_tx (snd s)) spent_inputs)
      in remove_count env to_remove s)"

text \<open>The subtraction \<open>now - arrival_time\<close> and the product by 1000 wrap at 64 bits.\<close>

definition is_expired :: "mempool_config \<Rightarrow> u64 \<Rightarrow> pooled_transaction \<Rightarrow> bool" where
  "is_expired config now tx = (tx_expiry_secs config * 1000 < now - ptx_arrival_time tx)"

definition expired_ids :: "pool_env \<Rightarrow> mempool \<Rightarrow> bytes list" where
  "expired_ids env mp =
     filter (\<lambda>k. case mp_get mp k of
                   None \<Rightarrow> False
                 | Some tx \<Rightarrow> is_expired (mp_config mp) (wall_ms env (mp_ticks mp)) tx)
       (iter_order env (mp_ticks mp) (map fst (mp_transactions mp)))"

definition remove_expired :: "pool_env \<Rightarrow> mempool \<Rightarrow> mempool" where
  "remove_expired env mp = fold (\<lambda>k p. snd (mp_remove env k p)) (expired_ids env mp) (tick mp)"

subsection \<open>The invariant\<close>

definition pool_bytes :: "mempool \<Rightarrow> nat" where
  "pool_bytes mp = sum_list (map (\<lambda>(k, tx). length (ptx_bytes tx)) (mp_transactions mp))"

text \<open>The registry knows exactly the pooled transactions and the order is its values, sorted.\<close>

definition reg_inv :: "mempool \<Rightarrow> bool" where
  "reg_inv mp =
     (dom (map_of (mp_registry mp)) = dom (map_of (mp_transactions mp)) \<and>
      (\<forall>k w. map_of (mp_registry mp) k = Some w \<longrightarrow> w_tx_id w = k) \<and>
      bt_sorted wtx_cmp (mp_weight_order mp) \<and>
      set (mp_weight_order mp) = ran (map_of (mp_registry mp)))"

text \<open>The two indexes and the size counter describe the pooled transactions.\<close>

definition index_inv :: "mempool \<Rightarrow> bool" where
  "index_inv mp =
     (distinct (map fst (mp_transactions mp)) \<and>
      (\<forall>k tx. mp_get mp k = Some tx \<longrightarrow> ptx_id tx = k) \<and>
      (\<forall>i k. get_spending_tx mp i = Some k \<longleftrightarrow>
             (\<exists>tx. mp_get mp k = Some tx \<and> i \<in> set (ptx_inputs tx))) \<and>
      (\<forall>b k. get_creating_tx mp b = Some k \<longrightarrow>
             (\<exists>tx. mp_get mp k = Some tx \<and> b \<in> set (ptx_outputs tx))) \<and>
      mp_total_size mp = pool_bytes mp mod usize_limit)"

definition pool_inv :: "mempool \<Rightarrow> bool" where
  "pool_inv mp = (reg_inv mp \<and> index_inv mp)"

declare map_of_eq_Some_iff [simp del] Some_eq_map_of_iff [simp del]

subsection \<open>Weight updates keep the invariant\<close>

text \<open>What a weight update leaves alone.\<close>

definition same_content :: "mempool \<Rightarrow> mempool \<Rightarrow> bool" where
  "same_content p q =
     (mp_config p = mp_config q \<and> mp_transactions p = mp_transactions q \<and>
      mp_output_to_tx p = mp_output_to_tx q \<and> mp_input_to_tx p = mp_input_to_tx q \<and>
      mp_total_size p = mp_total_size q)"

lemma same_content_refl [simp]: "same_content p p"
  by (simp add: same_content_def)

lemma same_content_trans: "same_content p q \<Longrightarrow> same_content q r \<Longrightarrow> same_content p r"
  by (simp add: same_content_def)

lemma same_content_tick [simp]: "same_content p (tick q) = same_content p q"
  by (simp add: same_content_def tick_def)

lemma same_content_reweigh [simp]: "same_content p (reweigh k w d q) = same_content p q"
  by (simp add: same_content_def reweigh_def Let_def)

lemma reg_inv_tick [simp]: "reg_inv (tick mp) = reg_inv mp"
  by (simp add: reg_inv_def tick_def)

lemma same_content_index_inv: "same_content p q \<Longrightarrow> index_inv p \<Longrightarrow> index_inv q"
  by (simp add: same_content_def index_inv_def mp_get_def get_spending_tx_def
      get_creating_tx_def pool_bytes_def)

lemma reg_same:
  assumes inv: "reg_inv mp" and w: "map_of (mp_registry mp) k = Some w"
    and v: "v \<in> ran (map_of (mp_registry mp))"
  shows "wtx_same w v \<longleftrightarrow> w_tx_id v = k"
proof -
  obtain k' where k': "map_of (mp_registry mp) k' = Some v"
    using v unfolding ran_def by blast
  have "w_tx_id w = k" "w_tx_id v = k'"
    using inv w k' unfolding reg_inv_def by blast+
  then show ?thesis
    using w k' by (cases "k' = k") (simp_all add: wtx_same_def)
qed

lemma reg_inv_reweigh:
  assumes inv: "reg_inv mp" and old: "map_of (mp_registry mp) k = Some w"
  shows "reg_inv (reweigh k w d mp)"
proof -
  define new where "new = wtx_with_weight (w_tx_id w) (wrap_i64 (w_weight w + d))
    (w_fee_per_factor w) (w_size w) (w_created w)"
  have [simp]: "w_tx_id new = k" "w_tx_id w = k"
    using inv old by (auto simp: new_def wtx_with_weight_def reg_inv_def)
  let ?r = "map_of (mp_registry mp)" and ?o = "mp_weight_order mp"
  have sorted: "bt_sorted wtx_cmp ?o" and order: "set ?o = ran ?r"
    and keys: "\<And>k' v. ?r k' = Some v \<Longrightarrow> w_tx_id v = k'"
    using inv by (auto simp: reg_inv_def)
  have rest: "set (bt_remove wtx_cmp w ?o) = {v \<in> ran ?r. w_tx_id v \<noteq> k}"
    using reg_same [OF inv old] by (auto simp: wtx.set_bt_remove [OF sorted] order)
  then have "set (bt_insert wtx_cmp new (bt_remove wtx_cmp w ?o))
      = insert new {v \<in> ran ?r. w_tx_id v \<noteq> k}"
    by (subst wtx.set_bt_insert) (auto simp: wtx_same_def)
  also have "\<dots> = ran (?r(k \<mapsto> new))"
    by (simp add: ran_upd_keyed [of ?r w_tx_id, OF keys])
  finally have set_new: "set (bt_insert wtx_cmp new (bt_remove wtx_cmp w ?o)) = ran (?r(k \<mapsto> new))" .
  have reg: "mp_registry (reweigh k w d mp) = AList.update k new (mp_registry mp)"
    and ord: "mp_weight_order (reweigh k w d mp) = bt_insert wtx_cmp new (bt_remove wtx_cmp w ?o)"
    and txs: "mp_transactions (reweigh k w d mp) = mp_transactions mp"
    by (simp_all add: reweigh_def Let_def new_def)
  have "dom ?r = dom (map_of (mp_transactions mp))" "k \<in> dom ?r"
    using inv old by (auto simp: reg_inv_def)
  then show ?thesis
    unfolding reg_inv_def reg ord txs update_conv'
    using set_new keys sorted by (auto intro!: wtx.sorted_bt_insert wtx.sorted_bt_remove)
qed

lemma update_family_recursive_inv:
  "reg_inv mp \<Longrightarrow> reg_inv (update_family_recursive n env tx d s mp) \<and>
     same_content mp (update_family_recursive n env tx d s mp)"
proof (induction n arbitrary: tx mp)
  case (Suc n)
  have step: "reg_inv p \<and> same_content mp p \<Longrightarrow>
      (let q = (if k = ptx_id tx then p
               else case map_of (mp_registry p) k of
                      None \<Rightarrow> p
                    | Some w \<Rightarrow>
                        (case map_of (mp_transactions p) k of
                           None \<Rightarrow> p
                         | Some t \<Rightarrow> update_family_recursive n env t d s (reweigh k w d p)))
       in reg_inv q \<and> same_content mp q)" for k p
    using Suc.IH [OF reg_inv_reweigh, of p k] same_content_trans [of mp p]
    by (auto simp: Let_def split: option.split dest: same_content_trans)
       (metis same_content_refl same_content_reweigh same_content_trans)
  have "reg_inv (fold f ks p) \<and> same_content mp (fold f ks p)"
    if "reg_inv p \<and> same_content mp p"
      and "\<And>k p. reg_inv p \<and> same_content mp p \<Longrightarrow> reg_inv (f k p) \<and> same_content mp (f k p)"
    for f :: "bytes \<Rightarrow> mempool \<Rightarrow> mempool" and ks p
    using that by (induction ks arbitrary: p) auto
  note loop = this
  show ?case
    using Suc.prems
    by (auto intro!: loop [THEN conjunct1] loop [THEN conjunct2] step [unfolded Let_def])
qed simp

lemma update_family_inv:
  assumes "reg_inv mp"
  shows "reg_inv (update_family env tx d mp)" "same_content mp (update_family env tx d mp)"
proof -
  have "reg_inv (tick mp)"
    using assms by simp
  note inv = update_family_recursive_inv [OF this]
  show "reg_inv (update_family env tx d mp)"
    unfolding update_family_def by (rule inv [THEN conjunct1])
  have "same_content mp (tick mp)"
    by simp
  then show "same_content mp (update_family env tx d mp)"
    unfolding update_family_def by (rule same_content_trans) (rule inv [THEN conjunct2])
qed

lemma same_content_simps:
  assumes "same_content p q"
  shows "mp_get q = mp_get p" "mp_config q = mp_config p" "pool_bytes q = pool_bytes p"
    "mp_transactions q = mp_transactions p" "mp_total_size q = mp_total_size p"
    "get_spending_tx q = get_spending_tx p" "get_creating_tx q = get_creating_tx p"
  using assms by (auto simp: same_content_def mp_get_def pool_bytes_def get_spending_tx_def
      get_creating_tx_def fun_eq_iff)

lemma pool_inv_update_family: "pool_inv mp \<Longrightarrow> pool_inv (update_family env tx d mp)"
  using update_family_inv [of mp env tx d] same_content_index_inv by (auto simp: pool_inv_def)

lemmas update_family_content [simp] = update_family_inv(2) [THEN same_content_simps(1)]
  update_family_inv(2) [THEN same_content_simps(2)]
  update_family_inv(2) [THEN same_content_simps(3)]
  update_family_inv(2) [THEN same_content_simps(4)]
  update_family_inv(2) [THEN same_content_simps(5)]

lemma usize_sub_mod: "b \<le> s \<Longrightarrow> usize_sub (s mod usize_limit) b = (s - b) mod usize_limit"
  by (simp add: usize_sub_def usize_limit_def zmod_int mod_diff_left_eq nat_mod_distrib flip: of_nat_diff)

lemma usize_add_mod: "usize_add (s mod usize_limit) b = (s + b) mod usize_limit"
  by (simp add: usize_add_def usize_limit_def zmod_int mod_add_left_eq nat_mod_distrib flip: of_nat_add)

subsection \<open>Removal keeps the invariant\<close>

lemma reg_inv_detach:
  assumes inv: "reg_inv mp" and w: "map_of (mp_registry mp) k = Some w"
  shows "reg_inv (detach_tx k tx (Some w) mp)"
proof -
  let ?r = "map_of (mp_registry mp)" and ?o = "mp_weight_order mp"
  have sorted: "bt_sorted wtx_cmp ?o" and order: "set ?o = ran ?r"
    and doms: "dom ?r = dom (map_of (mp_transactions mp))"
    and keys: "\<And>k' v. ?r k' = Some v \<Longrightarrow> w_tx_id v = k'"
    using inv by (auto simp: reg_inv_def)
  have "set (bt_remove wtx_cmp w ?o) = {x \<in> ran ?r. w_tx_id x \<noteq> k}"
    using reg_same [OF inv w] by (auto simp: wtx.set_bt_remove [OF sorted] order)
  then show ?thesis
    using keys doms sorted ran_del_keyed [of ?r w_tx_id k, OF keys]
    by (auto simp: reg_inv_def detach_tx_def delete_conv' intro!: wtx.sorted_bt_remove)
qed

lemma mp_get_detach: "mp_get (detach_tx k tx w mp) = (mp_get mp)(k := None)"
  by (simp add: mp_get_def detach_tx_def delete_conv' fun_eq_iff)

lemma pool_bytes_detach:
  assumes "index_inv mp" "mp_get mp k = Some tx"
  shows "pool_bytes (detach_tx k tx w mp) = pool_bytes mp - length (ptx_bytes tx)"
    "length (ptx_bytes tx) \<le> pool_bytes mp"
    "mp_total_size (detach_tx k tx w mp) = pool_bytes (detach_tx k tx w mp) mod usize_limit"
proof -
  have "pool_bytes mp = length (ptx_bytes tx) + pool_bytes (detach_tx k tx w mp)"
    using assms sum_list_delete [of "mp_transactions mp" k tx "\<lambda>(k, tx). length (ptx_bytes tx)"]
    by (simp add: pool_bytes_def detach_tx_def index_inv_def mp_get_def)
  then show "pool_bytes (detach_tx k tx w mp) = pool_bytes mp - length (ptx_bytes tx)"
    and le: "length (ptx_bytes tx) \<le> pool_bytes mp"
    by simp_all
  then show "mp_total_size (detach_tx k tx w mp) = pool_bytes (detach_tx k tx w mp) mod usize_limit"
    using assms usize_sub_mod [OF le] by (simp add: detach_tx_def index_inv_def)
qed

lemma index_inv_detach:
  assumes inv: "index_inv mp" and tx: "mp_get mp k = Some tx"
  shows "index_inv (detach_tx k tx w mp)"
proof -
  let ?q = "detach_tx k tx w mp"
  have spend: "get_spending_tx ?q i = (if i \<in> set (ptx_inputs tx) then None else get_spending_tx mp i)"
    and create: "get_creating_tx ?q i = (if i \<in> set (ptx_outputs tx) then None else get_creating_tx mp i)"
    for i
    by (simp_all add: get_spending_tx_def get_creating_tx_def detach_tx_def map_of_fold_delete)
  have "distinct (map fst (mp_transactions ?q))"
    using inv by (simp add: index_inv_def detach_tx_def distinct_delete)
  moreover have "ptx_id t = k'" if "mp_get ?q k' = Some t" for k' t
    using that inv by (auto simp: mp_get_detach index_inv_def split: if_splits)
  moreover have "get_spending_tx ?q i = Some k' \<longleftrightarrow>
      (\<exists>t. mp_get ?q k' = Some t \<and> i \<in> set (ptx_inputs t))" for i k'
  proof -
    have iff: "get_spending_tx mp i = Some j \<longleftrightarrow>
        (\<exists>t. mp_get mp j = Some t \<and> i \<in> set (ptx_inputs t))" for j
      using inv by (simp add: index_inv_def)
    show ?thesis
      using tx iff [of k] iff [of k'] by (auto simp: spend mp_get_detach)
  qed
  moreover have "\<exists>t. mp_get ?q k' = Some t \<and> b \<in> set (ptx_outputs t)"
    if "get_creating_tx ?q b = Some k'" for b k'
  proof -
    have "get_creating_tx mp b = Some k'" "b \<notin> set (ptx_outputs tx)"
      using that by (auto simp: create split: if_splits)
    moreover obtain t where "mp_get mp k' = Some t" "b \<in> set (ptx_outputs t)"
      using inv calculation(1) unfolding index_inv_def by blast
    ultimately show ?thesis
      using tx by (auto simp: mp_get_detach)
  qed
  ultimately show ?thesis
    unfolding index_inv_def using pool_bytes_detach(3) [OF inv tx] by blast
qed

text \<open>Removal, case by case.\<close>

lemma pool_inv_registered:
  assumes "pool_inv mp" "mp_get mp k = Some tx"
  obtains w where "map_of (mp_registry mp) k = Some w"
  using assms by (auto simp: pool_inv_def reg_inv_def mp_get_def dom_def) blast

lemma mp_remove_missing: "mp_get mp k = None \<Longrightarrow> mp_remove env k mp = (Inl (NotFound k), mp)"
  by (simp add: mp_remove_def mp_get_def)

lemma mp_remove_found:
  assumes inv: "pool_inv mp" and tx: "mp_get mp k = Some tx"
  shows "fst (mp_remove env k mp) = Inr tx" "pool_inv (snd (mp_remove env k mp))"
    "mp_get (snd (mp_remove env k mp)) = (mp_get mp)(k := None)"
    "mp_config (snd (mp_remove env k mp)) = mp_config mp"
    "pool_bytes (snd (mp_remove env k mp)) \<le> pool_bytes mp"
    "mp_len mp = Suc (mp_len (snd (mp_remove env k mp)))"
proof -
  obtain w where w: "map_of (mp_registry mp) k = Some w"
    using pool_inv_registered [OF inv tx] .
  let ?q = "detach_tx k tx (Some w) mp"
  have res: "mp_remove env k mp = (Inr tx, update_family env tx (wrap_i64 (- w_weight w)) ?q)"
    using tx w by (simp add: mp_remove_def mp_get_def)
  have q: "reg_inv ?q" "index_inv ?q"
    using inv tx reg_inv_detach [OF _ w] index_inv_detach by (auto simp: pool_inv_def)
  show "fst (mp_remove env k mp) = Inr tx"
    by (simp add: res)
  show "pool_inv (snd (mp_remove env k mp))"
    using q by (simp add: res pool_inv_def pool_inv_update_family [unfolded pool_inv_def])
  show "mp_get (snd (mp_remove env k mp)) = (mp_get mp)(k := None)"
    using q by (simp add: res mp_get_detach)
  show "mp_config (snd (mp_remove env k mp)) = mp_config mp"
    using q by (simp add: res) (simp add: detach_tx_def)
  show "pool_bytes (snd (mp_remove env k mp)) \<le> pool_bytes mp"
    using q inv pool_bytes_detach(1) [OF _ tx] by (simp add: res pool_inv_def)
  show "mp_len mp = Suc (mp_len (snd (mp_remove env k mp)))"
    using q inv tx length_delete [of "mp_transactions mp" k tx]
    by (simp add: res mp_len_def pool_inv_def index_inv_def mp_get_def) (simp add: detach_tx_def)
qed

subsection \<open>Removing many transactions\<close>

text \<open>
  What the maintenance operations rely on: a removal keeps the invariant and takes exactly
  one key out of the contents.
\<close>

locale keyed_removal =
  fixes inv :: "'s \<Rightarrow> bool"
    and contents :: "'s \<Rightarrow> 'k \<Rightarrow> 'v option"
    and del :: "'k \<Rightarrow> 's \<Rightarrow> 's"
  assumes del_inv: "inv s \<Longrightarrow> inv (del k s)"
    and contents_del: "inv s \<Longrightarrow> contents (del k s) = (contents s)(k := None)"
begin

lemma fold_inv: "inv s \<Longrightarrow> inv (fold del ks s)"
  by (induction ks arbitrary: s) (auto simp: del_inv)

lemma contents_fold: "inv s \<Longrightarrow> contents (fold del ks s) = (contents s) |` (- set ks)"
  by (induction ks arbitrary: s)
     (auto simp: del_inv contents_del restrict_map_def fun_eq_iff)

lemma fold_submap: "inv s \<Longrightarrow> contents (fold del ks s) \<subseteq>\<^sub>m contents s"
  by (simp add: contents_fold map_le_def)

end

definition remove_state :: "pool_env \<Rightarrow> bytes \<Rightarrow> mempool \<Rightarrow> mempool" where
  "remove_state env k mp = snd (mp_remove env k mp)"

interpretation mem: keyed_removal pool_inv mp_get "remove_state env" for env
proof
  fix s k
  assume "pool_inv s"
  then show "pool_inv (remove_state env k s)"
    and "mp_get (remove_state env k s) = (mp_get s)(k := None)"
    by (cases "mp_get s k"; auto simp: remove_state_def mp_remove_missing mp_remove_found)+
qed

lemma remove_state_sizes:
  assumes "pool_inv mp"
  shows "mp_config (remove_state env k mp) = mp_config mp"
    "pool_bytes (remove_state env k mp) \<le> pool_bytes mp"
    "mp_len (remove_state env k mp) \<le> mp_len mp"
proof -
  have "mp_config (remove_state env k mp) = mp_config mp \<and>
      pool_bytes (remove_state env k mp) \<le> pool_bytes mp \<and> mp_len (remove_state env k mp) \<le> mp_len mp"
  proof (cases "mp_get mp k")
    case None
    then show ?thesis by (simp add: remove_state_def mp_remove_missing)
  next
    case (Some tx)
    then show ?thesis
      using mp_remove_found(4,5,6) [OF assms Some, of env] by (simp add: remove_state_def)
  qed
  then show "mp_config (remove_state env k mp) = mp_config mp"
    "pool_bytes (remove_state env k mp) \<le> pool_bytes mp"
    "mp_len (remove_state env k mp) \<le> mp_len mp"
    by simp_all
qed

lemma fold_remove_sizes:
  assumes "pool_inv mp"
  shows "mp_config (fold (remove_state env) ks mp) = mp_config mp \<and>
    pool_bytes (fold (remove_state env) ks mp) \<le> pool_bytes mp \<and>
    mp_len (fold (remove_state env) ks mp) \<le> mp_len mp"
  using assms
proof (induction ks arbitrary: mp)
  case (Cons k ks)
  show ?case
    using Cons.IH [OF mem.del_inv [OF Cons.prems]] remove_state_sizes [OF Cons.prems, of env k]
    by (auto intro: order_trans)
qed simp

text \<open>The counting loop is the plain removal, and its counter the loss of transactions.\<close>

lemma remove_count_state: "snd (remove_count env ks s) = fold (remove_state env) ks (snd s)"
  by (induction ks arbitrary: s) (auto simp: remove_state_def Let_def split: prod.split)

lemma remove_count_count:
  "pool_inv (snd s) \<Longrightarrow>
     fst (remove_count env ks s) + mp_len (snd (remove_count env ks s)) = fst s + mp_len (snd s)"
proof (induction ks arbitrary: s)
  case (Cons k ks)
  obtain r q where rq: "mp_remove env k (snd s) = (r, q)"
    by fastforce
  have inv: "pool_inv q"
    using mem.del_inv [OF Cons.prems, of env k] by (simp add: remove_state_def rq)
  have "(if is_ok r then fst s + 1 else fst s) + mp_len q = fst s + mp_len (snd s)"
    using mp_remove_missing [of "snd s" k env] mp_remove_found(1,6) [OF Cons.prems, of k _ env] rq
    by (cases "mp_get (snd s) k") auto
  then show ?case
    using Cons.IH [of "(if is_ok r then fst s + 1 else fst s, q)"] inv
    by (auto simp: rq split: if_splits)
qed simp

subsection \<open>Eviction\<close>

lemma order_nonempty:
  assumes "pool_inv mp" "mp_transactions mp \<noteq> []"
  shows "mp_weight_order mp \<noteq> []"
proof -
  obtain kv m where "mp_transactions mp = kv # m"
    using assms(2) by (cases "mp_transactions mp") auto
  then have "mp_get mp (fst kv) = Some (snd kv)"
    by (cases kv) (simp add: mp_get_def)
  then obtain w where "map_of (mp_registry mp) (fst kv) = Some w"
    using pool_inv_registered [OF assms(1)] by blast
  then have "w \<in> set (mp_weight_order mp)"
    using assms(1) by (auto simp: pool_inv_def reg_inv_def ran_def)
  then show ?thesis
    by auto
qed

lemma order_pooled:
  assumes "pool_inv mp" "w \<in> set (mp_weight_order mp)"
  obtains tx where "mp_get mp (w_tx_id w) = Some tx"
    "map_of (mp_registry mp) (w_tx_id w) = Some w"
proof -
  obtain k where k: "map_of (mp_registry mp) k = Some w"
    using assms unfolding pool_inv_def reg_inv_def ran_def by blast
  then have "w_tx_id w = k"
    using assms(1) unfolding pool_inv_def reg_inv_def by blast
  moreover have "k \<in> dom (map_of (mp_transactions mp))"
    using assms(1) k unfolding pool_inv_def reg_inv_def by blast
  ultimately show ?thesis
    using that k by (auto simp: mp_get_def)
qed

lemma evict_lowest_weight_removes:
  assumes "pool_inv mp" "mp_weight_order mp \<noteq> []"
  defines "k \<equiv> w_tx_id (last (mp_weight_order mp))"
  shows "evict_lowest_weight env mp = (Inr (), remove_state env k mp)"
    "mp_len mp = Suc (mp_len (remove_state env k mp))"
proof -
  have "last (mp_weight_order mp) \<in> set (mp_weight_order mp)"
    using assms(2) by simp
  then obtain tx where tx: "mp_get mp k = Some tx"
    using order_pooled [OF assms(1)] unfolding k_def by blast
  show "evict_lowest_weight env mp = (Inr (), remove_state env k mp)"
    using assms(2) mp_remove_found(1) [OF assms(1) tx, of env]
    by (cases "mp_remove env k mp") (auto simp: evict_lowest_weight_def remove_state_def k_def)
  show "mp_len mp = Suc (mp_len (remove_state env k mp))"
    using mp_remove_found(6) [OF assms(1) tx] by (simp add: remove_state_def)
qed

text \<open>An eviction loop ends, below its limit, with a part of the pool.\<close>

lemma evict_while_ends:
  assumes "pool_inv mp" and over: "\<And>p. pool_inv p \<Longrightarrow> over p \<Longrightarrow> mp_weight_order p \<noteq> []"
  shows "\<exists>ks. evict_while over env mp = Some (fold (remove_state env) ks mp) \<and>
    \<not> over (fold (remove_state env) ks mp) \<and> (ks \<noteq> [] \<longrightarrow> over mp)"
  using assms(1)
proof (induction "mp_len mp" arbitrary: mp rule: less_induct)
  case less
  show ?case
  proof (cases "over mp")
    case False
    then show ?thesis
      by (intro exI [of _ "[]"]) (simp add: evict_while.simps)
  next
    case True
    let ?k = "w_tx_id (last (mp_weight_order mp))"
    note e = evict_lowest_weight_removes [OF less.prems over [OF less.prems True], of env]
    obtain ks where "evict_while over env (remove_state env ?k mp) =
        Some (fold (remove_state env) ks (remove_state env ?k mp))"
      "\<not> over (fold (remove_state env) ks (remove_state env ?k mp))"
      using less.hyps [OF _ mem.del_inv [OF less.prems]] e(2) by (metis lessI)
    then show ?thesis
      using True e(1) by (intro exI [of _ "?k # ks"]) (simp add: evict_while.simps [of over env mp])
  qed
qed

lemma over_count_nonempty: "pool_inv p \<Longrightarrow> over_count p \<Longrightarrow> mp_weight_order p \<noteq> []"
  using order_nonempty [of p] by (cases "mp_transactions p = []") (auto simp: over_count_def)

lemma over_size_nonempty: "pool_inv p \<Longrightarrow> over_size p \<Longrightarrow> mp_weight_order p \<noteq> []"
  using order_nonempty [of p]
  by (cases "mp_transactions p = []") (auto simp: over_size_def pool_inv_def index_inv_def pool_bytes_def)

subsection \<open>Admission keeps the invariant\<close>

lemma add_check_None:
  assumes "add_check tx mp = None"
  shows "mp_get mp (ptx_id tx) = None" "length (ptx_bytes tx) \<le> max_size (mp_config mp) div 10"
    "\<And>i. i \<in> set (ptx_inputs tx) \<Longrightarrow> get_spending_tx mp i = None"
  using assms by (auto simp: add_check_def Let_def mp_contains_def mp_get_def find_None_iff
      is_input_spent_def get_spending_tx_def split: if_splits)

lemma reg_inv_insert:
  assumes inv: "reg_inv mp" and new: "mp_get mp (ptx_id tx) = None" and w: "w_tx_id w = ptx_id tx"
  shows "reg_inv (insert_tx tx w mp)"
proof -
  let ?r = "map_of (mp_registry mp)" and ?o = "mp_weight_order mp"
  have doms: "dom ?r = dom (map_of (mp_transactions mp))" and order: "set ?o = ran ?r"
    and keys: "\<And>k v. ?r k = Some v \<Longrightarrow> w_tx_id v = k" and sorted: "bt_sorted wtx_cmp ?o"
    using inv by (auto simp: reg_inv_def)
  have free: "?r (ptx_id tx) = None"
    using new doms by (metis domIff mp_get_def)
  have "w_tx_id v \<noteq> ptx_id tx" if v: "v \<in> ran ?r" for v
    using v keys free unfolding ran_def by fastforce
  then have "set (bt_insert wtx_cmp w ?o) = insert w (ran ?r)"
    using w by (subst wtx.set_bt_insert) (force simp: order wtx_same_def)+
  moreover have "ran (?r(ptx_id tx \<mapsto> w)) = insert w (ran ?r)"
    using free by simp
  moreover have "bt_sorted wtx_cmp (bt_insert wtx_cmp w ?o)"
    by (rule wtx.sorted_bt_insert [OF sorted])
  ultimately show ?thesis
    using doms keys w unfolding reg_inv_def by (auto simp: insert_tx_def update_conv')
qed

lemma mp_get_insert: "mp_get (insert_tx tx w mp) = (mp_get mp)(ptx_id tx \<mapsto> tx)"
  by (simp add: mp_get_def insert_tx_def update_conv' fun_eq_iff)

lemma insert_tx_sizes:
  assumes "mp_get mp (ptx_id tx) = None"
  shows "pool_bytes (insert_tx tx w mp) = pool_bytes mp + length (ptx_bytes tx)"
    "mp_len (insert_tx tx w mp) = Suc (mp_len mp)"
  using assms update_fresh [of "mp_transactions mp" "ptx_id tx" tx]
  by (simp_all add: pool_bytes_def insert_tx_def mp_get_def mp_len_def)

lemma index_inv_insert:
  assumes inv: "index_inv mp" and new: "mp_get mp (ptx_id tx) = None"
    and free: "\<And>i. i \<in> set (ptx_inputs tx) \<Longrightarrow> get_spending_tx mp i = None"
  shows "index_inv (insert_tx tx w mp)"
proof -
  let ?q = "insert_tx tx w mp"
  have spend: "get_spending_tx ?q i =
      (if i \<in> set (ptx_inputs tx) then Some (ptx_id tx) else get_spending_tx mp i)"
    and create: "get_creating_tx ?q i =
      (if i \<in> set (ptx_outputs tx) then Some (ptx_id tx) else get_creating_tx mp i)" for i
    by (simp_all add: get_spending_tx_def get_creating_tx_def insert_tx_def map_of_fold_update)
  have "distinct (map fst (mp_transactions ?q))"
    using inv by (simp add: index_inv_def insert_tx_def distinct_update)
  moreover have "ptx_id t = k'" if "mp_get ?q k' = Some t" for k' t
    using that inv by (auto simp: mp_get_insert index_inv_def split: if_splits)
  moreover have "get_spending_tx ?q i = Some k' \<longleftrightarrow>
      (\<exists>t. mp_get ?q k' = Some t \<and> i \<in> set (ptx_inputs t))" for i k'
  proof -
    have iff: "get_spending_tx mp i = Some j \<longleftrightarrow>
        (\<exists>t. mp_get mp j = Some t \<and> i \<in> set (ptx_inputs t))" for j
      using inv by (simp add: index_inv_def)
    show ?thesis
      using new free [of i] iff [of k'] by (auto simp: spend mp_get_insert)
  qed
  moreover have "\<exists>t. mp_get ?q k' = Some t \<and> b \<in> set (ptx_outputs t)"
    if b: "get_creating_tx ?q b = Some k'" for b k'
  proof (cases "b \<in> set (ptx_outputs tx)")
    case True
    then show ?thesis using b by (simp add: create mp_get_insert)
  next
    case False
    then obtain t where "mp_get mp k' = Some t" "b \<in> set (ptx_outputs t)"
      using b inv unfolding create index_inv_def by (metis (no_types, lifting))
    then show ?thesis using new by (auto simp: mp_get_insert)
  qed
  moreover have "mp_total_size ?q = pool_bytes ?q mod usize_limit"
    using inv usize_add_mod insert_tx_sizes(1) [OF new] by (simp add: index_inv_def insert_tx_def)
  ultimately show ?thesis
    unfolding index_inv_def by blast
qed

text \<open>A pool as its owner sees it between two calls: consistent and within its limits.\<close>

definition pool_ok :: "mempool \<Rightarrow> bool" where
  "pool_ok mp =
     (pool_inv mp \<and> mp_len mp \<le> max_transactions (mp_config mp) \<and>
      pool_bytes mp \<le> max_size (mp_config mp) \<and> max_size (mp_config mp) < 2 ^ 63)"

lemma maybe_evict_ends:
  assumes inv: "pool_inv mp" and small: "pool_bytes mp < usize_limit"
  shows "\<exists>ks. maybe_evict env mp = Some (fold (remove_state env) ks mp) \<and>
    mp_len (fold (remove_state env) ks mp) \<le> max_transactions (mp_config mp) \<and>
    pool_bytes (fold (remove_state env) ks mp) \<le> max_size (mp_config mp) \<and>
    (ks \<noteq> [] \<longrightarrow> max_transactions (mp_config mp) < mp_len mp \<or> max_size (mp_config mp) < pool_bytes mp)"
proof -
  obtain ks where ks: "evict_while over_count env mp = Some (fold (remove_state env) ks mp)"
    "\<not> over_count (fold (remove_state env) ks mp)" "ks \<noteq> [] \<longrightarrow> over_count mp"
    using evict_while_ends [OF inv over_count_nonempty] by blast
  define p where "p = fold (remove_state env) ks mp"
  have p: "pool_inv p" "mp_config p = mp_config mp" "pool_bytes p \<le> pool_bytes mp"
    using mem.fold_inv [OF inv] fold_remove_sizes [OF inv, of env ks] by (simp_all add: p_def)
  obtain ls where ls: "evict_while over_size env p = Some (fold (remove_state env) ls p)"
    "\<not> over_size (fold (remove_state env) ls p)" "ls \<noteq> [] \<longrightarrow> over_size p"
    using evict_while_ends [OF p(1) over_size_nonempty] by blast
  define q where "q = fold (remove_state env) ls p"
  have q: "pool_inv q" "mp_config q = mp_config mp" "pool_bytes q \<le> pool_bytes p" "mp_len q \<le> mp_len p"
    using mem.fold_inv [OF p(1)] fold_remove_sizes [OF p(1), of env ls] p(2) by (simp_all add: q_def)
  have total: "mp_total_size r = pool_bytes r" if "pool_inv r" "pool_bytes r \<le> pool_bytes mp" for r
    using that small by (simp add: pool_inv_def index_inv_def)
  have "pool_bytes q \<le> max_size (mp_config mp)"
    using ls(2) total [of q] q p(3) by (simp add: over_size_def q_def [symmetric])
  moreover have "mp_len q \<le> max_transactions (mp_config mp)"
    using ks(2) p(2) q(4) by (simp add: over_count_def mp_len_def p_def [symmetric])
  moreover have "maybe_evict env mp = Some q"
    using ks(1) ls(1) by (simp add: maybe_evict_def p_def q_def)
  moreover have "ks @ ls \<noteq> [] \<longrightarrow>
      max_transactions (mp_config mp) < mp_len mp \<or> max_size (mp_config mp) < pool_bytes mp"
    using ks(3) ls(3) total [OF p(1,3)] p(2,3)
    by (auto simp: over_count_def over_size_def mp_len_def)
  ultimately show ?thesis
    by (intro exI [of _ "ks @ ls"]) (simp add: p_def q_def)
qed

lemma mp_add_rejects: "add_check tx mp = Some e \<Longrightarrow> mp_add env tx mp = Some (Inl e, mp)"
  by (simp add: mp_add_def)

lemma mp_add_accepts:
  assumes ok: "pool_ok mp" and free: "add_check tx mp = None"
  shows "\<exists>q ks. mp_add env tx mp = Some (Inr (), q) \<and> pool_ok q \<and> mp_config q = mp_config mp \<and>
    mp_get q = ((mp_get mp)(ptx_id tx \<mapsto> tx)) |` (- set ks) \<and>
    (ks \<noteq> [] \<longrightarrow> max_transactions (mp_config mp) \<le> mp_len mp \<or>
       max_size (mp_config mp) < pool_bytes mp + length (ptx_bytes tx))"
proof -
  note c = add_check_None [OF free]
  define w where "w = wtx_new (ptx_id tx) (ptx_fee tx) (length (ptx_bytes tx)) (ptx_arrival_time tx)"
  define p where "p = update_family env tx (w_weight w) (insert_tx tx w mp)"
  have "w_tx_id w = ptx_id tx"
    by (simp add: w_def wtx_new_def Let_def)
  then have ins: "pool_inv (insert_tx tx w mp)"
    using ok c reg_inv_insert index_inv_insert by (simp add: pool_inv_def pool_ok_def)
  have conf: "mp_config (insert_tx tx w mp) = mp_config mp"
    by (simp add: insert_tx_def)
  have p: "pool_inv p" "mp_get p = (mp_get mp)(ptx_id tx \<mapsto> tx)" "mp_config p = mp_config mp"
    "pool_bytes p = pool_bytes mp + length (ptx_bytes tx)" "mp_len p = Suc (mp_len mp)"
    using ins pool_inv_update_family [OF ins] insert_tx_sizes [OF c(1), of w] conf
    by (auto simp: p_def mp_get_insert mp_len_def pool_inv_def)
  have "pool_bytes mp + length (ptx_bytes tx) \<le> 2 * max_size (mp_config mp)"
    using ok c(2) unfolding pool_ok_def by linarith
  then have small: "pool_bytes p < usize_limit"
    using ok p(4) by (simp add: pool_ok_def usize_limit_def)
  obtain ks where ks: "maybe_evict env p = Some (fold (remove_state env) ks p)"
    "mp_len (fold (remove_state env) ks p) \<le> max_transactions (mp_config p)"
    "pool_bytes (fold (remove_state env) ks p) \<le> max_size (mp_config p)"
    "ks \<noteq> [] \<longrightarrow> max_transactions (mp_config p) < mp_len p \<or> max_size (mp_config p) < pool_bytes p"
    using maybe_evict_ends [OF p(1) small] by blast
  define q where "q = fold (remove_state env) ks p"
  have "pool_inv q" "mp_config q = mp_config mp"
    "mp_get q = ((mp_get mp)(ptx_id tx \<mapsto> tx)) |` (- set ks)"
    using mem.fold_inv [OF p(1)] mem.contents_fold [OF p(1)] fold_remove_sizes [OF p(1), of env ks] p(2,3)
    by (simp_all add: q_def)
  moreover have "mp_add env tx mp = Some (Inr (), q)"
    using free ks(1) by (simp add: mp_add_def Let_def w_def p_def q_def)
  ultimately show ?thesis
    using ks(2-4) ok p(3-5) by (intro exI [of _ q] exI [of _ ks]) (auto simp: pool_ok_def q_def)
qed

lemma pool_ok_new: "max_size config < 2 ^ 63 \<Longrightarrow> pool_ok (mempool_new config)"
  by (simp add: pool_ok_def pool_inv_def reg_inv_def index_inv_def mempool_new_def mp_len_def
      pool_bytes_def mp_get_def get_spending_tx_def get_creating_tx_def wtx.sorted_Nil)

lemma pool_ok_clear: "pool_ok mp \<Longrightarrow> pool_ok (mp_clear mp)"
  by (simp add: pool_ok_def pool_inv_def reg_inv_def index_inv_def mp_clear_def mp_len_def
      pool_bytes_def mp_get_def get_spending_tx_def get_creating_tx_def wtx.sorted_Nil)

lemma pool_ok_fold:
  "pool_ok mp \<Longrightarrow> pool_ok (fold (remove_state env) ks mp) \<and>
     mp_config (fold (remove_state env) ks mp) = mp_config mp"
  using fold_remove_sizes [of mp env ks] mem.fold_inv [of mp env ks] by (auto simp: pool_ok_def)

lemma pool_ok_tick [simp]: "pool_ok (tick mp) = pool_ok mp"
  by (simp add: pool_ok_def pool_inv_def reg_inv_def index_inv_def tick_def mp_len_def
      pool_bytes_def mp_get_def get_spending_tx_def get_creating_tx_def)

lemma remove_confirmed_state:
  "snd (remove_confirmed env tx_ids spent mp) =
     fold (remove_state env)
       (filter (\<lambda>tx_id. tx_id \<notin> set tx_ids)
          (List.map_filter (get_spending_tx (fold (remove_state env) tx_ids mp)) spent))
       (fold (remove_state env) tx_ids mp)"
  by (simp add: remove_confirmed_def Let_def remove_count_state)

lemma remove_expired_state:
  "remove_expired env mp = fold (remove_state env) (expired_ids env mp) (tick mp)"
  by (simp add: remove_expired_def remove_state_def [abs_def])

subsection \<open>The pool as a state machine\<close>

text \<open>The states a pool goes through under any sequence of calls of its mutating operations.\<close>

inductive pool_step :: "pool_env \<Rightarrow> mempool \<Rightarrow> mempool \<Rightarrow> bool" for env where
  step_add: "mp_add env tx mp = Some (r, mp') \<Longrightarrow> pool_step env mp mp'"
| step_remove: "mp_remove env k mp = (r, mp') \<Longrightarrow> pool_step env mp mp'"
| step_confirmed: "remove_confirmed env ids spent mp = (n, mp') \<Longrightarrow> pool_step env mp mp'"
| step_expired: "remove_expired env mp = mp' \<Longrightarrow> pool_step env mp mp'"
| step_clear: "mp_clear mp = mp' \<Longrightarrow> pool_step env mp mp'"

inductive pool_reachable :: "pool_env \<Rightarrow> mempool_config \<Rightarrow> mempool \<Rightarrow> bool" for env config where
  reach_new: "pool_reachable env config (mempool_new config)"
| reach_step: "pool_reachable env config mp \<Longrightarrow> pool_step env mp mp' \<Longrightarrow> pool_reachable env config mp'"

lemma pool_step_ok: "pool_step env mp mp' \<Longrightarrow> pool_ok mp \<Longrightarrow> pool_ok mp' \<and> mp_config mp' = mp_config mp"
proof (induction rule: pool_step.induct)
  case (step_add tx mp r mp')
  then show ?case
    using mp_add_rejects [of tx mp _ env] mp_add_accepts [OF step_add.prems, of tx env]
    by (cases "add_check tx mp") auto
next
  case (step_remove k mp r mp')
  then show ?case
    using pool_ok_fold [of mp env "[k]"] by (simp add: remove_state_def)
next
  case (step_confirmed ids spent mp n mp')
  then have "mp' = snd (remove_confirmed env ids spent mp)"
    by simp
  then show ?case
    using step_confirmed.prems pool_ok_fold by (simp add: remove_confirmed_state)
next
  case (step_expired mp mp')
  then show ?case
    using pool_ok_fold [of "tick mp" env "expired_ids env mp"]
    by (simp add: remove_expired_state) (simp add: tick_def)
next
  case (step_clear mp mp')
  then show ?case
    using pool_ok_clear by (auto simp: mp_clear_def)
qed

lemma pool_reachable_ok:
  assumes "pool_reachable env config mp" "max_size config < 2 ^ 63"
  shows "pool_ok mp \<and> mp_config mp = config"
  using assms
proof (induction rule: pool_reachable.induct)
  case reach_new
  then show ?case using pool_ok_new by (simp add: mempool_new_def)
next
  case (reach_step mp mp')
  then show ?case using pool_step_ok by auto
qed

text \<open>A batch of admissions, and a small pool on which the properties are exercised.\<close>

primrec add_all :: "pool_env \<Rightarrow> pooled_transaction list \<Rightarrow> mempool \<Rightarrow> mempool" where
  "add_all env [] mp = mp"
| "add_all env (tx # txs) mp =
     (case mp_add env tx mp of None \<Rightarrow> mp | Some (r, mp1) \<Rightarrow> add_all env txs mp1)"

lemma add_all_reachable:
  "pool_reachable env config mp \<Longrightarrow> pool_reachable env config (add_all env txs mp)"
proof (induction txs arbitrary: mp)
  case (Cons tx txs)
  then show ?case
    by (auto split: option.split intro!: Cons.IH dest: step_add reach_step)
qed simp

definition steady_env :: pool_env where
  "steady_env = \<lparr>now_ns = \<lambda>_. 0, wall_ms = \<lambda>_. 5000, iter_order = \<lambda>_ ids. ids\<rparr>"

definition sample_config :: mempool_config where
  "sample_config =
     \<lparr>max_size = 100, max_transactions = 2, tx_expiry_secs = 1, min_fee_per_byte = Fin 0\<rparr>"

definition sample_tx :: "u8 \<Rightarrow> u64 \<Rightarrow> u8 list \<Rightarrow> u8 list \<Rightarrow> pooled_transaction" where
  "sample_tx i fee ins outs =
     \<lparr>ptx_id = [i], ptx_bytes = [0, 0], ptx_fee = fee, ptx_inputs = map (\<lambda>b. [b]) ins,
      ptx_outputs = map (\<lambda>b. [b]) outs, ptx_arrival_time = 4000, ptx_estimated_cost = None\<rparr>"

lemma scan_depth_Suc: "MAX_PARENT_SCAN_DEPTH = Suc 499"
  by (simp add: MAX_PARENT_SCAN_DEPTH_def)

lemmas scan_eval = update_family_def
  update_family_recursive.simps(2) [of 499, folded scan_depth_Suc]

lemma evict_while_done: "\<not> over mp \<Longrightarrow> evict_while over env mp = Some mp"
  by (simp add: evict_while.simps)

lemmas pool_eval = mp_add_def add_check_def Let_def mp_contains_def sample_tx_def sample_config_def
  mempool_new_def f64_ratio_not_neg maybe_evict_def evict_while_done over_count_def over_size_def
  usize_add_def usize_sub_def insert_tx_def wtx_new_def wrap_i64_def signed_divide_int_def
  is_input_spent_def steady_env_def tick_def scan_eval parent_ids_def
  List.map_filter_def MAX_PARENT_SCAN_TIME_MS_def reweigh_def wtx_with_weight_def wtx_cmp_def
  compare_lin_def mp_get_def get_weight_def mp_remove_def detach_tx_def get_spending_tx_def

lemma add_all_Cons: "mp_add env tx mp = Some (r, q) \<Longrightarrow> add_all env (tx # txs) mp = add_all env txs q"
  by simp

definition sample_single :: "pooled_transaction \<Rightarrow> mempool" where
  "sample_single tx =
     (let w = wtx_new (ptx_id tx) (ptx_fee tx) (length (ptx_bytes tx)) (ptx_arrival_time tx)
      in \<lparr>mp_config = sample_config, mp_transactions = [(ptx_id tx, tx)],
          mp_registry = [(ptx_id tx, w)], mp_weight_order = [w],
          mp_output_to_tx = map (\<lambda>b. (b, ptx_id tx)) (ptx_outputs tx),
          mp_input_to_tx = map (\<lambda>b. (b, ptx_id tx)) (ptx_inputs tx),
          mp_total_size = 2, mp_ticks = 2\<rparr>)"

lemma sample_single_add:
  "mp_add steady_env (sample_tx 1 6 [10] [11]) (mempool_new sample_config) =
     Some (Inr (), sample_single (sample_tx 1 6 [10] [11]))"
  by (simp add: pool_eval sample_single_def)

definition sample_pool :: mempool where
  "sample_pool =
     \<lparr>mp_config = sample_config,
      mp_transactions = [([1], sample_tx 1 6 [10] [11]), ([2], sample_tx 2 4 [20] [21])],
      mp_registry = [([1], wtx_new [1] 6 2 4000), ([2], wtx_new [2] 4 2 4000)],
      mp_weight_order = [wtx_new [1] 6 2 4000, wtx_new [2] 4 2 4000],
      mp_output_to_tx = [([11], [1]), ([21], [2])], mp_input_to_tx = [([10], [1]), ([20], [2])],
      mp_total_size = 4, mp_ticks = 4\<rparr>"

lemma sample_pool_add:
  "mp_add steady_env (sample_tx 2 4 [20] [21]) (sample_single (sample_tx 1 6 [10] [11])) =
     Some (Inr (), sample_pool)"
  by (simp add: pool_eval sample_single_def sample_pool_def)

lemma sample_pool_reachable: "pool_reachable steady_env sample_config sample_pool"
  by (rule reach_step [OF reach_step [OF reach_new step_add [OF sample_single_add]]
        step_add [OF sample_pool_add]])

subsection \<open>Properties of the pool\<close>

text \<open>C25: in every state that a pool can reach, no two transactions spend the same box, a box is
  reported as spent exactly when a pooled transaction spends it, the size counter is the total
  size of the pooled transactions, and count and size are within the configured limits. The
  limit on the size is below \<open>2 ^ 63\<close> bytes, as it is on every machine.\<close>

theorem mempool_consistent:
  assumes "pool_reachable env config mp" "max_size config < 2 ^ 63"
  shows "(\<forall>k t k' t'. mp_get mp k = Some t \<longrightarrow> mp_get mp k' = Some t' \<longrightarrow> k \<noteq> k' \<longrightarrow>
            set (ptx_inputs t) \<inter> set (ptx_inputs t') = {})
    \<and> (\<forall>i. is_input_spent mp i \<longleftrightarrow> (\<exists>k t. mp_get mp k = Some t \<and> i \<in> set (ptx_inputs t)))
    \<and> mp_total_size mp = pool_bytes mp
    \<and> mp_total_size mp \<le> max_size config \<and> mp_len mp \<le> max_transactions config"
proof -
  have ok: "pool_ok mp" "mp_config mp = config"
    using pool_reachable_ok [OF assms] by auto
  have iff: "get_spending_tx mp i = Some k \<longleftrightarrow>
      (\<exists>t. mp_get mp k = Some t \<and> i \<in> set (ptx_inputs t))" for i k
    using ok(1) by (simp add: pool_ok_def pool_inv_def index_inv_def)
  have "mp_total_size mp = pool_bytes mp"
    using ok by (simp add: pool_ok_def pool_inv_def index_inv_def usize_limit_def)
  moreover have "set (ptx_inputs t) \<inter> set (ptx_inputs t') = {}"
    if "mp_get mp k = Some t" "mp_get mp k' = Some t'" "k \<noteq> k'" for k t k' t'
  proof (rule equals0I)
    fix i
    assume "i \<in> set (ptx_inputs t) \<inter> set (ptx_inputs t')"
    then show False
      using iff [of i k] iff [of i k'] that by auto
  qed
  moreover have "is_input_spent mp i \<longleftrightarrow> (\<exists>k. get_spending_tx mp i = Some k)" for i
    by (auto simp: is_input_spent_def get_spending_tx_def)
  ultimately show ?thesis
    using ok by (simp add: iff pool_ok_def)
qed

theorem mempool_consistent_witness:
  "is_input_spent sample_pool [20] \<and> mp_total_size sample_pool = pool_bytes sample_pool"
proof
  show "is_input_spent sample_pool [20]"
    by (simp add: is_input_spent_def sample_pool_def)
  show "mp_total_size sample_pool = pool_bytes sample_pool"
    using mempool_consistent [OF sample_pool_reachable] by (simp add: sample_config_def)
qed

text \<open>C27: \<open>add\<close> always returns. When one of its checks fails it reports the first failing one and
  leaves the pool as it was; otherwise it accepts, the pool stays within its limits, holds
  nothing but its old transactions and the new one, and when there was room it holds all of
  them.\<close>

theorem mempool_add_outcome:
  assumes "pool_reachable env config mp" "max_size config < 2 ^ 63"
  shows "case add_check tx mp of
      Some e \<Rightarrow> mp_add env tx mp = Some (Inl e, mp)
    | None \<Rightarrow> \<exists>q. mp_add env tx mp = Some (Inr (), q) \<and>
        mp_len q \<le> max_transactions config \<and> pool_bytes q \<le> max_size config \<and>
        mp_get q \<subseteq>\<^sub>m (mp_get mp)(ptx_id tx \<mapsto> tx) \<and>
        (mp_len mp < max_transactions config \<and>
           pool_bytes mp + length (ptx_bytes tx) \<le> max_size config \<longrightarrow>
         mp_get q = (mp_get mp)(ptx_id tx \<mapsto> tx))"
proof (cases "add_check tx mp")
  case (Some e)
  then show ?thesis by (simp add: mp_add_rejects)
next
  case None
  have ok: "pool_ok mp" "mp_config mp = config"
    using pool_reachable_ok [OF assms] by auto
  obtain q ks where q: "mp_add env tx mp = Some (Inr (), q)" "pool_ok q" "mp_config q = mp_config mp"
    "mp_get q = ((mp_get mp)(ptx_id tx \<mapsto> tx)) |` (- set ks)"
    "ks \<noteq> [] \<longrightarrow> max_transactions (mp_config mp) \<le> mp_len mp \<or>
       max_size (mp_config mp) < pool_bytes mp + length (ptx_bytes tx)"
    using mp_add_accepts [OF ok(1) None] by blast
  have "mp_get q \<subseteq>\<^sub>m (mp_get mp)(ptx_id tx \<mapsto> tx)"
    by (auto simp: q(4) map_le_def restrict_map_def split: if_splits)
  moreover have "mp_get q = (mp_get mp)(ptx_id tx \<mapsto> tx)" if "ks = []"
    using q(4) that by (simp add: restrict_map_def fun_eq_iff)
  moreover have "mp_len q \<le> max_transactions config" "pool_bytes q \<le> max_size config"
    using q(2,3) ok(2) by (simp_all add: pool_ok_def)
  moreover have "ks = []"
    if "mp_len mp < max_transactions config \<and> pool_bytes mp + length (ptx_bytes tx) \<le> max_size config"
    using that q(5) ok(2) by auto
  ultimately show ?thesis
    unfolding None option.case using q(1) by blast
qed

theorem mempool_add_outcome_witness:
  "mp_add steady_env (sample_tx 3 9 [20] []) sample_pool = Some (Inl (DoubleSpend [20]), sample_pool)"
proof -
  have "add_check (sample_tx 3 9 [20] []) sample_pool = Some (DoubleSpend [20])"
    by (simp add: add_check_def sample_pool_def sample_config_def sample_tx_def mp_contains_def
        f64_ratio_not_neg is_input_spent_def)
  then show ?thesis
    using mempool_add_outcome [OF sample_pool_reachable, of "sample_tx 3 9 [20] []"]
    by (simp add: sample_config_def)
qed

text \<open>After a block, \<open>remove_confirmed\<close> leaves no transaction that the block confirmed and none
  that spends a box the block spent, keeps every other transaction, and returns the number of
  transactions it removed.\<close>

theorem remove_confirmed_exact:
  assumes "pool_reachable env config mp" "max_size config < 2 ^ 63"
    "remove_confirmed env tx_ids spent mp = (n, q)"
  shows "mp_get q k =
      (case mp_get mp k of
         None \<Rightarrow> None
       | Some t \<Rightarrow> if k \<in> set tx_ids \<or> set (ptx_inputs t) \<inter> set spent \<noteq> {} then None else Some t)
    \<and> n + mp_len q = mp_len mp"
proof -
  have inv: "pool_inv mp"
    using pool_reachable_ok [OF assms(1,2)] by (simp add: pool_ok_def)
  define p where "p = fold (remove_state env) tx_ids mp"
  have pinv: "pool_inv p" and pget: "mp_get p = (mp_get mp) |` (- set tx_ids)"
    using mem.fold_inv [OF inv] mem.contents_fold [OF inv] by (simp_all add: p_def)
  have iff: "get_spending_tx p i = Some k \<longleftrightarrow>
      (\<exists>t. mp_get p k = Some t \<and> i \<in> set (ptx_inputs t))" for i k
    using pinv by (simp add: pool_inv_def index_inv_def)
  define ks where "ks = filter (\<lambda>tx_id. tx_id \<notin> set tx_ids) (List.map_filter (get_spending_tx p) spent)"
  have ks: "k \<in> set ks \<longleftrightarrow> k \<notin> set tx_ids \<and> (\<exists>i \<in> set spent. get_spending_tx p i = Some k)"
    by (auto simp: ks_def map_filter_def image_iff) (metis option.sel)?
  have "q = fold (remove_state env) ks p"
    using remove_confirmed_state [of env tx_ids spent mp] assms(3) by (simp add: p_def ks_def)
  then have "mp_get q = (mp_get p) |` (- set ks)"
    using mem.contents_fold [OF pinv] by simp
  then have "mp_get q k = (case mp_get mp k of None \<Rightarrow> None
      | Some t \<Rightarrow> if k \<in> set tx_ids \<or> set (ptx_inputs t) \<inter> set spent \<noteq> {} then None else Some t)"
    by (auto simp: pget restrict_map_def ks iff split: option.split)
  moreover have "n + mp_len q = mp_len mp"
    using assms(3) inv pinv remove_count_count [of "(0, mp)" env tx_ids]
      remove_count_count [of "remove_count env tx_ids (0, mp)" env ks]
    by (simp add: remove_confirmed_def Let_def remove_count_state p_def [symmetric] ks_def [symmetric])
  ultimately show ?thesis ..
qed

theorem remove_confirmed_exact_witness:
  "mp_get (snd (remove_confirmed steady_env [[1]] [[10]] sample_pool)) [1] = None"
  using remove_confirmed_exact [OF sample_pool_reachable, of "[[1]]" "[[10]]"
      "fst (remove_confirmed steady_env [[1]] [[10]] sample_pool)"
      "snd (remove_confirmed steady_env [[1]] [[10]] sample_pool)" "[1]"]
  by (simp add: sample_config_def split: option.splits)

lemma order_keys:
  assumes "pool_inv mp"
  shows "w_tx_id ` set (mp_weight_order mp) = fst ` set (mp_transactions mp)"
    "inj_on w_tx_id (set (mp_weight_order mp))" "length (mp_weight_order mp) = mp_len mp"
proof -
  have reg: "w \<in> set (mp_weight_order mp) \<longleftrightarrow> map_of (mp_registry mp) (w_tx_id w) = Some w" for w
  proof
    assume "w \<in> set (mp_weight_order mp)"
    then show "map_of (mp_registry mp) (w_tx_id w) = Some w"
      using order_pooled [OF assms] by blast
  next
    assume "map_of (mp_registry mp) (w_tx_id w) = Some w"
    then show "w \<in> set (mp_weight_order mp)"
      using assms unfolding pool_inv_def reg_inv_def ran_def by blast
  qed
  show inj: "inj_on w_tx_id (set (mp_weight_order mp))"
    by (rule inj_onI) (metis option.inject reg)
  have keys: "map_of (mp_registry mp) k = Some w \<Longrightarrow> w_tx_id w = k" for k w
    using assms by (auto simp: pool_inv_def reg_inv_def)
  have "w_tx_id ` set (mp_weight_order mp) = dom (map_of (mp_registry mp))"
  proof (intro set_eqI iffI)
    fix k
    assume "k \<in> dom (map_of (mp_registry mp))"
    then obtain w where w: "map_of (mp_registry mp) k = Some w"
      by blast
    then show "k \<in> w_tx_id ` set (mp_weight_order mp)"
      using keys [OF w] reg [of w] by blast
  qed (use reg in blast)
  also have "\<dots> = fst ` set (mp_transactions mp)"
    using assms by (simp add: pool_inv_def reg_inv_def dom_map_of_conv_image_fst)
  finally show ids: "w_tx_id ` set (mp_weight_order mp) = fst ` set (mp_transactions mp)" .
  have "distinct (mp_weight_order mp)"
    using assms wtx.sorted_distinct by (auto simp: pool_inv_def reg_inv_def)
  then have "length (mp_weight_order mp) = card (w_tx_id ` set (mp_weight_order mp))"
    by (simp add: card_image [OF inj] distinct_card)
  also have "\<dots> = card (set (map fst (mp_transactions mp)))"
    by (simp add: ids)
  also have "\<dots> = mp_len mp"
    using assms by (subst distinct_card) (auto simp: pool_inv_def index_inv_def mp_len_def)
  finally show "length (mp_weight_order mp) = mp_len mp" .
qed

lemma get_by_weight_eq:
  assumes "pool_inv mp"
  shows "get_by_weight mp limit = map (\<lambda>w. the (mp_get mp (w_tx_id w))) (take limit (mp_weight_order mp))"
proof -
  have "mp_get mp (w_tx_id w) \<noteq> None" if "w \<in> set (take limit (mp_weight_order mp))" for w
    using order_pooled [OF assms, of w] in_set_takeD [OF that] by auto
  then show ?thesis
    by (auto simp: get_by_weight_def List.map_filter_def intro: filter_True)
qed

lemma pooled_id: "pool_inv mp \<Longrightarrow> mp_get mp k = Some t \<Longrightarrow> ptx_id t = k"
  unfolding pool_inv_def index_inv_def by blast

lemma weight_of_pooled:
  assumes "pool_inv mp" "w \<in> set (mp_weight_order mp)"
  shows "get_weight mp (ptx_id (the (mp_get mp (w_tx_id w)))) = Some (w_weight w)"
  using order_pooled [OF assms] assms(1)
  by (metis (no_types, lifting) get_weight_def index_inv_def option.sel option.simps(9) pool_inv_def)

text \<open>\<open>get_by_weight\<close> lists the pooled transactions by decreasing weight, as many as asked for
  or as there are, and what it leaves out weighs no more than what it lists.\<close>

theorem get_by_weight_best:
  assumes "pool_reachable env config mp" "max_size config < 2 ^ 63"
  shows "length (get_by_weight mp limit) = min limit (mp_len mp)
    \<and> sorted_wrt (\<ge>) (map (\<lambda>t. the (get_weight mp (ptx_id t))) (get_by_weight mp limit))
    \<and> (\<forall>t \<in> set (get_by_weight mp limit). \<forall>k t'.
         mp_get mp k = Some t' \<and> t' \<notin> set (get_by_weight mp limit) \<longrightarrow>
         the (get_weight mp k) \<le> the (get_weight mp (ptx_id t)))"
proof -
  have inv: "pool_inv mp"
    using pool_reachable_ok [OF assms] by (simp add: pool_ok_def)
  let ?o = "mp_weight_order mp" and ?tx = "\<lambda>w. the (mp_get mp (w_tx_id w))"
  have sorted: "bt_sorted wtx_cmp ?o"
    using inv by (simp add: pool_inv_def reg_inv_def)
  have weights: "map (\<lambda>t. the (get_weight mp (ptx_id t))) (get_by_weight mp limit) =
      map w_weight (take limit ?o)"
    by (auto simp: get_by_weight_eq [OF inv] weight_of_pooled [OF inv] dest: in_set_takeD)
  have length_eq: "length (get_by_weight mp limit) = min limit (mp_len mp)"
    by (simp add: get_by_weight_eq [OF inv] order_keys(3) [OF inv] min.commute)
  have "the (get_weight mp k) \<le> the (get_weight mp (ptx_id t))"
    if t: "t \<in> set (get_by_weight mp limit)" and k: "mp_get mp k = Some t'"
      and out: "t' \<notin> set (get_by_weight mp limit)" for t k t'
  proof -
    obtain w where w: "w \<in> set (take limit ?o)" "t = ?tx w"
      using t by (auto simp: get_by_weight_eq [OF inv])
    have "k \<in> w_tx_id ` set ?o"
      using k map_of_SomeD [of "mp_transactions mp" k t'] by (force simp: order_keys(1) [OF inv] mp_get_def)
    then obtain v where v: "v \<in> set ?o" "w_tx_id v = k"
      by blast
    have "t' = ?tx v"
      using v k by simp
    then have "v \<notin> set (take limit ?o)"
      using out by (auto simp: get_by_weight_eq [OF inv])
    then have "v \<in> set (drop limit ?o)"
      using v(1) by (metis UnE append_take_drop_id set_append)
    then have "w_weight v \<le> w_weight w"
      by (rule wtx_prefix_heavier [OF sorted w(1)])
    then show ?thesis
      using weight_of_pooled [OF inv v(1)] weight_of_pooled [OF inv in_set_takeD [OF w(1)]] v(2) k w(2)
        pooled_id [OF inv k] by simp
  qed
  then show ?thesis
    unfolding weights take_map [symmetric]
    using sorted_wrt_take [OF wtx_sorted_weights [OF sorted]] order_keys(3) [OF inv] length_eq by blast
qed

theorem get_by_weight_best_witness:
  "length (get_by_weight sample_pool 1) = 1 \<and>
     the (get_weight sample_pool [2]) \<le> the (get_weight sample_pool [1])"
proof -
  have one: "get_by_weight sample_pool 1 = [sample_tx 1 6 [10] [11]]"
    by (simp add: get_by_weight_def List.map_filter_def sample_pool_def mp_get_def wtx_new_def Let_def)
  have two: "mp_get sample_pool [2] = Some (sample_tx 2 4 [20] [21])"
    by (simp add: sample_pool_def mp_get_def)
  have "sample_tx 2 4 [20] [21] \<notin> set (get_by_weight sample_pool 1)"
    unfolding one by (simp add: sample_tx_def)
  then have "the (get_weight sample_pool [2]) \<le> the (get_weight sample_pool (ptx_id (sample_tx 1 6 [10] [11])))"
    using get_by_weight_best [OF sample_pool_reachable, of 1] two
    by (simp add: sample_config_def one del: One_nat_def)
  then show ?thesis
    by (simp add: one sample_tx_def del: One_nat_def)
qed

text \<open>Eviction takes out exactly one transaction, one that no pooled transaction is lighter
  than.\<close>

theorem evicts_a_lightest:
  assumes "pool_reachable env config mp" "max_size config < 2 ^ 63" "\<not> mp_is_empty mp"
  shows "\<exists>k q. evict_lowest_weight env mp = (Inr (), q) \<and> mp_contains mp k \<and>
    mp_get q = (mp_get mp)(k := None) \<and>
    (\<forall>k' t. mp_get mp k' = Some t \<longrightarrow> the (get_weight mp k) \<le> the (get_weight mp k'))"
proof -
  have inv: "pool_inv mp"
    using pool_reachable_ok [OF assms(1,2)] by (simp add: pool_ok_def)
  let ?o = "mp_weight_order mp" and ?k = "w_tx_id (last (mp_weight_order mp))"
  have ne: "?o \<noteq> []" and sorted: "bt_sorted wtx_cmp ?o"
    using assms(3) order_nonempty [OF inv] inv by (simp_all add: mp_is_empty_def pool_inv_def reg_inv_def)
  have weight: "w \<in> set ?o \<Longrightarrow> get_weight mp (w_tx_id w) = Some (w_weight w)" for w
    using order_pooled [OF inv, of w] by (auto simp: get_weight_def)
  obtain tx where tx: "mp_get mp ?k = Some tx"
    using order_pooled [OF inv last_in_set [OF ne]] by blast
  have "the (get_weight mp ?k) \<le> the (get_weight mp k')" if k': "mp_get mp k' = Some t" for k' t
  proof -
    have "k' \<in> w_tx_id ` set ?o"
      using k' map_of_SomeD [of "mp_transactions mp" k' t] by (force simp: order_keys(1) [OF inv] mp_get_def)
    then obtain v where "v \<in> set ?o" "w_tx_id v = k'"
      by blast
    then show ?thesis
      using wtx_last_least [OF sorted, of v] weight [OF last_in_set [OF ne]] weight [of v] by simp
  qed
  then show ?thesis
    using evict_lowest_weight_removes(1) [OF inv ne] mem.contents_del [OF inv] tx
    by (intro exI [of _ ?k] exI [of _ "remove_state env ?k mp"]) (auto simp: mp_contains_def mp_get_def)
qed

theorem evicts_a_lightest_witness:
  "fst (evict_lowest_weight steady_env sample_pool) = Inr () \<and> \<not> mp_is_empty sample_pool"
proof -
  have "\<not> mp_is_empty sample_pool"
    by (simp add: mp_is_empty_def sample_pool_def)
  then show ?thesis
    using evicts_a_lightest [OF sample_pool_reachable] by (auto simp: sample_config_def)
qed

subsection \<open>Where the weights do not do what is claimed for them\<close>

definition free_parent :: pooled_transaction where
  "free_parent = sample_tx 9 0 [10] [11]"

definition paying_child :: pooled_transaction where
  "paying_child = sample_tx 2 4 [11] [12]"

lemma free_parent_first:
  "mp_add steady_env free_parent (mempool_new sample_config) = Some (Inr (), sample_single free_parent)"
  by (simp add: pool_eval sample_single_def free_parent_def)

lemma paying_child_first:
  "mp_add steady_env paying_child (mempool_new sample_config) = Some (Inr (), sample_single paying_child)"
  by (simp add: pool_eval sample_single_def paying_child_def)

text \<open>The pool does not always list a parent before its child. A parent that pays no fee gets
  exactly the weight of its only child, and the tie is decided by the identifiers, here in
  favour of the child.\<close>

theorem child_before_parent:
  "get_by_weight (add_all steady_env [free_parent, paying_child] (mempool_new sample_config)) 2 =
     [paying_child, free_parent]"
  unfolding add_all_Cons [OF free_parent_first]
  by (simp add: pool_eval sample_single_def free_parent_def paying_child_def get_by_weight_def)

text \<open>When a child arrives before its parent, removing the child takes its weight from the
  parent although it was never added there: the parent is left with a negative weight, below
  that of a transaction that pays nothing.\<close>

theorem orphan_removal_negative_weight:
  "get_weight (remove_state steady_env (ptx_id paying_child)
     (add_all steady_env [paying_child, free_parent] (mempool_new sample_config)))
     (ptx_id free_parent) = Some (- 2048)"
  unfolding add_all_Cons [OF paying_child_first] remove_state_def
  by (simp add: pool_eval sample_single_def free_parent_def paying_child_def)

text \<open>A transaction whose arrival time lies after the present, as after a clock adjustment, is
  taken for expired at once whenever the expiry time is shorter than half of the 64-bit range:
  the subtraction wraps.\<close>

theorem future_arrival_is_expired:
  assumes "now < ptx_arrival_time tx" "unat (tx_expiry_secs config) < 2 ^ 53"
    "unat (ptx_arrival_time tx) - unat now < 2 ^ 63"
  shows "is_expired config now tx"
proof -
  have expiry: "unat (tx_expiry_secs config * 1000) = unat (tx_expiry_secs config) * 1000"
    using assms(2) by (subst unat_word_ariths) (simp add: unat_of_nat)
  have "unat (now - ptx_arrival_time tx) = 2 ^ 64 + unat now - unat (ptx_arrival_time tx)"
    using assms(1) by (simp add: unat_sub_if' word_less_nat_alt)
  then show ?thesis
    using assms expiry by (simp add: is_expired_def word_less_nat_alt)
qed

theorem future_arrival_is_expired_witness:
  "is_expired default_config 1000 (sample_tx 1 1 [] [])"
  by (rule future_arrival_is_expired) (simp_all add: sample_tx_def default_config_def DEFAULT_TX_EXPIRY_SECS_def)

end
