(* ===== verification/Scoring.thy ===== *)
theory Scoring
  imports Prelude F64
begin

text \<open>
  Penalties and scores of peers (\<open>crates/ergo-network/src/penalties.rs\<close> and
  \<open>crates/ergo-network/src/scoring.rs\<close>). Times are readings of the monotonic clock in
  nanoseconds. An operation that reads the clock more than once takes the sequence of its
  readings, so that a delay between two of them is part of the model. Counters are machine
  words and wrap; the reward score is a wrapping 32-bit signed integer.

  The lemmas give the decay of a penalty in closed form, its bounds, the effect of a penalty
  on the decision to ban, and the bounds of the moving average of the response times.
\<close>

subsection \<open>Penalties and rewards\<close>

datatype penalty_reason =
    SlowResponse | MissingResponse | DuplicateMessage | InvalidChecksum | InvalidMessageFormat
  | UnexpectedMessage | InvalidModifier | DeclinedModifier | InvalidTransaction | InvalidBlock
  | SpamDetected | SizeLimitExceeded | ProtocolViolation | MaliciousBehavior

fun penalty :: "penalty_reason \<Rightarrow> u32" where
  "penalty SlowResponse = 2"
| "penalty MissingResponse = 10"
| "penalty DuplicateMessage = 5"
| "penalty InvalidChecksum = 5"
| "penalty InvalidMessageFormat = 20"
| "penalty UnexpectedMessage = 30"
| "penalty InvalidModifier = 50"
| "penalty DeclinedModifier = 40"
| "penalty InvalidTransaction = 80"
| "penalty InvalidBlock = 100"
| "penalty SpamDetected = 150"
| "penalty SizeLimitExceeded = 100"
| "penalty ProtocolViolation = 500"
| "penalty MaliciousBehavior = 1000"

fun is_critical :: "penalty_reason \<Rightarrow> bool" where
  "is_critical ProtocolViolation = True"
| "is_critical MaliciousBehavior = True"
| "is_critical _ = False"

definition BAN_THRESHOLD :: u32 where
  "BAN_THRESHOLD = 500"

definition DECAY_PER_MINUTE :: u32 where
  "DECAY_PER_MINUTE = 10"

definition MAX_PENALTY :: u32 where
  "MAX_PENALTY = 1000"

definition SUCCESSFUL_DELIVERY :: int where
  "SUCCESSFUL_DELIVERY = 1"

definition FAST_RESPONSE :: int where
  "FAST_RESPONSE = 1"

definition MAX_SCORE :: int where
  "MAX_SCORE = 100"

subsection \<open>Scores\<close>

record peer_score =
  sc_penalty :: u32
  sc_last_penalty_time :: nat
  sc_avg_response_time_ms :: u64
  sc_response_count :: u64
  sc_delivered_count :: u64
  sc_failed_count :: u64
  sc_invalid_message_count :: u32
  sc_reward_score :: int
  sc_last_success :: nat

definition minute_ns :: nat where
  "minute_ns = 60 * 10 ^ 9"

definition wrap_i32 :: "int \<Rightarrow> int" where
  "wrap_i32 x = (x + 2 ^ 31) mod 2 ^ 32 - 2 ^ 31"

definition score_new :: "(nat \<Rightarrow> nat) \<Rightarrow> peer_score" where
  "score_new clk =
     \<lparr>sc_penalty = 0, sc_last_penalty_time = clk 0, sc_avg_response_time_ms = 0,
      sc_response_count = 0, sc_delivered_count = 0, sc_failed_count = 0,
      sc_invalid_message_count = 0, sc_reward_score = 0, sc_last_success = clk 1\<rparr>"

text \<open>\<open>minutes as u32\<close> keeps the low 32 bits.\<close>

definition current_penalty :: "nat \<Rightarrow> peer_score \<Rightarrow> u32" where
  "current_penalty now s =
     (let minutes_elapsed = (now - sc_last_penalty_time s) div minute_ns;
          decay = sat_mul_u32 (of_nat minutes_elapsed) DECAY_PER_MINUTE
      in sat_sub_u32 (sc_penalty s) decay)"

definition should_ban :: "nat \<Rightarrow> peer_score \<Rightarrow> bool" where
  "should_ban now s = (BAN_THRESHOLD \<le> current_penalty now s)"

definition apply_penalty_amount :: "(nat \<Rightarrow> nat) \<Rightarrow> u32 \<Rightarrow> peer_score \<Rightarrow> bool \<times> peer_score" where
  "apply_penalty_amount clk amount s =
     (let current = current_penalty (clk 0) s;
          s1 = s\<lparr>sc_penalty := min (sat_add_u32 current amount) MAX_PENALTY,
                 sc_last_penalty_time := clk 1\<rparr>
      in (should_ban (clk 2) s1, s1))"

definition apply_penalty :: "(nat \<Rightarrow> nat) \<Rightarrow> penalty_reason \<Rightarrow> peer_score \<Rightarrow> bool \<times> peer_score" where
  "apply_penalty clk reason s = apply_penalty_amount clk (penalty reason) s"

definition apply_reward :: "nat \<Rightarrow> int \<Rightarrow> peer_score \<Rightarrow> peer_score" where
  "apply_reward now amount s =
     s\<lparr>sc_reward_score := min (wrap_i32 (sc_reward_score s + amount)) MAX_SCORE,
       sc_last_success := now\<rparr>"

definition score_record_delivery :: "nat \<Rightarrow> peer_score \<Rightarrow> peer_score" where
  "score_record_delivery now s =
     apply_reward now SUCCESSFUL_DELIVERY (s\<lparr>sc_delivered_count := sc_delivered_count s + 1\<rparr>)"

definition score_record_failure :: "peer_score \<Rightarrow> peer_score" where
  "score_record_failure s = s\<lparr>sc_failed_count := sc_failed_count s + 1\<rparr>"

definition score_record_response_time :: "nat \<Rightarrow> nat \<Rightarrow> peer_score \<Rightarrow> peer_score" where
  "score_record_response_time now duration s =
     (let new_time = of_nat (duration div 10 ^ 6) :: u64;
          s1 = s\<lparr>sc_avg_response_time_ms :=
                   (if sc_response_count s = 0 then new_time
                    else (sc_avg_response_time_ms s * 7 + new_time) div 8),
                 sc_response_count := sc_response_count s + 1\<rparr>
      in if new_time < 500 then apply_reward now FAST_RESPONSE s1 else s1)"

definition record_invalid_message :: "peer_score \<Rightarrow> peer_score" where
  "record_invalid_message s = s\<lparr>sc_invalid_message_count := sc_invalid_message_count s + 1\<rparr>"

definition score_priority :: "nat \<Rightarrow> peer_score \<Rightarrow> f64" where
  "score_priority now s =
     (let f = (\<lambda>q. round_f64 q);
          response_factor =
            (if sc_avg_response_time_ms s = 0 then f (1 / 2)
             else f64_div (Fin 1) (f64_add (Fin 1)
                    (f64_div (f64_of_int (uint (sc_avg_response_time_ms s))) (Fin 1000))));
          total_requests = sc_delivered_count s + sc_failed_count s;
          reliability_factor =
            (if total_requests = 0 then f (1 / 2)
             else f64_div (f64_of_int (uint (sc_delivered_count s))) (f64_of_int (uint total_requests)));
          penalty_factor =
            f64_sub (Fin 1) (f64_div (f64_of_int (uint (current_penalty now s)))
                               (f64_of_int (uint MAX_PENALTY)));
          reward_factor =
            (if sc_reward_score s \<le> 0 then f (1 / 2)
             else f64_add (f (1 / 2))
                    (f64_mul (f64_div (f64_of_int (sc_reward_score s)) (f64_of_int MAX_SCORE)) (f (1 / 2))))
      in f64_clamp (Fin 0) (Fin 1)
           (f64_add (f64_add (f64_add (f64_mul reliability_factor (f (35 / 100)))
              (f64_mul response_factor (f (30 / 100)))) (f64_mul penalty_factor (f (20 / 100))))
              (f64_mul reward_factor (f (15 / 100)))))"

definition delivery_rate :: "peer_score \<Rightarrow> f64" where
  "delivery_rate s =
     (let total = sc_delivered_count s + sc_failed_count s
      in if total = 0 then Fin 0
         else f64_div (f64_of_int (uint (sc_delivered_count s))) (f64_of_int (uint total)))"

definition time_since_success :: "nat \<Rightarrow> peer_score \<Rightarrow> nat" where
  "time_since_success now s = now - sc_last_success s"

definition score_reset :: "(nat \<Rightarrow> nat) \<Rightarrow> peer_score \<Rightarrow> peer_score" where
  "score_reset clk s = score_new clk"

subsection \<open>Penalties decay, and accumulate up to the cap\<close>

definition minutes_between :: "nat \<Rightarrow> nat \<Rightarrow> nat" where
  "minutes_between t now = (now - t) div minute_ns"

lemma current_penalty_unat:
  assumes "minutes_between (sc_last_penalty_time s) now < 2 ^ 32"
  shows "unat (current_penalty now s) =
    unat (sc_penalty s) - 10 * minutes_between (sc_last_penalty_time s) now"
proof -
  let ?m = "minutes_between (sc_last_penalty_time s) now"
  have "unat (of_nat ?m :: u32) = ?m"
    using assms by (simp add: unat_of_nat)
  then have "unat (current_penalty now s) = unat (sc_penalty s) - min (?m * 10) (2 ^ 32 - 1)"
    by (simp add: current_penalty_def Let_def minutes_between_def unat_sat_sub_u32 unat_sat_mul_u32
        DECAY_PER_MINUTE_def)
  moreover have "unat (sc_penalty s) \<le> 2 ^ 32 - 1"
    using unsigned_less [of "sc_penalty s", where 'a = nat] by simp
  ultimately show ?thesis
    by (auto simp: min_def)
qed

lemma current_penalty_le: "current_penalty now s \<le> sc_penalty s"
  unfolding word_le_nat_alt current_penalty_def Let_def unat_sat_sub_u32 by simp

lemma apply_penalty_amount_unat:
  "unat (sc_penalty (snd (apply_penalty_amount clk amount s))) =
     min (unat (current_penalty (clk 0) s) + unat amount) 1000"
proof -
  have "unat (min (sat_add_u32 a b) MAX_PENALTY) = min (unat a + unat b) 1000" for a b
    by (cases "sat_add_u32 a b \<le> MAX_PENALTY")
       (auto simp: min_def word_le_nat_alt unat_sat_add_u32 MAX_PENALTY_def split: if_splits)
  then show ?thesis
    by (simp add: apply_penalty_amount_def Let_def)
qed

lemma apply_penalty_amount_time:
  "sc_last_penalty_time (snd (apply_penalty_amount clk amount s)) = clk 1"
  "fst (apply_penalty_amount clk amount s) = should_ban (clk 2) (snd (apply_penalty_amount clk amount s))"
  by (simp_all add: apply_penalty_amount_def Let_def)

text \<open>A call that takes less than a minute decides on the penalty it has just recorded.\<close>

lemma apply_penalty_amount_bans:
  assumes "clk 2 - clk 1 < minute_ns"
  shows "fst (apply_penalty_amount clk amount s) \<longleftrightarrow>
    500 \<le> min (unat (current_penalty (clk 0) s) + unat amount) 1000"
proof -
  let ?s = "snd (apply_penalty_amount clk amount s)"
  have "minutes_between (sc_last_penalty_time ?s) (clk 2) = 0"
    using assms by (simp add: minutes_between_def apply_penalty_amount_time(1))
  then have "unat (current_penalty (clk 2) ?s) = unat (sc_penalty ?s)"
    using current_penalty_unat [of ?s "clk 2"] by simp
  then show ?thesis
    using apply_penalty_amount_unat [of clk amount s]
    by (simp add: apply_penalty_amount_time(2) should_ban_def word_le_nat_alt BAN_THRESHOLD_def)
qed

lemma critical_penalty: "is_critical r \<Longrightarrow> 500 \<le> unat (penalty r)"
  by (cases r) auto

text \<open>The moving average stays within the bounds of the times it averages.\<close>

lemma response_time_average_bounds:
  assumes "lo \<le> unat (sc_avg_response_time_ms s)" "unat (sc_avg_response_time_ms s) \<le> hi"
    "lo \<le> duration div 10 ^ 6" "duration div 10 ^ 6 \<le> hi" "hi < 2 ^ 60"
  shows "lo \<le> unat (sc_avg_response_time_ms (score_record_response_time now duration s))
    \<and> unat (sc_avg_response_time_ms (score_record_response_time now duration s)) \<le> hi"
proof -
  define new where "new = duration div 10 ^ 6"
  define avg where "avg = sc_avg_response_time_ms s"
  have unew: "unat (of_nat new :: u64) = new"
    using assms by (simp add: unat_of_nat new_def)
  have "unat (avg * 7 + of_nat new) = unat avg * 7 + new"
    using assms unew by (simp add: unat_word_ariths new_def avg_def)
  then have "unat ((avg * 7 + of_nat new) div 8) = (unat avg * 7 + new) div 8"
    by (simp add: unat_div_distrib)
  moreover have "sc_avg_response_time_ms (score_record_response_time now duration s) =
      (if sc_response_count s = 0 then of_nat new else (avg * 7 + of_nat new) div 8)"
    by (simp add: score_record_response_time_def Let_def apply_reward_def new_def avg_def)
  moreover have "lo \<le> unat avg" "unat avg \<le> hi" "lo \<le> new" "new \<le> hi"
    using assms(1-4) by (simp_all add: new_def avg_def)
  moreover from this have "8 * lo \<le> unat avg * 7 + new" "unat avg * 7 + new \<le> 8 * hi"
    by linarith+
  then have "lo \<le> (unat avg * 7 + new) div 8" "(unat avg * 7 + new) div 8 \<le> hi"
    using div_le_mono [of "8 * lo" _ 8] div_le_mono [of _ "8 * hi" 8] by fastforce+
  ultimately show ?thesis
    using unew by simp
qed

subsection \<open>Properties of the scores\<close>

text \<open>A penalty adds to what is left of the earlier ones, up to the cap of 1000, and from then on
  loses ten points per full minute until it is gone; no later reading within the range of the
  32-bit minute counter is off.\<close>

theorem penalty_decays:
  assumes "minutes_between (clk 1) now < 2 ^ 32"
  shows "unat (current_penalty now (snd (apply_penalty clk reason s))) =
    min (unat (current_penalty (clk 0) s) + unat (penalty reason)) 1000 - 10 * minutes_between (clk 1) now"
  using assms current_penalty_unat [of "snd (apply_penalty clk reason s)" now]
  by (simp add: apply_penalty_def apply_penalty_amount_unat apply_penalty_amount_time(1))

theorem penalty_decays_witness:
  "unat (current_penalty (3 * minute_ns) (snd (apply_penalty (\<lambda>_. 0) InvalidBlock (score_new (\<lambda>_. 0))))) = 70"
  using penalty_decays [of "\<lambda>_. 0" "3 * minute_ns" InvalidBlock "score_new (\<lambda>_. 0)"]
  by (simp add: minutes_between_def minute_ns_def current_penalty_def score_new_def sat_sub_u32_def
      sat_mul_u32_def)

end
