(* ===== verification/Download.thy ===== *)
theory Download
  imports Prelude Containers
begin

text \<open>
  The block download manager (\<open>crates/ergo-sync/src/download.rs\<close>): tasks wait in \<open>pending\<close>, are
  assigned to peers and tracked in \<open>in_flight\<close>, and end in the bounded set of completed
  identifiers or, after too many failures, in \<open>failed\<close>. Times are readings of the monotonic
  clock in nanoseconds, passed to the operations that read it; the order in which the hash
  map of pending tasks is iterated is the argument \<open>iter\<close> of the queries that iterate it.

  The life of a task is a state machine over the mutating operations. Its invariant gives
  the results: no identifier is both pending and completed, a task that is assigned is in
  flight at the same peer, a task that keeps failing is given up after \<open>max_retries\<close> failures,
  a completed block is not queued again while the cache remembers it, and the dispatch of
  ready tasks never exceeds the limit on parallel downloads.
\<close>

declare map_of_eq_Some_iff [simp del] Some_eq_map_of_iff [simp del]

subsection \<open>Data\<close>

type_synonym peer_id = bytes

record download_task =
  task_id :: bytes
  task_type_id :: u8
  task_peer :: "peer_id option"
  task_requested_at :: "nat option"
  task_retries :: u32
  task_failed_peers :: "peer_id list"

definition task_new :: "bytes \<Rightarrow> u8 \<Rightarrow> download_task" where
  "task_new i type_id =
     \<lparr>task_id = i, task_type_id = type_id, task_peer = None, task_requested_at = None,
      task_retries = 0, task_failed_peers = []\<rparr>"

definition peer_failed :: "download_task \<Rightarrow> peer_id \<Rightarrow> bool" where
  "peer_failed t peer = (peer \<in> set (task_failed_peers t))"

definition is_timed_out :: "nat \<Rightarrow> nat \<Rightarrow> download_task \<Rightarrow> bool" where
  "is_timed_out timeout now t =
     (case task_requested_at t of None \<Rightarrow> False | Some at \<Rightarrow> timeout < now - at)"

record download_config =
  max_parallel :: nat
  dl_timeout :: nat
  max_retries :: u32

definition PARALLEL_DOWNLOADS :: nat where
  "PARALLEL_DOWNLOADS = 512"

definition COMPLETED_CACHE_SIZE :: nat where
  "COMPLETED_CACHE_SIZE = 50000"

definition download_config_default :: download_config where
  "download_config_default =
     \<lparr>max_parallel = PARALLEL_DOWNLOADS, dl_timeout = 10 * 10 ^ 9, max_retries = 5\<rparr>"

text \<open>The \<open>LruCache\<close> of completed identifiers, most recently used first.\<close>

definition lru_put :: "nat \<Rightarrow> 'a \<Rightarrow> 'a list \<Rightarrow> 'a list" where
  "lru_put cap k xs = take cap (k # removeAll k xs)"

definition lru_pop :: "'a \<Rightarrow> 'a list \<Rightarrow> 'a list" where
  "lru_pop k xs = removeAll k xs"

record downloader =
  dl_config :: download_config
  dl_pending :: "(bytes \<times> download_task) list"
  dl_in_flight :: "(bytes \<times> peer_id) list"
  dl_completed :: "bytes list"
  dl_failed :: "bytes list"

record download_stats =
  ds_pending :: nat
  ds_in_flight :: nat
  ds_completed :: nat
  ds_failed :: nat

subsection \<open>Operations\<close>

definition downloader_new :: "download_config \<Rightarrow> downloader" where
  "downloader_new config =
     \<lparr>dl_config = config, dl_pending = [], dl_in_flight = [], dl_completed = [], dl_failed = []\<rparr>"

definition queue_one :: "bool \<Rightarrow> download_task \<Rightarrow> downloader \<Rightarrow> downloader" where
  "queue_one force t d =
     (if map_of (dl_in_flight d) (task_id t) \<noteq> None then d
      else if map_of (dl_pending d) (task_id t) \<noteq> None then d
      else if task_id t \<in> set (dl_completed d) \<and> \<not> force then d
      else d\<lparr>dl_completed := (if task_id t \<in> set (dl_completed d)
                              then lru_pop (task_id t) (dl_completed d) else dl_completed d),
             dl_pending := AList.update (task_id t) t (dl_pending d)\<rparr>)"

definition queue_inner :: "bool \<Rightarrow> download_task list \<Rightarrow> downloader \<Rightarrow> downloader" where
  "queue_inner force tasks d = fold (queue_one force) tasks d"

definition dl_queue :: "download_task list \<Rightarrow> downloader \<Rightarrow> downloader" where
  "dl_queue tasks d = queue_inner False tasks d"

definition queue_force :: "download_task list \<Rightarrow> downloader \<Rightarrow> downloader" where
  "queue_force tasks d = queue_inner True tasks d"

definition ready_count :: "nat \<Rightarrow> downloader \<Rightarrow> nat" where
  "ready_count count d = min count (max_parallel (dl_config d) - length (dl_in_flight d))"

definition get_ready_tasks ::
  "(download_task list \<Rightarrow> download_task list) \<Rightarrow> nat \<Rightarrow> downloader \<Rightarrow> download_task list" where
  "get_ready_tasks iter count d =
     take (ready_count count d)
       (filter (\<lambda>t. task_peer t = None) (iter (map snd (dl_pending d))))"

definition get_ready_tasks_for_peer ::
  "(download_task list \<Rightarrow> download_task list) \<Rightarrow> nat \<Rightarrow> peer_id \<Rightarrow> downloader \<Rightarrow> download_task list" where
  "get_ready_tasks_for_peer iter count peer d =
     take (ready_count count d)
       (filter (\<lambda>t. task_peer t = None \<and> \<not> peer_failed t peer) (iter (map snd (dl_pending d))))"

definition get_stuck_tasks ::
  "(download_task list \<Rightarrow> download_task list) \<Rightarrow> peer_id list \<Rightarrow> downloader \<Rightarrow> bytes list" where
  "get_stuck_tasks iter available_peers d =
     (if available_peers = [] then []
      else map task_id (filter (\<lambda>t. task_peer t = None \<and> list_all (peer_failed t) available_peers)
             (iter (map snd (dl_pending d)))))"

definition clear_failed_peers :: "bytes \<Rightarrow> downloader \<Rightarrow> downloader" where
  "clear_failed_peers i d =
     (case map_of (dl_pending d) i of
        None \<Rightarrow> d
      | Some t \<Rightarrow> d\<lparr>dl_pending := AList.update i (t\<lparr>task_failed_peers := []\<rparr>) (dl_pending d)\<rparr>)"

definition dispatch :: "nat \<Rightarrow> bytes \<Rightarrow> peer_id \<Rightarrow> downloader \<Rightarrow> downloader" where
  "dispatch now i peer d =
     d\<lparr>dl_pending :=
         (case map_of (dl_pending d) i of
            None \<Rightarrow> dl_pending d
          | Some t \<Rightarrow>
              AList.update i (t\<lparr>task_peer := Some peer, task_requested_at := Some now\<rparr>) (dl_pending d)),
       dl_in_flight := AList.update i peer (dl_in_flight d)\<rparr>"

definition complete :: "bytes \<Rightarrow> downloader \<Rightarrow> downloader" where
  "complete i d =
     d\<lparr>dl_pending := AList.delete i (dl_pending d),
       dl_in_flight := AList.delete i (dl_in_flight d),
       dl_completed := lru_put COMPLETED_CACHE_SIZE i (dl_completed d)\<rparr>"

definition fail :: "bytes \<Rightarrow> peer_id \<Rightarrow> downloader \<Rightarrow> downloader" where
  "fail i peer d =
     (let d1 = d\<lparr>dl_in_flight := AList.delete i (dl_in_flight d)\<rparr> in
      case map_of (dl_pending d1) i of
        None \<Rightarrow> d1
      | Some t \<Rightarrow>
          let t1 = t\<lparr>task_retries := task_retries t + 1, task_peer := None, task_requested_at := None,
                     task_failed_peers := List.insert peer (task_failed_peers t)\<rparr>
          in if max_retries (dl_config d1) \<le> task_retries t1
             then d1\<lparr>dl_pending := AList.delete i (dl_pending d1),
                     dl_failed := List.insert i (dl_failed d1)\<rparr>
             else d1\<lparr>dl_pending := AList.update i t1 (dl_pending d1)\<rparr>)"

definition check_timeouts :: "nat \<Rightarrow> downloader \<Rightarrow> (bytes \<times> peer_id) list" where
  "check_timeouts now d =
     List.map_filter (\<lambda>(i, t). if is_timed_out (dl_timeout (dl_config d)) now t
                               then map_option (Pair i) (task_peer t) else None) (dl_pending d)"

definition get_in_flight_for_peer :: "peer_id \<Rightarrow> downloader \<Rightarrow> bytes list" where
  "get_in_flight_for_peer peer d = map fst (filter (\<lambda>(i, p). p = peer) (dl_in_flight d))"

definition dl_stats :: "downloader \<Rightarrow> download_stats" where
  "dl_stats d =
     \<lparr>ds_pending = length (dl_pending d), ds_in_flight = length (dl_in_flight d),
      ds_completed = length (dl_completed d), ds_failed = length (dl_failed d)\<rparr>"

definition dl_is_complete :: "downloader \<Rightarrow> bool" where
  "dl_is_complete d = (dl_pending d = [] \<and> dl_in_flight d = [])"

definition uncomplete :: "bytes \<Rightarrow> downloader \<Rightarrow> downloader" where
  "uncomplete i d = d\<lparr>dl_completed := lru_pop i (dl_completed d)\<rparr>"

subsection \<open>The state machine\<close>

text \<open>
  The steps of the synchroniser: fresh tasks are queued, and an identifier is dispatched only
  while its task is pending, as the ready tasks are.
\<close>

definition fresh_task :: "download_task \<Rightarrow> bool" where
  "fresh_task t = (task_peer t = None \<and> task_requested_at t = None \<and> task_retries t = 0)"

inductive dl_step :: "downloader \<Rightarrow> downloader \<Rightarrow> bool" where
  step_queue: "list_all fresh_task tasks \<Longrightarrow> dl_step d (queue_inner force tasks d)"
| step_clear_failed: "dl_step d (clear_failed_peers i d)"
| step_dispatch: "map_of (dl_pending d) i = Some t \<Longrightarrow> dl_step d (dispatch now i peer d)"
| step_complete: "dl_step d (complete i d)"
| step_fail: "dl_step d (fail i peer d)"
| step_uncomplete: "dl_step d (uncomplete i d)"

inductive dl_reachable :: "download_config \<Rightarrow> downloader \<Rightarrow> bool" for config where
  dl_reach_new: "dl_reachable config (downloader_new config)"
| dl_reach_step: "dl_reachable config d \<Longrightarrow> dl_step d d' \<Longrightarrow> dl_reachable config d'"

text \<open>The invariant, one pending task at a time and then for the whole.\<close>

definition task_ok :: "downloader \<Rightarrow> bytes \<Rightarrow> download_task \<Rightarrow> bool" where
  "task_ok d i t =
     (task_id t = i \<and> i \<notin> set (dl_completed d) \<and> task_retries t < max_retries (dl_config d) \<and>
      map_of (dl_in_flight d) i = task_peer t \<and> (task_peer t = None \<longleftrightarrow> task_requested_at t = None))"

definition dl_inv :: "downloader \<Rightarrow> bool" where
  "dl_inv d =
     (distinct (map fst (dl_pending d)) \<and> distinct (map fst (dl_in_flight d)) \<and>
      distinct (dl_completed d) \<and> length (dl_completed d) \<le> COMPLETED_CACHE_SIZE \<and>
      dom (map_of (dl_in_flight d)) \<subseteq> dom (map_of (dl_pending d)) \<and>
      (\<forall>i t. map_of (dl_pending d) i = Some t \<longrightarrow> task_ok d i t))"

lemma dl_invD:
  assumes "dl_inv d" "map_of (dl_pending d) i = Some t"
  shows "task_id t = i" "i \<notin> set (dl_completed d)" "task_retries t < max_retries (dl_config d)"
    "map_of (dl_in_flight d) i = task_peer t" "task_peer t = None \<longleftrightarrow> task_requested_at t = None"
proof -
  have "task_ok d i t"
    using assms unfolding dl_inv_def by blast
  then show "task_id t = i" "i \<notin> set (dl_completed d)" "task_retries t < max_retries (dl_config d)"
    "map_of (dl_in_flight d) i = task_peer t" "task_peer t = None \<longleftrightarrow> task_requested_at t = None"
    by (simp_all add: task_ok_def)
qed

lemma dl_invI:
  assumes "distinct (map fst (dl_pending d))" "distinct (map fst (dl_in_flight d))"
    "distinct (dl_completed d)" "length (dl_completed d) \<le> COMPLETED_CACHE_SIZE"
    "\<And>i p. map_of (dl_in_flight d) i = Some p \<Longrightarrow> map_of (dl_pending d) i \<noteq> None"
    "\<And>i t. map_of (dl_pending d) i = Some t \<Longrightarrow> task_ok d i t"
  shows "dl_inv d"
  using assms unfolding dl_inv_def by (auto simp: dom_def)

lemma dl_inv_flight: "dl_inv d \<Longrightarrow> map_of (dl_in_flight d) i = Some p \<Longrightarrow> map_of (dl_pending d) i \<noteq> None"
  unfolding dl_inv_def by blast

lemma dl_inv_sets:
  assumes "dl_inv d"
  shows "distinct (map fst (dl_pending d))" "distinct (map fst (dl_in_flight d))"
    "distinct (dl_completed d)" "length (dl_completed d) \<le> COMPLETED_CACHE_SIZE"
  using assms by (simp_all add: dl_inv_def)

lemma set_lru_put: "set (lru_put cap k xs) \<subseteq> insert k (set xs)"
  by (auto simp: lru_put_def dest: in_set_takeD)

lemma length_lru_put: "length (lru_put cap k xs) \<le> cap"
  by (simp add: lru_put_def)

lemma distinct_lru_put: "distinct xs \<Longrightarrow> distinct (lru_put cap k xs)"
  unfolding lru_put_def by (intro distinct_take) (simp add: distinct_removeAll)

lemma set_lru_pop [simp]: "set (lru_pop k xs) = set xs - {k}"
  by (simp add: lru_pop_def)

lemma length_lru_pop: "length (lru_pop k xs) \<le> length xs"
  by (simp add: lru_pop_def removeAll_filter_not_eq)

lemma dl_inv_queue_one:
  assumes "dl_inv d" "fresh_task t" "0 < max_retries (dl_config d)"
  shows "dl_inv (queue_one force t d) \<and> dl_config (queue_one force t d) = dl_config d"
proof -
  note s = dl_inv_sets [OF assms(1)]
  have len: "length (lru_pop k (dl_completed d)) \<le> COMPLETED_CACHE_SIZE" for k
    by (rule order_trans [OF length_lru_pop s(4)])
  have "dl_inv (queue_one force t d)"
    by (rule dl_invI; (use assms s len dl_inv_flight [OF assms(1)] dl_invD [OF assms(1)] in
        \<open>auto simp: queue_one_def distinct_update update_conv' lru_pop_def distinct_removeAll
          fresh_task_def task_ok_def split: if_splits\<close>))
  then show ?thesis
    by (simp add: queue_one_def)
qed

lemma dl_inv_queue:
  assumes "dl_inv d" "list_all fresh_task ts" "0 < max_retries (dl_config d)"
  shows "dl_inv (queue_inner force ts d) \<and> dl_config (queue_inner force ts d) = dl_config d"
  using assms unfolding queue_inner_def
proof (induction ts arbitrary: d)
  case (Cons t ts)
  then show ?case
    using dl_inv_queue_one [of d t force] by simp
qed simp

lemma dl_inv_clear_failed:
  assumes "dl_inv d"
  shows "dl_inv (clear_failed_peers i d) \<and> dl_config (clear_failed_peers i d) = dl_config d"
proof (cases "map_of (dl_pending d) i")
  case (Some t)
  have "dl_inv (clear_failed_peers i d)"
    by (rule dl_invI; (use assms Some dl_inv_sets [OF assms] dl_inv_flight [OF assms] dl_invD [OF assms] in
        \<open>auto simp: clear_failed_peers_def distinct_update update_conv' task_ok_def split: if_splits\<close>))
  then show ?thesis
    by (simp add: clear_failed_peers_def Some)
qed (simp add: clear_failed_peers_def assms)

lemma dl_inv_dispatch:
  assumes "dl_inv d" "map_of (dl_pending d) i = Some t"
  shows "dl_inv (dispatch now i peer d) \<and> dl_config (dispatch now i peer d) = dl_config d"
proof -
  have "dl_inv (dispatch now i peer d)"
    by (rule dl_invI; (use assms dl_inv_sets [OF assms(1)] dl_inv_flight [OF assms(1)] dl_invD [OF assms(1)] in
        \<open>auto simp: dispatch_def distinct_update update_conv' task_ok_def split: if_splits\<close>))
  then show ?thesis
    by (simp add: dispatch_def)
qed

lemma dl_inv_complete:
  assumes "dl_inv d"
  shows "dl_inv (complete i d) \<and> dl_config (complete i d) = dl_config d"
proof -
  have "dl_inv (complete i d)"
    by (rule dl_invI; (use dl_inv_sets [OF assms] dl_inv_flight [OF assms] dl_invD [OF assms]
        set_lru_put [of COMPLETED_CACHE_SIZE i "dl_completed d"] in
        \<open>auto simp: complete_def distinct_delete delete_conv' task_ok_def distinct_lru_put
          length_lru_put split: if_splits\<close>))
  then show ?thesis
    by (simp add: complete_def)
qed

lemma dl_inv_uncomplete:
  assumes "dl_inv d"
  shows "dl_inv (uncomplete i d) \<and> dl_config (uncomplete i d) = dl_config d"
proof -
  have len: "length (lru_pop i (dl_completed d)) \<le> COMPLETED_CACHE_SIZE"
    by (rule order_trans [OF length_lru_pop dl_inv_sets(4) [OF assms]])
  have "dl_inv (uncomplete i d)"
    by (rule dl_invI; (use len dl_inv_sets [OF assms] dl_inv_flight [OF assms] dl_invD [OF assms] in
        \<open>auto simp: uncomplete_def task_ok_def lru_pop_def distinct_removeAll\<close>))
  then show ?thesis
    by (simp add: uncomplete_def)
qed

text \<open>The three outcomes of a failure.\<close>

lemma retries_Suc: "(r :: u32) < m \<Longrightarrow> unat (r + 1) = Suc (unat r)"
  using unsigned_less [of m, where 'a = nat] by (simp add: unat_word_ariths word_less_nat_alt)

lemma fail_not_pending:
  "map_of (dl_pending d) i = None \<Longrightarrow> fail i peer d = d\<lparr>dl_in_flight := AList.delete i (dl_in_flight d)\<rparr>"
  by (simp add: fail_def)

definition failed_task :: "peer_id \<Rightarrow> download_task \<Rightarrow> download_task" where
  "failed_task peer t = t\<lparr>task_retries := task_retries t + 1, task_peer := None,
     task_requested_at := None, task_failed_peers := List.insert peer (task_failed_peers t)\<rparr>"

lemma fail_pending:
  assumes "map_of (dl_pending d) i = Some t"
  shows "fail i peer d =
    (if max_retries (dl_config d) \<le> task_retries t + 1
     then d\<lparr>dl_in_flight := AList.delete i (dl_in_flight d),
            dl_pending := AList.delete i (dl_pending d), dl_failed := List.insert i (dl_failed d)\<rparr>
     else d\<lparr>dl_in_flight := AList.delete i (dl_in_flight d),
            dl_pending := AList.update i (failed_task peer t) (dl_pending d)\<rparr>)"
  using assms by (simp add: fail_def failed_task_def Let_def)

lemma dl_inv_fail:
  assumes "dl_inv d"
  shows "dl_inv (fail i peer d) \<and> dl_config (fail i peer d) = dl_config d"
proof (cases "map_of (dl_pending d) i")
  case None
  have "dl_inv (fail i peer d)"
    by (rule dl_invI; (use None dl_inv_sets [OF assms] dl_inv_flight [OF assms] dl_invD [OF assms] in
        \<open>auto simp: fail_not_pending distinct_delete delete_conv' task_ok_def split: if_splits\<close>))
  then show ?thesis
    by (simp add: fail_not_pending None)
next
  case (Some t)
  have "dl_inv (fail i peer d)"
    by (rule dl_invI; (use Some dl_inv_sets [OF assms] dl_inv_flight [OF assms] dl_invD [OF assms] in
        \<open>auto simp: fail_pending [OF Some] failed_task_def distinct_delete distinct_update delete_conv'
          update_conv' task_ok_def split: if_splits\<close>))
  then show ?thesis
    by (simp add: fail_pending [OF Some])
qed

lemma dl_reachable_inv:
  assumes "dl_reachable config d" "0 < max_retries config"
  shows "dl_inv d \<and> dl_config d = config"
  using assms
proof (induction rule: dl_reachable.induct)
  case dl_reach_new
  then show ?case
    by (simp add: dl_inv_def downloader_new_def)
next
  case (dl_reach_step d d')
  from dl_reach_step(2) show ?case
    using dl_reach_step.IH [OF dl_reach_step.prems] dl_reach_step.prems
      dl_inv_queue dl_inv_clear_failed dl_inv_dispatch dl_inv_complete dl_inv_fail dl_inv_uncomplete
    by (cases rule: dl_step.cases) auto
qed

lemma fail_gives_up:
  assumes "dl_inv d" "map_of (dl_pending d) i = Some t" "dl_config d = config"
    "unat (max_retries config) \<le> unat (task_retries t) + length peers"
  shows "map_of (dl_pending (fold (fail i) peers d)) i = None \<and> i \<in> set (dl_failed (fold (fail i) peers d))"
  using assms
proof (induction peers arbitrary: d t)
  case Nil
  then show ?case
    using dl_invD(3) [OF Nil(1,2)] by (simp add: word_less_nat_alt)
next
  case (Cons p ps)
  have gone: "map_of (dl_pending (fold (fail i) qs c)) i = None \<and> i \<in> set (dl_failed (fold (fail i) qs c))"
    if "map_of (dl_pending c) i = None" "i \<in> set (dl_failed c)" for qs c
    using that by (induction qs arbitrary: c) (auto simp: fail_not_pending)
  note inv = dl_inv_fail [OF Cons.prems(1), of i p]
  note retries = retries_Suc [OF dl_invD(3) [OF Cons.prems(1,2)]]
  show ?case
  proof (cases "max_retries config \<le> task_retries t + 1")
    case True
    then have "map_of (dl_pending (fail i p d)) i = None" "i \<in> set (dl_failed (fail i p d))"
      using Cons.prems by (simp_all add: fail_pending delete_conv')
    then show ?thesis
      using gone by simp
  next
    case False
    then have "map_of (dl_pending (fail i p d)) i = Some (failed_task p t)"
      using Cons.prems by (simp add: fail_pending update_conv')
    then show ?thesis
      using Cons.IH [of "fail i p d" "failed_task p t"] inv Cons.prems(3,4) retries
      by (simp add: failed_task_def)
  qed
qed

lemma ready_task_pending:
  assumes "dl_inv d" "\<And>ts. set (iter ts) = set ts" "t \<in> set (get_ready_tasks_for_peer iter count peer d)"
  shows "map_of (dl_pending d) (task_id t) = Some t \<and> task_peer t = None \<and> \<not> peer_failed t peer"
proof -
  have "t \<in> set (map snd (dl_pending d))" "task_peer t = None" "\<not> peer_failed t peer"
    using in_set_takeD [OF assms(3) [unfolded get_ready_tasks_for_peer_def]] assms(2) by auto
  then show ?thesis
    using map_of_values [OF dl_inv_sets(1) [OF assms(1)], of t] dl_invD(1) [OF assms(1)] by blast
qed

lemma fold_dispatch_length:
  assumes "distinct (map fst (dl_in_flight d))"
  shows "length (dl_in_flight (fold (\<lambda>t. dispatch now (task_id t) peer) ts d)) \<le>
    length (dl_in_flight d) + length ts"
  using assms
proof (induction ts arbitrary: d)
  case (Cons t ts)
  then show ?case
    using Cons.IH [of "dispatch now (task_id t) peer d"]
    by (auto simp: dispatch_def distinct_update length_update split: if_splits)
qed simp

lemma lru_remembers:
  assumes "i \<in> set xs" "i \<notin> set js"
  shows "length (takeWhile (\<lambda>x. x \<noteq> i) xs) + length js < cap \<Longrightarrow>
    i \<in> set (fold (lru_put cap) js xs)"
  using assms
proof (induction js arbitrary: xs)
  case (Cons j js)
  define pre where "pre = takeWhile (\<lambda>x. x \<noteq> i) xs"
  have bound: "Suc (length pre + length js) < cap"
    using Cons.prems(1) by (simp add: pre_def)
  obtain post where xs: "xs = pre @ i # post"
    using Cons.prems(2) takeWhile_dropWhile_id [of "\<lambda>x. x \<noteq> i" xs] hd_dropWhile [of "\<lambda>x. x \<noteq> i" xs]
    unfolding pre_def by (metis (mono_tags, lifting) dropWhile_eq_Nil_conv list.collapse)
  have pre: "i \<notin> set pre"
    using set_takeWhileD [of i "\<lambda>x. x \<noteq> i" xs] by (auto simp: pre_def)
  have shorter: "length (removeAll j pre) \<le> length pre"
    by (simp add: removeAll_filter_not_eq)
  have "Suc (Suc (length (removeAll j pre))) \<le> cap"
    using bound shorter by linarith
  then obtain n where "cap = Suc (Suc (length (removeAll j pre))) + n"
    using le_Suc_ex by blast
  then have "lru_put cap j xs = j # removeAll j pre @ i # take n (removeAll j post)"
    using Cons.prems(3) by (auto simp: lru_put_def xs)
  moreover have "takeWhile (\<lambda>x. x \<noteq> i) (j # removeAll j pre @ i # ys) = j # removeAll j pre" for ys
    using pre Cons.prems(3) by (auto simp: takeWhile_append)
  ultimately show ?case
    using Cons.IH [of "lru_put cap j xs"] Cons.prems(3) bound shorter
    by simp
qed simp

subsection \<open>Properties of the downloader\<close>

text \<open>C28: in every state of the downloader, no identifier is both pending and completed, a pending
  task is in flight at exactly the peer it is assigned to, every request in flight belongs to
  a pending task, no pending task has used up its retries, and the cache of completed
  identifiers is within its bound.\<close>

theorem downloader_consistent:
  assumes "dl_reachable config d" "0 < max_retries config"
  shows "(\<forall>i t. map_of (dl_pending d) i = Some t \<longrightarrow>
            i \<notin> set (dl_completed d) \<and> map_of (dl_in_flight d) i = task_peer t \<and>
            task_retries t < max_retries config)
    \<and> (\<forall>i p. map_of (dl_in_flight d) i = Some p \<longrightarrow> (\<exists>t. map_of (dl_pending d) i = Some t))
    \<and> length (dl_completed d) \<le> COMPLETED_CACHE_SIZE"
proof -
  have inv: "dl_inv d" "dl_config d = config"
    using dl_reachable_inv [OF assms] by auto
  then show ?thesis
    using dl_invD(2-4) [OF inv(1)] dl_inv_flight [OF inv(1)] dl_inv_sets(4) [OF inv(1)]
    by (metis option.exhaust)
qed

definition sample_downloader :: downloader where
  "sample_downloader =
     dispatch 0 [1] [7] (queue_inner False [task_new [1] 102] (downloader_new download_config_default))"

lemma sample_downloader_eval:
  "map_of (dl_pending sample_downloader) [1] =
     Some ((task_new [1] 102)\<lparr>task_peer := Some [7], task_requested_at := Some 0\<rparr>)"
  by (simp add: sample_downloader_def dispatch_def queue_inner_def queue_one_def downloader_new_def
      task_new_def)

lemma sample_downloader_reachable: "dl_reachable download_config_default sample_downloader"
  unfolding sample_downloader_def
proof (rule dl_reach_step [OF dl_reach_step [OF dl_reach_new]])
  show "dl_step (downloader_new download_config_default)
      (queue_inner False [task_new [1] 102] (downloader_new download_config_default))"
    by (rule step_queue) (simp add: fresh_task_def task_new_def)
  show "dl_step (queue_inner False [task_new [1] 102] (downloader_new download_config_default))
      (dispatch 0 [1] [7] (queue_inner False [task_new [1] 102] (downloader_new download_config_default)))"
    by (rule step_dispatch [of _ _ "task_new [1] 102"])
       (simp add: queue_inner_def queue_one_def downloader_new_def task_new_def)
qed

theorem downloader_consistent_witness:
  "map_of (dl_in_flight sample_downloader) [1] = Some [7] \<and> [1] \<notin> set (dl_completed sample_downloader)"
  using downloader_consistent [OF sample_downloader_reachable] sample_downloader_eval
  by (simp add: download_config_default_def)

text \<open>The tasks offered for a peer are pending, unassigned and have not failed at that peer,
  and dispatching all of them keeps the number of requests in flight within the limit on
  parallel downloads, whatever the order of the hash map.\<close>

theorem ready_tasks_within_limit:
  fixes count :: nat and peer :: peer_id
  assumes "dl_reachable config d" "0 < max_retries config"
    "length (dl_in_flight d) \<le> max_parallel config" "\<And>ts. set (iter ts) = set ts"
  defines "ready \<equiv> get_ready_tasks_for_peer iter count peer d"
  shows "(\<forall>t \<in> set ready. map_of (dl_pending d) (task_id t) = Some t \<and> task_peer t = None \<and>
            \<not> peer_failed t peer)
    \<and> length ready \<le> count
    \<and> length (dl_in_flight (fold (\<lambda>t. dispatch now (task_id t) peer) ready d)) \<le> max_parallel config"
proof -
  have inv: "dl_inv d" "dl_config d = config"
    using dl_reachable_inv [OF assms(1,2)] by auto
  have "map_of (dl_pending d) (task_id t) = Some t \<and> task_peer t = None \<and> \<not> peer_failed t peer"
    if "t \<in> set ready" for t
    using ready_task_pending [OF inv(1) assms(4)] that by (simp add: ready_def)
  moreover have "length ready \<le> count" "length (dl_in_flight d) + length ready \<le> max_parallel config"
    using assms(3) inv(2) by (auto simp: ready_def get_ready_tasks_for_peer_def ready_count_def)
  ultimately show ?thesis
    using fold_dispatch_length [OF dl_inv_sets(2) [OF inv(1)], of now peer ready] by auto
qed

theorem ready_tasks_within_limit_witness:
  "length (get_ready_tasks_for_peer (\<lambda>ts. ts) 3 [8] sample_downloader) \<le> 3"
  using ready_tasks_within_limit [OF sample_downloader_reachable, of "\<lambda>ts. ts" 3 "[8]"]
  by (simp add: download_config_default_def sample_downloader_def dispatch_def queue_inner_def
      queue_one_def downloader_new_def task_new_def PARALLEL_DOWNLOADS_def)

text \<open>A block that keeps failing is given up: after as many failures as the configuration
  allows retries, counted with those the task already had, it is no longer pending and is
  recorded as failed, whichever peers failed it.\<close>

theorem download_given_up:
  assumes "dl_reachable config d" "map_of (dl_pending d) i = Some t" "0 < max_retries config"
    "unat (max_retries config) \<le> unat (task_retries t) + length peers"
  shows "map_of (dl_pending (fold (fail i) peers d)) i = None \<and>
    i \<in> set (dl_failed (fold (fail i) peers d))"
  using dl_reachable_inv [OF assms(1,3)] fail_gives_up assms(2,4) by blast

theorem download_given_up_witness:
  "[1] \<in> set (dl_failed (fold (fail [1]) [[7], [8], [7], [9], [7]] sample_downloader))"
  using download_given_up [OF sample_downloader_reachable sample_downloader_eval,
      of "[[7], [8], [7], [9], [7]]"]
  by (simp add: download_config_default_def task_new_def)

text \<open>A completed block is not requested again: as long as fewer than 49999 other blocks have
  been completed since, queueing it without force leaves the downloader as it is.\<close>

theorem completed_not_requeued:
  fixes d :: downloader
  assumes "task_id t \<notin> set others" "length others < COMPLETED_CACHE_SIZE - 1"
  defines "d' \<equiv> fold complete others (complete (task_id t) d)"
  shows "dl_queue [t] d' = d'"
proof -
  have completed: "dl_completed (fold complete js c) = fold (lru_put COMPLETED_CACHE_SIZE) js (dl_completed c)"
    for js c by (induction js arbitrary: c) (simp_all add: complete_def)
  obtain ys where ys: "dl_completed (complete (task_id t) d) = task_id t # ys"
    by (simp add: complete_def lru_put_def COMPLETED_CACHE_SIZE_def)
  have "task_id t \<in> set (fold (lru_put COMPLETED_CACHE_SIZE) others (task_id t # ys))"
    using assms(1,2) by (intro lru_remembers) auto
  then have "task_id t \<in> set (dl_completed d')"
    by (simp add: d'_def completed ys)
  then show ?thesis
    by (simp add: dl_queue_def queue_inner_def queue_one_def)
qed

theorem completed_not_requeued_witness:
  "dl_queue [task_new [1] 102] (fold complete [[2], [3]] (complete [1] sample_downloader)) =
     fold complete [[2], [3]] (complete [1] sample_downloader)"
  using completed_not_requeued [of "task_new [1] 102" "[[2], [3]]" sample_downloader]
  by (simp add: task_new_def COMPLETED_CACHE_SIZE_def)

text \<open>Dispatching an identifier that is no longer pending, as when the block arrives between
  the selection of the task and its dispatch, leaves an entry in flight that no timeout
  reports, and from then on the identifier is refused by \<open>queue\<close> and by \<open>queue_force\<close>.\<close>

theorem stale_dispatch_blocks_requeue:
  fixes now :: nat and peer :: peer_id
  assumes "map_of (dl_pending d) i = None" "task_id t = i"
  defines "d' \<equiv> dispatch now i peer d"
  shows "i \<notin> fst ` set (check_timeouts later d') \<and> queue_force [t] d' = d' \<and> dl_queue [t] d' = d'
    \<and> \<not> dl_is_complete d'"
proof -
  have "map_of (dl_in_flight d') i = Some peer" "dl_pending d' = dl_pending d"
    using assms(1) by (simp_all add: d'_def dispatch_def update_conv')
  moreover have "i \<notin> fst ` set (dl_pending d)"
    using assms(1) by (simp add: map_of_eq_None_iff)
  then have "i \<notin> fst ` set (check_timeouts later d')"
    using calculation(2) by (force simp: check_timeouts_def List.map_filter_def split: if_splits)
  ultimately show ?thesis
    using assms(2) by (auto simp: queue_force_def dl_queue_def queue_inner_def queue_one_def dl_is_complete_def)
qed

theorem stale_dispatch_blocks_requeue_witness:
  "queue_force [task_new [1] 102] (dispatch 5 [1] [8] (complete [1] sample_downloader)) =
     dispatch 5 [1] [8] (complete [1] sample_downloader)"
  using stale_dispatch_blocks_requeue [where d = "complete [1] sample_downloader" and i = "[1]"
      and t = "task_new [1] 102" and now = 5 and peer = "[8]"]
  by (simp add: complete_def delete_conv' task_new_def)

end
