(* ===== verification/Peers.thy ===== *)
theory Peers
  imports Scoring Containers Mempool_Order Download Handshake
begin

text \<open>
  The peer manager (\<open>crates/ergo-network/src/peer.rs\<close>) and the table of declined modifiers
  (\<open>crates/ergo-network/src/decline.rs\<close>). Hash maps are association lists; a query that
  iterates one takes the iteration order as an argument. Times are readings of the monotonic
  clock in nanoseconds.

  The locks of the maps matter in one place: \<open>is_banned\<close> removes an expired ban while it still
  holds the reference it found the ban with. The documentation of \<open>DashMap\<close> says that removal
  then blocks, so the model of \<open>is_banned\<close> is partial and \<open>None\<close> stands for a call that does
  not return.
\<close>

declare map_of_eq_Some_iff [simp del] Some_eq_map_of_iff [simp del]

subsection \<open>Data\<close>

type_synonym socket_addr = "ip_addr \<times> u16"

datatype peer_state = Disconnected | Connecting | Handshaking | Connected | Banned

record peer_info =
  pi_id :: peer_id
  pi_addr :: socket_addr
  pi_state :: peer_state
  pi_version :: "(u8 \<times> u8 \<times> u8) option"
  pi_agent :: "string option"
  pi_height :: u32
  pi_score :: peer_score
  pi_last_seen :: nat
  pi_outbound :: bool

record peer_manager_config =
  max_connections :: nat
  max_outbound :: nat
  ban_duration :: nat
  min_sync_peers :: nat

definition peer_manager_config_default :: peer_manager_config where
  "peer_manager_config_default =
     \<lparr>max_connections = 30, max_outbound = 10, ban_duration = 3600 * 10 ^ 9, min_sync_peers = 5\<rparr>"

record peer_manager =
  pm_config :: peer_manager_config
  pm_peers :: "(peer_id \<times> peer_info) list"
  pm_connected :: "peer_id list"
  pm_banned :: "(socket_addr \<times> nat) list"

text \<open>\<open>PeerId::from_addr\<close> is the text of the address, which \<open>show_addr\<close> gives.\<close>

definition peer_info_new ::
  "(socket_addr \<Rightarrow> peer_id) \<Rightarrow> (nat \<Rightarrow> nat) \<Rightarrow> socket_addr \<Rightarrow> bool \<Rightarrow> peer_info" where
  "peer_info_new show_addr clk addr outbound =
     \<lparr>pi_id = show_addr addr, pi_addr = addr, pi_state = Disconnected, pi_version = None,
      pi_agent = None, pi_height = 0, pi_score = score_new clk, pi_last_seen = clk 2,
      pi_outbound = outbound\<rparr>"

subsection \<open>Operations of the manager\<close>

definition manager_new :: "peer_manager_config \<Rightarrow> peer_manager" where
  "manager_new config = \<lparr>pm_config = config, pm_peers = [], pm_connected = [], pm_banned = []\<rparr>"

definition add_peer :: "peer_info \<Rightarrow> peer_manager \<Rightarrow> peer_manager" where
  "add_peer info m = m\<lparr>pm_peers := AList.update (pi_id info) info (pm_peers m)\<rparr>"

definition get_peer :: "peer_manager \<Rightarrow> peer_id \<Rightarrow> peer_info option" where
  "get_peer m i = map_of (pm_peers m) i"

text \<open>Every update of a known peer goes through \<open>get_mut\<close>; an unknown peer is left alone.\<close>

definition update_peer :: "peer_id \<Rightarrow> (peer_info \<Rightarrow> peer_info) \<Rightarrow> peer_manager \<Rightarrow> peer_manager" where
  "update_peer i f m =
     (case get_peer m i of
        None \<Rightarrow> m
      | Some p \<Rightarrow> m\<lparr>pm_peers := AList.update i (f p) (pm_peers m)\<rparr>)"

definition set_state :: "nat \<Rightarrow> peer_id \<Rightarrow> peer_state \<Rightarrow> peer_manager \<Rightarrow> peer_manager" where
  "set_state now i st m =
     (case get_peer m i of
        None \<Rightarrow> m
      | Some p \<Rightarrow>
          let m1 = update_peer i (\<lambda>p. p\<lparr>pi_state := st, pi_last_seen := now\<rparr>) m
          in case st of
               Connected \<Rightarrow> m1\<lparr>pm_connected := List.insert i (pm_connected m1)\<rparr>
             | Disconnected \<Rightarrow> m1\<lparr>pm_connected := removeAll i (pm_connected m1)\<rparr>
             | Banned \<Rightarrow> m1\<lparr>pm_connected := removeAll i (pm_connected m1)\<rparr>
             | _ \<Rightarrow> m1)"

definition set_height :: "nat \<Rightarrow> peer_id \<Rightarrow> u32 \<Rightarrow> peer_manager \<Rightarrow> peer_manager" where
  "set_height now i h m = update_peer i (\<lambda>p. p\<lparr>pi_height := h, pi_last_seen := now\<rparr>) m"

definition penalize_amount ::
  "(nat \<Rightarrow> nat) \<Rightarrow> peer_id \<Rightarrow> u32 \<Rightarrow> peer_manager \<Rightarrow> bool \<times> peer_manager" where
  "penalize_amount clk i amount m =
     (case get_peer m i of
        None \<Rightarrow> (False, m)
      | Some p \<Rightarrow>
          let (ban, sc) = apply_penalty_amount clk amount (pi_score p)
          in if ban
             then (True, (update_peer i (\<lambda>p. p\<lparr>pi_score := sc, pi_state := Banned\<rparr>) m)
                     \<lparr>pm_connected := removeAll i (pm_connected m),
                      pm_banned := AList.update (pi_addr p) (clk 3 + ban_duration (pm_config m))
                                     (pm_banned m)\<rparr>)
             else (False, update_peer i (\<lambda>p. p\<lparr>pi_score := sc\<rparr>) m))"

definition penalize ::
  "(nat \<Rightarrow> nat) \<Rightarrow> peer_id \<Rightarrow> penalty_reason \<Rightarrow> peer_manager \<Rightarrow> bool \<times> peer_manager" where
  "penalize clk i reason m = penalize_amount clk i (penalty reason) m"

definition update_score :: "peer_id \<Rightarrow> (peer_score \<Rightarrow> peer_score) \<Rightarrow> peer_manager \<Rightarrow> peer_manager" where
  "update_score i f m = update_peer i (\<lambda>p. p\<lparr>pi_score := f (pi_score p)\<rparr>) m"

definition reward :: "nat \<Rightarrow> peer_id \<Rightarrow> int \<Rightarrow> peer_manager \<Rightarrow> peer_manager" where
  "reward now i amount m = update_score i (apply_reward now amount) m"

definition record_delivery :: "nat \<Rightarrow> peer_id \<Rightarrow> peer_manager \<Rightarrow> peer_manager" where
  "record_delivery now i m = update_score i (score_record_delivery now) m"

definition record_failure :: "peer_id \<Rightarrow> peer_manager \<Rightarrow> peer_manager" where
  "record_failure i m = update_score i score_record_failure m"

definition record_response_time :: "nat \<Rightarrow> peer_id \<Rightarrow> nat \<Rightarrow> peer_manager \<Rightarrow> peer_manager" where
  "record_response_time now i duration m = update_score i (score_record_response_time now duration) m"

definition is_banned :: "nat \<Rightarrow> socket_addr \<Rightarrow> peer_manager \<Rightarrow> bool option" where
  "is_banned now addr m =
     (case map_of (pm_banned m) addr of
        None \<Rightarrow> Some False
      | Some unban_time \<Rightarrow> if now < unban_time then Some True else None)"

definition unban ::
  "(peer_id list \<Rightarrow> peer_id list) \<Rightarrow> (nat \<Rightarrow> nat) \<Rightarrow> socket_addr \<Rightarrow> peer_manager \<Rightarrow> peer_manager" where
  "unban iter clk addr m =
     (let m1 = m\<lparr>pm_banned := AList.delete addr (pm_banned m)\<rparr> in
      case find (\<lambda>i. map_option pi_addr (get_peer m i) = Some addr) (iter (map fst (pm_peers m))) of
        None \<Rightarrow> m1
      | Some i \<Rightarrow>
          update_peer i
            (\<lambda>p. p\<lparr>pi_score := score_reset clk (pi_score p),
                   pi_state := (if pi_state p = Banned then Disconnected else pi_state p)\<rparr>) m1)"

definition cleanup_expired_bans :: "nat \<Rightarrow> peer_manager \<Rightarrow> peer_manager" where
  "cleanup_expired_bans now m =
     m\<lparr>pm_banned := filter (\<lambda>(addr, unban_time). now < unban_time) (pm_banned m)\<rparr>"

definition connected_count :: "peer_manager \<Rightarrow> nat" where
  "connected_count m = length (pm_connected m)"

definition outbound_count :: "peer_manager \<Rightarrow> nat" where
  "outbound_count m =
     length (filter (\<lambda>i. case get_peer m i of None \<Rightarrow> False | Some p \<Rightarrow> pi_outbound p) (pm_connected m))"

definition can_accept :: "peer_manager \<Rightarrow> bool" where
  "can_accept m = (connected_count m < max_connections (pm_config m))"

definition can_connect_outbound :: "peer_manager \<Rightarrow> bool" where
  "can_connect_outbound m = (outbound_count m < max_outbound (pm_config m))"

text \<open>The lazy iteration of \<open>get_peers_to_connect\<close>: it asks for bans until it has enough peers.\<close>

fun peers_to_connect ::
  "nat \<Rightarrow> peer_manager \<Rightarrow> nat \<Rightarrow> peer_info list \<Rightarrow> socket_addr list option" where
  "peers_to_connect now m 0 ps = Some []"
| "peers_to_connect now m (Suc n) [] = Some []"
| "peers_to_connect now m (Suc n) (p # ps) =
     (if pi_state p \<noteq> Disconnected then peers_to_connect now m (Suc n) ps
      else case is_banned now (pi_addr p) m of
             None \<Rightarrow> None
           | Some True \<Rightarrow> peers_to_connect now m (Suc n) ps
           | Some False \<Rightarrow> map_option ((#) (pi_addr p)) (peers_to_connect now m n ps))"

definition get_peers_to_connect ::
  "(peer_info list \<Rightarrow> peer_info list) \<Rightarrow> nat \<Rightarrow> nat \<Rightarrow> peer_manager \<Rightarrow> socket_addr list option" where
  "get_peers_to_connect iter now count m = peers_to_connect now m count (iter (map snd (pm_peers m)))"

definition get_connected :: "(peer_id list \<Rightarrow> peer_id list) \<Rightarrow> peer_manager \<Rightarrow> peer_info list" where
  "get_connected iter m = List.map_filter (get_peer m) (iter (pm_connected m))"

text \<open>\<open>Iterator::max_by_key\<close> returns the last of the largest.\<close>

fun max_by_height :: "peer_info list \<Rightarrow> peer_info option" where
  "max_by_height [] = None"
| "max_by_height (p # ps) =
     (case max_by_height ps of
        None \<Rightarrow> Some p
      | Some q \<Rightarrow> if pi_height q < pi_height p then Some p else Some q)"

definition get_best_peer :: "(peer_id list \<Rightarrow> peer_id list) \<Rightarrow> peer_manager \<Rightarrow> peer_info option" where
  "get_best_peer iter m = max_by_height (get_connected iter m)"

text \<open>\<open>slice::sort_by\<close> is stable: an element goes in front of the first one that is greater.\<close>

fun insert_by :: "('a \<Rightarrow> 'a \<Rightarrow> ordering) \<Rightarrow> 'a \<Rightarrow> 'a list \<Rightarrow> 'a list" where
  "insert_by cmp x [] = [x]"
| "insert_by cmp x (y # ys) = (if cmp x y = Greater then y # insert_by cmp x ys else x # y # ys)"

definition sort_by :: "('a \<Rightarrow> 'a \<Rightarrow> ordering) \<Rightarrow> 'a list \<Rightarrow> 'a list" where
  "sort_by cmp xs = foldr (insert_by cmp) xs []"

definition priority_cmp :: "nat \<Rightarrow> peer_info \<Rightarrow> peer_info \<Rightarrow> ordering" where
  "priority_cmp now a b =
     (case f64_partial_cmp (score_priority now (pi_score b)) (score_priority now (pi_score a)) of
        None \<Rightarrow> Equal | Some c \<Rightarrow> c)"

definition get_sync_peers ::
  "(peer_id list \<Rightarrow> peer_id list) \<Rightarrow> nat \<Rightarrow> nat \<Rightarrow> peer_manager \<Rightarrow> peer_info list" where
  "get_sync_peers iter now max_count m =
     take max_count (sort_by (priority_cmp now)
       (filter (\<lambda>p. \<not> should_ban now (pi_score p)) (get_connected iter m)))"

definition get_peers_with_height ::
  "(peer_id list \<Rightarrow> peer_id list) \<Rightarrow> u32 \<Rightarrow> peer_manager \<Rightarrow> peer_info list" where
  "get_peers_with_height iter min_height m = filter (\<lambda>p. min_height < pi_height p) (get_connected iter m)"

definition get_peers_by_height ::
  "(peer_id list \<Rightarrow> peer_id list) \<Rightarrow> nat \<Rightarrow> peer_manager \<Rightarrow> peer_info list" where
  "get_peers_by_height iter max_count m =
     take max_count (sort_by (\<lambda>a b. compare_lin (pi_height b) (pi_height a)) (get_connected iter m))"

subsection \<open>Declined modifiers\<close>

record decline_entry =
  de_added_at :: nat
  de_reason :: string

record decline_table =
  dt_entries :: "(bytes \<times> decline_entry) list"
  dt_ttl :: nat
  dt_max_size :: nat

definition decline_new :: "nat \<Rightarrow> nat \<Rightarrow> decline_table" where
  "decline_new max_entries ttl = \<lparr>dt_entries = [], dt_ttl = ttl, dt_max_size = max_entries\<rparr>"

definition decline_defaults :: decline_table where
  "decline_defaults = decline_new 10000 (600 * 10 ^ 9)"

definition decline_cleanup :: "nat \<Rightarrow> decline_table \<Rightarrow> decline_table" where
  "decline_cleanup now d =
     d\<lparr>dt_entries := filter (\<lambda>(i, e). now - de_added_at e < dt_ttl d) (dt_entries d)\<rparr>"

definition decline :: "(nat \<Rightarrow> nat) \<Rightarrow> bytes \<Rightarrow> string \<Rightarrow> decline_table \<Rightarrow> decline_table" where
  "decline clk i reason d =
     (let d1 = (if dt_max_size d \<le> length (dt_entries d) then decline_cleanup (clk 0) d else d)
      in d1\<lparr>dt_entries :=
              AList.update i \<lparr>de_added_at = clk 1, de_reason = reason\<rparr> (dt_entries d1)\<rparr>)"

definition is_declined :: "nat \<Rightarrow> bytes \<Rightarrow> decline_table \<Rightarrow> string option" where
  "is_declined now i d =
     (case map_of (dt_entries d) i of
        None \<Rightarrow> None
      | Some e \<Rightarrow> if now - de_added_at e < dt_ttl d then Some (de_reason e) else None)"

definition decline_contains :: "nat \<Rightarrow> bytes \<Rightarrow> decline_table \<Rightarrow> bool" where
  "decline_contains now i d = (is_declined now i d \<noteq> None)"

definition decline_len :: "decline_table \<Rightarrow> nat" where
  "decline_len d = length (dt_entries d)"

definition decline_clear :: "decline_table \<Rightarrow> decline_table" where
  "decline_clear d = d\<lparr>dt_entries := []\<rparr>"

definition decline_remove :: "bytes \<Rightarrow> decline_table \<Rightarrow> decline_table" where
  "decline_remove i d = d\<lparr>dt_entries := AList.delete i (dt_entries d)\<rparr>"

subsection \<open>Invariant of the manager\<close>

text \<open>
  The connected peers are known, without repetition, none of them is marked as banned, and
  every peer marked as connected is among them.
\<close>

definition pm_inv :: "peer_manager \<Rightarrow> bool" where
  "pm_inv m =
     (distinct (pm_connected m) \<and> distinct (map fst (pm_banned m)) \<and>
      (\<forall>i \<in> set (pm_connected m). \<exists>p. get_peer m i = Some p \<and> pi_state p \<noteq> Banned) \<and>
      (\<forall>i p. get_peer m i = Some p \<and> pi_state p = Connected \<longrightarrow> i \<in> set (pm_connected m)))"

lemma pm_invD:
  assumes "pm_inv m"
  shows "distinct (pm_connected m)" "distinct (map fst (pm_banned m))"
    "\<And>j. j \<in> set (pm_connected m) \<Longrightarrow> \<exists>q. get_peer m j = Some q \<and> pi_state q \<noteq> Banned"
    "\<And>j q. get_peer m j = Some q \<Longrightarrow> pi_state q = Connected \<Longrightarrow> j \<in> set (pm_connected m)"
  using assms unfolding pm_inv_def by blast+

lemma get_peer_update [simp]:
  "get_peer (update_peer i f m) j = (if i = j then map_option f (get_peer m i) else get_peer m j)"
  by (auto simp: update_peer_def get_peer_def update_conv' split: option.split)

lemma update_peer_rest [simp]:
  "pm_connected (update_peer i f m) = pm_connected m" "pm_banned (update_peer i f m) = pm_banned m"
  "pm_config (update_peer i f m) = pm_config m"
  by (simp_all add: update_peer_def split: option.split)

lemma get_peer_rest [simp]:
  "get_peer (m\<lparr>pm_connected := c\<rparr>) = get_peer m" "get_peer (m\<lparr>pm_banned := b\<rparr>) = get_peer m"
  by (simp_all add: get_peer_def fun_eq_iff)

lemma pm_inv_update_peer:
  assumes inv: "pm_inv m" and f: "\<And>p. pi_state p \<noteq> Banned \<Longrightarrow> pi_state (f p) \<noteq> Banned"
    "\<And>p. pi_state (f p) = Connected \<Longrightarrow> pi_state p = Connected"
  shows "pm_inv (update_peer i f m)"
proof -
  note known = pm_invD(3) [OF inv] and listed = pm_invD(4) [OF inv]
  have "\<exists>q. get_peer (update_peer i f m) j = Some q \<and> pi_state q \<noteq> Banned"
    if "j \<in> set (pm_connected m)" for j
    using known [OF that] f(1) by auto
  moreover have "j \<in> set (pm_connected m)"
    if "get_peer (update_peer i f m) j = Some q" "pi_state q = Connected" for j q
    using that listed f(2) by (auto split: if_splits)
  ultimately show ?thesis
    using inv unfolding pm_inv_def by auto
qed

lemma pm_inv_set_state:
  assumes "pm_inv m"
  shows "pm_inv (set_state now i st m)"
proof (cases "get_peer m i")
  case (Some p)
  show ?thesis
    using Some pm_invD [OF assms] by (cases st) (auto simp: set_state_def pm_inv_def Let_def distinct_removeAll split: if_splits)
qed (simp add: set_state_def assms)

lemma pm_inv_banned:
  "pm_inv m \<Longrightarrow> distinct (map fst b) \<Longrightarrow> pm_inv (m\<lparr>pm_banned := b\<rparr>)"
  by (simp add: pm_inv_def)

lemma pm_inv_ban_peer:
  assumes inv: "pm_inv m" and f: "\<And>p. pi_state (f p) = Banned" and b: "distinct (map fst b)"
  shows "pm_inv ((update_peer i f m)\<lparr>pm_connected := removeAll i (pm_connected m), pm_banned := b\<rparr>)"
proof -
  let ?m = "(update_peer i f m)\<lparr>pm_connected := removeAll i (pm_connected m), pm_banned := b\<rparr>"
  have "get_peer ?m j = (if i = j then map_option f (get_peer m i) else get_peer m j)" for j
    by simp
  then show ?thesis
    using pm_invD [OF inv] b f unfolding pm_inv_def
    by (auto simp: distinct_removeAll split: if_splits)
qed

lemma pm_inv_penalize:
  assumes inv: "pm_inv m"
  shows "pm_inv (snd (penalize_amount clk i amount m))"
proof (cases "get_peer m i")
  case (Some p)
  obtain ban sc where ap: "apply_penalty_amount clk amount (pi_score p) = (ban, sc)"
    by fastforce
  show ?thesis
  proof (cases ban)
    case True
    define b where "b = AList.update (pi_addr p) (clk 3 + ban_duration (pm_config m)) (pm_banned m)"
    have "distinct (map fst b)"
      using pm_invD(2) [OF inv] by (simp add: b_def distinct_update)
    then have "pm_inv ((update_peer i (\<lambda>p. p\<lparr>pi_score := sc, pi_state := Banned\<rparr>) m)
        \<lparr>pm_connected := removeAll i (pm_connected m), pm_banned := b\<rparr>)"
      by (intro pm_inv_ban_peer [OF inv]) simp_all
    then show ?thesis
      using True by (simp add: penalize_amount_def Some ap b_def)
  next
    case False
    have "pm_inv (update_peer i (\<lambda>p. p\<lparr>pi_score := sc\<rparr>) m)"
      by (intro pm_inv_update_peer [OF inv]) simp_all
    then show ?thesis
      using False by (simp add: penalize_amount_def Some ap)
  qed
qed (simp add: penalize_amount_def inv)

lemma pm_inv_unban:
  assumes inv: "pm_inv m"
  shows "pm_inv (unban iter clk addr m)"
proof -
  have "distinct (map fst (AList.delete addr (pm_banned m)))"
    using inv by (simp add: pm_inv_def distinct_delete)
  then have m1: "pm_inv (m\<lparr>pm_banned := AList.delete addr (pm_banned m)\<rparr>)"
    by (rule pm_inv_banned [OF inv])
  then show ?thesis
    unfolding unban_def Let_def
    by (auto intro!: pm_inv_update_peer split: option.split if_splits)
qed

text \<open>The steps: every mutating operation, with the information that \<open>PeerInfo::new\<close> makes of a peer.\<close>

inductive pm_step :: "peer_manager \<Rightarrow> peer_manager \<Rightarrow> bool" where
  pm_add: "pi_state info = Disconnected \<Longrightarrow> pm_step m (add_peer info m)"
| pm_state: "pm_step m (set_state now i st m)"
| pm_height: "pm_step m (set_height now i h m)"
| pm_penalize: "pm_step m (snd (penalize_amount clk i amount m))"
| pm_score: "pm_step m (update_score i f m)"
| pm_unban: "pm_step m (unban iter clk addr m)"
| pm_cleanup: "pm_step m (cleanup_expired_bans now m)"

inductive pm_reachable :: "peer_manager_config \<Rightarrow> peer_manager \<Rightarrow> bool" for config where
  pm_reach_new: "pm_reachable config (manager_new config)"
| pm_reach_step: "pm_reachable config m \<Longrightarrow> pm_step m m' \<Longrightarrow> pm_reachable config m'"

lemma get_peer_add: "get_peer (add_peer info m) = (get_peer m)(pi_id info \<mapsto> info)"
  by (simp add: get_peer_def add_peer_def update_conv' fun_eq_iff)

lemma pm_inv_step: "pm_step m m' \<Longrightarrow> pm_inv m \<Longrightarrow> pm_inv m'"
proof (induction rule: pm_step.induct)
  case (pm_add info m)
  moreover have "pm_connected (add_peer info m) = pm_connected m" "pm_banned (add_peer info m) = pm_banned m"
    by (simp_all add: add_peer_def)
  ultimately show ?case
    by (auto simp: pm_inv_def get_peer_add split: if_splits)
next
  case (pm_cleanup m now)
  then have "distinct (map fst (filter (\<lambda>(a, t). now < t) (pm_banned m)))"
    by (auto simp: pm_inv_def intro: distinct_map_filter)
  then show ?case
    using pm_cleanup by (simp add: cleanup_expired_bans_def pm_inv_banned)
next
  case (pm_height m now i h)
  then show ?case
    unfolding set_height_def by (rule pm_inv_update_peer) simp_all
next
  case (pm_score m i f)
  then show ?case
    unfolding update_score_def by (rule pm_inv_update_peer) simp_all
qed (simp_all add: pm_inv_set_state pm_inv_penalize pm_inv_unban)

lemma pm_reachable_inv: "pm_reachable config m \<Longrightarrow> pm_inv m"
  by (induction rule: pm_reachable.induct)
     (auto simp: pm_inv_step, simp add: pm_inv_def manager_new_def get_peer_def)

subsection \<open>Properties of the manager\<close>

text \<open>A peer that is penalised for a critical violation is banned at once: its state says so, it
  is no longer connected, and for the whole ban its address is reported as banned. The other
  peers keep their state and their connections, and the manager stays consistent. The call is
  assumed to take less than a minute.\<close>

theorem critical_violation_bans:
  assumes "pm_reachable config m" "get_peer m i = Some p" "is_critical reason"
    "clk 2 - clk 1 < minute_ns"
  shows "\<exists>m'. penalize clk i reason m = (True, m') \<and> map_option pi_state (get_peer m' i) = Some Banned \<and>
    i \<notin> set (pm_connected m') \<and> pm_inv m' \<and>
    (\<forall>now. now < clk 3 + ban_duration (pm_config m) \<longrightarrow> is_banned now (pi_addr p) m' = Some True) \<and>
    (\<forall>j. j \<noteq> i \<longrightarrow> get_peer m' j = get_peer m j \<and>
         (j \<in> set (pm_connected m') \<longleftrightarrow> j \<in> set (pm_connected m)))"
proof -
  have inv: "pm_inv m"
    by (rule pm_reachable_inv [OF assms(1)])
  obtain ban sc where ap: "apply_penalty_amount clk (penalty reason) (pi_score p) = (ban, sc)"
    by fastforce
  have "ban"
    using apply_penalty_amount_bans [OF assms(4), of "penalty reason" "pi_score p"]
      critical_penalty [OF assms(3)] by (simp add: ap)
  then have res: "penalize clk i reason m =
      (True, (update_peer i (\<lambda>p. p\<lparr>pi_score := sc, pi_state := Banned\<rparr>) m)
         \<lparr>pm_connected := removeAll i (pm_connected m),
          pm_banned := AList.update (pi_addr p) (clk 3 + ban_duration (pm_config m)) (pm_banned m)\<rparr>)"
    using ap assms(2) by (simp add: penalize_def penalize_amount_def)
  have "pm_inv (snd (penalize clk i reason m))"
    using pm_inv_penalize [OF inv] by (simp add: penalize_def)
  then show ?thesis
    unfolding res using assms(2) by (auto simp: is_banned_def update_conv')
qed

definition sample_addr :: socket_addr where
  "sample_addr = (V4 10 0 0 1, 9030)"

definition sample_peer :: peer_info where
  "sample_peer = peer_info_new (\<lambda>_. [1]) (\<lambda>_. 0) sample_addr True"

definition sample_manager :: peer_manager where
  "sample_manager =
     set_state 0 [1] Connected (add_peer sample_peer (manager_new peer_manager_config_default))"

lemma sample_manager_reachable: "pm_reachable peer_manager_config_default sample_manager"
  unfolding sample_manager_def
  by (rule pm_reach_step [OF pm_reach_step [OF pm_reach_new pm_add] pm_state])
     (simp add: sample_peer_def peer_info_new_def)

theorem critical_violation_bans_witness:
  "map_option pi_state (get_peer (snd (penalize (\<lambda>_. 0) [1] ProtocolViolation sample_manager)) [1]) =
     Some Banned"
proof -
  have "get_peer sample_manager [1] = Some (sample_peer\<lparr>pi_state := Connected, pi_last_seen := 0\<rparr>)"
    by (simp add: sample_manager_def set_state_def Let_def get_peer_add sample_peer_def peer_info_new_def)
  then show ?thesis
    using critical_violation_bans [OF sample_manager_reachable, of "[1]" _ ProtocolViolation "\<lambda>_. 0"]
    by (auto simp: minute_ns_def)
qed

text \<open>Once a ban has run out and before the periodic cleanup has dropped it, asking whether the
  address is banned does not return: the expired entry is removed while a reference into the
  map is still held. The same question after the cleanup is answered.\<close>

theorem expired_ban_query_blocks:
  assumes "pm_reachable config m" "map_of (pm_banned m) addr = Some t" "t \<le> now"
  shows "is_banned now addr m = None \<and>
    is_banned now addr (cleanup_expired_bans now m) = Some False"
proof -
  have "distinct (map fst (pm_banned m))"
    using pm_reachable_inv [OF assms(1)] by (simp add: pm_inv_def)
  then have "map_of (filter (\<lambda>(a, u). now < u) (pm_banned m)) addr = None"
    using assms(2,3) by (auto simp: map_of_eq_None_iff map_of_eq_Some_iff dest: eq_key_imp_eq_value)
  then show ?thesis
    using assms by (simp add: is_banned_def cleanup_expired_bans_def)
qed

theorem expired_ban_query_blocks_witness:
  "is_banned (3600 * 10 ^ 9) sample_addr
     (snd (penalize_amount (\<lambda>_. 0) [1] 500 sample_manager)) = None"
proof -
  have "pm_banned (snd (penalize_amount (\<lambda>_. 0) [1] 500 sample_manager)) = [(sample_addr, 3600 * 10 ^ 9)]"
    by (simp add: penalize_amount_def sample_manager_def set_state_def Let_def get_peer_add sample_peer_def
        peer_info_new_def add_peer_def manager_new_def peer_manager_config_default_def update_peer_def
        get_peer_def apply_penalty_amount_def should_ban_def current_penalty_def score_new_def
        sat_mul_u32_def sat_sub_u32_def sat_add_u32_def MAX_PENALTY_def BAN_THRESHOLD_def)
  then show ?thesis
    using expired_ban_query_blocks [OF pm_reach_step [OF sample_manager_reachable pm_penalize],
        of "\<lambda>_. 0" "[1]" 500 sample_addr "3600 * 10 ^ 9" "3600 * 10 ^ 9"]
    by simp
qed

subsection \<open>Declined modifiers stay declined for their time\<close>

text \<open>
  Declining never forgets a modifier before its time, whatever is declined after it, and the
  size limit alone triggers a cleanup but is not enforced when nothing has expired.
\<close>

lemma map_of_filter_values:
  "distinct (map fst m) \<Longrightarrow> map_of (filter (\<lambda>(k, v). P v) m) k =
     (case map_of m k of None \<Rightarrow> None | Some v \<Rightarrow> if P v then Some v else None)"
proof (induction m)
  case (Cons kv m)
  then show ?case
    by (cases kv) (auto split: option.splits simp: map_of_eq_None_iff [symmetric])
qed simp

lemma decline_keeps:
  assumes "distinct (map fst (dt_entries d))" "clk 0 \<le> now" "i \<noteq> j"
  shows "is_declined now i (decline clk j reason d) = is_declined now i d"
proof -
  have "is_declined now i (decline_cleanup (clk 0) d) = is_declined now i d"
    using assms(2) map_of_filter_values [OF assms(1)]
    by (auto simp: is_declined_def decline_cleanup_def split: option.split)
  moreover have "is_declined now i (c\<lparr>dt_entries := AList.update j e (dt_entries c)\<rparr>) = is_declined now i c" for c e
    using assms(3) by (auto simp: is_declined_def update_conv' split: option.split)
  ultimately show ?thesis
    by (simp add: decline_def Let_def)
qed

lemma decline_declines:
  assumes "now - clk 1 < dt_ttl d"
  shows "is_declined now i (decline clk i reason d) = Some reason"
  using assms by (simp add: decline_def Let_def is_declined_def update_conv' decline_cleanup_def)

end
