(* ===== verification/Consensus.thy ===== *)
theory Consensus
  imports Prelude "HOL-Library.Log_Nat"
begin

text \<open>
  Shared parts of the consensus crate: its error type (\<open>crates/ergo-consensus/src/error.rs\<close>),
  the compact form of targets (\<open>autolykos.rs\<close>), the cost accounting (\<open>cost.rs\<close>) and the
  parameters that miners vote on (\<open>chain_params.rs\<close>). A \<open>BigUint\<close> is a natural number. Blake2b,
  the serialisation of keys and of headers are parameters of the proof-of-work check.
\<close>

subsection \<open>Errors\<close>

datatype consensus_error =
    InvalidPow string
  | InvalidHeader string
  | InvalidBlockE string
  | InvalidTransactionE string
  | ParentNotFound string
  | InvalidTimestamp u64 u64
  | InvalidDifficulty string string
  | BlockTooLarge nat nat
  | BlockCostExceeded u64 u64
  | TransactionCostExceeded string u64 u64
  | InvalidExtension string
  | InvalidStateRoot string string
  | ScriptError string
  | InsufficientFunds u64 u64
  | MissingInput string nat string
  | MissingDataInput string nat string
  | InvalidTokenAmount string u64 u64
  | DoubleSpendE string
  | ScriptVerificationFailed string string
  | InsufficientFee u64 u64
  | DataInputIntersection string
  | BoxNotFound string
  | InvalidToken string
  | StorageFailed string
  | Validation string

text \<open>Decimal text of a number, as the error messages print it.\<close>

definition digit_char :: "nat \<Rightarrow> char" where
  "digit_char d = (''0123456789'' ! (d mod 10))"

fun show_nat :: "nat \<Rightarrow> string" where
  "show_nat n = (if n < 10 then [digit_char n] else show_nat (n div 10) @ [digit_char n])"

declare show_nat.simps [simp del]

definition show_int :: "int \<Rightarrow> string" where
  "show_int i = (if i < 0 then ''-'' @ show_nat (nat (- i)) else show_nat (nat i))"

subsection \<open>Headers\<close>

text \<open>The header of \<open>ergo_chain_types\<close> with the fields that are read; digests are byte strings.\<close>

record header =
  hd_version :: u8
  hd_id :: bytes
  hd_parent_id :: bytes
  hd_ad_proofs_root :: bytes
  hd_state_root :: bytes
  hd_transaction_root :: bytes
  hd_timestamp :: u64
  hd_n_bits :: u32
  hd_height :: u32
  hd_extension_root :: bytes
  hd_votes :: bytes

definition genesis_parent_header :: header where
  "genesis_parent_header =
     \<lparr>hd_version = 1, hd_id = replicate 32 0, hd_parent_id = replicate 32 0,
      hd_ad_proofs_root = replicate 32 0, hd_state_root = replicate 33 0,
      hd_transaction_root = replicate 32 0, hd_timestamp = 0, hd_n_bits = 0, hd_height = 0,
      hd_extension_root = replicate 32 0, hd_votes = replicate 3 0\<rparr>"

subsection \<open>Compact targets\<close>

text \<open>\<open>nbits_to_target\<close>: one byte of size and three bytes of digits, the highest bit masked.\<close>

definition nbits_size :: "u32 \<Rightarrow> nat" where
  "nbits_size nbits = unat (drop_bit 24 nbits AND 0xff)"

definition nbits_to_target :: "u32 \<Rightarrow> nat" where
  "nbits_to_target nbits =
     (let size' = nbits_size nbits; word = nbits AND 0x007fffff
      in if size' = 0 then 0
         else if size' \<le> 3 then unat (drop_bit (8 * (3 - size')) word)
         else unat word * 2 ^ (8 * (size' - 3)))"

text \<open>\<open>BigUint::to_bytes_be\<close> of a positive number: its digits to base 256, most significant first.\<close>

fun to_bytes_be :: "nat \<Rightarrow> bytes" where
  "to_bytes_be n = (if n < 256 then [of_nat n] else to_bytes_be (n div 256) @ [of_nat (n mod 256)])"

declare to_bytes_be.simps [simp del]

definition from_bytes_be :: "bytes \<Rightarrow> nat" where
  "from_bytes_be bs = foldl (\<lambda>acc b. acc * 256 + unat b) 0 bs"

text \<open>The loop that collects the bytes of a short target, each shifted by its index from the left.\<close>

definition short_word :: "bytes \<Rightarrow> u32" where
  "short_word bs =
     foldl (\<lambda>word (i, b). word OR push_bit (8 * (2 - i)) (ucast b)) 0 (enumerate 0 bs)"

definition target_to_nbits :: "nat \<Rightarrow> u32" where
  "target_to_nbits target =
     (if target = 0 then 0
      else let bs = to_bytes_be target; len = length bs;
               (size', word) =
                 (if len \<le> 3 then (3, short_word bs)
                  else (of_nat len, push_bit 16 (ucast (bs ! 0)) OR push_bit 8 (ucast (bs ! 1))
                                    OR ucast (bs ! 2)))
           in if word AND 0x00800000 \<noteq> 0 then push_bit 24 (size' + 1) OR drop_bit 8 word
              else push_bit 24 size' OR word)"

definition max_target :: nat where
  "max_target = 2 ^ 256 - 1"

definition nbits_to_difficulty :: "u32 \<Rightarrow> nat" where
  "nbits_to_difficulty nbits =
     (let target = nbits_to_target nbits in if target = 0 then max_target else max_target div target)"

subsection \<open>Proof of work\<close>

definition AUTOLYKOS_N :: u32 where
  "AUTOLYKOS_N = push_bit 26 1"

definition AUTOLYKOS_K :: u32 where
  "AUTOLYKOS_K = 32"

definition AUTOLYKOS_N_V2_HARDFORK_HEIGHT :: u32 where
  "AUTOLYKOS_N_V2_HARDFORK_HEIGHT = 614400"

record autolykos_v2 =
  av_n :: u32
  av_k :: u32

definition autolykos_new :: autolykos_v2 where
  "autolykos_new = \<lparr>av_n = AUTOLYKOS_N, av_k = AUTOLYKOS_K\<rparr>"

definition n_for_height :: "u32 \<Rightarrow> u32" where
  "n_for_height height =
     (if AUTOLYKOS_N_V2_HARDFORK_HEIGHT \<le> height then AUTOLYKOS_N else push_bit 25 1)"

definition calculate_msg :: "(bytes \<Rightarrow> bytes) \<Rightarrow> bytes \<Rightarrow> bytes \<Rightarrow> bytes" where
  "calculate_msg blake header_bytes nonce = blake (header_bytes @ nonce)"

definition calculate_seed :: "(bytes \<Rightarrow> bytes) \<Rightarrow> bytes \<Rightarrow> bytes \<Rightarrow> bytes" where
  "calculate_seed blake msg pk = blake (msg @ pk)"

definition generate_indices :: "(bytes \<Rightarrow> bytes) \<Rightarrow> autolykos_v2 \<Rightarrow> bytes \<Rightarrow> u32 \<Rightarrow> u32 list" where
  "generate_indices blake v seed n =
     map (\<lambda>i. let h = blake (seed @ be_u32 (of_nat i))
              in from_be_u32 (h ! 0) (h ! 1) (h ! 2) (h ! 3) mod n) [0..<unat (av_k v)]"

definition calculate_f_sum :: "(bytes \<Rightarrow> bytes) \<Rightarrow> u32 list \<Rightarrow> bytes \<Rightarrow> bytes \<Rightarrow> bytes" where
  "calculate_f_sum blake indices msg pk =
     to_bytes_be (sum_list (map (\<lambda>idx. from_bytes_be (blake (be_u32 idx @ msg @ pk))) indices))"

definition calculate_hit :: "(bytes \<Rightarrow> bytes) \<Rightarrow> bytes \<Rightarrow> bytes" where
  "calculate_hit blake f_sum = blake f_sum"

text \<open>\<open>pk\<close> is the serialised miner key, or the error of its serialisation.\<close>

definition verify_solution ::
  "(bytes \<Rightarrow> bytes) \<Rightarrow> autolykos_v2 \<Rightarrow> bytes \<Rightarrow> bytes \<Rightarrow> string + bytes \<Rightarrow> nat \<Rightarrow> u32
     \<Rightarrow> consensus_error + bool" where
  "verify_solution blake v header_bytes nonce pk target height =
     (if length nonce \<noteq> 8 
      then Inl (InvalidPow (''Invalid nonce length: '' @ show_nat (length nonce) @ '', expected 8''))
      else let n = n_for_height height; msg = calculate_msg blake header_bytes nonce in
        case pk of
          Inl e \<Rightarrow> Inl (InvalidPow (''Failed to serialize miner pk: '' @ e))
        | Inr pk_bytes \<Rightarrow>
            let seed = calculate_seed blake msg pk_bytes;
                indices = generate_indices blake v seed n;
                f_sum = calculate_f_sum blake indices msg pk_bytes;
                hit = calculate_hit blake f_sum
            in Inr (from_bytes_be hit \<le> target))"

definition verify_header ::
  "(bytes \<Rightarrow> bytes) \<Rightarrow> autolykos_v2 \<Rightarrow> string + bytes \<Rightarrow> u32 \<Rightarrow> bytes \<Rightarrow> string + bytes \<Rightarrow> u32
     \<Rightarrow> consensus_error + bool" where
  "verify_header blake v header_bytes n_bits nonce pk height =
     (case header_bytes of
        Inl e \<Rightarrow> Inl (InvalidPow (''Failed to serialize header: '' @ e))
      | Inr bs \<Rightarrow> verify_solution blake v bs nonce pk (nbits_to_target n_bits) height)"

definition validate_pow ::
  "(bytes \<Rightarrow> bytes) \<Rightarrow> string + bytes \<Rightarrow> u32 \<Rightarrow> bytes \<Rightarrow> string + bytes \<Rightarrow> u32 \<Rightarrow> consensus_error + bool" where
  "validate_pow blake header_bytes n_bits nonce pk height =
     verify_header blake autolykos_new header_bytes n_bits nonce pk height"

subsection \<open>Costs\<close>

datatype cost_error =
    LimitExceeded u64 u64
  | TxCostExceeded u64 u64
  | BlockCostOver u64 u64

definition MAX_TX_COST :: u64 where "MAX_TX_COST = 1000000"
definition MAX_BLOCK_COST :: u64 where "MAX_BLOCK_COST = 8000000"
definition INPUT_BASE_COST :: u64 where "INPUT_BASE_COST = 2000"
definition OUTPUT_BASE_COST :: u64 where "OUTPUT_BASE_COST = 100"
definition DATA_INPUT_COST :: u64 where "DATA_INPUT_COST = 100"
definition SIZE_COST_PER_BYTE :: u64 where "SIZE_COST_PER_BYTE = 2"
definition MIN_TX_COST :: u64 where "MIN_TX_COST = 1000"

record cost_accumulator =
  ca_current :: u64
  ca_limit :: u64

definition acc_new :: "u64 \<Rightarrow> cost_accumulator" where
  "acc_new limit = \<lparr>ca_current = 0, ca_limit = limit\<rparr>"

definition acc_for_transaction :: cost_accumulator where
  "acc_for_transaction = acc_new MAX_TX_COST"

definition acc_for_block :: cost_accumulator where
  "acc_for_block = acc_new MAX_BLOCK_COST"

definition acc_add :: "u64 \<Rightarrow> cost_accumulator \<Rightarrow> (cost_error + unit) \<times> cost_accumulator" where
  "acc_add cost a =
     (let a1 = a\<lparr>ca_current := sat_add_u64 (ca_current a) cost\<rparr>
      in (if ca_limit a1 < ca_current a1 then Inl (LimitExceeded (ca_current a1) (ca_limit a1))
          else Inr (), a1))"

definition add_unchecked :: "u64 \<Rightarrow> cost_accumulator \<Rightarrow> cost_accumulator" where
  "add_unchecked cost a = a\<lparr>ca_current := sat_add_u64 (ca_current a) cost\<rparr>"

definition is_exceeded :: "cost_accumulator \<Rightarrow> bool" where
  "is_exceeded a = (ca_limit a < ca_current a)"

definition acc_remaining :: "cost_accumulator \<Rightarrow> u64" where
  "acc_remaining a = sat_sub_u64 (ca_limit a) (ca_current a)"

definition acc_reset :: "cost_accumulator \<Rightarrow> cost_accumulator" where
  "acc_reset a = a\<lparr>ca_current := 0\<rparr>"

definition would_exceed :: "cost_accumulator \<Rightarrow> u64 \<Rightarrow> bool" where
  "would_exceed a cost = (ca_limit a < sat_add_u64 (ca_current a) cost)"

record transaction_cost_result =
  total_cost :: u64
  base_cost :: u64
  size_cost :: u64
  script_cost :: u64
  per_input_costs :: "u64 list"

definition cost_result_new :: "u64 \<Rightarrow> u64 \<Rightarrow> u64 \<Rightarrow> u64 list \<Rightarrow> transaction_cost_result" where
  "cost_result_new base sz script per_input =
     \<lparr>total_cost = base + sz + script, base_cost = base, size_cost = sz, script_cost = script,
      per_input_costs = per_input\<rparr>"

definition exceeds_tx_limit :: "transaction_cost_result \<Rightarrow> bool" where
  "exceeds_tx_limit r = (MAX_TX_COST < total_cost r)"

definition calculate_base_cost :: "nat \<Rightarrow> nat \<Rightarrow> nat \<Rightarrow> nat \<Rightarrow> u64" where
  "calculate_base_cost num_inputs num_outputs num_data_inputs tx_size_bytes =
     of_nat num_inputs * INPUT_BASE_COST + of_nat num_outputs * OUTPUT_BASE_COST
     + of_nat num_data_inputs * DATA_INPUT_COST + of_nat tx_size_bytes * SIZE_COST_PER_BYTE"

definition estimate_tx_cost :: "nat \<Rightarrow> nat \<Rightarrow> nat \<Rightarrow> nat \<Rightarrow> u64" where
  "estimate_tx_cost num_inputs num_outputs num_data_inputs tx_size_bytes =
     max (sat_add_u64 (calculate_base_cost num_inputs num_outputs num_data_inputs tx_size_bytes)
            (of_nat num_inputs * 1000)) MIN_TX_COST"

subsection \<open>Voted parameters\<close>

record chain_parameters =
  cp_height :: u32
  max_block_cost :: u64
  storage_fee_factor :: u64
  min_value_per_byte :: u64
  max_block_size :: u64
  token_access_cost :: u64
  input_cost :: u64
  data_input_cost :: u64
  output_cost :: u64

definition chain_parameters_default :: chain_parameters where
  "chain_parameters_default =
     \<lparr>cp_height = 0, max_block_cost = 1000000, storage_fee_factor = 1250000, min_value_per_byte = 360,
      max_block_size = 524288, token_access_cost = 100, input_cost = 2000, data_input_cost = 100,
      output_cost = 100\<rparr>"

text \<open>\<open>v as u64\<close> of an \<open>i32\<close> extends the sign.\<close>

definition param_value :: "(u8 \<Rightarrow> int option) \<Rightarrow> u8 \<Rightarrow> u64 \<Rightarrow> u64" where
  "param_value parsed i previous =
     (case parsed i of None \<Rightarrow> previous | Some v \<Rightarrow> word_of_int v)"

definition params_from_extension ::
  "u32 \<Rightarrow> (u8 \<Rightarrow> int option) \<Rightarrow> chain_parameters \<Rightarrow> chain_parameters" where
  "params_from_extension height parsed previous =
     \<lparr>cp_height = height,
      max_block_cost = param_value parsed 4 (max_block_cost previous),
      storage_fee_factor = param_value parsed 1 (storage_fee_factor previous),
      min_value_per_byte = param_value parsed 2 (min_value_per_byte previous),
      max_block_size = param_value parsed 3 (max_block_size previous),
      token_access_cost = param_value parsed 5 (token_access_cost previous),
      input_cost = param_value parsed 6 (input_cost previous),
      data_input_cost = param_value parsed 7 (data_input_cost previous),
      output_cost = param_value parsed 8 (output_cost previous)\<rparr>"

definition VOTING_EPOCH_LENGTH :: u32 where
  "VOTING_EPOCH_LENGTH = 1024"

definition is_epoch_boundary :: "u32 \<Rightarrow> bool" where
  "is_epoch_boundary height = (0 < height \<and> height mod VOTING_EPOCH_LENGTH = 0)"

subsection \<open>Compact targets are read back\<close>

lemma to_bytes_be_shift: "0 < n \<Longrightarrow> to_bytes_be (n * 256 ^ j) = to_bytes_be n @ replicate j 0"
proof (induction j)
  case (Suc j)
  have "256 \<le> n * 256 ^ Suc j"
    using Suc.prems by simp
  then have "to_bytes_be (n * 256 ^ Suc j) = to_bytes_be (n * 256 ^ j) @ [0]"
    by (subst to_bytes_be.simps) (simp add: mult.assoc)
  then show ?case
    using Suc by (simp add: replicate_append_same)
qed simp

lemma to_bytes_be_step: "256 \<le> n \<Longrightarrow> to_bytes_be n = to_bytes_be (n div 256) @ [of_nat (n mod 256)]"
  by (subst to_bytes_be.simps) simp

lemma to_bytes_be_1: "n < 256 \<Longrightarrow> to_bytes_be n = [of_nat n]"
  by (subst to_bytes_be.simps) simp

lemma to_bytes_be_2:
  assumes "256 \<le> n" "n < 65536"
  shows "to_bytes_be n = [of_nat (n div 256), of_nat (n mod 256)]"
  using assms by (simp add: to_bytes_be_step to_bytes_be_1 less_mult_imp_div_less)

lemma to_bytes_be_3:
  assumes "65536 \<le> n" "n < 16777216"
  shows "to_bytes_be n = [of_nat (n div 65536), of_nat (n div 256 mod 256), of_nat (n mod 256)]"
proof -
  have "256 \<le> n div 256" "n div 256 < 65536"
    using assms by (simp_all add: less_mult_imp_div_less less_eq_div_iff_mult_less_eq)
  then show ?thesis
    using assms by (simp add: to_bytes_be_step [of n] to_bytes_be_2 div_mult2_eq [symmetric])
qed

lemma byte_of_nat:
  fixes w :: u32
  shows "of_nat (unat w div 65536) = (ucast (drop_bit 16 w) :: u8)"
    "of_nat (unat w div 256 mod 256) = (ucast (drop_bit 8 w) :: u8)"
    "of_nat (unat w div 256) = (ucast (drop_bit 8 w) :: u8)"
    "of_nat (unat w mod 256) = (ucast w :: u8)"
  by (simp_all add: word_unat_eq_iff unat_of_nat unsigned_ucast_eq unsigned_drop_bit_eq drop_bit_eq_div take_bit_eq_mod unat_div_distrib)

lemma bytes_word_3:
  fixes w :: u32
  assumes "\<And>n. bit w n \<Longrightarrow> n < 23"
  shows "push_bit 16 (ucast (ucast (drop_bit 16 w) :: u8)) OR
    push_bit 8 (ucast (ucast (drop_bit 8 w) :: u8)) OR ucast (ucast w :: u8) = w"
proof (rule bit_word_eqI)
  fix n
  assume "n < LENGTH(32)"
  then show "bit (push_bit 16 (ucast (ucast (drop_bit 16 w) :: u8)) OR
      push_bit 8 (ucast (ucast (drop_bit 8 w) :: u8)) OR ucast (ucast w :: u8) :: u32) n = bit w n"
    using assms [of n] by (cases "n < 8"; cases "n < 16") (auto simp: bit_simps)
qed

lemma bytes_word_2:
  fixes w :: u32
  assumes "\<And>n. bit w n \<Longrightarrow> n < 16"
  shows "push_bit 16 (ucast (ucast (drop_bit 8 w) :: u8)) OR
    push_bit 8 (ucast (ucast w :: u8)) = push_bit 8 w"
proof (rule bit_word_eqI)
  fix n
  assume "n < LENGTH(32)"
  then show "bit (push_bit 16 (ucast (ucast (drop_bit 8 w) :: u8)) OR
      push_bit 8 (ucast (ucast w :: u8)) :: u32) n = bit (push_bit 8 w) n"
    using assms [of "n - 8"] by (cases "n < 8"; cases "n < 16") (auto simp: bit_simps)
qed


text \<open>The parts of a compact target: its size and its digits.\<close>

lemma nbits_low_bits: "nbits AND 0x007fffff = take_bit 23 (nbits :: u32)"
  by (simp add: take_bit_eq_mask mask_eq_exp_minus_1)

lemma nbits_digits:
  fixes nbits :: u32
  defines "w \<equiv> nbits AND 0x007fffff"
  shows "bit w n \<longleftrightarrow> bit nbits n \<and> n < 23" "unat w < 8388608"
proof -
  have w: "w = take_bit 23 nbits"
    unfolding w_def by (rule nbits_low_bits)
  show "bit w n \<longleftrightarrow> bit nbits n \<and> n < 23"
    by (auto simp: w bit_simps)
  show "unat w < 8388608"
    using take_bit_nat_less_exp [of 23 "unat nbits"] by (simp add: w unsigned_take_bit_eq)
qed

lemma nbits_recompose:
  fixes nbits :: u32
  assumes "nbits AND 0x00800000 = 0"
  shows "push_bit 24 (of_nat (nbits_size nbits)) OR (nbits AND 0x007fffff) = nbits"
proof (rule bit_word_eqI)
  fix n
  assume n: "n < LENGTH(32)"
  have "\<not> bit nbits 23"
  proof
    assume "bit nbits 23"
    then have "bit (nbits AND 0x00800000) 23"
      by (simp add: bit_simps)
    then show False
      using assms by simp
  qed
  moreover have "(drop_bit 24 nbits AND 0xff) = take_bit 8 (drop_bit 24 nbits)"
    by (simp add: take_bit_eq_mask mask_eq_exp_minus_1)
  ultimately show "bit (push_bit 24 (of_nat (nbits_size nbits)) OR (nbits AND 0x007fffff)) n = bit nbits n"
    unfolding nbits_low_bits
    using n by (cases "n = 23"; cases "n < 23") (auto simp: nbits_size_def bit_simps)
qed

lemma short_word_3: "short_word [a, b, c] = push_bit 16 (ucast a) OR push_bit 8 (ucast b) OR ucast c"
  by (simp add: short_word_def or.assoc)


lemma nbits_to_target_large:
  assumes "4 \<le> nbits_size nbits"
  shows "nbits_to_target nbits = unat (nbits AND 0x007fffff) * 256 ^ (nbits_size nbits - 3)"
proof -
  have "(2 :: nat) ^ (8 * k) = 256 ^ k" for k
    by (simp add: power_mult)
  then show ?thesis
    using assms by (simp add: nbits_to_target_def Let_def)
qed

lemma target_to_nbits_bytes:
  assumes "t \<noteq> 0" "to_bytes_be t = a # b # c # rest"
    "word = push_bit 16 (ucast a) OR push_bit 8 (ucast b) OR ucast c"
  shows "target_to_nbits t =
    (if word AND 0x00800000 \<noteq> 0 then push_bit 24 (of_nat (length rest + 4)) OR drop_bit 8 word
     else push_bit 24 (of_nat (length rest + 3)) OR word)"
  unfolding target_to_nbits_def Let_def assms(2) using assms(1,3)
  by (cases rest) (simp_all add: short_word_3 add.commute)

lemma target_to_nbits_3:
  assumes "65536 \<le> n" "n < 8388608" "unat (w :: u32) = n" "\<And>i. bit w i \<Longrightarrow> i < 23"
  shows "target_to_nbits (n * 256 ^ Suc j) = push_bit 24 (of_nat (j + 4)) OR w"
proof -
  have bs: "to_bytes_be (n * 256 ^ Suc j) =
      [ucast (drop_bit 16 w), ucast (drop_bit 8 w), ucast w] @ replicate (Suc j) 0"
    using assms(1-3) to_bytes_be_shift [of n "Suc j"] to_bytes_be_3 [of n] byte_of_nat [of w] by simp
  have "w = w AND 0x007fffff"
    unfolding nbits_low_bits by (rule bit_word_eqI) (use assms(4) in \<open>auto simp: bit_simps\<close>)
  then have "w AND 0x00800000 = w AND (0x007fffff AND 0x00800000)"
    by (metis and.assoc)
  then have "w AND 0x00800000 = 0"
    by simp
  moreover have "n * 256 ^ Suc j \<noteq> 0"
    using assms(1) by simp
  ultimately show ?thesis
    using target_to_nbits_bytes [OF _ bs [unfolded append_Cons], of w] bytes_word_3 [OF assms(4)]
    by (simp add: add.commute)
qed

lemma target_to_nbits_2:
  assumes "32768 \<le> n" "n < 65536" "unat (w :: u32) = n" "\<And>i. bit w i \<Longrightarrow> i < 16" "bit w 15"
  shows "target_to_nbits (n * 256 ^ Suc j) = push_bit 24 (of_nat (j + 4)) OR w"
proof -
  have bs: "to_bytes_be (n * 256 ^ Suc j) = ucast (drop_bit 8 w) # ucast w # 0 # replicate j 0"
    using assms(1-3) to_bytes_be_shift [of n "Suc j"] to_bytes_be_2 [of n] byte_of_nat [of w] by simp
  have word: "push_bit 16 (ucast (ucast (drop_bit 8 w) :: u8)) OR
      (push_bit 8 (ucast (ucast w :: u8)) OR ucast (0 :: u8)) = push_bit 8 w"
    using bytes_word_2 [OF assms(4)] by simp
  have "bit (push_bit 8 w AND 0x00800000) 23"
    using assms(5) by (simp add: bit_simps)
  then have msb: "push_bit 8 w AND 0x00800000 \<noteq> 0"
    by auto
  have "i < 24" if "bit w i" for i
    using assms(4) [OF that] by simp
  then have undo: "drop_bit 8 (push_bit 8 w) = w"
    by (intro bit_word_eqI) (auto simp: bit_simps)
  have "n * 256 ^ Suc j \<noteq> 0"
    using assms(1) by simp
  then show ?thesis
    using target_to_nbits_bytes [OF _ bs, of "push_bit 8 w"] word msb undo by simp
qed

lemma bit_15: "32768 \<le> unat w \<Longrightarrow> unat w < 65536 \<Longrightarrow> bit (w :: u32) 15"
proof -
  assume "32768 \<le> unat w" "unat w < 65536"
  then have "unat w div 32768 = 1"
    by (simp add: div_nat_eqI)
  then show ?thesis
    by (simp add: bit_iff_odd_drop_bit drop_bit_eq_div odd_iff_mod_2_eq_one word_unat_eq_iff unat_div_distrib unat_mod_distrib)
qed

lemma low_16_bits:
  assumes "unat (w :: u32) < 65536" "bit w i"
  shows "i < 16"
proof (rule ccontr)
  assume "\<not> i < 16"
  then have "unat w < 2 ^ i"
    using assms(1) power_increasing [of 16 i "2 :: nat"] by simp
  then have "\<not> bit (unat w) i"
    by (simp add: bit_iff_odd)
  then show False
    using assms(2) by (simp add: bit_unsigned_iff)
qed

text \<open>The compact form of a target is read back: encoding what a canonical compact value decodes
  to gives the value itself, for every size of at least four bytes.\<close>

theorem nbits_roundtrip:
  assumes "4 \<le> nbits_size nbits" "nbits AND 0x00800000 = 0" "0x8000 \<le> unat (nbits AND 0x007fffff)"
  shows "target_to_nbits (nbits_to_target nbits) = nbits"
proof -
  define w where "w = nbits AND 0x007fffff"
  define j where "j = nbits_size nbits - 4"
  have s: "nbits_size nbits = j + 4" "nbits_size nbits - 3 = Suc j"
    using assms(1) by (simp_all add: j_def)
  have digits: "unat w < 8388608" "bit w i \<Longrightarrow> i < 23" for i
    unfolding w_def by (simp_all add: nbits_digits)
  have "target_to_nbits (unat w * 256 ^ Suc j) = push_bit 24 (of_nat (j + 4)) OR w"
  proof (cases "unat w < 65536")
    case True
    then show ?thesis
      using assms(3) low_16_bits [of w] bit_15 [of w] by (intro target_to_nbits_2) (simp_all add: w_def [symmetric])
  next
    case False
    then show ?thesis
      using digits by (intro target_to_nbits_3) simp_all
  qed
  then show ?thesis
    using nbits_recompose [OF assms(2)] nbits_to_target_large [OF assms(1)] unfolding s(2) s(1) w_def by simp
qed

theorem nbits_roundtrip_witness:
  "target_to_nbits (nbits_to_target 0x1d00ffff) = 0x1d00ffff"
  by (rule nbits_roundtrip) (simp_all add: nbits_size_def)

text \<open>
  A target of one or two bytes is not read back: its bytes are aligned to the left of the
  three digits while the size says three.
\<close>

lemma nbits_short_target: "nbits_to_target (target_to_nbits 1) = 65536"
  by (simp add: target_to_nbits_def to_bytes_be_1 short_word_def nbits_to_target_def nbits_size_def)

subsection \<open>Costs add up exactly\<close>

text \<open>Adding a list of costs, stopping at the first that exceeds the limit.\<close>

primrec acc_add_all :: "u64 list \<Rightarrow> cost_accumulator \<Rightarrow> (cost_error + unit) \<times> cost_accumulator" where
  "acc_add_all [] a = (Inr (), a)"
| "acc_add_all (c # cs) a =
     (case acc_add c a of
        (Inl e, a1) \<Rightarrow> (Inl e, a1)
      | (Inr _, a1) \<Rightarrow> acc_add_all cs a1)"

lemma acc_add_ok:
  assumes "unat (ca_limit a) < 2 ^ 64 - 1"
  shows "fst (acc_add c a) = Inr () \<longleftrightarrow> unat (ca_current a) + unat c \<le> unat (ca_limit a)"
    "fst (acc_add c a) = Inr () \<Longrightarrow> unat (ca_current (snd (acc_add c a))) = unat (ca_current a) + unat c"
    "ca_limit (snd (acc_add c a)) = ca_limit a"
proof -
  have sum: "unat (sat_add_u64 (ca_current a) c) = min (unat (ca_current a) + unat c) (2 ^ 64 - 1)"
    by (rule unat_sat_add_u64)
  show ok: "fst (acc_add c a) = Inr () \<longleftrightarrow> unat (ca_current a) + unat c \<le> unat (ca_limit a)"
    using assms unfolding acc_add_def Let_def by (auto simp: word_less_nat_alt sum)
  show "unat (ca_current (snd (acc_add c a))) = unat (ca_current a) + unat c"
    if "fst (acc_add c a) = Inr ()"
    using that ok assms by (simp add: acc_add_def Let_def sum)
  show "ca_limit (snd (acc_add c a)) = ca_limit a"
    by (simp add: acc_add_def Let_def)
qed

text \<open>Adding costs one after the other succeeds exactly when their sum, added to what was there,
  is within the limit, and then the accumulator holds that sum: nothing is lost to saturation
  for any limit below the largest 64-bit value.\<close>

theorem cost_accumulator_exact:
  assumes "unat (ca_limit a) < 2 ^ 64 - 1"
  shows "(fst (acc_add_all cs a) = Inr () \<longleftrightarrow>
      unat (ca_current a) + sum_list (map unat cs) \<le> unat (ca_limit a) \<or> cs = [])
    \<and> (fst (acc_add_all cs a) = Inr () \<longrightarrow>
      unat (ca_current (snd (acc_add_all cs a))) = unat (ca_current a) + sum_list (map unat cs))"
  using assms
proof (induction cs arbitrary: a)
  case (Cons c cs)
  obtain r a1 where r: "acc_add c a = (r, a1)"
    by fastforce
  note step = acc_add_ok [OF Cons.prems, of c, unfolded r, simplified]
  show ?case
  proof (cases r)
    case (Inl e)
    then show ?thesis
      using step(1) by (simp add: r)
  next
    case (Inr u)
    then show ?thesis
      using step Cons.IH [of a1] Cons.prems by (cases cs) (auto simp: r)
  qed
qed simp

theorem cost_accumulator_exact_witness:
  "fst (acc_add_all [600000, 300000] acc_for_transaction) = Inr () \<and>
     fst (acc_add_all [600000, 400001] acc_for_transaction) \<noteq> Inr ()"
  using cost_accumulator_exact [of acc_for_transaction "[600000, 300000]"]
    cost_accumulator_exact [of acc_for_transaction "[600000, 400001]"]
  by (simp add: acc_for_transaction_def acc_new_def MAX_TX_COST_def)

end
