(* ===== verification/Nipopow.thy ===== *)
theory Nipopow
  imports Consensus
begin

text \<open>
  Proofs of proof-of-work (\<open>crates/ergo-consensus/src/nipopow/\<close>): levels and scores of chains
  (\<open>algos.rs\<close>), the packed interlinks of an extension (\<open>interlinks.rs\<close>), headers with interlinks
  (\<open>popow_header.rs\<close>), proofs with their validation and comparison (\<open>proof.rs\<close>) and the verifier
  that keeps the best proof (\<open>verifier.rs\<close>). Of the third-party header only the fields that are
  read here are modelled.

  The score is shown to be the maximum it is documented to be, packed interlinks are read
  back, a validated proof is a chain of strictly increasing heights whose suffix is linked
  by parents, and the verifier only ever holds a validated proof of the expected genesis.
  The comparison of two proofs is reduced to what it computes, a count of headers.
\<close>

subsection \<open>Levels and scores\<close>

definition DEFAULT_M :: int where
  "DEFAULT_M = 30"

definition DEFAULT_K :: int where
  "DEFAULT_K = 30"

definition decode_nbits :: "u32 \<Rightarrow> nat" where
  "decode_nbits nbits =
     (let exponent = unat (drop_bit 24 nbits); mantissa = nbits AND 0x007FFFFF
      in if exponent \<le> 3 then unat (drop_bit (8 * (3 - exponent)) mantissa)
         else unat mantissa * 2 ^ (8 * (exponent - 3)))"

text \<open>\<open>BigUint::bits\<close> is the number of binary digits.\<close>

definition max_level_of :: "u32 \<Rightarrow> bytes \<Rightarrow> bool \<Rightarrow> u32" where
  "max_level_of nbits pow_hit is_genesis =
     (if is_genesis then - 1
      else let target = decode_nbits nbits; hit = from_bytes_be pow_hit
           in if hit = 1 \<or> hit = 0 then 0
              else if target \<le> hit then 0
              else let ratio = target div hit; bits = floorlog 2 ratio
                   in if bits = 0 then 0 else of_nat (bits - 1))"

definition level_count :: "u32 list \<Rightarrow> nat \<Rightarrow> nat" where
  "level_count levels level = length (filter (\<lambda>l. level \<le> unat l) levels)"

text \<open>\<open>m as usize\<close> of a negative \<open>i32\<close> is a huge number; \<open>1i64 << level\<close> masks the shift amount.\<close>

definition as_usize :: "int \<Rightarrow> nat" where
  "as_usize m = nat (m mod 2 ^ 64)"

definition shl_one :: "nat \<Rightarrow> int" where
  "shl_one level = wrap_i64 (2 ^ (level mod 64))"

text \<open>The loop; its first argument counts the levels left up to the safety limit of 256.\<close>

primrec best_arg_loop :: "nat \<Rightarrow> u32 list \<Rightarrow> nat \<Rightarrow> int \<Rightarrow> int" where
  "best_arg_loop 0 levels m best = best"
| "best_arg_loop (Suc n) levels m best =
     (let level = 256 - n; superblock_count = level_count levels level
      in if m \<le> superblock_count
         then best_arg_loop n levels m (max best (wrap_i64 (shl_one level * int superblock_count)))
         else best)"

definition best_arg :: "u32 list \<Rightarrow> int \<Rightarrow> int" where
  "best_arg levels m =
     (if levels = [] then 0 else best_arg_loop 256 levels (as_usize m) (int (length levels)))"

text \<open>
  The table of superblock counts; \<open>None\<close> is the panic of an index out of range. The size of
  the table, \<open>max_level + 1\<close>, wraps.
\<close>

definition bump :: "nat \<Rightarrow> nat list option \<Rightarrow> nat list option" where
  "bump l counts =
     (case counts of
        None \<Rightarrow> None
      | Some c \<Rightarrow> if l < length c then Some (c[l := c ! l + 1]) else None)"

definition count_superblocks_by_level :: "u32 list \<Rightarrow> nat list option" where
  "count_superblocks_by_level levels =
     (if levels = [] then Some []
      else let max_level = foldr max levels 0
           in fold (\<lambda>level counts. fold bump [0..<unat level + 1] counts) levels
                (Some (replicate (unat (max_level + 1)) 0)))"

subsection \<open>Interlinks\<close>

definition INTERLINKS_VECTOR_PREFIX :: u8 where
  "INTERLINKS_VECTOR_PREFIX = 1"

function pack_loop :: "u8 \<Rightarrow> bytes list \<Rightarrow> (bytes \<times> bytes) list" where
  "pack_loop idx [] = []"
| "pack_loop idx (link # links) =
     (let count = min (length (takeWhile (\<lambda>i. i = link) (link # links))) 255
      in ([INTERLINKS_VECTOR_PREFIX, idx], of_nat count # link)
         # pack_loop (idx + 1) (drop count (link # links)))"
  by pat_completeness auto
termination
  by (relation "measure (\<lambda>(idx, links). length links)") auto

definition pack_interlinks :: "bytes list \<Rightarrow> (bytes \<times> bytes) list" where
  "pack_interlinks links = pack_loop 0 links"

definition interlink_field :: "bytes \<times> bytes \<Rightarrow> bool" where
  "interlink_field kv =
     (length (fst kv) = 2 \<and> fst kv ! 0 = INTERLINKS_VECTOR_PREFIX \<and> length (snd kv) = 33)"

fun unpack_loop :: "(bytes \<times> bytes) list \<Rightarrow> bytes list \<Rightarrow> consensus_error + bytes list" where
  "unpack_loop [] result = Inr result"
| "unpack_loop ((key, val) # kvs) result =
     (let count = unat (val ! 0)
      in if count = 0 then Inl (Validation ''Invalid interlinks: zero count'')
         else unpack_loop kvs (result @ replicate count (take 32 (drop 1 val))))"

definition unpack_interlinks :: "(bytes \<times> bytes) list \<Rightarrow> consensus_error + bytes list" where
  "unpack_interlinks kvs =
     unpack_loop (sort_key (\<lambda>kv. fst kv ! 1) (filter interlink_field kvs)) []"

definition update_interlinks :: "bytes \<Rightarrow> u32 \<Rightarrow> bytes list \<Rightarrow> bool \<Rightarrow> bytes list" where
  "update_interlinks prev_header_id prev_level prev_interlinks is_genesis =
     (if is_genesis then [prev_header_id]
      else case prev_interlinks of
             [] \<Rightarrow> [prev_header_id]
           | genesis # tail \<Rightarrow>
               if prev_level = 0 then prev_interlinks
               else let level = unat prev_level
                    in [genesis]
                       @ (if level < length tail then take (length tail - level) tail else [])
                       @ replicate level prev_header_id)"

subsection \<open>Headers and proofs\<close>

record popow_header =
  ph_header :: header
  ph_interlinks :: "bytes list"
  ph_interlinks_proof :: bytes

definition ph_id :: "popow_header \<Rightarrow> bytes" where
  "ph_id p = hd_id (ph_header p)"

definition ph_height :: "popow_header \<Rightarrow> u32" where
  "ph_height p = hd_height (ph_header p)"

definition ph_parent_id :: "popow_header \<Rightarrow> bytes" where
  "ph_parent_id p = hd_parent_id (ph_header p)"

definition ph_is_genesis :: "popow_header \<Rightarrow> bool" where
  "ph_is_genesis p = (hd_height (ph_header p) = 1)"

definition ph_nbits :: "popow_header \<Rightarrow> u32" where
  "ph_nbits p = hd_n_bits (ph_header p)"

definition has_interlinks :: "popow_header \<Rightarrow> bool" where
  "has_interlinks p = (ph_interlinks p \<noteq> [])"

definition interlink_at :: "popow_header \<Rightarrow> nat \<Rightarrow> bytes option" where
  "interlink_at p level = (if level < length (ph_interlinks p) then Some (ph_interlinks p ! level) else None)"

definition ph_genesis_id :: "popow_header \<Rightarrow> bytes option" where
  "ph_genesis_id p = (case ph_interlinks p of [] \<Rightarrow> None | g # _ \<Rightarrow> Some g)"

definition connects_to :: "popow_header \<Rightarrow> bytes \<Rightarrow> bool" where
  "connects_to p other_id = (ph_parent_id p = other_id \<or> list_ex (\<lambda>link. link = other_id) (ph_interlinks p))"

record popow_params =
  pp_m :: int
  pp_k :: int
  pp_continuous :: bool

definition params_default :: popow_params where
  "params_default = \<lparr>pp_m = DEFAULT_M, pp_k = DEFAULT_K, pp_continuous = False\<rparr>"

definition params_for_p2p :: popow_params where
  "params_for_p2p = \<lparr>pp_m = DEFAULT_M, pp_k = DEFAULT_K, pp_continuous = True\<rparr>"

record nipopow_proof =
  np_m :: int
  np_k :: int
  np_prefix :: "popow_header list"
  np_suffix_head :: popow_header
  np_suffix_tail :: "header list"
  np_continuous :: bool

definition np_genesis_id :: "nipopow_proof \<Rightarrow> bytes option" where
  "np_genesis_id p = (case np_prefix p of [] \<Rightarrow> None | h # _ \<Rightarrow> Some (ph_id h))"

definition headers_chain :: "nipopow_proof \<Rightarrow> header list" where
  "headers_chain p = map ph_header (np_prefix p) @ [ph_header (np_suffix_head p)] @ np_suffix_tail p"

definition tip_height :: "nipopow_proof \<Rightarrow> u32" where
  "tip_height p =
     (if np_suffix_tail p = [] then ph_height (np_suffix_head p) else hd_height (last (np_suffix_tail p)))"

definition tip_id :: "nipopow_proof \<Rightarrow> bytes" where
  "tip_id p = (if np_suffix_tail p = [] then ph_id (np_suffix_head p) else hd_id (last (np_suffix_tail p)))"

fun heights_increase :: "u32 list \<Rightarrow> bool" where
  "heights_increase (a # b # hs) = (if b \<le> a then False else heights_increase (b # hs))"
| "heights_increase _ = True"

definition has_valid_heights :: "nipopow_proof \<Rightarrow> bool" where
  "has_valid_heights p = heights_increase (map hd_height (headers_chain p))"

fun prefix_connected :: "popow_header list \<Rightarrow> bool" where
  "prefix_connected (prev # cur # hs) = (if \<not> connects_to cur (ph_id prev) then False else prefix_connected (cur # hs))"
| "prefix_connected _ = True"

fun parent_chain :: "bytes \<Rightarrow> header list \<Rightarrow> bool" where
  "parent_chain prev_id [] = True"
| "parent_chain prev_id (h # hs) = (if hd_parent_id h \<noteq> prev_id then False else parent_chain (hd_id h) hs)"

definition has_valid_connections :: "nipopow_proof \<Rightarrow> bool" where
  "has_valid_connections p =
     (if \<not> prefix_connected (np_prefix p) then False
      else if np_prefix p \<noteq> [] \<and> \<not> connects_to (np_suffix_head p) (ph_id (last (np_prefix p))) then False
      else parent_chain (ph_id (np_suffix_head p)) (np_suffix_tail p))"

definition np_validate :: "nipopow_proof \<Rightarrow> consensus_error + unit" where
  "np_validate p =
     (if np_prefix p = [] then Inl (Validation ''NiPoPoW proof prefix cannot be empty'')
      else if np_k p < 1 then Inl (Validation ''NiPoPoW k parameter must be >= 1'')
      else let suffix_len = 1 + length (np_suffix_tail p) in
        if suffix_len \<noteq> as_usize (np_k p)
        then Inl (Validation (''NiPoPoW suffix length mismatch: expected '' @ show_int (np_k p)
                    @ '', got '' @ show_nat suffix_len))
        else if \<not> has_valid_heights p then Inl (Validation ''NiPoPoW proof has invalid heights'')
        else if \<not> has_valid_connections p then Inl (Validation ''NiPoPoW proof has invalid connections'')
        else Inr ())"

definition np_is_valid :: "nipopow_proof \<Rightarrow> bool" where
  "np_is_valid p = is_ok (np_validate p)"

text \<open>The levels of the diverging headers are the placeholder zero in the source.\<close>

definition diverging :: "nipopow_proof \<Rightarrow> u32 \<Rightarrow> u32 list" where
  "diverging p branch_height = map (\<lambda>_. 0) (filter (\<lambda>h. branch_height < hd_height h) (headers_chain p))"

definition is_better_than :: "nipopow_proof \<Rightarrow> nipopow_proof \<Rightarrow> bool" where
  "is_better_than this other =
     (if \<not> np_is_valid this then False
      else if \<not> np_is_valid other then True
      else let this_ids = map hd_id (headers_chain this) in
        case find (\<lambda>h. hd_id h \<in> set this_ids) (headers_chain other) of
          None \<Rightarrow> tip_height other < tip_height this
        | Some h \<Rightarrow>
            best_arg (diverging other (hd_height h)) (np_m other)
              < best_arg (diverging this (hd_height h)) (np_m this))"

definition np_serialize :: "nipopow_proof \<Rightarrow> bytes" where
  "np_serialize p = []"

definition np_parse :: "bytes \<Rightarrow> consensus_error + nipopow_proof" where
  "np_parse data = Inl (Validation ''NiPoPoW proof parsing not yet implemented'')"

subsection \<open>The verifier\<close>

datatype verification_result =
    BetterChain int
  | NoBetterChain int
  | ValidationError string
  | WrongGenesis

record nipopow_verifier =
  nv_genesis_id :: "bytes option"
  nv_best_proof :: "nipopow_proof option"
  nv_proofs_processed :: int
  nv_min_proofs :: int
  nv_params :: popow_params

definition verifier_new :: nipopow_verifier where
  "verifier_new =
     \<lparr>nv_genesis_id = None, nv_best_proof = None, nv_proofs_processed = 0, nv_min_proofs = 1,
      nv_params = params_default\<rparr>"

definition verifier_with_genesis :: "bytes \<Rightarrow> nipopow_verifier" where
  "verifier_with_genesis g =
     \<lparr>nv_genesis_id = Some g, nv_best_proof = None, nv_proofs_processed = 0, nv_min_proofs = 1,
      nv_params = params_default\<rparr>"

definition verifier_with_params :: "popow_params \<Rightarrow> int \<Rightarrow> nipopow_verifier" where
  "verifier_with_params params min_proofs =
     \<lparr>nv_genesis_id = None, nv_best_proof = None, nv_proofs_processed = 0, nv_min_proofs = min_proofs,
      nv_params = params\<rparr>"

definition best_height :: "nipopow_verifier \<Rightarrow> u32 option" where
  "best_height v = map_option tip_height (nv_best_proof v)"

definition has_quorum :: "nipopow_verifier \<Rightarrow> bool" where
  "has_quorum v = (nv_min_proofs v \<le> nv_proofs_processed v \<and> nv_best_proof v \<noteq> None)"

definition set_genesis_id :: "bytes \<Rightarrow> nipopow_verifier \<Rightarrow> nipopow_verifier" where
  "set_genesis_id g v = v\<lparr>nv_genesis_id := Some g\<rparr>"

text \<open>The text of a consensus error of the kind that validation returns.\<close>

definition error_text :: "consensus_error \<Rightarrow> string" where
  "error_text e = (case e of Validation m \<Rightarrow> ''Validation error: '' @ m | _ \<Rightarrow> [])"

definition incr_i32 :: "int \<Rightarrow> int" where
  "incr_i32 i = (i + 1 + 2 ^ 31) mod 2 ^ 32 - 2 ^ 31"

definition np_process :: "nipopow_proof \<Rightarrow> nipopow_verifier \<Rightarrow> verification_result \<times> nipopow_verifier" where
  "np_process prf v =
     (let v1 = v\<lparr>nv_proofs_processed := incr_i32 (nv_proofs_processed v)\<rparr> in
      case np_validate prf of
        Inl e \<Rightarrow> (ValidationError (error_text e), v1)
      | Inr _ \<Rightarrow>
          if (case nv_genesis_id v1 of
                None \<Rightarrow> False
              | Some expected \<Rightarrow>
                  (case np_genesis_id prf of None \<Rightarrow> False | Some g \<Rightarrow> g \<noteq> expected))
          then (WrongGenesis, v1)
          else let v2 = (if nv_genesis_id v1 = None
                         then case np_genesis_id prf of
                                None \<Rightarrow> v1
                              | Some g \<Rightarrow> v1\<lparr>nv_genesis_id := Some g\<rparr>
                         else v1);
                   is_better = (case nv_best_proof v2 of
                                  None \<Rightarrow> True
                                | Some current_best \<Rightarrow> is_better_than prf current_best)
               in if is_better
                  then (BetterChain (nv_proofs_processed v2), v2\<lparr>nv_best_proof := Some prf\<rparr>)
                  else (NoBetterChain (nv_proofs_processed v2), v2))"

definition nv_reset :: "nipopow_verifier \<Rightarrow> nipopow_verifier" where
  "nv_reset v = v\<lparr>nv_best_proof := None, nv_proofs_processed := 0\<rparr>"

definition get_headers_to_apply :: "nipopow_verifier \<Rightarrow> header list option" where
  "get_headers_to_apply v = (if \<not> has_quorum v then None else map_option headers_chain (nv_best_proof v))"

subsection \<open>The score is the maximum over the valid levels\<close>

lemma level_count_antimono: "a \<le> b \<Longrightarrow> level_count ls b \<le> level_count ls a"
  unfolding level_count_def by (induction ls) auto

lemma level_count_le: "level_count ls level \<le> length ls"
  by (simp add: level_count_def)

lemma superblock_score:
  assumes "level < 32" "c < 2 ^ 31"
  shows "wrap_i64 (shl_one level * int c) = 2 ^ level * int c"
proof -
  define p where "p = (2 :: int) ^ level"
  have p: "0 \<le> p" "p \<le> 2 ^ 31"
    unfolding p_def using assms(1) by (simp, intro power_increasing) simp_all
  then have "wrap_i64 p = p"
    by (intro wrap_i64_id) simp_all
  then have "shl_one level = p"
    using assms(1) by (simp add: shl_one_def p_def)
  moreover have "p * int c \<le> 2 ^ 31 * 2 ^ 31"
    using p assms(2) by (intro mult_mono) simp_all
  moreover have "0 \<le> p * int c"
    using p by simp
  ultimately show ?thesis
    by (simp add: wrap_i64_id p_def [symmetric])
qed

definition valid_scores :: "u32 list \<Rightarrow> nat \<Rightarrow> nat \<Rightarrow> int set" where
  "valid_scores ls m level =
     (\<lambda>\<mu>. 2 ^ \<mu> * int (level_count ls \<mu>)) ` {\<mu> \<in> {level..<32}. m \<le> level_count ls \<mu>}"

lemma best_arg_loop_Max:
  assumes "level_count ls 32 < m" "length ls < 2 ^ 31" "level \<le> 32"
  shows "best_arg_loop (257 - level) ls m best = Max (insert best (valid_scores ls m level))"
  using assms(3)
proof (induction "32 - level" arbitrary: level best)
  case 0
  then have "level = 32"
    by simp
  moreover have "best_arg_loop (Suc 224) ls m best = best"
    unfolding best_arg_loop.simps Let_def using assms(1) by simp
  ultimately show ?case
    by (simp add: valid_scores_def)
next
  case (Suc k)
  then have level: "level < 32" and steps: "257 - level = Suc (256 - level)"
    by simp_all
  define c where "c = level_count ls level"
  have IH: "best_arg_loop (256 - level) ls m b = Max (insert b (valid_scores ls m (Suc level)))" for b
    using Suc.hyps(1) [of "Suc level"] Suc.hyps(2) level by simp
  show ?case
  proof (cases "m \<le> c")
    case True
    have "{level..<32} = insert level {Suc level..<32}"
      using level by auto
    then have scores: "valid_scores ls m level = insert (2 ^ level * int c) (valid_scores ls m (Suc level))"
      using True by (auto simp: valid_scores_def c_def)
    have "c < 2 ^ 31"
      using level_count_le [of ls level] assms(2) by (simp add: c_def)
    then have "best_arg_loop (257 - level) ls m best =
        best_arg_loop (256 - level) ls m (max best (2 ^ level * int c))"
      unfolding steps using level True superblock_score [OF level] by (simp add: Let_def c_def)
    moreover have "Max (insert (max best s) S) = Max (insert best (insert s S))" if "finite S" for s and S :: "int set"
      using that by (cases "S = {}") (simp_all add: max.assoc)
    moreover have "finite (valid_scores ls m (Suc level))"
      by (simp add: valid_scores_def)
    ultimately show ?thesis
      by (simp only: scores IH)
  next
    case False
    then have "valid_scores ls m level = {}"
      using level_count_antimono [of level _ ls] by (force simp: valid_scores_def c_def)
    then show ?thesis
      unfolding steps using level False by (simp add: Let_def c_def)
  qed
qed

text \<open>The score of a chain is the largest of its length and the numbers \<open>2 ^ \<mu> * n\<close>, over the levels
  \<open>\<mu> \<ge> 1\<close> at which it has \<open>n \<ge> m\<close> superblocks, as long as fewer than \<open>m\<close> blocks reach level 32 and
  the chain has fewer than \<open>2 ^ 31\<close> headers: within these bounds no shift or product overflows
  and the safety limit of the loop is not reached.\<close>

theorem best_arg_is_maximum:
  assumes "levels \<noteq> []" "0 < m" "m < 2 ^ 31" "int (level_count levels 32) < m" "length levels < 2 ^ 31"
  shows "best_arg levels m =
    Max (insert (int (length levels))
      {2 ^ \<mu> * int (level_count levels \<mu>) | \<mu>. 1 \<le> \<mu> \<and> m \<le> int (level_count levels \<mu>)})"
proof -
  have m: "as_usize m = nat m"
    using assms(2,3) by (simp add: as_usize_def)
  have "\<mu> < 32" if "m \<le> int (level_count levels \<mu>)" for \<mu>
    using level_count_antimono [of 32 \<mu> levels] assms(4) that by (cases "\<mu> < 32") simp_all
  then have "{2 ^ \<mu> * int (level_count levels \<mu>) | \<mu>. 1 \<le> \<mu> \<and> m \<le> int (level_count levels \<mu>)} =
      valid_scores levels (nat m) 1"
    by (fastforce simp: valid_scores_def)
  then show ?thesis
    using best_arg_loop_Max [of levels "nat m" 1 "int (length levels)"] assms
    by (simp add: best_arg_def m)
qed

theorem best_arg_is_maximum_witness: "best_arg [0, 3, 3, 0] 2 = 16"
proof -
  have "{2 ^ \<mu> * int (level_count [0, 3, 3, 0] \<mu>) | \<mu>. 1 \<le> \<mu> \<and> 2 \<le> int (level_count [0, 3, 3, 0] \<mu>)} = {4, 8, 16}"
  proof -
    have "level_count [0, 3, 3, 0] \<mu> = (if \<mu> = 0 then 4 else if \<mu> \<le> 3 then 2 else 0)" for \<mu>
      by (simp add: level_count_def)
    moreover have "{\<mu>. 1 \<le> \<mu> \<and> \<mu> \<le> (3 :: nat)} = {1, 2, 3}"
      by auto
    ultimately show ?thesis
      by (auto simp: le_Suc_eq numeral_eq_Suc)
  qed
  then show ?thesis
    using best_arg_is_maximum [of "[0, 3, 3, 0]" 2] by (simp add: level_count_def)
qed

subsection \<open>Packed interlinks are read back\<close>

lemma takeWhile_same: "takeWhile (\<lambda>i. i = x) xs = replicate (length (takeWhile (\<lambda>i. i = x) xs)) x"
  by (induction xs) auto

lemma take_run:
  assumes "n \<le> length (takeWhile (\<lambda>i. i = x) xs)"
  shows "take n xs = replicate n x"
proof -
  have "take n xs = take n (takeWhile (\<lambda>i. i = x) xs)"
    using assms by (metis takeWhile_eq_take take_take min.absorb1)
  then show ?thesis
    using assms by (subst (asm) takeWhile_same) (simp add: min_absorb1)
qed

lemma pack_loop_length: "length (pack_loop idx links) \<le> length links"
proof (induction idx links rule: pack_loop.induct)
  case (2 idx link links)
  then show ?case
    by (simp add: Let_def)
qed simp

lemma pack_loop_keys:
  "map fst (pack_loop idx links) =
     map (\<lambda>i. [INTERLINKS_VECTOR_PREFIX, idx + of_nat i]) [0..<length (pack_loop idx links)]"
proof (induction idx links rule: pack_loop.induct)
  case (2 idx link links)
  define n where "n = length (pack_loop (idx + 1)
    (drop (min (length (takeWhile (\<lambda>i. i = link) (link # links))) 255) (link # links)))"
  have "map (\<lambda>i. [INTERLINKS_VECTOR_PREFIX, idx + of_nat i]) [0..<Suc n] =
      [INTERLINKS_VECTOR_PREFIX, idx] # map (\<lambda>i. [INTERLINKS_VECTOR_PREFIX, idx + 1 + of_nat i]) [0..<n]"
    by (simp only: upt_conv_Cons [of 0 "Suc n"] zero_less_Suc map_Suc_upt [symmetric])
       (simp add: comp_def algebra_simps)
  then show ?case
    using 2 by (simp add: Let_def n_def del: upt_Suc)
qed simp

lemma unpack_loop_pack_loop:
  assumes "\<forall>l \<in> set links. length l = 32"
  shows "unpack_loop (pack_loop idx links) acc = Inr (acc @ links)"
  using assms
proof (induction idx links arbitrary: acc rule: pack_loop.induct)
  case (2 idx link links)
  define count where "count = min (length (takeWhile (\<lambda>i. i = link) (link # links))) 255"
  have bounds: "0 < count" "count < 256" and run: "take count (link # links) = replicate count link"
    using take_run [of count link "link # links"] by (simp_all add: count_def)
  have step: "pack_loop idx (link # links) =
      ([INTERLINKS_VECTOR_PREFIX, idx], of_nat count # link) # pack_loop (idx + 1) (drop count (link # links))"
    by (simp only: pack_loop.simps Let_def count_def)
  have "unat (of_nat count :: u8) = count"
    using bounds by (simp add: unat_of_nat)
  moreover have "replicate count link @ drop count (link # links) = link # links"
    using run by (metis append_take_drop_id)
  moreover have "\<forall>l \<in> set (drop count (link # links)). length l = 32"
    using 2(2) in_set_dropD by metis
  ultimately show ?case
    using 2(1) [OF count_def] 2(2) bounds(1) by (simp only: step unpack_loop.simps) (simp add: Let_def)
qed simp

lemma interlink_field_pack:
  assumes "\<forall>l \<in> set links. length l = 32"
  shows "\<forall>kv \<in> set (pack_loop idx links). interlink_field kv"
  using assms
proof (induction idx links rule: pack_loop.induct)
  case (2 idx link links)
  then show ?case
    by (auto simp: Let_def interlink_field_def dest: in_set_dropD)
qed simp

lemma pack_sorted:
  assumes "length (pack_interlinks links) \<le> 256"
  shows "sorted (map (\<lambda>kv. fst kv ! 1) (pack_interlinks links))"
proof -
  have "map (\<lambda>kv. fst kv ! 1) (pack_interlinks links) =
      map (\<lambda>k. k ! 1) (map fst (pack_interlinks links))"
    by simp
  also have "\<dots> = map (\<lambda>i. of_nat i) [0..<length (pack_interlinks links)]"
    unfolding pack_interlinks_def by (simp only: pack_loop_keys [of 0 links] map_map) (simp add: comp_def)
  finally show ?thesis
    using assms by (auto simp: sorted_iff_nth_mono word_le_nat_alt unat_of_nat)
qed

text \<open>Interlinks of 32-byte identifiers that pack into at most 256 fields are read back from an
  extension: whatever else the extension holds, as long as its interlink fields are the packed
  ones in order, unpacking returns the very list that was packed.\<close>

theorem interlinks_roundtrip:
  assumes "\<forall>l \<in> set links. length l = 32" "length (pack_interlinks links) \<le> 256"
    and "filter interlink_field kvs = pack_interlinks links"
  shows "unpack_interlinks kvs = Inr links"
  unfolding unpack_interlinks_def assms(3) sort_key_id_if_sorted [OF pack_sorted [OF assms(2)]]
  using unpack_loop_pack_loop [OF assms(1), of 0 "[]"] by (simp add: pack_interlinks_def)

theorem interlinks_roundtrip_witness:
  "unpack_interlinks (([0, 0], []) # pack_interlinks [replicate 32 7, replicate 32 9, replicate 32 9]) =
     Inr [replicate 32 7, replicate 32 9, replicate 32 9]"
proof (rule interlinks_roundtrip)
  have "filter interlink_field (pack_interlinks ls) = pack_interlinks ls" if "\<forall>l \<in> set ls. length l = 32" for ls
    using interlink_field_pack [OF that] by (simp add: pack_interlinks_def)
  then show "filter interlink_field (([0, 0], []) # pack_interlinks [replicate 32 7, replicate 32 9, replicate 32 9]) =
      pack_interlinks [replicate 32 7, replicate 32 9, replicate 32 9]"
    by (simp add: interlink_field_def)
  show "length (pack_interlinks [replicate 32 7, replicate 32 9, replicate 32 9]) \<le> 256"
    using pack_loop_length [of 0 "[replicate 32 7, replicate 32 9, replicate 32 9]"] by (simp add: pack_interlinks_def)
qed simp

subsection \<open>What a validated proof is\<close>

lemma heights_increase_sorted: "heights_increase hs \<Longrightarrow> sorted_wrt (<) hs"
proof (induction hs rule: heights_increase.induct)
  case (1 a b hs)
  then have "a < b" "sorted_wrt (<) (b # hs)"
    by (auto split: if_splits)
  then show ?case
    by (auto intro: less_trans)
qed simp_all

lemma parent_chain_nth:
  assumes "parent_chain prev hs" "i < length hs"
  shows "hd_parent_id (hs ! i) = (prev # map hd_id hs) ! i"
  using assms by (induction prev hs arbitrary: i rule: parent_chain.induct) (auto simp: nth_Cons split: if_splits nat.splits)

lemma prefix_connected_nth:
  assumes "prefix_connected ps" "Suc i < length ps"
  shows "connects_to (ps ! Suc i) (ph_id (ps ! i))"
  using assms by (induction ps arbitrary: i rule: prefix_connected.induct) (auto simp: nth_Cons split: if_splits nat.splits)

lemma np_validate_iff:
  "np_validate p = Inr () \<longleftrightarrow>
     np_prefix p \<noteq> [] \<and> 1 \<le> np_k p \<and> 1 + length (np_suffix_tail p) = as_usize (np_k p)
       \<and> has_valid_heights p \<and> has_valid_connections p"
  by (auto simp: np_validate_def Let_def)

lemma np_is_valid_iff: "np_is_valid p \<longleftrightarrow> np_validate p = Inr ()"
  by (cases "np_validate p") (simp_all add: np_is_valid_def)

text \<open>A proof that passes validation has a non-empty prefix and a suffix of exactly \<open>k\<close> headers, the
  heights of its headers strictly increase from the first to the last, consecutive headers of
  the prefix are linked by the parent or by an interlink, and every header after the suffix head
  names its predecessor as parent.\<close>

theorem valid_proof_is_chain:
  assumes "np_is_valid p" "np_k p < 2 ^ 31"
  shows "np_prefix p \<noteq> []
    \<and> int (length (np_suffix_tail p)) = np_k p - 1
    \<and> sorted_wrt (<) (map hd_height (headers_chain p))
    \<and> (\<forall>i. Suc i < length (np_prefix p) \<longrightarrow> connects_to (np_prefix p ! Suc i) (ph_id (np_prefix p ! i)))
    \<and> connects_to (np_suffix_head p) (ph_id (last (np_prefix p)))
    \<and> (\<forall>j < length (np_suffix_tail p).
          hd_parent_id (np_suffix_tail p ! j) = (ph_id (np_suffix_head p) # map hd_id (np_suffix_tail p)) ! j)"
proof -
  have valid: "np_prefix p \<noteq> []" "1 \<le> np_k p" "1 + length (np_suffix_tail p) = as_usize (np_k p)"
      "has_valid_heights p" "has_valid_connections p"
    using assms(1) by (simp_all add: np_is_valid_iff np_validate_iff)
  then have conn: "prefix_connected (np_prefix p)" "connects_to (np_suffix_head p) (ph_id (last (np_prefix p)))"
      "parent_chain (ph_id (np_suffix_head p)) (np_suffix_tail p)"
    by (auto simp: has_valid_connections_def split: if_splits)
  have "int (length (np_suffix_tail p)) = np_k p - 1"
    using valid(2,3) assms(2) by (simp add: as_usize_def)
  moreover have "sorted_wrt (<) (map hd_height (headers_chain p))"
    using valid(4) heights_increase_sorted by (simp add: has_valid_heights_def)
  ultimately show ?thesis
    using valid(1) conn(2) prefix_connected_nth [OF conn(1)] parent_chain_nth [OF conn(3)] by blast
qed

definition sample_header :: "u8 \<Rightarrow> u8 \<Rightarrow> u32 \<Rightarrow> header" where
  "sample_header i parent height =
     genesis_parent_header\<lparr>hd_id := [i], hd_parent_id := [parent], hd_height := height\<rparr>"

definition sample_proof :: nipopow_proof where
  "sample_proof =
     \<lparr>np_m = 1, np_k = 2,
      np_prefix = [\<lparr>ph_header = sample_header 1 0 1, ph_interlinks = [], ph_interlinks_proof = []\<rparr>],
      np_suffix_head = \<lparr>ph_header = sample_header 5 4 5, ph_interlinks = [[1]], ph_interlinks_proof = []\<rparr>,
      np_suffix_tail = [sample_header 6 5 6], np_continuous = False\<rparr>"

lemma sample_proof_valid: "np_is_valid sample_proof"
  by (simp add: np_is_valid_def np_validate_def sample_proof_def sample_header_def Let_def as_usize_def
    has_valid_heights_def headers_chain_def has_valid_connections_def connects_to_def ph_id_def ph_parent_id_def
    word_le_nat_alt)

theorem valid_proof_is_chain_witness:
  "sorted_wrt (<) (map hd_height (headers_chain sample_proof)) \<and> hd_parent_id (np_suffix_tail sample_proof ! 0) = [5]"
  using valid_proof_is_chain [OF sample_proof_valid]
  by (simp add: sample_proof_def sample_header_def ph_id_def)

subsection \<open>What the comparison of two proofs computes\<close>

lemma level_count_zeros: "0 < level \<Longrightarrow> level_count (map (\<lambda>_. 0) hs) level = 0"
  by (simp add: level_count_def)

lemma best_arg_zeros:
  assumes "0 < m" "m < 2 ^ 31"
  shows "best_arg (map (\<lambda>_. 0) hs) m = int (length hs)"
proof -
  have "0 < as_usize m"
    using assms by (simp add: as_usize_def)
  then have "best_arg_loop (Suc 255) (map (\<lambda>_. 0) hs) (as_usize m) b = b" for b
    unfolding best_arg_loop.simps Let_def by (simp add: level_count_zeros)
  then show ?thesis
    by (simp add: best_arg_def)
qed

lemma best_arg_diverging:
  assumes "0 < np_m p" "np_m p < 2 ^ 31"
  shows "best_arg (diverging p h) (np_m p) = int (length (filter (\<lambda>x. h < hd_height x) (headers_chain p)))"
  unfolding diverging_def by (rule best_arg_zeros [OF assms])

text \<open>Of two valid proofs with a common header the one that wins is the one with more headers above
  the FIRST header of the other proof that occurs in it: since the first common header is the
  genesis block whenever the proofs have the same genesis, the comparison counts all headers of
  the two proofs and neither the levels nor the difficulty of the blocks enter it.\<close>

theorem better_proof_has_more_headers:
  assumes "np_is_valid p" "np_is_valid q" "np_genesis_id p = np_genesis_id q"
    and "0 < np_m p" "np_m p < 2 ^ 31" "0 < np_m q" "np_m q < 2 ^ 31"
    and "hd_height (hd (headers_chain p)) = hd_height (hd (headers_chain q))"
  shows "is_better_than p q \<longleftrightarrow> length (headers_chain q) < length (headers_chain p)"
proof -
  have prefixes: "np_prefix p \<noteq> []" "np_prefix q \<noteq> []"
    using assms(1,2) by (simp_all add: np_is_valid_iff np_validate_iff)
  obtain a as b bs where chains: "headers_chain p = a # as" "headers_chain q = b # bs"
    using prefixes by (cases "np_prefix p"; cases "np_prefix q") (simp_all add: headers_chain_def)
  have ids: "hd_id a = hd_id b" "hd_height a = hd_height b"
    using assms(3,8) chains prefixes
    by (auto simp: np_genesis_id_def headers_chain_def ph_id_def neq_Nil_conv)
  have above: "filter (\<lambda>x. hd_height h < hd_height x) (h # hs) = hs"
    if "sorted_wrt (<) (map hd_height (h # hs))" for h and hs :: "header list"
    using that by (simp add: sorted_wrt_map filter_id_conv)
  have sorted: "sorted_wrt (<) (map hd_height (a # as))" "sorted_wrt (<) (map hd_height (b # bs))"
    using assms(1,2) heights_increase_sorted
    by (simp_all only: np_is_valid_iff np_validate_iff has_valid_heights_def chains [symmetric])
  have "find (\<lambda>h. hd_id h \<in> set (map hd_id (headers_chain p))) (headers_chain q) = Some b"
    by (simp add: chains ids)
  then have "is_better_than p q \<longleftrightarrow>
      length (filter (\<lambda>x. hd_height b < hd_height x) (headers_chain q))
        < length (filter (\<lambda>x. hd_height b < hd_height x) (headers_chain p))"
    unfolding is_better_than_def Let_def using assms by (simp add: best_arg_diverging)
  then show ?thesis
    unfolding chains using above [OF sorted(1)] above [OF sorted(2)] ids by simp
qed

definition longer_proof :: nipopow_proof where
  "longer_proof =
     sample_proof\<lparr>np_prefix := np_prefix sample_proof @
       [\<lparr>ph_header = sample_header 3 2 3, ph_interlinks = [[1]], ph_interlinks_proof = []\<rparr>],
       np_suffix_head := \<lparr>ph_header = sample_header 5 4 5, ph_interlinks = [[1], [3]], ph_interlinks_proof = []\<rparr>\<rparr>"

lemma longer_proof_valid: "np_is_valid longer_proof"
  by (simp add: np_is_valid_def np_validate_def longer_proof_def sample_proof_def sample_header_def Let_def
    as_usize_def has_valid_heights_def headers_chain_def has_valid_connections_def connects_to_def ph_id_def
    ph_parent_id_def word_le_nat_alt)

theorem better_proof_has_more_headers_witness: "is_better_than longer_proof sample_proof"
proof -
  have "length (headers_chain sample_proof) < length (headers_chain longer_proof)"
    by (simp add: longer_proof_def sample_proof_def headers_chain_def)
  moreover have "np_genesis_id longer_proof = np_genesis_id sample_proof"
    by (simp add: longer_proof_def sample_proof_def np_genesis_id_def)
  moreover have "hd_height (hd (headers_chain longer_proof)) = hd_height (hd (headers_chain sample_proof))"
    by (simp add: longer_proof_def sample_proof_def headers_chain_def)
  ultimately show ?thesis
    using better_proof_has_more_headers [OF longer_proof_valid sample_proof_valid]
    by (simp add: longer_proof_def sample_proof_def)
qed

subsection \<open>The verifier only holds validated proofs of its genesis\<close>

definition verifier_ok :: "nipopow_verifier \<Rightarrow> bool" where
  "verifier_ok v =
     (case nv_best_proof v of
        None \<Rightarrow> True
      | Some p \<Rightarrow> np_is_valid p \<and> nv_genesis_id v \<noteq> None \<and> np_genesis_id p = nv_genesis_id v)"

lemma valid_genesis: "np_is_valid p \<Longrightarrow> \<exists>g. np_genesis_id p = Some g"
  by (auto simp: np_is_valid_iff np_validate_iff np_genesis_id_def split: list.split)

lemma verifier_ok_process: "verifier_ok v \<Longrightarrow> verifier_ok (snd (np_process p v))"
proof (cases "np_validate p")
  case (Inr u)
  then have "np_is_valid p"
    by (simp add: np_is_valid_def)
  moreover obtain g where "np_genesis_id p = Some g"
    using valid_genesis [OF calculation] by blast
  moreover assume "verifier_ok v"
  ultimately show ?thesis
    using Inr by (auto simp: np_process_def verifier_ok_def Let_def split: option.splits)
qed (auto simp: np_process_def verifier_ok_def Let_def split: option.splits)

datatype verifier_op = Op_process nipopow_proof | Op_reset

definition verifier_step :: "verifier_op \<Rightarrow> nipopow_verifier \<Rightarrow> nipopow_verifier" where
  "verifier_step opn v = (case opn of Op_process p \<Rightarrow> snd (np_process p v) | Op_reset \<Rightarrow> nv_reset v)"

lemma verifier_ok_steps: "verifier_ok v \<Longrightarrow> verifier_ok (fold verifier_step ops v)"
proof (induction ops arbitrary: v)
  case (Cons opn ops)
  have "verifier_ok (verifier_step opn v)"
    using verifier_ok_process [OF Cons.prems]
    by (cases opn) (simp_all add: verifier_step_def verifier_ok_def nv_reset_def)
  then show ?case
    using Cons.IH by simp
qed simp

text \<open>Whatever proofs a verifier is given and however often it is reset, the headers it offers to
  apply once it has a quorum are those of a proof that passed validation, begin with the genesis
  block it was created for (or with the one of the first accepted proof), and have strictly
  increasing heights.\<close>

theorem verifier_offers_valid_headers:
  assumes "v = fold verifier_step ops v0" "v0 \<in> {verifier_new, verifier_with_genesis g, verifier_with_params ps n}"
    and "get_headers_to_apply v = Some hs"
  shows "\<exists>p. nv_best_proof v = Some p \<and> np_is_valid p \<and> hs = headers_chain p
    \<and> nv_genesis_id v = Some (hd_id (hd hs)) \<and> sorted_wrt (<) (map hd_height hs)"
proof -
  have "verifier_ok v0"
    using assms(2) by (auto simp: verifier_ok_def verifier_new_def verifier_with_genesis_def verifier_with_params_def)
  then have ok: "verifier_ok v"
    unfolding assms(1) by (rule verifier_ok_steps)
  obtain p where p: "nv_best_proof v = Some p" "hs = headers_chain p"
    using assms(3) by (auto simp: get_headers_to_apply_def split: if_splits)
  with ok have "np_is_valid p" "nv_genesis_id v = np_genesis_id p"
    by (simp_all add: verifier_ok_def)
  moreover have "np_genesis_id p = Some (hd_id (hd (headers_chain p)))" if "np_prefix p \<noteq> []"
    using that by (auto simp: np_genesis_id_def headers_chain_def ph_id_def neq_Nil_conv)
  ultimately show ?thesis
    using p heights_increase_sorted by (simp add: np_is_valid_iff np_validate_iff has_valid_heights_def)
qed

theorem verifier_offers_valid_headers_witness:
  "\<exists>p. nv_best_proof (fold verifier_step [Op_reset, Op_process sample_proof] verifier_new) = Some p
     \<and> np_is_valid p \<and> sorted_wrt (<) (map hd_height (headers_chain p))"
proof -
  define v where "v = fold verifier_step [Op_reset, Op_process sample_proof] verifier_new"
  have "get_headers_to_apply v = Some (headers_chain sample_proof)"
    using sample_proof_valid
    by (simp add: v_def verifier_step_def np_process_def nv_reset_def verifier_new_def np_is_valid_iff
      np_genesis_id_def get_headers_to_apply_def has_quorum_def incr_i32_def split: list.split)
  from verifier_offers_valid_headers [OF v_def _ this] show ?thesis
    unfolding v_def [symmetric] by simp metis
qed

end
