(* ===== verification/Storage.thy ===== *)
theory Storage
  imports Containers Mempool_Order
begin

text \<open>
  The storage layer (\<open>crates/ergo-storage/src/\<close>): column families, write batches (\<open>batch.rs\<close>) and
  the operations of the \<open>Storage\<close> trait (\<open>lib.rs\<close>) as \<open>database.rs\<close> performs them. A column family
  is the list of its entries in the order of their keys, the order in which RocksDB keeps and
  iterates byte strings. The files, caches and the write-ahead log are not modelled, and the
  operations of RocksDB are taken to succeed.

  The locale \<open>kv_store\<close> states what the clients rely on: a lookup after a put or a delete. In it
  the effect of a whole batch is reduced to the last operation on each key.
\<close>

declare map_of_eq_Some_iff [simp del] Some_eq_map_of_iff [simp del]

subsection \<open>Column families and batches\<close>

datatype column_family =
    CF_Headers | CF_BlockTransactions | CF_Extensions | CF_AdProofs | CF_Utxo | CF_UtxoSnapshots
  | CF_HeaderChain | CF_TxIndex | CF_UndoData | CF_ErgoTreeIndex | CF_TokenIndex
  | CF_CumulativeDifficulty | CF_Metadata | CF_ExtraIndex | CF_BoxIndex | CF_TxNumericIndex
  | CF_Scans | CF_ScanBoxes | CF_Default

fun cf_name :: "column_family \<Rightarrow> string" where
  "cf_name CF_Headers = ''headers''"
| "cf_name CF_BlockTransactions = ''block_transactions''"
| "cf_name CF_Extensions = ''extensions''"
| "cf_name CF_AdProofs = ''ad_proofs''"
| "cf_name CF_Utxo = ''utxo''"
| "cf_name CF_UtxoSnapshots = ''utxo_snapshots''"
| "cf_name CF_HeaderChain = ''header_chain''"
| "cf_name CF_TxIndex = ''tx_index''"
| "cf_name CF_UndoData = ''undo_data''"
| "cf_name CF_ErgoTreeIndex = ''ergotree_index''"
| "cf_name CF_TokenIndex = ''token_index''"
| "cf_name CF_CumulativeDifficulty = ''cumulative_difficulty''"
| "cf_name CF_Metadata = ''metadata''"
| "cf_name CF_ExtraIndex = ''extra_index''"
| "cf_name CF_BoxIndex = ''box_index''"
| "cf_name CF_TxNumericIndex = ''tx_numeric_index''"
| "cf_name CF_Scans = ''scans''"
| "cf_name CF_ScanBoxes = ''scan_boxes''"
| "cf_name CF_Default = ''default''"

definition cf_all :: "column_family list" where
  "cf_all =
     [CF_Headers, CF_BlockTransactions, CF_Extensions, CF_AdProofs, CF_Utxo, CF_UtxoSnapshots,
      CF_HeaderChain, CF_TxIndex, CF_UndoData, CF_ErgoTreeIndex, CF_TokenIndex,
      CF_CumulativeDifficulty, CF_Metadata, CF_ExtraIndex, CF_BoxIndex, CF_TxNumericIndex,
      CF_Scans, CF_ScanBoxes, CF_Default]"

text \<open>Every family is opened, and no two share a name.\<close>

lemma cf_all_complete: "set cf_all = UNIV"
proof -
  have "cf \<in> set cf_all" for cf
    by (cases cf) (simp_all add: cf_all_def)
  then show ?thesis
    by blast
qed

lemma cf_names_distinct: "distinct (map cf_name cf_all)"
  by (simp add: cf_all_def)

datatype operation_kind = Put bytes | Delete

record batch_operation =
  bo_cf :: column_family
  bo_key :: bytes
  bo_kind :: operation_kind

type_synonym write_batch = "batch_operation list"

definition batch_new :: write_batch where
  "batch_new = []"

definition batch_put :: "column_family \<Rightarrow> bytes \<Rightarrow> bytes \<Rightarrow> write_batch \<Rightarrow> write_batch" where
  "batch_put cf key v b = b @ [\<lparr>bo_cf = cf, bo_key = key, bo_kind = Put v\<rparr>]"

definition batch_delete :: "column_family \<Rightarrow> bytes \<Rightarrow> write_batch \<Rightarrow> write_batch" where
  "batch_delete cf key b = b @ [\<lparr>bo_cf = cf, bo_key = key, bo_kind = Delete\<rparr>]"

definition batch_len :: "write_batch \<Rightarrow> nat" where
  "batch_len b = length b"

definition batch_is_empty :: "write_batch \<Rightarrow> bool" where
  "batch_is_empty b = (b = [])"

definition batch_clear :: "write_batch \<Rightarrow> write_batch" where
  "batch_clear b = []"

definition batch_merge :: "write_batch \<Rightarrow> write_batch \<Rightarrow> write_batch" where
  "batch_merge other b = b @ other"

subsection \<open>The database\<close>

fun kv_put :: "bytes \<Rightarrow> bytes \<Rightarrow> (bytes \<times> bytes) list \<Rightarrow> (bytes \<times> bytes) list" where
  "kv_put k v [] = [(k, v)]"
| "kv_put k v ((k', v') # kvs) =
     (if k = k' then (k, v) # kvs
      else if k < k' then (k, v) # (k', v') # kvs
      else (k', v') # kv_put k v kvs)"

definition kv_delete :: "bytes \<Rightarrow> (bytes \<times> bytes) list \<Rightarrow> (bytes \<times> bytes) list" where
  "kv_delete k kvs = filter (\<lambda>kv. fst kv \<noteq> k) kvs"

record database =
  db_cfs :: "column_family \<Rightarrow> (bytes \<times> bytes) list"
  db_sync_mode :: bool
  db_batch_write_count :: u64

definition db_empty :: database where
  "db_empty = \<lparr>db_cfs = (\<lambda>_. []), db_sync_mode = False, db_batch_write_count = 0\<rparr>"

definition db_set_sync_mode :: "bool \<Rightarrow> database \<Rightarrow> database" where
  "db_set_sync_mode enabled db = db\<lparr>db_sync_mode := enabled\<rparr>"

definition db_get :: "database \<Rightarrow> column_family \<Rightarrow> bytes \<Rightarrow> bytes option" where
  "db_get db cf key = map_of (db_cfs db cf) key"

definition db_put :: "column_family \<Rightarrow> bytes \<Rightarrow> bytes \<Rightarrow> database \<Rightarrow> database" where
  "db_put cf key v db = db\<lparr>db_cfs := (db_cfs db)(cf := kv_put key v (db_cfs db cf))\<rparr>"

definition db_delete :: "column_family \<Rightarrow> bytes \<Rightarrow> database \<Rightarrow> database" where
  "db_delete cf key db = db\<lparr>db_cfs := (db_cfs db)(cf := kv_delete key (db_cfs db cf))\<rparr>"

definition db_contains :: "database \<Rightarrow> column_family \<Rightarrow> bytes \<Rightarrow> bool" where
  "db_contains db cf key = (db_get db cf key \<noteq> None)"

definition db_apply :: "batch_operation \<Rightarrow> database \<Rightarrow> database" where
  "db_apply opn db =
     (case bo_kind opn of
        Put v \<Rightarrow> db_put (bo_cf opn) (bo_key opn) v db
      | Delete \<Rightarrow> db_delete (bo_cf opn) (bo_key opn) db)"

definition db_write_batch :: "write_batch \<Rightarrow> database \<Rightarrow> database" where
  "db_write_batch b db =
     fold db_apply b (db\<lparr>db_batch_write_count := db_batch_write_count db + 1\<rparr>)"

definition db_iter :: "database \<Rightarrow> column_family \<Rightarrow> (bytes \<times> bytes) list" where
  "db_iter db cf = db_cfs db cf"

definition db_multi_get :: "database \<Rightarrow> column_family \<Rightarrow> bytes list \<Rightarrow> bytes option list" where
  "db_multi_get db cf keys = (if keys = [] then [] else map (db_get db cf) keys)"

subsection \<open>What a store promises\<close>

text \<open>The last operation of a batch on a key decides: \<open>None\<close> when there is none.\<close>

fun last_write :: "('c \<times> 'k \<times> 'v option) list \<Rightarrow> 'c \<Rightarrow> 'k \<Rightarrow> 'v option option" where
  "last_write [] c k = None"
| "last_write ((c', k', w) # ws) c k =
     (case last_write ws c k of
        Some r \<Rightarrow> Some r
      | None \<Rightarrow> if c' = c \<and> k' = k then Some w else None)"

lemma last_write_append:
  "last_write (xs @ ys) c k = (case last_write ys c k of Some r \<Rightarrow> Some r | None \<Rightarrow> last_write xs c k)"
  by (induction xs c k rule: last_write.induct) (auto split: option.split)

lemma last_write_untouched: "\<forall>w \<in> set ws. fst w \<noteq> c \<or> fst (snd w) \<noteq> k \<Longrightarrow> last_write ws c k = None"
  by (induction ws c k rule: last_write.induct) auto

locale kv_store =
  fixes get :: "'db \<Rightarrow> 'c \<Rightarrow> 'k \<Rightarrow> 'v option"
    and put :: "'c \<Rightarrow> 'k \<Rightarrow> 'v \<Rightarrow> 'db \<Rightarrow> 'db"
    and del :: "'c \<Rightarrow> 'k \<Rightarrow> 'db \<Rightarrow> 'db"
  assumes get_put: "get (put c k v db) c' k' = (if c' = c \<and> k' = k then Some v else get db c' k')"
    and get_del: "get (del c k db) c' k' = (if c' = c \<and> k' = k then None else get db c' k')"
begin

lemma get_fold_writes:
  "get (fold (\<lambda>(c, k, w) db. case w of None \<Rightarrow> del c k db | Some v \<Rightarrow> put c k v db) ws db) c' k' =
     (case last_write ws c' k' of Some r \<Rightarrow> r | None \<Rightarrow> get db c' k')"
proof (induction ws arbitrary: db)
  case (Cons w ws)
  obtain c k v where "w = (c, k, v)"
    by (cases w)
  then show ?case
    using Cons by (cases v) (auto simp: get_put get_del split: option.split)
qed simp

end

lemma map_of_kv_put: "map_of (kv_put k v kvs) = (map_of kvs)(k \<mapsto> v)"
  by (induction k v kvs rule: kv_put.induct) (auto simp: fun_eq_iff)

lemma map_of_kv_delete: "map_of (kv_delete k kvs) = (map_of kvs)(k := None)"
  by (induction kvs) (auto simp: kv_delete_def fun_eq_iff)

interpretation db: kv_store db_get db_put db_delete
  by unfold_locales (simp_all add: db_get_def db_put_def db_delete_def map_of_kv_put map_of_kv_delete)

definition write_of :: "batch_operation \<Rightarrow> column_family \<times> bytes \<times> bytes option" where
  "write_of opn = (bo_cf opn, bo_key opn, case bo_kind opn of Put v \<Rightarrow> Some v | Delete \<Rightarrow> None)"

definition batch_lookup :: "write_batch \<Rightarrow> column_family \<Rightarrow> bytes \<Rightarrow> bytes option option" where
  "batch_lookup b = last_write (map write_of b)"

lemma db_get_count [simp]: "db_get (db\<lparr>db_batch_write_count := n\<rparr>) = db_get db"
  by (simp add: db_get_def fun_eq_iff)

lemma db_apply_write:
  "db_apply opn = (\<lambda>(c, k, w) db. case w of None \<Rightarrow> db_delete c k db | Some v \<Rightarrow> db_put c k v db) (write_of opn)"
  by (auto simp: db_apply_def write_of_def fun_eq_iff split: operation_kind.split)

lemma db_get_write_batch:
  "db_get (db_write_batch b db) cf key =
     (case batch_lookup b cf key of Some r \<Rightarrow> r | None \<Rightarrow> db_get db cf key)"
proof -
  have "fold db_apply b db' =
      fold (\<lambda>(c, k, w) db. case w of None \<Rightarrow> db_delete c k db | Some v \<Rightarrow> db_put c k v db) (map write_of b) db'" for db'
    by (induction b arbitrary: db') (simp_all add: db_apply_write)
  then show ?thesis
    by (simp add: db_write_batch_def batch_lookup_def db.get_fold_writes split: option.split)
qed

lemma batch_lookup_Nil [simp]: "batch_lookup [] cf key = None"
  by (simp add: batch_lookup_def)

lemma batch_lookup_new [simp]: "batch_lookup batch_new cf key = None"
  by (simp add: batch_new_def)

lemma batch_lookup_append:
  "batch_lookup (a @ b) cf key = (case batch_lookup b cf key of Some r \<Rightarrow> Some r | None \<Rightarrow> batch_lookup a cf key)"
  by (simp add: batch_lookup_def last_write_append split: option.split)

lemma batch_lookup_put [simp]:
  "batch_lookup (batch_put cf key v b) cf' key' = (if cf' = cf \<and> key' = key then Some (Some v) else batch_lookup b cf' key')"
  by (auto simp: batch_put_def batch_lookup_append) (simp_all add: batch_lookup_def write_of_def)

lemma batch_lookup_delete [simp]:
  "batch_lookup (batch_delete cf key b) cf' key' = (if cf' = cf \<and> key' = key then Some None else batch_lookup b cf' key')"
  by (auto simp: batch_delete_def batch_lookup_append) (simp_all add: batch_lookup_def write_of_def)

lemma batch_lookup_other_cf: "\<forall>opn \<in> set b. bo_cf opn \<noteq> cf \<Longrightarrow> batch_lookup b cf key = None"
  unfolding batch_lookup_def by (rule last_write_untouched) (auto simp: write_of_def)

subsection \<open>Keys stay sorted\<close>

definition kv_sorted :: "(bytes \<times> bytes) list \<Rightarrow> bool" where
  "kv_sorted kvs = sorted_wrt (<) (map fst kvs)"

lemma set_kv_put_keys: "fst ` set (kv_put k v kvs) = insert k (fst ` set kvs)"
  by (induction k v kvs rule: kv_put.induct) auto

lemma kv_sorted_put: "kv_sorted kvs \<Longrightarrow> kv_sorted (kv_put k v kvs)"
proof (induction k v kvs rule: kv_put.induct)
  case (2 k v k' v' kvs)
  then have "kv_sorted kvs" "\<forall>x \<in> fst ` set kvs. k' < x"
    by (auto simp: kv_sorted_def)
  moreover have "k' < k" if "k \<noteq> k'" "\<not> k < k'"
    using that by simp
  ultimately show ?case
    using 2 by (auto simp: kv_sorted_def set_kv_put_keys intro: less_trans)
qed (simp add: kv_sorted_def)

lemma kv_sorted_delete: "kv_sorted kvs \<Longrightarrow> kv_sorted (kv_delete k kvs)"
  unfolding kv_sorted_def kv_delete_def by (induction kvs) auto

definition db_ok :: "database \<Rightarrow> bool" where
  "db_ok db = (\<forall>cf. kv_sorted (db_cfs db cf))"

lemma db_ok_empty: "db_ok db_empty"
  by (simp add: db_ok_def db_empty_def kv_sorted_def)

lemma db_ok_put: "db_ok db \<Longrightarrow> db_ok (db_put cf key v db)"
  by (simp add: db_ok_def db_put_def kv_sorted_put)

lemma db_ok_delete: "db_ok db \<Longrightarrow> db_ok (db_delete cf key db)"
  by (simp add: db_ok_def db_delete_def kv_sorted_delete)

lemma db_ok_write_batch: "db_ok db \<Longrightarrow> db_ok (db_write_batch b db)"
proof -
  have "db_ok (fold db_apply b db')" if "db_ok db'" for db'
    using that by (induction b arbitrary: db')
      (auto simp: db_apply_def db_ok_put db_ok_delete split: operation_kind.split)
  moreover assume "db_ok db"
  then have "db_ok (db\<lparr>db_batch_write_count := db_batch_write_count db + 1\<rparr>)"
    by (simp add: db_ok_def)
  ultimately show ?thesis
    by (simp add: db_write_batch_def)
qed

lemma db_iter_get:
  assumes "db_ok db"
  shows "(key, v) \<in> set (db_iter db cf) \<longleftrightarrow> db_get db cf key = Some v"
proof -
  have "distinct (map fst (db_cfs db cf))"
    using assms strict_sorted_iff by (auto simp: db_ok_def kv_sorted_def)
  then show ?thesis
    by (simp add: db_iter_def db_get_def map_of_eq_Some_iff)
qed

end
