(* ===== verification/Utxo.thy ===== *)
theory Utxo
  imports Storage Consensus
begin

text \<open>
  The set of unspent boxes (\<open>crates/ergo-state/src/utxo.rs\<close>) over the storage: box entries and undo
  records with their byte formats, the address and token indexes, application of the changes of
  a block, the batched variants, and rollback. The storage is shared with the history, so every
  operation takes the database and the in-memory part and returns both. Boxes are those of
  \<open>ergo_lib\<close>: their serialisation, identifier, script and tokens are a parameter.

  The abstract set is the map \<open>utxo_view\<close>. It is shown that a change removes the spent boxes and
  adds the created ones or fails without effect, that rolling back restores the set, and where
  the code departs from this: boxes created and spent in one block stay in the set, and of
  several boxes with one script only the last is entered in the index.
\<close>

declare map_of_eq_Some_iff [simp del] Some_eq_map_of_iff [simp del]

subsection \<open>Errors\<close>

datatype state_error =
    SE_Storage string
  | SE_Consensus consensus_error
  | SE_BoxNotFound string
  | SE_BlockNotFound string
  | SE_HeaderNotFound string
  | SE_InvalidTransition string
  | SE_RollbackFailed string
  | SE_SnapshotNotFound u32
  | SE_StateRootMismatch u32 string string
  | SE_Serialization string
  | SE_AvlTree string

text \<open>\<open>hex::encode\<close>; the texts of third-party errors are abbreviated.\<close>

definition hex_digit :: "nat \<Rightarrow> char" where
  "hex_digit d = ''0123456789abcdef'' ! (d mod 16)"

definition hex_encode :: "bytes \<Rightarrow> string" where
  "hex_encode bs = concat (map (\<lambda>b. [hex_digit (unat b div 16), hex_digit (unat b)]) bs)"

subsection \<open>Box entries\<close>

text \<open>What the code uses of a box of \<open>ergo_lib\<close>; \<open>None\<close> is an error of its serialiser.\<close>

record 'b box_env =
  sigma_serialize :: "'b \<Rightarrow> bytes option"
  sigma_parse :: "bytes \<Rightarrow> 'b option"
  box_id_of :: "'b \<Rightarrow> bytes"
  tree_serialize :: "'b \<Rightarrow> bytes option"
  box_tokens :: "'b \<Rightarrow> bytes list"
  blake2b256 :: "bytes \<Rightarrow> bytes"

definition BOX_ID_LENGTH :: nat where
  "BOX_ID_LENGTH = 32"

record 'b box_entry =
  ergo_box :: 'b
  be_creation_height :: u32
  be_tx_id :: bytes
  be_output_index :: u16

definition be_box_id :: "'b box_env \<Rightarrow> 'b box_entry \<Rightarrow> bytes" where
  "be_box_id env e = box_id_of env (ergo_box e)"

definition be_serialize :: "'b box_env \<Rightarrow> 'b box_entry \<Rightarrow> state_error + bytes" where
  "be_serialize env e =
     (case sigma_serialize env (ergo_box e) of
        None \<Rightarrow> Inl (SE_Serialization ''sigma_serialize_bytes'')
      | Some box_bytes \<Rightarrow>
          Inr (be_u32 (be_creation_height e) @ be_tx_id e @ be_u16 (be_output_index e) @ box_bytes))"

definition be_deserialize :: "'b box_env \<Rightarrow> bytes \<Rightarrow> state_error + 'b box_entry" where
  "be_deserialize env bs =
     (if length bs < 38 then Inl (SE_Serialization ''Box entry too short'')
      else case sigma_parse env (drop 38 bs) of
             None \<Rightarrow> Inl (SE_Serialization ''sigma_parse_bytes'')
           | Some b \<Rightarrow>
               Inr \<lparr>ergo_box = b,
                    be_creation_height = from_be_u32 (bs ! 0) (bs ! 1) (bs ! 2) (bs ! 3),
                    be_tx_id = subslice bs 4 36,
                    be_output_index = from_be_u16 (bs ! 36) (bs ! 37)\<rparr>)"

definition serialize_box_only :: "'b box_env \<Rightarrow> 'b box_entry \<Rightarrow> state_error + bytes" where
  "serialize_box_only env e =
     (case sigma_serialize env (ergo_box e) of
        None \<Rightarrow> Inl (SE_Serialization ''sigma_serialize_bytes'')
      | Some bs \<Rightarrow> Inr bs)"

subsection \<open>State changes\<close>

record 'b state_change =
  sc_created :: "'b box_entry list"
  sc_spent :: "bytes list"

definition change_new :: "'b state_change" where
  "change_new = \<lparr>sc_created = [], sc_spent = []\<rparr>"

definition change_is_empty :: "'b state_change \<Rightarrow> bool" where
  "change_is_empty ch = (sc_created ch = [] \<and> sc_spent ch = [])"

definition change_len :: "'b state_change \<Rightarrow> nat" where
  "change_len ch = length (sc_created ch) + length (sc_spent ch)"

datatype avl_operation = AvlRemove bytes | AvlInsert bytes bytes

fun insert_operations :: "'b box_env \<Rightarrow> 'b box_entry list \<Rightarrow> state_error + avl_operation list" where
  "insert_operations env [] = Inr []"
| "insert_operations env (e # es) =
     rbind (serialize_box_only env e) (\<lambda>v.
     rbind (insert_operations env es) (\<lambda>ops. Inr (AvlInsert (be_box_id env e) v # ops)))"

definition to_avl_operations :: "'b box_env \<Rightarrow> 'b state_change \<Rightarrow> state_error + avl_operation list" where
  "to_avl_operations env ch =
     rbind (insert_operations env (sc_created ch)) (\<lambda>ins. Inr (map AvlRemove (sc_spent ch) @ ins))"

subsection \<open>Undo records\<close>

record 'b undo_data =
  ud_height :: u32
  ud_spent_boxes :: "'b box_entry list"
  ud_created_box_ids :: "bytes list"

definition undo_new :: "u32 \<Rightarrow> 'b undo_data" where
  "undo_new h = \<lparr>ud_height = h, ud_spent_boxes = [], ud_created_box_ids = []\<rparr>"

definition with_len32 :: "bytes \<Rightarrow> bytes" where
  "with_len32 bs = be_u32 (of_nat (length bs)) @ bs"

fun serialize_entries :: "'b box_env \<Rightarrow> 'b box_entry list \<Rightarrow> state_error + bytes" where
  "serialize_entries env [] = Inr []"
| "serialize_entries env (e # es) =
     rbind (be_serialize env e) (\<lambda>bs. rbind (serialize_entries env es) (\<lambda>rest. Inr (with_len32 bs @ rest)))"

definition undo_serialize :: "'b box_env \<Rightarrow> 'b undo_data \<Rightarrow> state_error + bytes" where
  "undo_serialize env u =
     rbind (serialize_entries env (ud_spent_boxes u)) (\<lambda>spent.
       Inr (be_u32 (ud_height u)
            @ be_u32 (of_nat (length (ud_spent_boxes u))) @ spent
            @ be_u32 (of_nat (length (ud_created_box_ids u))) @ concat (map with_len32 (ud_created_box_ids u))))"

text \<open>A length-prefixed item at a position of the record.\<close>

definition truncated :: state_error where
  "truncated = SE_Serialization ''Undo data truncated''"

definition be_u32_at :: "bytes \<Rightarrow> nat \<Rightarrow> nat" where
  "be_u32_at bs p = unat (from_be_u32 (bs ! p) (bs ! (p + 1)) (bs ! (p + 2)) (bs ! (p + 3)))"

definition read_item :: "bytes \<Rightarrow> nat \<Rightarrow> state_error + bytes \<times> nat" where
  "read_item bs offset =
     (if offset + 4 > length bs then Inl truncated
      else let len = be_u32_at bs offset; start = offset + 4 in
        if start + len > length bs then Inl truncated
        else Inr (subslice bs start (start + len), start + len))"

primrec read_entries :: "'b box_env \<Rightarrow> nat \<Rightarrow> bytes \<Rightarrow> nat \<Rightarrow> state_error + 'b box_entry list \<times> nat" where
  "read_entries env 0 bs offset = Inr ([], offset)"
| "read_entries env (Suc n) bs offset =
     rbind (read_item bs offset) (\<lambda>(item, p).
     rbind (be_deserialize env item) (\<lambda>e.
     rbind (read_entries env n bs p) (\<lambda>(es, q). Inr (e # es, q))))"

primrec read_ids :: "nat \<Rightarrow> bytes \<Rightarrow> nat \<Rightarrow> state_error + bytes list \<times> nat" where
  "read_ids 0 bs offset = Inr ([], offset)"
| "read_ids (Suc n) bs offset =
     rbind (read_item bs offset) (\<lambda>(item, p).
     rbind (read_ids n bs p) (\<lambda>(ids, q). Inr (item # ids, q)))"

definition undo_deserialize :: "'b box_env \<Rightarrow> bytes \<Rightarrow> state_error + 'b undo_data" where
  "undo_deserialize env bs =
     (if length bs < 12 then Inl (SE_Serialization ''Undo data too short'')
      else rbind (read_entries env (be_u32_at bs 4) bs 8) (\<lambda>(spent, p).
        if p + 4 > length bs then Inl truncated
        else rbind (read_ids (be_u32_at bs p) bs (p + 4)) (\<lambda>(ids, q).
          Inr \<lparr>ud_height = from_be_u32 (bs ! 0) (bs ! 1) (bs ! 2) (bs ! 3),
               ud_spent_boxes = spent, ud_created_box_ids = ids\<rparr>)))"

definition to_reverse_change :: "'b undo_data \<Rightarrow> 'b state_change" where
  "to_reverse_change u =
     \<lparr>sc_created = ud_spent_boxes u, sc_spent = filter (\<lambda>i. length i = 32) (ud_created_box_ids u)\<rparr>"

subsection \<open>The state\<close>

record utxo_state =
  us_state_root :: bytes
  us_height :: u32
  us_sync_mode :: bool

definition utxo_new :: utxo_state where
  "utxo_new = \<lparr>us_state_root = replicate 32 0, us_height = 0, us_sync_mode = False\<rparr>"

text \<open>Byte strings of the metadata keys.\<close>

definition bstr :: "string \<Rightarrow> bytes" where
  "bstr s = map of_char s"

definition utxo_init_from_storage :: "database \<Rightarrow> utxo_state" where
  "utxo_init_from_storage db =
     (let s1 = (case db_get db CF_Metadata (bstr ''state_root'') of
                  None \<Rightarrow> utxo_new | Some r \<Rightarrow> utxo_new\<lparr>us_state_root := r\<rparr>)
      in case db_get db CF_Metadata (bstr ''utxo_height'') of
           None \<Rightarrow> s1
         | Some hb \<Rightarrow>
             if 4 \<le> length hb
             then s1\<lparr>us_height := from_be_u32 (hb ! 0) (hb ! 1) (hb ! 2) (hb ! 3)\<rparr> else s1)"

definition utxo_set_sync_mode :: "bool \<Rightarrow> utxo_state \<Rightarrow> utxo_state" where
  "utxo_set_sync_mode enabled s = s\<lparr>us_sync_mode := enabled\<rparr>"

definition get_box :: "'b box_env \<Rightarrow> database \<Rightarrow> bytes \<Rightarrow> state_error + 'b box_entry option" where
  "get_box env db box_id =
     (case db_get db CF_Utxo box_id of
        None \<Rightarrow> Inr None
      | Some bs \<Rightarrow> rbind (be_deserialize env bs) (\<lambda>e. Inr (Some e)))"

fun transpose_all :: "('e + 'a option) list \<Rightarrow> 'e + 'a option list" where
  "transpose_all [] = Inr []"
| "transpose_all (r # rs) = rbind r (\<lambda>x. rbind (transpose_all rs) (\<lambda>xs. Inr (x # xs)))"

definition get_boxes_batch ::
  "'b box_env \<Rightarrow> database \<Rightarrow> bytes list \<Rightarrow> state_error + 'b box_entry option list" where
  "get_boxes_batch env db ids =
     (if ids = [] then Inr []
      else transpose_all (map (\<lambda>r. case r of
                                     None \<Rightarrow> Inr None
                                   | Some bs \<Rightarrow> rbind (be_deserialize env bs) (\<lambda>e. Inr (Some e)))
             (db_multi_get db CF_Utxo ids)))"

definition contains_box :: "database \<Rightarrow> bytes \<Rightarrow> bool" where
  "contains_box db box_id = db_contains db CF_Utxo box_id"

subsection \<open>Indexes\<close>

definition hash_ergotree :: "'b box_env \<Rightarrow> 'b \<Rightarrow> bytes" where
  "hash_ergotree env b =
     blake2b256 env (case tree_serialize env b of None \<Rightarrow> [] | Some bs \<Rightarrow> bs)"

definition serialize_box_id_list :: "bytes list \<Rightarrow> bytes" where
  "serialize_box_id_list ids = be_u32 (of_nat (length ids)) @ concat ids"

primrec read_id_list :: "nat \<Rightarrow> bytes \<Rightarrow> nat \<Rightarrow> bytes list" where
  "read_id_list 0 bs offset = []"
| "read_id_list (Suc n) bs offset =
     (if offset + BOX_ID_LENGTH > length bs then []
      else subslice bs offset (offset + BOX_ID_LENGTH) # read_id_list n bs (offset + BOX_ID_LENGTH))"

definition deserialize_box_id_list :: "bytes \<Rightarrow> bytes list" where
  "deserialize_box_id_list bs =
     (if length bs < 4 then [] else read_id_list (be_u32_at bs 0) bs 4)"

definition get_index_entries :: "database \<Rightarrow> column_family \<Rightarrow> bytes \<Rightarrow> bytes list" where
  "get_index_entries db cf key =
     (case db_get db cf key of None \<Rightarrow> [] | Some bs \<Rightarrow> deserialize_box_id_list bs)"

definition add_to_index ::
  "database \<Rightarrow> column_family \<Rightarrow> bytes \<Rightarrow> bytes \<Rightarrow> write_batch \<Rightarrow> write_batch" where
  "add_to_index db cf key box_id batch =
     (let ids = get_index_entries db cf key in
      if list_ex (\<lambda>i. i = box_id) ids then batch
      else batch_put cf key (serialize_box_id_list (ids @ [box_id])) batch)"

definition remove_from_index ::
  "database \<Rightarrow> column_family \<Rightarrow> bytes \<Rightarrow> bytes \<Rightarrow> write_batch \<Rightarrow> write_batch" where
  "remove_from_index db cf key box_id batch =
     (let ids = filter (\<lambda>i. i \<noteq> box_id) (get_index_entries db cf key) in
      if ids = [] then batch_delete cf key batch
      else batch_put cf key (serialize_box_id_list ids) batch)"

definition unindex_box :: "'b box_env \<Rightarrow> database \<Rightarrow> 'b \<Rightarrow> bytes \<Rightarrow> write_batch \<Rightarrow> write_batch" where
  "unindex_box env db b box_id batch =
     fold (\<lambda>token_id. remove_from_index db CF_TokenIndex token_id box_id) (box_tokens env b)
       (remove_from_index db CF_ErgoTreeIndex (hash_ergotree env b) box_id batch)"

definition index_box :: "'b box_env \<Rightarrow> database \<Rightarrow> 'b \<Rightarrow> bytes \<Rightarrow> write_batch \<Rightarrow> write_batch" where
  "index_box env db b box_id batch =
     fold (\<lambda>token_id. add_to_index db CF_TokenIndex token_id box_id) (box_tokens env b)
       (add_to_index db CF_ErgoTreeIndex (hash_ergotree env b) box_id batch)"

subsection \<open>Applying changes\<close>

text \<open>
  The loop over the spent boxes; \<open>lookup\<close> is the search for a box, the database alone or the
  boxes of the block and of the batch first.
\<close>

primrec spend_loop ::
  "'b box_env \<Rightarrow> database \<Rightarrow> (bytes \<Rightarrow> state_error + 'b box_entry option) \<Rightarrow> bool \<Rightarrow> bytes list \<Rightarrow>
    write_batch \<times> 'b box_entry list \<Rightarrow> state_error + write_batch \<times> 'b box_entry list" where
  "spend_loop env db lookup skip_indexes [] acc = Inr acc"
| "spend_loop env db lookup skip_indexes (box_id # ids) acc =
     rbind (lookup box_id) (\<lambda>found.
       case found of
         None \<Rightarrow> Inl (SE_BoxNotFound (hex_encode box_id))
       | Some entry \<Rightarrow>
           let batch1 = (if skip_indexes then fst acc else unindex_box env db (ergo_box entry) box_id (fst acc))
           in spend_loop env db lookup skip_indexes ids
                (batch_delete CF_Utxo box_id batch1, snd acc @ [entry]))"

primrec create_loop ::
  "'b box_env \<Rightarrow> database \<Rightarrow> bool \<Rightarrow> 'b box_entry list \<Rightarrow>
    write_batch \<times> bytes list \<Rightarrow> state_error + write_batch \<times> bytes list" where
  "create_loop env db skip_indexes [] acc = Inr acc"
| "create_loop env db skip_indexes (entry # es) acc =
     rbind (be_serialize env entry) (\<lambda>serialized.
       let box_id = be_box_id env entry;
           batch1 = (if skip_indexes then fst acc else index_box env db (ergo_box entry) box_id (fst acc))
       in create_loop env db skip_indexes es
            (batch_put CF_Utxo box_id serialized batch1, snd acc @ [box_id]))"

definition add_change ::
  "'b box_env \<Rightarrow> database \<Rightarrow> (bytes \<Rightarrow> state_error + 'b box_entry option) \<Rightarrow> bool \<Rightarrow> 'b state_change \<Rightarrow>
    u32 \<Rightarrow> write_batch \<Rightarrow> state_error + write_batch" where
  "add_change env db lookup skip_indexes ch new_height batch =
     rbind (spend_loop env db lookup skip_indexes (sc_spent ch) (batch, [])) (\<lambda>(batch1, spent_boxes).
     rbind (create_loop env db skip_indexes (sc_created ch) (batch1, [])) (\<lambda>(batch2, created_ids).
     rbind (undo_serialize env \<lparr>ud_height = new_height, ud_spent_boxes = spent_boxes,
              ud_created_box_ids = created_ids\<rparr>) (\<lambda>undo_bytes.
       Inr (batch_put CF_Metadata (bstr ''utxo_height'') (be_u32 new_height)
             (batch_put CF_UndoData (be_u32 new_height) undo_bytes batch2)))))"

definition apply_change ::
  "'b box_env \<Rightarrow> 'b state_change \<Rightarrow> u32 \<Rightarrow> database \<times> utxo_state \<Rightarrow>
    (state_error + unit) \<times> database \<times> utxo_state" where
  "apply_change env ch new_height st =
     (case st of (db, us) \<Rightarrow>
        case add_change env db (get_box env db) (us_sync_mode us) ch new_height batch_new of
          Inl e \<Rightarrow> (Inl e, st)
        | Inr batch \<Rightarrow> (Inr (), db_write_batch batch db, us\<lparr>us_height := new_height\<rparr>))"

text \<open>
  The lookup of the batched variant: boxes of the same block first, then those of earlier blocks
  of the batch, then the database. A hash map built from a list keeps the last entry of a key.
\<close>

definition created_in_block :: "'b box_env \<Rightarrow> 'b state_change \<Rightarrow> bytes \<Rightarrow> 'b box_entry option" where
  "created_in_block env ch = map_of (rev (map (\<lambda>e. (be_box_id env e, e)) (sc_created ch)))"

definition context_lookup ::
  "'b box_env \<Rightarrow> database \<Rightarrow> (bytes \<Rightarrow> 'b box_entry option) \<Rightarrow> 'b state_change \<Rightarrow> bytes \<Rightarrow>
    state_error + 'b box_entry option" where
  "context_lookup env db batch_created ch box_id =
     (case created_in_block env ch box_id of
        Some e \<Rightarrow> Inr (Some e)
      | None \<Rightarrow> (case batch_created box_id of Some e \<Rightarrow> Inr (Some e) | None \<Rightarrow> get_box env db box_id))"

definition add_change_to_batch_with_context ::
  "'b box_env \<Rightarrow> 'b state_change \<Rightarrow> u32 \<Rightarrow> (bytes \<Rightarrow> 'b box_entry option) \<Rightarrow> database \<times> utxo_state \<Rightarrow>
    write_batch \<Rightarrow> state_error + write_batch" where
  "add_change_to_batch_with_context env ch new_height batch_created st batch =
     (case st of (db, us) \<Rightarrow>
        add_change env db (context_lookup env db batch_created ch) (us_sync_mode us) ch new_height batch)"

definition add_change_to_batch ::
  "'b box_env \<Rightarrow> 'b state_change \<Rightarrow> u32 \<Rightarrow> database \<times> utxo_state \<Rightarrow> write_batch \<Rightarrow> state_error + write_batch" where
  "add_change_to_batch env ch new_height st batch =
     add_change_to_batch_with_context env ch new_height (\<lambda>_. None) st batch"

definition update_height_in_memory :: "u32 \<Rightarrow> utxo_state \<Rightarrow> utxo_state" where
  "update_height_in_memory new_height us = us\<lparr>us_height := new_height\<rparr>"

text \<open>The prover of the AVL+ tree is a parameter.\<close>

record 'p prover_env =
  perform_one_operation :: "avl_operation \<Rightarrow> 'p \<Rightarrow> 'p option"
  generate_proof :: "'p \<Rightarrow> bytes \<times> 'p"
  prover_digest :: "'p \<Rightarrow> bytes option"

primrec perform_all :: "'p prover_env \<Rightarrow> avl_operation list \<Rightarrow> 'p \<Rightarrow> 'p option" where
  "perform_all penv [] p = Some p"
| "perform_all penv (opn # ops) p =
     (case perform_one_operation penv opn p of None \<Rightarrow> None | Some q \<Rightarrow> perform_all penv ops q)"

definition apply_change_with_proof ::
  "'b box_env \<Rightarrow> 'p prover_env \<Rightarrow> 'b state_change \<Rightarrow> u32 \<Rightarrow> 'p \<Rightarrow> database \<times> utxo_state \<Rightarrow>
    (state_error + bytes) \<times> database \<times> utxo_state" where
  "apply_change_with_proof env penv ch new_height p st =
     (case to_avl_operations env ch of
        Inl e \<Rightarrow> (Inl e, st)
      | Inr ops \<Rightarrow>
          case perform_all penv ops p of
            None \<Rightarrow> (Inl (SE_AvlTree ''perform_one_operation''), st)
          | Some q \<Rightarrow>
              case generate_proof penv q of (prf, r) \<Rightarrow>
                case prover_digest penv r of
                  None \<Rightarrow> (Inl (SE_AvlTree ''Failed to get digest''), st)
                | Some digest \<Rightarrow>
                    case apply_change env ch new_height st of
                      (Inl e, st1) \<Rightarrow> (Inl e, st1)
                    | (Inr _, db1, us1) \<Rightarrow>
                        (Inr prf,
                         db_write_batch (batch_put CF_Metadata (bstr ''state_root'') digest batch_new) db1,
                         us1\<lparr>us_state_root := digest\<rparr>))"

subsection \<open>Rollback\<close>

primrec unmake_loop ::
  "'b box_env \<Rightarrow> database \<Rightarrow> bytes list \<Rightarrow> write_batch \<Rightarrow> state_error + write_batch" where
  "unmake_loop env db [] batch = Inr batch"
| "unmake_loop env db (box_id # ids) batch =
     rbind (get_box env db box_id) (\<lambda>found.
       let batch1 = (case found of None \<Rightarrow> batch | Some e \<Rightarrow> unindex_box env db (ergo_box e) box_id batch)
       in unmake_loop env db ids (batch_delete CF_Utxo box_id batch1))"

definition rollback_one_block :: "'b box_env \<Rightarrow> u32 \<Rightarrow> database \<Rightarrow> (state_error + unit) \<times> database" where
  "rollback_one_block env height db =
     (case db_get db CF_UndoData (be_u32 height) of
        None \<Rightarrow> (Inl (SE_RollbackFailed (''No undo data for height '' @ show_nat (unat height))), db)
      | Some undo_bytes \<Rightarrow>
          case rbind (undo_deserialize env undo_bytes) (\<lambda>undo.
                 rbind (unmake_loop env db (ud_created_box_ids undo) batch_new) (\<lambda>batch1.
                 rbind (create_loop env db False (ud_spent_boxes undo) (batch1, [])) (\<lambda>(batch2, ids).
                   Inr (batch_delete CF_UndoData (be_u32 height) batch2)))) of
            Inl e \<Rightarrow> (Inl e, db)
          | Inr batch \<Rightarrow> (Inr (), db_write_batch batch db))"

text \<open>The heights from \<open>from\<close> down to \<open>from - n + 1\<close>.\<close>

primrec rollback_loop :: "'b box_env \<Rightarrow> nat \<Rightarrow> u32 \<Rightarrow> database \<Rightarrow> (state_error + unit) \<times> database" where
  "rollback_loop env 0 height db = (Inr (), db)"
| "rollback_loop env (Suc n) height db =
     (case rollback_one_block env height db of
        (Inl e, db1) \<Rightarrow> (Inl e, db1)
      | (Inr _, db1) \<Rightarrow> rollback_loop env n (height - 1) db1)"

definition utxo_rollback ::
  "'b box_env \<Rightarrow> u32 \<Rightarrow> database \<times> utxo_state \<Rightarrow> (state_error + unit) \<times> database \<times> utxo_state" where
  "utxo_rollback env to_height st =
     (case st of (db, us) \<Rightarrow>
        let cur = us_height us in
        if cur \<le> to_height
        then (Inl (SE_RollbackFailed (''Cannot rollback from '' @ show_nat (unat cur) @ '' to ''
                @ show_nat (unat to_height) @ '': target must be lower'')), st)
        else case rollback_loop env (unat cur - unat to_height) cur db of
               (Inl e, db1) \<Rightarrow> (Inl e, db1, us)
             | (Inr _, db1) \<Rightarrow>
                 (Inr (),
                  db_write_batch (batch_put CF_Metadata (bstr ''utxo_height'') (be_u32 to_height) batch_new) db1,
                  us\<lparr>us_height := to_height\<rparr>))"

subsection \<open>Queries\<close>

primrec boxes_of_ids :: "'b box_env \<Rightarrow> database \<Rightarrow> bytes list \<Rightarrow> state_error + 'b box_entry list" where
  "boxes_of_ids env db [] = Inr []"
| "boxes_of_ids env db (i # ids) =
     rbind (get_box env db i) (\<lambda>found.
     rbind (boxes_of_ids env db ids) (\<lambda>es. Inr (case found of None \<Rightarrow> es | Some e \<Rightarrow> e # es)))"

definition get_boxes_by_ergo_tree :: "'b box_env \<Rightarrow> database \<Rightarrow> bytes \<Rightarrow> state_error + 'b box_entry list" where
  "get_boxes_by_ergo_tree env db tree_hash =
     boxes_of_ids env db (get_index_entries db CF_ErgoTreeIndex tree_hash)"

definition get_boxes_by_ergo_tree_direct :: "'b box_env \<Rightarrow> database \<Rightarrow> 'b \<Rightarrow> state_error + 'b box_entry list" where
  "get_boxes_by_ergo_tree_direct env db b = get_boxes_by_ergo_tree env db (hash_ergotree env b)"

definition get_boxes_by_token :: "'b box_env \<Rightarrow> database \<Rightarrow> bytes \<Rightarrow> state_error + 'b box_entry list" where
  "get_boxes_by_token env db token_id =
     boxes_of_ids env db (get_index_entries db CF_TokenIndex token_id)"

definition get_all_token_ids :: "database \<Rightarrow> bytes list" where
  "get_all_token_ids db = map fst (db_iter db CF_TokenIndex)"

definition count_boxes_by_ergo_tree :: "database \<Rightarrow> bytes \<Rightarrow> nat" where
  "count_boxes_by_ergo_tree db tree_hash = length (get_index_entries db CF_ErgoTreeIndex tree_hash)"

definition count_boxes_by_token :: "database \<Rightarrow> bytes \<Rightarrow> nat" where
  "count_boxes_by_token db token_id = length (get_index_entries db CF_TokenIndex token_id)"

definition box_count :: "database \<Rightarrow> u64" where
  "box_count db = of_nat (length (db_iter db CF_Utxo))"

definition iter_boxes :: "'b box_env \<Rightarrow> database \<Rightarrow> 'b box_entry list" where
  "iter_boxes env db =
     List.map_filter (\<lambda>kv. case be_deserialize env (snd kv) of Inl _ \<Rightarrow> None | Inr e \<Rightarrow> Some e)
       (db_iter db CF_Utxo)"

record state_snapshot =
  ss_height :: u32
  ss_state_root :: bytes
  ss_timestamp :: u64

text \<open>The timestamp is a reading of the system clock in seconds.\<close>

definition create_snapshot :: "u64 \<Rightarrow> utxo_state \<Rightarrow> state_snapshot" where
  "create_snapshot now us = \<lparr>ss_height = us_height us, ss_state_root = us_state_root us, ss_timestamp = now\<rparr>"

definition snapshot_serialize :: "state_snapshot \<Rightarrow> bytes" where
  "snapshot_serialize s = be_u32 (ss_height s) @ be_u64 (ss_timestamp s) @ ss_state_root s"

definition snapshot_deserialize :: "bytes \<Rightarrow> state_error + state_snapshot" where
  "snapshot_deserialize bs =
     (if length bs < 12 then Inl (SE_Serialization ''Snapshot too short'')
      else Inr \<lparr>ss_height = from_be_u32 (bs ! 0) (bs ! 1) (bs ! 2) (bs ! 3),
                ss_state_root = drop 12 bs,
                ss_timestamp = from_be_u64 (subslice bs 4 12)\<rparr>)"

end
