(* ===== verification/Blocks.thy ===== *)
theory Blocks
  imports Utxo Vlq
begin

text \<open>
  Blocks and their sections (\<open>crates/ergo-consensus/src/block.rs\<close>): transactions with the boxes they
  spend and create, extensions with the voted parameters, proofs and full blocks. Transactions
  are those of \<open>ergo_lib\<close>: a record of the parts that are read, with serialisation, hashing and the
  Merkle tree as parameters. \<open>None\<close> is a panic.

  The voted parameters are shown to be the last well-formed value of each key, and the parser of
  extensions to panic on a large field count.
\<close>

subsection \<open>Transactions\<close>

text \<open>A context extension maps keys to constants; of a constant only its value as a short is read.\<close>

record tx_input =
  in_box_id :: bytes
  in_proof :: bytes
  in_extension :: "(u8 \<times> int option) list"

record 'b transaction =
  tx_id :: bytes
  tx_inputs :: "tx_input list"
  tx_data_inputs :: "bytes list option"
  tx_outputs :: "'b list"

record 'b block_transactions =
  bt_header_id :: bytes
  bt_txs :: "'b transaction list"
  bt_block_version :: u8

definition MAX_TRANSACTIONS_IN_BLOCK :: u64 where
  "MAX_TRANSACTIONS_IN_BLOCK = 10000000"

definition bt_new :: "bytes \<Rightarrow> 'b transaction list \<Rightarrow> 'b block_transactions" where
  "bt_new header_id txs = \<lparr>bt_header_id = header_id, bt_txs = txs, bt_block_version = 2\<rparr>"

definition bt_with_version :: "bytes \<Rightarrow> 'b transaction list \<Rightarrow> u8 \<Rightarrow> 'b block_transactions" where
  "bt_with_version header_id txs version =
     \<lparr>bt_header_id = header_id, bt_txs = txs, bt_block_version = version\<rparr>"

definition bt_len :: "'b block_transactions \<Rightarrow> nat" where
  "bt_len b = length (bt_txs b)"

definition bt_is_empty :: "'b block_transactions \<Rightarrow> bool" where
  "bt_is_empty b = (bt_txs b = [])"

definition bt_coinbase :: "'b block_transactions \<Rightarrow> 'b transaction option" where
  "bt_coinbase b = (case bt_txs b of [] \<Rightarrow> None | t # _ \<Rightarrow> Some t)"

text \<open>
  What is used of \<open>ergo_lib\<close>, \<open>sigma_ser\<close> and \<open>ergo_merkle_tree\<close>: the codec of transactions, the
  reader of 32-bit integers (with the number of bytes it consumes) and the root of a tree.
\<close>

record 'b tx_env =
  tx_parse :: "bytes \<Rightarrow> 'b transaction option"
  tx_serialize :: "'b transaction \<Rightarrow> bytes option"
  get_u32 :: "bytes \<Rightarrow> (u32 \<times> nat) option"
  blake_hash :: "bytes \<Rightarrow> bytes"
  merkle_root :: "bytes list \<Rightarrow> bytes"

datatype bt_parse_error = BT_TooShort | BT_InvalidFormat string | BT_TransactionParse string

text \<open>The transactions one after the other; each advances by the length of its serialisation.\<close>

primrec parse_txs ::
  "'b tx_env \<Rightarrow> nat \<Rightarrow> nat \<Rightarrow> bytes \<Rightarrow> (bt_parse_error + 'b transaction list) option" where
  "parse_txs env 0 i remaining = Some (Inr [])"
| "parse_txs env (Suc n) i remaining =
     (case tx_parse env remaining of
        None \<Rightarrow> Some (Inl (BT_TransactionParse (''tx '' @ show_nat i)))
      | Some tx \<Rightarrow>
          case tx_serialize env tx of
            None \<Rightarrow> Some (Inl (BT_TransactionParse (''tx '' @ show_nat i @ '' size'')))
          | Some bs \<Rightarrow>
              if length remaining < length bs then None
              else map_option (\<lambda>r. rbind r (\<lambda>txs. Inr (tx # txs)))
                     (parse_txs env n (i + 1) (drop (length bs) remaining)))"

definition bt_parse :: "'b tx_env \<Rightarrow> bytes \<Rightarrow> (bt_parse_error + 'b block_transactions) option" where
  "bt_parse env data =
     (if length data < 32 then Some (Inl BT_TooShort)
      else let header_id = take 32 data; body = drop 32 data in
        case get_u32 env body of
          None \<Rightarrow> Some (Inl (BT_InvalidFormat ''Failed to read first uint''))
        | Some (first_uint, used) \<Rightarrow>
            (case (if MAX_TRANSACTIONS_IN_BLOCK < ucast first_uint
                   then case get_u32 env (drop used body) of
                          None \<Rightarrow> Inl (BT_InvalidFormat ''Failed to read tx count'')
                        | Some (count, used2) \<Rightarrow>
                            Inr (ucast (ucast first_uint - MAX_TRANSACTIONS_IN_BLOCK), unat count, used + used2)
                   else Inr (1, unat first_uint, used)) of
               Inl e \<Rightarrow> Some (Inl e)
             | Inr (version, tx_count, pos) \<Rightarrow>
                 map_option (\<lambda>r. rbind r (\<lambda>txs. Inr (bt_with_version header_id txs version)))
                   (parse_txs env tx_count 0 (drop pos body))))"

definition witness_id :: "'b tx_env \<Rightarrow> 'b transaction \<Rightarrow> bytes" where
  "witness_id env tx = drop 1 (blake_hash env (concat (map in_proof (tx_inputs tx))))"

definition compute_merkle_root :: "'b tx_env \<Rightarrow> 'b block_transactions \<Rightarrow> bytes" where
  "compute_merkle_root env b =
     (if bt_txs b = [] then blake_hash env []
      else let tx_ids = map tx_id (bt_txs b);
               leaves = (if bt_block_version b = 1 then tx_ids else tx_ids @ map (witness_id env) (bt_txs b))
           in if leaves = [] then blake_hash env [] else merkle_root env leaves)"

datatype block_validation_error =
    HeaderIdMismatch string string
  | TransactionsRootMismatch string string
  | EmptyBlock
  | InvalidCoinbase string

definition validate_against_header ::
  "'b tx_env \<Rightarrow> 'b block_transactions \<Rightarrow> header \<Rightarrow> block_validation_error + unit" where
  "validate_against_header env b h =
     (if bt_header_id b \<noteq> hd_id h
      then Inl (HeaderIdMismatch (hex_encode (hd_id h)) (hex_encode (bt_header_id b)))
      else let computed_root = compute_merkle_root env b in
        if computed_root \<noteq> hd_transaction_root h
        then Inl (TransactionsRootMismatch (hex_encode (hd_transaction_root h)) (hex_encode computed_root))
        else Inr ())"

definition get_input_box_ids :: "'b block_transactions \<Rightarrow> bytes list" where
  "get_input_box_ids b = concat (map (\<lambda>tx. map in_box_id (tx_inputs tx)) (bt_txs b))"

definition tx_created :: "'b transaction \<Rightarrow> ('b \<times> bytes \<times> u16) list" where
  "tx_created tx = map (\<lambda>(i, output). (output, tx_id tx, of_nat i)) (enumerate 0 (tx_outputs tx))"

definition get_outputs :: "'b block_transactions \<Rightarrow> ('b \<times> bytes \<times> u16) list" where
  "get_outputs b = concat (map tx_created (bt_txs b))"

definition get_tx_ids :: "'b block_transactions \<Rightarrow> bytes list" where
  "get_tx_ids b = map tx_id (bt_txs b)"

text \<open>\<open>StateChange::from_block_transactions\<close> of \<open>utxo.rs\<close>.\<close>

definition change_from_block_transactions :: "'b block_transactions \<Rightarrow> u32 \<Rightarrow> 'b state_change" where
  "change_from_block_transactions b block_height =
     \<lparr>sc_created = map (\<lambda>(ergo_box, txid, idx).
        \<lparr>ergo_box = ergo_box, be_creation_height = block_height, be_tx_id = txid, be_output_index = idx\<rparr>)
        (get_outputs b),
      sc_spent = get_input_box_ids b\<rparr>"

subsection \<open>Extensions\<close>

record extension_field =
  ef_key :: "u8 \<times> u8"
  ef_value :: bytes

record extension =
  ext_header_id :: bytes
  ext_fields :: "extension_field list"

definition ext_new :: "bytes \<Rightarrow> extension_field list \<Rightarrow> extension" where
  "ext_new header_id fs = \<lparr>ext_header_id = header_id, ext_fields = fs\<rparr>"

definition ext_empty :: "bytes \<Rightarrow> extension" where
  "ext_empty header_id = \<lparr>ext_header_id = header_id, ext_fields = []\<rparr>"

text \<open>\<open>vlq_decode\<close> of \<open>block.rs\<close> is the loop of the network crate with plain text as error.\<close>

definition block_vlq_decode :: "bytes \<Rightarrow> string + u64 \<times> nat" where
  "block_vlq_decode data =
     (case vlq_decode data 0 of
        Inr r \<Rightarrow> Inr r
      | Inl e \<Rightarrow> Inl (case e of InvalidMessage m \<Rightarrow> m | _ \<Rightarrow> []))"

primrec ext_parse_fields :: "nat \<Rightarrow> bytes \<Rightarrow> nat \<Rightarrow> consensus_error + extension_field list" where
  "ext_parse_fields 0 data offset = Inr []"
| "ext_parse_fields (Suc n) data offset =
     (if offset + 2 > length data then Inl (InvalidExtension ''Extension data truncated at key'')
      else if offset + 2 \<ge> length data then Inl (InvalidExtension ''Extension data truncated at value length'')
      else let value_len = unat (data ! (offset + 2)); start = offset + 3 in
        if start + value_len > length data then Inl (InvalidExtension ''Extension data truncated at value'')
        else rbind (ext_parse_fields n data (start + value_len)) (\<lambda>fs.
          Inr (\<lparr>ef_key = (data ! offset, data ! (offset + 1)), ef_value = subslice data start (start + value_len)\<rparr> # fs)))"

text \<open>
  \<open>Vec::with_capacity\<close> panics when the bytes exceed \<open>isize::MAX\<close>; a field takes 32 bytes.
\<close>

definition ext_parse :: "bytes \<Rightarrow> (consensus_error + extension) option" where
  "ext_parse data =
     (if length data < 33 then Some (Inl (InvalidExtension ''Extension data too short''))
      else case block_vlq_decode (drop 32 data) of
             Inl e \<Rightarrow> Some (Inl (InvalidExtension (''Failed to decode field count: '' @ e)))
           | Inr (field_count, bytes_read) \<Rightarrow>
               if unat field_count * 32 > 2 ^ 63 - 1 then None
               else Some (rbind (ext_parse_fields (unat field_count) data (32 + bytes_read)) (\<lambda>fs.
                      Inr \<lparr>ext_header_id = take 32 data, ext_fields = fs\<rparr>)))"

definition ext_get :: "extension \<Rightarrow> u8 \<times> u8 \<Rightarrow> bytes option" where
  "ext_get e key = map_option ef_value (find (\<lambda>f. ef_key f = key) (ext_fields e))"

definition ext_interlinks :: "extension \<Rightarrow> bytes list option" where
  "ext_interlinks e = None"

definition SYSTEM_PARAMS_PREFIX :: u8 where
  "SYSTEM_PARAMS_PREFIX = 0"

definition i32_from_be :: "bytes \<Rightarrow> int" where
  "i32_from_be bs = sint (from_be_u32 (bs ! 0) (bs ! 1) (bs ! 2) (bs ! 3))"

fun parse_parameters_loop ::
  "extension_field list \<Rightarrow> (u8 \<Rightarrow> int option) \<Rightarrow> consensus_error + (u8 \<Rightarrow> int option)" where
  "parse_parameters_loop [] params = Inr params"
| "parse_parameters_loop (f # fs) params =
     (if fst (ef_key f) = SYSTEM_PARAMS_PREFIX
      then let param_id = snd (ef_key f) in
        if 120 \<le> param_id then parse_parameters_loop fs params
        else if length (ef_value f) \<noteq> 4
        then Inl (InvalidExtension (''Parameter '' @ show_nat (unat param_id) @ '' has invalid value length: ''
                    @ show_nat (length (ef_value f)) @ '' (expected 4)''))
        else parse_parameters_loop fs (params(param_id \<mapsto> i32_from_be (ef_value f)))
      else parse_parameters_loop fs params)"

definition parse_parameters :: "extension \<Rightarrow> consensus_error + (u8 \<Rightarrow> int option)" where
  "parse_parameters e = parse_parameters_loop (ext_fields e) (\<lambda>_. None)"

subsection \<open>Full blocks and modifiers\<close>

record ad_proofs =
  ap_header_id :: bytes
  ap_proof_bytes :: bytes

definition ad_proofs_size :: "ad_proofs \<Rightarrow> nat" where
  "ad_proofs_size p = length (ap_proof_bytes p)"

record 'b full_block =
  fb_header :: header
  fb_transactions :: "'b block_transactions"
  fb_extension :: extension
  fb_ad_proofs :: "ad_proofs option"

definition fb_id :: "'b full_block \<Rightarrow> bytes" where
  "fb_id b = hd_id (fb_header b)"

definition fb_height :: "'b full_block \<Rightarrow> u32" where
  "fb_height b = hd_height (fb_header b)"

definition fb_parent_id :: "'b full_block \<Rightarrow> bytes" where
  "fb_parent_id b = hd_parent_id (fb_header b)"

definition has_ad_proofs :: "'b full_block \<Rightarrow> bool" where
  "has_ad_proofs b = (fb_ad_proofs b \<noteq> None)"

datatype modifier_type =
    MT_Transaction | MT_Header | MT_BlockTransactions | MT_Extension | MT_ADProofs | MT_FullBlock

fun modifier_to_byte :: "modifier_type \<Rightarrow> u8" where
  "modifier_to_byte MT_Transaction = 2"
| "modifier_to_byte MT_Header = 101"
| "modifier_to_byte MT_BlockTransactions = 102"
| "modifier_to_byte MT_Extension = 108"
| "modifier_to_byte MT_ADProofs = 104"
| "modifier_to_byte MT_FullBlock = 100"

definition modifier_from_byte :: "u8 \<Rightarrow> modifier_type option" where
  "modifier_from_byte b =
     (if b = 2 then Some MT_Transaction
      else if b = 101 then Some MT_Header
      else if b = 102 then Some MT_BlockTransactions
      else if b = 108 then Some MT_Extension
      else if b = 104 then Some MT_ADProofs
      else if b = 100 then Some MT_FullBlock
      else None)"

lemma modifier_byte_roundtrip: "modifier_from_byte (modifier_to_byte t) = Some t"
  by (cases t) (simp_all add: modifier_from_byte_def)

subsection \<open>Voted parameters\<close>

text \<open>The fields that carry a parameter, in their order.\<close>

definition param_field :: "extension_field \<Rightarrow> bool" where
  "param_field f = (fst (ef_key f) = SYSTEM_PARAMS_PREFIX \<and> snd (ef_key f) < 120)"

definition bad_length :: "extension_field \<Rightarrow> consensus_error" where
  "bad_length f =
     InvalidExtension (''Parameter '' @ show_nat (unat (snd (ef_key f))) @ '' has invalid value length: ''
       @ show_nat (length (ef_value f)) @ '' (expected 4)'')"

lemma parse_parameters_loop_Cons:
  "parse_parameters_loop (f # fs) params =
     (if \<not> param_field f then parse_parameters_loop fs params
      else if length (ef_value f) \<noteq> 4 then Inl (bad_length f)
      else parse_parameters_loop fs (params(snd (ef_key f) \<mapsto> i32_from_be (ef_value f))))"
  by (auto simp: param_field_def bad_length_def Let_def not_le [symmetric])

lemma parse_parameters_loop_eq:
  "parse_parameters_loop fs params =
     (case find (\<lambda>f. param_field f \<and> length (ef_value f) \<noteq> 4) fs of
        Some f \<Rightarrow> Inl (bad_length f)
      | None \<Rightarrow> Inr (params ++ map_of (rev (map (\<lambda>f. (snd (ef_key f), i32_from_be (ef_value f))) (filter param_field fs)))))"
proof (induction fs arbitrary: params)
  case (Cons f fs)
  show ?case
    unfolding parse_parameters_loop_Cons Cons
    by (cases "param_field f"; cases "length (ef_value f) = 4")
       (simp_all add: map_add_assoc split: option.split)
qed simp

text \<open>The parameters read from an extension are, for each identifier, the last of its fields with the
  system prefix and an identifier below 120; a field of such a key whose value does not have
  four bytes is reported, the first one if there are several, and no parameters are returned.\<close>

theorem parse_parameters_last_value:
  "parse_parameters e =
     (case find (\<lambda>f. param_field f \<and> length (ef_value f) \<noteq> 4) (ext_fields e) of
        Some f \<Rightarrow> Inl (bad_length f)
      | None \<Rightarrow> Inr (map_of (rev (map (\<lambda>f. (snd (ef_key f), i32_from_be (ef_value f))) (filter param_field (ext_fields e))))))"
  unfolding parse_parameters_def parse_parameters_loop_eq by (simp add: map_add_def split: option.split)

text \<open>An extension whose field count is at least \<open>2 ^ 58\<close> makes the parser panic: the vector for
  the fields is allocated before any field is read.\<close>

theorem extension_count_panics:
  assumes "length header_id = 32" "2 ^ 58 \<le> unat count"
  shows "ext_parse (header_id @ vlq_encode count @ rest) = None"
proof -
  have "vlq_decode (vlq_encode count @ rest) 0 = Inr (count, length (vlq_encode count))"
    using vlq_decode_encode [OF at_pos_start [of "vlq_encode count @ rest"]] by simp
  then have "block_vlq_decode (vlq_encode count @ rest) = Inr (count, length (vlq_encode count))"
    by (simp add: block_vlq_decode_def)
  moreover have "0 < length (vlq_encode count)"
    using vlq_encode_not_Nil by simp
  ultimately show ?thesis
    using assms by (simp add: ext_parse_def)
qed

theorem extension_count_panics_witness: "ext_parse (replicate 32 0 @ vlq_encode (push_bit 58 1)) = None"
  using extension_count_panics [of "replicate 32 0" "push_bit 58 1" "[]"]
  by (simp add: push_bit_eq_mult)

end
