(* ===== verification/Validation.thy ===== *)
theory Validation
  imports Blocks
begin

text \<open>
  Validation of headers, transactions and blocks: the stateless checks of \<open>validation.rs\<close>, the
  conservation laws, the storage rent rule and the script verification of \<open>tx_validation.rs\<close>.
  The interpreter of scripts and the boxes of
  \<open>ergo_lib\<close> are parameters; arithmetic on amounts is 64-bit and wraps, as in the release build.

  Conservation is exact as long as no sum overflows; the transactions that create value because one
  does are stated as well.
\<close>

declare map_of_eq_Some_iff [simp del] Some_eq_map_of_iff [simp del]

subsection \<open>Stateless checks\<close>

record header_data =
  hdd_version :: u8
  hdd_parent_id :: bytes
  hdd_transactions_root :: bytes
  hdd_state_root :: bytes
  hdd_timestamp :: u64
  hdd_height :: u32
  hdd_n_bits :: u32
  hdd_votes :: bytes

record transaction_data =
  td_id :: bytes
  td_inputs :: "bytes list"
  td_data_inputs :: "bytes list"
  td_outputs :: "bytes list"

record block_data =
  bd_header :: header_data
  bd_transactions :: "transaction_data list"
  bd_extension :: "(bytes \<times> bytes) list"
  bd_ad_proofs :: "bytes option"

definition MAX_BLOCK_SIZE :: nat where
  "MAX_BLOCK_SIZE = 1048576"

text \<open>\<open>now_ms\<close> is the reading of the system clock.\<close>

definition default_validate_header :: "u64 \<Rightarrow> header_data \<Rightarrow> header_data \<Rightarrow> consensus_error + unit" where
  "default_validate_header now_ms h parent =
     (if hdd_height h \<noteq> hdd_height parent + 1
      then Inl (InvalidHeader (''Invalid height: '' @ show_nat (unat (hdd_height h)) @ '' (expected ''
                  @ show_nat (unat (hdd_height parent + 1)) @ '')''))
      else if hdd_timestamp h \<le> hdd_timestamp parent
      then Inl (InvalidTimestamp (hdd_timestamp h) (hdd_timestamp parent))
      else let max_future = now_ms + 20 * 60 * 1000 in
        if max_future < hdd_timestamp h
        then Inl (InvalidHeader (''Timestamp too far in future: '' @ show_nat (unat (hdd_timestamp h)) @ '' > ''
                    @ show_nat (unat max_future)))
        else if hdd_version h < 1 \<or> 4 < hdd_version h
        then Inl (InvalidHeader (''Invalid version: '' @ show_nat (unat (hdd_version h))))
        else Inr ())"

definition approximate_size :: "block_data \<Rightarrow> nat" where
  "approximate_size b =
     sum_list (map (\<lambda>tx. length (td_id tx) + sum_list (map length (td_inputs tx)) + sum_list (map length (td_outputs tx)))
       (bd_transactions b))"

definition validate_size :: "block_data \<Rightarrow> consensus_error + unit" where
  "validate_size b =
     (if MAX_BLOCK_SIZE < approximate_size b then Inl (BlockTooLarge (approximate_size b) MAX_BLOCK_SIZE) else Inr ())"

definition default_validate_block :: "block_data \<Rightarrow> consensus_error + unit" where
  "default_validate_block b =
     rbind (validate_size b) (\<lambda>_.
       if bd_transactions b = []
       then Inl (InvalidBlockE ''Block must contain at least one transaction (coinbase)'')
       else if list_ex (\<lambda>kv. fst kv = []) (bd_extension b)
       then Inl (InvalidExtension ''Extension key cannot be empty'')
       else Inr ())"

text \<open>The first element that a hash set of the earlier ones already holds.\<close>

fun first_duplicate :: "bytes list \<Rightarrow> bytes list \<Rightarrow> bytes option" where
  "first_duplicate seen [] = None"
| "first_duplicate seen (i # is) = (if i \<in> set seen then Some i else first_duplicate (i # seen) is)"

definition default_validate_transaction :: "transaction_data \<Rightarrow> consensus_error + unit" where
  "default_validate_transaction tx =
     (if td_inputs tx = [] then Inl (InvalidTransactionE ''Transaction must have at least one input'')
      else if td_outputs tx = [] then Inl (InvalidTransactionE ''Transaction must have at least one output'')
      else case first_duplicate [] (td_inputs tx) of
             Some i \<Rightarrow> Inl (InvalidTransactionE (''Duplicate input: '' @ hex_encode i))
           | None \<Rightarrow> Inr ())"

lemma first_duplicate_None: "first_duplicate seen is = None \<longleftrightarrow> distinct is \<and> set is \<inter> set seen = {}"
  by (induction seen "is" rule: first_duplicate.induct) auto

subsection \<open>The parameters of transaction validation\<close>

text \<open>
  What is read of a box: its value, its tokens with amounts, the height of its creation and its
  registers (as comparable values); and the interpreter: the outcome of one input, with its cost
  and, when it is false, the printed expression. \<open>hash_order\<close> is the order in which a hash map of
  the given keys is iterated.
\<close>

record verify_result =
  vr_result :: bool
  vr_cost :: u64
  vr_expr :: "string option"

record 'b val_env = "'b box_env" +
  box_value :: "'b \<Rightarrow> u64"
  box_token_amounts :: "'b \<Rightarrow> (bytes \<times> u64) list"
  box_created :: "'b \<Rightarrow> u32"
  box_register :: "'b \<Rightarrow> nat \<Rightarrow> bytes option"
  tx_size :: "'b transaction \<Rightarrow> nat option"
  bytes_to_sign :: "'b transaction \<Rightarrow> string + bytes"
  tx_io_ok :: "nat \<Rightarrow> bool"
  run_script :: "'b transaction \<Rightarrow> nat \<Rightarrow> 'b list \<Rightarrow> 'b list \<Rightarrow> u32 \<Rightarrow> header \<Rightarrow> header list \<Rightarrow> string + verify_result"
  hash_order :: "bytes list \<Rightarrow> bytes list"

subsection \<open>Storage rent\<close>

definition STORAGE_PERIOD :: u32 where
  "STORAGE_PERIOD = 1051200"

definition STORAGE_EXTENSION_INDEX :: u8 where
  "STORAGE_EXTENSION_INDEX = 127"

definition DEFAULT_STORAGE_FEE_FACTOR :: u64 where
  "DEFAULT_STORAGE_FEE_FACTOR = 1250000"

definition registers_preserved :: "('b, 'x) val_env_scheme \<Rightarrow> 'b \<Rightarrow> 'b \<Rightarrow> bool" where
  "registers_preserved env a b =
     list_all (\<lambda>r. r = 0 \<or> r = 3 \<or> box_register env a r = box_register env b r) [0..<10]"

definition check_storage_rent_conditions ::
  "('b, 'x) val_env_scheme \<Rightarrow> 'b \<Rightarrow> (u8 \<times> int option) list \<Rightarrow> 'b list \<Rightarrow> u32 \<Rightarrow> bool" where
  "check_storage_rent_conditions env input_box ext outputs current_height =
     (if sat_sub_u32 current_height (box_created env input_box) < STORAGE_PERIOD then False
      else case map_of ext STORAGE_EXTENSION_INDEX of
             None \<Rightarrow> False
           | Some None \<Rightarrow> False
           | Some (Some output_idx) \<Rightarrow>
               if output_idx < 0 then False
               else if length outputs \<le> nat output_idx then False
               else let out = outputs ! nat output_idx in
                 case sigma_serialize env input_box of
                   None \<Rightarrow> False
                 | Some box_bytes \<Rightarrow>
                     let storage_fee = of_nat (length box_bytes) * DEFAULT_STORAGE_FEE_FACTOR;
                         input_value = box_value env input_box
                     in if input_value \<le> storage_fee then True
                        else if box_created env out \<noteq> current_height then False
                        else if box_value env out < sat_sub_u64 input_value storage_fee then False
                        else registers_preserved env input_box out)"

subsection \<open>Script verification of a transaction\<close>

record tx_verification_result =
  tv_valid :: bool
  tv_script_cost :: u64
  tv_total_cost :: u64
  tv_error :: "string option"

record tx_verifier =
  vf_height :: u32
  vf_pre_header :: header
  vf_headers :: "header list"

definition invalid_result :: "u64 \<Rightarrow> u64 \<Rightarrow> string \<Rightarrow> tx_verification_result" where
  "invalid_result script cost e =
     \<lparr>tv_valid = False, tv_script_cost = script, tv_total_cost = cost, tv_error = Some e\<rparr>"

fun verify_inputs ::
  "('b, 'x) val_env_scheme \<Rightarrow> tx_verifier \<Rightarrow> 'b transaction \<Rightarrow> 'b list \<Rightarrow> 'b list \<Rightarrow> u64 \<Rightarrow> nat \<Rightarrow>
    (tx_input \<times> 'b) list \<Rightarrow> u64 \<Rightarrow> tx_verification_result" where
  "verify_inputs env v tx input_boxes data_boxes bcost idx [] scost =
     \<lparr>tv_valid = True, tv_script_cost = scost, tv_total_cost = sat_add_u64 bcost scost,
      tv_error = None\<rparr>"
| "verify_inputs env v tx input_boxes data_boxes bcost idx ((input, input_box) # rest) scost =
     (case bytes_to_sign env tx of
        Inl e \<Rightarrow> invalid_result 0 bcost (''Failed to get bytes to sign: '' @ e)
      | Inr _ \<Rightarrow>
          if in_proof input = []
             \<and> check_storage_rent_conditions env input_box (in_extension input) (tx_outputs tx) (vf_height v)
          then verify_inputs env v tx input_boxes data_boxes bcost (idx + 1) rest scost
          else case run_script env tx idx input_boxes data_boxes (vf_height v) (vf_pre_header v) (vf_headers v) of
                 Inl e \<Rightarrow>
                   invalid_result scost (sat_add_u64 bcost scost)
                     (''Script error for input '' @ show_nat idx @ '': '' @ e)
               | Inr r \<Rightarrow>
                   let scost1 = scost + vr_cost r;
                       current_total = sat_add_u64 bcost scost1
                   in if MAX_TX_COST < current_total
                      then invalid_result scost1 current_total
                             (''Transaction cost '' @ show_nat (unat current_total) @ '' exceeds limit ''
                              @ show_nat (unat MAX_TX_COST))
                      else if \<not> vr_result r
                      then invalid_result scost1 current_total
                             (''Script verification failed for input '' @ show_nat idx @ '': ''
                              @ (case vr_expr r of
                                   Some e \<Rightarrow> ''Script reduced to false. Expr: '' @ e
                                 | None \<Rightarrow> ''Script proof verification failed (signature mismatch)''))
                      else verify_inputs env v tx input_boxes data_boxes bcost (idx + 1) rest scost1)"

definition verify_tx ::
  "('b, 'x) val_env_scheme \<Rightarrow> tx_verifier \<Rightarrow> 'b transaction \<Rightarrow> 'b list \<Rightarrow> 'b list \<Rightarrow> tx_verification_result" where
  "verify_tx env v tx input_boxes data_input_boxes =
     (let num_data_inputs = (case tx_data_inputs tx of None \<Rightarrow> 0 | Some di \<Rightarrow> length di);
          serialized = (case tx_size env tx of None \<Rightarrow> 0 | Some n \<Rightarrow> n);
          bcost = calculate_base_cost (length (tx_inputs tx)) (length (tx_outputs tx)) num_data_inputs serialized
      in if data_input_boxes \<noteq> [] \<and> \<not> tx_io_ok env (length data_input_boxes)
         then invalid_result 0 bcost ''Invalid number of data inputs''
         else if \<not> tx_io_ok env (length input_boxes)
         then invalid_result 0 bcost ''Invalid number of inputs''
         else verify_inputs env v tx input_boxes data_input_boxes bcost 0
                (zip (tx_inputs tx) input_boxes) 0)"

subsection \<open>Inputs and conservation\<close>

fun find_boxes ::
  "(bytes \<Rightarrow> 'b option) \<Rightarrow> (nat \<Rightarrow> bytes \<Rightarrow> consensus_error) \<Rightarrow> nat \<Rightarrow> bytes list \<Rightarrow> consensus_error + 'b list" where
  "find_boxes lookup missing idx [] = Inr []"
| "find_boxes lookup missing idx (i # is) =
     (case lookup i of
        None \<Rightarrow> Inl (missing idx i)
      | Some b \<Rightarrow> rbind (find_boxes lookup missing (idx + 1) is) (\<lambda>bs. Inr (b # bs)))"

definition validate_inputs_exist :: "'b transaction \<Rightarrow> (bytes \<Rightarrow> 'b option) \<Rightarrow> consensus_error + 'b list" where
  "validate_inputs_exist tx utxo_lookup =
     find_boxes utxo_lookup (\<lambda>idx i. MissingInput (hex_encode (tx_id tx)) idx (hex_encode i)) 0
       (map in_box_id (tx_inputs tx))"

definition validate_data_inputs_exist :: "'b transaction \<Rightarrow> (bytes \<Rightarrow> 'b option) \<Rightarrow> consensus_error + 'b list" where
  "validate_data_inputs_exist tx utxo_lookup =
     (case tx_data_inputs tx of
        None \<Rightarrow> Inr []
      | Some di \<Rightarrow>
          find_boxes utxo_lookup (\<lambda>idx i. MissingDataInput (hex_encode (tx_id tx)) idx (hex_encode i)) 0 di)"

text \<open>A hash map of token sums: \<open>entry(id).or_insert(0) += amount\<close>.\<close>

definition add_token :: "bytes \<times> u64 \<Rightarrow> (bytes \<times> u64) list \<Rightarrow> (bytes \<times> u64) list" where
  "add_token t m =
     AList.update (fst t) ((case map_of m (fst t) of None \<Rightarrow> 0 | Some a \<Rightarrow> a) + snd t) m"

definition collect_tokens :: "('b, 'x) val_env_scheme \<Rightarrow> 'b list \<Rightarrow> (bytes \<times> u64) list" where
  "collect_tokens env boxes = fold add_token (concat (map (box_token_amounts env) boxes)) []"

definition validate_token_conservation ::
  "('b, 'x) val_env_scheme \<Rightarrow> 'b transaction \<Rightarrow> 'b list \<Rightarrow> bool \<Rightarrow> consensus_error + unit" where
  "validate_token_conservation env tx input_boxes is_coinbase =
     (let input_tokens = collect_tokens env input_boxes;
          output_tokens = collect_tokens env (tx_outputs tx);
          mintable = (if \<not> is_coinbase \<and> input_boxes \<noteq> [] then Some (box_id_of env (hd input_boxes)) else None);
          amount = (\<lambda>m i. case map_of m i of None \<Rightarrow> 0 | Some a \<Rightarrow> a)
      in case find (\<lambda>i. amount input_tokens i < amount output_tokens i \<and> mintable \<noteq> Some i)
                (hash_order env (map fst output_tokens)) of
           Some i \<Rightarrow> Inl (InvalidTokenAmount (hex_encode i) (amount input_tokens i) (amount output_tokens i))
         | None \<Rightarrow> Inr ())"

definition validate_erg_conservation ::
  "('b, 'x) val_env_scheme \<Rightarrow> 'b transaction \<Rightarrow> 'b list \<Rightarrow> consensus_error + u64" where
  "validate_erg_conservation env tx input_boxes =
     (let input_sum = sum_list (map (box_value env) input_boxes);
          output_sum = sum_list (map (box_value env) (tx_outputs tx))
      in if input_sum < output_sum then Inl (InsufficientFunds input_sum output_sum)
         else Inr (input_sum - output_sum))"

subsection \<open>Conservation without overflow\<close>

lemma unat_sum_list: "sum_list (map unat ws) < 2 ^ 64 \<Longrightarrow> unat (sum_list ws) = sum_list (map unat ws)"
  for ws :: "u64 list"
proof (induction ws)
  case (Cons w ws)
  then have "sum_list (map unat ws) < 2 ^ 64" by simp
  with Cons show ?case by (simp add: unat_word_ariths)
qed simp

text \<open>The amounts as numbers: nanoERG and each token in a list of boxes.\<close>

definition erg_total :: "('b, 'x) val_env_scheme \<Rightarrow> 'b list \<Rightarrow> nat" where
  "erg_total env boxes = sum_list (map (\<lambda>b. unat (box_value env b)) boxes)"

definition token_total :: "('b, 'x) val_env_scheme \<Rightarrow> 'b list \<Rightarrow> bytes \<Rightarrow> nat" where
  "token_total env boxes i =
     sum_list (map (\<lambda>t. unat (snd t)) (filter (\<lambda>t. fst t = i) (concat (map (box_token_amounts env) boxes))))"

definition token_amount :: "(bytes \<times> u64) list \<Rightarrow> bytes \<Rightarrow> u64" where
  "token_amount m i = (case map_of m i of None \<Rightarrow> 0 | Some a \<Rightarrow> a)"

lemma token_amount_add: "token_amount (add_token t m) i = token_amount m i + (if i = fst t then snd t else 0)"
  by (simp add: token_amount_def add_token_def update_conv)

lemma token_amount_fold:
  "token_amount (fold add_token ts m) i = token_amount m i + sum_list (map snd (filter (\<lambda>t. fst t = i) ts))"
  by (induction ts arbitrary: m) (auto simp: token_amount_add ac_simps)

lemma set_fold_add_token: "fst ` set (fold add_token ts m) = fst ` set m \<union> fst ` set ts"
proof (induction ts arbitrary: m)
  case (Cons t ts)
  have "fst ` set (add_token t m) = insert (fst t) (fst ` set m)"
    unfolding add_token_def by (simp add: dom_update)
  with Cons show ?case by auto
qed simp

lemma unat_collected:
  assumes "token_total env boxes i < 2 ^ 64"
  shows "unat (token_amount (collect_tokens env boxes) i) = token_total env boxes i"
proof -
  define ts where "ts = filter (\<lambda>t. fst t = i) (concat (map (box_token_amounts env) boxes))"
  have "token_amount (collect_tokens env boxes) i = sum_list (map snd ts)"
    unfolding collect_tokens_def token_amount_fold ts_def by (simp add: token_amount_def)
  moreover have "token_total env boxes i = sum_list (map unat (map snd ts))"
    unfolding token_total_def ts_def [symmetric] by (simp add: comp_def)
  ultimately show ?thesis
    using assms unat_sum_list [of "map snd ts"] by simp
qed

lemma token_absent: "i \<notin> fst ` set (collect_tokens env boxes) \<Longrightarrow> token_total env boxes i = 0"
  unfolding collect_tokens_def set_fold_add_token token_total_def
  by (subst filter_False) auto

definition mintable_id :: "('b, 'x) val_env_scheme \<Rightarrow> 'b list \<Rightarrow> bool \<Rightarrow> bytes option" where
  "mintable_id env input_boxes is_coinbase =
     (if \<not> is_coinbase \<and> input_boxes \<noteq> [] then Some (box_id_of env (hd input_boxes)) else None)"

lemma case_find_Inr_iff:
  "(case find P xs of None \<Rightarrow> Inr () | Some x \<Rightarrow> Inl (f x)) = Inr () \<longleftrightarrow> (\<forall>x \<in> set xs. \<not> P x)"
proof (induction xs)
  case (Cons x xs)
  then show ?case by (cases "P x") simp_all
qed simp

lemma validate_token_conservation_ok:
  "validate_token_conservation env tx ins cb = Inr () \<longleftrightarrow>
     (\<forall>i \<in> set (hash_order env (map fst (collect_tokens env (tx_outputs tx)))).
        token_amount (collect_tokens env (tx_outputs tx)) i \<le> token_amount (collect_tokens env ins) i
        \<or> mintable_id env ins cb = Some i)"
  unfolding validate_token_conservation_def Let_def mintable_id_def [symmetric] token_amount_def [symmetric]
  by (simp add: case_find_Inr_iff not_less)

lemma validate_erg_conservation_nat:
  assumes "erg_total env ins < 2 ^ 64" "erg_total env (tx_outputs tx) < 2 ^ 64"
  shows "validate_erg_conservation env tx ins =
     (if erg_total env ins < erg_total env (tx_outputs tx)
      then Inl (InsufficientFunds (of_nat (erg_total env ins)) (of_nat (erg_total env (tx_outputs tx))))
      else Inr (of_nat (erg_total env ins - erg_total env (tx_outputs tx))))"
proof -
  have sums: "unat (sum_list (map (box_value env) bs)) = erg_total env bs" if "erg_total env bs < 2 ^ 64" for bs
    using that unat_sum_list [of "map (box_value env) bs"] by (simp add: erg_total_def comp_def)
  have words: "sum_list (map (box_value env) bs) = of_nat (erg_total env bs)" if "erg_total env bs < 2 ^ 64" for bs
    using sums [OF that] that by (simp add: word_unat_eq_iff unat_of_nat)
  show ?thesis
    unfolding validate_erg_conservation_def Let_def words [OF assms(1)] words [OF assms(2)]
    using assms by (simp add: word_less_nat_alt unat_of_nat of_nat_diff not_less)
qed

lemma fee_result:
  fixes fee :: u64
  assumes "a < 2 ^ 64"
  shows "(if a < b then Inl e else Inr (of_nat (a - b))) = Inr fee \<longleftrightarrow> a = b + unat fee"
proof (cases "a < b")
  case False
  have "of_nat (a - b) = fee \<longleftrightarrow> a - b = unat fee"
    using assms by (simp add: word_unat_eq_iff [of _ fee] unat_of_nat)
  with False show ?thesis by auto
qed simp

text \<open>The amounts as words and as numbers, when the sums fit.\<close>

lemma validate_token_conservation_nat:
  assumes "\<And>i. token_total env ins i < 2 ^ 64" "\<And>i. token_total env (tx_outputs tx) i < 2 ^ 64"
    and "\<And>ks. set (hash_order env ks) = set ks"
  shows "validate_token_conservation env tx ins cb = Inr ()
     \<longleftrightarrow> (\<forall>i. token_total env (tx_outputs tx) i \<le> token_total env ins i \<or> mintable_id env ins cb = Some i)"
proof -
  have le: "token_amount (collect_tokens env (tx_outputs tx)) i \<le> token_amount (collect_tokens env ins) i
            \<longleftrightarrow> token_total env (tx_outputs tx) i \<le> token_total env ins i" for i
    using unat_collected [OF assms(1)] unat_collected [OF assms(2)] by (simp add: word_le_nat_alt)
  have "set (hash_order env (map fst (collect_tokens env (tx_outputs tx)))) = fst ` set (collect_tokens env (tx_outputs tx))"
    using assms(3) by simp
  then show ?thesis
    unfolding validate_token_conservation_ok le using token_absent by (metis le0)
qed

text \<open>
  The documentation of the check says that no tokens are created out of thin air except in a
  coinbase. The code has the exception the other way round: it is the ordinary transaction that
  may mint one token, and for a coinbase no token may grow.
\<close>

lemma coinbase_mints_nothing:
  assumes "\<And>i. token_total env ins i < 2 ^ 64" "\<And>i. token_total env (tx_outputs tx) i < 2 ^ 64"
    and "\<And>ks. set (hash_order env ks) = set ks"
  shows "validate_token_conservation env tx ins True = Inr ()
     \<longleftrightarrow> (\<forall>i. token_total env (tx_outputs tx) i \<le> token_total env ins i)"
  unfolding validate_token_conservation_nat [OF assms] by (simp add: mintable_id_def)

text \<open>C6: as long as the sums of an ordinary transaction (one that is not a coinbase) fit 64 bits, the
  two conservation checks are exact: the nanoERG of the inputs are those of the outputs and the
  fee, an excess of the outputs is refused, and the tokens pass exactly when no token grows but
  the one whose identifier is that of the first input box. That one token may be minted in any
  amount.\<close>

theorem conservation_exact:
  assumes "erg_total env ins < 2 ^ 64" "erg_total env (tx_outputs tx) < 2 ^ 64"
    and "\<And>i. token_total env ins i < 2 ^ 64" "\<And>i. token_total env (tx_outputs tx) i < 2 ^ 64"
    and "\<And>ks. set (hash_order env ks) = set ks"
  shows "(validate_erg_conservation env tx ins = Inr fee
            \<longleftrightarrow> erg_total env ins = erg_total env (tx_outputs tx) + unat fee)
       \<and> (validate_token_conservation env tx ins False = Inr ()
            \<longleftrightarrow> (\<forall>i. token_total env (tx_outputs tx) i \<le> token_total env ins i
                    \<or> (ins \<noteq> [] \<and> i = box_id_of env (hd ins))))"
proof
  show "validate_erg_conservation env tx ins = Inr fee
          \<longleftrightarrow> erg_total env ins = erg_total env (tx_outputs tx) + unat fee"
    unfolding validate_erg_conservation_nat [OF assms(1,2)] using assms(1) by (rule fee_result)
  show "validate_token_conservation env tx ins False = Inr ()
          \<longleftrightarrow> (\<forall>i. token_total env (tx_outputs tx) i \<le> token_total env ins i \<or> (ins \<noteq> [] \<and> i = box_id_of env (hd ins)))"
    unfolding validate_token_conservation_nat [OF assms(3-5)] by (auto simp: mintable_id_def)
qed

text \<open>Boxes that are an identifier, a value and tokens, for concrete runs; every script holds.\<close>

type_synonym coin = "bytes \<times> u64 \<times> (bytes \<times> u64) list"

definition coin_env :: "coin val_env" where
  "coin_env =
     \<lparr>sigma_serialize = (\<lambda>b. Some (fst b)), sigma_parse = (\<lambda>_. None), box_id_of = fst,
      tree_serialize = (\<lambda>_. Some []), box_tokens = (\<lambda>b. map fst (snd (snd b))), blake2b256 = id,
      box_value = (\<lambda>b. fst (snd b)), box_token_amounts = (\<lambda>b. snd (snd b)), box_created = (\<lambda>_. 0),
      box_register = (\<lambda>_ _. None), tx_size = (\<lambda>_. Some 0), bytes_to_sign = (\<lambda>_. Inr []),
      tx_io_ok = (\<lambda>n. 0 < n \<and> n \<le> 255),
      run_script = (\<lambda>tx idx ins di h pre hs. Inr \<lparr>vr_result = True, vr_cost = 100, vr_expr = None\<rparr>),
      hash_order = id\<rparr>"

definition coin_tx :: "coin list \<Rightarrow> coin list \<Rightarrow> coin transaction" where
  "coin_tx ins outs =
     \<lparr>tx_id = [1], tx_inputs = map (\<lambda>b. \<lparr>in_box_id = fst b, in_proof = [], in_extension = []\<rparr>) ins,
      tx_data_inputs = None, tx_outputs = outs\<rparr>"

theorem conservation_exact_witness:
  "validate_erg_conservation coin_env (coin_tx [([7], 1000, [])] [([8], 900, [([7], 5)])]) [([7], 1000, [])] = Inr 100
   \<and> validate_token_conservation coin_env (coin_tx [([7], 1000, [])] [([8], 900, [([7], 5)])]) [([7], 1000, [])] False = Inr ()"
  using conservation_exact [of coin_env "[([7], 1000, [])]" "coin_tx [([7], 1000, [])] [([8], 900, [([7], 5)])]" 100]
  by (auto simp: erg_total_def token_total_def coin_env_def coin_tx_def)

text \<open>Sums are not checked for overflow, so a transaction can create value: two outputs of
  \<open>2 ^ 63 - 1\<close> nanoERG, the most a box can hold, and a third of two nanoERG more than the input
  pass the check with no fee, although the outputs exceed the input by \<open>2 ^ 64\<close>.\<close>

theorem erg_overflow_accepted:
  assumes "tx_outputs tx = [a, b, c]" "ins = [i]"
    and "unat (box_value env a) = 2 ^ 63 - 1" "unat (box_value env b) = 2 ^ 63 - 1"
    and "unat (box_value env c) = unat (box_value env i) + 2"
  shows "validate_erg_conservation env tx ins = Inr 0 \<and> erg_total env (tx_outputs tx) = erg_total env ins + 2 ^ 64"
proof
  have "box_value env a = of_nat (2 ^ 63 - 1)" "box_value env b = of_nat (2 ^ 63 - 1)"
       "box_value env c = box_value env i + 2"
    using assms(3-5) unsigned_less [where ?'a = nat and w = "box_value env c"] by (simp_all add: word_unat_eq_iff unat_of_nat unat_word_ariths)
  then have "sum_list (map (box_value env) [a, b, c]) = box_value env i" by simp
  then show "validate_erg_conservation env tx ins = Inr 0"
    unfolding validate_erg_conservation_def Let_def assms(1,2) by simp
qed (use assms in \<open>simp add: erg_total_def\<close>)

theorem erg_overflow_accepted_witness:
  "validate_erg_conservation coin_env
     (coin_tx [([7], 1000, [])] [([1], 9223372036854775807, []), ([2], 9223372036854775807, []), ([3], 1002, [])])
     [([7], 1000, [])] = Inr 0"
  using erg_overflow_accepted [of "coin_tx [([7], 1000, [])] [([1], 9223372036854775807, []), ([2], 9223372036854775807, []), ([3], 1002, [])]"
      "([1], 9223372036854775807, [])" "([2], 9223372036854775807, [])" "([3], 1002, [])" "[([7], 1000, [])]" "([7], 1000, [])" coin_env]
  by (simp add: coin_tx_def coin_env_def)

end
