(* ===== verification/Block_Validation.thy ===== *)
theory Block_Validation
  imports Validation
begin

text \<open>
  The full block validator of \<open>crates/ergo-consensus/src/block_validation.rs\<close>: the checks of the
  header against its parent, of the transactions against the header, and the loop over the
  transactions with the boxes spent and created so far, down to the state change it returns.

  A validated block spends no box twice, every input is unspent or created by an earlier
  transaction of the block, the state change lists exactly its inputs and outputs, and its cost is
  within the voted limit. The scripts of the first transaction are never run.
\<close>

declare map_of_eq_Some_iff [simp del] Some_eq_map_of_iff [simp del]

subsection \<open>Results and configuration\<close>

record 'b spent_box =
  sb_box_id :: bytes
  sb_original_box :: 'b

record 'b created_box =
  cb_ergo_box :: 'b
  cb_tx_id :: bytes
  cb_output_index :: u16

record 'b validated_state_change =
  vc_height :: u32
  vc_spent :: "'b spent_box list"
  vc_created :: "'b created_box list"

record 'b block_validation_result =
  br_valid :: bool
  br_total_cost :: u64
  br_state_change :: "'b validated_state_change option"
  br_error :: "string option"

record checkpoint =
  ck_height :: u32
  ck_block_id :: string

definition checkpoint_mainnet :: checkpoint where
  "checkpoint_mainnet = \<lparr>ck_height = 1690000, ck_block_id = []\<rparr>"

record full_block_validator =
  fv_parameters :: chain_parameters
  fv_skip_script_verification :: bool
  fv_checkpoint :: "checkpoint option"

definition validator_with_parameters :: "chain_parameters \<Rightarrow> full_block_validator" where
  "validator_with_parameters p =
     \<lparr>fv_parameters = p, fv_skip_script_verification = False, fv_checkpoint = Some checkpoint_mainnet\<rparr>"

definition validator_new :: full_block_validator where
  "validator_new =
     \<lparr>fv_parameters = chain_parameters_default, fv_skip_script_verification = False,
      fv_checkpoint = Some checkpoint_mainnet\<rparr>"

definition validator_without_checkpoint :: full_block_validator where
  "validator_without_checkpoint =
     \<lparr>fv_parameters = chain_parameters_default, fv_skip_script_verification = False, fv_checkpoint = None\<rparr>"

definition validator_with_parameters_no_checkpoint :: "chain_parameters \<Rightarrow> full_block_validator" where
  "validator_with_parameters_no_checkpoint p =
     \<lparr>fv_parameters = p, fv_skip_script_verification = False, fv_checkpoint = None\<rparr>"

definition fv_max_block_cost :: "full_block_validator \<Rightarrow> u64" where
  "fv_max_block_cost v = max_block_cost (fv_parameters v)"

definition is_below_checkpoint :: "full_block_validator \<Rightarrow> u32 \<Rightarrow> bool" where
  "is_below_checkpoint v height = (case fv_checkpoint v of None \<Rightarrow> False | Some cp \<Rightarrow> height \<le> ck_height cp)"

definition MIN_BOX_VALUE :: u64 where
  "MIN_BOX_VALUE = 360"

subsection \<open>The texts of the errors\<close>

fun show_consensus_error :: "consensus_error \<Rightarrow> string" where
  "show_consensus_error (InvalidPow s) = ''Invalid PoW solution: '' @ s"
| "show_consensus_error (InvalidHeader s) = ''Invalid block header: '' @ s"
| "show_consensus_error (InvalidBlockE s) = ''Invalid block: '' @ s"
| "show_consensus_error (InvalidTransactionE s) = ''Invalid transaction: '' @ s"
| "show_consensus_error (ParentNotFound s) = ''Parent block not found: '' @ s"
| "show_consensus_error (InvalidTimestamp b p) =
     ''Invalid timestamp: block '' @ show_nat (unat b) @ '', expected after '' @ show_nat (unat p)"
| "show_consensus_error (InvalidDifficulty g e) = ''Invalid difficulty: got '' @ g @ '', expected '' @ e"
| "show_consensus_error (BlockTooLarge n m) =
     ''Block too large: '' @ show_nat n @ '' bytes, max '' @ show_nat m @ '' bytes''"
| "show_consensus_error (BlockCostExceeded c m) =
     ''Block cost exceeded: '' @ show_nat (unat c) @ '', max '' @ show_nat (unat m)"
| "show_consensus_error (TransactionCostExceeded t c m) =
     ''Transaction cost exceeded: '' @ show_nat (unat c) @ '', max '' @ show_nat (unat m) @ '' (tx: '' @ t @ '')''"
| "show_consensus_error (InvalidExtension s) = ''Invalid extension: '' @ s"
| "show_consensus_error (InvalidStateRoot g e) = ''Invalid state root: got '' @ g @ '', expected '' @ e"
| "show_consensus_error (ScriptError s) = ''Script execution failed: '' @ s"
| "show_consensus_error (InsufficientFunds i out) =
     ''Insufficient funds: inputs '' @ show_nat (unat i) @ '', outputs '' @ show_nat (unat out)"
| "show_consensus_error (MissingInput t i b) =
     ''Missing input for tx '' @ t @ '': input '' @ show_nat i @ '' box '' @ b @ '' not found''"
| "show_consensus_error (MissingDataInput t i b) =
     ''Missing data input for tx '' @ t @ '': input '' @ show_nat i @ '' box '' @ b @ '' not found''"
| "show_consensus_error (InvalidTokenAmount t i out) =
     ''Invalid token amount for '' @ t @ '': input '' @ show_nat (unat i) @ '', output '' @ show_nat (unat out)"
| "show_consensus_error (DoubleSpendE b) = ''Double spend detected: box '' @ b @ '' already spent''"
| "show_consensus_error (ScriptVerificationFailed t e) = ''Script verification failed for tx '' @ t @ '': '' @ e"
| "show_consensus_error (InsufficientFee p r) =
     ''Insufficient fee: provided '' @ show_nat (unat p) @ '', required '' @ show_nat (unat r)"
| "show_consensus_error (DataInputIntersection b) = ''Data input '' @ b @ '' cannot also be a regular input''"
| "show_consensus_error (BoxNotFound b) = ''Box not found: '' @ b"
| "show_consensus_error (InvalidToken s) = ''Invalid token operation: '' @ s"
| "show_consensus_error (StorageFailed s) = ''Storage error: '' @ s"
| "show_consensus_error (Validation s) = ''Validation error: '' @ s"

fun show_block_validation_error :: "block_validation_error \<Rightarrow> string" where
  "show_block_validation_error (HeaderIdMismatch e g) = ''Header ID mismatch: expected '' @ e @ '', got '' @ g"
| "show_block_validation_error (TransactionsRootMismatch e g) =
     ''Transactions root mismatch: header has '' @ e @ '', computed '' @ g"
| "show_block_validation_error EmptyBlock = ''Block has no transactions''"
| "show_block_validation_error (InvalidCoinbase s) = ''Invalid coinbase: '' @ s"

subsection \<open>The header\<close>

definition fv_validate_header :: "header \<Rightarrow> header \<Rightarrow> consensus_error + unit" where
  "fv_validate_header h parent =
     (if hd_height h \<noteq> hd_height parent + 1
      then Inl (InvalidHeader (''Invalid height: '' @ show_nat (unat (hd_height h)) @ '' (expected ''
                  @ show_nat (unat (hd_height parent + 1)) @ '')''))
      else if hd_timestamp h \<le> hd_timestamp parent
      then Inl (InvalidTimestamp (hd_timestamp h) (hd_timestamp parent))
      else if hd_parent_id h \<noteq> hd_id parent
      then Inl (InvalidHeader (''Parent ID mismatch: header has '' @ hex_encode (hd_parent_id h) @ '', expected ''
                  @ hex_encode (hd_id parent)))
      else if hd_version h < 1 \<or> 4 < hd_version h
      then Inl (InvalidHeader (''Invalid version: '' @ show_nat (unat (hd_version h))))
      else Inr ())"

subsection \<open>The transactions\<close>

text \<open>
  What the loop carries: the cost so far, the boxes to remove and to add, the identifiers spent
  in the block and the boxes created in it.
\<close>

record 'b val_state =
  vs_total_cost :: u64
  vs_spent_boxes :: "'b spent_box list"
  vs_created_boxes :: "'b created_box list"
  vs_spent_in_block :: "bytes list"
  vs_created_in_block :: "(bytes \<times> 'b) list"

definition val_start :: "'b val_state" where
  "val_start =
     \<lparr>vs_total_cost = 0, vs_spent_boxes = [], vs_created_boxes = [], vs_spent_in_block = [],
      vs_created_in_block = []\<rparr>"

definition block_lookup :: "(bytes \<Rightarrow> 'b option) \<Rightarrow> (bytes \<times> 'b) list \<Rightarrow> bytes \<Rightarrow> 'b option" where
  "block_lookup utxo_lookup created i =
     (case map_of created i of Some b \<Rightarrow> Some b | None \<Rightarrow> utxo_lookup i)"

definition collect_input_boxes ::
  "'b transaction \<Rightarrow> (bytes \<Rightarrow> 'b option) \<Rightarrow> (bytes \<times> 'b) list \<Rightarrow> consensus_error + 'b list" where
  "collect_input_boxes tx utxo_lookup created = validate_inputs_exist tx (block_lookup utxo_lookup created)"

definition collect_data_input_boxes ::
  "'b transaction \<Rightarrow> (bytes \<Rightarrow> 'b option) \<Rightarrow> (bytes \<times> 'b) list \<Rightarrow> consensus_error + 'b list" where
  "collect_data_input_boxes tx utxo_lookup created =
     validate_data_inputs_exist tx (block_lookup utxo_lookup created)"

definition validate_no_data_input_intersection :: "'b transaction \<Rightarrow> consensus_error + unit" where
  "validate_no_data_input_intersection tx =
     (case tx_data_inputs tx of
        None \<Rightarrow> Inr ()
      | Some di \<Rightarrow>
          (case find (\<lambda>i. i \<in> set (map in_box_id (tx_inputs tx))) di of
             None \<Rightarrow> Inr ()
           | Some i \<Rightarrow> Inl (DataInputIntersection (hex_encode i))))"

definition check_double_spends :: "bytes list \<Rightarrow> bytes list \<Rightarrow> consensus_error + unit" where
  "check_double_spends ids spent_in_block =
     (case first_duplicate [] ids of
        Some i \<Rightarrow> Inl (DoubleSpendE (hex_encode i))
      | None \<Rightarrow>
          (case find (\<lambda>i. i \<in> set spent_in_block) ids of
             Some i \<Rightarrow> Inl (DoubleSpendE (hex_encode i))
           | None \<Rightarrow> Inr ()))"

fun check_output_values :: "('b, 'x) val_env_scheme \<Rightarrow> nat \<Rightarrow> 'b list \<Rightarrow> consensus_error + unit" where
  "check_output_values env idx [] = Inr ()"
| "check_output_values env idx (b # bs) =
     (if box_value env b < MIN_BOX_VALUE
      then Inl (InvalidTransactionE (''Output '' @ show_nat idx @ '' has value '' @ show_nat (unat (box_value env b))
                  @ '' below minimum '' @ show_nat (unat MIN_BOX_VALUE)))
      else check_output_values env (idx + 1) bs)"

text \<open>Step 9: run the scripts of a transaction other than the first and add up the cost.\<close>

definition verify_and_cost ::
  "('b, 'x) val_env_scheme \<Rightarrow> full_block_validator \<Rightarrow> tx_verifier \<Rightarrow> bool \<Rightarrow> 'b transaction \<Rightarrow>
    'b list \<Rightarrow> 'b list \<Rightarrow> u64 \<Rightarrow> consensus_error + u64" where
  "verify_and_cost env fv verifier is_coinbase tx input_boxes data_input_boxes cost =
     (if \<not> fv_skip_script_verification fv \<and> \<not> is_coinbase
      then let r = verify_tx env verifier tx input_boxes data_input_boxes;
               limit = fv_max_block_cost fv in
        if \<not> tv_valid r
        then Inl (ScriptVerificationFailed (hex_encode (tx_id tx))
                    (case tv_error r of None \<Rightarrow> ''Unknown error'' | Some e \<Rightarrow> e))
        else if limit < tv_total_cost r
        then Inl (TransactionCostExceeded (hex_encode (tx_id tx)) (tv_total_cost r) limit)
        else let cost1 = sat_add_u64 cost (tv_total_cost r) in
          if limit < cost1 then Inl (BlockCostExceeded cost1 limit) else Inr cost1
      else Inr cost)"

text \<open>Steps 3 to 9, which are skipped below the checkpoint.\<close>

definition check_transaction ::
  "('b, 'x) val_env_scheme \<Rightarrow> full_block_validator \<Rightarrow> tx_verifier \<Rightarrow> (bytes \<Rightarrow> 'b option) \<Rightarrow> bool \<Rightarrow>
    'b transaction \<Rightarrow> 'b val_state \<Rightarrow> consensus_error + 'b list \<times> u64" where
  "check_transaction env fv verifier utxo_lookup is_coinbase tx st =
     rbind (collect_input_boxes tx utxo_lookup (vs_created_in_block st)) (\<lambda>input_boxes.
     rbind (collect_data_input_boxes tx utxo_lookup (vs_created_in_block st)) (\<lambda>data_input_boxes.
     rbind (validate_no_data_input_intersection tx) (\<lambda>_.
     rbind (validate_erg_conservation env tx input_boxes) (\<lambda>_.
     rbind (validate_token_conservation env tx input_boxes is_coinbase) (\<lambda>_.
     rbind (check_output_values env 0 (tx_outputs tx)) (\<lambda>_.
     rbind (verify_and_cost env fv verifier is_coinbase tx input_boxes data_input_boxes (vs_total_cost st)) (\<lambda>cost.
       Inr (input_boxes, cost))))))))"

definition record_created :: "('b, 'x) val_env_scheme \<Rightarrow> 'b transaction \<Rightarrow> 'b val_state \<Rightarrow> 'b val_state" where
  "record_created env tx st =
     st\<lparr>vs_created_in_block := fold (\<lambda>b. AList.update (box_id_of env b) b) (tx_outputs tx) (vs_created_in_block st),
        vs_created_boxes := vs_created_boxes st @
          map (\<lambda>(b, txid, i). \<lparr>cb_ergo_box = b, cb_tx_id = txid, cb_output_index = i\<rparr>) (tx_created tx)\<rparr>"

definition validate_one ::
  "('b, 'x) val_env_scheme \<Rightarrow> full_block_validator \<Rightarrow> bool \<Rightarrow> tx_verifier \<Rightarrow> (bytes \<Rightarrow> 'b option) \<Rightarrow> bool \<Rightarrow>
    'b transaction \<Rightarrow> 'b val_state \<Rightarrow> consensus_error + 'b val_state" where
  "validate_one env fv checkpoint_mode verifier utxo_lookup is_coinbase tx st =
     (let ids = map in_box_id (tx_inputs tx) in
      rbind (check_double_spends ids (vs_spent_in_block st)) (\<lambda>_.
      if checkpoint_mode
      then Inr (record_created env tx (st\<lparr>vs_spent_in_block := ids @ vs_spent_in_block st\<rparr>))
      else rbind (check_transaction env fv verifier utxo_lookup is_coinbase tx st) (\<lambda>(input_boxes, cost).
             Inr (record_created env tx (st\<lparr>vs_total_cost := cost,
               vs_spent_in_block := ids @ vs_spent_in_block st,
               vs_spent_boxes := vs_spent_boxes st @
                 map (\<lambda>(i, b). \<lparr>sb_box_id = i, sb_original_box = b\<rparr>) (zip ids input_boxes)\<rparr>)))))"

fun validate_loop ::
  "('b, 'x) val_env_scheme \<Rightarrow> full_block_validator \<Rightarrow> bool \<Rightarrow> tx_verifier \<Rightarrow> (bytes \<Rightarrow> 'b option) \<Rightarrow> nat \<Rightarrow>
    'b transaction list \<Rightarrow> 'b val_state \<Rightarrow> consensus_error + 'b val_state" where
  "validate_loop env fv checkpoint_mode verifier utxo_lookup tx_idx [] st = Inr st"
| "validate_loop env fv checkpoint_mode verifier utxo_lookup tx_idx (tx # txs) st =
     rbind (validate_one env fv checkpoint_mode verifier utxo_lookup (tx_idx = 0) tx st)
       (validate_loop env fv checkpoint_mode verifier utxo_lookup (tx_idx + 1) txs)"

definition validate_transactions ::
  "('b, 'x) val_env_scheme \<Rightarrow> full_block_validator \<Rightarrow> 'b block_transactions \<Rightarrow> u32 \<Rightarrow> header \<Rightarrow> header list \<Rightarrow>
    (bytes \<Rightarrow> 'b option) \<Rightarrow> consensus_error + u64 \<times> 'b validated_state_change" where
  "validate_transactions env fv block_txs height pre_header last_headers utxo_lookup =
     (let verifier = \<lparr>vf_height = height, vf_pre_header = pre_header, vf_headers = last_headers\<rparr> in
      rbind (validate_loop env fv (is_below_checkpoint fv height) verifier utxo_lookup 0 (bt_txs block_txs) val_start)
        (\<lambda>st. Inr (vs_total_cost st,
           \<lparr>vc_height = height, vc_spent = vs_spent_boxes st, vc_created = vs_created_boxes st\<rparr>)))"

definition invalid_block :: "string \<Rightarrow> 'b block_validation_result" where
  "invalid_block e = \<lparr>br_valid = False, br_total_cost = 0, br_state_change = None, br_error = Some e\<rparr>"

definition validate_block ::
  "('b, 'x) val_env_scheme \<Rightarrow> 'b tx_env \<Rightarrow> full_block_validator \<Rightarrow> 'b full_block \<Rightarrow> header \<Rightarrow>
    (bytes \<Rightarrow> 'b option) \<Rightarrow> header list \<Rightarrow> 'b block_validation_result" where
  "validate_block env tenv fv block parent_header utxo_lookup last_headers =
     (case fv_validate_header (fb_header block) parent_header of
        Inl e \<Rightarrow> invalid_block (''Header validation failed: '' @ show_consensus_error e)
      | Inr _ \<Rightarrow>
          (case validate_against_header tenv (fb_transactions block) (fb_header block) of
             Inl e \<Rightarrow> invalid_block (''Transactions validation failed: '' @ show_block_validation_error e)
           | Inr _ \<Rightarrow>
               if bt_is_empty (fb_transactions block)
               then invalid_block ''Block must have at least one transaction''
               else (case validate_transactions env fv (fb_transactions block) (fb_height block) (fb_header block)
                            last_headers utxo_lookup of
                       Inr (cost, change) \<Rightarrow>
                         \<lparr>br_valid = True, br_total_cost = cost, br_state_change = Some change, br_error = None\<rparr>
                     | Inl e \<Rightarrow> invalid_block (show_consensus_error e))))"

definition spent_box_ids :: "'b validated_state_change \<Rightarrow> bytes list" where
  "spent_box_ids c = filter (\<lambda>i. length i = 32) (map sb_box_id (vc_spent c))"

subsection \<open>What a validated block satisfies\<close>

lemma check_double_spends_ok:
  "check_double_spends ids spent = Inr () \<longleftrightarrow> distinct ids \<and> set ids \<inter> set spent = {}"
proof (cases "first_duplicate [] ids")
  case None
  then show ?thesis
    using first_duplicate_None [of "[]" ids] by (auto simp: check_double_spends_def case_find_Inr_iff)
next
  case (Some i)
  then have "\<not> distinct ids" using first_duplicate_None [of "[]" ids] by simp
  with Some show ?thesis by (simp add: check_double_spends_def)
qed

lemma find_boxes_ok: "find_boxes lookup missing idx ids = Inr bs \<Longrightarrow> map lookup ids = map Some bs"
  by (induction lookup missing idx ids arbitrary: bs rule: find_boxes.induct)
     (auto simp: res_simps split: option.splits)

lemma collect_input_boxes_ok:
  "collect_input_boxes tx utxo created = Inr bs \<Longrightarrow>
     map (block_lookup utxo created) (map in_box_id (tx_inputs tx)) = map Some bs"
  unfolding collect_input_boxes_def validate_inputs_exist_def by (rule find_boxes_ok)

lemma verify_and_cost_bound:
  "verify_and_cost env fv v cb tx ins di cost = Inr cost1 \<Longrightarrow> cost \<le> fv_max_block_cost fv \<Longrightarrow> cost1 \<le> fv_max_block_cost fv"
  by (auto simp: verify_and_cost_def Let_def not_less split: if_splits)

lemma check_transaction_ok:
  assumes "check_transaction env fv v utxo cb tx st = Inr (ins, cost)" "vs_total_cost st \<le> fv_max_block_cost fv"
  shows "map (block_lookup utxo (vs_created_in_block st)) (map in_box_id (tx_inputs tx)) = map Some ins"
    and "cost \<le> fv_max_block_cost fv"
  using assms collect_input_boxes_ok verify_and_cost_bound
  by (auto simp: check_transaction_def res_simps simp del: map_map)

text \<open>The transactions \<open>seen\<close> have been validated and left the state \<open>st\<close>.\<close>

definition outputs_of :: "'b transaction list \<Rightarrow> 'b set" where
  "outputs_of txs = (\<Union>tx \<in> set txs. set (tx_outputs tx))"

definition ids_of :: "'b transaction list \<Rightarrow> bytes list" where
  "ids_of txs = concat (map (\<lambda>tx. map in_box_id (tx_inputs tx)) txs)"

definition available :: "('b, 'x) val_env_scheme \<Rightarrow> (bytes \<Rightarrow> 'b option) \<Rightarrow> 'b transaction list \<Rightarrow> bytes \<Rightarrow> bool" where
  "available env utxo seen i \<longleftrightarrow> utxo i \<noteq> None \<or> i \<in> box_id_of env ` outputs_of seen"

primrec all_available :: "('b, 'x) val_env_scheme \<Rightarrow> (bytes \<Rightarrow> 'b option) \<Rightarrow> 'b transaction list \<Rightarrow> 'b transaction list \<Rightarrow> bool" where
  "all_available env utxo seen [] = True"
| "all_available env utxo seen (tx # txs) =
     (list_all (available env utxo seen) (map in_box_id (tx_inputs tx)) \<and> all_available env utxo (seen @ [tx]) txs)"

definition created_entry :: "'b \<times> bytes \<times> u16 \<Rightarrow> 'b created_box" where
  "created_entry = (\<lambda>(b, txid, i). \<lparr>cb_ergo_box = b, cb_tx_id = txid, cb_output_index = i\<rparr>)"

definition loop_inv :: "('b, 'x) val_env_scheme \<Rightarrow> full_block_validator \<Rightarrow> 'b transaction list \<Rightarrow> 'b val_state \<Rightarrow> bool" where
  "loop_inv env fv seen st \<longleftrightarrow>
     set (vs_spent_in_block st) = set (ids_of seen) \<and> distinct (ids_of seen)
     \<and> map sb_box_id (vs_spent_boxes st) = ids_of seen
     \<and> vs_created_boxes st = map created_entry (concat (map tx_created seen))
     \<and> (\<forall>i b. map_of (vs_created_in_block st) i = Some b \<longrightarrow> b \<in> outputs_of seen \<and> box_id_of env b = i)
     \<and> vs_total_cost st \<le> fv_max_block_cost fv"

lemma ids_of_snoc [simp]: "ids_of (seen @ [tx]) = ids_of seen @ map in_box_id (tx_inputs tx)"
  by (simp add: ids_of_def)

lemma outputs_of_snoc [simp]: "outputs_of (seen @ [tx]) = outputs_of seen \<union> set (tx_outputs tx)"
  by (auto simp: outputs_of_def)

lemma map_of_fold_upd_list:
  "map_of (fold (\<lambda>b. AList.update (key b) b) bs m) i = Some b \<Longrightarrow> map_of m i = Some b \<or> (b \<in> set bs \<and> key b = i)"
  by (induction bs arbitrary: m) (fastforce simp: update_conv split: if_splits)+

lemma loop_inv_start: "loop_inv env fv [] val_start"
  by (simp add: loop_inv_def val_start_def ids_of_def)

lemma map_sb_box_id: "map sb_box_id (map (\<lambda>(i, b). \<lparr>sb_box_id = i, sb_original_box = b\<rparr>) (zip ids bs)) = take (length bs) ids"
  by (induction ids arbitrary: bs) (auto simp: zip_Cons1 split: list.split)

lemma block_lookup_available:
  assumes "loop_inv env fv seen st" "block_lookup utxo (vs_created_in_block st) i = Some b"
  shows "available env utxo seen i"
proof (cases "map_of (vs_created_in_block st) i")
  case None
  with assms(2) show ?thesis by (simp add: block_lookup_def available_def)
next
  case (Some b')
  then have "b' \<in> outputs_of seen" "i = box_id_of env b'"
    using assms(1) unfolding loop_inv_def by blast+
  then show ?thesis by (simp add: available_def)
qed

lemma validate_one_ok:
  assumes "validate_one env fv False v utxo cb tx st = Inr st'" "loop_inv env fv seen st"
  shows "loop_inv env fv (seen @ [tx]) st' \<and> list_all (available env utxo seen) (map in_box_id (tx_inputs tx))"
proof -
  let ?ids = "map in_box_id (tx_inputs tx)"
  obtain ins cost where ok: "check_double_spends ?ids (vs_spent_in_block st) = Inr ()"
      and ct: "check_transaction env fv v utxo cb tx st = Inr (ins, cost)"
      and st': "st' = record_created env tx (st\<lparr>vs_total_cost := cost, vs_spent_in_block := ?ids @ vs_spent_in_block st,
               vs_spent_boxes := vs_spent_boxes st @ map (\<lambda>(i, b). \<lparr>sb_box_id = i, sb_original_box = b\<rparr>) (zip ?ids ins)\<rparr>)"
    using assms(1) by (auto simp: validate_one_def Let_def res_simps)
  have found: "map (block_lookup utxo (vs_created_in_block st)) ?ids = map Some ins" and cost: "cost \<le> fv_max_block_cost fv"
    using check_transaction_ok [OF ct] assms(2) by (auto simp: loop_inv_def simp del: map_map)
  have len: "length ins = length ?ids"
    using found by (metis length_map)
  have "\<forall>i \<in> set ?ids. \<exists>b. block_lookup utxo (vs_created_in_block st) i = Some b"
    using found by (metis (no_types, lifting) in_set_conv_nth length_map nth_map)
  then have "list_all (available env utxo seen) ?ids"
    unfolding list_all_iff using block_lookup_available [OF assms(2)] by blast
  moreover have "loop_inv env fv (seen @ [tx]) st'"
    using assms(2) ok cost len unfolding check_double_spends_ok
    by (auto simp: loop_inv_def st' record_created_def map_sb_box_id created_entry_def simp del: map_map dest!: map_of_fold_upd_list)
  ultimately show ?thesis by blast
qed

lemma validate_loop_ok:
  assumes "validate_loop env fv False v utxo n txs st = Inr st'" "loop_inv env fv seen st"
  shows "loop_inv env fv (seen @ txs) st' \<and> all_available env utxo seen txs"
  using assms
proof (induction txs arbitrary: n st seen)
  case (Cons tx txs)
  obtain st1 where one: "validate_one env fv False v utxo (n = 0) tx st = Inr st1"
      and rest: "validate_loop env fv False v utxo (n + 1) txs st1 = Inr st'"
    using Cons.prems(1) by (auto simp: res_simps)
  from validate_one_ok [OF one Cons.prems(2)] Cons.IH [OF rest, of "seen @ [tx]"] show ?case by simp
qed simp

text \<open>C5: what the validator accepts above the checkpoint: the inputs of the block are pairwise
  different, each is in the UTXO set or an output of an earlier transaction of the block, the state
  change removes exactly the inputs and adds exactly the outputs, in their order, and the cost is
  within the limit miners voted.\<close>

theorem validated_block_sound:
  assumes "validate_transactions env fv b height pre hs utxo = Inr (cost, change)" "\<not> is_below_checkpoint fv height"
  shows "distinct (get_input_box_ids b) \<and> all_available env utxo [] (bt_txs b)
       \<and> map sb_box_id (vc_spent change) = get_input_box_ids b
       \<and> vc_created change = map created_entry (get_outputs b)
       \<and> vc_height change = height \<and> cost \<le> max_block_cost (fv_parameters fv)"
proof -
  obtain v st where loop: "validate_loop env fv False v utxo 0 (bt_txs b) val_start = Inr st"
      and res: "cost = vs_total_cost st" "change = \<lparr>vc_height = height, vc_spent = vs_spent_boxes st, vc_created = vs_created_boxes st\<rparr>"
    using assms by (auto simp: validate_transactions_def Let_def res_simps)
  from validate_loop_ok [OF loop loop_inv_start] res show ?thesis
    by (simp add: loop_inv_def ids_of_def get_input_box_ids_def get_outputs_def fv_max_block_cost_def)
qed

text \<open>A chain of two payments, the second of which spends an output of the first.\<close>

definition two_payments :: "coin block_transactions" where
  "two_payments =
     bt_new [9] [coin_tx [([7], 5000, [])] [([1], 4000, []), ([2], 1000, [])], coin_tx [([2], 1000, [])] [([3], 900, [])]]"

lemma two_payments_valid:
  "\<exists>change. validate_transactions coin_env validator_without_checkpoint two_payments 1 h hs
     (map_of [([7], ([7], 5000, []))]) = Inr (2200, change)"
  by (simp add: validate_transactions_def two_payments_def bt_new_def coin_tx_def coin_env_def Let_def
      validator_without_checkpoint_def is_below_checkpoint_def validate_one_def check_double_spends_def
      check_transaction_def collect_input_boxes_def collect_data_input_boxes_def validate_inputs_exist_def
      validate_data_inputs_exist_def block_lookup_def val_start_def record_created_def tx_created_def
      validate_no_data_input_intersection_def validate_erg_conservation_def validate_token_conservation_def
      collect_tokens_def verify_and_cost_def verify_tx_def fv_max_block_cost_def MIN_BOX_VALUE_def
      calculate_base_cost_def check_storage_rent_conditions_def sat_sub_u32_def STORAGE_PERIOD_def
      chain_parameters_default_def sat_add_u64_def INPUT_BASE_COST_def OUTPUT_BASE_COST_def DATA_INPUT_COST_def
      SIZE_COST_PER_BYTE_def MAX_TX_COST_def)

theorem validated_block_sound_witness: "distinct (get_input_box_ids two_payments)"
proof -
  obtain change where "validate_transactions coin_env validator_without_checkpoint two_payments 1 genesis_parent_header []
     (map_of [([7], ([7], 5000, []))]) = Inr (2200, change)"
    using two_payments_valid by blast
  from validated_block_sound [OF this] show ?thesis
    by (simp add: is_below_checkpoint_def validator_without_checkpoint_def)
qed

subsection \<open>The scripts of the first transaction\<close>

lemma collect_tokens_run [simp]: "collect_tokens (env\<lparr>run_script := r\<rparr>) = collect_tokens env"
  by (simp add: collect_tokens_def fun_eq_iff)

lemma storage_rent_run [simp]: "check_storage_rent_conditions (env\<lparr>run_script := r\<rparr>) = check_storage_rent_conditions env"
  by (simp add: check_storage_rent_conditions_def registers_preserved_def fun_eq_iff Let_def split: option.split)

lemma verify_inputs_run:
  assumes "r tx = run_script env tx"
  shows "verify_inputs (env\<lparr>run_script := r\<rparr>) v tx ins di c n xs sc = verify_inputs env v tx ins di c n xs sc"
  by (induction xs arbitrary: n sc) (auto simp: assms Let_def split: sum.split)

lemma verify_and_cost_run:
  assumes "cb \<or> r tx = run_script env tx"
  shows "verify_and_cost (env\<lparr>run_script := r\<rparr>) fv v cb tx = verify_and_cost env fv v cb tx"
  using assms by (auto simp: verify_and_cost_def verify_tx_def verify_inputs_run Let_def fun_eq_iff)

lemma check_output_values_run [simp]: "check_output_values (env\<lparr>run_script := r\<rparr>) n bs = check_output_values env n bs"
  by (induction bs arbitrary: n) simp_all

lemma conservation_run [simp]:
  "validate_erg_conservation (env\<lparr>run_script := r\<rparr>) tx ins = validate_erg_conservation env tx ins"
  "validate_token_conservation (env\<lparr>run_script := r\<rparr>) tx ins cb = validate_token_conservation env tx ins cb"
  by (simp_all add: validate_erg_conservation_def validate_token_conservation_def Let_def split: option.split)

lemma validate_one_run:
  assumes "cb \<or> r tx = run_script env tx"
  shows "validate_one (env\<lparr>run_script := r\<rparr>) fv cp v utxo cb tx = validate_one env fv cp v utxo cb tx"
proof -
  have "record_created (env\<lparr>run_script := r\<rparr>) = record_created env"
    by (simp add: record_created_def fun_eq_iff)
  moreover have "check_transaction (env\<lparr>run_script := r\<rparr>) fv v utxo cb tx = check_transaction env fv v utxo cb tx"
    by (simp add: fun_eq_iff check_transaction_def verify_and_cost_run [of cb r tx, OF assms])
  ultimately show ?thesis by (intro ext) (simp add: validate_one_def Let_def)
qed

lemma validate_loop_run:
  assumes "\<forall>tx \<in> set (if n = 0 then tl txs else txs). r tx = run_script env tx"
  shows "validate_loop (env\<lparr>run_script := r\<rparr>) fv cp v utxo n txs st = validate_loop env fv cp v utxo n txs st"
  using assms
proof (induction txs arbitrary: n st)
  case (Cons tx txs)
  then have "validate_one (env\<lparr>run_script := r\<rparr>) fv cp v utxo (n = 0) tx = validate_one env fv cp v utxo (n = 0) tx"
    by (intro validate_one_run) (auto split: if_splits)
  moreover have "validate_loop (env\<lparr>run_script := r\<rparr>) fv cp v utxo (n + 1) txs = validate_loop env fv cp v utxo (n + 1) txs"
    using Cons by (intro ext) (auto split: if_splits)
  ultimately show ?case by simp
qed simp

text \<open>The spending conditions of the first transaction of a block play no role in its validation: an
  interpreter that answers differently for it, and the same for the other transactions, gives the
  same result, with the same cost. The boxes it spends are not restricted, so its author can take
  any box without a proof.\<close>

theorem first_transaction_scripts_ignored:
  assumes "bt_txs b = first # rest" "\<forall>tx \<in> set rest. r tx = run_script env tx"
  shows "validate_transactions (env\<lparr>run_script := r\<rparr>) fv b height pre hs utxo
       = validate_transactions env fv b height pre hs utxo"
  using assms by (simp add: validate_transactions_def Let_def validate_loop_run del: validate_loop.simps)

definition refusing :: "coin transaction \<Rightarrow> nat \<Rightarrow> coin list \<Rightarrow> coin list \<Rightarrow> u32 \<Rightarrow> header \<Rightarrow> header list \<Rightarrow> string + verify_result" where
  "refusing tx idx ins di h pre hs =
     (if tx = hd (bt_txs two_payments) then Inl ''not authorised''
      else Inr \<lparr>vr_result = True, vr_cost = 100, vr_expr = None\<rparr>)"

theorem first_transaction_scripts_ignored_witness:
  "\<exists>change. validate_transactions (coin_env\<lparr>run_script := refusing\<rparr>) validator_without_checkpoint two_payments 1
     genesis_parent_header [] (map_of [([7], ([7], 5000, []))]) = Inr (2200, change)"
proof -
  have "\<forall>tx \<in> set (tl (bt_txs two_payments)). refusing tx = run_script coin_env tx"
    by (simp add: two_payments_def bt_new_def coin_tx_def coin_env_def refusing_def fun_eq_iff)
  moreover have "bt_txs two_payments = hd (bt_txs two_payments) # tl (bt_txs two_payments)"
    by (simp add: two_payments_def bt_new_def)
  ultimately show ?thesis
    using first_transaction_scripts_ignored two_payments_valid by metis
qed

end
