(* ===== verification/Sync.thy ===== *)
theory Sync
  imports Download F64
begin

text \<open>
  The synchroniser of \<open>crates/ergo-sync/src/sync.rs\<close>: its state, the heights of the peers, the block
  queue and the bookkeeping of a snapshot download. Instants and durations are numbers of
  nanoseconds; the order of a hash map and the choice of a random peer are arguments. Hash
  maps are association lists, hash sets are lists without repetition.

  The life of the synchroniser is a step relation over all its operations. In every state it
  leads to, the node is synchronised only with peers that are not ahead of it, and the peers
  counted for a snapshot manifest are pairwise different.
\<close>

declare map_of_eq_Some_iff [simp del] Some_eq_map_of_iff [simp del]

subsection \<open>State\<close>

definition MIN_SNAPSHOT_PEERS :: nat where
  "MIN_SNAPSHOT_PEERS = 2"

definition CHUNKS_IN_PARALLEL_MIN :: nat where
  "CHUNKS_IN_PARALLEL_MIN = 16"

definition HEADERS_BATCH_SIZE :: nat where
  "HEADERS_BATCH_SIZE = 100"

text \<open>The arguments in the order of the fields of the variants.\<close>

datatype sync_state =
    SIdle
  | AwaitingSnapshotsInfo nat u64
  | AwaitingManifest bytes u32 peer_id
  | DownloadingChunks bytes u32 nat nat
  | ApplyingSnapshot u32
  | SyncingHeaders u32 u32
  | SyncingBlocks nat
  | Synchronized

record sync_config =
  headers_batch :: nat
  parallel_downloads :: nat
  sync_timeout_secs :: u64
  utxo_bootstrap :: bool
  min_snapshot_peers :: nat

definition sync_config_default :: sync_config where
  "sync_config_default =
     \<lparr>headers_batch = HEADERS_BATCH_SIZE, parallel_downloads = 16, sync_timeout_secs = 60,
      utxo_bootstrap = False, min_snapshot_peers = MIN_SNAPSHOT_PEERS\<rparr>"

type_synonym available_manifests = "(bytes \<times> (u32 \<times> peer_id list)) list"

record synchronizer =
  sy_config :: sync_config
  sy_state :: sync_state
  sy_peer_heights :: "(peer_id \<times> u32) list"
  sy_header_queue :: "bytes list"
  sy_block_queue :: "bytes list"
  sy_pending :: "(bytes \<times> peer_id) list"
  sy_our_height :: u32
  sy_utxo_snapshot_applied :: bool
  sy_available_manifests :: available_manifests
  sy_snapshot_peers :: "peer_id list"
  sy_downloading_chunks :: "(bytes \<times> (peer_id \<times> nat)) list"
  sy_downloaded_chunks :: "bytes list"
  sy_manifest_request_time :: "nat option"

definition synchronizer_new :: "sync_config \<Rightarrow> synchronizer" where
  "synchronizer_new config =
     \<lparr>sy_config = config, sy_state = SIdle, sy_peer_heights = [], sy_header_queue = [], sy_block_queue = [],
      sy_pending = [], sy_our_height = 0, sy_utxo_snapshot_applied = False, sy_available_manifests = [],
      sy_snapshot_peers = [], sy_downloading_chunks = [], sy_downloaded_chunks = [],
      sy_manifest_request_time = None\<rparr>"

subsection \<open>Heights\<close>

definition sy_is_synced :: "synchronizer \<Rightarrow> bool" where
  "sy_is_synced s = (sy_state s = Synchronized)"

definition best_peer_height :: "synchronizer \<Rightarrow> u32 option" where
  "best_peer_height s = (if sy_peer_heights s = [] then None else Some (Max (set (map snd (sy_peer_heights s)))))"

definition best_or_zero :: "synchronizer \<Rightarrow> u32" where
  "best_or_zero s = (case best_peer_height s of Some h \<Rightarrow> h | None \<Rightarrow> 0)"

fun restarts_sync :: "sync_state \<Rightarrow> bool" where
  "restarts_sync SIdle = True"
| "restarts_sync Synchronized = True"
| "restarts_sync (ApplyingSnapshot _) = True"
| "restarts_sync _ = False"

definition check_sync_status :: "synchronizer \<Rightarrow> synchronizer" where
  "check_sync_status s =
     (let our = sy_our_height s; best = best_or_zero s in
      if best \<le> our then s\<lparr>sy_state := Synchronized\<rparr>
      else if restarts_sync (sy_state s) then s\<lparr>sy_state := SyncingHeaders our best\<rparr>
      else s)"

definition sy_set_height :: "u32 \<Rightarrow> synchronizer \<Rightarrow> synchronizer" where
  "sy_set_height height s = check_sync_status (s\<lparr>sy_our_height := height\<rparr>)"

definition set_peer_height :: "peer_id \<Rightarrow> u32 \<Rightarrow> synchronizer \<Rightarrow> synchronizer" where
  "set_peer_height peer height s =
     check_sync_status (s\<lparr>sy_peer_heights := AList.update peer height (sy_peer_heights s)\<rparr>)"

definition sy_remove_peer :: "peer_id \<Rightarrow> synchronizer \<Rightarrow> synchronizer" where
  "sy_remove_peer peer s = s\<lparr>sy_peer_heights := AList.delete peer (sy_peer_heights s)\<rparr>"

definition start_header_sync :: "u32 \<Rightarrow> u32 \<Rightarrow> synchronizer \<Rightarrow> synchronizer" where
  "start_header_sync from_height to_height s = s\<lparr>sy_state := SyncingHeaders from_height to_height\<rparr>"

definition sy_progress :: "synchronizer \<Rightarrow> f64" where
  "sy_progress s =
     (let our = f64_of_nat (unat (sy_our_height s)); best = f64_of_nat (unat (best_or_zero s)) in
      if best = Fin 0 then Fin 1
      else let r = f64_div our best in if f64_lt r (Fin 1) then r else Fin 1)"

subsection \<open>Queues\<close>

definition queue_headers :: "bytes list \<Rightarrow> synchronizer \<Rightarrow> synchronizer" where
  "queue_headers header_ids s = s\<lparr>sy_header_queue := sy_header_queue s @ header_ids\<rparr>"

definition queue_blocks :: "bytes list \<Rightarrow> synchronizer \<Rightarrow> synchronizer" where
  "queue_blocks block_ids s =
     (let queue = sy_block_queue s @ block_ids in
      s\<lparr>sy_block_queue := queue, sy_state := SyncingBlocks (length queue)\<rparr>)"

definition get_download_batch :: "nat \<Rightarrow> synchronizer \<Rightarrow> bytes list \<times> synchronizer" where
  "get_download_batch count s =
     (take count (sy_block_queue s), s\<lparr>sy_block_queue := drop count (sy_block_queue s)\<rparr>)"

definition block_received :: "bytes \<Rightarrow> synchronizer \<Rightarrow> synchronizer" where
  "block_received block_id s =
     (let s1 = s\<lparr>sy_pending := AList.delete block_id (sy_pending s)\<rparr>;
          pending = length (sy_pending s1); queue = length (sy_block_queue s1)
      in if pending = 0 \<and> queue = 0 then check_sync_status s1
         else s1\<lparr>sy_state := SyncingBlocks (pending + queue)\<rparr>)"

text \<open>\<open>iter\<close> is the order in which the failed requests are collected.\<close>

definition handle_failure :: "(bytes list \<Rightarrow> bytes list) \<Rightarrow> peer_id \<Rightarrow> synchronizer \<Rightarrow> synchronizer" where
  "handle_failure iter peer s =
     (let failed = iter (map fst (filter (\<lambda>(i, p). p = peer) (sy_pending s))) in
      s\<lparr>sy_pending := fold AList.delete failed (sy_pending s),
        sy_block_queue := sy_block_queue s @ failed\<rparr>)"

subsection \<open>Snapshot synchronisation\<close>

definition is_utxo_bootstrap_enabled :: "synchronizer \<Rightarrow> bool" where
  "is_utxo_bootstrap_enabled s = utxo_bootstrap (sy_config s)"

definition set_utxo_snapshot_applied :: "synchronizer \<Rightarrow> synchronizer" where
  "set_utxo_snapshot_applied s = s\<lparr>sy_utxo_snapshot_applied := True\<rparr>"

definition should_use_snapshot_sync :: "synchronizer \<Rightarrow> bool" where
  "should_use_snapshot_sync s =
     (utxo_bootstrap (sy_config s) \<and> \<not> sy_utxo_snapshot_applied s \<and> sy_our_height s = 0)"

definition register_snapshot_peer :: "peer_id \<Rightarrow> synchronizer \<Rightarrow> synchronizer" where
  "register_snapshot_peer peer s = s\<lparr>sy_snapshot_peers := List.insert peer (sy_snapshot_peers s)\<rparr>"

definition unregister_snapshot_peer :: "peer_id \<Rightarrow> synchronizer \<Rightarrow> synchronizer" where
  "unregister_snapshot_peer peer s =
     s\<lparr>sy_snapshot_peers := removeAll peer (sy_snapshot_peers s),
       sy_available_manifests :=
         filter (\<lambda>e. snd (snd e) \<noteq> [])
           (map (\<lambda>(i, h, peers). (i, h, filter (\<lambda>p. p \<noteq> peer) peers)) (sy_available_manifests s))\<rparr>"

definition start_snapshot_info_request :: "u64 \<Rightarrow> nat \<Rightarrow> synchronizer \<Rightarrow> synchronizer" where
  "start_snapshot_info_request now_ms peer_count s = s\<lparr>sy_state := AwaitingSnapshotsInfo peer_count now_ms\<rparr>"

definition add_manifest :: "peer_id \<Rightarrow> u32 \<times> bytes \<Rightarrow> available_manifests \<Rightarrow> available_manifests" where
  "add_manifest peer entry available =
     (case entry of (height, manifest_id) \<Rightarrow>
        case map_of available manifest_id of
          Some (h, peers) \<Rightarrow>
            AList.update manifest_id (h, if peer \<in> set peers then peers else peers @ [peer]) available
        | None \<Rightarrow> AList.update manifest_id (height, [peer]) available)"

text \<open>\<open>max_by_key\<close> returns the last of the greatest elements.\<close>

fun last_max_by :: "('a \<Rightarrow> 'k::linorder) \<Rightarrow> 'a list \<Rightarrow> 'a option" where
  "last_max_by f [] = None"
| "last_max_by f (x # xs) =
     (case last_max_by f xs of
        None \<Rightarrow> Some x
      | Some y \<Rightarrow> if f y < f x then Some x else Some y)"

definition check_manifest_availability ::
  "(available_manifests \<Rightarrow> available_manifests) \<Rightarrow> synchronizer \<Rightarrow> (bytes \<times> u32) option" where
  "check_manifest_availability iter s =
     (let valid = filter (\<lambda>e. min_snapshot_peers (sy_config s) \<le> length (snd (snd e))) (iter (sy_available_manifests s))
      in map_option (\<lambda>e. (fst e, fst (snd e))) (last_max_by (\<lambda>e. fst (snd e)) valid))"

definition process_snapshots_info ::
  "(available_manifests \<Rightarrow> available_manifests) \<Rightarrow> peer_id \<Rightarrow> (u32 \<times> bytes) list \<Rightarrow> synchronizer \<Rightarrow>
    (bytes \<times> u32) option \<times> synchronizer" where
  "process_snapshots_info iter peer manifests s =
     (if manifests = [] then (None, s)
      else let s1 = s\<lparr>sy_available_manifests := fold (add_manifest peer) manifests (sy_available_manifests s)\<rparr>
           in (check_manifest_availability iter s1, s1))"

definition start_manifest_request :: "nat \<Rightarrow> bytes \<Rightarrow> u32 \<Rightarrow> peer_id \<Rightarrow> synchronizer \<Rightarrow> synchronizer" where
  "start_manifest_request now manifest_id height peer s =
     s\<lparr>sy_state := AwaitingManifest manifest_id height peer, sy_manifest_request_time := Some now\<rparr>"

definition check_manifest_timeout :: "nat \<Rightarrow> nat \<Rightarrow> synchronizer \<Rightarrow> peer_id option" where
  "check_manifest_timeout now timeout s =
     (case sy_state s of
        AwaitingManifest manifest_id height peer \<Rightarrow>
          (case sy_manifest_request_time s of
             Some start \<Rightarrow> if timeout < now - start then Some peer else None
           | None \<Rightarrow> None)
      | _ \<Rightarrow> None)"

definition clear_manifest_request :: "synchronizer \<Rightarrow> synchronizer" where
  "clear_manifest_request s = s\<lparr>sy_manifest_request_time := None\<rparr>"

text \<open>\<open>choose\<close> is the random choice: no element of an empty slice.\<close>

definition choose_peer :: "(peer_id list \<Rightarrow> nat) \<Rightarrow> peer_id list \<Rightarrow> peer_id option" where
  "choose_peer rng peers = (if peers = [] then None else Some (peers ! (rng peers mod length peers)))"

definition get_manifest_peer :: "(peer_id list \<Rightarrow> nat) \<Rightarrow> bytes \<Rightarrow> synchronizer \<Rightarrow> peer_id option" where
  "get_manifest_peer rng manifest_id s =
     (case map_of (sy_available_manifests s) manifest_id of Some (h, peers) \<Rightarrow> choose_peer rng peers | None \<Rightarrow> None)"

definition start_chunk_download :: "bytes \<Rightarrow> u32 \<Rightarrow> nat \<Rightarrow> synchronizer \<Rightarrow> synchronizer" where
  "start_chunk_download manifest_id height total_chunks s =
     s\<lparr>sy_state := DownloadingChunks manifest_id height total_chunks 0,
       sy_downloaded_chunks := [], sy_downloading_chunks := []\<rparr>"

definition get_chunks_to_request :: "bytes list \<Rightarrow> nat \<Rightarrow> synchronizer \<Rightarrow> bytes list" where
  "get_chunks_to_request expected_chunks count s =
     take count (filter (\<lambda>i. i \<notin> set (sy_downloaded_chunks s) \<and> map_of (sy_downloading_chunks s) i = None) expected_chunks)"

definition mark_chunk_downloading :: "nat \<Rightarrow> bytes \<Rightarrow> peer_id \<Rightarrow> synchronizer \<Rightarrow> synchronizer" where
  "mark_chunk_downloading now chunk_id peer s =
     s\<lparr>sy_downloading_chunks := AList.update chunk_id (peer, now) (sy_downloading_chunks s)\<rparr>"

definition sy_mark_chunk_downloaded :: "bytes \<Rightarrow> synchronizer \<Rightarrow> bool \<times> synchronizer" where
  "sy_mark_chunk_downloaded chunk_id s =
     (let s1 = s\<lparr>sy_downloading_chunks := AList.delete chunk_id (sy_downloading_chunks s),
                 sy_downloaded_chunks := List.insert chunk_id (sy_downloaded_chunks s)\<rparr>;
          downloaded_count = length (sy_downloaded_chunks s1)
      in case sy_state s1 of
           DownloadingChunks manifest_id height total_chunks _ \<Rightarrow>
             (total_chunks \<le> downloaded_count,
              s1\<lparr>sy_state := DownloadingChunks manifest_id height total_chunks downloaded_count\<rparr>)
         | _ \<Rightarrow> (False, s1))"

definition sy_mark_chunk_failed :: "bytes \<Rightarrow> synchronizer \<Rightarrow> synchronizer" where
  "sy_mark_chunk_failed chunk_id s = s\<lparr>sy_downloading_chunks := AList.delete chunk_id (sy_downloading_chunks s)\<rparr>"

definition get_timed_out_chunks :: "nat \<Rightarrow> nat \<Rightarrow> synchronizer \<Rightarrow> (bytes \<times> peer_id) list" where
  "get_timed_out_chunks now timeout s =
     map (\<lambda>(i, p, start). (i, p)) (filter (\<lambda>(i, p, start). timeout < now - start) (sy_downloading_chunks s))"

definition needs_more_chunk_downloads :: "synchronizer \<Rightarrow> bool" where
  "needs_more_chunk_downloads s = (length (sy_downloading_chunks s) < CHUNKS_IN_PARALLEL_MIN)"

definition get_random_chunk_peer :: "(peer_id list \<Rightarrow> nat) \<Rightarrow> synchronizer \<Rightarrow> peer_id option" where
  "get_random_chunk_peer rng s = choose_peer rng (sy_snapshot_peers s)"

definition start_snapshot_application :: "u32 \<Rightarrow> synchronizer \<Rightarrow> synchronizer" where
  "start_snapshot_application height s = s\<lparr>sy_state := ApplyingSnapshot height\<rparr>"

definition clear_snapshot_state :: "synchronizer \<Rightarrow> synchronizer" where
  "clear_snapshot_state s =
     s\<lparr>sy_available_manifests := [], sy_downloading_chunks := [], sy_downloaded_chunks := []\<rparr>"

definition complete_snapshot_application :: "u32 \<Rightarrow> synchronizer \<Rightarrow> synchronizer" where
  "complete_snapshot_application height s =
     check_sync_status (clear_snapshot_state ((set_utxo_snapshot_applied s)\<lparr>sy_our_height := height\<rparr>))"

definition snapshot_progress :: "synchronizer \<Rightarrow> f64 option" where
  "snapshot_progress s =
     (case sy_state s of
        DownloadingChunks manifest_id height total_chunks downloaded_chunks \<Rightarrow>
          Some (if total_chunks = 0 then Fin 1 else f64_div (f64_of_nat downloaded_chunks) (f64_of_nat total_chunks))
      | ApplyingSnapshot height \<Rightarrow> Some (Fin 1)
      | _ \<Rightarrow> None)"

subsection \<open>The state machine\<close>

inductive sync_step :: "synchronizer \<Rightarrow> synchronizer \<Rightarrow> bool" where
  height: "sync_step s (sy_set_height h s)"
| peer_height: "sync_step s (set_peer_height p h s)"
| remove_peer: "sync_step s (sy_remove_peer p s)"
| header_sync: "sync_step s (start_header_sync a b s)"
| headers: "sync_step s (queue_headers ids s)"
| blocks: "sync_step s (queue_blocks ids s)"
| batch: "sync_step s (snd (get_download_batch n s))"
| received: "sync_step s (block_received i s)"
| failure: "sync_step s (handle_failure iter p s)"
| applied: "sync_step s (set_utxo_snapshot_applied s)"
| register: "sync_step s (register_snapshot_peer p s)"
| unregister: "sync_step s (unregister_snapshot_peer p s)"
| info_request: "sync_step s (start_snapshot_info_request t n s)"
| info: "sync_step s (snd (process_snapshots_info iter p ms s))"
| manifest_request: "sync_step s (start_manifest_request now i h p s)"
| manifest_clear: "sync_step s (clear_manifest_request s)"
| chunks: "sync_step s (start_chunk_download i h n s)"
| chunk_request: "sync_step s (mark_chunk_downloading now i p s)"
| chunk: "sync_step s (snd (sy_mark_chunk_downloaded i s))"
| chunk_failed: "sync_step s (sy_mark_chunk_failed i s)"
| application: "sync_step s (start_snapshot_application h s)"
| clear: "sync_step s (clear_snapshot_state s)"
| complete: "sync_step s (complete_snapshot_application h s)"

inductive sync_reachable :: "sync_config \<Rightarrow> synchronizer \<Rightarrow> bool" for config where
  new: "sync_reachable config (synchronizer_new config)"
| step: "sync_reachable config s \<Longrightarrow> sync_step s s' \<Longrightarrow> sync_reachable config s'"

subsection \<open>The invariant\<close>

definition manifests_ok :: "available_manifests \<Rightarrow> bool" where
  "manifests_ok available \<longleftrightarrow> distinct (map fst available) \<and> (\<forall>(i, h, peers) \<in> set available. distinct peers)"

definition best_of :: "(peer_id \<times> u32) list \<Rightarrow> u32" where
  "best_of heights = (if heights = [] then 0 else Max (set (map snd heights)))"

definition sync_inv :: "synchronizer \<Rightarrow> bool" where
  "sync_inv s \<longleftrightarrow> (sy_state s = Synchronized \<longrightarrow> best_of (sy_peer_heights s) \<le> sy_our_height s)
     \<and> distinct (map fst (sy_peer_heights s)) \<and> manifests_ok (sy_available_manifests s)"

named_theorems sync_defs \<open>the operations of the synchroniser\<close>

lemmas [sync_defs] = sy_set_height_def set_peer_height_def sy_remove_peer_def start_header_sync_def queue_headers_def
  queue_blocks_def get_download_batch_def block_received_def handle_failure_def set_utxo_snapshot_applied_def
  register_snapshot_peer_def start_snapshot_info_request_def start_manifest_request_def clear_manifest_request_def
  start_chunk_download_def mark_chunk_downloading_def sy_mark_chunk_failed_def start_snapshot_application_def
  clear_snapshot_state_def complete_snapshot_application_def Let_def

lemma best_or_zero_eq: "best_or_zero s = best_of (sy_peer_heights s)"
  by (simp add: best_or_zero_def best_peer_height_def best_of_def)

lemma best_of_bound: "(p, h) \<in> set heights \<Longrightarrow> h \<le> best_of heights"
proof -
  assume "(p, h) \<in> set heights"
  then have "h \<in> set (map snd heights)" by force
  then show ?thesis by (auto simp: best_of_def)
qed

lemma best_of_mono:
  assumes "set heights' \<subseteq> set heights"
  shows "best_of heights' \<le> best_of heights"
proof (cases "heights' = []")
  case False
  then have "Max (set (map snd heights')) \<le> Max (set (map snd heights))"
    using assms by (intro Max_mono) auto
  moreover have "heights \<noteq> []" using False assms by auto
  ultimately show ?thesis using False by (simp add: best_of_def del: set_map)
qed (simp add: best_of_def)

lemma check_sync_status_sel [simp]:
  "sy_peer_heights (check_sync_status s) = sy_peer_heights s" "sy_our_height (check_sync_status s) = sy_our_height s"
  "sy_available_manifests (check_sync_status s) = sy_available_manifests s"
  by (simp_all add: check_sync_status_def Let_def)

lemma check_sync_status_synced: "sy_state (check_sync_status s) = Synchronized \<Longrightarrow> best_of (sy_peer_heights s) \<le> sy_our_height s"
  by (cases "sy_state s") (auto simp: check_sync_status_def Let_def best_or_zero_eq split: if_splits)

lemma sync_inv_check:
  "distinct (map fst (sy_peer_heights s)) \<Longrightarrow> manifests_ok (sy_available_manifests s) \<Longrightarrow> sync_inv (check_sync_status s)"
  by (simp add: sync_inv_def check_sync_status_synced)

lemma manifests_ok_Nil [simp]: "manifests_ok []"
  by (simp add: manifests_ok_def)

lemma manifests_ok_map_of:
  assumes "manifests_ok available" "map_of available i = Some (h, peers)"
  shows "distinct peers"
  using assms(1) map_of_SomeD [OF assms(2)] by (auto simp: manifests_ok_def)

lemma manifests_ok_update:
  assumes "manifests_ok available" "distinct peers"
  shows "manifests_ok (AList.update i (h, peers) available)"
proof -
  have sub: "set (AList.update i (h, peers) available) \<subseteq> insert (i, h, peers) (set available)"
    by (induction available) auto
  have "distinct (map fst (AList.update i (h, peers) available))"
    using assms(1) by (intro distinct_update) (simp add: manifests_ok_def)
  moreover have "distinct peers'" if "(i', h', peers') \<in> set (AList.update i (h, peers) available)" for i' h' peers'
    using subsetD [OF sub that] assms by (auto simp: manifests_ok_def)
  ultimately show ?thesis by (auto simp: manifests_ok_def)
qed

lemma manifests_ok_add:
  assumes "manifests_ok available"
  shows "manifests_ok (add_manifest peer entry available)"
proof -
  obtain height i where e: "entry = (height, i)" by (cases entry)
  show ?thesis
  proof (cases "map_of available i")
    case (Some r)
    obtain h peers where r: "r = (h, peers)" by (cases r)
    have "distinct peers" using manifests_ok_map_of [OF assms] Some r by blast
    then show ?thesis
      using manifests_ok_update [OF assms, of "if peer \<in> set peers then peers else peers @ [peer]" i h] Some
      by (simp add: add_manifest_def e r)
  qed (simp add: add_manifest_def e manifests_ok_update [OF assms])
qed

lemma manifests_ok_fold: "manifests_ok available \<Longrightarrow> manifests_ok (fold (add_manifest peer) ms available)"
  by (induction ms arbitrary: available) (simp_all add: manifests_ok_add)

lemma manifests_ok_unregister:
  assumes "manifests_ok available"
  shows "manifests_ok (filter f (map (\<lambda>(i, h, peers). (i, h, filter g peers)) available))"
proof -
  have "map fst (map (\<lambda>(i, h, peers). (i, h, filter g peers)) available) = map fst available"
    by (induction available) auto
  then have "distinct (map fst (filter f (map (\<lambda>(i, h, peers). (i, h, filter g peers)) available)))"
    using assms by (intro distinct_map_filter) (simp add: manifests_ok_def del: map_map)
  moreover have "distinct (filter g peers')" if "(i', h', peers') \<in> set available" for i' h' peers'
    using assms that by (auto simp: manifests_ok_def)
  ultimately show ?thesis by (auto simp: manifests_ok_def)
qed

lemma sync_inv_same:
  assumes "sync_inv s"
    and "sy_peer_heights s' = sy_peer_heights s \<and> sy_our_height s' = sy_our_height s
      \<and> sy_available_manifests s' = sy_available_manifests s \<and> (sy_state s' = sy_state s \<or> sy_state s' \<noteq> Synchronized)"
  shows "sync_inv s'"
  using assms by (auto simp: sync_inv_def)

lemma sync_inv_step:
  assumes "sync_step s s'" "sync_inv s"
  shows "sync_inv s'"
proof -
  have inv: "sy_state s = Synchronized \<longrightarrow> best_of (sy_peer_heights s) \<le> sy_our_height s" "distinct (map fst (sy_peer_heights s))"
      "manifests_ok (sy_available_manifests s)"
    using assms(2) by (simp_all add: sync_inv_def)
  show ?thesis
    using assms(1)
  proof cases
    case (remove_peer p)
    have "best_of (AList.delete p (sy_peer_heights s)) \<le> best_of (sy_peer_heights s)"
      by (rule best_of_mono) (auto simp: AList.delete_eq)
    then show ?thesis
      using inv order_trans unfolding remove_peer sync_inv_def sy_remove_peer_def by (simp add: distinct_delete) blast
  next
    case (info iter p ms)
    then show ?thesis
      using inv by (simp add: sync_inv_def process_snapshots_info_def Let_def manifests_ok_fold)
  next
    case (unregister p)
    then show ?thesis
      using inv by (simp add: sync_inv_def unregister_snapshot_peer_def manifests_ok_unregister del: filter_map)
  next
    case (chunk i)
    then show ?thesis
      using inv by (simp add: sync_inv_def sy_mark_chunk_downloaded_def Let_def split: sync_state.split)
  next
    case (received i)
    then show ?thesis
      using inv sync_inv_check [of "s\<lparr>sy_pending := AList.delete i (sy_pending s)\<rparr>"]
      by (simp add: block_received_def Let_def) (simp add: sync_inv_def)
  next
    case (height h)
    then show ?thesis using inv by (simp add: sync_defs sync_inv_check)
  next
    case (peer_height p h)
    then show ?thesis using inv by (simp add: sync_defs sync_inv_check distinct_update)
  next
    case (complete h)
    then show ?thesis using inv by (simp add: sync_defs sync_inv_check)
  next
    case clear
    then show ?thesis using inv by (simp add: sync_defs sync_inv_def)
  qed (rule sync_inv_same [OF assms(2)], simp add: sync_defs)+
qed

lemma sync_reachable_inv: "sync_reachable config s \<Longrightarrow> sync_inv s"
proof (induction rule: sync_reachable.induct)
  case new
  show ?case by (simp add: sync_inv_def synchronizer_new_def)
next
  case (step s s')
  then show ?case by (blast intro: sync_inv_step)
qed

subsection \<open>Properties of the synchroniser\<close>

text \<open>Whatever operations were performed, a node that says it is synchronised knows no peer that is
  ahead of it.\<close>

theorem synchronised_with_all_peers:
  assumes "sync_reachable config s" "sy_is_synced s" "map_of (sy_peer_heights s) peer = Some h"
  shows "h \<le> sy_our_height s"
  using sync_reachable_inv [OF assms(1)] assms(2) best_of_bound [OF map_of_SomeD [OF assms(3)]]
  by (auto simp: sync_inv_def sy_is_synced_def)

theorem synchronised_with_all_peers_witness:
  "\<exists>s. sync_reachable sync_config_default s \<and> sy_is_synced s \<and> (7 :: u32) \<le> sy_our_height s"
proof -
  define s where "s = sy_set_height 9 (set_peer_height [1] 7 (synchronizer_new sync_config_default))"
  have r: "sync_reachable sync_config_default s"
    unfolding s_def by (rule sync_reachable.step [OF sync_reachable.step [OF sync_reachable.new sync_step.peer_height] sync_step.height])
  have "sy_is_synced s" "map_of (sy_peer_heights s) [1] = Some 7"
    by (simp_all add: s_def sync_defs synchronizer_new_def check_sync_status_def sy_is_synced_def best_or_zero_def best_peer_height_def)
  with synchronised_with_all_peers [OF r] r show ?thesis by blast
qed

lemma last_max_by_Some:
  "last_max_by f xs = Some x \<Longrightarrow> x \<in> set xs \<and> (\<forall>y \<in> set xs. f y \<le> f x)"
proof (induction xs arbitrary: x)
  case (Cons a xs)
  show ?case
  proof (cases "last_max_by f xs")
    case None
    then have "xs = []" by (cases xs) (auto split: option.splits if_splits)
    with Cons.prems show ?thesis by simp
  next
    case (Some y)
    with Cons.IH [OF Some] Cons.prems show ?thesis by (auto split: if_splits)
  qed
qed simp

text \<open>C16: a manifest is offered for download only when at least as many different peers announced it as the
  configuration asks for, and no manifest with as many peers is higher.\<close>

theorem manifest_backed_by_peers:
  assumes "sync_reachable config s" "process_snapshots_info iter peer ms s = (Some (i, h), s')"
    and "\<forall>xs. set (iter xs) = set xs"
  shows "\<exists>peers. map_of (sy_available_manifests s') i = Some (h, peers) \<and> distinct peers
       \<and> min_snapshot_peers (sy_config s') \<le> length peers
       \<and> (\<forall>i' h' peers'. map_of (sy_available_manifests s') i' = Some (h', peers')
            \<and> min_snapshot_peers (sy_config s') \<le> length peers' \<longrightarrow> h' \<le> h)"
proof -
  let ?valid = "filter (\<lambda>e. min_snapshot_peers (sy_config s') \<le> length (snd (snd e))) (iter (sy_available_manifests s'))"
  have "check_manifest_availability iter s' = Some (i, h)" and s': "s' = snd (process_snapshots_info iter peer ms s)"
    using assms(2) by (auto simp: process_snapshots_info_def Let_def split: if_splits)
  then obtain peers where "last_max_by (\<lambda>e. fst (snd e)) ?valid = Some (i, h, peers)"
    by (auto simp: check_manifest_availability_def Let_def)
  from last_max_by_Some [OF this]
  have found: "(i, h, peers) \<in> set (sy_available_manifests s')" "min_snapshot_peers (sy_config s') \<le> length peers"
      and best: "\<forall>y \<in> set ?valid. fst (snd y) \<le> h"
    using assms(3) by auto
  have "sync_reachable config s'"
    using sync_reachable.step [OF assms(1) sync_step.info] by (simp add: s')
  then have ok: "manifests_ok (sy_available_manifests s')"
    using sync_reachable_inv by (auto simp: sync_inv_def)
  then have "map_of (sy_available_manifests s') i = Some (h, peers)" "distinct peers"
    using found(1) by (auto simp: manifests_ok_def)
  moreover have "h' \<le> h" if "map_of (sy_available_manifests s') i' = Some (h', peers')"
      "min_snapshot_peers (sy_config s') \<le> length peers'" for i' h' peers'
    using best assms(3) map_of_SomeD [OF that(1)] that(2) by fastforce
  ultimately show ?thesis using found(2) by blast
qed

definition two_announced :: synchronizer where
  "two_announced = snd (process_snapshots_info id [1] [(500, [9]), (300, [8])] (synchronizer_new sync_config_default))"

theorem manifest_backed_by_peers_witness:
  "\<exists>s'. process_snapshots_info id [2] [(300, [8])] two_announced = (Some ([8], 300), s')
     \<and> (\<exists>peers. map_of (sy_available_manifests s') [8] = Some (300, peers) \<and> distinct peers \<and> 2 \<le> length peers)"
proof -
  have r: "sync_reachable sync_config_default two_announced"
    unfolding two_announced_def by (rule sync_reachable.step [OF sync_reachable.new sync_step.info])
  have eval: "process_snapshots_info id [2] [(300, [8])] two_announced =
      (Some ([8], 300), snd (process_snapshots_info id [2] [(300, [8])] two_announced))"
    by (simp add: two_announced_def process_snapshots_info_def synchronizer_new_def sync_config_default_def add_manifest_def
        check_manifest_availability_def MIN_SNAPSHOT_PEERS_def)
  have "min_snapshot_peers (sy_config (snd (process_snapshots_info id [2] [(300, [8])] two_announced))) = 2"
    by (simp add: two_announced_def process_snapshots_info_def synchronizer_new_def sync_config_default_def Let_def MIN_SNAPSHOT_PEERS_def)
  with manifest_backed_by_peers [OF r eval] eval show ?thesis by auto
qed

end
