(* ===== verification/History.thy ===== *)
theory History
  imports Blocks
begin

text \<open>
  The block history of \<open>crates/ergo-state/src/history.rs\<close>: the store of headers with its index by
  height, the store of block sections, chain selection by cumulative difficulty, pruning and the
  locator sent to peers. A state is the database together with the fields held in memory. The
  serialisation of headers and transactions belongs to \<open>ergo_chain_types\<close> and \<open>ergo_lib\<close> and is
  a parameter.
\<close>

declare map_of_eq_Some_iff [simp del] Some_eq_map_of_iff [simp del]

subsection \<open>The store of headers\<close>

record 'b hist_env = "'b tx_env" +
  header_serialize :: "header \<Rightarrow> bytes option"
  header_parse :: "bytes \<Rightarrow> header option"

definition GENESIS_HEIGHT :: u32 where
  "GENESIS_HEIGHT = 1"

datatype chain_selection = Extended | Reorg u32 u32 | Ignored

definition put_with_bytes_batched :: "header \<Rightarrow> bytes \<Rightarrow> write_batch \<Rightarrow> write_batch" where
  "put_with_bytes_batched h raw_bytes batch =
     batch_put CF_HeaderChain (be_u32 (hd_height h)) (hd_id h) (batch_put CF_Headers (hd_id h) raw_bytes batch)"

definition put_with_bytes :: "header \<Rightarrow> bytes \<Rightarrow> database \<Rightarrow> database" where
  "put_with_bytes h raw_bytes db = db_write_batch (put_with_bytes_batched h raw_bytes batch_new) db"

definition put_batched :: "('b, 'x) hist_env_scheme \<Rightarrow> header \<Rightarrow> write_batch \<Rightarrow> state_error + write_batch" where
  "put_batched env h batch =
     (case header_serialize env h of
        None \<Rightarrow> Inl (SE_Serialization ''scorex_serialize_bytes'')
      | Some bs \<Rightarrow> Inr (put_with_bytes_batched h bs batch))"

definition header_put :: "('b, 'x) hist_env_scheme \<Rightarrow> header \<Rightarrow> database \<Rightarrow> state_error + database" where
  "header_put env h db = rbind (put_batched env h batch_new) (\<lambda>batch. Inr (db_write_batch batch db))"

definition header_get :: "('b, 'x) hist_env_scheme \<Rightarrow> database \<Rightarrow> bytes \<Rightarrow> state_error + header option" where
  "header_get env db i =
     (case db_get db CF_Headers i of
        None \<Rightarrow> Inr None
      | Some bs \<Rightarrow>
          (case header_parse env bs of
             None \<Rightarrow> Inl (SE_Serialization ''scorex_parse_bytes'')
           | Some h \<Rightarrow> Inr (Some (h\<lparr>hd_id := blake_hash env bs\<rparr>))))"

definition header_get_by_height :: "('b, 'x) hist_env_scheme \<Rightarrow> database \<Rightarrow> u32 \<Rightarrow> state_error + header option" where
  "header_get_by_height env db height =
     (case db_get db CF_HeaderChain (be_u32 height) of
        None \<Rightarrow> Inr None
      | Some i \<Rightarrow>
          if length i \<noteq> 32 then Inl (SE_Serialization ''Invalid block ID length'')
          else header_get env db i)"

definition header_contains :: "database \<Rightarrow> bytes \<Rightarrow> bool" where
  "header_contains db i = db_contains db CF_Headers i"

text \<open>The heights \<open>from..from.saturating_add(count)\<close>.\<close>

definition height_range :: "u32 \<Rightarrow> u32 \<Rightarrow> u32 list" where
  "height_range from_height count =
     map of_nat [unat from_height ..< min (unat from_height + unat count) (2 ^ 32 - 1)]"

fun get_range_loop :: "('b, 'x) hist_env_scheme \<Rightarrow> database \<Rightarrow> u32 list \<Rightarrow> state_error + header list" where
  "get_range_loop env db [] = Inr []"
| "get_range_loop env db (height # hs) =
     rbind (header_get_by_height env db height) (\<lambda>r.
       case r of
         None \<Rightarrow> Inr []
       | Some h \<Rightarrow> rbind (get_range_loop env db hs) (\<lambda>rest. Inr (h # rest)))"

definition get_range :: "('b, 'x) hist_env_scheme \<Rightarrow> database \<Rightarrow> u32 \<Rightarrow> u32 \<Rightarrow> state_error + header list" where
  "get_range env db from_height count = get_range_loop env db (height_range from_height count)"

fun get_ids_range_loop :: "database \<Rightarrow> u32 list \<Rightarrow> state_error + bytes list" where
  "get_ids_range_loop db [] = Inr []"
| "get_ids_range_loop db (height # hs) =
     (case db_get db CF_HeaderChain (be_u32 height) of
        None \<Rightarrow> Inr []
      | Some i \<Rightarrow>
          if length i \<noteq> 32 then Inl (SE_Serialization ''Invalid block ID length'')
          else rbind (get_ids_range_loop db hs) (\<lambda>rest. Inr (i # rest)))"

definition get_ids_range :: "database \<Rightarrow> u32 \<Rightarrow> u32 \<Rightarrow> state_error + bytes list" where
  "get_ids_range db from_height count = get_ids_range_loop db (height_range from_height count)"

subsection \<open>The store of block sections\<close>

fun serialize_txs :: "('b, 'x) hist_env_scheme \<Rightarrow> 'b transaction list \<Rightarrow> state_error + bytes" where
  "serialize_txs env [] = Inr []"
| "serialize_txs env (tx # txs) =
     (case tx_serialize env tx of
        None \<Rightarrow> Inl (SE_Serialization ''sigma_serialize_bytes'')
      | Some bs \<Rightarrow> rbind (serialize_txs env txs) (\<lambda>rest. Inr (with_len32 bs @ rest)))"

definition serialize_transactions :: "('b, 'x) hist_env_scheme \<Rightarrow> 'b block_transactions \<Rightarrow> state_error + bytes" where
  "serialize_transactions env b =
     rbind (serialize_txs env (bt_txs b)) (\<lambda>bs. Inr (be_u32 (of_nat (length (bt_txs b))) @ bs))"

definition put_transactions_batched ::
  "('b, 'x) hist_env_scheme \<Rightarrow> bytes \<Rightarrow> 'b block_transactions \<Rightarrow> write_batch \<Rightarrow> state_error + write_batch" where
  "put_transactions_batched env i b batch =
     rbind (serialize_transactions env b) (\<lambda>bs. Inr (batch_put CF_BlockTransactions i bs batch))"

definition put_transactions ::
  "('b, 'x) hist_env_scheme \<Rightarrow> bytes \<Rightarrow> 'b block_transactions \<Rightarrow> database \<Rightarrow> state_error + database" where
  "put_transactions env i b db =
     rbind (serialize_transactions env b) (\<lambda>bs. Inr (db_put CF_BlockTransactions i bs db))"

primrec read_txs ::
  "('b, 'x) hist_env_scheme \<Rightarrow> nat \<Rightarrow> bytes \<Rightarrow> nat \<Rightarrow> state_error + 'b transaction list" where
  "read_txs env 0 bs offset = Inr []"
| "read_txs env (Suc n) bs offset =
     (if offset + 4 > length bs then Inl (SE_Serialization ''Truncated tx data'')
      else let tx_len = be_u32_at bs offset; start = offset + 4 in
        if start + tx_len > length bs then Inl (SE_Serialization ''Truncated tx bytes'')
        else case tx_parse env (subslice bs start (start + tx_len)) of
               None \<Rightarrow> Inl (SE_Serialization ''sigma_parse_bytes'')
             | Some tx \<Rightarrow> rbind (read_txs env n bs (start + tx_len)) (\<lambda>txs. Inr (tx # txs)))"

definition get_transactions ::
  "('b, 'x) hist_env_scheme \<Rightarrow> database \<Rightarrow> bytes \<Rightarrow> state_error + 'b block_transactions option" where
  "get_transactions env db i =
     (case db_get db CF_BlockTransactions i of
        None \<Rightarrow> Inr None
      | Some bs \<Rightarrow>
          if length bs < 4 then Inl (SE_Serialization ''Transaction data too short'')
          else rbind (read_txs env (be_u32_at bs 0) bs 4) (\<lambda>txs. Inr (Some (bt_new i txs))))"

definition has_transactions :: "database \<Rightarrow> bytes \<Rightarrow> bool" where
  "has_transactions db i = db_contains db CF_BlockTransactions i"

definition serialize_field :: "extension_field \<Rightarrow> bytes" where
  "serialize_field f =
     [fst (ef_key f), snd (ef_key f)] @ be_u16 (of_nat (length (ef_value f))) @ ef_value f"

definition serialize_extension :: "extension \<Rightarrow> bytes" where
  "serialize_extension e =
     be_u32 (of_nat (length (ext_fields e))) @ concat (map serialize_field (ext_fields e))"

definition put_extension_batched :: "extension \<Rightarrow> write_batch \<Rightarrow> write_batch" where
  "put_extension_batched e batch = batch_put CF_Extensions (ext_header_id e) (serialize_extension e) batch"

definition put_extension :: "extension \<Rightarrow> database \<Rightarrow> database" where
  "put_extension e db = db_put CF_Extensions (ext_header_id e) (serialize_extension e) db"

primrec read_fields :: "nat \<Rightarrow> bytes \<Rightarrow> nat \<Rightarrow> state_error + extension_field list" where
  "read_fields 0 bs offset = Inr []"
| "read_fields (Suc n) bs offset =
     (if offset + 2 > length bs then Inl (SE_Serialization ''Extension data truncated at key'')
      else if offset + 4 > length bs then Inl (SE_Serialization ''Extension data truncated at value length'')
      else let value_len = unat (from_be_u16 (bs ! (offset + 2)) (bs ! (offset + 3))); start = offset + 4 in
        if start + value_len > length bs then Inl (SE_Serialization ''Extension data truncated at value'')
        else rbind (read_fields n bs (start + value_len)) (\<lambda>fs.
          Inr (\<lparr>ef_key = (bs ! offset, bs ! (offset + 1)), ef_value = subslice bs start (start + value_len)\<rparr> # fs)))"

definition deserialize_extension :: "bytes \<Rightarrow> bytes \<Rightarrow> state_error + extension" where
  "deserialize_extension i bs =
     (if length bs < 4 then Inl (SE_Serialization ''Extension data too short'')
      else rbind (read_fields (be_u32_at bs 0) bs 4) (\<lambda>fs. Inr \<lparr>ext_header_id = i, ext_fields = fs\<rparr>))"

definition get_extension :: "database \<Rightarrow> bytes \<Rightarrow> state_error + extension option" where
  "get_extension db i =
     (case db_get db CF_Extensions i of
        None \<Rightarrow> Inr None
      | Some bs \<Rightarrow> rbind (deserialize_extension i bs) (\<lambda>e. Inr (Some e)))"

definition put_ad_proofs_batched :: "ad_proofs \<Rightarrow> write_batch \<Rightarrow> write_batch" where
  "put_ad_proofs_batched p batch = batch_put CF_AdProofs (ap_header_id p) (ap_proof_bytes p) batch"

definition put_ad_proofs :: "ad_proofs \<Rightarrow> database \<Rightarrow> database" where
  "put_ad_proofs p db = db_put CF_AdProofs (ap_header_id p) (ap_proof_bytes p) db"

definition get_ad_proofs :: "database \<Rightarrow> bytes \<Rightarrow> ad_proofs option" where
  "get_ad_proofs db i =
     map_option (\<lambda>bs. \<lparr>ap_header_id = i, ap_proof_bytes = bs\<rparr>) (db_get db CF_AdProofs i)"

subsection \<open>The history\<close>

text \<open>\<open>blocks_to_keep\<close> is an \<open>i32\<close>; a negative number keeps everything.\<close>

record history =
  hy_best_header_id :: "bytes option"
  hy_best_height :: u32
  hy_best_cumulative_difficulty :: nat
  hy_best_full_block_id :: "bytes option"
  hy_best_full_block_height :: u32
  hy_blocks_to_keep :: int
  hy_minimal_full_block_height :: u32
  hy_is_headers_chain_synced :: bool

type_synonym hist_state = "database \<times> history"

definition pruning_enabled :: "int \<Rightarrow> bool" where
  "pruning_enabled blocks_to_keep = (0 \<le> blocks_to_keep)"

definition history_new :: "int \<Rightarrow> history" where
  "history_new blocks_to_keep =
     \<lparr>hy_best_header_id = None, hy_best_height = 0, hy_best_cumulative_difficulty = 0,
      hy_best_full_block_id = None, hy_best_full_block_height = 0, hy_blocks_to_keep = blocks_to_keep,
      hy_minimal_full_block_height = GENESIS_HEIGHT, hy_is_headers_chain_synced = False\<rparr>"

definition meta_get :: "database \<Rightarrow> string \<Rightarrow> bytes option" where
  "meta_get db key = db_get db CF_Metadata (bstr key)"

definition meta_id :: "database \<Rightarrow> string \<Rightarrow> bytes option" where
  "meta_id db key = (case meta_get db key of Some i \<Rightarrow> if length i = 32 then Some i else None | None \<Rightarrow> None)"

definition meta_u32 :: "database \<Rightarrow> string \<Rightarrow> u32 \<Rightarrow> u32" where
  "meta_u32 db key absent =
     (case meta_get db key of
        Some bs \<Rightarrow> if 4 \<le> length bs then from_be_u32 (bs ! 0) (bs ! 1) (bs ! 2) (bs ! 3) else absent
      | None \<Rightarrow> absent)"

definition history_init :: "database \<Rightarrow> int \<Rightarrow> history" where
  "history_init db blocks_to_keep =
     \<lparr>hy_best_header_id = meta_id db ''best_header_id'',
      hy_best_height = meta_u32 db ''best_height'' 0,
      hy_best_cumulative_difficulty =
        (case meta_get db ''best_cumulative_difficulty'' of Some bs \<Rightarrow> from_bytes_be bs | None \<Rightarrow> 0),
      hy_best_full_block_id = meta_id db ''best_full_block_id'',
      hy_best_full_block_height = meta_u32 db ''best_full_block_height'' 0,
      hy_blocks_to_keep = blocks_to_keep,
      hy_minimal_full_block_height = meta_u32 db ''minimal_full_block_height'' GENESIS_HEIGHT,
      hy_is_headers_chain_synced =
        (case meta_get db ''is_headers_chain_synced'' of Some bs \<Rightarrow> bs \<noteq> [] \<and> hd bs = 1 | None \<Rightarrow> False)\<rparr>"

definition best_header :: "('b, 'x) hist_env_scheme \<Rightarrow> hist_state \<Rightarrow> state_error + header option" where
  "best_header env s = (case hy_best_header_id (snd s) of Some i \<Rightarrow> header_get env (fst s) i | None \<Rightarrow> Inr None)"

definition chain_gap :: "history \<Rightarrow> u32" where
  "chain_gap hy = sat_sub_u32 (hy_best_height hy) (hy_best_full_block_height hy)"

subsection \<open>Pruning\<close>

definition set_headers_chain_synced :: "bool \<Rightarrow> hist_state \<Rightarrow> hist_state" where
  "set_headers_chain_synced synced s =
     (db_put CF_Metadata (bstr ''is_headers_chain_synced'') (if synced then [1] else [0]) (fst s),
      (snd s)\<lparr>hy_is_headers_chain_synced := synced\<rparr>)"

definition should_download_block_at_height :: "history \<Rightarrow> u32 \<Rightarrow> bool" where
  "should_download_block_at_height hy height =
     (hy_is_headers_chain_synced hy \<and> hy_minimal_full_block_height hy \<le> height)"

definition extension_with_parameters_height :: "u32 \<Rightarrow> u32" where
  "extension_with_parameters_height height =
     (if height < VOTING_EPOCH_LENGTH then GENESIS_HEIGHT else height - height mod VOTING_EPOCH_LENGTH)"

primrec prune_loop ::
  "('b, 'x) hist_env_scheme \<Rightarrow> database \<Rightarrow> u32 list \<Rightarrow> nat \<Rightarrow> write_batch \<Rightarrow> state_error + nat \<times> write_batch" where
  "prune_loop env db [] n batch = Inr (n, batch)"
| "prune_loop env db (h # hs) n batch =
     rbind (header_get_by_height env db h) (\<lambda>r.
       case r of
         None \<Rightarrow> prune_loop env db hs n batch
       | Some hdr \<Rightarrow>
           if has_transactions db (hd_id hdr)
           then prune_loop env db hs (n + 1)
                  (batch_delete CF_AdProofs (hd_id hdr) (batch_delete CF_Extensions (hd_id hdr)
                    (batch_delete CF_BlockTransactions (hd_id hdr) batch)))
           else prune_loop env db hs n batch)"

definition prune_blocks_below :: "('b, 'x) hist_env_scheme \<Rightarrow> u32 \<Rightarrow> database \<Rightarrow> state_error + database" where
  "prune_blocks_below env height db =
     rbind (prune_loop env db (map of_nat [unat GENESIS_HEIGHT ..< unat height]) 0 batch_new) (\<lambda>(n, batch).
       Inr (if 0 < n then db_write_batch batch db else db))"

definition new_minimal_height :: "history \<Rightarrow> u32 \<Rightarrow> u32" where
  "new_minimal_height hy best =
     (if \<not> pruning_enabled (hy_blocks_to_keep hy) then GENESIS_HEIGHT
      else let keep = word_of_int (hy_blocks_to_keep hy);
               h = max (hy_minimal_full_block_height hy) (sat_sub_u32 best (keep - 1))
           in if VOTING_EPOCH_LENGTH < h then min h (extension_with_parameters_height h) else h)"

text \<open>An error of the pruning leaves the height and the flag as they were written before it.\<close>

definition update_best_full_block_pruning ::
  "('b, 'x) hist_env_scheme \<Rightarrow> header \<Rightarrow> hist_state \<Rightarrow> (state_error + u32) \<times> hist_state" where
  "update_best_full_block_pruning env h s =
     (let old_minimal = hy_minimal_full_block_height (snd s);
          new_minimal = new_minimal_height (snd s) (hd_height h);
          s1 = (db_put CF_Metadata (bstr ''minimal_full_block_height'') (be_u32 new_minimal) (fst s),
                (snd s)\<lparr>hy_minimal_full_block_height := new_minimal\<rparr>);
          s2 = (if hy_is_headers_chain_synced (snd s1) then s1 else set_headers_chain_synced True s1)
      in if new_minimal \<noteq> old_minimal \<and> pruning_enabled (hy_blocks_to_keep (snd s)) \<and> old_minimal < new_minimal
         then (case prune_blocks_below env new_minimal (fst s2) of
                 Inl e \<Rightarrow> (Inl e, s2)
               | Inr db \<Rightarrow> (Inr new_minimal, (db, snd s2)))
         else (Inr new_minimal, s2))"

subsection \<open>Chain selection\<close>

definition get_cumulative_difficulty :: "database \<Rightarrow> bytes \<Rightarrow> nat option" where
  "get_cumulative_difficulty db i = map_option from_bytes_be (db_get db CF_CumulativeDifficulty i)"

definition store_cumulative_difficulty :: "bytes \<Rightarrow> nat \<Rightarrow> write_batch \<Rightarrow> write_batch" where
  "store_cumulative_difficulty i d batch = batch_put CF_CumulativeDifficulty i (to_bytes_be d) batch"

definition parent_cumulative :: "database \<Rightarrow> header \<Rightarrow> nat" where
  "parent_cumulative db h =
     (if hd_height h \<le> 2 then 0
      else case get_cumulative_difficulty db (hd_parent_id h) of Some d \<Rightarrow> d | None \<Rightarrow> 0)"

definition put_best_header :: "bytes \<Rightarrow> u32 \<Rightarrow> nat \<Rightarrow> write_batch \<Rightarrow> write_batch" where
  "put_best_header i height d batch =
     batch_put CF_Metadata (bstr ''best_cumulative_difficulty'') (to_bytes_be d)
       (batch_put CF_Metadata (bstr ''best_height'') (be_u32 height)
         (batch_put CF_Metadata (bstr ''best_header_id'') i batch))"

definition set_best_header :: "bytes \<Rightarrow> u32 \<Rightarrow> nat \<Rightarrow> history \<Rightarrow> history" where
  "set_best_header i height d hy =
     hy\<lparr>hy_best_header_id := Some i, hy_best_height := height, hy_best_cumulative_difficulty := d\<rparr>"

definition put_best_full_block :: "bytes \<Rightarrow> u32 \<Rightarrow> write_batch \<Rightarrow> write_batch" where
  "put_best_full_block i height batch =
     batch_put CF_Metadata (bstr ''best_full_block_height'') (be_u32 height)
       (batch_put CF_Metadata (bstr ''best_full_block_id'') i batch)"

definition set_best_full_block :: "bytes \<Rightarrow> u32 \<Rightarrow> history \<Rightarrow> history" where
  "set_best_full_block i height hy =
     hy\<lparr>hy_best_full_block_id := Some i, hy_best_full_block_height := height\<rparr>"

text \<open>\<open>find_fork_height\<close>: the height counts down with the walk along the parents.\<close>

primrec fork_loop :: "('b, 'x) hist_env_scheme \<Rightarrow> database \<Rightarrow> nat \<Rightarrow> bytes \<Rightarrow> state_error + u32" where
  "fork_loop env db 0 new_id = Inr 1"
| "fork_loop env db (Suc n) new_id =
     rbind (header_get_by_height env db (of_nat (Suc n))) (\<lambda>main.
       if (case main of Some m \<Rightarrow> hd_id m = new_id | None \<Rightarrow> False) then Inr (of_nat (Suc n))
       else rbind (header_get env db new_id) (\<lambda>r.
              case r of
                Some h \<Rightarrow> fork_loop env db n (hd_parent_id h)
              | None \<Rightarrow> Inr 1))"

definition find_fork_height :: "('b, 'x) hist_env_scheme \<Rightarrow> database \<Rightarrow> bytes \<Rightarrow> state_error + u32" where
  "find_fork_height env db new_header_id =
     rbind (header_get env db new_header_id) (\<lambda>r.
       case r of
         None \<Rightarrow> Inl (SE_HeaderNotFound (hex_encode new_header_id))
       | Some h \<Rightarrow> fork_loop env db (unat (sat_sub_u32 (hd_height h) 1)) (hd_parent_id h))"

text \<open>The result of a header or batch that has become the best, the state already written.\<close>

definition selection_after ::
  "('b, 'x) hist_env_scheme \<Rightarrow> database \<Rightarrow> bytes \<Rightarrow> u32 \<Rightarrow> u32 \<Rightarrow> state_error + chain_selection" where
  "selection_after env db i height current_height =
     (if height \<le> current_height \<and> 0 < current_height
      then rbind (find_fork_height env db i) (\<lambda>fork. Inr (Reorg fork (current_height - fork)))
      else Inr Extended)"

definition store_header ::
  "('b, 'x) hist_env_scheme \<Rightarrow> header \<Rightarrow> bytes option \<Rightarrow> database \<Rightarrow> state_error + database" where
  "store_header env h raw_bytes db =
     (case raw_bytes of Some bs \<Rightarrow> Inr (put_with_bytes h bs db) | None \<Rightarrow> header_put env h db)"

definition append_header_internal ::
  "('b, 'x) hist_env_scheme \<Rightarrow> header \<Rightarrow> bytes option \<Rightarrow> hist_state \<Rightarrow> (state_error + chain_selection) \<times> hist_state" where
  "append_header_internal env h raw_bytes s =
     (let db = fst s; hy = snd s in
      if header_contains db (hd_id h) then (Inr Ignored, s)
      else if 2 < hd_height h \<and> \<not> header_contains db (hd_parent_id h)
      then (Inl (SE_HeaderNotFound (hex_encode (hd_parent_id h))), s)
      else let d = parent_cumulative db h + nbits_to_difficulty (hd_n_bits h) in
        case store_header env h raw_bytes db of
          Inl e \<Rightarrow> (Inl e, s)
        | Inr db1 \<Rightarrow>
            let batch = store_cumulative_difficulty (hd_id h) d batch_new in
            if hy_best_cumulative_difficulty hy < d
            then let db2 = db_write_batch (put_best_header (hd_id h) (hd_height h) d batch) db1
                 in (selection_after env db2 (hd_id h) (hd_height h) (hy_best_height hy),
                     (db2, set_best_header (hd_id h) (hd_height h) d hy))
            else (Inr Ignored, (db_write_batch batch db1, hy)))"

definition append_header :: "('b, 'x) hist_env_scheme \<Rightarrow> header \<Rightarrow> hist_state \<Rightarrow> (state_error + chain_selection) \<times> hist_state" where
  "append_header env h s = append_header_internal env h None s"

definition append_header_with_bytes ::
  "('b, 'x) hist_env_scheme \<Rightarrow> header \<Rightarrow> bytes \<Rightarrow> hist_state \<Rightarrow> (state_error + chain_selection) \<times> hist_state" where
  "append_header_with_bytes env h raw_bytes s = append_header_internal env h (Some raw_bytes) s"

text \<open>The loop of \<open>append_headers_batched\<close>: what is carried from header to header.\<close>

record header_batch =
  hb_batch :: write_batch
  hb_ids :: "bytes list"
  hb_cumulative :: nat
  hb_final_id :: bytes
  hb_final_height :: u32
  hb_final_cumulative :: nat

definition batch_header ::
  "database \<Rightarrow> header \<Rightarrow> bytes \<Rightarrow> header_batch \<Rightarrow> state_error + header_batch" where
  "batch_header db h raw_bytes b =
     (if header_contains db (hd_id h) then Inr b
      else let in_batch = (2 < hd_height h \<and> hd_parent_id h \<in> set (hb_ids b)) in
        if 2 < hd_height h \<and> \<not> in_batch \<and> \<not> header_contains db (hd_parent_id h)
        then Inl (SE_HeaderNotFound (''Parent '' @ hex_encode (hd_parent_id h) @ '' not found for header at height ''
                    @ show_nat (unat (hd_height h))))
        else let d = (if in_batch then hb_cumulative b else parent_cumulative db h)
                       + nbits_to_difficulty (hd_n_bits h)
             in Inr \<lparr>hb_batch = store_cumulative_difficulty (hd_id h) d (put_with_bytes_batched h raw_bytes (hb_batch b)),
                     hb_ids = hd_id h # hb_ids b, hb_cumulative = d, hb_final_id = hd_id h,
                     hb_final_height = hd_height h, hb_final_cumulative = d\<rparr>)"

primrec batch_headers :: "database \<Rightarrow> (header \<times> bytes) list \<Rightarrow> header_batch \<Rightarrow> state_error + header_batch" where
  "batch_headers db [] b = Inr b"
| "batch_headers db (x # xs) b = rbind (batch_header db (fst x) (snd x) b) (batch_headers db xs)"

definition append_headers_batched ::
  "('b, 'x) hist_env_scheme \<Rightarrow> (header \<times> bytes) list \<Rightarrow> hist_state \<Rightarrow> (state_error + chain_selection) \<times> hist_state" where
  "append_headers_batched env headers s =
     (case headers of
        [] \<Rightarrow> (Inr Ignored, s)
      | x # _ \<Rightarrow>
          let db = fst s; hy = snd s; first = fst x; d0 = parent_cumulative db first;
              start = \<lparr>hb_batch = batch_new, hb_ids = [], hb_cumulative = d0, hb_final_id = hd_id first,
                       hb_final_height = hd_height first, hb_final_cumulative = d0\<rparr>
          in case batch_headers db headers start of
               Inl e \<Rightarrow> (Inl e, s)
             | Inr b \<Rightarrow>
                 if hy_best_cumulative_difficulty hy < hb_final_cumulative b
                 then let db2 = db_write_batch (put_best_header (hb_final_id b) (hb_final_height b)
                                  (hb_final_cumulative b) (hb_batch b)) db
                      in (selection_after env db2 (hb_final_id b) (hb_final_height b) (hy_best_height hy),
                          (db2, set_best_header (hb_final_id b) (hb_final_height b) (hb_final_cumulative b) hy))
                 else (Inr Ignored, (db_write_batch (hb_batch b) db, hy)))"

subsection \<open>Full blocks\<close>

definition add_block_to_batch ::
  "('b, 'x) hist_env_scheme \<Rightarrow> 'b full_block \<Rightarrow> nat \<Rightarrow> write_batch \<Rightarrow> state_error + nat \<times> write_batch" where
  "add_block_to_batch env block parent_cum batch =
     rbind (put_batched env (fb_header block) batch) (\<lambda>batch1.
       let d = parent_cum + nbits_to_difficulty (hd_n_bits (fb_header block)) in
       rbind (put_transactions_batched env (fb_id block) (fb_transactions block)
                (store_cumulative_difficulty (fb_id block) d batch1)) (\<lambda>batch2.
         let batch3 = put_extension_batched (fb_extension block) batch2 in
         Inr (d, case fb_ad_proofs block of Some p \<Rightarrow> put_ad_proofs_batched p batch3 | None \<Rightarrow> batch3)))"

text \<open>The metadata of the new best header and of the new best full block, and the write.\<close>

definition finalize_block_batch ::
  "write_batch \<Rightarrow> bytes \<Rightarrow> u32 \<Rightarrow> nat \<Rightarrow> hist_state \<Rightarrow> chain_selection \<times> hist_state" where
  "finalize_block_batch batch i height d s =
     (let hy = snd s; better = hy_best_cumulative_difficulty hy < d;
          update_full_block = hy_best_full_block_height hy < height;
          batch1 = (if better then put_best_header i height d batch else batch);
          batch2 = (if update_full_block then put_best_full_block i height batch1 else batch1);
          selection = (if better
                       then if height \<le> hy_best_height hy \<and> 0 < hy_best_height hy
                            then Reorg 1 (hy_best_height hy - 1) else Extended
                       else Ignored);
          hy1 = (if better then set_best_header i height d hy else hy);
          hy2 = (if update_full_block then set_best_full_block i height hy1 else hy1)
      in (selection, (db_write_batch batch2 (fst s), hy2)))"

definition append_full_block ::
  "('b, 'x) hist_env_scheme \<Rightarrow> 'b full_block \<Rightarrow> hist_state \<Rightarrow> (state_error + chain_selection) \<times> hist_state" where
  "append_full_block env block s =
     (case add_block_to_batch env block (parent_cumulative (fst s) (fb_header block)) batch_new of
        Inl e \<Rightarrow> (Inl e, s)
      | Inr (d, batch) \<Rightarrow>
          let (selection, s1) = finalize_block_batch batch (fb_id block) (fb_height block) d s
          in (Inr selection, s1))"

definition execute_batch :: "write_batch \<Rightarrow> hist_state \<Rightarrow> hist_state" where
  "execute_batch batch s = (db_write_batch batch (fst s), snd s)"

definition update_in_memory_state :: "bytes \<Rightarrow> u32 \<Rightarrow> nat \<Rightarrow> history \<Rightarrow> history" where
  "update_in_memory_state i height d hy =
     (let hy1 = (if hy_best_cumulative_difficulty hy < d then set_best_header i height d hy else hy)
      in if hy_best_full_block_height hy1 < height then set_best_full_block i height hy1 else hy1)"

definition get_full_block :: "('b, 'x) hist_env_scheme \<Rightarrow> database \<Rightarrow> bytes \<Rightarrow> state_error + 'b full_block option" where
  "get_full_block env db i =
     rbind (header_get env db i) (\<lambda>r.
       case r of
         None \<Rightarrow> Inr None
       | Some h \<Rightarrow> rbind (get_transactions env db i) (\<lambda>t.
           case t of
             None \<Rightarrow> Inr None
           | Some txs \<Rightarrow> rbind (get_extension db i) (\<lambda>e.
               Inr (Some \<lparr>fb_header = h, fb_transactions = txs,
                          fb_extension = (case e of Some ext \<Rightarrow> ext | None \<Rightarrow> ext_empty i),
                          fb_ad_proofs = get_ad_proofs db i\<rparr>))))"

subsection \<open>Synchronisation queries\<close>

text \<open>The loop of \<open>get_header_locator\<close>; \<open>step *= 2\<close> wraps. \<open>None\<close> is a loop that does not end.\<close>

partial_function (option) locator_loop ::
  "('b, 'x) hist_env_scheme \<Rightarrow> database \<Rightarrow> u32 \<Rightarrow> u32 \<Rightarrow> bytes list \<Rightarrow> (state_error + bytes list) option" where
  "locator_loop env db height step locator =
     (case header_get_by_height env db height of
        Inl e \<Rightarrow> Some (Inl e)
      | Inr r \<Rightarrow>
          let locator1 = (case r of Some h \<Rightarrow> locator @ [hd_id h] | None \<Rightarrow> locator) in
          if height = 1 then Some (Inr locator1)
          else let height1 = sat_sub_u32 height step in
            locator_loop env db (if height1 < 1 then 1 else height1)
              (if 10 < length locator1 then step * 2 else step) locator1)"

definition get_header_locator :: "('b, 'x) hist_env_scheme \<Rightarrow> hist_state \<Rightarrow> (state_error + bytes list) option" where
  "get_header_locator env s =
     (if hy_best_height (snd s) = 0 then Some (Inr [])
      else locator_loop env (fst s) (hy_best_height (snd s)) 1 [])"

fun find_common_ancestor ::
  "('b, 'x) hist_env_scheme \<Rightarrow> database \<Rightarrow> bytes list \<Rightarrow> state_error + (bytes \<times> u32) option" where
  "find_common_ancestor env db [] = Inr None"
| "find_common_ancestor env db (i # ids) =
     rbind (header_get env db i) (\<lambda>r.
       case r of
         None \<Rightarrow> find_common_ancestor env db ids
       | Some h \<Rightarrow> rbind (header_get_by_height env db (hd_height h)) (\<lambda>main.
           if (case main of Some m \<Rightarrow> hd_id m = hd_id h | None \<Rightarrow> False)
           then Inr (Some (hd_id h, hd_height h))
           else find_common_ancestor env db ids))"

end
