(* ===== verification/Protocol.thy ===== *)
theory Protocol
  imports Sync Messages History "HOL-Library.Product_Lexorder"
begin

text \<open>
  The synchronisation protocol of \<open>crates/ergo-sync/src/protocol.rs\<close>: the headers it tracks, those
  that wait for their parent, the state it keeps of each peer, and the handler of every event. A
  handler maps the state to a result and the state it leaves, also when it returns an error; the
  commands it sends to the node are appended to a list. Clock readings (nanoseconds, at least
  a minute), hash map orders, the replies of the storage and the libraries for headers and
  transactions are parameters. Static counters are fields of the state.
\<close>

declare map_of_eq_Some_iff [simp del] Some_eq_map_of_iff [simp del]

subsection \<open>Commands, events and errors\<close>

text \<open>\<open>SyE_Panic\<close> is not a variant of the source: it stands for a Rust panic of the handler.\<close>

datatype sync_error =
    SyE_Network network_error
  | SyE_State state_error
  | SyE_Consensus consensus_error
  | SyE_NoPeers
  | SyE_Stalled string
  | SyE_InvalidChain string
  | SyE_InvalidData string
  | SyE_DownloadFailed string
  | SyE_Internal string
  | SyE_Timeout
  | SyE_Panic

datatype sync_command =
    SendToPeer peer_id message
  | Broadcast message
  | StoreHeader header bytes
  | ApplyBlock bytes bytes
  | StoreExtension bytes bytes
  | AddTransaction bytes bytes peer_id
  | StoreHeadersBatch "(header \<times> bytes) list"

datatype sync_event =
    PeerConnected peer_id
  | PeerDisconnected peer_id
  | SyncInfoReceived peer_id sync_info
  | InvReceived peer_id inv_data
  | ModifierReceived peer_id u8 bytes bytes
  | BlockApplied bytes u32
  | BlockFailed bytes string
  | RequestBlocks "header list"
  | Tick

datatype store_reply = Stored | StoreFailed string | ReplyClosed

record 'b sync_env = "'b hist_env" +
  store_reply :: "nat \<Rightarrow> (header \<times> bytes) list \<Rightarrow> store_reply"
  id_iter :: "bytes list \<Rightarrow> bytes list"
  peer_iter :: "peer_id list \<Rightarrow> peer_id list"
  task_iter :: "download_task list \<Rightarrow> download_task list"
  type_iter :: "u8 list \<Rightarrow> u8 list"

definition compute_header_id :: "('b, 'x) sync_env_scheme \<Rightarrow> bytes \<Rightarrow> bytes" where
  "compute_header_id env data = blake_hash env data"

definition compute_block_section_id :: "('b, 'x) sync_env_scheme \<Rightarrow> u8 \<Rightarrow> bytes \<Rightarrow> bytes \<Rightarrow> bytes" where
  "compute_block_section_id env modifier_type header_id section_digest =
     blake_hash env (modifier_type # header_id @ section_digest)"

subsection \<open>The chain of tracked headers\<close>

definition MAX_CACHED_HEADERS :: nat where
  "MAX_CACHED_HEADERS = 50000"

definition MAX_PENDING_BLOCKS :: nat where
  "MAX_PENDING_BLOCKS = 10000"

record header_chain =
  hc_headers :: "header list"
  hc_missing_blocks :: "bytes list"
  hc_tx_to_header :: "(bytes \<times> bytes) list"
  hc_header_to_tx :: "(bytes \<times> bytes) list"
  hc_headers_by_id :: "(bytes \<times> header) list"

definition header_chain_new :: header_chain where
  "header_chain_new =
     \<lparr>hc_headers = [], hc_missing_blocks = [], hc_tx_to_header = [], hc_header_to_tx = [], hc_headers_by_id = []\<rparr>"

definition track_header :: "header \<Rightarrow> bytes \<Rightarrow> bytes \<Rightarrow> header_chain \<Rightarrow> header_chain" where
  "track_header h transactions_id header_id hc =
     hc\<lparr>hc_headers_by_id := AList.update header_id h (hc_headers_by_id hc),
        hc_headers := hc_headers hc @ [h],
        hc_header_to_tx := AList.update header_id transactions_id (hc_header_to_tx hc),
        hc_tx_to_header := AList.update transactions_id header_id (hc_tx_to_header hc)\<rparr>"

definition hc_remove_header :: "bytes \<Rightarrow> header_chain \<Rightarrow> header_chain" where
  "hc_remove_header header_id hc =
     (let hc1 = hc\<lparr>hc_headers_by_id := AList.delete header_id (hc_headers_by_id hc),
                   hc_header_to_tx := AList.delete header_id (hc_header_to_tx hc)\<rparr>
      in case map_of (hc_header_to_tx hc) header_id of
           Some t \<Rightarrow> hc1\<lparr>hc_tx_to_header := AList.delete t (hc_tx_to_header hc1)\<rparr>
         | None \<Rightarrow> hc1)"

definition hc_get_header :: "bytes \<Rightarrow> header_chain \<Rightarrow> header option" where
  "hc_get_header header_id hc = map_of (hc_headers_by_id hc) header_id"

definition hc_get_tx_id :: "bytes \<Rightarrow> header_chain \<Rightarrow> bytes option" where
  "hc_get_tx_id header_id hc = map_of (hc_header_to_tx hc) header_id"

definition drop_missing :: "bytes \<Rightarrow> header_chain \<Rightarrow> header_chain" where
  "drop_missing t hc =
     (case map_of (hc_tx_to_header hc) t of
        Some header_id \<Rightarrow>
          hc\<lparr>hc_tx_to_header := AList.delete t (hc_tx_to_header hc),
             hc_header_to_tx := AList.delete header_id (hc_header_to_tx hc),
             hc_headers_by_id := AList.delete header_id (hc_headers_by_id hc)\<rparr>
      | None \<Rightarrow> hc)"

text \<open>Both loops pop entries from the front until the length is within the limit.\<close>

definition enforce_limits :: "header_chain \<Rightarrow> header_chain" where
  "enforce_limits hc =
     (let old = length (hc_headers hc) - MAX_CACHED_HEADERS;
          hc1 = fold (\<lambda>h. hc_remove_header (hd_id h)) (take old (hc_headers hc))
                  (hc\<lparr>hc_headers := drop old (hc_headers hc)\<rparr>);
          old_blocks = length (hc_missing_blocks hc1) - MAX_PENDING_BLOCKS
      in fold drop_missing (take old_blocks (hc_missing_blocks hc1))
           (hc1\<lparr>hc_missing_blocks := drop old_blocks (hc_missing_blocks hc1)\<rparr>))"

definition add_header :: "header \<Rightarrow> bytes \<Rightarrow> bytes \<Rightarrow> header_chain \<Rightarrow> header_chain" where
  "add_header h transactions_id header_id hc = enforce_limits (track_header h transactions_id header_id hc)"

definition chain_height :: "header_chain \<Rightarrow> u32 option" where
  "chain_height hc = (if hc_headers hc = [] then None else Some (hd_height (last (hc_headers hc))))"

subsection \<open>Headers that wait for their parent\<close>

record pending_header =
  ph_header :: header
  ph_raw_bytes :: bytes
  ph_parent_id :: bytes

record pending_headers_map =
  pm_by_id :: "(bytes \<times> pending_header) list"
  pm_by_parent :: "(bytes \<times> bytes list) list"
  pm_by_height :: "(u32 \<times> bytes) list"

definition pm_new :: pending_headers_map where
  "pm_new = \<lparr>pm_by_id = [], pm_by_parent = [], pm_by_height = []\<rparr>"

definition pm_len :: "pending_headers_map \<Rightarrow> nat" where
  "pm_len pm = length (pm_by_id pm)"

text \<open>The ordered set of heights is the list of its elements in order.\<close>

definition height_insert :: "u32 \<times> bytes \<Rightarrow> (u32 \<times> bytes) list \<Rightarrow> (u32 \<times> bytes) list" where
  "height_insert x xs = (if x \<in> set xs then xs else insort x xs)"

definition pm_remove :: "bytes \<Rightarrow> pending_headers_map \<Rightarrow> pending_header option \<times> pending_headers_map" where
  "pm_remove i pm =
     (case map_of (pm_by_id pm) i of
        None \<Rightarrow> (None, pm)
      | Some ph \<Rightarrow>
          let by_parent =
            (case map_of (pm_by_parent pm) (ph_parent_id ph) of
               None \<Rightarrow> pm_by_parent pm
             | Some children \<Rightarrow>
                 let rest = removeAll i children in
                 if rest = [] then AList.delete (ph_parent_id ph) (pm_by_parent pm)
                 else AList.update (ph_parent_id ph) rest (pm_by_parent pm))
          in (Some ph,
              pm\<lparr>pm_by_id := AList.delete i (pm_by_id pm), pm_by_parent := by_parent,
                 pm_by_height := removeAll (hd_height (ph_header ph), i) (pm_by_height pm)\<rparr>))"

definition pm_insert :: "bytes \<Rightarrow> pending_header \<Rightarrow> nat \<Rightarrow> pending_headers_map \<Rightarrow> u32 option \<times> pending_headers_map" where
  "pm_insert i ph max_size pm =
     (let (evicted, pm1) =
        (if max_size \<le> length (pm_by_id pm)
         then case pm_by_height pm of
                [] \<Rightarrow> (None, pm)
              | (height, evict_id) # _ \<Rightarrow> (Some height, snd (pm_remove evict_id pm))
         else (None, pm));
        children = (case map_of (pm_by_parent pm1) (ph_parent_id ph) of Some c \<Rightarrow> c | None \<Rightarrow> [])
      in (evicted,
          pm1\<lparr>pm_by_id := AList.update i ph (pm_by_id pm1),
              pm_by_parent := AList.update (ph_parent_id ph) (List.insert i children) (pm_by_parent pm1),
              pm_by_height := height_insert (hd_height (ph_header ph), i) (pm_by_height pm1)\<rparr>))"

definition get_by_parent :: "(bytes list \<Rightarrow> bytes list) \<Rightarrow> bytes \<Rightarrow> pending_headers_map \<Rightarrow> (bytes \<times> pending_header) list" where
  "get_by_parent iter parent_id pm =
     (case map_of (pm_by_parent pm) parent_id of
        None \<Rightarrow> []
      | Some child_ids \<Rightarrow> List.map_filter (\<lambda>i. map_option (Pair i) (map_of (pm_by_id pm) i)) (iter child_ids))"

definition pm_clear :: "pending_headers_map \<Rightarrow> pending_headers_map" where
  "pm_clear pm = pm_new"

subsection \<open>Peers\<close>

definition HEADER_BATCH_SIZE :: nat where
  "HEADER_BATCH_SIZE = 500"

definition STORED_HEADERS_CACHE_SIZE :: nat where
  "STORED_HEADERS_CACHE_SIZE = 100000"

definition MAX_PENDING_HEADERS :: nat where
  "MAX_PENDING_HEADERS = 10000"

definition MAX_PENDING_HEADER_INV :: nat where
  "MAX_PENDING_HEADER_INV = 10000"

definition HEADER_BATCH_TIMEOUT_MS :: nat where
  "HEADER_BATCH_TIMEOUT_MS = 500"

definition MIN_SYNC_INTERVAL :: nat where
  "MIN_SYNC_INTERVAL = 5 * 10 ^ 9"

definition PER_PEER_SYNC_LOCK_TIME :: nat where
  "PER_PEER_SYNC_LOCK_TIME = 100 * 10 ^ 6"

definition MIN_REQUEST_INTERVAL :: nat where
  "MIN_REQUEST_INTERVAL = 100 * 10 ^ 6"

datatype peer_chain_status = ChainUnknown | ChainYounger | ChainOlder | ChainFork | ChainEqual

record peer_sync_state =
  ps_height :: u32
  ps_best_headers :: "bytes list"
  ps_in_flight :: u32
  ps_last_activity :: nat
  ps_last_sync_sent :: nat
  ps_last_request_sent :: nat
  ps_last_sync_received :: nat
  ps_chain_status :: peer_chain_status

definition peer_sync_state_new :: "nat \<Rightarrow> peer_sync_state" where
  "peer_sync_state_new now =
     (let epoch = now - 60 * 10 ^ 9 in
      \<lparr>ps_height = 0, ps_best_headers = [], ps_in_flight = 0, ps_last_activity = now, ps_last_sync_sent = epoch,
       ps_last_request_sent = epoch, ps_last_sync_received = epoch, ps_chain_status = ChainUnknown\<rparr>)"

definition can_send_sync :: "nat \<Rightarrow> peer_sync_state \<Rightarrow> bool" where
  "can_send_sync now s = (MIN_SYNC_INTERVAL \<le> now - ps_last_sync_sent s)"

definition can_process_sync :: "nat \<Rightarrow> peer_sync_state \<Rightarrow> bool" where
  "can_process_sync now s = (PER_PEER_SYNC_LOCK_TIME \<le> now - ps_last_sync_received s)"

definition should_send_sync_response :: "nat \<Rightarrow> peer_chain_status \<Rightarrow> peer_chain_status \<Rightarrow> peer_sync_state \<Rightarrow> bool" where
  "should_send_sync_response now old_status new_status s =
     (old_status \<noteq> new_status \<or> new_status = ChainOlder \<or> new_status = ChainFork
      \<or> MIN_SYNC_INTERVAL \<le> now - ps_last_sync_sent s)"

definition can_send_request :: "nat \<Rightarrow> peer_sync_state \<Rightarrow> bool" where
  "can_send_request now s = (MIN_REQUEST_INTERVAL \<le> now - ps_last_request_sent s)"

subsection \<open>The state of the protocol\<close>

record sync_protocol =
  sp_synchronizer :: synchronizer
  sp_downloader :: downloader
  sp_our_best_headers :: "bytes list"
  sp_header_chain :: header_chain
  sp_v2_sync_headers :: "header list"
  sp_sync_peers :: "(peer_id \<times> peer_sync_state) list"
  sp_pending_headers :: pending_headers_map
  sp_stored_headers :: "bytes list"
  sp_pending_header_inv :: "bytes list"
  sp_in_flight_headers :: "(bytes \<times> nat) list"
  sp_header_timeout :: nat
  sp_known_transactions :: "bytes list"
  sp_pending_header_writes :: "(header \<times> bytes) list"
  sp_writes_since :: "nat option"
  sp_sync_tick :: u64
  sp_commands :: "sync_command list"
  sp_channel_open :: bool

type_synonym 'a handled = "(sync_error + 'a) \<times> sync_protocol"

definition protocol_new :: "sync_config \<Rightarrow> sync_protocol" where
  "protocol_new config =
     \<lparr>sp_synchronizer = synchronizer_new config, sp_downloader = downloader_new download_config_default,
      sp_our_best_headers = [], sp_header_chain = header_chain_new, sp_v2_sync_headers = [], sp_sync_peers = [],
      sp_pending_headers = pm_new, sp_stored_headers = [replicate 32 0], sp_pending_header_inv = [],
      sp_in_flight_headers = [], sp_header_timeout = 10 * 10 ^ 9, sp_known_transactions = [],
      sp_pending_header_writes = [], sp_writes_since = None, sp_sync_tick = 0, sp_commands = [],
      sp_channel_open = True\<rparr>"

text \<open>The rest of a handler runs only when the first part has not returned an error.\<close>

definition sbind :: "'a handled \<Rightarrow> ('a \<Rightarrow> sync_protocol \<Rightarrow> 'b handled) \<Rightarrow> 'b handled" where
  "sbind r f = (case fst r of Inl e \<Rightarrow> (Inl e, snd r) | Inr x \<Rightarrow> f x (snd r))"

definition send_command :: "string \<Rightarrow> sync_command \<Rightarrow> sync_protocol \<Rightarrow> unit handled" where
  "send_command failure cmd p =
     (if sp_channel_open p then (Inr (), p\<lparr>sp_commands := sp_commands p @ [cmd]\<rparr>)
      else (Inl (SyE_Internal (failure @ '': channel closed'')), p))"

definition send_to_peer :: "peer_id \<Rightarrow> message \<Rightarrow> sync_protocol \<Rightarrow> unit handled" where
  "send_to_peer peer msg p = send_command ''Failed to send'' (SendToPeer peer msg) p"

definition update_sync_peer :: "peer_id \<Rightarrow> (peer_sync_state \<Rightarrow> peer_sync_state) \<Rightarrow> sync_protocol \<Rightarrow> sync_protocol" where
  "update_sync_peer peer f p =
     (case map_of (sp_sync_peers p) peer of
        None \<Rightarrow> p
      | Some s \<Rightarrow> p\<lparr>sp_sync_peers := AList.update peer (f s) (sp_sync_peers p)\<rparr>)"

definition init_from_stored_headers :: "bytes list \<Rightarrow> bytes list \<Rightarrow> header list \<Rightarrow> sync_protocol \<Rightarrow> sync_protocol" where
  "init_from_stored_headers all_header_ids locator_ids newest_headers p =
     (if all_header_ids = [] then p
      else let ids_to_load = drop (length all_header_ids - STORED_HEADERS_CACHE_SIZE) all_header_ids in
        p\<lparr>sp_stored_headers := fold (lru_put STORED_HEADERS_CACHE_SIZE) ids_to_load (sp_stored_headers p),
          sp_our_best_headers := locator_ids,
          sp_v2_sync_headers := (if newest_headers = [] then sp_v2_sync_headers p else newest_headers)\<rparr>)"

definition set_our_headers :: "bytes list \<Rightarrow> sync_protocol \<Rightarrow> sync_protocol" where
  "set_our_headers header_ids p = p\<lparr>sp_our_best_headers := header_ids\<rparr>"

definition sp_set_height :: "u32 \<Rightarrow> sync_protocol \<Rightarrow> sync_protocol" where
  "sp_set_height height p = p\<lparr>sp_synchronizer := sy_set_height height (sp_synchronizer p)\<rparr>"

definition best_header_height :: "sync_protocol \<Rightarrow> u32" where
  "best_header_height p =
     (case chain_height (sp_header_chain p) of Some h \<Rightarrow> h | None \<Rightarrow> sy_our_height (sp_synchronizer p))"

subsection \<open>Peers come and go\<close>

definition build_v2_sync_info :: "('b, 'x) sync_env_scheme \<Rightarrow> sync_protocol \<Rightarrow> sync_info" where
  "build_v2_sync_info env p =
     (let serialized = List.map_filter (header_serialize env) (sp_v2_sync_headers p) in
      if serialized \<noteq> [] then sync_info_v2 serialized else sync_info_v1 [replicate 32 0])"

definition on_peer_connected :: "('b, 'x) sync_env_scheme \<Rightarrow> nat \<Rightarrow> peer_id \<Rightarrow> sync_protocol \<Rightarrow> unit handled" where
  "on_peer_connected env now peer p =
     (let state = (peer_sync_state_new now)\<lparr>ps_last_sync_sent := now\<rparr>;
          p1 = p\<lparr>sp_sync_peers := AList.update peer state (sp_sync_peers p)\<rparr>
      in send_to_peer peer (MSyncInfo (build_v2_sync_info env p1)) p1)"

definition on_peer_disconnected :: "peer_id \<Rightarrow> sync_protocol \<Rightarrow> sync_protocol" where
  "on_peer_disconnected peer p =
     p\<lparr>sp_sync_peers := AList.delete peer (sp_sync_peers p),
       sp_synchronizer := sy_remove_peer peer (sp_synchronizer p),
       sp_downloader := fold (\<lambda>i. fail i peer) (get_in_flight_for_peer peer (sp_downloader p)) (sp_downloader p)\<rparr>"

text \<open>The identifiers and the greatest height of the headers of a message of version 2.\<close>

definition parsed_sync_headers :: "('b, 'x) sync_env_scheme \<Rightarrow> sync_info \<Rightarrow> header list" where
  "parsed_sync_headers env info = List.map_filter (header_parse env) (last_headers info)"

definition peer_status :: "u32 \<Rightarrow> u32 \<Rightarrow> bytes list \<Rightarrow> bytes list \<Rightarrow> peer_chain_status" where
  "peer_status estimated_height our_height header_ids our_headers =
     (if estimated_height = 0 \<and> our_height = 0 then ChainUnknown
      else if our_height < estimated_height then ChainOlder
      else if estimated_height < our_height then ChainYounger
      else if list_ex (\<lambda>i. i \<in> set our_headers) header_ids then ChainEqual
      else ChainFork)"

definition on_sync_info :: "('b, 'x) sync_env_scheme \<Rightarrow> nat \<Rightarrow> peer_id \<Rightarrow> sync_info \<Rightarrow> sync_protocol \<Rightarrow> unit handled" where
  "on_sync_info env now peer info p =
     (let known = map_of (sp_sync_peers p) peer;
          can_process = (case known of Some s \<Rightarrow> can_process_sync now s | None \<Rightarrow> True);
          old_status = (case known of Some s \<Rightarrow> ps_chain_status s | None \<Rightarrow> ChainUnknown)
      in if \<not> can_process then (Inr (), p)
         else
           let parsed = parsed_sync_headers env info;
               header_ids = (if is_v2 info then map hd_id parsed else last_header_ids info);
               peer_height = (if is_v2 info \<and> parsed \<noteq> [] then Some (Max (set (map hd_height parsed))) else None);
               existing_height = (case known of Some s \<Rightarrow> ps_height s | None \<Rightarrow> 0);
               estimated_height = (case peer_height of Some h \<Rightarrow> h | None \<Rightarrow> existing_height);
               our_height = (case chain_height (sp_header_chain p) of Some h \<Rightarrow> h | None \<Rightarrow> 0);
               new_status = peer_status estimated_height our_height header_ids (sp_our_best_headers p);
               should_send_sync = (case known of
                   Some s \<Rightarrow> should_send_sync_response now old_status new_status s | None \<Rightarrow> True);
               p1 = update_sync_peer peer (\<lambda>s. s\<lparr>ps_best_headers := header_ids, ps_last_activity := now,
                      ps_last_sync_received := now, ps_height := estimated_height, ps_chain_status := new_status\<rparr>) p;
               p2 = p1\<lparr>sp_synchronizer := set_peer_height peer estimated_height (sp_synchronizer p1)\<rparr>
           in if should_send_sync
              then send_to_peer peer (MSyncInfo (build_v2_sync_info env p2))
                     (update_sync_peer peer (\<lambda>s. s\<lparr>ps_last_sync_sent := now\<rparr>) p2)
              else (Inr (), p2))"

subsection \<open>Announcements\<close>

definition MAX_REQUEST_SIZE :: nat where
  "MAX_REQUEST_SIZE = 400"

text \<open>New identifiers go to the end of the queue; old ones are dropped until the new ones fit, or the queue is empty.\<close>

definition queue_header_inv :: "bytes list \<Rightarrow> bytes list \<Rightarrow> bytes list" where
  "queue_header_inv remaining pending =
     drop (length pending + length remaining - MAX_PENDING_HEADER_INV) pending @ remaining"

definition mark_in_flight :: "nat \<Rightarrow> bytes list \<Rightarrow> sync_protocol \<Rightarrow> sync_protocol" where
  "mark_in_flight now ids p =
     p\<lparr>sp_in_flight_headers := fold (\<lambda>i. AList.update i now) ids (sp_in_flight_headers p)\<rparr>"

definition on_inv :: "nat \<Rightarrow> peer_id \<Rightarrow> inv_data \<Rightarrow> sync_protocol \<Rightarrow> unit handled" where
  "on_inv now peer iv p =
     (let is_header_inv = (inv_type_id iv = modifier_to_byte MT_Header);
          is_transaction_inv = (inv_type_id iv = modifier_to_byte MT_Transaction)
      in if inv_type_id iv = modifier_to_byte MT_BlockTransactions then (Inr (), p)
         else if inv_ids iv = [] then (Inr (), p)
         else
           let filtered_ids =
                 (if is_header_inv then filter (\<lambda>i. i \<notin> set (sp_stored_headers p)) (inv_ids iv)
                  else if is_transaction_inv then filter (\<lambda>i. i \<notin> set (sp_known_transactions p)) (inv_ids iv)
                  else inv_ids iv);
               ids_to_request = take MAX_REQUEST_SIZE filtered_ids;
               remaining = drop MAX_REQUEST_SIZE filtered_ids;
               p1 = (if is_header_inv \<and> remaining \<noteq> []
                     then p\<lparr>sp_pending_header_inv := queue_header_inv remaining (sp_pending_header_inv p)\<rparr> else p)
           in if ids_to_request = [] then (Inr (), p1)
              else send_to_peer peer (MRequestModifier \<lparr>inv_type_id = inv_type_id iv, inv_ids = ids_to_request\<rparr>)
                     (update_sync_peer peer (\<lambda>s. s\<lparr>ps_last_request_sent := now\<rparr>)
                       (if is_header_inv then mark_in_flight now ids_to_request p1 else p1)))"

subsection \<open>Headers\<close>

definition buffer_header_for_storage :: "nat \<Rightarrow> header \<Rightarrow> bytes \<Rightarrow> sync_protocol \<Rightarrow> sync_protocol" where
  "buffer_header_for_storage now h raw_bytes p =
     p\<lparr>sp_writes_since := (if sp_pending_header_writes p = [] then Some now else sp_writes_since p),
       sp_pending_header_writes := sp_pending_header_writes p @ [(h, raw_bytes)]\<rparr>"

definition should_flush_headers :: "nat \<Rightarrow> sync_protocol \<Rightarrow> bool" where
  "should_flush_headers now p =
     (sp_pending_header_writes p \<noteq> [] \<and>
      (HEADER_BATCH_SIZE \<le> length (sp_pending_header_writes p) \<or>
       (case sp_writes_since p of
          Some start \<Rightarrow> HEADER_BATCH_TIMEOUT_MS \<le> (now - start) div 10 ^ 6
        | None \<Rightarrow> False)))"

definition flush_pending_headers :: "('b, 'x) sync_env_scheme \<Rightarrow> sync_protocol \<Rightarrow> bytes list handled" where
  "flush_pending_headers env p =
     (let headers = sp_pending_header_writes p;
          p1 = p\<lparr>sp_writes_since := None, sp_pending_header_writes := []\<rparr>
      in if headers = [] then (Inr [], p1)
         else sbind (send_command ''Failed to send batch store command'' (StoreHeadersBatch headers) p1) (\<lambda>_ p2.
           case store_reply env (length (sp_commands p1)) headers of
             Stored \<Rightarrow> (Inr (map (hd_id \<circ> fst) headers), p2)
           | StoreFailed e \<Rightarrow> (Inl (SyE_Internal (''Failed to store header batch: '' @ e)), p2)
           | ReplyClosed \<Rightarrow> (Inl (SyE_Internal ''Batch storage response channel closed''), p2)))"

text \<open>What is done for a header whose parent is known, before its waiting children.\<close>

definition record_header :: "('b, 'x) sync_env_scheme \<Rightarrow> nat \<Rightarrow> header \<Rightarrow> bytes \<Rightarrow> sync_protocol \<Rightarrow> sync_protocol" where
  "record_header env now h raw_bytes p =
     (let p1 = buffer_header_for_storage now h raw_bytes p;
          transactions_id = compute_block_section_id env (modifier_to_byte MT_BlockTransactions) (hd_id h) (hd_transaction_root h)
      in sp_set_height (hd_height h)
           (p1\<lparr>sp_stored_headers := lru_put STORED_HEADERS_CACHE_SIZE (hd_id h) (sp_stored_headers p1),
               sp_header_chain := add_header h transactions_id (hd_id h) (sp_header_chain p1),
               sp_v2_sync_headers := (case sp_v2_sync_headers p1 of [] \<Rightarrow> [h] | _ # hs \<Rightarrow> h # hs)\<rparr>))"

definition waiting_children :: "('b, 'x) sync_env_scheme \<Rightarrow> bytes \<Rightarrow> sync_protocol \<Rightarrow> (bytes \<times> pending_header) list" where
  "waiting_children env parent_id p = get_by_parent (id_iter env) parent_id (sp_pending_headers p)"

definition unpend :: "bytes \<Rightarrow> sync_protocol \<Rightarrow> sync_protocol" where
  "unpend i p = p\<lparr>sp_pending_headers := snd (pm_remove i (sp_pending_headers p))\<rparr>"

definition flush_if_due :: "('b, 'x) sync_env_scheme \<Rightarrow> nat \<Rightarrow> sync_protocol \<Rightarrow> unit handled" where
  "flush_if_due env now p =
     (if should_flush_headers now p then sbind (flush_pending_headers env p) (\<lambda>_ p1. (Inr (), p1)) else (Inr (), p))"

text \<open>
  The recursion of \<open>store_header_and_descendants\<close> through \<open>try_apply_pending_headers\<close>: its depth is
  bounded by the number of waiting headers, since each level removes the header it goes on with.
  \<open>None\<close> is the end of the fuel.
\<close>

primrec apply_waiting ::
  "(header \<Rightarrow> bytes \<Rightarrow> sync_protocol \<Rightarrow> unit handled option) \<Rightarrow> (bytes \<times> pending_header) list \<Rightarrow> sync_protocol \<Rightarrow>
    unit handled option" where
  "apply_waiting store [] p = Some (Inr (), p)"
| "apply_waiting store (w # ws) p =
     (case store (ph_header (snd w)) (ph_raw_bytes (snd w)) (unpend (fst w) p) of
        None \<Rightarrow> None
      | Some (Inl e, p1) \<Rightarrow> Some (Inl e, p1)
      | Some (Inr _, p1) \<Rightarrow> apply_waiting store ws p1)"

primrec store_descendants ::
  "('b, 'x) sync_env_scheme \<Rightarrow> nat \<Rightarrow> nat \<Rightarrow> header \<Rightarrow> bytes \<Rightarrow> sync_protocol \<Rightarrow> unit handled option" where
  "store_descendants env now 0 h raw_bytes p = None"
| "store_descendants env now (Suc fuel) h raw_bytes p =
     (let p1 = record_header env now h raw_bytes p in
      case apply_waiting (store_descendants env now fuel) (waiting_children env (hd_id h) p1) p1 of
        None \<Rightarrow> None
      | Some (Inl e, p2) \<Rightarrow> Some (Inl e, p2)
      | Some (Inr _, p2) \<Rightarrow> Some (flush_if_due env now p2))"

definition store_header_and_descendants ::
  "('b, 'x) sync_env_scheme \<Rightarrow> nat \<Rightarrow> header \<Rightarrow> bytes \<Rightarrow> sync_protocol \<Rightarrow> unit handled" where
  "store_header_and_descendants env now h raw_bytes p =
     (case store_descendants env now (Suc (pm_len (sp_pending_headers p))) h raw_bytes p of
        Some r \<Rightarrow> r
      | None \<Rightarrow> (Inl SyE_Panic, p))"

definition on_header_received :: "('b, 'x) sync_env_scheme \<Rightarrow> nat \<Rightarrow> peer_id \<Rightarrow> bytes \<Rightarrow> bytes \<Rightarrow> sync_protocol \<Rightarrow> unit handled" where
  "on_header_received env now peer i data p =
     (let p1 = p\<lparr>sp_in_flight_headers := AList.delete i (sp_in_flight_headers p)\<rparr>;
          correct_id = compute_header_id env data
      in case header_parse env data of
           None \<Rightarrow> (Inl (SyE_InvalidData ''Failed to parse header''), p1)
         | Some h0 \<Rightarrow>
             let h = h0\<lparr>hd_id := correct_id\<rparr> in
             if correct_id \<in> set (sp_stored_headers p1) then (Inr (), p1)
             else if hd_parent_id h \<in> set (sp_stored_headers p1) then store_header_and_descendants env now h data p1
             else (Inr (), p1\<lparr>sp_pending_headers := snd (pm_insert correct_id
                     \<lparr>ph_header = h, ph_raw_bytes = data, ph_parent_id = hd_parent_id h\<rparr> MAX_PENDING_HEADERS
                     (sp_pending_headers p1))\<rparr>))"

subsection \<open>Blocks, extensions and transactions\<close>

definition fail_block :: "bytes \<Rightarrow> sync_protocol \<Rightarrow> sync_protocol" where
  "fail_block i p = p\<lparr>sp_downloader := fail i [] (sp_downloader p)\<rparr>"

definition on_block_received ::
  "('b, 'x) sync_env_scheme \<Rightarrow> bytes \<Rightarrow> bytes \<Rightarrow> sync_protocol \<Rightarrow> unit handled" where
  "on_block_received env i data p =
     (case bt_parse (tx_env.truncate env) data of
        None \<Rightarrow> (Inl SyE_Panic, p)
      | Some (Inl e) \<Rightarrow> (Inl (SyE_InvalidData ''Failed to parse BlockTransactions''), fail_block i p)
      | Some (Inr block_txs) \<Rightarrow>
          (case (case hc_get_header (bt_header_id block_txs) (sp_header_chain p) of
                   Some h \<Rightarrow> validate_against_header (tx_env.truncate env) block_txs h
                 | None \<Rightarrow> Inr ()) of
             Inl e \<Rightarrow> (Inl (SyE_InvalidData ''Block validation failed''), fail_block i p)
           | Inr _ \<Rightarrow>
               let p1 = p\<lparr>sp_downloader := Download.complete i (sp_downloader p),
                          sp_synchronizer := block_received i (sp_synchronizer p)\<rparr>
               in sbind (send_command ''Failed to send command'' (ApplyBlock (bt_header_id block_txs) data) p1) (\<lambda>_ p2.
                    (Inr (), p2\<lparr>sp_header_chain := (sp_header_chain p2)
                       \<lparr>hc_tx_to_header := AList.delete i (hc_tx_to_header (sp_header_chain p2))\<rparr>\<rparr>))))"

definition on_extension_received :: "bytes \<Rightarrow> bytes \<Rightarrow> sync_protocol \<Rightarrow> unit handled" where
  "on_extension_received i data p =
     (case ext_parse data of
        None \<Rightarrow> (Inl SyE_Panic, p)
      | Some r \<Rightarrow>
          let p1 = p\<lparr>sp_downloader := Download.complete i (sp_downloader p)\<rparr> in
          case r of
            Inl e \<Rightarrow> (Inr (), p1)
          | Inr e \<Rightarrow> send_command ''Failed to send command'' (StoreExtension (ext_header_id e) data) p1)"

definition KNOWN_TRANSACTIONS_CACHE_SIZE :: nat where
  "KNOWN_TRANSACTIONS_CACHE_SIZE = 10000"

definition on_transaction_received :: "peer_id \<Rightarrow> bytes \<Rightarrow> bytes \<Rightarrow> sync_protocol \<Rightarrow> unit handled" where
  "on_transaction_received peer i data p =
     send_command ''Failed to send AddTransaction command'' (AddTransaction i data peer)
       (p\<lparr>sp_known_transactions := lru_put KNOWN_TRANSACTIONS_CACHE_SIZE i (sp_known_transactions p)\<rparr>)"

definition on_modifier ::
  "('b, 'x) sync_env_scheme \<Rightarrow> nat \<Rightarrow> peer_id \<Rightarrow> u8 \<Rightarrow> bytes \<Rightarrow> bytes \<Rightarrow> sync_protocol \<Rightarrow> unit handled" where
  "on_modifier env now peer type_id i data p =
     (let p1 = update_sync_peer peer (\<lambda>s. s\<lparr>ps_last_activity := now, ps_in_flight := sat_sub_u32 (ps_in_flight s) 1\<rparr>) p
      in case modifier_from_byte type_id of
           Some MT_Transaction \<Rightarrow> on_transaction_received peer i data p1
         | Some MT_Header \<Rightarrow> on_header_received env now peer i data p1
         | Some MT_BlockTransactions \<Rightarrow> on_block_received env i data p1
         | Some MT_Extension \<Rightarrow> on_extension_received i data p1
         | _ \<Rightarrow> (Inr (), p1))"

definition on_block_applied :: "bytes \<Rightarrow> u32 \<Rightarrow> sync_protocol \<Rightarrow> sync_protocol" where
  "on_block_applied block_id height p =
     (let p1 = sp_set_height height p;
          d = (case hc_get_tx_id block_id (sp_header_chain p1) of
                 Some t \<Rightarrow> uncomplete t (sp_downloader p1) | None \<Rightarrow> sp_downloader p1)
      in p1\<lparr>sp_header_chain := hc_remove_header block_id (sp_header_chain p1), sp_downloader := uncomplete block_id d\<rparr>)"

definition on_block_failed :: "bytes \<Rightarrow> sync_protocol \<Rightarrow> sync_protocol" where
  "on_block_failed block_id p =
     (let d = uncomplete block_id (sp_downloader p) in
      p\<lparr>sp_downloader := (case hc_get_tx_id block_id (sp_header_chain p) of Some t \<Rightarrow> uncomplete t d | None \<Rightarrow> d)\<rparr>)"

subsection \<open>Downloads\<close>

definition MAX_BLOCKS_PER_PEER :: nat where
  "MAX_BLOCKS_PER_PEER = 32"

definition MAX_PEERS_TO_USE :: nat where
  "MAX_PEERS_TO_USE = 16"

text \<open>One request for each type of the tasks, the types in the order of a hash map.\<close>

primrec send_requests :: "peer_id \<Rightarrow> download_task list \<Rightarrow> u8 list \<Rightarrow> sync_protocol \<Rightarrow> unit handled" where
  "send_requests peer tasks [] p = (Inr (), p)"
| "send_requests peer tasks (type_id # types) p =
     sbind (send_to_peer peer (MRequestModifier
         \<lparr>inv_type_id = type_id, inv_ids = map task_id (filter (\<lambda>t. task_type_id t = type_id) tasks)\<rparr>) p)
       (\<lambda>_. send_requests peer tasks types)"

definition dispatch_to_peer :: "('b, 'x) sync_env_scheme \<Rightarrow> nat \<Rightarrow> peer_id \<Rightarrow> sync_protocol \<Rightarrow> unit handled" where
  "dispatch_to_peer env now peer p =
     (let tasks = get_ready_tasks_for_peer (task_iter env) MAX_BLOCKS_PER_PEER peer (sp_downloader p) in
      if tasks = [] then (Inr (), p)
      else send_requests peer tasks (type_iter env (remdups (map task_type_id tasks)))
             (update_sync_peer peer (\<lambda>s. s\<lparr>ps_in_flight := ps_in_flight s + of_nat (length tasks), ps_last_request_sent := now\<rparr>)
               (p\<lparr>sp_downloader := fold (\<lambda>t. dispatch now (task_id t) peer) tasks (sp_downloader p)\<rparr>)))"

primrec dispatch_to_peers :: "('b, 'x) sync_env_scheme \<Rightarrow> nat \<Rightarrow> peer_id list \<Rightarrow> sync_protocol \<Rightarrow> unit handled" where
  "dispatch_to_peers env now [] p = (Inr (), p)"
| "dispatch_to_peers env now (peer # peers) p =
     sbind (dispatch_to_peer env now peer p) (\<lambda>_. dispatch_to_peers env now peers)"

definition peers_where :: "('b, 'x) sync_env_scheme \<Rightarrow> (peer_sync_state \<Rightarrow> bool) \<Rightarrow> sync_protocol \<Rightarrow> peer_id list" where
  "peers_where env f p =
     filter (\<lambda>i. case map_of (sp_sync_peers p) i of Some s \<Rightarrow> f s | None \<Rightarrow> False)
       (peer_iter env (map fst (sp_sync_peers p)))"

definition clear_stuck_tasks :: "('b, 'x) sync_env_scheme \<Rightarrow> sync_protocol \<Rightarrow> sync_protocol" where
  "clear_stuck_tasks env p =
     p\<lparr>sp_downloader := fold clear_failed_peers
         (get_stuck_tasks (task_iter env) (peer_iter env (map fst (sp_sync_peers p))) (sp_downloader p)) (sp_downloader p)\<rparr>"

definition dispatch_downloads :: "('b, 'x) sync_env_scheme \<Rightarrow> nat \<Rightarrow> sync_protocol \<Rightarrow> unit handled" where
  "dispatch_downloads env now p =
     (if PARALLEL_DOWNLOADS \<le> ds_in_flight (dl_stats (sp_downloader p)) then (Inr (), p)
      else let available_peers = peers_where env (can_send_request now) p in
        if available_peers = [] then (Inr (), p)
        else dispatch_to_peers env now (take MAX_PEERS_TO_USE available_peers) (clear_stuck_tasks env p))"

definition track_requested :: "header \<times> bytes \<Rightarrow> header_chain \<Rightarrow> header_chain" where
  "track_requested x hc =
     (if map_of (hc_tx_to_header hc) (snd x) \<noteq> None then hc else track_header (fst x) (snd x) (hd_id (fst x)) hc)"

definition section_id :: "('b, 'x) sync_env_scheme \<Rightarrow> modifier_type \<Rightarrow> header \<Rightarrow> bytes" where
  "section_id env mt h =
     compute_block_section_id env (modifier_to_byte mt) (hd_id h)
       (if mt = MT_Extension then hd_extension_root h else hd_transaction_root h)"

definition on_request_blocks :: "('b, 'x) sync_env_scheme \<Rightarrow> nat \<Rightarrow> header list \<Rightarrow> sync_protocol \<Rightarrow> unit handled" where
  "on_request_blocks env now headers p =
     (if headers = [] then (Inr (), p)
      else
        let chain = fold track_requested (map (\<lambda>h. (h, section_id env MT_BlockTransactions h)) headers) (sp_header_chain p);
            tasks = concat (map (\<lambda>h. [task_new (section_id env MT_BlockTransactions h) (modifier_to_byte MT_BlockTransactions),
                                      task_new (section_id env MT_Extension h) (modifier_to_byte MT_Extension)]) headers)
        in dispatch_downloads env now (p\<lparr>sp_header_chain := chain, sp_downloader := dl_queue tasks (sp_downloader p)\<rparr>))"

text \<open>\<open>16 - pending - in_flight\<close> wraps around when more than 16 requests are open.\<close>

definition estimated_network_height :: "sync_protocol \<Rightarrow> u32" where
  "estimated_network_height p =
     (let peer_height = best_or_zero (sp_synchronizer p) in
      if 0 < peer_height then peer_height
      else case chain_height (sp_header_chain p) of Some h \<Rightarrow> h | None \<Rightarrow> 0)"

definition queue_block_downloads :: "sync_protocol \<Rightarrow> sync_protocol" where
  "queue_block_downloads p =
     (let estimated = estimated_network_height p; stats = dl_stats (sp_downloader p);
          busy = ds_pending stats + ds_in_flight stats
      in if 0 < estimated \<and> sy_our_height (sp_synchronizer p) + 1000 < estimated then p
         else if PARALLEL_DOWNLOADS \<le> busy then p
         else
           let missing = hc_missing_blocks (sp_header_chain p);
               count = min (if busy \<le> 16 then 16 - busy else 2 ^ 64 + 16 - busy) (length missing)
           in p\<lparr>sp_header_chain := (sp_header_chain p)\<lparr>hc_missing_blocks := drop count missing\<rparr>,
                sp_downloader := (if take count missing = [] then sp_downloader p
                  else dl_queue (map (\<lambda>i. task_new i (modifier_to_byte MT_BlockTransactions)) (take count missing)) (sp_downloader p))\<rparr>)"

subsection \<open>The periodic tick\<close>

definition MAX_TIMEOUTS_PER_TICK :: nat where
  "MAX_TIMEOUTS_PER_TICK = 10"

definition fail_timed_out :: "nat \<Rightarrow> sync_protocol \<Rightarrow> sync_protocol" where
  "fail_timed_out now p =
     (let timed_out = check_timeouts now (sp_downloader p);
          p1 = p\<lparr>sp_downloader := fold (\<lambda>(i, peer). fail i peer) timed_out (sp_downloader p)\<rparr>;
          unresponsive = filter (\<lambda>peer. MAX_TIMEOUTS_PER_TICK \<le> count_list (map snd timed_out) peer) (remdups (map snd timed_out))
      in fold (\<lambda>peer q. q\<lparr>sp_sync_peers := AList.delete peer (sp_sync_peers q),
                          sp_synchronizer := sy_remove_peer peer (sp_synchronizer q)\<rparr>) unresponsive p1)"

definition requeue_header :: "bytes \<Rightarrow> sync_protocol \<Rightarrow> sync_protocol" where
  "requeue_header i p =
     (let pending = sp_pending_header_inv p in
      p\<lparr>sp_in_flight_headers := AList.delete i (sp_in_flight_headers p),
        sp_pending_header_inv := i # (if MAX_PENDING_HEADER_INV \<le> length pending then butlast pending else pending)\<rparr>)"

definition timed_out_headers :: "('b, 'x) sync_env_scheme \<Rightarrow> nat \<Rightarrow> sync_protocol \<Rightarrow> bytes list" where
  "timed_out_headers env now p =
     id_iter env (map fst (filter (\<lambda>(i, requested_at). sp_header_timeout p < now - requested_at) (sp_in_flight_headers p)))"

definition requeue_timed_out_headers :: "('b, 'x) sync_env_scheme \<Rightarrow> nat \<Rightarrow> sync_protocol \<Rightarrow> sync_protocol" where
  "requeue_timed_out_headers env now p = fold requeue_header (timed_out_headers env now p) p"

text \<open>Up to \<open>n\<close> identifiers that are not stored yet, and what is left of the queue.\<close>

fun take_unstored :: "nat \<Rightarrow> bytes list \<Rightarrow> bytes list \<Rightarrow> bytes list \<times> bytes list" where
  "take_unstored n stored [] = ([], [])"
| "take_unstored 0 stored (i # pending) = ([], i # pending)"
| "take_unstored (Suc n) stored (i # pending) =
     (if i \<in> set stored then take_unstored (Suc n) stored pending
      else let (ids, rest) = take_unstored n stored pending in (i # ids, rest))"

definition request_pending_headers :: "('b, 'x) sync_env_scheme \<Rightarrow> nat \<Rightarrow> sync_protocol \<Rightarrow> unit handled" where
  "request_pending_headers env now p =
     (case peers_where env (can_send_request now) p of
        [] \<Rightarrow> (Inr (), p)
      | peer # _ \<Rightarrow>
          let (ids, rest) = take_unstored MAX_REQUEST_SIZE (sp_stored_headers p) (sp_pending_header_inv p);
              p1 = p\<lparr>sp_pending_header_inv := rest\<rparr>
          in if ids = [] then (Inr (), p1)
             else send_to_peer peer (MRequestModifier \<lparr>inv_type_id = modifier_to_byte MT_Header, inv_ids = ids\<rparr>)
                    (update_sync_peer peer (\<lambda>s. s\<lparr>ps_last_request_sent := now\<rparr>) (mark_in_flight now ids p1)))"

definition request_more_headers_if_needed :: "('b, 'x) sync_env_scheme \<Rightarrow> nat \<Rightarrow> sync_protocol \<Rightarrow> unit handled" where
  "request_more_headers_if_needed env now p =
     (let our_height = sy_our_height (sp_synchronizer p); peer_height = best_or_zero (sp_synchronizer p);
          in_flight_count = length (sp_in_flight_headers p)
      in if 300 < in_flight_count then (Inr (), p)
         else
           let p1 = (if pm_by_id (sp_pending_headers p) \<noteq> [] \<and> sp_stored_headers p = [] \<and> hc_headers (sp_header_chain p) = []
                     then p\<lparr>sp_pending_headers := pm_clear (sp_pending_headers p)\<rparr> else p)
           in if sp_pending_header_inv p \<noteq> [] then request_pending_headers env now p1
              else
                let sync_tick = sp_sync_tick p1;
                    p2 = p1\<lparr>sp_sync_tick := sync_tick + 1\<rparr>;
                    should_send_sync = (sp_sync_peers p2 \<noteq> [] \<and>
                      (our_height < peer_height \<or> peer_height = 0 \<or> (in_flight_count = 0 \<and> sync_tick mod 5 = 0)))
                in if \<not> should_send_sync then (Inr (), p2)
                   else (case peers_where env (can_send_sync now) p2 of
                           [] \<Rightarrow> (Inr (), p2)
                         | peer # _ \<Rightarrow>
                             send_to_peer peer (MSyncInfo (build_v2_sync_info env p2))
                               (update_sync_peer peer (\<lambda>s. s\<lparr>ps_last_sync_sent := now\<rparr>) p2)))"

definition on_tick :: "('b, 'x) sync_env_scheme \<Rightarrow> nat \<Rightarrow> sync_protocol \<Rightarrow> unit handled" where
  "on_tick env now p =
     sbind (flush_if_due env now p) (\<lambda>_ p1.
     sbind (dispatch_downloads env now (queue_block_downloads
              (requeue_timed_out_headers env now (fail_timed_out now p1)))) (\<lambda>_ p2.
       request_more_headers_if_needed env now p2))"

fun handle_event :: "('b, 'x) sync_env_scheme \<Rightarrow> nat \<Rightarrow> sync_event \<Rightarrow> sync_protocol \<Rightarrow> unit handled" where
  "handle_event env now (PeerConnected peer) p = on_peer_connected env now peer p"
| "handle_event env now (PeerDisconnected peer) p = (Inr (), on_peer_disconnected peer p)"
| "handle_event env now (SyncInfoReceived peer info) p = on_sync_info env now peer info p"
| "handle_event env now (InvReceived peer iv) p = on_inv now peer iv p"
| "handle_event env now (ModifierReceived peer type_id i data) p = on_modifier env now peer type_id i data p"
| "handle_event env now (BlockApplied block_id height) p = (Inr (), on_block_applied block_id height p)"
| "handle_event env now (BlockFailed block_id err) p = (Inr (), on_block_failed block_id p)"
| "handle_event env now (RequestBlocks headers) p = on_request_blocks env now headers p"
| "handle_event env now Tick p = on_tick env now p"

end
