(* ===== verification/Utxo_Laws.thy ===== *)
theory Utxo_Laws
  imports Utxo
begin

text \<open>
  The laws of the set of unspent boxes: byte formats are read back, a change has exactly the
  effect of the abstract set operation or none, a rollback undoes any sequence of changes, and
  the two places where batches and indexes depart from the abstract set.
\<close>

declare map_of_eq_Some_iff [simp del] Some_eq_map_of_iff [simp del]

subsection \<open>Assumptions on boxes, and the abstract set\<close>

text \<open>The documented behaviour of the box serialiser: parsing what was written gives the box back.\<close>

definition env_ok :: "'b box_env \<Rightarrow> bool" where
  "env_ok env = (\<forall>b bs. sigma_serialize env b = Some bs \<longrightarrow> sigma_parse env bs = Some b)"

definition entry_ok :: "'b box_env \<Rightarrow> 'b box_entry \<Rightarrow> bool" where
  "entry_ok env e =
     (length (be_tx_id e) = 32 \<and> length (be_box_id env e) < 2 ^ 31 \<and>
      (case sigma_serialize env (ergo_box e) of None \<Rightarrow> False | Some bs \<Rightarrow> length bs < 2 ^ 31))"

definition entry_bytes :: "'b box_env \<Rightarrow> 'b box_entry \<Rightarrow> bytes" where
  "entry_bytes env e = res_unwrap_or [] (be_serialize env e)"

definition utxo_wf :: "'b box_env \<Rightarrow> database \<Rightarrow> bool" where
  "utxo_wf env db =
     (\<forall>i bs. db_get db CF_Utxo i = Some bs \<longrightarrow>
        (\<exists>e. entry_ok env e \<and> be_box_id env e = i \<and> bs = entry_bytes env e))"

definition utxo_view :: "'b box_env \<Rightarrow> database \<Rightarrow> bytes \<Rightarrow> 'b box_entry option" where
  "utxo_view env db i = (case get_box env db i of Inr (Some e) \<Rightarrow> Some e | _ \<Rightarrow> None)"

definition change_ok :: "'b box_env \<Rightarrow> 'b state_change \<Rightarrow> bool" where
  "change_ok env ch =
     (list_all (entry_ok env) (sc_created ch) \<and> length (sc_created ch) < 2 ^ 32 \<and> length (sc_spent ch) < 2 ^ 32)"

lemma entry_ok_serialize: "entry_ok env e \<Longrightarrow> be_serialize env e = Inr (entry_bytes env e)"
  by (auto simp: entry_ok_def entry_bytes_def be_serialize_def split: option.splits)

lemma entry_ok_length: "entry_ok env e \<Longrightarrow> length (entry_bytes env e) < 2 ^ 32"
  by (auto simp: entry_ok_def entry_bytes_def be_serialize_def split: option.splits)

lemma entry_roundtrip:
  assumes "env_ok env" "entry_ok env e"
  shows "be_deserialize env (entry_bytes env e) = Inr e"
proof -
  obtain bs where bs: "sigma_serialize env (ergo_box e) = Some bs" "length (be_tx_id e) = 32"
    using assms(2) by (auto simp: entry_ok_def split: option.splits)
  have bytes: "entry_bytes env e =
      be_u32 (be_creation_height e) @ be_tx_id e @ be_u16 (be_output_index e) @ bs"
    by (simp add: entry_bytes_def be_serialize_def bs)
  have parse: "sigma_parse env bs = Some (ergo_box e)"
    using assms(1) bs(1) by (simp add: env_ok_def)
  have drop: "drop 38 (entry_bytes env e) = bs"
    unfolding bytes using bs(2) by simp
  have tx: "subslice (entry_bytes env e) 4 36 = be_tx_id e"
    unfolding bytes subslice_def using bs(2) by simp
  have head: "entry_bytes env e ! 0 = be_u32 (be_creation_height e) ! 0"
      "entry_bytes env e ! 1 = be_u32 (be_creation_height e) ! 1"
      "entry_bytes env e ! 2 = be_u32 (be_creation_height e) ! 2"
      "entry_bytes env e ! 3 = be_u32 (be_creation_height e) ! 3"
    unfolding bytes by (simp_all add: nth_append)
  have tail: "entry_bytes env e ! 36 = be_u16 (be_output_index e) ! 0"
      "entry_bytes env e ! 37 = be_u16 (be_output_index e) ! 1"
    unfolding bytes using bs(2) by (simp_all add: nth_append)
  have "38 \<le> length (entry_bytes env e)"
    unfolding bytes using bs(2) by simp
  then show ?thesis
    unfolding be_deserialize_def drop tx head tail using parse by (simp add: be_u32_def be_u16_def)
qed

lemma utxo_view_get:
  assumes "env_ok env" "utxo_wf env db"
  shows "get_box env db i = Inr (utxo_view env db i)"
  using assms entry_roundtrip [OF assms(1)]
  by (cases "db_get db CF_Utxo i") (force simp: get_box_def utxo_view_def utxo_wf_def)+

lemma utxo_view_Some:
  assumes "env_ok env" "utxo_wf env db"
  shows "utxo_view env db i = Some e \<longleftrightarrow>
    entry_ok env e \<and> be_box_id env e = i \<and> db_get db CF_Utxo i = Some (entry_bytes env e)"
proof (cases "db_get db CF_Utxo i")
  case (Some bs)
  then obtain e' where e': "entry_ok env e'" "be_box_id env e' = i" "bs = entry_bytes env e'"
    using assms(2) by (auto simp: utxo_wf_def)
  have "entry_bytes env e' = entry_bytes env e'' \<Longrightarrow> entry_ok env e'' \<Longrightarrow> e' = e''" for e''
    using entry_roundtrip [OF assms(1)] e'(1) by (metis sum.inject(2))
  then show ?thesis
    using Some e' entry_roundtrip [OF assms(1) e'(1)] by (auto simp: utxo_view_def get_box_def)
qed (simp add: utxo_view_def get_box_def)

lemma utxo_view_None:
  assumes "env_ok env" "utxo_wf env db"
  shows "utxo_view env db i = None \<longleftrightarrow> db_get db CF_Utxo i = None"
proof (cases "db_get db CF_Utxo i")
  case (Some bs)
  then obtain e' where "entry_ok env e'" "bs = entry_bytes env e'"
    using assms(2) by (auto simp: utxo_wf_def)
  then show ?thesis
    using Some entry_roundtrip [OF assms(1)] by (simp add: utxo_view_def get_box_def)
qed (simp add: utxo_view_def get_box_def)

subsection \<open>Undo records are read back\<close>

lemma be_u32_at_pos:
  assumes "at_pos bs p (be_u32 w @ rest)"
  shows "be_u32_at bs p = unat w"
proof -
  have "bs ! p = be_u32 w ! 0" "bs ! (p + 1) = be_u32 w ! 1" "bs ! (p + 2) = be_u32 w ! 2" "bs ! (p + 3) = be_u32 w ! 3"
    using at_pos_nth [OF assms, of 0] at_pos_nth [OF assms, of 1] at_pos_nth [OF assms, of 2] at_pos_nth [OF assms, of 3]
    by (simp_all add: nth_append)
  then show ?thesis
    unfolding be_u32_at_def by (simp add: be_u32_def)
qed

lemma be_u32_read:
  assumes "at_pos bs p (be_u32 w @ rest)"
  shows "from_be_u32 (bs ! p) (bs ! (p + 1)) (bs ! (p + 2)) (bs ! (p + 3)) = w"
  using be_u32_at_pos [OF assms] by (simp only: be_u32_at_def word_unat_eq_iff)

lemma read_item_with_len:
  assumes "at_pos bs p (with_len32 item @ rest)" "length item < 2 ^ 32"
  shows "read_item bs p = Inr (item, p + 4 + length item)"
    and "at_pos bs (p + 4 + length item) rest"
proof -
  have at: "at_pos bs p (be_u32 (of_nat (length item)) @ item @ rest)"
    using assms(1) by (simp add: with_len32_def)
  have len: "be_u32_at bs p = length item"
    using be_u32_at_pos [OF at] assms(2) by (simp add: unat_of_nat)
  have at4: "at_pos bs (p + 4) (item @ rest)"
    using at_pos_append [OF at] by simp
  have bound: "p + 4 + length item \<le> length bs"
    using at_pos_length [OF at4] by simp
  show "read_item bs p = Inr (item, p + 4 + length item)"
    unfolding read_item_def Let_def len using bound at_pos_subslice [OF at4] by simp
  show "at_pos bs (p + 4 + length item) rest"
    using at_pos_append [OF at4] by simp
qed

lemma read_entries_serialized:
  assumes "env_ok env" "list_all (entry_ok env) es"
    and "at_pos bs p (concat (map (\<lambda>e. with_len32 (entry_bytes env e)) es) @ rest)"
  shows "\<exists>q. read_entries env (length es) bs p = Inr (es, q) \<and> at_pos bs q rest"
  using assms(2,3)
proof (induction es arbitrary: p)
  case (Cons e es)
  then have e: "entry_ok env e" and at: "at_pos bs p (with_len32 (entry_bytes env e)
      @ concat (map (\<lambda>e. with_len32 (entry_bytes env e)) es) @ rest)"
    by simp_all
  note item = read_item_with_len [OF at entry_ok_length [OF e]]
  obtain q where "read_entries env (length es) bs (p + 4 + length (entry_bytes env e)) = Inr (es, q)" "at_pos bs q rest"
    using Cons.IH [OF _ item(2)] Cons.prems(1) by auto
  then show ?case
    using item(1) entry_roundtrip [OF assms(1) e] by simp
qed simp

lemma read_ids_serialized:
  assumes "\<forall>i \<in> set ids. length i < 2 ^ 32" "at_pos bs p (concat (map with_len32 ids) @ rest)"
  shows "\<exists>q. read_ids (length ids) bs p = Inr (ids, q)"
  using assms
proof (induction ids arbitrary: p)
  case (Cons i ids)
  then have at: "at_pos bs p (with_len32 i @ concat (map with_len32 ids) @ rest)" and i: "length i < 2 ^ 32"
    by simp_all
  note item = read_item_with_len [OF at i]
  then show ?case
    using Cons.IH [OF _ item(2)] Cons.prems(1) by auto
qed simp

lemma serialize_entries_ok:
  "list_all (entry_ok env) es \<Longrightarrow>
    serialize_entries env es = Inr (concat (map (\<lambda>e. with_len32 (entry_bytes env e)) es))"
  by (induction es) (simp_all add: entry_ok_serialize)

definition undo_ok :: "'b box_env \<Rightarrow> 'b undo_data \<Rightarrow> bool" where
  "undo_ok env u =
     (list_all (entry_ok env) (ud_spent_boxes u) \<and> length (ud_spent_boxes u) < 2 ^ 32 \<and>
      list_all (\<lambda>i. length i < 2 ^ 32) (ud_created_box_ids u) \<and> length (ud_created_box_ids u) < 2 ^ 32)"

lemma undo_serialize_ok: "undo_ok env u \<Longrightarrow> \<exists>bs. undo_serialize env u = Inr bs"
  by (simp add: undo_serialize_def undo_ok_def serialize_entries_ok)

lemma undo_roundtrip:
  assumes "env_ok env" "undo_ok env u" "undo_serialize env u = Inr bs"
  shows "undo_deserialize env bs = Inr u"
proof -
  define spent where "spent = concat (map (\<lambda>e. with_len32 (entry_bytes env e)) (ud_spent_boxes u))"
  define ids where "ids = concat (map with_len32 (ud_created_box_ids u))"
  have ok: "list_all (entry_ok env) (ud_spent_boxes u)" "length (ud_spent_boxes u) < 2 ^ 32"
      "\<forall>i \<in> set (ud_created_box_ids u). length i < 2 ^ 32" "length (ud_created_box_ids u) < 2 ^ 32"
    using assms(2) by (simp_all add: undo_ok_def list_all_iff)
  have bs: "bs = be_u32 (ud_height u) @ be_u32 (of_nat (length (ud_spent_boxes u))) @ spent
      @ be_u32 (of_nat (length (ud_created_box_ids u))) @ ids"
    using assms(3) serialize_entries_ok [OF ok(1)] by (simp add: undo_serialize_def spent_def ids_def)
  have at0: "at_pos bs 0 (be_u32 (ud_height u) @ be_u32 (of_nat (length (ud_spent_boxes u))) @ spent
      @ be_u32 (of_nat (length (ud_created_box_ids u))) @ ids)"
    using at_pos_start [of bs] bs by simp
  have at4: "at_pos bs 4 (be_u32 (of_nat (length (ud_spent_boxes u))) @ spent
      @ be_u32 (of_nat (length (ud_created_box_ids u))) @ ids)"
    using at_pos_append [OF at0] by simp
  have at8: "at_pos bs 8 (spent @ be_u32 (of_nat (length (ud_created_box_ids u))) @ ids)"
    using at_pos_append [OF at4] by simp
  have n_spent: "be_u32_at bs 4 = length (ud_spent_boxes u)"
    using be_u32_at_pos [OF at4] ok(2) by (simp add: unat_of_nat)
  obtain q where q: "read_entries env (length (ud_spent_boxes u)) bs 8 = Inr (ud_spent_boxes u, q)"
      and atq: "at_pos bs q (be_u32 (of_nat (length (ud_created_box_ids u))) @ ids)"
    using read_entries_serialized [OF assms(1) ok(1)] at8 unfolding spent_def by blast
  have n_ids: "be_u32_at bs q = length (ud_created_box_ids u)"
    using be_u32_at_pos [OF atq] ok(4) by (simp add: unat_of_nat)
  have atq4: "at_pos bs (q + 4) (ids @ [])"
    using at_pos_append [OF atq] by simp
  obtain r where r: "read_ids (length (ud_created_box_ids u)) bs (q + 4) = Inr (ud_created_box_ids u, r)"
    using read_ids_serialized [OF ok(3)] atq4 unfolding ids_def by blast
  have "q + 4 \<le> length bs" "12 \<le> length bs"
    using at_pos_length [OF atq] bs by simp_all
  then show ?thesis
    unfolding undo_deserialize_def n_spent using q r n_ids be_u32_read [OF at0] by (simp add: numeral_2_eq_2)
qed

subsection \<open>The loops of a change\<close>

definition index_cf :: "column_family \<Rightarrow> bool" where
  "index_cf cf = (cf = CF_ErgoTreeIndex \<or> cf = CF_TokenIndex)"

lemma index_cf_simps [simp]:
  "index_cf CF_ErgoTreeIndex" "index_cf CF_TokenIndex" "\<not> index_cf CF_Utxo" "\<not> index_cf CF_UndoData"
  "\<not> index_cf CF_Metadata"
  by (simp_all add: index_cf_def)

lemma lookup_remove_from_index:
  "index_cf ix \<Longrightarrow> \<not> index_cf cf \<Longrightarrow> batch_lookup (remove_from_index db ix key i b) cf k = batch_lookup b cf k"
  by (auto simp: remove_from_index_def Let_def)

lemma lookup_add_to_index:
  "index_cf ix \<Longrightarrow> \<not> index_cf cf \<Longrightarrow> batch_lookup (add_to_index db ix key i b) cf k = batch_lookup b cf k"
  by (auto simp: add_to_index_def Let_def)

lemma lookup_unindex_box:
  assumes "\<not> index_cf cf"
  shows "batch_lookup (unindex_box env db b i batch) cf k = batch_lookup batch cf k"
proof -
  have "batch_lookup (fold (\<lambda>t. remove_from_index db CF_TokenIndex t i) ts batch) cf k = batch_lookup batch cf k" for ts batch
    by (induction ts arbitrary: batch) (simp_all add: lookup_remove_from_index assms)
  then show ?thesis
    using assms by (simp add: unindex_box_def lookup_remove_from_index)
qed

lemma lookup_index_box:
  assumes "\<not> index_cf cf"
  shows "batch_lookup (index_box env db b i batch) cf k = batch_lookup batch cf k"
proof -
  have "batch_lookup (fold (\<lambda>t. add_to_index db CF_TokenIndex t i) ts batch) cf k = batch_lookup batch cf k" for ts batch
    by (induction ts arbitrary: batch) (simp_all add: lookup_add_to_index assms)
  then show ?thesis
    using assms by (simp add: index_box_def lookup_add_to_index)
qed

lemma spend_loop_ok:
  assumes "\<forall>i \<in> set ids. lookup i = Inr (Some (f i))"
  shows "\<exists>b'. spend_loop env db lookup skip ids (b, acc) = Inr (b', acc @ map f ids) \<and>
    (\<forall>cf k. \<not> index_cf cf \<longrightarrow>
      batch_lookup b' cf k = (if cf = CF_Utxo \<and> k \<in> set ids then Some None else batch_lookup b cf k))"
  using assms
proof (induction ids arbitrary: b acc)
  case (Cons i ids)
  define b1 where "b1 = batch_delete CF_Utxo i (if skip then b else unindex_box env db (ergo_box (f i)) i b)"
  have b1: "batch_lookup b1 cf k = (if cf = CF_Utxo \<and> k = i then Some None else batch_lookup b cf k)"
    if "\<not> index_cf cf" for cf k
    using that by (simp add: b1_def lookup_unindex_box)
  have "spend_loop env db lookup skip (i # ids) (b, acc) = spend_loop env db lookup skip ids (b1, acc @ [f i])"
    using Cons.prems by (simp add: b1_def)
  then show ?case
    using Cons.IH [of b1 "acc @ [f i]"] Cons.prems by (auto simp: b1)
qed simp

lemma spend_loop_missing:
  assumes "find (\<lambda>i. lookup i = Inr None) ids = Some i" "\<forall>j \<in> set ids. is_ok (lookup j)"
  shows "spend_loop env db lookup skip ids acc = Inl (SE_BoxNotFound (hex_encode i))"
  using assms
proof (induction ids arbitrary: acc)
  case (Cons j ids)
  obtain r where "lookup j = Inr r"
    using Cons.prems(2) by (auto simp: is_ok_iff)
  then show ?case
    using Cons by (cases r) (auto split: if_splits)
qed simp

lemma create_loop_ok:
  assumes "list_all (entry_ok env) es"
  shows "\<exists>b'. create_loop env db skip es (b, acc) = Inr (b', acc @ map (be_box_id env) es) \<and>
    (\<forall>cf k. \<not> index_cf cf \<longrightarrow>
      batch_lookup b' cf k =
        (if cf = CF_Utxo
         then case map_of (rev (map (\<lambda>e. (be_box_id env e, entry_bytes env e)) es)) k of
                Some v \<Rightarrow> Some (Some v) | None \<Rightarrow> batch_lookup b cf k
         else batch_lookup b cf k))"
  using assms
proof (induction es arbitrary: b acc)
  case (Cons e es)
  define b1 where "b1 = batch_put CF_Utxo (be_box_id env e) (entry_bytes env e)
    (if skip then b else index_box env db (ergo_box e) (be_box_id env e) b)"
  have b1: "batch_lookup b1 cf k =
      (if cf = CF_Utxo \<and> k = be_box_id env e then Some (Some (entry_bytes env e)) else batch_lookup b cf k)"
    if "\<not> index_cf cf" for cf k
    using that by (simp add: b1_def lookup_index_box)
  have "create_loop env db skip (e # es) (b, acc) = create_loop env db skip es (b1, acc @ [be_box_id env e])"
    using Cons.prems by (simp add: b1_def Let_def entry_ok_serialize)
  then show ?case
    using Cons.IH [of b1 "acc @ [be_box_id env e]"] Cons.prems
    by (auto simp: b1 map_add_Some_iff map_add_def split: option.split)
qed simp

subsection \<open>The effect of a change\<close>

definition created_bytes :: "'b box_env \<Rightarrow> 'b state_change \<Rightarrow> bytes \<Rightarrow> bytes option" where
  "created_bytes env ch = map_of (rev (map (\<lambda>e. (be_box_id env e, entry_bytes env e)) (sc_created ch)))"

lemma created_bytes_eq: "created_bytes env ch i = map_option (entry_bytes env) (created_in_block env ch i)"
proof -
  have "rev (map (\<lambda>e. (be_box_id env e, entry_bytes env e)) es) =
      map (map_prod id (entry_bytes env)) (rev (map (\<lambda>e. (be_box_id env e, e)) es))" for es
    by (simp add: rev_map)
  moreover have "map_of (map (map_prod id f) xs) i = map_option f (map_of xs i)" for f :: "'b box_entry \<Rightarrow> bytes" and xs
    by (induction xs) auto
  ultimately show ?thesis
    by (simp only: created_bytes_def created_in_block_def)
qed

lemma created_in_blockD:
  assumes "created_in_block env ch i = Some e"
  shows "e \<in> set (sc_created ch)" "be_box_id env e = i"
  using map_of_SomeD [OF assms [unfolded created_in_block_def]] by auto

lemma created_in_block_None:
  "created_in_block env ch i = None \<longleftrightarrow> (\<forall>e \<in> set (sc_created ch). be_box_id env e \<noteq> i)"
  by (force simp: created_in_block_def map_of_eq_None_iff)

definition change_undo :: "'b box_env \<Rightarrow> (bytes \<Rightarrow> 'b box_entry) \<Rightarrow> 'b state_change \<Rightarrow> u32 \<Rightarrow> 'b undo_data" where
  "change_undo env f ch h =
     \<lparr>ud_height = h, ud_spent_boxes = map f (sc_spent ch), ud_created_box_ids = map (be_box_id env) (sc_created ch)\<rparr>"

lemma change_undo_ok:
  assumes "change_ok env ch" "\<forall>i \<in> set (sc_spent ch). entry_ok env (f i)"
  shows "undo_ok env (change_undo env f ch h)"
  using assms by (auto simp: undo_ok_def change_undo_def change_ok_def list_all_iff entry_ok_def)

text \<open>What a change writes under each key, the indexes aside.\<close>

definition change_writes ::
  "'b box_env \<Rightarrow> 'b state_change \<Rightarrow> u32 \<Rightarrow> bytes \<Rightarrow> column_family \<Rightarrow> bytes \<Rightarrow> bytes option option" where
  "change_writes env ch h undo_bytes cf k =
     (if cf = CF_Utxo
      then case created_bytes env ch k of
             Some v \<Rightarrow> Some (Some v) | None \<Rightarrow> if k \<in> set (sc_spent ch) then Some None else None
      else if cf = CF_UndoData \<and> k = be_u32 h then Some (Some undo_bytes)
      else if cf = CF_Metadata \<and> k = bstr ''utxo_height'' then Some (Some (be_u32 h))
      else None)"

lemma add_change_ok:
  assumes "change_ok env ch" "\<forall>i \<in> set (sc_spent ch). lookup i = Inr (Some (f i)) \<and> entry_ok env (f i)"
  shows "\<exists>b' undo_bytes. add_change env db lookup skip ch h b = Inr b' \<and>
    undo_serialize env (change_undo env f ch h) = Inr undo_bytes \<and>
    (\<forall>cf k. \<not> index_cf cf \<longrightarrow>
      batch_lookup b' cf k =
        (case change_writes env ch h undo_bytes cf k of Some r \<Rightarrow> Some r | None \<Rightarrow> batch_lookup b cf k))"
proof -
  obtain b1 where b1: "spend_loop env db lookup skip (sc_spent ch) (b, []) = Inr (b1, map f (sc_spent ch))"
    "\<And>cf k. \<not> index_cf cf \<Longrightarrow>
      batch_lookup b1 cf k = (if cf = CF_Utxo \<and> k \<in> set (sc_spent ch) then Some None else batch_lookup b cf k)"
    using spend_loop_ok [of "sc_spent ch" lookup f env db skip b "[]"] assms(2) by auto
  obtain b2 where b2: "create_loop env db skip (sc_created ch) (b1, []) = Inr (b2, map (be_box_id env) (sc_created ch))"
    "\<And>cf k. \<not> index_cf cf \<Longrightarrow>
      batch_lookup b2 cf k =
        (if cf = CF_Utxo
         then case created_bytes env ch k of Some v \<Rightarrow> Some (Some v) | None \<Rightarrow> batch_lookup b1 cf k
         else batch_lookup b1 cf k)"
    using create_loop_ok [of env "sc_created ch" db skip b1 "[]"] assms(1)
    unfolding created_bytes_def change_ok_def by auto
  obtain ub where ub: "undo_serialize env (change_undo env f ch h) = Inr ub"
    using undo_serialize_ok [OF change_undo_ok [OF assms(1), of f]] assms(2) by blast
  define b3 where "b3 = batch_put CF_Metadata (bstr ''utxo_height'') (be_u32 h) (batch_put CF_UndoData (be_u32 h) ub b2)"
  have "add_change env db lookup skip ch h b = Inr b3"
    using b1(1) b2(1) ub by (simp add: add_change_def change_undo_def b3_def)
  moreover have "batch_lookup b3 cf k =
      (case change_writes env ch h ub cf k of Some r \<Rightarrow> Some r | None \<Rightarrow> batch_lookup b cf k)" if "\<not> index_cf cf" for cf k
    by (simp add: b3_def change_writes_def b1(2) b2(2) that split: option.split)
  ultimately show ?thesis
    using ub by blast
qed

lemma change_writes_simps:
  "change_writes env ch h ub CF_Utxo k =
    (case created_bytes env ch k of
       Some v \<Rightarrow> Some (Some v) | None \<Rightarrow> if k \<in> set (sc_spent ch) then Some None else None)"
  "change_writes env ch h ub CF_UndoData k = (if k = be_u32 h then Some (Some ub) else None)"
  by (simp_all add: change_writes_def)

lemma add_change_missing:
  assumes "find (\<lambda>i. lookup i = Inr None) (sc_spent ch) = Some i" "\<forall>j \<in> set (sc_spent ch). is_ok (lookup j)"
  shows "add_change env db lookup skip ch h b = Inl (SE_BoxNotFound (hex_encode i))"
  using spend_loop_missing [OF assms] by (simp add: add_change_def)

text \<open>The abstract operation on the set: remove the spent boxes, then add the created ones.\<close>

definition spec_apply :: "'b box_env \<Rightarrow> 'b state_change \<Rightarrow> (bytes \<rightharpoonup> 'b box_entry) \<Rightarrow> bytes \<rightharpoonup> 'b box_entry" where
  "spec_apply env ch m = (m |` (- set (sc_spent ch))) ++ created_in_block env ch"

text \<open>A database whose boxes are those of \<open>m\<close>.\<close>

definition holds_boxes :: "'b box_env \<Rightarrow> database \<Rightarrow> (bytes \<rightharpoonup> 'b box_entry) \<Rightarrow> bool" where
  "holds_boxes env db m =
     ((\<forall>i e. m i = Some e \<longrightarrow> entry_ok env e \<and> be_box_id env e = i) \<and>
      (\<forall>i. db_get db CF_Utxo i = map_option (entry_bytes env) (m i)))"

lemma holds_boxes_view:
  assumes "env_ok env" "holds_boxes env db m"
  shows "utxo_wf env db" "utxo_view env db = m"
proof -
  show wf: "utxo_wf env db"
    unfolding utxo_wf_def
  proof (intro allI impI)
    fix i bs
    assume "db_get db CF_Utxo i = Some bs"
    then obtain e where "m i = Some e" "bs = entry_bytes env e"
      using assms(2) by (auto simp: holds_boxes_def)
    then show "\<exists>e. entry_ok env e \<and> be_box_id env e = i \<and> bs = entry_bytes env e"
      using assms(2) unfolding holds_boxes_def by blast
  qed
  show "utxo_view env db = m"
  proof
    fix i
    show "utxo_view env db i = m i"
      using assms(2) utxo_view_Some [OF assms(1) wf, of i] utxo_view_None [OF assms(1) wf, of i]
      by (cases "m i") (simp_all add: holds_boxes_def)
  qed
qed

lemma view_holds_boxes:
  assumes "env_ok env" "utxo_wf env db"
  shows "holds_boxes env db (utxo_view env db)"
proof -
  have "db_get db CF_Utxo i = map_option (entry_bytes env) (utxo_view env db i)" for i
    using utxo_view_Some [OF assms, of i] utxo_view_None [OF assms, of i] by (cases "utxo_view env db i") auto
  moreover have "entry_ok env e \<and> be_box_id env e = i" if "utxo_view env db i = Some e" for i e
    using that utxo_view_Some [OF assms, of i e] by blast
  ultimately show ?thesis
    unfolding holds_boxes_def by blast
qed

lemma holds_boxes_spec_apply:
  assumes "holds_boxes env db m" "change_ok env ch"
    and "\<And>i. db_get db' CF_Utxo i =
      (case change_writes env ch h ub CF_Utxo i of Some r \<Rightarrow> r | None \<Rightarrow> db_get db CF_Utxo i)"
  shows "holds_boxes env db' (spec_apply env ch m)"
proof -
  have "entry_ok env e \<and> be_box_id env e = i" if "spec_apply env ch m i = Some e" for i e
  proof (cases "created_in_block env ch i")
    case None
    then have "m i = Some e"
      using that by (simp add: spec_apply_def map_add_def restrict_map_def split: if_splits)
    then show ?thesis
      using assms(1) by (simp add: holds_boxes_def)
  next
    case (Some e')
    then show ?thesis
      using that created_in_blockD [OF Some] assms(2) by (auto simp: spec_apply_def change_ok_def list_all_iff)
  qed
  moreover have "db_get db' CF_Utxo i = map_option (entry_bytes env) (spec_apply env ch m i)" for i
    using assms(1) unfolding assms(3)
    by (cases "created_in_block env ch i")
       (simp_all add: spec_apply_def holds_boxes_def created_bytes_eq map_add_def restrict_map_def change_writes_simps)
  ultimately show ?thesis
    by (simp add: holds_boxes_def)
qed

text \<open>One successful application, at the level of the database.\<close>

lemma apply_change_ok:
  assumes "env_ok env" "holds_boxes env db m" "change_ok env ch" "set (sc_spent ch) \<subseteq> dom m"
  shows "\<exists>db' undo_bytes. apply_change env ch h (db, us) = (Inr (), db', us\<lparr>us_height := h\<rparr>) \<and>
    holds_boxes env db' (spec_apply env ch m) \<and>
    undo_serialize env (change_undo env (the \<circ> m) ch h) = Inr undo_bytes \<and>
    db_get db' CF_UndoData = (db_get db CF_UndoData)(be_u32 h \<mapsto> undo_bytes)"
proof -
  have found: "get_box env db i = Inr (m i)" for i
    using utxo_view_get [OF assms(1) holds_boxes_view(1) [OF assms(1,2)]] holds_boxes_view(2) [OF assms(1,2)] by simp
  have "\<forall>i \<in> set (sc_spent ch). get_box env db i = Inr (Some ((the \<circ> m) i)) \<and> entry_ok env ((the \<circ> m) i)"
    using assms(2,4) by (force simp: found holds_boxes_def)
  from add_change_ok [OF assms(3) this, of db "us_sync_mode us" h batch_new]
  obtain b ub where b: "add_change env db (get_box env db) (us_sync_mode us) ch h batch_new = Inr b"
    and ub: "undo_serialize env (change_undo env (the \<circ> m) ch h) = Inr ub"
    and lk: "\<forall>cf k. \<not> index_cf cf \<longrightarrow> batch_lookup b cf k =
      (case change_writes env ch h ub cf k of Some r \<Rightarrow> Some r | None \<Rightarrow> batch_lookup batch_new cf k)"
    by blast
  have get: "db_get (db_write_batch b db) cf k =
      (case change_writes env ch h ub cf k of Some r \<Rightarrow> r | None \<Rightarrow> db_get db cf k)" if "\<not> index_cf cf" for cf k
    using lk that by (simp add: db_get_write_batch split: option.split)
  have "holds_boxes env (db_write_batch b db) (spec_apply env ch m)"
    by (rule holds_boxes_spec_apply [OF assms(2,3)]) (simp add: get)
  moreover have "db_get (db_write_batch b db) CF_UndoData = (db_get db CF_UndoData)(be_u32 h \<mapsto> ub)"
    by (rule ext) (simp add: get change_writes_simps)
  ultimately show ?thesis
    using b ub by (simp add: apply_change_def)
qed

subsection \<open>Rollback\<close>

definition reverse_change :: "'b box_env \<Rightarrow> (bytes \<rightharpoonup> 'b box_entry) \<Rightarrow> 'b state_change \<Rightarrow> 'b state_change" where
  "reverse_change env m ch =
     \<lparr>sc_created = map (the \<circ> m) (sc_spent ch), sc_spent = map (be_box_id env) (sc_created ch)\<rparr>"

definition fresh_change :: "'b box_env \<Rightarrow> (bytes \<rightharpoonup> 'b box_entry) \<Rightarrow> 'b state_change \<Rightarrow> bool" where
  "fresh_change env m ch =
     (set (sc_spent ch) \<subseteq> dom m \<and> (\<forall>e \<in> set (sc_created ch). be_box_id env e \<notin> dom m))"

lemma reverse_change_sel [simp]:
  "sc_spent (reverse_change env m ch) = map (be_box_id env) (sc_created ch)"
  "sc_created (reverse_change env m ch) = map (the \<circ> m) (sc_spent ch)"
  by (simp_all add: reverse_change_def)

lemma created_in_reverse:
  assumes "\<forall>i e. m i = Some e \<longrightarrow> be_box_id env e = i" "set (sc_spent ch) \<subseteq> dom m"
  shows "created_in_block env (reverse_change env m ch) i = (if i \<in> set (sc_spent ch) then m i else None)"
proof -
  have "map_of (map (\<lambda>i. (be_box_id env (the (m i)), the (m i))) is) i = (if i \<in> set is then m i else None)"
    if "set is \<subseteq> dom m" for "is"
    using that assms(1) by (induction "is") auto
  from this [of "rev (sc_spent ch)"] show ?thesis
    using assms(2) by (simp add: created_in_block_def reverse_change_def rev_map comp_def)
qed

lemma spec_apply_reverse:
  assumes "\<forall>i e. m i = Some e \<longrightarrow> be_box_id env e = i" "fresh_change env m ch"
  shows "spec_apply env (reverse_change env m ch) (spec_apply env ch m) = m"
proof
  fix i
  have spent: "set (sc_spent ch) \<subseteq> dom m"
    using assms(2) by (simp add: fresh_change_def)
  show "spec_apply env (reverse_change env m ch) (spec_apply env ch m) i = m i"
  proof (cases "i \<in> set (sc_spent ch)")
    case True
    then obtain e where "m i = Some e"
      using spent by auto
    then show ?thesis
      using True by (simp add: spec_apply_def map_add_def created_in_reverse [OF assms(1) spent])
  next
    case False
    have "m i = None" if "i \<in> be_box_id env ` set (sc_created ch)"
      using that assms(2) by (auto simp: fresh_change_def domIff)
    moreover have "created_in_block env ch i = None" if "i \<notin> be_box_id env ` set (sc_created ch)"
      using that by (auto simp: created_in_block_None)
    ultimately show ?thesis
      using False by (cases "i \<in> be_box_id env ` set (sc_created ch)")
        (simp_all add: spec_apply_def map_add_def restrict_map_def created_in_reverse [OF assms(1) spent])
  qed
qed

lemma unmake_loop_ok:
  assumes "\<forall>i \<in> set ids. is_ok (get_box env db i)"
  shows "\<exists>b'. unmake_loop env db ids b = Inr b' \<and>
    (\<forall>cf k. \<not> index_cf cf \<longrightarrow>
      batch_lookup b' cf k = (if cf = CF_Utxo \<and> k \<in> set ids then Some None else batch_lookup b cf k))"
  using assms
proof (induction ids arbitrary: b)
  case (Cons i ids)
  obtain r where r: "get_box env db i = Inr r"
    using Cons.prems by (auto simp: is_ok_iff)
  define b1 where
    "b1 = batch_delete CF_Utxo i (case r of None \<Rightarrow> b | Some e \<Rightarrow> unindex_box env db (ergo_box e) i b)"
  have b1: "batch_lookup b1 cf k = (if cf = CF_Utxo \<and> k = i then Some None else batch_lookup b cf k)"
    if "\<not> index_cf cf" for cf k
    using that by (simp add: b1_def lookup_unindex_box split: option.split)
  have "unmake_loop env db (i # ids) b = unmake_loop env db ids b1"
    by (simp add: r b1_def Let_def)
  then show ?case
    using Cons.IH [of b1] Cons.prems by (auto simp: b1)
qed simp

lemma rollback_one_block_ok:
  assumes "env_ok env" "holds_boxes env d (spec_apply env ch m)" "change_ok env ch" "fresh_change env m ch"
    and m: "\<forall>i e. m i = Some e \<longrightarrow> entry_ok env e \<and> be_box_id env e = i"
    and ub: "undo_serialize env (change_undo env (the \<circ> m) ch h) = Inr ub" "db_get d CF_UndoData (be_u32 h) = Some ub"
  shows "\<exists>d'. rollback_one_block env h d = (Inr (), d') \<and> holds_boxes env d' m \<and>
    db_get d' CF_UndoData = (db_get d CF_UndoData)(be_u32 h := None)"
proof -
  define rch where "rch = reverse_change env m ch"
  have spent_ok: "\<forall>i \<in> set (sc_spent ch). entry_ok env ((the \<circ> m) i)"
    using assms(4) m by (force simp: fresh_change_def)
  have rch_ok: "list_all (entry_ok env) (sc_created rch)" "sc_created rch = map (the \<circ> m) (sc_spent ch)"
      "sc_spent rch = map (be_box_id env) (sc_created ch)"
    using spent_ok by (auto simp: rch_def list_all_iff)
  have undo: "undo_deserialize env ub = Inr (change_undo env (the \<circ> m) ch h)"
    using undo_roundtrip [OF assms(1) change_undo_ok [OF assms(3) spent_ok] ub(1)] .
  have "\<forall>i \<in> set (sc_spent rch). is_ok (get_box env d i)"
    using utxo_view_get [OF assms(1) holds_boxes_view(1) [OF assms(1,2)]] by simp
  from unmake_loop_ok [OF this, of batch_new]
  obtain b1 where b1: "unmake_loop env d (sc_spent rch) batch_new = Inr b1"
    "\<And>cf k. \<not> index_cf cf \<Longrightarrow> batch_lookup b1 cf k = (if cf = CF_Utxo \<and> k \<in> set (sc_spent rch) then Some None else None)"
    by auto
  from create_loop_ok [OF rch_ok(1), of d False b1 "[]"]
  obtain b2 where b2: "create_loop env d False (sc_created rch) (b1, []) = Inr (b2, map (be_box_id env) (sc_created rch))"
    "\<And>cf k. \<not> index_cf cf \<Longrightarrow> batch_lookup b2 cf k =
      (if cf = CF_Utxo then case created_bytes env rch k of Some v \<Rightarrow> Some (Some v) | None \<Rightarrow> batch_lookup b1 cf k
       else batch_lookup b1 cf k)"
    unfolding created_bytes_def by auto
  define d' where "d' = db_write_batch (batch_delete CF_UndoData (be_u32 h) b2) d"
  have "rollback_one_block env h d = (Inr (), d')"
    using b1(1) b2(1) ub(2) undo by (simp add: rollback_one_block_def change_undo_def rch_ok(2,3) d'_def)
  moreover have "holds_boxes env d' (spec_apply env rch (spec_apply env ch m))"
  proof (rule holds_boxes_spec_apply [OF assms(2)])
    show "change_ok env rch"
      using rch_ok assms(3) by (simp add: change_ok_def)
    show "db_get d' CF_Utxo i = (case change_writes env rch h ub CF_Utxo i of Some r \<Rightarrow> r | None \<Rightarrow> db_get d CF_Utxo i)" for i
      by (simp add: d'_def db_get_write_batch change_writes_simps b1(2) b2(2) split: option.split)
  qed
  moreover have "db_get d' CF_UndoData = (db_get d CF_UndoData)(be_u32 h := None)"
    by (rule ext) (simp add: d'_def db_get_write_batch b1(2) b2(2))
  moreover have "spec_apply env rch (spec_apply env ch m) = m"
    unfolding rch_def using spec_apply_reverse [OF _ assms(4)] m by blast
  ultimately show ?thesis
    by auto
qed

text \<open>Applying the changes of consecutive blocks; the height is that of the last block applied.\<close>

primrec apply_changes ::
  "'b box_env \<Rightarrow> 'b state_change list \<Rightarrow> database \<times> utxo_state \<Rightarrow> (state_error + unit) \<times> database \<times> utxo_state" where
  "apply_changes env [] st = (Inr (), st)"
| "apply_changes env (ch # chs) st =
     (case apply_change env ch (us_height (snd st) + 1) st of
        (Inl e, st1) \<Rightarrow> (Inl e, st1)
      | (Inr _, st1) \<Rightarrow> apply_changes env chs st1)"

primrec fresh_changes :: "'b box_env \<Rightarrow> 'b state_change list \<Rightarrow> (bytes \<rightharpoonup> 'b box_entry) \<Rightarrow> bool" where
  "fresh_changes env [] m = True"
| "fresh_changes env (ch # chs) m =
     (change_ok env ch \<and> fresh_change env m ch \<and> fresh_changes env chs (spec_apply env ch m))"

lemma be_u32_inj: "be_u32 a = be_u32 b \<longleftrightarrow> a = b"
proof
  assume "be_u32 a = be_u32 b"
  then have "be_u32_at (be_u32 a) 0 = be_u32_at (be_u32 b) 0"
    by simp
  then show "a = b"
    using be_u32_at_pos [of "be_u32 a" 0 a "[]", simplified, OF at_pos_start]
      be_u32_at_pos [of "be_u32 b" 0 b "[]", simplified, OF at_pos_start]
    by (simp add: word_unat_eq_iff)
qed simp

lemma rollback_loop_add:
  assumes "rollback_loop env n h d = (Inr (), d1)"
  shows "rollback_loop env (n + k) h d = rollback_loop env k (h - of_nat n) d1"
  using assms
proof (induction n arbitrary: h d)
  case (Suc n)
  then obtain d2 where d2: "rollback_one_block env h d = (Inr (), d2)" "rollback_loop env n (h - 1) d2 = (Inr (), d1)"
    by (cases "rollback_one_block env h d") (auto split: sum.splits)
  then show ?case
    using Suc.IH [OF d2(2)] d2(1) by (simp add: diff_diff_eq)
qed simp

lemma apply_changes_rollback:
  assumes "env_ok env" "holds_boxes env db m" "fresh_changes env chs m" "unat (us_height us) + length chs < 2 ^ 32"
  shows "\<exists>db' d'. apply_changes env chs (db, us) = (Inr (), db', us\<lparr>us_height := us_height us + of_nat (length chs)\<rparr>) \<and>
    holds_boxes env db' (fold (spec_apply env) chs m) \<and>
    rollback_loop env (length chs) (us_height us + of_nat (length chs)) db' = (Inr (), d') \<and>
    holds_boxes env d' m \<and>
    (\<forall>h. h \<le> us_height us \<longrightarrow> db_get d' CF_UndoData (be_u32 h) = db_get db CF_UndoData (be_u32 h))"
  using assms(2-)
proof (induction chs arbitrary: db us m)
  case Nil
  then show ?case
    by simp
next
  case (Cons ch chs)
  define h1 where "h1 = us_height us + 1"
  define us1 where "us1 = us\<lparr>us_height := h1\<rparr>"
  have bound: "unat (us_height us) + Suc (length chs) < 2 ^ 32"
    using Cons.prems(3) by simp
  have h1: "unat h1 = unat (us_height us) + 1"
    using bound by (simp add: h1_def unat_word_ariths)
  have ok: "change_ok env ch" "fresh_change env m ch" "fresh_changes env chs (spec_apply env ch m)"
    using Cons.prems(2) by simp_all
  have m_ok: "\<forall>i e. m i = Some e \<longrightarrow> entry_ok env e \<and> be_box_id env e = i"
    using Cons.prems(1) by (simp add: holds_boxes_def)
  have "set (sc_spent ch) \<subseteq> dom m"
    using ok(2) by (simp add: fresh_change_def)
  from apply_change_ok [OF assms(1) Cons.prems(1) ok(1) this, of h1 us]
  obtain db1 ub where db1: "apply_change env ch h1 (db, us) = (Inr (), db1, us1)"
      "holds_boxes env db1 (spec_apply env ch m)"
    and ub: "undo_serialize env (change_undo env (the \<circ> m) ch h1) = Inr ub"
      "db_get db1 CF_UndoData = (db_get db CF_UndoData)(be_u32 h1 \<mapsto> ub)"
    unfolding us1_def by blast
  have "unat (us_height us1) + length chs < 2 ^ 32"
    using bound h1 by (simp add: us1_def)
  from Cons.IH [OF db1(2) ok(3) this]
  obtain db' d1 where run: "apply_changes env chs (db1, us1) = (Inr (), db', us1\<lparr>us_height := h1 + of_nat (length chs)\<rparr>)"
      "holds_boxes env db' (fold (spec_apply env) chs (spec_apply env ch m))"
      "rollback_loop env (length chs) (h1 + of_nat (length chs)) db' = (Inr (), d1)"
      "holds_boxes env d1 (spec_apply env ch m)"
      "\<forall>h \<le> h1. db_get d1 CF_UndoData (be_u32 h) = db_get db1 CF_UndoData (be_u32 h)"
    by (auto simp: us1_def)
  have "db_get d1 CF_UndoData (be_u32 h1) = Some ub"
    using run(5) ub(2) by simp
  from rollback_one_block_ok [OF assms(1) run(4) ok(1,2) m_ok ub(1) this]
  obtain d' where d': "rollback_one_block env h1 d1 = (Inr (), d')" "holds_boxes env d' m"
      "db_get d' CF_UndoData = (db_get d1 CF_UndoData)(be_u32 h1 := None)"
    by blast
  have top: "us_height us + of_nat (length (ch # chs)) = h1 + of_nat (length chs)"
    by (simp add: h1_def)
  have "rollback_loop env (length chs + 1) (h1 + of_nat (length chs)) db' = (Inr (), d')"
    using rollback_loop_add [OF run(3), of 1] d'(1) by simp
  moreover have "db_get d' CF_UndoData (be_u32 h) = db_get db CF_UndoData (be_u32 h)" if "h \<le> us_height us" for h
  proof -
    have "h \<noteq> h1" "h \<le> h1"
      using that h1 by (auto simp: word_le_nat_alt)
    then show ?thesis
      using run(5) ub(2) d'(3) by (simp add: be_u32_inj)
  qed
  ultimately show ?case
    using db1(1) run(1,2) d'(2) unfolding top by (simp add: h1_def us1_def)
qed

subsection \<open>Claims\<close>

text \<open>C2: applying a change implements the abstract set operation. If every spent box is in the set, the
  call succeeds, removes the spent boxes, adds the created ones and records the new height;
  otherwise it reports the first missing box and changes nothing.\<close>

theorem apply_change_refines:
  assumes "env_ok env" "utxo_wf env db" "change_ok env ch"
  shows "case find (\<lambda>i. utxo_view env db i = None) (sc_spent ch) of
      Some i \<Rightarrow> apply_change env ch h (db, us) = (Inl (SE_BoxNotFound (hex_encode i)), db, us)
    | None \<Rightarrow> \<exists>db'. apply_change env ch h (db, us) = (Inr (), db', us\<lparr>us_height := h\<rparr>)
        \<and> utxo_wf env db' \<and> utxo_view env db' = spec_apply env ch (utxo_view env db)"
proof (cases "find (\<lambda>i. utxo_view env db i = None) (sc_spent ch)")
  case None
  then have "set (sc_spent ch) \<subseteq> dom (utxo_view env db)"
    by (auto simp: find_None_iff)
  from apply_change_ok [OF assms(1) view_holds_boxes [OF assms(1,2)] assms(3) this, of h us] show ?thesis
    using None holds_boxes_view [OF assms(1)] by fastforce
next
  case (Some i)
  have "find (\<lambda>i. get_box env db i = Inr None) (sc_spent ch) = Some i"
    using Some by (simp add: utxo_view_get [OF assms(1,2)])
  then have "add_change env db (get_box env db) (us_sync_mode us) ch h batch_new = Inl (SE_BoxNotFound (hex_encode i))"
    by (rule add_change_missing) (simp add: utxo_view_get [OF assms(1,2)])
  then show ?thesis
    using Some by (simp add: apply_change_def)
qed

text \<open>Boxes that are their own bytes, for the examples: a box is its identifier followed by its script.\<close>

definition plain_env :: "bytes box_env" where
  "plain_env = \<lparr>sigma_serialize = Some, sigma_parse = Some, box_id_of = (\<lambda>b. take 1 b),
     tree_serialize = (\<lambda>b. Some (drop 1 b)), box_tokens = (\<lambda>_. []), blake2b256 = id\<rparr>"

definition plain_entry :: "bytes \<Rightarrow> bytes box_entry" where
  "plain_entry b = \<lparr>ergo_box = b, be_creation_height = 1, be_tx_id = replicate 32 0, be_output_index = 0\<rparr>"

lemma plain_env_ok: "env_ok plain_env"
  by (simp add: env_ok_def plain_env_def)

lemma plain_entry_ok: "length b < 2 ^ 31 \<Longrightarrow> entry_ok plain_env (plain_entry b)"
  by (simp add: entry_ok_def plain_entry_def plain_env_def be_box_id_def)

lemma utxo_wf_empty: "utxo_wf env db_empty"
  by (simp add: utxo_wf_def db_empty_def db_get_def)

lemma utxo_view_empty: "utxo_view env db_empty = (\<lambda>_. None)"
  by (simp add: utxo_view_def get_box_def db_empty_def db_get_def fun_eq_iff)

theorem apply_change_refines_witness:
  "\<exists>db'. apply_change plain_env \<lparr>sc_created = [plain_entry [7, 1]], sc_spent = []\<rparr> 1 (db_empty, utxo_new)
       = (Inr (), db', utxo_new\<lparr>us_height := 1\<rparr>) \<and> utxo_view plain_env db' [7] = Some (plain_entry [7, 1])"
  using apply_change_refines [OF plain_env_ok utxo_wf_empty, of "\<lparr>sc_created = [plain_entry [7, 1]], sc_spent = []\<rparr>" 1 utxo_new]
    plain_entry_ok [of "[7, 1]"]
  by (auto simp: change_ok_def spec_apply_def created_in_block_def be_box_id_def plain_env_def plain_entry_def)

text \<open>C3: rolling back undoes any sequence of blocks: after the changes of consecutive blocks, each of
  which spends boxes that exist and creates boxes that do not, a rollback to the height before
  them succeeds and restores the set of boxes and the height.\<close>

theorem rollback_restores:
  assumes "env_ok env" "utxo_wf env db" "fresh_changes env chs (utxo_view env db)" "chs \<noteq> []"
    and "unat (us_height us) + length chs < 2 ^ 32"
  shows "\<exists>st'. apply_changes env chs (db, us) = (Inr (), st') \<and>
    (\<exists>db''. utxo_rollback env (us_height us) st' = (Inr (), db'', us)
      \<and> utxo_wf env db'' \<and> utxo_view env db'' = utxo_view env db)"
proof -
  obtain db' d' where run: "apply_changes env chs (db, us) = (Inr (), db', us\<lparr>us_height := us_height us + of_nat (length chs)\<rparr>)"
      "rollback_loop env (length chs) (us_height us + of_nat (length chs)) db' = (Inr (), d')"
      "holds_boxes env d' (utxo_view env db)"
    using apply_changes_rollback [OF assms(1) view_holds_boxes [OF assms(1,2)] assms(3,5)] by blast
  define top where "top = us_height us + of_nat (length chs)"
  define b where "b = batch_put CF_Metadata (bstr ''utxo_height'') (be_u32 (us_height us)) batch_new"
  have top: "unat top = unat (us_height us) + length chs"
    using assms(5) by (simp add: top_def unat_word_ariths unat_of_nat)
  have "\<not> top \<le> us_height us"
    using top assms(4) by (simp add: word_le_nat_alt)
  then have "utxo_rollback env (us_height us) (db', us\<lparr>us_height := top\<rparr>) = (Inr (), db_write_batch b d', us)"
    using run(2) top by (simp add: utxo_rollback_def Let_def top_def [symmetric] b_def)
  moreover have "holds_boxes env (db_write_batch b d') (utxo_view env db)"
    using run(3) by (simp add: holds_boxes_def b_def db_get_write_batch)
  then have "utxo_wf env (db_write_batch b d')" "utxo_view env (db_write_batch b d') = utxo_view env db"
    using holds_boxes_view [OF assms(1)] by blast+
  ultimately show ?thesis
    using run(1) by (auto simp: top_def)
qed

theorem rollback_restores_witness:
  "\<exists>st' db''. apply_changes plain_env [\<lparr>sc_created = [plain_entry [7, 1]], sc_spent = []\<rparr>,
       \<lparr>sc_created = [plain_entry [8, 1]], sc_spent = [[7]]\<rparr>] (db_empty, utxo_new) = (Inr (), st')
     \<and> utxo_rollback plain_env 0 st' = (Inr (), db'', utxo_new) \<and> utxo_view plain_env db'' [7] = None"
proof -
  have "fresh_changes plain_env [\<lparr>sc_created = [plain_entry [7, 1]], sc_spent = []\<rparr>,
       \<lparr>sc_created = [plain_entry [8, 1]], sc_spent = [[7]]\<rparr>] (utxo_view plain_env db_empty)"
    using plain_entry_ok [of "[7, 1]"] plain_entry_ok [of "[8, 1]"]
    by (simp add: utxo_view_empty change_ok_def fresh_change_def spec_apply_def created_in_block_def be_box_id_def
      plain_env_def plain_entry_def)
  from rollback_restores [OF plain_env_ok utxo_wf_empty this, of utxo_new] show ?thesis
    by (fastforce simp: utxo_new_def utxo_view_empty)
qed

text \<open>A box that a block creates and also spends stays in the set: the batched application deletes
  the spent boxes first and then writes all created ones, so after the batch the box is there
  as if it had not been spent.\<close>

theorem spent_in_same_block_survives:
  assumes "env_ok env" "change_ok env ch" "created_in_block env ch i = Some e" "i \<in> set (sc_spent ch)"
    and "\<forall>j \<in> set (sc_spent ch). created_in_block env ch j \<noteq> None \<or> utxo_view env db j \<noteq> None"
    and "utxo_wf env db"
  shows "\<exists>b. add_change_to_batch env ch h (db, us) batch_new = Inr b \<and> utxo_view env (db_write_batch b db) i = Some e"
proof -
  define f where "f j = (case created_in_block env ch j of Some e \<Rightarrow> e | None \<Rightarrow> the (utxo_view env db j))" for j
  have e: "entry_ok env e" "be_box_id env e = i"
    using created_in_blockD [OF assms(3)] assms(2) by (auto simp: change_ok_def list_all_iff)
  have "context_lookup env db (\<lambda>_. None) ch j = Inr (Some (f j)) \<and> entry_ok env (f j)" if j: "j \<in> set (sc_spent ch)" for j
  proof (cases "created_in_block env ch j")
    case (Some e')
    then show ?thesis
      using created_in_blockD [OF Some] assms(2) by (simp add: context_lookup_def f_def change_ok_def list_all_iff)
  next
    case None
    then obtain e' where "utxo_view env db j = Some e'"
      using assms(5) j by auto
    then show ?thesis
      using None utxo_view_get [OF assms(1,6)] utxo_view_Some [OF assms(1,6), of j e'] by (simp add: context_lookup_def f_def)
  qed
  then obtain b ub where b: "add_change env db (context_lookup env db (\<lambda>_. None) ch) (us_sync_mode us) ch h batch_new = Inr b"
    "\<forall>cf k. \<not> index_cf cf \<longrightarrow> batch_lookup b cf k =
      (case change_writes env ch h ub cf k of Some r \<Rightarrow> Some r | None \<Rightarrow> batch_lookup batch_new cf k)"
    using add_change_ok [OF assms(2), of "context_lookup env db (\<lambda>_. None) ch" f] by meson
  have "db_get (db_write_batch b db) CF_Utxo i = Some (entry_bytes env e)"
    using b(2) by (simp add: db_get_write_batch change_writes_simps created_bytes_eq assms(3))
  then show ?thesis
    using b(1) entry_roundtrip [OF assms(1) e(1)]
    by (simp add: add_change_to_batch_def add_change_to_batch_with_context_def utxo_view_def get_box_def)
qed

theorem spent_in_same_block_survives_witness:
  "\<exists>b. add_change_to_batch plain_env \<lparr>sc_created = [plain_entry [7, 1]], sc_spent = [[7]]\<rparr> 1 (db_empty, utxo_new) batch_new
       = Inr b \<and> utxo_view plain_env (db_write_batch b db_empty) [7] = Some (plain_entry [7, 1])"
  using plain_entry_ok [of "[7, 1]"]
  by (intro spent_in_same_block_survives [OF plain_env_ok _ _ _ _ utxo_wf_empty])
     (simp_all add: change_ok_def created_in_block_def be_box_id_def plain_env_def plain_entry_def)

subsection \<open>What the indexes hold after a change\<close>

lemma read_id_list_concat:
  assumes "\<forall>i \<in> set ids. length i = 32" "at_pos bs p (concat ids @ rest)"
  shows "read_id_list (length ids) bs p = ids"
  using assms
proof (induction ids arbitrary: p)
  case (Cons i ids)
  then have at: "at_pos bs p (i @ concat ids @ rest)" and i: "length i = 32"
    by simp_all
  have "p + 32 \<le> length bs"
    using at_pos_length [OF at] i by simp
  then show ?case
    using Cons.IH [OF _ at_pos_append [OF at]] Cons.prems(1) i at_pos_subslice [OF at]
    by (simp add: BOX_ID_LENGTH_def)
qed simp

lemma box_id_list_roundtrip:
  assumes "\<forall>i \<in> set ids. length i = 32" "length ids < 2 ^ 32"
  shows "deserialize_box_id_list (serialize_box_id_list ids) = ids"
proof -
  define bs where "bs = serialize_box_id_list ids"
  have at: "at_pos bs 0 (be_u32 (of_nat (length ids)) @ concat ids)"
    unfolding bs_def serialize_box_id_list_def by (rule at_pos_start)
  have "at_pos bs 4 (concat ids @ [])"
    using at_pos_append [OF at] by simp
  from read_id_list_concat [OF assms(1) this] have "read_id_list (length ids) bs 4 = ids" .
  moreover have "be_u32_at bs 0 = length ids"
    using be_u32_at_pos [OF at] assms(2) by (simp add: unat_of_nat)
  moreover have "4 \<le> length bs"
    using at_pos_length [OF at] by simp
  ultimately show ?thesis
    by (simp add: deserialize_box_id_list_def bs_def [symmetric])
qed

lemma index_box_tree:
  assumes "box_tokens env b = []" "hash_ergotree env b = t" "i \<notin> set (get_index_entries db CF_ErgoTreeIndex t)"
  shows "batch_lookup (index_box env db b i batch) CF_ErgoTreeIndex t =
    Some (Some (serialize_box_id_list (get_index_entries db CF_ErgoTreeIndex t @ [i])))"
  using assms by (auto simp: index_box_def add_to_index_def Let_def list_ex_iff)

lemma create_loop_index:
  assumes "es \<noteq> []" "list_all (entry_ok env) es"
    and "\<forall>e \<in> set es. box_tokens env (ergo_box e) = [] \<and> hash_ergotree env (ergo_box e) = t
      \<and> be_box_id env e \<notin> set (get_index_entries db CF_ErgoTreeIndex t)"
  shows "\<exists>b' ids. create_loop env db False es (b, acc) = Inr (b', ids) \<and>
    batch_lookup b' CF_ErgoTreeIndex t =
      Some (Some (serialize_box_id_list (get_index_entries db CF_ErgoTreeIndex t @ [be_box_id env (last es)])))"
  using assms
proof (induction es arbitrary: b acc)
  case (Cons e es)
  define b1 where "b1 = batch_put CF_Utxo (be_box_id env e) (entry_bytes env e)
    (index_box env db (ergo_box e) (be_box_id env e) b)"
  have step: "create_loop env db False (e # es) (b, acc) = create_loop env db False es (b1, acc @ [be_box_id env e])"
    using Cons.prems(2) by (simp add: b1_def Let_def entry_ok_serialize)
  show ?case
  proof (cases "es = []")
    case True
    then show ?thesis
      using Cons.prems(3) step by (simp add: b1_def index_box_tree)
  next
    case False
    then show ?thesis
      using Cons.IH [of b1 "acc @ [be_box_id env e]"] Cons.prems step by simp
  qed
qed simp

text \<open>Of several new boxes with the same script only the last one is entered in the script index:
  each entry is computed from the database as it was before the block, and the last write of
  the batch overrides the others. (Boxes without tokens, not in the index before.)\<close>

theorem script_index_keeps_last_only:
  assumes "es \<noteq> []" "change_ok env \<lparr>sc_created = es, sc_spent = []\<rparr>" "\<not> us_sync_mode us"
    and "\<forall>e \<in> set es. box_tokens env (ergo_box e) = [] \<and> hash_ergotree env (ergo_box e) = t
      \<and> length (be_box_id env e) = 32 \<and> be_box_id env e \<notin> set (get_index_entries db CF_ErgoTreeIndex t)"
    and "\<forall>i \<in> set (get_index_entries db CF_ErgoTreeIndex t). length i = 32"
    and "length (get_index_entries db CF_ErgoTreeIndex t) < 2 ^ 31"
  shows "\<exists>db' us'. apply_change env \<lparr>sc_created = es, sc_spent = []\<rparr> h (db, us) = (Inr (), db', us') \<and>
    get_index_entries db' CF_ErgoTreeIndex t =
      get_index_entries db CF_ErgoTreeIndex t @ [be_box_id env (last es)]"
proof -
  define old where "old = get_index_entries db CF_ErgoTreeIndex t"
  have ok: "list_all (entry_ok env) es"
    using assms(2) by (simp add: change_ok_def)
  obtain b ids where b: "create_loop env db False es (batch_new, []) = Inr (b, ids)"
      "batch_lookup b CF_ErgoTreeIndex t = Some (Some (serialize_box_id_list (old @ [be_box_id env (last es)])))"
    using create_loop_index [OF assms(1) ok, of t db batch_new "[]"] assms(4) by (auto simp: old_def)
  have ids: "ids = map (be_box_id env) es"
    using create_loop_ok [OF ok, of db False batch_new "[]"] b(1) by auto
  obtain ub where "undo_serialize env (change_undo env f \<lparr>sc_created = es, sc_spent = []\<rparr> h) = Inr ub" for f
    using undo_serialize_ok [OF change_undo_ok [OF assms(2)]] by (force simp: change_undo_def)
  then have ub: "undo_serialize env \<lparr>ud_height = h, ud_spent_boxes = [], ud_created_box_ids = ids\<rparr> = Inr ub"
    by (simp add: change_undo_def ids)
  define b' where "b' = batch_put CF_Metadata (bstr ''utxo_height'') (be_u32 h) (batch_put CF_UndoData (be_u32 h) ub b)"
  have "apply_change env \<lparr>sc_created = es, sc_spent = []\<rparr> h (db, us) = (Inr (), db_write_batch b' db, us\<lparr>us_height := h\<rparr>)"
    using b(1) ub assms(3) by (simp add: apply_change_def add_change_def b'_def)
  moreover have "get_index_entries (db_write_batch b' db) CF_ErgoTreeIndex t = old @ [be_box_id env (last es)]"
  proof -
    have "db_get (db_write_batch b' db) CF_ErgoTreeIndex t = Some (serialize_box_id_list (old @ [be_box_id env (last es)]))"
      by (simp add: db_get_write_batch b'_def b(2))
    then show ?thesis
      using assms(1,4,5,6) box_id_list_roundtrip [of "old @ [be_box_id env (last es)]"]
      by (simp add: get_index_entries_def [of "db_write_batch b' db"] old_def [symmetric])
  qed
  ultimately show ?thesis
    by (auto simp: old_def)
qed

definition long_env :: "bytes box_env" where
  "long_env = plain_env\<lparr>box_id_of := (\<lambda>b. replicate 32 (hd b))\<rparr>"

theorem script_index_keeps_last_only_witness:
  "\<exists>db' us'. apply_change long_env \<lparr>sc_created = [plain_entry [7, 1], plain_entry [8, 1]], sc_spent = []\<rparr> 1
       (db_empty, utxo_new) = (Inr (), db', us') \<and>
     get_index_entries db' CF_ErgoTreeIndex [1] = [replicate 32 8]"
proof -
  have empty: "get_index_entries db_empty CF_ErgoTreeIndex [1] = []"
    by (simp add: get_index_entries_def db_get_def db_empty_def)
  have "entry_ok long_env (plain_entry b)" if "length b < 2 ^ 31" for b
    using that by (simp add: entry_ok_def long_env_def plain_env_def plain_entry_def be_box_id_def)
  then show ?thesis
    using script_index_keeps_last_only [of "[plain_entry [7, 1], plain_entry [8, 1]]" long_env utxo_new "[1]" db_empty 1]
    by (simp add: empty change_ok_def utxo_new_def long_env_def plain_env_def plain_entry_def be_box_id_def hash_ergotree_def)
qed

end
