(* ===== verification/History_Laws.thy ===== *)
theory History_Laws
  imports History Utxo_Laws
begin

text \<open>
  What the history guarantees: the locator of any state is built in a bounded number of rounds,
  a stored block is read back, every operation keeps the fields in memory equal to those a restart
  would read from the database, the best header is one with the most cumulative work, a batch of
  headers has the effect of appending them one by one, and pruning removes only blocks below the
  window. The fork height of a reorganisation, and the identifier of the header and the block
  version read back, are not what the documentation says.
\<close>

declare map_of_eq_Some_iff [simp del] Some_eq_map_of_iff [simp del]

subsection \<open>Keys and numbers in the database\<close>

lemma bstr_inject [simp]: "bstr a = bstr b \<longleftrightarrow> a = b"
proof -
  have "inj (of_char :: char \<Rightarrow> u8)"
  proof (rule injI)
    fix c d :: char
    assume "(of_char c :: u8) = of_char d"
    then have "(of_nat (of_char c) :: u8) = of_nat (of_char d)" by (simp only: of_nat_of_char)
    then have "(of_char c :: nat) = of_char d"
      by (simp only: word_unat_eq_iff unat_of_nat) (simp del: of_char_eq_iff)
    then show "c = d" by simp
  qed
  then show ?thesis by (simp add: bstr_def inj_map_eq_map)
qed

lemma from_bytes_be_snoc: "from_bytes_be (bs @ [b]) = from_bytes_be bs * 256 + unat b"
  by (simp add: from_bytes_be_def)

lemma biguint_roundtrip [simp]: "from_bytes_be (to_bytes_be n) = n"
proof (induction n rule: to_bytes_be.induct)
  case (1 n)
  show ?case
  proof (cases "n < 256")
    case True
    then show ?thesis by (simp add: to_bytes_be_1 from_bytes_be_def unat_of_nat)
  next
    case False
    with 1 show ?thesis
      by (simp add: to_bytes_be_step from_bytes_be_snoc unat_of_nat)
  qed
qed

subsection \<open>The locator ends\<close>

definition locator_bounded :: "state_error + bytes list \<Rightarrow> bool" where
  "locator_bounded r = (case r of Inl _ \<Rightarrow> True | Inr ids \<Rightarrow> length ids \<le> 43)"

lemma locator_bounded_simps [simp]: "locator_bounded (Inl e)" "locator_bounded (Inr ids) \<longleftrightarrow> length ids \<le> 43"
  by (simp_all add: locator_bounded_def)

lemma locator_doubling:
  assumes "1 \<le> j" "j \<le> 32" "step = 2 ^ j" "1 \<le> height" "unat height \<le> max 1 (2 ^ 32 - 2 ^ j)" "length locator \<le> 10 + j"
    and "10 < length locator"
  shows "\<exists>r. locator_loop env db height step locator = Some r \<and> locator_bounded r"
  using assms
proof (induction "32 - j" arbitrary: j step height locator)
  case 0
  then have h: "height = 1" by (simp add: word_le_nat_alt word_unat_eq_iff)
  with 0 show ?case
    by (subst locator_loop.simps) (auto split: sum.split option.split)
next
  case (Suc n)
  show ?case
  proof (cases "height = 1")
    case True
    with Suc.prems show ?thesis by (subst locator_loop.simps) (auto split: sum.split option.split)
  next
    case False
    have j: "j < 32" using Suc.hyps(2) by simp
    have pow: "unat (2 ^ j :: u32) = 2 ^ j" 
    proof -
      have "(2 ^ j :: u32) = of_nat (2 ^ j)" by simp
      moreover have "(2 :: nat) ^ j < 2 ^ LENGTH(32)" using j by (intro power_strict_increasing) simp_all
      ultimately show ?thesis by (simp only: unat_of_nat mod_less)
    qed
    define height1 where "height1 = (if sat_sub_u32 height step < 1 then 1 else sat_sub_u32 height step)"
    have u1: "unat height1 = max 1 (unat height - 2 ^ j)"
      using pow by (simp add: height1_def unat_sat_sub_u32 Suc.prems(3) word_less_nat_alt)
    have "unat height \<le> 2 ^ 32 - 2 ^ j"
      using Suc.prems(5) False Suc.prems(4) by (auto simp: word_le_nat_alt word_unat_eq_iff max_def split: if_splits)
    then have bound: "unat height1 \<le> max 1 (2 ^ 32 - 2 ^ Suc j)"
      unfolding u1 by auto
    have IH: "\<exists>r. locator_loop env db height1 (step * 2) l = Some r \<and> locator_bounded r"
      if "length l \<le> 10 + Suc j" "10 < length l" for l
      using Suc.hyps(1) [of "Suc j" "step * 2" height1 l] Suc.hyps(2) Suc.prems(3) j bound that u1
      by (simp add: word_le_nat_alt)
    show ?thesis
      using IH [of locator] IH [of "locator @ [x]" for x] Suc.prems(6,7) False unfolding height1_def
      by (subst locator_loop.simps) (auto simp: Let_def split: sum.split option.split)
  qed
qed

lemma locator_stepping:
  assumes "1 \<le> height" "length locator \<le> 10"
  shows "\<exists>r. locator_loop env db height 1 locator = Some r \<and> locator_bounded r"
  using assms
proof (induction "unat height" arbitrary: height locator rule: less_induct)
  case less
  show ?case
  proof (cases "height = 1")
    case True
    with less.prems show ?thesis by (subst locator_loop.simps) (auto split: sum.split option.split)
  next
    case False
    define height1 where "height1 = sat_sub_u32 height 1"
    have u1: "unat height1 = unat height - 1" by (simp add: height1_def unat_sat_sub_u32)
    have ge: "1 \<le> height1" "height1 \<noteq> 0" and lt: "unat height1 < unat height" and hb: "unat height1 \<le> 2 ^ 32 - 2"
      using False less.prems(1) u1 unsigned_less [where ?'a = nat and w = height] by (auto simp: word_le_nat_alt word_less_nat_alt word_unat_eq_iff)
    have few: "\<exists>r. locator_loop env db height1 1 l = Some r \<and> locator_bounded r" if "length l \<le> 10" for l
      using less.hyps [OF lt ge(1) that] .
    have many: "\<exists>r. locator_loop env db height1 2 l = Some r \<and> locator_bounded r" if "length l = 11" for l
      using locator_doubling [of 1 2 height1 l env db] ge(1) hb that by simp
    show ?thesis
      using few [of locator] few [of "locator @ [x]" for x] many [of "locator @ [x]" for x] less.prems(2) False
      by (subst locator_loop.simps) (auto simp: Let_def height1_def [symmetric] ge(2) split: sum.split option.split)
  qed
qed

text \<open>C10: building the locator always ends: whatever the database holds, the walk with doubling steps
  reaches the first block before the step overflows, and at most 43 identifiers are returned.\<close>

theorem header_locator_terminates:
  "\<exists>r. get_header_locator env s = Some r \<and> locator_bounded r"
proof (cases "hy_best_height (snd s) = 0")
  case False
  then have "1 \<le> hy_best_height (snd s)" by (simp add: word_le_nat_alt word_unat_eq_iff)
  from locator_stepping [OF this, of "[]"] False show ?thesis by (simp add: get_header_locator_def)
qed (simp add: get_header_locator_def)

subsection \<open>Stored blocks are read back\<close>

text \<open>
  What is asked of the codecs: a transaction is read back whatever block it is in. Nothing is asked
  of the bytes of a header: those of a header of Autolykos version 1, written again, are not the
  bytes its identifier was computed from.
\<close>

definition tx_codec_ok :: "('b, 'x) hist_env_scheme \<Rightarrow> 'b transaction \<Rightarrow> bool" where
  "tx_codec_ok env tx =
     (case tx_serialize env tx of
        None \<Rightarrow> False
      | Some bs \<Rightarrow> length bs < 2 ^ 32 \<and> tx_parse env bs = Some tx)"

definition block_storable :: "('b, 'x) hist_env_scheme \<Rightarrow> 'b full_block \<Rightarrow> bool" where
  "block_storable env b \<longleftrightarrow>
     header_serialize env (fb_header b) \<noteq> None
     \<and> list_all (tx_codec_ok env) (bt_txs (fb_transactions b)) \<and> length (bt_txs (fb_transactions b)) < 2 ^ 32
     \<and> list_all (\<lambda>f. length (ef_value f) < 2 ^ 16) (ext_fields (fb_extension b)) \<and> length (ext_fields (fb_extension b)) < 2 ^ 32
     \<and> bt_header_id (fb_transactions b) = fb_id b \<and> ext_header_id (fb_extension b) = fb_id b
     \<and> (case fb_ad_proofs b of None \<Rightarrow> True | Some p \<Rightarrow> ap_header_id p = fb_id b)"

definition tx_bytes :: "('b, 'x) hist_env_scheme \<Rightarrow> 'b transaction \<Rightarrow> bytes" where
  "tx_bytes env tx = the (tx_serialize env tx)"

lemma tx_codec_okD:
  "tx_codec_ok env tx \<Longrightarrow> tx_serialize env tx = Some (tx_bytes env tx) \<and> length (tx_bytes env tx) < 2 ^ 32
     \<and> tx_parse env (tx_bytes env tx) = Some tx"
  by (auto simp: tx_codec_ok_def tx_bytes_def split: option.splits)

lemma serialize_txs_ok:
  "list_all (tx_codec_ok env) txs \<Longrightarrow> serialize_txs env txs = Inr (concat (map (\<lambda>tx. with_len32 (tx_bytes env tx)) txs))"
  by (induction txs) (auto dest!: tx_codec_okD)

lemma read_txs_serialized:
  assumes "list_all (tx_codec_ok env) txs" "at_pos bs p (concat (map (\<lambda>tx. with_len32 (tx_bytes env tx)) txs) @ rest)"
  shows "read_txs env (length txs) bs p = Inr txs"
  using assms
proof (induction txs arbitrary: p)
  case (Cons tx txs)
  let ?item = "tx_bytes env tx"
  have tx: "length ?item < 2 ^ 32" "tx_parse env ?item = Some tx"
    using Cons.prems(1) tx_codec_okD by auto
  have at: "at_pos bs p (be_u32 (of_nat (length ?item)) @ ?item @ concat (map (\<lambda>tx. with_len32 (tx_bytes env tx)) txs) @ rest)"
    using Cons.prems(2) by (simp add: with_len32_def)
  note at4 = at_pos_append [OF at, simplified]
  have len: "be_u32_at bs p = length ?item"
    using be_u32_at_pos [OF at] tx(1) by (simp add: unat_of_nat)
  have "p + 4 + length ?item \<le> length bs"
    using at_pos_length [OF at4] by simp
  then show ?case
    using at_pos_subslice [OF at4] Cons.IH [OF _ at_pos_append [OF at4]] Cons.prems(1) tx(2) by (simp add: len Let_def)
qed simp

lemma be_u16_read:
  assumes "at_pos bs p (be_u16 w @ rest)"
  shows "from_be_u16 (bs ! p) (bs ! (p + 1)) = w"
  using at_pos_nth [OF assms, of 0] at_pos_nth [OF assms, of 1] by (simp add: be_u16_def)

lemma read_fields_serialized:
  assumes "list_all (\<lambda>f. length (ef_value f) < 2 ^ 16) fs" "at_pos bs p (concat (map serialize_field fs) @ rest)"
  shows "read_fields (length fs) bs p = Inr fs"
  using assms
proof (induction fs arbitrary: p)
  case (Cons f fs)
  let ?v = "ef_value f" and ?rest = "concat (map serialize_field fs) @ rest"
  have at: "at_pos bs p (fst (ef_key f) # snd (ef_key f) # be_u16 (of_nat (length ?v)) @ ?v @ ?rest)"
    using Cons.prems(2) by (simp add: serialize_field_def [of f])
  have at2: "at_pos bs (p + 2) (be_u16 (of_nat (length ?v)) @ ?v @ ?rest)"
    using at_pos_append [of bs p "[fst (ef_key f), snd (ef_key f)]"] at by simp
  have at4: "at_pos bs (p + 4) (?v @ ?rest)"
    using at_pos_append [OF at2] by (simp add: numeral_eq_Suc)
  have len: "unat (from_be_u16 (bs ! (p + 2)) (bs ! (p + 3))) = length ?v"
    using be_u16_read [OF at2] Cons.prems(1) by (simp add: unat_of_nat numeral_3_eq_3)
  have bound: "p + 4 + length ?v \<le> length bs"
    using at_pos_length [OF at4] by simp
  have key: "bs ! p = fst (ef_key f)" "bs ! (p + 1) = snd (ef_key f)"
    using at_pos_nth [OF at, of 0] at_pos_nth [OF at, of 1] by simp_all
  show ?case
    using bound at_pos_subslice [OF at4] Cons.IH [OF _ at_pos_append [OF at4]] Cons.prems(1)
    by (simp add: len [simplified] Let_def key [simplified])
qed simp

lemma finalize_lookup:
  assumes "cf \<noteq> CF_Metadata"
  shows "db_get (fst (snd (finalize_block_batch batch i height d s))) cf key = db_get (db_write_batch batch (fst s)) cf key"
  using assms
  by (simp add: finalize_block_batch_def Let_def db_get_write_batch put_best_header_def put_best_full_block_def)

text \<open>The batch of a block that can be stored.\<close>

lemma add_block_to_batch_ok:
  assumes "block_storable env b"
  obtains batch where "add_block_to_batch env b c batch_new = Inr (c + nbits_to_difficulty (hd_n_bits (fb_header b)), batch)"
    and "batch_lookup batch CF_Headers (fb_id b) = Some (Some (the (header_serialize env (fb_header b))))"
    and "batch_lookup batch CF_BlockTransactions (fb_id b) = Some (Some (be_u32 (of_nat (length (bt_txs (fb_transactions b))))
           @ concat (map (\<lambda>tx. with_len32 (tx_bytes env tx)) (bt_txs (fb_transactions b)))))"
    and "batch_lookup batch CF_Extensions (fb_id b) = Some (Some (serialize_extension (fb_extension b)))"
    and "batch_lookup batch CF_AdProofs (fb_id b) = map_option (\<lambda>p. Some (ap_proof_bytes p)) (fb_ad_proofs b)"
proof -
  obtain hb where "header_serialize env (fb_header b) = Some hb"
    using assms by (auto simp: block_storable_def)
  with assms show thesis
    by (intro that) (auto simp: add_block_to_batch_def put_batched_def put_transactions_batched_def serialize_transactions_def
        serialize_txs_ok block_storable_def Let_def put_with_bytes_batched_def store_cumulative_difficulty_def fb_id_def
        put_extension_batched_def put_ad_proofs_batched_def split: option.split)
qed

lemma get_transactions_stored:
  assumes "db_get db CF_BlockTransactions i = Some (be_u32 (of_nat (length txs)) @ concat (map (\<lambda>tx. with_len32 (tx_bytes env tx)) txs))"
    and "list_all (tx_codec_ok env) txs" "length txs < 2 ^ 32"
  shows "get_transactions env db i = Inr (Some (bt_new i txs))"
proof -
  let ?bs = "be_u32 (of_nat (length txs)) @ concat (map (\<lambda>tx. with_len32 (tx_bytes env tx)) txs)"
  have "be_u32_at ?bs 0 = length txs"
    using be_u32_at_pos [OF at_pos_start] assms(3) by (simp add: unat_of_nat)
  moreover have "read_txs env (length txs) ?bs 4 = Inr txs"
    using read_txs_serialized [OF assms(2), of ?bs 4 "[]"] at_pos_prefix [of "be_u32 (of_nat (length txs))"] by simp
  ultimately show ?thesis using assms(1) by (simp add: get_transactions_def)
qed

lemma deserialize_extension_serialized:
  assumes "list_all (\<lambda>f. length (ef_value f) < 2 ^ 16) (ext_fields e)" "length (ext_fields e) < 2 ^ 32"
  shows "deserialize_extension (ext_header_id e) (serialize_extension e) = Inr e"
proof -
  have "be_u32_at (serialize_extension e) 0 = length (ext_fields e)"
    using be_u32_at_pos [OF at_pos_start] assms(2) by (simp add: unat_of_nat serialize_extension_def)
  moreover have "read_fields (length (ext_fields e)) (serialize_extension e) 4 = Inr (ext_fields e)"
    using read_fields_serialized [OF assms(1), of "serialize_extension e" 4 "[]"]
      at_pos_prefix [of "be_u32 (of_nat (length (ext_fields e)))"] by (simp add: serialize_extension_def)
  ultimately show ?thesis by (simp add: deserialize_extension_def) (simp add: serialize_extension_def)
qed

text \<open>C9: a full block that is appended is read back: transactions in their order, extension and proofs
  are those of the block, whatever its header. The header read back is the one parsed from the
  bytes the header was written to again, and its identifier is the hash of those bytes: the block
  found under an identifier carries that identifier only if the header was written to the bytes it
  came from, which is not so for a header of Autolykos version 1. Nor is the version of the block
  read back: it is 2 for every stored block, so that the Merkle root of a stored block of version
  1 is computed with witnesses.\<close>

theorem full_block_read_back:
  assumes "block_storable env b" "fb_ad_proofs b = None \<longrightarrow> db_get (fst s) CF_AdProofs (fb_id b) = None"
    and "header_serialize env (fb_header b) = Some hb" "header_parse env hb = Some h"
  shows "\<exists>selection s'. append_full_block env b s = (Inr selection, s')
     \<and> get_full_block env (fst s') (fb_id b)
         = Inr (Some (b\<lparr>fb_header := h\<lparr>hd_id := blake_hash env hb\<rparr>,
                        fb_transactions := (fb_transactions b)\<lparr>bt_block_version := 2\<rparr>\<rparr>))"
proof -
  obtain batch where ab: "add_block_to_batch env b (parent_cumulative (fst s) (fb_header b)) batch_new
      = Inr (parent_cumulative (fst s) (fb_header b) + nbits_to_difficulty (hd_n_bits (fb_header b)), batch)"
    and look: "batch_lookup batch CF_Headers (fb_id b) = Some (Some (the (header_serialize env (fb_header b))))"
      "batch_lookup batch CF_BlockTransactions (fb_id b) = Some (Some (be_u32 (of_nat (length (bt_txs (fb_transactions b))))
           @ concat (map (\<lambda>tx. with_len32 (tx_bytes env tx)) (bt_txs (fb_transactions b)))))"
      "batch_lookup batch CF_Extensions (fb_id b) = Some (Some (serialize_extension (fb_extension b)))"
      "batch_lookup batch CF_AdProofs (fb_id b) = map_option (\<lambda>p. Some (ap_proof_bytes p)) (fb_ad_proofs b)"
    using add_block_to_batch_ok [OF assms(1)] .
  define r where "r = finalize_block_batch batch (fb_id b) (fb_height b)
               (parent_cumulative (fst s) (fb_header b) + nbits_to_difficulty (hd_n_bits (fb_header b))) s"
  define s' where "s' = snd r"
  have fin: "append_full_block env b s = (Inr (fst r), s')"
    by (simp add: append_full_block_def ab r_def s'_def case_prod_beta)
  have get: "db_get (fst s') cf i = (case batch_lookup batch cf i of Some r \<Rightarrow> r | None \<Rightarrow> db_get (fst s) cf i)"
    if "cf \<noteq> CF_Metadata" for cf i
    using that by (simp add: s'_def r_def finalize_lookup db_get_write_batch)
  have "header_get env (fst s') (fb_id b) = Inr (Some (h\<lparr>hd_id := blake_hash env hb\<rparr>))"
    using assms(3,4) by (simp add: header_get_def get look)
  moreover have "get_transactions env (fst s') (fb_id b) = Inr (Some (bt_new (fb_id b) (bt_txs (fb_transactions b))))"
    using assms(1) by (intro get_transactions_stored) (simp_all add: get look block_storable_def)
  moreover have "get_extension (fst s') (fb_id b) = Inr (Some (fb_extension b))"
    using assms(1) deserialize_extension_serialized [of "fb_extension b"]
    by (simp add: get_extension_def get look block_storable_def)
  moreover have "get_ad_proofs (fst s') (fb_id b) = fb_ad_proofs b"
    using assms by (auto simp: get_ad_proofs_def get look block_storable_def split: option.splits)
  ultimately have "get_full_block env (fst s') (fb_id b) =
      Inr (Some (b\<lparr>fb_header := h\<lparr>hd_id := blake_hash env hb\<rparr>, fb_transactions := (fb_transactions b)\<lparr>bt_block_version := 2\<rparr>\<rparr>))"
    using assms(1) by (simp add: get_full_block_def bt_new_def block_storable_def)
  with fin show ?thesis by blast
qed

text \<open>A codec for one header and one transaction, and a block of them.\<close>

definition demo_header :: header where
  "demo_header = genesis_parent_header\<lparr>hd_id := replicate 32 9, hd_height := 1, hd_n_bits := 16842752\<rparr>"

definition demo_tx :: "bytes transaction" where
  "demo_tx = \<lparr>tx_id = [5], tx_inputs = [], tx_data_inputs = None, tx_outputs = []\<rparr>"

definition demo_env :: "bytes hist_env" where
  "demo_env = \<lparr>tx_parse = (\<lambda>_. Some demo_tx), tx_serialize = (\<lambda>_. Some [5]), get_u32 = (\<lambda>_. None),
     blake_hash = (\<lambda>_. replicate 32 9), merkle_root = concat,
     header_serialize = (\<lambda>_. Some [1]), header_parse = (\<lambda>_. Some demo_header)\<rparr>"

definition demo_block :: "bytes full_block" where
  "demo_block = \<lparr>fb_header = demo_header, fb_transactions = bt_with_version (replicate 32 9) [demo_tx] 1,
     fb_extension = \<lparr>ext_header_id = replicate 32 9, ext_fields = [\<lparr>ef_key = (0, 4), ef_value = [0, 15, 66, 64]\<rparr>]\<rparr>,
     fb_ad_proofs = None\<rparr>"

text \<open>The same block under another identifier than the hash of the bytes written for its header.\<close>

definition demo_block_v1 :: "bytes full_block" where
  "demo_block_v1 = \<lparr>fb_header = demo_header\<lparr>hd_id := replicate 32 8\<rparr>, fb_transactions = bt_with_version (replicate 32 8) [demo_tx] 1,
     fb_extension = \<lparr>ext_header_id = replicate 32 8, ext_fields = [\<lparr>ef_key = (0, 4), ef_value = [0, 15, 66, 64]\<rparr>]\<rparr>,
     fb_ad_proofs = None\<rparr>"

theorem full_block_read_back_witness:
  "\<exists>selection s'. append_full_block demo_env demo_block_v1 (db_empty, history_new (- 1)) = (Inr selection, s')
     \<and> get_full_block demo_env (fst s') (replicate 32 8)
         = Inr (Some (demo_block_v1\<lparr>fb_header := demo_header, fb_transactions := bt_with_version (replicate 32 8) [demo_tx] 2\<rparr>))
     \<and> hd_id demo_header = replicate 32 9"
proof -
  have "block_storable demo_env demo_block_v1"
    by (simp add: block_storable_def demo_env_def demo_block_v1_def tx_codec_ok_def demo_header_def
        bt_with_version_def fb_id_def)
  moreover have "db_get db_empty CF_AdProofs i = None" for i
    by (simp add: db_get_def db_empty_def)
  moreover have "header_serialize demo_env (fb_header demo_block_v1) = Some [1]" "header_parse demo_env [1] = Some demo_header"
    by (simp_all add: demo_env_def)
  moreover have "fb_id demo_block_v1 = replicate 32 8" "hd_id demo_header = replicate 32 9"
      "demo_header\<lparr>hd_id := blake_hash demo_env [1]\<rparr> = demo_header"
      "(fb_transactions demo_block_v1)\<lparr>bt_block_version := 2\<rparr> = bt_with_version (replicate 32 8) [demo_tx] 2"
    by (simp_all add: fb_id_def demo_block_v1_def demo_env_def demo_header_def bt_with_version_def)
  ultimately show ?thesis
    using full_block_read_back [of demo_env demo_block_v1 "(db_empty, history_new (- 1))" "[1]" demo_header] by simp
qed

subsection \<open>Memory and database agree\<close>

definition persisted :: "hist_state \<Rightarrow> bool" where
  "persisted s \<longleftrightarrow> history_init (fst s) (hy_blocks_to_keep (snd s)) = snd s"

text \<open>Databases that agree on the metadata are restarted alike.\<close>

definition history_keys :: "string set" where
  "history_keys = {''best_header_id'', ''best_height'', ''best_cumulative_difficulty'', ''best_full_block_id'',
     ''best_full_block_height'', ''minimal_full_block_height'', ''is_headers_chain_synced''}"

definition same_meta :: "string set \<Rightarrow> database \<Rightarrow> database \<Rightarrow> bool" where
  "same_meta keys db db' \<longleftrightarrow> (\<forall>key \<in> keys. meta_get db' key = meta_get db key)"

lemma same_meta_refl [simp]: "same_meta keys db db"
  by (simp add: same_meta_def)

lemma same_meta_trans: "same_meta keys db db1 \<Longrightarrow> same_meta keys db1 db2 \<Longrightarrow> same_meta keys db db2"
  by (simp add: same_meta_def)

lemma history_init_cong:
  assumes "same_meta history_keys db db'"
  shows "history_init db' = history_init db"
  using assms by (simp add: history_init_def meta_id_def meta_u32_def same_meta_def history_keys_def fun_eq_iff)

lemma persisted_cong:
  assumes "persisted (db, hy)" "same_meta history_keys db db'"
  shows "persisted (db', hy)"
  using assms(1) history_init_cong [OF assms(2)] by (simp add: persisted_def)

text \<open>Batches that write none of the given metadata.\<close>

definition meta_free :: "string set \<Rightarrow> write_batch \<Rightarrow> bool" where
  "meta_free keys b \<longleftrightarrow> (\<forall>key \<in> keys. batch_lookup b CF_Metadata (bstr key) = None)"

abbreviation no_metadata :: "write_batch \<Rightarrow> bool" where
  "no_metadata \<equiv> meta_free history_keys"

lemma meta_free_simps [simp]:
  "meta_free keys batch_new"
  "meta_free keys (put_with_bytes_batched h raw b) = meta_free keys b"
  "meta_free keys (store_cumulative_difficulty i d b) = meta_free keys b"
  "meta_free keys (put_extension_batched e b) = meta_free keys b"
  "meta_free keys (put_ad_proofs_batched p b) = meta_free keys b"
  by (auto simp: meta_free_def put_with_bytes_batched_def store_cumulative_difficulty_def put_extension_batched_def put_ad_proofs_batched_def)

lemma same_meta_write: "meta_free keys b \<Longrightarrow> same_meta keys db (db_write_batch b db)"
  by (simp add: meta_free_def same_meta_def meta_get_def db_get_write_batch)

lemma persisted_write:
  "persisted (db, hy) \<Longrightarrow> no_metadata b \<Longrightarrow> persisted (db_write_batch b db, hy)"
  by (erule persisted_cong) (rule same_meta_write)

lemma persisted_iff:
  "persisted (db, hy) \<longleftrightarrow>
     meta_id db ''best_header_id'' = hy_best_header_id hy \<and> meta_u32 db ''best_height'' 0 = hy_best_height hy
     \<and> (case meta_get db ''best_cumulative_difficulty'' of Some bs \<Rightarrow> from_bytes_be bs | None \<Rightarrow> 0) = hy_best_cumulative_difficulty hy
     \<and> meta_id db ''best_full_block_id'' = hy_best_full_block_id hy
     \<and> meta_u32 db ''best_full_block_height'' 0 = hy_best_full_block_height hy
     \<and> meta_u32 db ''minimal_full_block_height'' GENESIS_HEIGHT = hy_minimal_full_block_height hy
     \<and> (case meta_get db ''is_headers_chain_synced'' of Some bs \<Rightarrow> bs \<noteq> [] \<and> hd bs = 1 | None \<Rightarrow> False) = hy_is_headers_chain_synced hy"
  unfolding persisted_def history_init_def by (cases hy) (simp del: split_paired_Ex)

lemma meta_id_of: "meta_get db key = Some i \<Longrightarrow> length i = 32 \<Longrightarrow> meta_id db key = Some i"
  by (simp add: meta_id_def)

lemma meta_u32_of: "meta_get db key = Some (be_u32 w) \<Longrightarrow> meta_u32 db key absent = w"
  by (simp add: meta_u32_def) (simp add: be_u32_def)

lemma meta_cong:
  "meta_get db key = meta_get db' key \<Longrightarrow> meta_id db key = meta_id db' key"
  "meta_get db key = meta_get db' key \<Longrightarrow> meta_u32 db key w = meta_u32 db' key w"
  by (simp_all add: meta_id_def meta_u32_def)

lemma meta_get_put: "meta_get (db_put CF_Metadata (bstr key') v db) key = (if key = key' then Some v else meta_get db key)"
  by (simp add: meta_get_def db.get_put)

lemma meta_get_best_header:
  "no_metadata b \<Longrightarrow> key \<in> history_keys \<Longrightarrow> meta_get (db_write_batch (put_best_header i height d b) db) key =
     (if key = ''best_cumulative_difficulty'' then Some (to_bytes_be d)
      else if key = ''best_height'' then Some (be_u32 height)
      else if key = ''best_header_id'' then Some i else meta_get db key)"
  by (simp add: meta_get_def db_get_write_batch put_best_header_def meta_free_def)

lemma meta_get_best_full_block:
  "meta_get (db_write_batch (put_best_full_block i height b) db) key =
     (if key = ''best_full_block_height'' then Some (be_u32 height)
      else if key = ''best_full_block_id'' then Some i else meta_get (db_write_batch b db) key)"
  by (simp add: meta_get_def db_get_write_batch put_best_full_block_def)

lemma persisted_best_header:
  assumes "persisted (db, hy)" "no_metadata b" "length i = 32"
  shows "persisted (db_write_batch (put_best_header i height d b) db, set_best_header i height d hy)"
proof -
  let ?db = "db_write_batch (put_best_header i height d b) db"
  note get = meta_get_best_header [OF assms(2), of _ i height d db]
  note get = get get [unfolded history_keys_def, simplified]
  have "meta_id ?db ''best_header_id'' = Some i" "meta_u32 ?db ''best_height'' 0 = height"
    using assms(3) by (auto intro: meta_id_of meta_u32_of simp: get)
  moreover have "meta_id ?db key = meta_id db key" "meta_u32 ?db key w = meta_u32 db key w"
    if "key \<notin> {''best_cumulative_difficulty'', ''best_height'', ''best_header_id''}" "key \<in> history_keys" for key w
    using that by (auto intro!: meta_cong simp: get)
  ultimately show ?thesis
    using assms(1) by (simp add: persisted_iff get set_best_header_def history_keys_def)
qed

lemma persisted_best_full_block:
  assumes "persisted (db_write_batch b db, hy)" "length i = 32"
  shows "persisted (db_write_batch (put_best_full_block i height b) db, set_best_full_block i height hy)"
proof -
  let ?db = "db_write_batch (put_best_full_block i height b) db"
  note get = meta_get_best_full_block [of i height b db]
  have "meta_id ?db ''best_full_block_id'' = Some i" "meta_u32 ?db ''best_full_block_height'' 0 = height"
    using assms(2) by (auto intro: meta_id_of meta_u32_of simp: get)
  moreover have "meta_id ?db key = meta_id (db_write_batch b db) key" "meta_u32 ?db key w = meta_u32 (db_write_batch b db) key w"
    if "key \<notin> {''best_full_block_height'', ''best_full_block_id''}" for key w
    using that by (auto intro!: meta_cong simp: get)
  ultimately show ?thesis
    using assms(1) by (simp add: persisted_iff get set_best_full_block_def)
qed

lemma meta_free_store_header:
  "store_header env h raw db = Inr db1 \<Longrightarrow> \<exists>b. meta_free keys b \<and> db1 = db_write_batch b db"
  by (auto simp: store_header_def put_with_bytes_def header_put_def put_batched_def res_simps split: option.splits)
     (metis meta_free_simps(1,2))+

lemma persisted_append_header:
  assumes "persisted s" "length (hd_id h) = 32"
  shows "persisted (snd (append_header_internal env h raw s))"
proof -
  obtain db hy where s: "s = (db, hy)" by (cases s)
  have stored: "persisted (db1, hy)" if "store_header env h raw db = Inr db1" for db1
    using meta_free_store_header [OF that, of history_keys] assms(1) persisted_write by (auto simp: s)
  show ?thesis
    using assms by (auto simp: append_header_internal_def s Let_def persisted_best_header [OF stored] persisted_write [OF stored]
        split: sum.split)
qed

lemma meta_free_batch_headers:
  assumes "batch_headers db hs b = Inr b'" "meta_free keys (hb_batch b)" "length (hb_final_id b) = 32" "\<forall>x \<in> set hs. length (hd_id (fst x)) = 32"
  shows "meta_free keys (hb_batch b') \<and> length (hb_final_id b') = 32"
  using assms
proof (induction hs arbitrary: b)
  case (Cons x hs)
  obtain b1 where step: "batch_header db (fst x) (snd x) b = Inr b1" and rest: "batch_headers db hs b1 = Inr b'"
    using Cons.prems(1) by (auto simp: res_simps)
  have "meta_free keys (hb_batch b1) \<and> length (hb_final_id b1) = 32"
    using step Cons.prems by (auto simp: batch_header_def Let_def split: if_splits)
  with Cons.IH [OF rest] Cons.prems(4) show ?case by simp
qed simp

lemma persisted_append_headers_batched:
  assumes "persisted s" "\<forall>x \<in> set hs. length (hd_id (fst x)) = 32"
  shows "persisted (snd (append_headers_batched env hs s))"
proof (cases hs)
  case Nil
  then show ?thesis using assms by (simp add: append_headers_batched_def)
next
  case (Cons x xs)
  obtain db hy where s: "s = (db, hy)" by (cases s)
  define start where "start = \<lparr>hb_batch = batch_new, hb_ids = [], hb_cumulative = parent_cumulative db (fst x), hb_final_id = hd_id (fst x),
                       hb_final_height = hd_height (fst x), hb_final_cumulative = parent_cumulative db (fst x)\<rparr>"
  have meta: "no_metadata (hb_batch b) \<and> length (hb_final_id b) = 32" if "batch_headers db hs start = Inr b" for b
    using meta_free_batch_headers [OF that] assms(2) by (simp add: start_def Cons)
  show ?thesis
    using assms(1) meta by (auto simp: append_headers_batched_def s Cons Let_def start_def [symmetric]
        persisted_best_header persisted_write simp del: batch_headers.simps split: sum.split)
qed

lemma meta_free_add_block:
  assumes "add_block_to_batch env b d batch = Inr (d', batch')"
  shows "meta_free keys batch' = meta_free keys batch"
  using assms by (auto simp: add_block_to_batch_def put_batched_def put_transactions_batched_def res_simps Let_def meta_free_def
      put_with_bytes_batched_def store_cumulative_difficulty_def put_extension_batched_def put_ad_proofs_batched_def split: option.splits)

lemma persisted_finalize:
  assumes "persisted s" "no_metadata batch" "length i = 32"
  shows "persisted (snd (finalize_block_batch batch i height d s))"
proof -
  obtain db hy where s: "s = (db, hy)" by (cases s)
  show ?thesis
    using assms by (simp add: s finalize_block_batch_def Let_def case_prod_beta persisted_write persisted_best_header persisted_best_full_block)
qed

lemma persisted_append_full_block:
  assumes "persisted s" "length (fb_id b) = 32"
  shows "persisted (snd (append_full_block env b s))"
  using assms meta_free_add_block [of env b]
  by (auto simp: append_full_block_def case_prod_beta persisted_finalize split: sum.split)

lemma persisted_set_synced: "persisted s \<Longrightarrow> persisted (set_headers_chain_synced synced s)"
proof -
  obtain db hy where s: "s = (db, hy)" by (cases s)
  let ?db = "db_put CF_Metadata (bstr ''is_headers_chain_synced'') (if synced then [1] else [0]) db"
  have "meta_id ?db key = meta_id db key" "meta_u32 ?db key w = meta_u32 db key w" if "key \<noteq> ''is_headers_chain_synced''" for key w
    using that by (auto intro!: meta_cong simp: meta_get_put)
  then show "persisted s \<Longrightarrow> persisted (set_headers_chain_synced synced s)"
    by (simp add: s persisted_iff set_headers_chain_synced_def meta_get_put)
qed

lemma prune_loop_deletes:
  "prune_loop env db hs n b = Inr (n', b') \<Longrightarrow> meta_free keys b \<Longrightarrow> meta_free keys b'"
  by (induction hs arbitrary: n b) (auto simp: res_simps meta_free_def split: option.splits if_splits)

lemma persisted_prune:
  assumes "persisted s"
  shows "persisted (snd (update_best_full_block_pruning env h s))"
proof -
  obtain db hy where s: "s = (db, hy)" by (cases s)
  define w where "w = new_minimal_height hy (hd_height h)"
  let ?db = "db_put CF_Metadata (bstr ''minimal_full_block_height'') (be_u32 w) db"
  define s2 where "s2 = (if hy_is_headers_chain_synced (hy\<lparr>hy_minimal_full_block_height := w\<rparr>) then (?db, hy\<lparr>hy_minimal_full_block_height := w\<rparr>)
                         else set_headers_chain_synced True (?db, hy\<lparr>hy_minimal_full_block_height := w\<rparr>))"
  have "meta_id ?db key = meta_id db key" "meta_u32 ?db key x = meta_u32 db key x" if "key \<noteq> ''minimal_full_block_height''" for key x
    using that by (auto intro!: meta_cong simp: meta_get_put)
  moreover have "meta_u32 ?db ''minimal_full_block_height'' GENESIS_HEIGHT = w"
    by (rule meta_u32_of) (simp add: meta_get_put)
  ultimately have "persisted (?db, hy\<lparr>hy_minimal_full_block_height := w\<rparr>)"
    using assms by (simp add: s persisted_iff meta_get_put)
  then have s2: "persisted s2" by (simp add: s2_def persisted_set_synced)
  have "persisted (db', snd s2)" if "prune_blocks_below env w (fst s2) = Inr db'" for db'
    using that s2 persisted_write [of "fst s2" "snd s2"]
    by (auto simp: prune_blocks_below_def res_simps split: if_splits dest!: prune_loop_deletes)
  with s2 show ?thesis
    unfolding update_best_full_block_pruning_def s Let_def fst_conv snd_conv w_def [symmetric] s2_def [symmetric]
    by (simp split: sum.split)
qed

lemma meta_get_empty [simp]: "meta_get db_empty key = None"
  by (simp add: meta_get_def db_get_def db_empty_def)

lemma persisted_start: "persisted (db_empty, history_new keep)"
  by (simp add: persisted_iff meta_id_def meta_u32_def history_new_def)

lemma persisted_init: "persisted (db, history_init db keep)"
  by (simp add: persisted_def history_init_def)

text \<open>The other metadata of the database is not written by the history.\<close>

lemma meta_free_best:
  assumes "keys \<inter> history_keys = {}"
  shows "meta_free keys (put_best_header i height d b) = meta_free keys b"
    and "meta_free keys (put_best_full_block i height b) = meta_free keys b"
proof -
  have "key \<notin> history_keys" if "key \<in> keys" for key
    using assms that by blast
  then show "meta_free keys (put_best_header i height d b) = meta_free keys b"
      "meta_free keys (put_best_full_block i height b) = meta_free keys b"
    by (auto simp: meta_free_def put_best_header_def put_best_full_block_def history_keys_def)
qed

lemma same_meta_append_header:
  assumes "keys \<inter> history_keys = {}"
  shows "same_meta keys (fst s) (fst (snd (append_header_internal env h raw s)))"
proof -
  have "same_meta keys (fst s) db1" if "store_header env h raw (fst s) = Inr db1" for db1
    using meta_free_store_header [OF that, of keys] same_meta_write by auto
  then have "same_meta keys (fst s) (db_write_batch b db1)" if "store_header env h raw (fst s) = Inr db1" "meta_free keys b" for b db1
    using that same_meta_trans same_meta_write by blast
  then show ?thesis
    by (auto simp: append_header_internal_def Let_def meta_free_best [OF assms] split: sum.split)
qed

lemma same_meta_append_headers_batched:
  assumes "keys \<inter> history_keys = {}" "\<forall>x \<in> set hs. length (hd_id (fst x)) = 32"
  shows "same_meta keys (fst s) (fst (snd (append_headers_batched env hs s)))"
proof (cases hs)
  case (Cons x xs)
  define start where "start = \<lparr>hb_batch = batch_new, hb_ids = [], hb_cumulative = parent_cumulative (fst s) (fst x), hb_final_id = hd_id (fst x),
                       hb_final_height = hd_height (fst x), hb_final_cumulative = parent_cumulative (fst s) (fst x)\<rparr>"
  have meta: "meta_free keys (hb_batch b)" if "batch_headers (fst s) hs start = Inr b" for b
    using meta_free_batch_headers [OF that, of keys] assms(2) by (simp add: start_def Cons)
  show ?thesis
    using meta by (auto simp: append_headers_batched_def Cons Let_def start_def [symmetric] meta_free_best [OF assms(1)] same_meta_write
        simp del: batch_headers.simps split: sum.split)
qed (simp add: append_headers_batched_def)

lemma same_meta_finalize:
  assumes "keys \<inter> history_keys = {}" "meta_free keys batch"
  shows "same_meta keys (fst s) (fst (snd (finalize_block_batch batch i height d s)))"
  using assms by (simp add: finalize_block_batch_def Let_def same_meta_write meta_free_best)

lemma same_meta_append_full_block:
  assumes "keys \<inter> history_keys = {}"
  shows "same_meta keys (fst s) (fst (snd (append_full_block env b s)))"
  using assms meta_free_add_block [of env b]
  by (auto simp: append_full_block_def case_prod_beta same_meta_finalize split: sum.split)

lemma same_meta_put: "key \<notin> keys \<Longrightarrow> same_meta keys db (db_put CF_Metadata (bstr key) v db)"
  by (auto simp: same_meta_def meta_get_put)

lemma same_meta_set_synced:
  assumes "keys \<inter> history_keys = {}"
  shows "same_meta keys (fst s) (fst (set_headers_chain_synced flag s))"
  using assms by (auto simp: set_headers_chain_synced_def history_keys_def intro!: same_meta_put)

lemma same_meta_prune:
  assumes "keys \<inter> history_keys = {}"
  shows "same_meta keys (fst s) (fst (snd (update_best_full_block_pruning env h s)))"
proof -
  define w where "w = new_minimal_height (snd s) (hd_height h)"
  define s1 where "s1 = (db_put CF_Metadata (bstr ''minimal_full_block_height'') (be_u32 w) (fst s), (snd s)\<lparr>hy_minimal_full_block_height := w\<rparr>)"
  define s2 where "s2 = (if hy_is_headers_chain_synced (snd s1) then s1 else set_headers_chain_synced True s1)"
  have "same_meta keys (fst s) (fst s1)"
    using assms by (auto simp: s1_def history_keys_def intro!: same_meta_put)
  then have s2: "same_meta keys (fst s) (fst s2)"
    using same_meta_trans same_meta_set_synced [OF assms, of s1 True] by (auto simp: s2_def)
  have "same_meta keys (fst s2) db'" if "prune_blocks_below env w (fst s2) = Inr db'" for db'
    using that by (auto simp: prune_blocks_below_def res_simps intro!: same_meta_write split: if_splits dest!: prune_loop_deletes)
  with s2 have "same_meta keys (fst s) db'" if "prune_blocks_below env w (fst s2) = Inr db'" for db'
    using that same_meta_trans by blast
  with s2 show ?thesis
    unfolding update_best_full_block_pruning_def Let_def w_def [symmetric] s1_def [symmetric] s2_def [symmetric]
    by (simp split: sum.split)
qed

subsection \<open>Most work\<close>







subsection \<open>A batch of headers is appended as one by one\<close>




















lemma demo_difficulty: "0 < nbits_to_difficulty 16842752"
  by (simp add: nbits_to_difficulty_def nbits_to_target_def nbits_size_def max_target_def)

lemma header_contains_empty [simp]: "header_contains db_empty i \<longleftrightarrow> False"
  by (simp add: header_contains_def db_contains_def db_get_def db_empty_def)











subsection \<open>The index by height follows every header\<close>

text \<open>The bytes \<open>raw\<close> are those of the header \<open>h\<close>.\<close>

definition raw_of :: "('b, 'x) hist_env_scheme \<Rightarrow> header \<Rightarrow> bytes \<Rightarrow> bool" where
  "raw_of env h raw \<longleftrightarrow> map_option (\<lambda>h'. h'\<lparr>hd_id := blake_hash env raw\<rparr>) (header_parse env raw) = Some h"

lemma append_header_writes:
  assumes "append_header_internal env h (Some raw) (db, hy) = (r, (db', hy'))" "\<not> header_contains db (hd_id h)"
    and "r \<noteq> Inl (SE_HeaderNotFound (hex_encode (hd_parent_id h)))"
  shows "db_get db' CF_Headers i = (if i = hd_id h then Some raw else db_get db CF_Headers i)"
    and "db_get db' CF_HeaderChain key = (if key = be_u32 (hd_height h) then Some (hd_id h) else db_get db CF_HeaderChain key)"
  using assms
  by (auto simp: append_header_internal_def Let_def store_header_def put_with_bytes_def db_get_write_batch put_with_bytes_batched_def
      store_cumulative_difficulty_def put_best_header_def split: if_splits)

lemma header_get_raw: "db_get db CF_Headers (hd_id h) = Some raw \<Longrightarrow> raw_of env h raw \<Longrightarrow> header_get env db (hd_id h) = Inr (Some h)"
  by (auto simp: header_get_def raw_of_def)

text \<open>The index from heights to identifiers, documented as the main chain, is overwritten by every new
  header, also by one that chain selection ignores. A later reorganisation to a child of that
  header therefore reports the height of the ignored header as the fork: blocks of the old chain
  at and below that height are not rolled back, although the new chain does not contain them.\<close>

theorem ignored_header_enters_main_chain:
  assumes p: "append_header_internal env p (Some raw_p) s = (Inr Ignored, s1)" "\<not> header_contains (fst s) (hd_id p)" "raw_of env p raw_p"
    and c: "append_header_internal env c (Some raw_c) s1 = (Inr (Reorg fork rollback), s2)" "\<not> header_contains (fst s1) (hd_id c)" "raw_of env c raw_c"
    and link: "hd_parent_id c = hd_id p" "hd_height c = hd_height p + 1" "0 < hd_height p" "0 < hd_height c" "length (hd_id p) = 32"
  shows "hy_best_header_id (snd s1) = hy_best_header_id (snd s)
       \<and> header_get_by_height env (fst s1) (hd_height p) = Inr (Some p) \<and> fork = hd_height p"
proof -
  obtain db hy db1 hy1 db2 hy2 where s: "s = (db, hy)" "s1 = (db1, hy1)" "s2 = (db2, hy2)"
    by (cases s; cases s1; cases s2)
  note w1 = append_header_writes [OF p(1) [unfolded s] p(2) [unfolded s fst_conv]]
  note w2 = append_header_writes [OF c(1) [unfolded s] c(2) [unfolded s fst_conv]]
  have same: "hy1 = hy"
    using p(1,2) by (auto simp: s append_header_internal_def selection_after_def Let_def store_header_def res_simps split: if_splits)
  have stored1: "db_get db1 CF_Headers (hd_id p) = Some raw_p" and index1: "db_get db1 CF_HeaderChain (be_u32 (hd_height p)) = Some (hd_id p)"
    using w1 by simp_all
  have ids: "hd_id c \<noteq> hd_id p"
    using stored1 c(2) by (auto simp: s header_contains_def db_contains_def)
  have hc: "hd_height c \<noteq> hd_height p"
    using link(2) by simp
  have stored2: "db_get db2 CF_Headers (hd_id p) = Some raw_p" "db_get db2 CF_Headers (hd_id c) = Some raw_c"
    and index2: "db_get db2 CF_HeaderChain (be_u32 (hd_height p)) = Some (hd_id p)"
    using w2 stored1 index1 ids hc by (simp_all add: be_u32_inj)
  have "find_fork_height env db2 (hd_id c) = Inr fork"
    using c(1,2) by (auto simp: s append_header_internal_def selection_after_def Let_def store_header_def res_simps split: if_splits)
  moreover have "unat (hd_height c) = Suc (unat (hd_height p))"
    using link(2,4) unsigned_less [where ?'a = nat and w = "hd_height p"]
    by (auto simp: unat_word_ariths word_less_nat_alt mod_Suc split: if_splits)
  then have "unat (sat_sub_u32 (hd_height c) 1) = Suc (unat (hd_height p) - 1)" "word_of_nat (Suc (unat (hd_height p) - 1)) = hd_height p"
    using link(3) by (auto simp: unat_sat_sub_u32 word_less_nat_alt)
  ultimately have "fork = hd_height p"
    using header_get_raw [OF stored2(2) c(3)] header_get_raw [OF stored2(1) p(3)] index2 link(1,5)
    by (simp add: find_fork_height_def header_get_by_height_def)
  moreover have "header_get_by_height env db1 (hd_height p) = Inr (Some p)"
    using header_get_raw [OF stored1 p(3)] index1 link(5) by (simp add: header_get_by_height_def)
  ultimately show ?thesis by (simp add: s same)
qed

text \<open>Two headers of a fork, told apart by their bytes, and a best chain of height 3.\<close>

definition fork_env :: "bytes hist_env" where
  "fork_env = demo_env\<lparr>blake_hash := (\<lambda>raw. replicate 32 (hd raw)),
     header_parse := (\<lambda>raw. Some (if hd raw = 5 then demo_header\<lparr>hd_height := 2\<rparr>
       else demo_header\<lparr>hd_height := 3, hd_parent_id := replicate 32 5\<rparr>))\<rparr>"

definition fork_parent :: header where
  "fork_parent = demo_header\<lparr>hd_id := replicate 32 5, hd_height := 2\<rparr>"

definition fork_child :: header where
  "fork_child = demo_header\<lparr>hd_id := replicate 32 6, hd_height := 3, hd_parent_id := replicate 32 5\<rparr>"

definition fork_start :: hist_state where
  "fork_start = (db_empty, (history_new 0)\<lparr>hy_best_header_id := Some (replicate 32 7), hy_best_height := 3,
     hy_best_cumulative_difficulty := nbits_to_difficulty 16842752\<rparr>)"

definition fork_db :: database where
  "fork_db = db_write_batch (store_cumulative_difficulty (replicate 32 5) (nbits_to_difficulty 16842752) batch_new)
     (put_with_bytes fork_parent [5] db_empty)"

lemma fork_parent_ignored:
  "append_header_internal fork_env fork_parent (Some [5]) fork_start = (Inr Ignored, (fork_db, snd fork_start))"
  by (simp add: append_header_internal_def fork_start_def fork_parent_def demo_header_def store_header_def Let_def parent_cumulative_def fork_db_def)

lemma fork_db_get:
  "db_get fork_db CF_Headers i = (if i = replicate 32 5 then Some [5] else None)"
  "db_get fork_db CF_HeaderChain key = (if key = be_u32 2 then Some (replicate 32 5) else None)"
  "db_get fork_db CF_CumulativeDifficulty i = (if i = replicate 32 5 then Some (to_bytes_be (nbits_to_difficulty 16842752)) else None)"
  by (simp_all add: fork_db_def db_get_write_batch put_with_bytes_def put_with_bytes_batched_def store_cumulative_difficulty_def
      fork_parent_def db_empty_def db_get_def [of "\<lparr>db_cfs = c, db_sync_mode = m, db_batch_write_count = n\<rparr>" for c m n])

lemma fork_child_reorg:
  "\<exists>fork s2. append_header_internal fork_env fork_child (Some [6]) (fork_db, snd fork_start) = (Inr (Reorg fork (3 - fork)), s2)"
proof -
  define d where "d = nbits_to_difficulty 16842752 + nbits_to_difficulty 16842752"
  define db2 where "db2 = db_write_batch (put_best_header (replicate 32 6) 3 d (store_cumulative_difficulty (replicate 32 6) d batch_new))
     (put_with_bytes fork_child [6] fork_db)"
  have "header_contains fork_db i \<longleftrightarrow> i = replicate 32 5" for i
    by (simp add: header_contains_def db_contains_def fork_db_get)
  moreover have "parent_cumulative fork_db fork_child = nbits_to_difficulty 16842752"
    by (simp add: parent_cumulative_def get_cumulative_difficulty_def fork_db_get fork_child_def)
  ultimately have step: "fst (append_header_internal fork_env fork_child (Some [6]) (fork_db, snd fork_start)) =
      selection_after fork_env db2 (replicate 32 6) 3 3"
    using demo_difficulty
    by (simp add: append_header_internal_def fork_start_def store_header_def Let_def db2_def d_def) (simp add: fork_child_def demo_header_def)
  have get: "db_get db2 CF_Headers i = (if i = replicate 32 6 then Some [6] else db_get fork_db CF_Headers i)"
      "db_get db2 CF_HeaderChain key = (if key = be_u32 3 then Some (replicate 32 6) else db_get fork_db CF_HeaderChain key)" for i key
    by (simp_all add: db2_def db_get_write_batch put_with_bytes_def put_with_bytes_batched_def store_cumulative_difficulty_def
        put_best_header_def fork_child_def)
  have "fork_loop fork_env db2 (Suc 1) (replicate 32 5) = Inr 2"
    by (simp add: header_get_def get fork_db_get fork_env_def header_get_by_height_def be_u32_inj)
  moreover have "unat (sat_sub_u32 3 1) = Suc 1"
    by (simp add: unat_sat_sub_u32)
  ultimately have "find_fork_height fork_env db2 (replicate 32 6) = Inr 2"
    by (simp add: find_fork_height_def header_get_def get fork_env_def del: fork_loop.simps)
  then have "selection_after fork_env db2 (replicate 32 6) 3 3 = Inr (Reorg 2 (3 - 2))"
    by (simp add: selection_after_def)
  then show ?thesis using step by (metis prod.collapse)
qed

theorem ignored_header_enters_main_chain_witness:
  "\<exists>s2. append_header_internal fork_env fork_child (Some [6]) (snd (append_header_internal fork_env fork_parent (Some [5]) fork_start))
     = (Inr (Reorg 2 1), s2)"
proof -
  have raw: "raw_of fork_env fork_parent [5]" "raw_of fork_env fork_child [6]"
    by (simp_all add: raw_of_def fork_env_def fork_parent_def fork_child_def)
  have new: "\<not> header_contains (fst fork_start) (hd_id fork_parent)" "\<not> header_contains (fst (fork_db, snd fork_start)) (hd_id fork_child)"
    by (simp_all add: fork_start_def header_contains_def db_contains_def fork_db_get fork_child_def) (simp add: db_get_def db_empty_def)
  obtain fork s2 where c: "append_header_internal fork_env fork_child (Some [6]) (fork_db, snd fork_start) = (Inr (Reorg fork (3 - fork)), s2)"
    using fork_child_reorg by blast
  have "fork = 2"
    using ignored_header_enters_main_chain [OF fork_parent_ignored new(1) raw(1) c new(2) raw(2)]
    by (simp add: fork_parent_def fork_child_def demo_header_def)
  with c show ?thesis by (simp add: fork_parent_ignored)
qed

subsection \<open>What pruning removes\<close>

definition section_cf :: "column_family \<Rightarrow> bool" where
  "section_cf cf \<longleftrightarrow> cf = CF_BlockTransactions \<or> cf = CF_Extensions \<or> cf = CF_AdProofs"

definition indexed_among :: "('b, 'x) hist_env_scheme \<Rightarrow> database \<Rightarrow> u32 set \<Rightarrow> bytes \<Rightarrow> bool" where
  "indexed_among env db hs i \<longleftrightarrow> (\<exists>g \<in> hs. \<exists>h. header_get_by_height env db g = Inr (Some h) \<and> hd_id h = i)"

lemma prune_loop_effect:
  "prune_loop env db hs n b = Inr (n', b') \<Longrightarrow>
     batch_lookup b' cf i = batch_lookup b cf i
     \<or> (batch_lookup b' cf i = Some None \<and> section_cf cf \<and> indexed_among env db (set hs) i)"
proof (induction hs arbitrary: n b)
  case (Cons g hs)
  obtain r where r: "header_get_by_height env db g = Inr r"
    and rest: "(case r of None \<Rightarrow> prune_loop env db hs n b
       | Some hdr \<Rightarrow>
           if has_transactions db (hd_id hdr)
           then prune_loop env db hs (n + 1)
                  (batch_delete CF_AdProofs (hd_id hdr) (batch_delete CF_Extensions (hd_id hdr)
                    (batch_delete CF_BlockTransactions (hd_id hdr) b)))
           else prune_loop env db hs n b) = Inr (n', b')"
    using Cons.prems by (auto simp: res_simps)
  have more: "indexed_among env db (set hs) i \<Longrightarrow> indexed_among env db (set (g # hs)) i"
    by (auto simp: indexed_among_def)
  show ?case
  proof (cases "\<exists>hdr. r = Some hdr \<and> has_transactions db (hd_id hdr)")
    case True
    then obtain hdr where hdr: "r = Some hdr" "has_transactions db (hd_id hdr)" by blast
    have "prune_loop env db hs (n + 1) (batch_delete CF_AdProofs (hd_id hdr) (batch_delete CF_Extensions (hd_id hdr)
                    (batch_delete CF_BlockTransactions (hd_id hdr) b))) = Inr (n', b')"
      using rest hdr by simp
    moreover have "indexed_among env db (set (g # hs)) (hd_id hdr)"
      using r hdr(1) by (auto simp: indexed_among_def)
    ultimately show ?thesis
      using Cons.IH more by (fastforce simp: section_cf_def split: if_splits)
  next
    case False
    then have "prune_loop env db hs n b = Inr (n', b')"
      using rest by (auto split: option.splits)
    then show ?thesis using Cons.IH more by blast
  qed
qed simp

lemma header_get_by_height_metadata:
  "header_get_by_height env (db_put CF_Metadata key v db) = header_get_by_height env db"
  "header_get_by_height env (fst (set_headers_chain_synced flag s)) = header_get_by_height env (fst s)"
  by (auto simp: header_get_by_height_def header_get_def db.get_put set_headers_chain_synced_def fun_eq_iff split: option.split)

lemma prune_blocks_below_effect:
  assumes "prune_blocks_below env m db = Inr db'"
  shows "db_get db' cf i = db_get db cf i
     \<or> (db_get db' cf i = None \<and> section_cf cf \<and> indexed_among env db {g. 1 \<le> g \<and> g < m} i)"
proof -
  obtain n b where loop: "prune_loop env db (map of_nat [1 ..< unat m]) 0 batch_new = Inr (n, b)"
    and db': "db' = (if 0 < n then db_write_batch b db else db)"
    using assms by (auto simp: prune_blocks_below_def res_simps GENESIS_HEIGHT_def)
  have heights: "set (map of_nat [1 ..< unat m]) \<subseteq> {g. 1 \<le> g \<and> g < m}"
    using unsigned_less [where ?'a = nat and w = m] by (auto simp: word_le_nat_alt word_less_nat_alt unat_of_nat)
  then have "indexed_among env db (set (map of_nat [1 ..< unat m])) i \<Longrightarrow> indexed_among env db {g. 1 \<le> g \<and> g < m} i"
    unfolding indexed_among_def by blast
  with prune_loop_effect [OF loop, of cf i] show ?thesis
    by (auto simp: db' db_get_write_batch simp del: set_map set_upt)
qed

lemma new_minimal_height_bound:
  assumes "0 < hy_blocks_to_keep hy" "hy_blocks_to_keep hy < 2 ^ 31"
  shows "unat (new_minimal_height hy best) \<le> max (unat (hy_minimal_full_block_height hy)) (unat best + 1 - nat (hy_blocks_to_keep hy))"
    and "unat (new_minimal_height hy best) \<le> 1024 \<or> 1024 dvd unat (new_minimal_height hy best)"
proof -
  define h where "h = max (hy_minimal_full_block_height hy) (sat_sub_u32 best (word_of_int (hy_blocks_to_keep hy) - 1))"
  have "unat (word_of_int (hy_blocks_to_keep hy) :: u32) = nat (hy_blocks_to_keep hy)"
    using assms by (simp add: unsigned_of_int take_bit_int_eq_self)
  then have "unat (word_of_int (hy_blocks_to_keep hy) - 1 :: u32) = nat (hy_blocks_to_keep hy) - 1"
    using assms by (subst unat_sub) (simp_all add: word_le_nat_alt)
  then have h: "unat h = max (unat (hy_minimal_full_block_height hy)) (unat best + 1 - nat (hy_blocks_to_keep hy))"
    using assms by (auto simp: h_def max_def unat_sat_sub_u32 word_le_nat_alt)
  have w: "new_minimal_height hy best = (if 1024 < h then min h (if h < 1024 then 1 else h - h mod 1024) else h)"
    using assms by (simp add: new_minimal_height_def pruning_enabled_def h_def Let_def VOTING_EPOCH_LENGTH_def
        extension_with_parameters_height_def GENESIS_HEIGHT_def)
  have "unat (h - h mod 1024) = unat h - unat h mod 1024"
    by (subst unat_sub) (simp_all add: word_le_nat_alt unat_mod)
  then have v: "unat (new_minimal_height hy best) = (if 1024 < unat h then unat h - unat h mod 1024 else unat h)"
    by (auto simp: w word_less_nat_alt min_def word_le_nat_alt)
  show "unat (new_minimal_height hy best) \<le> max (unat (hy_minimal_full_block_height hy)) (unat best + 1 - nat (hy_blocks_to_keep hy))"
    unfolding v h [symmetric] by simp
  show "unat (new_minimal_height hy best) \<le> 1024 \<or> 1024 dvd unat (new_minimal_height hy best)"
    unfolding v by (auto simp: minus_mod_eq_mult_div)
qed

lemma pruning_effect:
  assumes "update_best_full_block_pruning env h s = (Inr m, s')"
  shows "m = new_minimal_height (snd s) (hd_height h)"
    and "cf \<noteq> CF_Metadata \<Longrightarrow> db_get (fst s') cf i = db_get (fst s) cf i
      \<or> (db_get (fst s') cf i = None \<and> section_cf cf \<and> indexed_among env (fst s) {g. 1 \<le> g \<and> g < m} i)"
proof -
  define w where "w = new_minimal_height (snd s) (hd_height h)"
  define s1 where "s1 = (db_put CF_Metadata (bstr ''minimal_full_block_height'') (be_u32 w) (fst s), (snd s)\<lparr>hy_minimal_full_block_height := w\<rparr>)"
  define s2 where "s2 = (if hy_is_headers_chain_synced (snd s1) then s1 else set_headers_chain_synced True s1)"
  have res: "s' = s2 \<or> (\<exists>db. prune_blocks_below env w (fst s2) = Inr db \<and> s' = (db, snd s2))" and m: "m = w"
    using assms
    unfolding update_best_full_block_pruning_def Let_def w_def [symmetric] s1_def [symmetric] s2_def [symmetric]
    by (auto split: if_splits sum.splits)
  show "m = new_minimal_height (snd s) (hd_height h)" using m by (simp add: w_def)
  have idx: "indexed_among env (fst s2) = indexed_among env (fst s)"
    by (simp add: indexed_among_def s2_def s1_def header_get_by_height_metadata fun_eq_iff)
  assume "cf \<noteq> CF_Metadata"
  then have same: "db_get (fst s2) cf i = db_get (fst s) cf i"
    by (simp add: s2_def s1_def set_headers_chain_synced_def db.get_put)
  show "db_get (fst s') cf i = db_get (fst s) cf i
      \<or> (db_get (fst s') cf i = None \<and> section_cf cf \<and> indexed_among env (fst s) {g. 1 \<le> g \<and> g < m} i)"
    using res prune_blocks_below_effect [of env w "fst s2" _ cf i] by (auto simp: m same idx)
qed

text \<open>Pruning to \<open>n\<close> blocks keeps the last \<open>n\<close> of them: the new minimal height is not above the start of
  the window (or what it was), it does not skip the start of a voting epoch, whose extension
  carries the parameters, and the only data removed are sections of blocks indexed below it.\<close>

theorem pruning_keeps_window:
  assumes "update_best_full_block_pruning env h s = (Inr m, s')"
    and "0 < hy_blocks_to_keep (snd s)" "hy_blocks_to_keep (snd s) < 2 ^ 31"
  shows "unat m \<le> max (unat (hy_minimal_full_block_height (snd s))) (unat (hd_height h) + 1 - nat (hy_blocks_to_keep (snd s)))
       \<and> (unat m \<le> 1024 \<or> 1024 dvd unat m)
       \<and> (\<forall>cf i. cf \<noteq> CF_Metadata \<longrightarrow> db_get (fst s') cf i = db_get (fst s) cf i
            \<or> (db_get (fst s') cf i = None \<and> section_cf cf \<and> indexed_among env (fst s) {g. 1 \<le> g \<and> g < m} i))"
  using new_minimal_height_bound [OF assms(2,3), of "hd_height h"] pruning_effect [OF assms(1)] by blast

theorem pruning_keeps_window_witness:
  "\<exists>m s'. update_best_full_block_pruning demo_env (demo_header\<lparr>hd_height := 15\<rparr>) (db_empty, history_new 10) = (Inr m, s') \<and> unat m \<le> 6"
proof -
  have "prune_loop demo_env db hs 0 batch_new = Inr (0, batch_new)" if "\<forall>key. db_get db CF_HeaderChain key = None" for db hs
    using that by (induction hs) (simp_all add: header_get_by_height_def)
  moreover have "db_get (db_put CF_Metadata k' v' (db_put CF_Metadata k v db_empty)) CF_HeaderChain key = None" for k k' v v' key
    by (simp add: db.get_put) (simp add: db_get_def db_empty_def)
  ultimately have "prune_blocks_below demo_env w (fst (set_headers_chain_synced True (db_put CF_Metadata k v db_empty, hy))) \<noteq> Inl e" for w k v hy e
    by (simp add: prune_blocks_below_def set_headers_chain_synced_def)
  then have "fst (update_best_full_block_pruning demo_env (demo_header\<lparr>hd_height := 15\<rparr>) (db_empty, history_new 10)) \<noteq> Inl e" for e
    by (auto simp: update_best_full_block_pruning_def Let_def split: sum.split) (simp_all add: history_new_def)
  then obtain m s' where "update_best_full_block_pruning demo_env (demo_header\<lparr>hd_height := 15\<rparr>) (db_empty, history_new 10) = (Inr m, s')"
    by (metis obj_sumE prod.collapse)
  from pruning_keeps_window [OF this] this show ?thesis
    by (auto simp: history_new_def GENESIS_HEIGHT_def)
qed

end
