(* ===== verification/Protocol_Laws.thy ===== *)
theory Protocol_Laws
  imports Protocol History_Laws
begin

text \<open>
  What the synchronisation protocol guarantees: the index of waiting headers is exact and bounded,
  the recursion through waiting headers ends, headers are handed to the storage after their
  parents, requests are never empty nor longer than peers accept, and the block downloader and
  the synchroniser are only driven through their own operations, so that their invariants hold
  in every state of the protocol. The last claims show how headers get lost.
\<close>

declare map_of_eq_Some_iff [simp del] Some_eq_map_of_iff [simp del]

subsection \<open>The recursion ends\<close>

lemma pm_remove_len:
  "pm_len (snd (pm_remove i pm)) \<le> pm_len pm"
  "map_of (pm_by_id pm) i \<noteq> None \<Longrightarrow> pm_len (snd (pm_remove i pm)) < pm_len pm"
proof -
  show "pm_len (snd (pm_remove i pm)) \<le> pm_len pm"
    by (simp add: pm_remove_def pm_len_def Let_def length_delete_le split: option.split)
  have "length (AList.delete i m) < length m" if "map_of m i \<noteq> None" for m :: "(bytes \<times> pending_header) list"
    using that length_delete_le [of i] by (induction m) (auto simp: less_Suc_eq_le split: if_splits)
  then show "map_of (pm_by_id pm) i \<noteq> None \<Longrightarrow> pm_len (snd (pm_remove i pm)) < pm_len pm"
    by (auto simp: pm_remove_def pm_len_def Let_def)
qed

lemma record_header_pending [simp]: "sp_pending_headers (record_header env now h raw p) = sp_pending_headers p"
  by (simp add: record_header_def buffer_header_for_storage_def sp_set_height_def Let_def)

lemma flush_if_due_pending [simp]: "sp_pending_headers (snd (flush_if_due env now p)) = sp_pending_headers p"
  by (auto simp: flush_if_due_def flush_pending_headers_def sbind_def send_command_def Let_def split: sum.split store_reply.split)

lemma unpend_len:
  "pm_len (sp_pending_headers (unpend i p)) \<le> pm_len (sp_pending_headers p)"
  "map_of (pm_by_id (sp_pending_headers p)) i \<noteq> None \<Longrightarrow>
     pm_len (sp_pending_headers (unpend i p)) < pm_len (sp_pending_headers p)"
  using pm_remove_len by (simp_all add: unpend_def)

lemma waiting_children_pending:
  "w \<in> set (waiting_children env parent_id p) \<Longrightarrow> map_of (pm_by_id (sp_pending_headers p)) (fst w) = Some (snd w)"
  by (auto simp: waiting_children_def get_by_parent_def List.map_filter_def split: option.splits)

text \<open>A store function that works on states with at most \<open>n\<close> waiting headers and never adds one.\<close>

definition store_ok :: "nat \<Rightarrow> (header \<Rightarrow> bytes \<Rightarrow> sync_protocol \<Rightarrow> unit handled option) \<Rightarrow> bool" where
  "store_ok n store \<longleftrightarrow> (\<forall>h raw p. pm_len (sp_pending_headers p) < n \<longrightarrow>
     (\<exists>r p'. store h raw p = Some (r, p') \<and> pm_len (sp_pending_headers p') \<le> pm_len (sp_pending_headers p)))"

lemma apply_waiting_total:
  assumes "store_ok n store" "pm_len (sp_pending_headers p) \<le> n"
    and "ws \<noteq> [] \<Longrightarrow> pm_len (sp_pending_headers (unpend (fst (hd ws)) p)) < n"
  shows "\<exists>r p'. apply_waiting store ws p = Some (r, p') \<and> pm_len (sp_pending_headers p') \<le> pm_len (sp_pending_headers p)"
  using assms(2,3)
proof (induction ws arbitrary: p)
  case (Cons w ws)
  let ?q = "unpend (fst w) p"
  have less: "pm_len (sp_pending_headers ?q) < n" using Cons.prems(2) by simp
  then obtain r p1 where step: "store (ph_header (snd w)) (ph_raw_bytes (snd w)) ?q = Some (r, p1)"
      "pm_len (sp_pending_headers p1) \<le> pm_len (sp_pending_headers ?q)"
    using assms(1) unfolding store_ok_def by blast
  note shrink = unpend_len(1) [of "fst w" p]
  show ?case
  proof (cases r)
    case (Inr u)
    have "pm_len (sp_pending_headers (unpend (fst (hd ws)) p1)) < n"
      using unpend_len(1) [of "fst (hd ws)" p1] step(2) less by linarith
    with Cons.IH [of p1] obtain r' p' where "apply_waiting store ws p1 = Some (r', p')"
        "pm_len (sp_pending_headers p') \<le> pm_len (sp_pending_headers p1)"
      using step(2) less by auto
    then show ?thesis
      using Inr step shrink by auto
  qed (use step shrink in auto)
qed simp

lemma store_descendants_ok: "store_ok fuel (store_descendants env now fuel)"
proof (induction fuel)
  case (Suc fuel)
  show ?case
    unfolding store_ok_def
  proof (intro allI impI)
    fix h raw and p :: sync_protocol
    assume p: "pm_len (sp_pending_headers p) < Suc fuel"
    let ?p1 = "record_header env now h raw p"
    let ?ws = "waiting_children env (hd_id h) ?p1"
    have "pm_len (sp_pending_headers (unpend (fst (hd ?ws)) ?p1)) < fuel" if "?ws \<noteq> []"
      using waiting_children_pending [of "hd ?ws" env "hd_id h" ?p1] unpend_len(2) [of ?p1 "fst (hd ?ws)"] that p by auto
    from apply_waiting_total [OF Suc _ this] p
    obtain r p2 where "apply_waiting (store_descendants env now fuel) ?ws ?p1 = Some (r, p2)"
        "pm_len (sp_pending_headers p2) \<le> pm_len (sp_pending_headers p)"
      by auto
    then show "\<exists>r p'. store_descendants env now (Suc fuel) h raw p = Some (r, p')
        \<and> pm_len (sp_pending_headers p') \<le> pm_len (sp_pending_headers p)"
      by (cases r) (auto simp: Let_def prod_eq_iff)
  qed
qed (simp add: store_ok_def)

text \<open>More fuel does not change a result.\<close>

lemma apply_waiting_mono:
  assumes "\<And>h raw p r. store h raw p = Some r \<Longrightarrow> store' h raw p = Some r"
  shows "apply_waiting store ws p = Some r \<Longrightarrow> apply_waiting store' ws p = Some r"
proof (induction ws arbitrary: p)
  case (Cons w ws)
  then show ?case
    using assms by (auto split: option.splits sum.splits prod.splits)
qed simp

lemma store_descendants_Suc:
  "store_descendants env now fuel h raw p = Some r \<Longrightarrow> store_descendants env now (Suc fuel) h raw p = Some r"
proof (induction fuel arbitrary: h raw p r)
  case (Suc fuel)
  let ?p1 = "record_header env now h raw p"
  obtain x where x: "apply_waiting (store_descendants env now fuel) (waiting_children env (hd_id h) ?p1) ?p1 = Some x"
    using Suc.prems by (auto simp: Let_def split: option.splits)
  have "apply_waiting (store_descendants env now (Suc fuel)) (waiting_children env (hd_id h) ?p1) ?p1 = Some x"
    using apply_waiting_mono [OF Suc.IH x] .
  then show ?case
    using Suc.prems x unfolding store_descendants.simps(2) [of env now "Suc fuel"] by (simp add: Let_def)
qed simp

text \<open>C13: storing a header and everything that waits for it ends: the depth of the recursion is at most the
  number of waiting headers and one, and with that much fuel or more the result is the same and not
  the end of the fuel. The number of waiting headers does not grow.\<close>

theorem store_descendants_terminates:
  assumes "pm_len (sp_pending_headers p) < fuel"
  shows "store_descendants env now fuel h raw p = Some (store_header_and_descendants env now h raw p)
       \<and> pm_len (sp_pending_headers (snd (store_header_and_descendants env now h raw p))) \<le> pm_len (sp_pending_headers p)"
proof -
  obtain r p' where run: "store_descendants env now (Suc (pm_len (sp_pending_headers p))) h raw p = Some (r, p')"
      "pm_len (sp_pending_headers p') \<le> pm_len (sp_pending_headers p)"
    using store_descendants_ok [of "Suc (pm_len (sp_pending_headers p))" env now] unfolding store_ok_def by blast
  have "store_descendants env now (Suc (pm_len (sp_pending_headers p)) + k) h raw p = Some (r, p')" for k
    by (induction k) (use run store_descendants_Suc in \<open>simp_all del: store_descendants.simps\<close>)
  from this [of "fuel - Suc (pm_len (sp_pending_headers p))"] show ?thesis
    using run assms by (simp add: store_header_and_descendants_def del: store_descendants.simps)
qed

subsection \<open>The index of waiting headers\<close>

definition children_of :: "pending_headers_map \<Rightarrow> bytes \<Rightarrow> bytes list" where
  "children_of pm par = (case map_of (pm_by_parent pm) par of Some c \<Rightarrow> c | None \<Rightarrow> [])"

definition waiting_inv :: "pending_headers_map \<Rightarrow> bool" where
  "waiting_inv pm \<longleftrightarrow> distinct (map fst (pm_by_id pm)) \<and> sorted (pm_by_height pm) \<and> distinct (pm_by_height pm)
     \<and> (\<forall>par i. i \<in> set (children_of pm par) \<longleftrightarrow>
          (\<exists>ph. map_of (pm_by_id pm) i = Some ph \<and> ph_parent_id ph = par))
     \<and> (\<forall>par. map_of (pm_by_parent pm) par \<noteq> Some [])
     \<and> (\<forall>h i. (h, i) \<in> set (pm_by_height pm) \<longleftrightarrow>
          (\<exists>ph. map_of (pm_by_id pm) i = Some ph \<and> hd_height (ph_header ph) = h))"

lemma waiting_invD:
  assumes "waiting_inv pm"
  shows "distinct (map fst (pm_by_id pm))" "sorted (pm_by_height pm)" "distinct (pm_by_height pm)"
    "i \<in> set (children_of pm par) \<longleftrightarrow> (\<exists>ph. map_of (pm_by_id pm) i = Some ph \<and> ph_parent_id ph = par)"
    "map_of (pm_by_parent pm) par \<noteq> Some []"
    "(h, i) \<in> set (pm_by_height pm) \<longleftrightarrow> (\<exists>ph. map_of (pm_by_id pm) i = Some ph \<and> hd_height (ph_header ph) = h)"
  using assms unfolding waiting_inv_def by blast+

lemma waiting_invI:
  assumes "distinct (map fst (pm_by_id pm))" "sorted (pm_by_height pm)" "distinct (pm_by_height pm)"
    and "\<And>par i. i \<in> set (children_of pm par) \<longleftrightarrow> (\<exists>ph. map_of (pm_by_id pm) i = Some ph \<and> ph_parent_id ph = par)"
    and "\<And>par. map_of (pm_by_parent pm) par \<noteq> Some []"
    and "\<And>h i. (h, i) \<in> set (pm_by_height pm) \<longleftrightarrow> (\<exists>ph. map_of (pm_by_id pm) i = Some ph \<and> hd_height (ph_header ph) = h)"
  shows "waiting_inv pm"
  using assms unfolding waiting_inv_def by blast

lemma waiting_inv_new: "waiting_inv pm_new"
  by (simp add: waiting_inv_def pm_new_def children_of_def)

lemma sorted_removeAll: "sorted xs \<Longrightarrow> sorted (removeAll x xs)"
  by (simp add: removeAll_filter_not_eq sorted_filter [where f = id, simplified])

lemma pm_remove_sel:
  assumes "map_of (pm_by_id pm) i = Some ph"
  shows "pm_by_id (snd (pm_remove i pm)) = AList.delete i (pm_by_id pm)"
    "pm_by_height (snd (pm_remove i pm)) = removeAll (hd_height (ph_header ph), i) (pm_by_height pm)"
    "map_of (pm_by_parent (snd (pm_remove i pm))) par =
       (if par = ph_parent_id ph
        then (if removeAll i (children_of pm par) = [] then None else Some (removeAll i (children_of pm par)))
        else map_of (pm_by_parent pm) par)"
  using assms by (auto simp: pm_remove_def Let_def delete_conv' update_conv' children_of_def split: option.split)

lemma waiting_inv_remove:
  assumes "waiting_inv pm"
  shows "waiting_inv (snd (pm_remove i pm))"
proof (cases "map_of (pm_by_id pm) i")
  case None
  then show ?thesis using assms by (simp add: pm_remove_def)
next
  case (Some ph)
  note sel = pm_remove_sel [OF Some] and inv = waiting_invD [OF assms]
  have kids: "set (children_of (snd (pm_remove i pm)) par) =
      (if par = ph_parent_id ph then set (children_of pm par) - {i} else set (children_of pm par))" for par
  proof -
    have "children_of (snd (pm_remove i pm)) par =
        (if par = ph_parent_id ph then removeAll i (children_of pm par) else children_of pm par)"
      unfolding children_of_def [of "snd (pm_remove i pm)"] sel(3) by (simp add: children_of_def)
    then show ?thesis by simp
  qed
  show ?thesis
  proof (rule waiting_invI)
    show "j \<in> set (children_of (snd (pm_remove i pm)) par) \<longleftrightarrow>
        (\<exists>q. map_of (pm_by_id (snd (pm_remove i pm))) j = Some q \<and> ph_parent_id q = par)" for par j
      unfolding kids sel(1) using inv(4) [of j par] Some by (auto simp: delete_conv')
    show "map_of (pm_by_parent (snd (pm_remove i pm))) par \<noteq> Some []" for par
      unfolding sel(3) using inv(5) by auto
    show "(h, j) \<in> set (pm_by_height (snd (pm_remove i pm))) \<longleftrightarrow>
        (\<exists>q. map_of (pm_by_id (snd (pm_remove i pm))) j = Some q \<and> hd_height (ph_header q) = h)" for h j
      unfolding sel using inv(6) [of h j] Some by (auto simp: delete_conv')
  qed (use inv sel in \<open>simp_all add: distinct_delete sorted_removeAll distinct_removeAll\<close>)
qed

text \<open>Insertion, after room has been made.\<close>

definition pm_put :: "bytes \<Rightarrow> pending_header \<Rightarrow> pending_headers_map \<Rightarrow> pending_headers_map" where
  "pm_put i ph pm =
     pm\<lparr>pm_by_id := AList.update i ph (pm_by_id pm),
        pm_by_parent := AList.update (ph_parent_id ph) (List.insert i (children_of pm (ph_parent_id ph))) (pm_by_parent pm),
        pm_by_height := height_insert (hd_height (ph_header ph), i) (pm_by_height pm)\<rparr>"

definition pm_evicted :: "nat \<Rightarrow> pending_headers_map \<Rightarrow> pending_headers_map" where
  "pm_evicted max_size pm =
     (if max_size \<le> length (pm_by_id pm)
      then case pm_by_height pm of [] \<Rightarrow> pm | x # _ \<Rightarrow> snd (pm_remove (snd x) pm) else pm)"

lemma pm_insert_eq: "snd (pm_insert i ph max_size pm) = pm_put i ph (pm_evicted max_size pm)"
  by (auto simp: pm_insert_def pm_put_def pm_evicted_def children_of_def Let_def split: list.split prod.split option.split)

lemma waiting_inv_evicted: "waiting_inv pm \<Longrightarrow> waiting_inv (pm_evicted max_size pm)"
  by (auto simp: pm_evicted_def waiting_inv_remove split: list.split)

lemma set_height_insert: "set (height_insert x xs) = insert x (set xs)"
  by (auto simp: height_insert_def set_insort_key)

lemma waiting_inv_put:
  assumes "waiting_inv pm" "map_of (pm_by_id pm) i = None \<or> map_of (pm_by_id pm) i = Some ph"
  shows "waiting_inv (pm_put i ph pm)"
proof -
  note inv = waiting_invD [OF assms(1)]
  have kids: "set (children_of (pm_put i ph pm) par) =
      (if par = ph_parent_id ph then insert i (set (children_of pm par)) else set (children_of pm par))" for par
  proof -
    have "map_of (pm_by_parent (pm_put i ph pm)) par =
        (if par = ph_parent_id ph then Some (List.insert i (children_of pm par)) else map_of (pm_by_parent pm) par)"
      by (simp add: pm_put_def update_conv')
    then show ?thesis
      by (cases "par = ph_parent_id ph") (simp_all add: children_of_def [of "pm_put i ph pm"], simp add: children_of_def)
  qed
  have by_id: "map_of (pm_by_id (pm_put i ph pm)) j = (if j = i then Some ph else map_of (pm_by_id pm) j)" for j
    by (simp add: pm_put_def update_conv')
  show ?thesis
  proof (rule waiting_invI)
    show "j \<in> set (children_of (pm_put i ph pm) par) \<longleftrightarrow>
        (\<exists>q. map_of (pm_by_id (pm_put i ph pm)) j = Some q \<and> ph_parent_id q = par)" for par j
      unfolding kids by_id using inv(4) [of j par] assms(2) by auto
    show "map_of (pm_by_parent (pm_put i ph pm)) par \<noteq> Some []" for par
      using inv(5) [of par] by (auto simp: pm_put_def update_conv' List.insert_def)
    show "(h, j) \<in> set (pm_by_height (pm_put i ph pm)) \<longleftrightarrow>
        (\<exists>q. map_of (pm_by_id (pm_put i ph pm)) j = Some q \<and> hd_height (ph_header q) = h)" for h j
      unfolding by_id using inv(6) [of h j] assms(2) by (auto simp: pm_put_def set_height_insert)
  qed (use inv in \<open>auto simp: pm_put_def distinct_update height_insert_def distinct_insort sorted_insort\<close>)
qed

lemma pm_evicted_map: "map_of (pm_by_id (pm_evicted max_size pm)) i = Some q \<Longrightarrow> map_of (pm_by_id pm) i = Some q"
  by (auto simp: pm_evicted_def pm_remove_def Let_def delete_conv' split: list.splits if_splits option.splits)

lemma waiting_inv_insert:
  assumes "waiting_inv pm" "map_of (pm_by_id pm) i = None \<or> map_of (pm_by_id pm) i = Some ph"
  shows "waiting_inv (snd (pm_insert i ph max_size pm))"
proof -
  have "map_of (pm_by_id (pm_evicted max_size pm)) i = None \<or> map_of (pm_by_id (pm_evicted max_size pm)) i = Some ph"
    using assms(2) pm_evicted_map [of max_size pm i] by (cases "map_of (pm_by_id (pm_evicted max_size pm)) i") auto
  then show ?thesis
    unfolding pm_insert_eq by (rule waiting_inv_put [OF waiting_inv_evicted [OF assms(1)]])
qed

lemma pm_insert_len:
  assumes "waiting_inv pm" "pm_len pm \<le> max_size" "0 < max_size"
  shows "pm_len (snd (pm_insert i ph max_size pm)) \<le> max_size"
proof -
  have "length (pm_by_id (pm_evicted max_size pm)) < max_size"
  proof (cases "max_size \<le> length (pm_by_id pm)")
    case True
    then obtain j q where "map_of (pm_by_id pm) j = Some q"
      using assms(3) by (cases "pm_by_id pm") fastforce+
    then obtain x xs where x: "pm_by_height pm = x # xs"
      using waiting_invD(6) [OF assms(1)] by (cases "pm_by_height pm") auto
    then have "map_of (pm_by_id pm) (snd x) \<noteq> None"
      using waiting_invD(6) [OF assms(1), of "fst x" "snd x"] by auto
    from pm_remove_len(2) [OF this] show ?thesis
      using x True assms(2) by (simp add: pm_evicted_def pm_len_def)
  qed (simp add: pm_evicted_def)
  moreover have "length (AList.update i ph m) \<le> Suc (length m)" for m
    by (induction m) auto
  ultimately show ?thesis
    unfolding pm_insert_eq pm_len_def pm_put_def by (simp add: le_trans less_Suc_eq_le Suc_le_eq) (meson Suc_leI le_trans)
qed

subsection \<open>What the handlers leave alone\<close>

fun batch_of :: "sync_command \<Rightarrow> (header \<times> bytes) list" where
  "batch_of (StoreHeadersBatch hs) = hs"
| "batch_of _ = []"

text \<open>The headers offered to the storage so far, and those buffered for it.\<close>

definition handed :: "sync_protocol \<Rightarrow> (header \<times> bytes) list" where
  "handed p = concat (map batch_of (sp_commands p)) @ sp_pending_header_writes p"

text \<open>The part of the state that headers go through, and the part that requests go through.\<close>

definition header_view :: "sync_protocol \<Rightarrow> (header \<times> bytes) list \<times> bytes list \<times> pending_headers_map \<times> bool" where
  "header_view p = (handed p, sp_stored_headers p, sp_pending_headers p, sp_channel_open p)"

definition parts_view :: "sync_protocol \<Rightarrow> downloader \<times> synchronizer" where
  "parts_view p = (sp_downloader p, sp_synchronizer p)"

named_theorems view_defs \<open>unfolding of handlers on the two views\<close>

lemmas [view_defs] = header_view_def parts_view_def handed_def

lemma update_sync_peer_views [simp]:
  "header_view (update_sync_peer peer f p) = header_view p" "parts_view (update_sync_peer peer f p) = parts_view p"
  by (simp_all add: update_sync_peer_def view_defs split: option.split)

lemma send_to_peer_views [simp]:
  "header_view (snd (send_to_peer peer msg p)) = header_view p" "parts_view (snd (send_to_peer peer msg p)) = parts_view p"
  by (simp_all add: send_to_peer_def send_command_def view_defs)

lemma mark_in_flight_views [simp]:
  "header_view (mark_in_flight now ids p) = header_view p" "parts_view (mark_in_flight now ids p) = parts_view p"
  by (simp_all add: mark_in_flight_def view_defs)

lemma snd_sbind: "snd (sbind r f) = (case fst r of Inl e \<Rightarrow> snd r | Inr x \<Rightarrow> snd (f x (snd r)))"
  by (simp add: sbind_def split: sum.split)

lemma on_peer_connected_views [simp]:
  "header_view (snd (on_peer_connected env now peer p)) = header_view p"
  "parts_view (snd (on_peer_connected env now peer p)) = parts_view p"
  by (simp_all add: on_peer_connected_def Let_def) (simp_all add: view_defs)

lemma on_inv_views [simp]:
  "header_view (snd (on_inv now peer iv p)) = header_view p" "parts_view (snd (on_inv now peer iv p)) = parts_view p"
  by (simp_all add: on_inv_def Let_def) (simp_all add: view_defs)

lemma on_sync_info_view [simp]: "header_view (snd (on_sync_info env now peer info p)) = header_view p"
proof -
  have "header_view (p\<lparr>sp_synchronizer := s\<rparr>) = header_view p" for p s
    by (simp add: view_defs)
  then show ?thesis
    by (simp add: on_sync_info_def Let_def)
qed

lemma on_peer_disconnected_view [simp]: "header_view (on_peer_disconnected peer p) = header_view p"
  by (simp add: on_peer_disconnected_def view_defs)

lemma send_requests_views [simp]:
  "header_view (snd (send_requests peer tasks types p)) = header_view p"
  "parts_view (snd (send_requests peer tasks types p)) = parts_view p"
  by (induction types arbitrary: p) (simp_all add: snd_sbind split: sum.split)

lemma dispatch_to_peer_view [simp]: "header_view (snd (dispatch_to_peer env now peer p)) = header_view p"
  by (simp add: dispatch_to_peer_def Let_def) (simp add: view_defs)

lemma dispatch_to_peers_view [simp]: "header_view (snd (dispatch_to_peers env now peers p)) = header_view p"
  by (induction peers arbitrary: p) (simp_all add: snd_sbind split: sum.split)

lemma dispatch_downloads_view [simp]: "header_view (snd (dispatch_downloads env now p)) = header_view p"
  by (simp add: dispatch_downloads_def Let_def clear_stuck_tasks_def) (simp add: view_defs)

lemma on_request_blocks_view [simp]: "header_view (snd (on_request_blocks env now headers p)) = header_view p"
  by (simp add: on_request_blocks_def Let_def) (simp add: view_defs)

lemma queue_block_downloads_view [simp]: "header_view (queue_block_downloads p) = header_view p"
  by (simp add: queue_block_downloads_def Let_def view_defs)

lemma fail_timed_out_view [simp]: "header_view (fail_timed_out now p) = header_view p"
proof -
  have "header_view (fold (\<lambda>peer q. q\<lparr>sp_sync_peers := AList.delete peer (sp_sync_peers q),
      sp_synchronizer := sy_remove_peer peer (sp_synchronizer q)\<rparr>) ps q) = header_view q" for ps q
    by (induction ps arbitrary: q) (simp_all add: view_defs)
  then show ?thesis
    by (simp add: fail_timed_out_def Let_def) (simp add: view_defs)
qed

lemma requeue_views [simp]:
  "header_view (requeue_timed_out_headers env now p) = header_view p"
  "parts_view (requeue_timed_out_headers env now p) = parts_view p"
proof -
  have "header_view (fold requeue_header ids q) = header_view q \<and> parts_view (fold requeue_header ids q) = parts_view q" for ids q
    by (induction ids arbitrary: q) (simp_all add: requeue_header_def Let_def view_defs)
  then show "header_view (requeue_timed_out_headers env now p) = header_view p"
      "parts_view (requeue_timed_out_headers env now p) = parts_view p"
    by (simp_all add: requeue_timed_out_headers_def)
qed

lemma flush_if_due_views [simp]:
  "sp_channel_open p \<Longrightarrow> header_view (snd (flush_if_due env now p)) = header_view p"
  "parts_view (snd (flush_if_due env now p)) = parts_view p"
  by (auto simp: flush_if_due_def flush_pending_headers_def snd_sbind send_command_def Let_def view_defs
      sbind_def split: sum.split store_reply.split)

lemma block_views [simp]:
  "header_view (snd (on_block_received env i data p)) = header_view p"
  "header_view (snd (on_extension_received i data p)) = header_view p"
  "header_view (snd (on_transaction_received peer i data p)) = header_view p"
  "parts_view (snd (on_transaction_received peer i data p)) = parts_view p"
  "header_view (on_block_applied block_id height p) = header_view p"
  "header_view (on_block_failed block_id p) = header_view p"
  by (auto simp: on_block_received_def on_extension_received_def on_transaction_received_def on_block_applied_def
      on_block_failed_def fail_block_def send_command_def sp_set_height_def snd_sbind Let_def view_defs
      split: option.split sum.split)

lemma request_pending_headers_views [simp]:
  "header_view (snd (request_pending_headers env now p)) = header_view p"
  "parts_view (snd (request_pending_headers env now p)) = parts_view p"
  by (auto simp: request_pending_headers_def Let_def split: list.split prod.split) (simp_all add: view_defs)

lemma request_more_headers_parts [simp]: "parts_view (snd (request_more_headers_if_needed env now p)) = parts_view p"
  by (auto simp: request_more_headers_if_needed_def Let_def split: list.split) (simp_all add: view_defs)

subsection \<open>Headers follow their parents\<close>

fun parents_first :: "bytes set \<Rightarrow> (header \<times> bytes) list \<Rightarrow> bool" where
  "parents_first known [] = True"
| "parents_first known (x # xs) = (hd_parent_id (fst x) \<in> known \<and> parents_first (insert (hd_id (fst x)) known) xs)"

definition known_ids :: "bytes set \<Rightarrow> (header \<times> bytes) list \<Rightarrow> bytes set" where
  "known_ids known xs = known \<union> (\<lambda>x. hd_id (fst x)) ` set xs"

lemma parents_first_snoc:
  "parents_first known (xs @ [x]) \<longleftrightarrow> parents_first known xs \<and> hd_parent_id (fst x) \<in> known_ids known xs"
  by (induction known xs rule: parents_first.induct) (auto simp: known_ids_def)

lemma parents_first_mid:
  "parents_first known (xs @ x # ys) \<Longrightarrow> hd_parent_id (fst x) \<in> known_ids known xs"
  by (induction known xs rule: parents_first.induct) (auto simp: known_ids_def)

text \<open>A header that waits has the bytes it was parsed from, among those that were received.\<close>

definition pending_ok :: "('b, 'x) hist_env_scheme \<Rightarrow> bytes set \<Rightarrow> bytes \<Rightarrow> pending_header \<Rightarrow> bool" where
  "pending_ok env received i ph \<longleftrightarrow> raw_of env (ph_header ph) (ph_raw_bytes ph) \<and> ph_raw_bytes ph \<in> received
     \<and> hd_id (ph_header ph) = i \<and> hd_parent_id (ph_header ph) = ph_parent_id ph"

lemma raw_of_id: "raw_of env h raw \<Longrightarrow> hd_id h = blake_hash env raw"
  by (auto simp: raw_of_def)

lemma raw_of_unique: "raw_of env h raw \<Longrightarrow> raw_of env h' raw \<Longrightarrow> h = h'"
  by (auto simp: raw_of_def)

lemma pending_ok_unique:
  assumes "inj_on (blake_hash env) received" "pending_ok env received i ph" "pending_ok env received i ph'"
  shows "ph = ph'"
proof -
  have "blake_hash env (ph_raw_bytes ph) = blake_hash env (ph_raw_bytes ph')"
    using assms(2,3) raw_of_id by (metis pending_ok_def)
  then have raw: "ph_raw_bytes ph = ph_raw_bytes ph'"
    using assms by (simp add: pending_ok_def inj_on_eq_iff)
  then have "ph_header ph = ph_header ph'"
    using assms(2,3) raw_of_unique unfolding pending_ok_def by metis
  then show ?thesis
    using raw assms(2,3) by (simp add: pending_ok_def)
qed

definition link_inv :: "('b, 'x) hist_env_scheme \<Rightarrow> bytes set \<Rightarrow> bytes set \<Rightarrow>
    (header \<times> bytes) list \<times> bytes list \<times> pending_headers_map \<times> bool \<Rightarrow> bool" where
  "link_inv env known received v \<longleftrightarrow> (case v of (xs, stored, pm, is_open) \<Rightarrow>
     parents_first known xs \<and> (\<forall>x \<in> set xs. raw_of env (fst x) (snd x)) \<and> set stored \<subseteq> known_ids known xs
     \<and> waiting_inv pm \<and> pm_len pm \<le> MAX_PENDING_HEADERS \<and> is_open
     \<and> (\<forall>i ph. map_of (pm_by_id pm) i = Some ph \<longrightarrow> pending_ok env received i ph))"

lemma header_view_record [simp]:
  "header_view (record_header env now h raw p) =
     (handed p @ [(h, raw)], lru_put STORED_HEADERS_CACHE_SIZE (hd_id h) (sp_stored_headers p), sp_pending_headers p, sp_channel_open p)"
  by (simp add: record_header_def buffer_header_for_storage_def sp_set_height_def view_defs Let_def)

lemma link_inv_record:
  assumes "link_inv env known received (header_view p)" "raw_of env h raw" "hd_parent_id h \<in> known_ids known (handed p)"
  shows "link_inv env known received (header_view (record_header env now h raw p))"
  using assms set_lru_put [of STORED_HEADERS_CACHE_SIZE "hd_id h" "sp_stored_headers p"]
  by (auto simp: link_inv_def parents_first_snoc header_view_def [of p] known_ids_def)

lemma link_invI:
  assumes "parents_first known (handed p)" "\<forall>x \<in> set (handed p). raw_of env (fst x) (snd x)"
    "set (sp_stored_headers p) \<subseteq> known_ids known (handed p)" "waiting_inv (sp_pending_headers p)"
    "pm_len (sp_pending_headers p) \<le> MAX_PENDING_HEADERS" "sp_channel_open p"
    "\<And>i ph. map_of (pm_by_id (sp_pending_headers p)) i = Some ph \<Longrightarrow> pending_ok env received i ph"
  shows "link_inv env known received (header_view p)"
  using assms unfolding link_inv_def header_view_def prod.case by blast

lemma link_invD:
  assumes "link_inv env known received (header_view p)"
  shows "parents_first known (handed p)" "\<forall>x \<in> set (handed p). raw_of env (fst x) (snd x)"
    "set (sp_stored_headers p) \<subseteq> known_ids known (handed p)" "waiting_inv (sp_pending_headers p)"
    "pm_len (sp_pending_headers p) \<le> MAX_PENDING_HEADERS" "sp_channel_open p"
    "map_of (pm_by_id (sp_pending_headers p)) i = Some ph \<Longrightarrow> pending_ok env received i ph"
  using assms unfolding link_inv_def header_view_def prod.case by blast+

lemma pm_remove_map: "map_of (pm_by_id (snd (pm_remove i pm))) j = Some ph \<Longrightarrow> map_of (pm_by_id pm) j = Some ph"
  by (auto simp: pm_remove_def Let_def delete_conv' split: option.splits if_splits)

lemma handed_unpend [simp]: "handed (unpend i p) = handed p"
  by (simp add: unpend_def handed_def)

lemma unpend_sel [simp]:
  "sp_pending_headers (unpend i p) = snd (pm_remove i (sp_pending_headers p))"
  "sp_stored_headers (unpend i p) = sp_stored_headers p" "sp_channel_open (unpend i p) = sp_channel_open p"
  by (simp_all add: unpend_def)

lemma link_inv_unpend:
  assumes "link_inv env known received (header_view p)"
  shows "link_inv env known received (header_view (unpend i p))"
proof (rule link_invI)
  show "pm_len (sp_pending_headers (unpend i p)) \<le> MAX_PENDING_HEADERS"
    using link_invD(5) [OF assms] pm_remove_len(1) [of i "sp_pending_headers p"] by simp
  show "pending_ok env received j ph" if "map_of (pm_by_id (sp_pending_headers (unpend i p))) j = Some ph" for j ph
    using that link_invD(7) [OF assms] pm_remove_map [of i "sp_pending_headers p" j ph] by simp
qed (use link_invD(1-4,6) [OF assms] waiting_inv_remove in simp_all)

lemma waiting_children_ok:
  assumes "link_inv env known received (header_view p)" "w \<in> set (waiting_children env' par p)" "\<forall>ids. set (id_iter env' ids) = set ids"
  shows "pending_ok env received (fst w) (snd w) \<and> hd_parent_id (ph_header (snd w)) = par"
proof -
  have ok: "pending_ok env received (fst w) (snd w)" and inv: "waiting_inv (sp_pending_headers p)"
    using assms(1) waiting_children_pending [OF assms(2)] by (simp_all add: link_inv_def header_view_def)
  obtain c where "map_of (pm_by_parent (sp_pending_headers p)) par = Some c" "fst w \<in> set c"
  proof (cases "map_of (pm_by_parent (sp_pending_headers p)) par")
    case (Some c)
    then show ?thesis
      using assms(2,3) that by (auto simp: waiting_children_def get_by_parent_def List.map_filter_def split: option.splits)
  qed (use assms(2) in \<open>simp add: waiting_children_def get_by_parent_def\<close>)
  then have "fst w \<in> set (children_of (sp_pending_headers p) par)"
    by (simp add: children_of_def)
  then show ?thesis
    using waiting_invD(4) [OF inv] waiting_children_pending [OF assms(2)] ok by (auto simp: pending_ok_def)
qed

text \<open>What storing a header keeps and lets grow.\<close>

definition stores_linked :: "('b, 'x) hist_env_scheme \<Rightarrow> bytes set \<Rightarrow> bytes set \<Rightarrow>
    (header \<Rightarrow> bytes \<Rightarrow> sync_protocol \<Rightarrow> unit handled option) \<Rightarrow> bool" where
  "stores_linked env known received store \<longleftrightarrow> (\<forall>h raw p r p'. store h raw p = Some (r, p')
     \<longrightarrow> link_inv env known received (header_view p) \<longrightarrow> raw_of env h raw \<longrightarrow> hd_parent_id h \<in> known_ids known (handed p)
     \<longrightarrow> link_inv env known received (header_view p') \<and> known_ids known (handed p) \<subseteq> known_ids known (handed p'))"

lemma apply_waiting_linked:
  assumes "stores_linked env known received store" "apply_waiting store ws p = Some (r, p')" "link_inv env known received (header_view p)"
    and "\<forall>w \<in> set ws. raw_of env (ph_header (snd w)) (ph_raw_bytes (snd w)) \<and> hd_parent_id (ph_header (snd w)) \<in> known_ids known (handed p)"
  shows "link_inv env known received (header_view p') \<and> known_ids known (handed p) \<subseteq> known_ids known (handed p')"
  using assms(2-)
proof (induction ws arbitrary: p)
  case (Cons w ws)
  obtain r1 p1 where step: "store (ph_header (snd w)) (ph_raw_bytes (snd w)) (unpend (fst w) p) = Some (r1, p1)"
    using Cons.prems(1) by (auto split: option.splits)
  have one: "link_inv env known received (header_view p1)" "known_ids known (handed p) \<subseteq> known_ids known (handed p1)"
    using assms(1) step link_inv_unpend [OF Cons.prems(2)] Cons.prems(3) unfolding stores_linked_def by fastforce+
  show ?case
  proof (cases r1)
    case (Inl e)
    then show ?thesis using Cons.prems(1) step one by simp
  next
    case (Inr u)
    then have "apply_waiting store ws p1 = Some (r, p')"
      using Cons.prems(1) step by simp
    from Cons.IH [OF this one(1)] Cons.prems(3) one(2) show ?thesis by auto
  qed
qed simp

lemma link_inv_open: "link_inv env known received (header_view p) \<Longrightarrow> sp_channel_open p"
  by (simp add: link_inv_def header_view_def)

lemma handed_view: "handed p = fst (header_view p)"
  by (simp add: header_view_def)

lemma store_descendants_linked:
  assumes "\<forall>ids. set (id_iter env ids) = set ids"
  shows "stores_linked env known received (store_descendants env now fuel)"
proof (induction fuel)
  case (Suc fuel)
  show ?case
    unfolding stores_linked_def
  proof (intro allI impI)
    fix h raw and p :: sync_protocol and r p'
    let ?p1 = "record_header env now h raw p"
    assume run: "store_descendants env now (Suc fuel) h raw p = Some (r, p')"
      and p: "link_inv env known received (header_view p)" and h: "raw_of env h raw" "hd_parent_id h \<in> known_ids known (handed p)"
    note p1 = link_inv_record [OF p h, of now]
    have grow: "known_ids known (handed p) \<subseteq> known_ids known (handed ?p1)" "hd_id h \<in> known_ids known (handed ?p1)"
      by (auto simp: handed_view [of ?p1] known_ids_def)
    obtain r2 p2 where ws: "apply_waiting (store_descendants env now fuel) (waiting_children env (hd_id h) ?p1) ?p1 = Some (r2, p2)"
      using run by (auto simp: Let_def split: option.splits)
    have "\<forall>w \<in> set (waiting_children env (hd_id h) ?p1).
        raw_of env (ph_header (snd w)) (ph_raw_bytes (snd w)) \<and> hd_parent_id (ph_header (snd w)) \<in> known_ids known (handed ?p1)"
    proof
      fix w assume "w \<in> set (waiting_children env (hd_id h) ?p1)"
      from waiting_children_ok [OF p1 this assms] grow(2)
      show "raw_of env (ph_header (snd w)) (ph_raw_bytes (snd w)) \<and> hd_parent_id (ph_header (snd w)) \<in> known_ids known (handed ?p1)"
        unfolding pending_ok_def by metis
    qed
    from apply_waiting_linked [OF Suc ws p1 this] grow(1)
    have p2: "link_inv env known received (header_view p2)" "known_ids known (handed p) \<subseteq> known_ids known (handed p2)"
      by auto
    have "header_view p' = header_view p2"
      using run ws flush_if_due_views(1) [OF link_inv_open [OF p2(1)], of env now] by (cases r2) (auto simp: Let_def)
    then show "link_inv env known received (header_view p') \<and> known_ids known (handed p) \<subseteq> known_ids known (handed p')"
      using p2 by (simp add: handed_view)
  qed
qed (simp add: stores_linked_def)

lemma link_inv_view:
  "header_view p' = header_view p \<Longrightarrow> link_inv env known received (header_view p) \<Longrightarrow> link_inv env known received (header_view p')"
  by simp

lemma store_header_linked:
  assumes "\<forall>ids. set (id_iter env ids) = set ids" "link_inv env known received (header_view p)"
    and "raw_of env h raw" "hd_parent_id h \<in> known_ids known (handed p)"
  shows "link_inv env known received (header_view (snd (store_header_and_descendants env now h raw p)))"
proof (cases "store_descendants env now (Suc (pm_len (sp_pending_headers p))) h raw p")
  case None
  then show ?thesis
    using assms(2) by (simp add: store_header_and_descendants_def del: store_descendants.simps)
next
  case (Some x)
  then show ?thesis
    using store_descendants_linked [OF assms(1), of known received now "Suc (pm_len (sp_pending_headers p))"] assms(2-)
    unfolding stores_linked_def store_header_and_descendants_def by (cases x) (fastforce simp del: store_descendants.simps)
qed

lemma link_inv_wait:
  assumes p: "link_inv env known received (header_view p)" and inj: "inj_on (blake_hash env) received"
    and new: "pending_ok env received i ph"
  shows "link_inv env known received (header_view (p\<lparr>sp_pending_headers := snd (pm_insert i ph MAX_PENDING_HEADERS (sp_pending_headers p))\<rparr>))"
    (is "link_inv _ _ _ (header_view ?q)")
proof (rule link_invI)
  have free: "map_of (pm_by_id (sp_pending_headers p)) i = None \<or> map_of (pm_by_id (sp_pending_headers p)) i = Some ph"
    using link_invD(7) [OF p] pending_ok_unique [OF inj _ new] by (cases "map_of (pm_by_id (sp_pending_headers p)) i") auto
  show "waiting_inv (sp_pending_headers ?q)"
    using waiting_inv_insert [OF link_invD(4) [OF p] free] by simp
  show "pm_len (sp_pending_headers ?q) \<le> MAX_PENDING_HEADERS"
    using pm_insert_len [OF link_invD(4,5) [OF p]] by (simp add: MAX_PENDING_HEADERS_def)
  show "pending_ok env received j q" if "map_of (pm_by_id (sp_pending_headers ?q)) j = Some q" for j q
  proof -
    have "(if j = i then Some ph else map_of (pm_by_id (pm_evicted MAX_PENDING_HEADERS (sp_pending_headers p))) j) = Some q"
      using that by (simp add: pm_insert_eq pm_put_def update_conv')
    then show ?thesis
      using new pm_evicted_map [of MAX_PENDING_HEADERS "sp_pending_headers p" j q] link_invD(7) [OF p] by (auto split: if_splits)
  qed
  have same: "handed ?q = handed p"
    by (simp add: handed_def)
  show "parents_first known (handed ?q)" "\<forall>x \<in> set (handed ?q). raw_of env (fst x) (snd x)"
    "set (sp_stored_headers ?q) \<subseteq> known_ids known (handed ?q)" "sp_channel_open ?q"
    unfolding same using link_invD(1,2,3,6) [OF p] by simp_all
qed

lemma on_header_received_linked:
  assumes "\<forall>ids. set (id_iter env ids) = set ids" "inj_on (blake_hash env) received" "data \<in> received"
    and "link_inv env known received (header_view p)"
  shows "link_inv env known received (header_view (snd (on_header_received env now peer i data p)))"
proof -
  define p1 where "p1 = p\<lparr>sp_in_flight_headers := AList.delete i (sp_in_flight_headers p)\<rparr>"
  have "header_view p1 = header_view p"
    by (simp add: p1_def view_defs)
  then have p1: "link_inv env known received (header_view p1)"
    using assms(4) by simp
  show ?thesis
  proof (cases "header_parse env data")
    case (Some h0)
    define h where "h = h0\<lparr>hd_id := blake_hash env data\<rparr>"
    have h: "raw_of env h data" "hd_id h = blake_hash env data"
      using Some by (simp_all add: raw_of_def h_def)
    have stored: "link_inv env known received (header_view (snd (store_header_and_descendants env now h data p1)))"
      if "hd_parent_id h \<in> set (sp_stored_headers p1)"
      using store_header_linked [OF assms(1) p1 h(1)] link_invD(3) [OF p1] that by blast
    have "pending_ok env received (blake_hash env data) \<lparr>ph_header = h, ph_raw_bytes = data, ph_parent_id = hd_parent_id h\<rparr>"
      using h assms(3) by (simp add: pending_ok_def)
    from link_inv_wait [OF p1 assms(2) this] show ?thesis
      using p1 stored Some
      by (simp add: on_header_received_def Let_def compute_header_id_def flip: p1_def h_def)
  qed (use p1 in \<open>simp add: on_header_received_def Let_def flip: p1_def\<close>)
qed

lemma request_more_headers_linked:
  assumes "link_inv env known received (header_view p)"
  shows "link_inv env known received (header_view (snd (request_more_headers_if_needed env' now p)))"
proof -
  define p1 where "p1 = (if pm_by_id (sp_pending_headers p) \<noteq> [] \<and> sp_stored_headers p = [] \<and> hc_headers (sp_header_chain p) = []
      then p\<lparr>sp_pending_headers := pm_clear (sp_pending_headers p)\<rparr> else p)"
  have sel: "handed p1 = handed p" "sp_stored_headers p1 = sp_stored_headers p" "sp_channel_open p1 = sp_channel_open p"
    by (simp_all add: p1_def handed_def)
  have "link_inv env known received (header_view p1)"
  proof (rule link_invI)
    show "waiting_inv (sp_pending_headers p1)" "pm_len (sp_pending_headers p1) \<le> MAX_PENDING_HEADERS"
      using link_invD(4,5) [OF assms] waiting_inv_new by (simp_all add: p1_def pm_clear_def pm_len_def pm_new_def)
    show "pending_ok env received i ph" if "map_of (pm_by_id (sp_pending_headers p1)) i = Some ph" for i ph
      using that link_invD(7) [OF assms] by (auto simp: p1_def pm_clear_def pm_new_def split: if_splits)
  qed (use link_invD(1,2,3,6) [OF assms] in \<open>simp_all add: sel\<close>)
  moreover have "header_view (snd (request_more_headers_if_needed env' now p)) \<in> {header_view p, header_view p1}"
  proof -
    have tick: "header_view (p1\<lparr>sp_sync_tick := n\<rparr>) = header_view p1" for n
      by (simp add: view_defs)
    show ?thesis
      by (auto simp: request_more_headers_if_needed_def Let_def tick simp flip: p1_def split: list.split)
  qed
  ultimately show ?thesis
    using assms by auto
qed

lemma on_tick_linked:
  assumes "link_inv env known received (header_view p)"
  shows "link_inv env known received (header_view (snd (on_tick env' now p)))"
proof -
  have "link_inv env known received (header_view (snd (flush_if_due env' now p)))"
    using assms flush_if_due_views(1) [OF link_inv_open [OF assms], of env' now] by simp
  then show ?thesis
    by (auto simp: on_tick_def snd_sbind intro!: request_more_headers_linked split: sum.split)
qed

subsection \<open>Runs\<close>

text \<open>
  The states the protocol goes through: every event of the network and of the node, and the two
  operations the node calls besides. The headers of the modifiers received are among \<open>received\<close>.
\<close>

fun header_bytes :: "sync_event \<Rightarrow> bytes set" where
  "header_bytes (ModifierReceived peer type_id i data) = (if modifier_from_byte type_id = Some MT_Header then {data} else {})"
| "header_bytes _ = {}"

inductive protocol_run :: "('b, 'x) sync_env_scheme \<Rightarrow> bytes set \<Rightarrow> sync_protocol \<Rightarrow> sync_protocol \<Rightarrow> bool"
  for env received p0 where
  run_start: "protocol_run env received p0 p0"
| run_event: "protocol_run env received p0 p \<Longrightarrow> header_bytes ev \<subseteq> received \<Longrightarrow>
    protocol_run env received p0 (snd (handle_event env now ev p))"
| run_set_height: "protocol_run env received p0 p \<Longrightarrow> protocol_run env received p0 (sp_set_height h p)"
| run_set_headers: "protocol_run env received p0 p \<Longrightarrow> protocol_run env received p0 (set_our_headers ids p)"

definition protocol_start :: "sync_config \<Rightarrow> bytes list \<Rightarrow> bytes list \<Rightarrow> header list \<Rightarrow> sync_protocol" where
  "protocol_start config all_header_ids locator_ids newest =
     init_from_stored_headers all_header_ids locator_ids newest (protocol_new config)"

definition loaded_ids :: "bytes list \<Rightarrow> bytes set" where
  "loaded_ids all_header_ids = insert (replicate 32 0) (set all_header_ids)"

lemma set_fold_lru_put: "set (fold (lru_put cap) ids xs) \<subseteq> set ids \<union> set xs"
proof (induction ids arbitrary: xs)
  case (Cons i ids)
  from Cons [of "lru_put cap i xs"] set_lru_put [of cap i xs] show ?case by auto
qed simp

lemma protocol_start_linked:
  "link_inv env (loaded_ids ids) received (header_view (protocol_start config ids locs hs))"
proof (rule link_invI)
  show "set (sp_stored_headers (protocol_start config ids locs hs))
      \<subseteq> known_ids (loaded_ids ids) (handed (protocol_start config ids locs hs))"
    using set_fold_lru_put [of STORED_HEADERS_CACHE_SIZE "drop (length ids - STORED_HEADERS_CACHE_SIZE) ids" "[replicate 32 0]"]
    by (auto simp: protocol_start_def init_from_stored_headers_def protocol_new_def known_ids_def loaded_ids_def Let_def
        dest: in_set_dropD)
qed (simp_all add: protocol_start_def init_from_stored_headers_def protocol_new_def handed_def Let_def waiting_inv_new,
    simp_all add: pm_len_def pm_new_def split: if_splits)

lemma handle_event_linked:
  assumes "\<forall>ids. set (id_iter env ids) = set ids" "inj_on (blake_hash env) received" "header_bytes ev \<subseteq> received"
    and "link_inv env known received (header_view p)"
  shows "link_inv env known received (header_view (snd (handle_event env now ev p)))"
proof (cases ev)
  case (ModifierReceived peer t i data)
  have p1: "link_inv env known received (header_view (update_sync_peer peer f p))" for f
    using assms(4) by simp
  show ?thesis
    using assms(3) on_header_received_linked [OF assms(1,2) _ p1, of data] assms(4) ModifierReceived
    by (auto simp: on_modifier_def Let_def split: option.split modifier_type.split)
next
  case Tick
  then show ?thesis
    using on_tick_linked [OF assms(4)] by simp
qed (use assms(4) in simp_all)

lemma protocol_run_linked:
  assumes "protocol_run env received (protocol_start config ids locs hs) p"
    and "\<forall>xs. set (id_iter env xs) = set xs" "inj_on (blake_hash env) received"
  shows "link_inv env (loaded_ids ids) received (header_view p)"
  using assms(1)
proof (induction rule: protocol_run.induct)
  case run_start
  show ?case by (rule protocol_start_linked)
next
  case (run_event p ev now)
  from handle_event_linked [OF assms(2,3) run_event(2,3)] show ?case .
next
  case (run_set_height p h)
  have "header_view (sp_set_height h p) = header_view p"
    by (simp add: sp_set_height_def view_defs)
  with run_set_height show ?case by simp
next
  case (run_set_headers p hs)
  have "header_view (set_our_headers hs p) = header_view p"
    by (simp add: set_our_headers_def view_defs)
  with run_set_headers show ?case by simp
qed

subsection \<open>The downloader and the synchroniser are driven through their operations\<close>

definition downloads_ok :: "downloader \<Rightarrow> bool" where
  "downloads_ok d \<longleftrightarrow> dl_reachable download_config_default d \<and> length (dl_in_flight d) \<le> PARALLEL_DOWNLOADS"

lemma downloads_ok_inv: "downloads_ok d \<Longrightarrow> dl_inv d"
  using dl_reachable_inv by (fastforce simp: downloads_ok_def download_config_default_def)

lemma downloads_ok_step:
  "downloads_ok d \<Longrightarrow> dl_step d d' \<Longrightarrow> length (dl_in_flight d') \<le> length (dl_in_flight d) \<Longrightarrow> downloads_ok d'"
  unfolding downloads_ok_def by (meson dl_reach_step le_trans)

lemma fewer_in_flight:
  "length (dl_in_flight (fail i peer d)) \<le> length (dl_in_flight d)"
  "length (dl_in_flight (Download.complete i d)) \<le> length (dl_in_flight d)"
  "length (dl_in_flight (uncomplete i d)) \<le> length (dl_in_flight d)"
  "length (dl_in_flight (clear_failed_peers i d)) \<le> length (dl_in_flight d)"
  by (auto simp: fail_def Download.complete_def uncomplete_def clear_failed_peers_def Let_def length_delete_le split: option.split)

lemma downloads_ok_ops [simp]:
  assumes "downloads_ok d"
  shows "downloads_ok (fail i peer d)" "downloads_ok (Download.complete i d)" "downloads_ok (uncomplete i d)"
    "downloads_ok (clear_failed_peers i d)"
  by (rule downloads_ok_step [OF assms]; rule dl_step.intros fewer_in_flight)+

lemma queue_in_flight: "dl_in_flight (queue_inner force tasks d) = dl_in_flight d"
  unfolding queue_inner_def by (induction tasks arbitrary: d) (auto simp: queue_one_def)

lemma downloads_ok_queue: "downloads_ok d \<Longrightarrow> list_all fresh_task tasks \<Longrightarrow> downloads_ok (dl_queue tasks d)"
  unfolding dl_queue_def using downloads_ok_step dl_step.step_queue by (metis order_refl queue_in_flight)

lemma downloads_ok_fold:
  assumes "\<And>x d. downloads_ok d \<Longrightarrow> downloads_ok (f x d)" "downloads_ok d"
  shows "downloads_ok (fold f xs d)"
  using assms(2) by (induction xs arbitrary: d) (simp_all add: assms(1))

lemma dispatch_pending: "map_of (dl_pending d) j \<noteq> None \<Longrightarrow> map_of (dl_pending (dispatch now i peer d)) j \<noteq> None"
  by (auto simp: dispatch_def update_conv' split: option.split)

lemma fold_dispatch_reachable:
  assumes "dl_reachable config d" "\<forall>t \<in> set ts. map_of (dl_pending d) (task_id t) \<noteq> None"
  shows "dl_reachable config (fold (\<lambda>t. dispatch now (task_id t) peer) ts d)"
  using assms
proof (induction ts arbitrary: d)
  case (Cons t ts)
  then obtain u where "map_of (dl_pending d) (task_id t) = Some u"
    by auto
  from dl_reach_step [OF Cons.prems(1) step_dispatch [OF this]]
  have "dl_reachable config (dispatch now (task_id t) peer d)" .
  with Cons dispatch_pending show ?case by simp
qed simp

lemma downloads_ok_dispatch:
  assumes "downloads_ok d" "\<And>ts. set (iter ts) = set ts"
  shows "downloads_ok (fold (\<lambda>t. dispatch now (task_id t) peer) (get_ready_tasks_for_peer iter count peer d) d)"
proof -
  let ?ready = "get_ready_tasks_for_peer iter count peer d"
  note inv = downloads_ok_inv [OF assms(1)]
  have config: "dl_config d = download_config_default"
    using assms(1) dl_reachable_inv by (simp add: downloads_ok_def download_config_default_def)
  have "dl_reachable download_config_default (fold (\<lambda>t. dispatch now (task_id t) peer) ?ready d)"
    using fold_dispatch_reachable ready_task_pending [OF inv assms(2)] assms(1) unfolding downloads_ok_def by blast
  moreover have "length (dl_in_flight d) + length ?ready \<le> PARALLEL_DOWNLOADS"
    using assms(1) config by (auto simp: downloads_ok_def get_ready_tasks_for_peer_def ready_count_def download_config_default_def)
  ultimately show ?thesis
    using fold_dispatch_length [OF dl_inv_sets(2) [OF inv], of now peer ?ready] by (simp add: downloads_ok_def)
qed

text \<open>The predicate on the two parts that every event keeps.\<close>

definition parts_ok :: "sync_config \<Rightarrow> sync_protocol \<Rightarrow> bool" where
  "parts_ok config p \<longleftrightarrow> downloads_ok (sp_downloader p) \<and> sync_reachable config (sp_synchronizer p)"

lemma parts_ok_view: "parts_view p' = parts_view p \<Longrightarrow> parts_ok config p' = parts_ok config p"
  by (simp add: parts_ok_def parts_view_def)

lemma synced_step [simp]:
  assumes "sync_reachable config s"
  shows "sync_reachable config (sy_set_height h s)" "sync_reachable config (set_peer_height peer h s)"
    "sync_reachable config (sy_remove_peer peer s)" "sync_reachable config (block_received i s)"
  using sync_reachable.step [OF assms] sync_step.intros by blast+

lemma parts_ok_upd [simp]:
  "parts_ok config (p\<lparr>sp_header_chain := hc\<rparr>) = parts_ok config p"
  "parts_ok config (p\<lparr>sp_sync_peers := ps\<rparr>) = parts_ok config p"
  "parts_ok config (p\<lparr>sp_in_flight_headers := fs\<rparr>) = parts_ok config p"
  "parts_ok config (p\<lparr>sp_pending_headers := pm\<rparr>) = parts_ok config p"
  "parts_ok config (p\<lparr>sp_downloader := d\<rparr>) = (downloads_ok d \<and> sync_reachable config (sp_synchronizer p))"
  "parts_ok config (p\<lparr>sp_synchronizer := s\<rparr>) = (downloads_ok (sp_downloader p) \<and> sync_reachable config s)"
  by (auto simp: parts_ok_def)

lemma parts_okD: "parts_ok config p \<Longrightarrow> downloads_ok (sp_downloader p)" "parts_ok config p \<Longrightarrow> sync_reachable config (sp_synchronizer p)"
  by (simp_all add: parts_ok_def)

lemma parts_ok_same [simp]:
  "parts_ok config (snd (on_peer_connected env now peer p)) = parts_ok config p"
  "parts_ok config (snd (on_inv now peer iv p)) = parts_ok config p"
  "parts_ok config (snd (send_to_peer peer msg p)) = parts_ok config p"
  "parts_ok config (update_sync_peer peer f p) = parts_ok config p"
  "parts_ok config (snd (flush_if_due env now p)) = parts_ok config p"
  "parts_ok config (snd (send_requests peer tasks types p)) = parts_ok config p"
  "parts_ok config (snd (on_transaction_received peer i data p)) = parts_ok config p"
  "parts_ok config (requeue_timed_out_headers env now p) = parts_ok config p"
  "parts_ok config (snd (request_more_headers_if_needed env now p)) = parts_ok config p"
  "parts_ok config (unpend i p) = parts_ok config p"
  "parts_ok config (snd (send_command failure cmd p)) = parts_ok config p"
  by (rule parts_ok_view, simp add: send_command_def unpend_def, (simp add: parts_view_def)?)+

lemma parts_ok_disconnect: "parts_ok config p \<Longrightarrow> parts_ok config (on_peer_disconnected peer p)"
  using downloads_ok_fold [of "\<lambda>i. fail i peer"] by (simp add: on_peer_disconnected_def parts_okD)

lemma parts_ok_sync_info: "parts_ok config p \<Longrightarrow> parts_ok config (snd (on_sync_info env now peer info p))"
  using parts_ok_same(4) [of config peer _ p] by (auto simp: on_sync_info_def Let_def parts_okD)

lemma parts_ok_record: "parts_ok config p \<Longrightarrow> parts_ok config (record_header env now h raw p)"
  by (simp add: record_header_def buffer_header_for_storage_def sp_set_height_def parts_ok_def Let_def)

lemma parts_ok_store:
  "store_descendants env now fuel h raw p = Some x \<Longrightarrow> parts_ok config p \<Longrightarrow> parts_ok config (snd x)"
proof (induction fuel arbitrary: h raw p x)
  case (Suc fuel)
  have many: "apply_waiting (store_descendants env now fuel) ws q = Some y \<Longrightarrow> parts_ok config q \<Longrightarrow> parts_ok config (snd y)" for ws q y
  proof (induction ws arbitrary: q)
    case (Cons w ws)
    obtain r q1 where q1: "store_descendants env now fuel (ph_header (snd w)) (ph_raw_bytes (snd w)) (unpend (fst w) q) = Some (r, q1)"
      using Cons.prems(1) by (auto split: option.splits)
    from Suc.IH [OF q1] Cons.prems(2) have "parts_ok config q1" by simp
    then show ?case
      using Cons.IH [of q1] Cons.prems(1) q1 by (cases r) auto
  qed auto
  let ?p1 = "record_header env now h raw p"
  obtain r p2 where ws: "apply_waiting (store_descendants env now fuel) (waiting_children env (hd_id h) ?p1) ?p1 = Some (r, p2)"
    using Suc.prems(1) by (auto simp: Let_def split: option.splits)
  from many [OF this parts_ok_record [OF Suc.prems(2)]] have "parts_ok config p2" by simp
  then show ?case
    using Suc.prems(1) ws by (cases r) (auto simp: Let_def)
qed simp

lemma parts_ok_header: "parts_ok config p \<Longrightarrow> parts_ok config (snd (on_header_received env now peer i data p))"
proof -
  assume p: "parts_ok config p"
  have "parts_ok config (snd (store_header_and_descendants env now h raw q))" if "parts_ok config q" for h raw q
    using parts_ok_store [of env now _ h raw q] that
    by (simp add: store_header_and_descendants_def del: store_descendants.simps split: option.split)
  with p show ?thesis
    by (simp add: on_header_received_def Let_def split: option.split)
qed

lemma parts_ok_sections:
  assumes "parts_ok config p"
  shows "parts_ok config (snd (on_block_received env i data p))" "parts_ok config (snd (on_extension_received i data p))"
    "parts_ok config (on_block_applied block_id height p)" "parts_ok config (on_block_failed block_id p)"
  using parts_okD [OF assms] assms
  by (auto simp: on_block_received_def on_extension_received_def fail_block_def snd_sbind on_block_applied_def on_block_failed_def
      sp_set_height_def Let_def split: option.split sum.split)

lemma parts_ok_dispatch_to_peer:
  assumes "parts_ok config p" "\<And>ts. set (task_iter env ts) = set ts"
  shows "parts_ok config (snd (dispatch_to_peer env now peer p))"
  using downloads_ok_dispatch [OF parts_okD(1) [OF assms(1)] assms(2)] assms(1)
  by (simp add: dispatch_to_peer_def Let_def parts_okD)

lemma parts_ok_dispatch:
  assumes "parts_ok config p" "\<And>ts. set (task_iter env ts) = set ts"
  shows "parts_ok config (snd (dispatch_downloads env now p))"
proof -
  have peers: "parts_ok config (snd (dispatch_to_peers env now peers q))" if "parts_ok config q" for peers q
    using that
  proof (induction peers arbitrary: q)
    case (Cons peer peers)
    from parts_ok_dispatch_to_peer [OF Cons.prems assms(2)] Cons.IH show ?case
      by (simp add: snd_sbind split: sum.split)
  qed simp
  have "parts_ok config (clear_stuck_tasks env p)"
    using downloads_ok_fold [of clear_failed_peers] parts_okD [OF assms(1)] by (simp add: clear_stuck_tasks_def)
  from peers [OF this] assms(1) show ?thesis
    by (simp add: dispatch_downloads_def Let_def)
qed

lemma fresh_new [simp]: "fresh_task (task_new i t)"
  by (simp add: fresh_task_def task_new_def)

lemma parts_ok_request_blocks:
  assumes "parts_ok config p" "\<And>ts. set (task_iter env ts) = set ts"
  shows "parts_ok config (snd (on_request_blocks env now hs p))"
proof -
  have "list_all fresh_task (concat (map (\<lambda>h. [task_new (f h) a, task_new (g h) b]) hs))" for f g a b
    by (simp add: list_all_iff)
  then show ?thesis
    using parts_ok_dispatch [OF _ assms(2)] parts_okD [OF assms(1)] assms(1)
    by (simp add: on_request_blocks_def Let_def downloads_ok_queue)
qed

lemma parts_ok_queue: "parts_ok config p \<Longrightarrow> parts_ok config (queue_block_downloads p)"
  by (simp add: queue_block_downloads_def Let_def parts_okD downloads_ok_queue list_all_iff)

lemma parts_ok_timed_out: "parts_ok config p \<Longrightarrow> parts_ok config (fail_timed_out now p)"
proof -
  assume p: "parts_ok config p"
  have "downloads_ok (fold (\<lambda>(i, peer). fail i peer) xs (sp_downloader p))" for xs
    using downloads_ok_fold [of "\<lambda>(i, peer). fail i peer"] parts_okD(1) [OF p] by auto
  then have p1: "parts_ok config (p\<lparr>sp_downloader := fold (\<lambda>(i, peer). fail i peer) xs (sp_downloader p)\<rparr>)" for xs
    using parts_okD(2) [OF p] by simp
  have "parts_ok config (fold (\<lambda>peer q. q\<lparr>sp_sync_peers := AList.delete peer (sp_sync_peers q),
      sp_synchronizer := sy_remove_peer peer (sp_synchronizer q)\<rparr>) ps q)" if "parts_ok config q" for ps q
    using that by (induction ps arbitrary: q) (simp_all add: parts_ok_def)
  with p1 show ?thesis
    unfolding fail_timed_out_def Let_def by blast
qed

lemma parts_ok_tick:
  assumes "parts_ok config p" "\<And>ts. set (task_iter env ts) = set ts"
  shows "parts_ok config (snd (on_tick env now p))"
proof -
  have "parts_ok config (snd (dispatch_downloads env now (queue_block_downloads
      (requeue_timed_out_headers env now (fail_timed_out now (snd (flush_if_due env now p)))))))"
    using assms(1) by (intro parts_ok_dispatch parts_ok_queue assms(2)) (simp add: parts_ok_timed_out)
  then show ?thesis
    using assms(1) by (simp add: on_tick_def snd_sbind split: sum.split)
qed

lemma parts_ok_event:
  assumes "parts_ok config p" "\<And>ts. set (task_iter env ts) = set ts"
  shows "parts_ok config (snd (handle_event env now ev p))"
proof (cases ev)
  case (ModifierReceived peer t i data)
  define q where "q = update_sync_peer peer (\<lambda>s. s\<lparr>ps_last_activity := now, ps_in_flight := sat_sub_u32 (ps_in_flight s) 1\<rparr>) p"
  have "parts_ok config q"
    using assms(1) by (simp add: q_def)
  then show ?thesis
    using ModifierReceived
    by (simp add: on_modifier_def Let_def parts_ok_header parts_ok_sections flip: q_def split: option.split modifier_type.split)
next
  case (RequestBlocks hs)
  with parts_ok_request_blocks [OF assms] show ?thesis by simp
next
  case Tick
  with parts_ok_tick [OF assms] show ?thesis by simp
qed (use assms(1) parts_ok_disconnect parts_ok_sync_info parts_ok_sections in simp_all)

lemma protocol_run_parts:
  assumes "protocol_run env received (protocol_start config ids locs hs) p" "\<And>ts. set (task_iter env ts) = set ts"
  shows "parts_ok config p"
  using assms(1)
proof (induction rule: protocol_run.induct)
  case run_start
  show ?case
    by (auto simp: protocol_start_def init_from_stored_headers_def protocol_new_def parts_ok_def downloads_ok_def Let_def
        downloader_new_def sync_reachable.new intro: dl_reach_new [of download_config_default, unfolded downloader_new_def])
next
  case (run_event p ev now)
  from parts_ok_event [OF run_event(3) assms(2)] show ?case .
qed (simp_all add: sp_set_height_def set_our_headers_def parts_ok_def)

subsection \<open>Properties of the protocol\<close>

text \<open>An environment for the witnesses: a header is a tag and the identifier of its parent, and is its own identifier.\<close>

definition relay_env :: "bytes sync_env" where
  "relay_env = \<lparr>tx_parse = (\<lambda>_. None), tx_serialize = (\<lambda>_. None), get_u32 = (\<lambda>_. None),
     blake_hash = (\<lambda>d. d), merkle_root = concat, header_serialize = (\<lambda>_. None),
     header_parse = (\<lambda>d. case d of [] \<Rightarrow> None | t # par \<Rightarrow> Some (genesis_parent_header\<lparr>hd_parent_id := par, hd_height := 1\<rparr>)),
     store_reply = (\<lambda>_ _. StoreFailed ''disk''), id_iter = rev, peer_iter = rev, task_iter = rev, type_iter = rev\<rparr>"

definition relay_header :: bytes where
  "relay_header = 1 # replicate 32 0"

definition relay_state :: sync_protocol where
  "relay_state = snd (handle_event relay_env 0 (ModifierReceived [7] (modifier_to_byte MT_Header) relay_header relay_header)
     (protocol_start sync_config_default [] [] []))"

lemma relay_run: "protocol_run relay_env UNIV (protocol_start sync_config_default [] [] []) relay_state"
  unfolding relay_state_def by (rule run_event [OF run_start]) simp

text \<open>C11: whatever order headers arrive in, those handed to the storage come after their parents:
  the parent of each is a header loaded at the start, or the genesis parent, or one handed over before it.
  Each is handed over with the very bytes it was parsed from, its identifier is their hash, and
  no more than the limit of headers wait for a parent. The hash is taken to be
  free of collisions on the bytes received, and a hash map to list exactly its elements.\<close>

theorem headers_follow_parents:
  assumes "protocol_run env received (protocol_start config ids locs hs) p"
    and "\<forall>xs. set (id_iter env xs) = set xs" "inj_on (blake_hash env) received"
  shows "(\<forall>xs x ys. handed p = xs @ x # ys \<longrightarrow>
             hd_parent_id (fst x) \<in> loaded_ids ids \<union> (\<lambda>y. hd_id (fst y)) ` set xs)
       \<and> (\<forall>x \<in> set (handed p). hd_id (fst x) = compute_header_id env (snd x)
            \<and> map_option (\<lambda>h. h\<lparr>hd_id := compute_header_id env (snd x)\<rparr>) (header_parse env (snd x)) = Some (fst x))
       \<and> pm_len (sp_pending_headers p) \<le> MAX_PENDING_HEADERS"
proof -
  note inv = link_invD [OF protocol_run_linked [OF assms]]
  have "hd_parent_id (fst x) \<in> loaded_ids ids \<union> (\<lambda>y. hd_id (fst y)) ` set xs" if "handed p = xs @ x # ys" for xs x ys
    using inv(1) parents_first_mid [of "loaded_ids ids" xs x ys] that by (simp add: known_ids_def)
  moreover have "hd_id (fst x) = compute_header_id env (snd x)
      \<and> map_option (\<lambda>h. h\<lparr>hd_id := compute_header_id env (snd x)\<rparr>) (header_parse env (snd x)) = Some (fst x)"
    if "x \<in> set (handed p)" for x
    using inv(2) that raw_of_id [of env "fst x" "snd x"] by (simp add: compute_header_id_def raw_of_def)
  ultimately show ?thesis
    using inv(5) by blast
qed

lemma relay_handed: "map snd (handed relay_state) = [relay_header]"
  by (simp add: relay_state_def on_modifier_def modifier_from_byte_def update_sync_peer_def protocol_start_def init_from_stored_headers_def
      protocol_new_def on_header_received_def relay_env_def Let_def
      compute_header_id_def relay_header_def store_header_and_descendants_def
      handed_def pm_len_def pm_new_def waiting_children_def get_by_parent_def record_header_def buffer_header_for_storage_def
      flush_if_due_def should_flush_headers_def HEADER_BATCH_SIZE_def HEADER_BATCH_TIMEOUT_MS_def sp_set_height_def)

theorem headers_follow_parents_witness:
  "map snd (handed relay_state) = [relay_header] \<and> hd_parent_id (fst (hd (handed relay_state))) \<in> loaded_ids []"
proof -
  obtain x where x: "handed relay_state = [x]"
    using relay_handed by (cases "handed relay_state") auto
  have "\<forall>xs. set (id_iter relay_env xs) = set xs" "inj_on (blake_hash relay_env) UNIV"
    by (simp_all add: relay_env_def)
  from headers_follow_parents [OF relay_run this] have "hd_parent_id (fst x) \<in> loaded_ids []"
    using x by (metis Un_empty_right append_Nil image_empty list.set(1))
  with x relay_handed show ?thesis by simp
qed

text \<open>C12: the protocol uses its two parts only through their own operations: in every state it can be in,
  the downloader and the synchroniser are in states their own operations lead to, so that every
  property of those holds, and the requests in flight never exceed the limit on parallel downloads.\<close>

theorem protocol_refines_parts:
  assumes "protocol_run env received (protocol_start config ids locs hs) p" "\<And>ts. set (task_iter env ts) = set ts"
  shows "dl_reachable download_config_default (sp_downloader p) \<and> sync_reachable config (sp_synchronizer p)
       \<and> length (dl_in_flight (sp_downloader p)) \<le> PARALLEL_DOWNLOADS"
  using protocol_run_parts [OF assms] by (simp add: parts_ok_def downloads_ok_def)

theorem protocol_refines_parts_witness:
  "dl_reachable download_config_default (sp_downloader relay_state) \<and> sync_reachable sync_config_default (sp_synchronizer relay_state)"
  using protocol_refines_parts [OF relay_run] by (simp add: relay_env_def)

text \<open>A request that is open no more: its task waits for another peer, or was given up.\<close>

definition reoffered :: "peer_id \<Rightarrow> bytes \<Rightarrow> downloader \<Rightarrow> bool" where
  "reoffered peer i d \<longleftrightarrow> (case map_of (dl_pending d) i of
     None \<Rightarrow> i \<in> set (dl_failed d)
   | Some t \<Rightarrow> task_peer t = None \<and> peer_failed t peer)"

lemma fail_flight: "map_of (dl_in_flight (fail i peer d)) j = (if j = i then None else map_of (dl_in_flight d) j)"
  by (auto simp: fail_def Let_def delete_conv' split: option.split)

lemma fail_frame: "j \<noteq> i \<Longrightarrow> reoffered peer j d \<Longrightarrow> reoffered peer j (fail i peer d)"
  by (auto simp: reoffered_def fail_def Let_def delete_conv' update_conv' split: option.split)

lemma fail_pending_other: "j \<noteq> i \<Longrightarrow> map_of (dl_pending (fail i peer d)) j = map_of (dl_pending d) j"
  by (auto simp: fail_def Let_def delete_conv' update_conv' split: option.split)

lemma fail_reoffers: "map_of (dl_pending d) i \<noteq> None \<Longrightarrow> reoffered peer i (fail i peer d)"
  by (auto simp: reoffered_def fail_pending failed_task_def peer_failed_def delete_conv' update_conv')

lemma fail_all:
  assumes "distinct ids" "\<forall>i \<in> set ids. map_of (dl_pending d) i \<noteq> None"
  shows "map_of (dl_in_flight (fold (\<lambda>i. fail i peer) ids d)) j = (if j \<in> set ids then None else map_of (dl_in_flight d) j)"
    "j \<in> set ids \<Longrightarrow> reoffered peer j (fold (\<lambda>i. fail i peer) ids d)"
proof -
  show "map_of (dl_in_flight (fold (\<lambda>i. fail i peer) ids d)) j = (if j \<in> set ids then None else map_of (dl_in_flight d) j)"
    by (induction ids arbitrary: d) (auto simp: fail_flight)
  have keep: "reoffered peer j (fold (\<lambda>i. fail i peer) ids d)" if "j \<notin> set ids" "reoffered peer j d" for ids d
    using that by (induction ids arbitrary: d) (auto simp: fail_frame)
  show "j \<in> set ids \<Longrightarrow> reoffered peer j (fold (\<lambda>i. fail i peer) ids d)"
    using assms
  proof (induction ids arbitrary: d)
    case (Cons i ids)
    show ?case
    proof (cases "j = i")
      case True
      then show ?thesis using Cons.prems keep [of ids "fail i peer d"] fail_reoffers [of d i peer] by simp
    next
      case False
      have "\<forall>k \<in> set ids. map_of (dl_pending (fail i peer d)) k \<noteq> None"
        using Cons.prems fail_pending_other [of _ i peer d] by (metis distinct.simps(2) list.set_intros(2))
      from Cons.IH [OF _ _ this] False Cons.prems(1,2) show ?thesis by simp
    qed
  qed simp
qed

text \<open>C14: when a peer disconnects, the protocol forgets it, its requests are no longer in flight and each of their
  tasks is offered to other peers again, with that peer noted as one that failed it, or is given up;
  the requests at other peers stay where they are.\<close>

theorem disconnect_reoffers_requests:
  fixes peer :: peer_id
  assumes "protocol_run env received (protocol_start config ids locs hs) p" "\<And>ts. set (task_iter env ts) = set ts"
  defines "q \<equiv> on_peer_disconnected peer p"
  shows "map_of (sp_sync_peers q) peer = None \<and> map_of (sy_peer_heights (sp_synchronizer q)) peer = None
       \<and> (\<forall>i. map_of (dl_in_flight (sp_downloader q)) i =
             (if map_of (dl_in_flight (sp_downloader p)) i = Some peer then None else map_of (dl_in_flight (sp_downloader p)) i))
       \<and> (\<forall>i. map_of (dl_in_flight (sp_downloader p)) i = Some peer \<longrightarrow> reoffered peer i (sp_downloader q))"
proof -
  let ?d = "sp_downloader p" and ?gone = "get_in_flight_for_peer peer (sp_downloader p)"
  note inv = downloads_ok_inv [OF parts_okD(1) [OF protocol_run_parts [OF assms(1,2)]]]
  have set_gone: "i \<in> set ?gone \<longleftrightarrow> map_of (dl_in_flight ?d) i = Some peer" for i
    using dl_inv_sets(2) [OF inv] by (force simp: get_in_flight_for_peer_def map_of_eq_Some_iff)
  have gone: "distinct ?gone" "\<forall>i \<in> set ?gone. map_of (dl_pending ?d) i \<noteq> None"
    using dl_inv_sets(2) [OF inv] dl_inv_flight [OF inv] set_gone
    by (auto simp: get_in_flight_for_peer_def distinct_map_filter)
  have "sp_downloader q = fold (\<lambda>i. fail i peer) ?gone ?d"
    by (simp add: q_def on_peer_disconnected_def)
  with fail_all [OF gone, where peer = peer] set_gone show ?thesis
    by (simp add: q_def on_peer_disconnected_def delete_conv' sy_remove_peer_def)
qed

text \<open>C15: the comment that marking headers as stored before they are is safe, ``because if the batch write fails,
  we'll error out anyway'', is wrong: when the storage cannot write a batch, the error is only logged by
  the node, the batch is dropped from the buffer, and its headers stay marked as stored. From then on the header that completed it is
  neither asked for when a peer announces it nor taken when a peer sends it.\<close>

theorem failed_batch_loses_headers:
  assumes "header_parse env data = Some h0" "blake_hash env data \<notin> set (sp_stored_headers p)"
    and "hd_parent_id h0 \<in> set (sp_stored_headers p)" "map_of (pm_by_parent (sp_pending_headers p)) (blake_hash env data) = None"
    and "sp_channel_open p" "HEADER_BATCH_SIZE \<le> Suc (length (sp_pending_header_writes p))"
    and "\<forall>n batch. \<exists>e. store_reply env n batch = StoreFailed e"
  shows "\<exists>e q. on_header_received env now peer (blake_hash env data) data p = (Inl e, q) \<and> sp_pending_header_writes q = []
       \<and> blake_hash env data \<in> set (sp_stored_headers q)
       \<and> (\<forall>now' peer'. on_header_received env now' peer' (blake_hash env data) data q = (Inr (), q)
            \<and> on_inv now' peer' \<lparr>inv_type_id = modifier_to_byte MT_Header, inv_ids = [blake_hash env data]\<rparr> q = (Inr (), q))"
proof -
  let ?i = "blake_hash env data"
  define p1 where "p1 = p\<lparr>sp_in_flight_headers := AList.delete ?i (sp_in_flight_headers p)\<rparr>"
  define h where "h = h0\<lparr>hd_id := ?i\<rparr>"
  define p2 where "p2 = record_header env now h data p1"
  have p2: "sp_pending_header_writes p2 = sp_pending_header_writes p @ [(h, data)]" "sp_channel_open p2"
    "sp_in_flight_headers p2 = AList.delete ?i (sp_in_flight_headers p)" "?i \<in> set (sp_stored_headers p2)"
    using assms(5) by (simp_all add: p2_def p1_def h_def record_header_def buffer_header_for_storage_def sp_set_height_def
        lru_put_def STORED_HEADERS_CACHE_SIZE_def Let_def take_Cons')
  have "waiting_children env (hd_id h) p2 = []"
    using assms(4) by (simp add: waiting_children_def get_by_parent_def p2_def p1_def h_def)
  then have run: "on_header_received env now peer ?i data p = flush_if_due env now p2"
    using assms(1,2,3) by (simp add: on_header_received_def Let_def compute_header_id_def store_header_and_descendants_def
        p1_def [symmetric] h_def [symmetric] p2_def [symmetric]) (simp add: p1_def h_def)
  have due: "should_flush_headers now p2"
    using p2(1) assms(6) by (simp add: should_flush_headers_def)
  obtain e where failed: "store_reply env (length (sp_commands p2)) (sp_pending_header_writes p2) = StoreFailed e"
    using assms(7) by blast
  define q where "q = p2\<lparr>sp_writes_since := None, sp_pending_header_writes := [],
      sp_commands := sp_commands p2 @ [StoreHeadersBatch (sp_pending_header_writes p2)]\<rparr>"
  have q: "flush_if_due env now p2 = (Inl (SyE_Internal (''Failed to store header batch: '' @ e)), q)"
    using due failed p2(1,2) by (simp add: flush_if_due_def flush_pending_headers_def send_command_def sbind_def Let_def q_def)
  have "AList.delete ?i (sp_in_flight_headers q) = sp_in_flight_headers q"
    by (simp add: q_def p2(3) delete_idem)
  then have again: "q\<lparr>sp_in_flight_headers := AList.delete ?i (sp_in_flight_headers q)\<rparr> = q"
    by simp
  have "on_header_received env now' peer' ?i data q = (Inr (), q)" for now' peer'
    using assms(1) p2(4) again by (simp add: on_header_received_def compute_header_id_def Let_def) (simp add: q_def)
  moreover have "on_inv now' peer' \<lparr>inv_type_id = modifier_to_byte MT_Header, inv_ids = [?i]\<rparr> q = (Inr (), q)" for now' peer'
    using p2(4) by (simp add: on_inv_def Let_def q_def)
  ultimately show ?thesis
    using run q p2(4) by (simp add: q_def)
qed

text \<open>The witnesses: a waiting header, a request at a peer that disconnects, and a full buffer.\<close>

theorem store_descendants_terminates_witness:
  "store_descendants relay_env 0 1 genesis_parent_header [] (protocol_start sync_config_default [] [] [])
     = Some (store_header_and_descendants relay_env 0 genesis_parent_header [] (protocol_start sync_config_default [] [] []))"
proof -
  have "pm_len (sp_pending_headers (protocol_start sync_config_default [] [] [])) < 1"
    by (simp add: protocol_start_def init_from_stored_headers_def protocol_new_def pm_len_def pm_new_def)
  from store_descendants_terminates [OF this] show ?thesis by blast
qed

definition busy_state :: sync_protocol where
  "busy_state = snd (handle_event relay_env (60 * 10 ^ 9) (RequestBlocks [genesis_parent_header])
     (snd (handle_event relay_env (60 * 10 ^ 9) (PeerConnected [7]) (protocol_start sync_config_default [] [] []))))"

theorem disconnect_reoffers_requests_witness:
  "\<forall>i. map_of (dl_in_flight (sp_downloader (on_peer_disconnected [7] busy_state))) i \<noteq> Some [7]"
proof -
  have "protocol_run relay_env UNIV (protocol_start sync_config_default [] [] []) busy_state"
    unfolding busy_state_def by (intro run_event run_start) simp_all
  from disconnect_reoffers_requests [OF this, of "[7]"] show ?thesis
    by (simp add: relay_env_def)
qed

definition full_buffer :: sync_protocol where
  "full_buffer = (protocol_start sync_config_default [] [] [])
     \<lparr>sp_pending_header_writes := replicate 499 (genesis_parent_header, [])\<rparr>"

theorem failed_batch_loses_headers_witness:
  "\<exists>e q. on_header_received relay_env 0 [7] relay_header relay_header full_buffer = (Inl e, q) \<and> sp_pending_header_writes q = []
     \<and> on_header_received relay_env 1 [8] relay_header relay_header q = (Inr (), q)"
proof -
  have "blake_hash relay_env relay_header = relay_header"
    "header_parse relay_env relay_header = Some (genesis_parent_header\<lparr>hd_parent_id := replicate 32 0, hd_height := 1\<rparr>)"
    "relay_header \<notin> set (sp_stored_headers full_buffer)" "replicate 32 0 \<in> set (sp_stored_headers full_buffer)"
    "map_of (pm_by_parent (sp_pending_headers full_buffer)) relay_header = None" "sp_channel_open full_buffer"
    "HEADER_BATCH_SIZE \<le> Suc (length (sp_pending_header_writes full_buffer))"
    "\<forall>n batch. \<exists>e. store_reply relay_env n batch = StoreFailed e"
    by (simp_all add: relay_env_def relay_header_def full_buffer_def protocol_start_def init_from_stored_headers_def
        protocol_new_def pm_new_def HEADER_BATCH_SIZE_def)
  with failed_batch_loses_headers [of relay_env relay_header "genesis_parent_header\<lparr>hd_parent_id := replicate 32 0, hd_height := 1\<rparr>"
      full_buffer 0 "[7]"]
  show ?thesis by auto
qed

end
