(* ===== verification/Snapshots.thy ===== *)
theory Snapshots
  imports Messages Utxo F64
begin

text \<open>
  Snapshots of the set of boxes (\<open>crates/ergo-state/src/snapshots.rs\<close>): the list of available
  manifests and its bytes, the plan of a download with its counters, and the store of
  manifests and chunks. A hash map is an association list with one entry for each key; the clock
  is an argument. \<open>None\<close> stands for a panic of the process.
\<close>

declare map_of_eq_Some_iff [simp del] Some_eq_map_of_iff [simp del]

subsection \<open>The list of manifests\<close>

definition si_with_manifest :: "u32 \<Rightarrow> bytes \<Rightarrow> snapshots_info \<Rightarrow> snapshots_info" where
  "si_with_manifest height manifest_id ms = AList.update height manifest_id ms"

definition si_get :: "u32 \<Rightarrow> snapshots_info \<Rightarrow> bytes option" where
  "si_get height ms = map_of ms height"

definition si_highest_height :: "snapshots_info \<Rightarrow> u32 option" where
  "si_highest_height ms = (if ms = [] then None else Some (Max (set (map fst ms))))"

definition si_serialize :: "snapshots_info \<Rightarrow> bytes" where
  "si_serialize ms =
     vlq_encode (of_nat (length ms)) @ concat (map (\<lambda>(height, i). be_u32 height @ i) (sort_key fst ms))"

text \<open>\<open>vlq_decode\<close> of the file is the loop of the network crate with plain text as error.\<close>

definition snap_vlq_decode :: "bytes \<Rightarrow> nat \<Rightarrow> string + u64 \<times> nat" where
  "snap_vlq_decode data pos =
     (case vlq_decode data pos of
        Inr r \<Rightarrow> Inr r
      | Inl e \<Rightarrow> Inl (case e of InvalidMessage m \<Rightarrow> m | _ \<Rightarrow> []))"

primrec si_read :: "nat \<Rightarrow> bytes \<Rightarrow> nat \<Rightarrow> snapshots_info \<Rightarrow> state_error + snapshots_info" where
  "si_read 0 data pos ms = Inr ms"
| "si_read (Suc n) data pos ms =
     (if pos + 4 + 32 > length data then Inl (SE_Serialization ''Truncated snapshots info'')
      else si_read n data (pos + 36)
             (AList.update (from_be_u32 (data ! pos) (data ! (pos + 1)) (data ! (pos + 2)) (data ! (pos + 3)))
                (subslice data (pos + 4) (pos + 4 + 32)) ms))"

text \<open>
  \<open>HashMap::with_capacity\<close> panics when the table would take more than \<open>isize::MAX\<close> bytes: a table has
  a power of two of buckets, at least 8/7 of the capacity, of 36 bytes for an entry and a control byte.
\<close>

definition SI_MAX_CAPACITY :: nat where
  "SI_MAX_CAPACITY = 7 * 2 ^ 54"

definition si_parse :: "bytes \<Rightarrow> (state_error + snapshots_info) option" where
  "si_parse data =
     (if data = [] then Some (Inr [])
      else case snap_vlq_decode data 0 of
             Inl e \<Rightarrow> Some (Inl (SE_Serialization (''Failed to decode count: '' @ e)))
           | Inr (count, pos) \<Rightarrow>
               if SI_MAX_CAPACITY < unat count then None
               else Some (si_read (unat count) data pos []))"

subsection \<open>The plan of a download\<close>

record download_plan =
  pl_created_time :: u64
  pl_latest_update_time :: u64
  pl_snapshot_height :: u32
  pl_utxo_set_root_hash :: bytes
  pl_utxo_set_tree_height :: u8
  pl_expected_chunk_ids :: "bytes list"
  pl_downloaded :: "bool list"
  pl_downloading_chunks :: nat
  pl_next_chunk_index :: nat

definition plan_new :: "u64 \<Rightarrow> u32 \<Rightarrow> bytes \<Rightarrow> u8 \<Rightarrow> bytes list \<Rightarrow> download_plan" where
  "plan_new now snapshot_height utxo_set_root_hash utxo_set_tree_height expected_chunk_ids =
     \<lparr>pl_created_time = now, pl_latest_update_time = now, pl_snapshot_height = snapshot_height,
      pl_utxo_set_root_hash = utxo_set_root_hash, pl_utxo_set_tree_height = utxo_set_tree_height,
      pl_expected_chunk_ids = expected_chunk_ids,
      pl_downloaded = replicate (length expected_chunk_ids) False, pl_downloading_chunks = 0, pl_next_chunk_index = 0\<rparr>"

definition pl_total_chunks :: "download_plan \<Rightarrow> nat" where
  "pl_total_chunks p = length (pl_expected_chunk_ids p)"

definition pl_downloaded_count :: "download_plan \<Rightarrow> nat" where
  "pl_downloaded_count p = length (filter id (pl_downloaded p))"

definition pl_is_fully_downloaded :: "download_plan \<Rightarrow> bool" where
  "pl_is_fully_downloaded p = (pl_downloading_chunks p = 0 \<and> list_all id (pl_downloaded p))"

definition pl_progress :: "download_plan \<Rightarrow> f64" where
  "pl_progress p =
     (if pl_expected_chunk_ids p = [] then Fin 1
      else f64_div (f64_of_nat (pl_downloaded_count p)) (f64_of_nat (length (pl_expected_chunk_ids p))))"

definition update_time :: "u64 \<Rightarrow> download_plan \<Rightarrow> download_plan" where
  "update_time now p = p\<lparr>pl_latest_update_time := now\<rparr>"

text \<open>The loop of \<open>get_chunk_ids_to_download\<close>: the identifiers taken and the index it stops at.\<close>

function take_chunks :: "nat \<Rightarrow> bytes list \<Rightarrow> bool list \<Rightarrow> nat \<Rightarrow> bytes list \<times> nat" where
  "take_chunks how_many expected downloaded idx =
     (if how_many = 0 \<or> length expected \<le> idx then ([], idx)
      else if downloaded ! idx then take_chunks how_many expected downloaded (idx + 1)
      else let (ids, next) = take_chunks (how_many - 1) expected downloaded (idx + 1) in (expected ! idx # ids, next))"
  by pat_completeness auto
termination take_chunks
  by (relation "measure (\<lambda>(n, expected, downloaded, idx). length expected - idx)") auto

declare take_chunks.simps [simp del]

definition get_chunk_ids_to_download :: "u64 \<Rightarrow> nat \<Rightarrow> download_plan \<Rightarrow> bytes list \<times> download_plan" where
  "get_chunk_ids_to_download now how_many p =
     (let (ids, next) = take_chunks how_many (pl_expected_chunk_ids p) (pl_downloaded p) (pl_next_chunk_index p);
          p1 = p\<lparr>pl_downloading_chunks := pl_downloading_chunks p + length ids, pl_next_chunk_index := next\<rparr>
      in (ids, if ids = [] then p1 else update_time now p1))"

fun position :: "('a \<Rightarrow> bool) \<Rightarrow> 'a list \<Rightarrow> nat option" where
  "position f [] = None"
| "position f (x # xs) = (if f x then Some 0 else map_option Suc (position f xs))"

definition pl_mark_chunk_downloaded :: "u64 \<Rightarrow> bytes \<Rightarrow> download_plan \<Rightarrow> bool \<times> download_plan" where
  "pl_mark_chunk_downloaded now chunk_id p =
     (case position (\<lambda>i. i = chunk_id) (pl_expected_chunk_ids p) of
        None \<Rightarrow> (False, p)
      | Some idx \<Rightarrow>
          if pl_downloaded p ! idx then (False, p)
          else (True, update_time now (p\<lparr>pl_downloaded := (pl_downloaded p)[idx := True],
                                          pl_downloading_chunks := pl_downloading_chunks p - 1\<rparr>)))"

definition pl_mark_chunk_failed :: "u64 \<Rightarrow> bytes \<Rightarrow> download_plan \<Rightarrow> download_plan" where
  "pl_mark_chunk_failed now chunk_id p =
     (case position (\<lambda>i. i = chunk_id) (pl_expected_chunk_ids p) of
        None \<Rightarrow> p
      | Some idx \<Rightarrow>
          update_time now (p\<lparr>pl_downloading_chunks := pl_downloading_chunks p - 1,
                             pl_next_chunk_index := (if idx < pl_next_chunk_index p then idx else pl_next_chunk_index p)\<rparr>))"

definition pending_chunk_ids :: "download_plan \<Rightarrow> bytes list" where
  "pending_chunk_ids p = map fst (filter (\<lambda>(i, downloaded). \<not> downloaded) (zip (pl_expected_chunk_ids p) (pl_downloaded p)))"

subsection \<open>The store\<close>

record snapshots_db =
  sn_storage :: database
  sn_cached_info :: "snapshots_info option"

definition snapshots_db_new :: "database \<Rightarrow> snapshots_db" where
  "snapshots_db_new db = \<lparr>sn_storage = db, sn_cached_info = None\<rparr>"

definition SNAPSHOTS_INFO_KEY :: bytes where
  "SNAPSHOTS_INFO_KEY = [115, 110, 97, 112, 115, 104, 111, 116, 115, 95, 105, 110, 102, 111]"

definition MANIFEST_PREFIX :: bytes where
  "MANIFEST_PREFIX = [109, 97, 110, 105, 102, 101, 115, 116, 58]"

definition DOWNLOADED_CHUNKS_PREFIX :: bytes where
  "DOWNLOADED_CHUNKS_PREFIX =
     [0x8a, 0x7b, 0x3c, 0x5d, 0x2e, 0x1f, 0x00, 0x91, 0x82, 0x73, 0x64, 0x55, 0x46, 0x37, 0x28, 0x19,
      0x0a, 0xfb, 0xec, 0xdd, 0xce, 0xbf, 0xa0, 0x91, 0x82, 0x73, 0x64, 0x55]"

definition manifest_key :: "bytes \<Rightarrow> bytes" where
  "manifest_key manifest_id = MANIFEST_PREFIX @ manifest_id"

definition chunk_key :: "nat \<Rightarrow> bytes" where
  "chunk_key index = DOWNLOADED_CHUNKS_PREFIX @ be_u32 (of_nat index)"

definition read_snapshots_info :: "snapshots_db \<Rightarrow> ((state_error + snapshots_info) \<times> snapshots_db) option" where
  "read_snapshots_info s =
     (case sn_cached_info s of
        Some info \<Rightarrow> Some (Inr info, s)
      | None \<Rightarrow>
          (case (case db_get (sn_storage s) CF_UtxoSnapshots SNAPSHOTS_INFO_KEY of
                   Some data \<Rightarrow> si_parse data | None \<Rightarrow> Some (Inr [])) of
             None \<Rightarrow> None
           | Some (Inl e) \<Rightarrow> Some (Inl e, s)
           | Some (Inr info) \<Rightarrow> Some (Inr info, s\<lparr>sn_cached_info := Some info\<rparr>)))"

definition write_snapshots_info :: "snapshots_info \<Rightarrow> snapshots_db \<Rightarrow> snapshots_db" where
  "write_snapshots_info info s =
     \<lparr>sn_storage = db_put CF_UtxoSnapshots SNAPSHOTS_INFO_KEY (si_serialize info) (sn_storage s),
      sn_cached_info = Some info\<rparr>"

definition read_manifest :: "bytes \<Rightarrow> snapshots_db \<Rightarrow> bytes option" where
  "read_manifest manifest_id s = db_get (sn_storage s) CF_UtxoSnapshots (manifest_key manifest_id)"

definition write_manifest :: "bytes \<Rightarrow> bytes \<Rightarrow> snapshots_db \<Rightarrow> snapshots_db" where
  "write_manifest manifest_id data s =
     s\<lparr>sn_storage := db_put CF_UtxoSnapshots (manifest_key manifest_id) data (sn_storage s)\<rparr>"

definition delete_manifest :: "bytes \<Rightarrow> snapshots_db \<Rightarrow> snapshots_db" where
  "delete_manifest manifest_id s = s\<lparr>sn_storage := db_delete CF_UtxoSnapshots (manifest_key manifest_id) (sn_storage s)\<rparr>"

definition read_chunk :: "nat \<Rightarrow> snapshots_db \<Rightarrow> bytes option" where
  "read_chunk index s = db_get (sn_storage s) CF_UtxoSnapshots (chunk_key index)"

definition write_chunk :: "nat \<Rightarrow> bytes \<Rightarrow> snapshots_db \<Rightarrow> snapshots_db" where
  "write_chunk index data s = s\<lparr>sn_storage := db_put CF_UtxoSnapshots (chunk_key index) data (sn_storage s)\<rparr>"

definition clear_chunks :: "nat \<Rightarrow> snapshots_db \<Rightarrow> snapshots_db" where
  "clear_chunks total_chunks s =
     s\<lparr>sn_storage := fold (\<lambda>i. db_delete CF_UtxoSnapshots (chunk_key i)) [0..<total_chunks] (sn_storage s)\<rparr>"

definition chunks_iter :: "nat \<Rightarrow> snapshots_db \<Rightarrow> (nat \<times> bytes) list" where
  "chunks_iter total_chunks s = List.map_filter (\<lambda>i. map_option (Pair i) (read_chunk i s)) [0..<total_chunks]"

definition add_snapshot :: "u32 \<Rightarrow> bytes \<Rightarrow> bytes \<Rightarrow> snapshots_db \<Rightarrow> ((state_error + unit) \<times> snapshots_db) option" where
  "add_snapshot height manifest_id manifest_data s =
     (case read_snapshots_info (write_manifest manifest_id manifest_data s) of
        None \<Rightarrow> None
      | Some (Inl e, s1) \<Rightarrow> Some (Inl e, s1)
      | Some (Inr info, s1) \<Rightarrow> Some (Inr (), write_snapshots_info (si_with_manifest height manifest_id info) s1))"

definition prune_snapshots :: "nat \<Rightarrow> snapshots_db \<Rightarrow> ((state_error + unit) \<times> snapshots_db) option" where
  "prune_snapshots keep_count s =
     (case read_snapshots_info s of
        None \<Rightarrow> None
      | Some (Inl e, s1) \<Rightarrow> Some (Inl e, s1)
      | Some (Inr info, s1) \<Rightarrow>
          if length info \<le> keep_count then Some (Inr (), s1)
          else let entries = sort_key fst info; to_remove = length entries - keep_count in
            Some (Inr (), write_snapshots_info (drop to_remove entries)
                            (fold (\<lambda>(height, manifest_id). delete_manifest manifest_id) (take to_remove entries) s1)))"

subsection \<open>The list is read back\<close>

lemma snap_u32_at: "at_pos data pos (be_u32 h @ rest) \<Longrightarrow>
    from_be_u32 (data ! pos) (data ! (pos + 1)) (data ! (pos + 2)) (data ! (pos + 3)) = h"
proof -
  assume at: "at_pos data pos (be_u32 h @ rest)"
  have "data ! (pos + k) = be_u32 h ! k" if "k < 4" for k
    using at_pos_nth [OF at, of k] that by (simp add: nth_append)
  from this [of 0] this [of 1] this [of 2] this [of 3] show ?thesis
    by (simp add: be_u32_def)
qed

lemma si_read_concat:
  assumes "list_all (\<lambda>m. length (snd m) = 32) ms" "distinct (map fst (acc @ ms))"
    and "at_pos data pos (concat (map (\<lambda>(height, i). be_u32 height @ i) ms))"
  shows "si_read (length ms) data pos acc = Inr (acc @ ms)"
  using assms
proof (induction ms arbitrary: pos acc)
  case (Cons m ms)
  obtain h i where m: "m = (h, i)" by (cases m)
  let ?tail = "concat (map (\<lambda>(height, i). be_u32 height @ i) ms)"
  have at: "at_pos data pos (be_u32 h @ i @ ?tail)" using Cons.prems m by simp
  have at2: "at_pos data (pos + 4) (i @ ?tail)" using at_pos_append [OF at] by simp
  have i: "length i = 32" using Cons.prems m by simp
  have at3: "at_pos data (pos + 36) ?tail" using at_pos_append [OF at2] i by (simp add: add.assoc)
  have "subslice data (pos + 4) (pos + 4 + 32) = i" using at2 i by (intro at_pos_subslice) simp_all
  moreover have "AList.update h i acc = acc @ [(h, i)]"
    using Cons.prems(2) m by (intro update_fresh) (auto simp: map_of_eq_None_iff)
  ultimately show ?case
    using Cons.IH [OF _ _ at3, of "acc @ [(h, i)]"] Cons.prems m at_pos_length [OF at2] i snap_u32_at [OF at] by simp
qed simp

lemma map_of_same_set:
  assumes "distinct (map fst xs)" "distinct (map fst ys)" "set xs = set ys"
  shows "map_of xs = map_of ys"
proof (rule ext)
  fix k
  show "map_of xs k = map_of ys k"
    using map_of_eq_Some_iff [OF assms(1), of k] map_of_eq_Some_iff [OF assms(2), of k] assms(3)
    by (cases "map_of xs k"; cases "map_of ys k") auto
qed

definition manifests_wf :: "snapshots_info \<Rightarrow> bool" where
  "manifests_wf ms \<longleftrightarrow> distinct (map fst ms) \<and> (\<forall>m \<in> set ms. length (snd m) = 32)"

lemma manifests_wf_sort [simp]: "manifests_wf (sort_key f ms) = manifests_wf ms"
  unfolding manifests_wf_def by (metis distinct_map distinct_sort set_sort)

lemma manifests_count: "manifests_wf ms \<Longrightarrow> unat (of_nat (length ms) :: u64) = length ms \<and> length ms \<le> SI_MAX_CAPACITY"
proof -
  assume "manifests_wf ms"
  then have "length ms = card (set (map fst ms))"
    unfolding manifests_wf_def by (metis distinct_card length_map)
  also have "\<dots> \<le> card (UNIV :: u32 set)"
    by (intro card_mono) simp_all
  finally have "length ms \<le> 2 ^ 32"
    by (simp add: card_word)
  then show ?thesis
    by (simp add: unat_of_nat SI_MAX_CAPACITY_def)
qed

lemma si_parse_serialize: "manifests_wf ms \<Longrightarrow> si_parse (si_serialize ms) = Some (Inr (sort_key fst ms))"
proof -
  assume ms: "manifests_wf ms"
  let ?sorted = "sort_key fst ms"
  let ?tail = "concat (map (\<lambda>(height, i). be_u32 height @ i) ?sorted)"
  let ?v = "vlq_encode (of_nat (length ms))"
  have at: "at_pos (?v @ ?tail) 0 (?v @ ?tail)" by (rule at_pos_start)
  have "si_read (length ?sorted) (?v @ ?tail) (length ?v) [] = Inr ([] @ ?sorted)"
  proof (rule si_read_concat)
    show "list_all (\<lambda>m. length (snd m) = 32) ?sorted" "distinct (map fst ([] @ ?sorted))"
      using ms manifests_wf_sort [of fst ms] by (simp_all add: manifests_wf_def list_all_iff)
    show "at_pos (?v @ ?tail) (length ?v) ?tail"
      by (rule at_pos_prefix)
  qed
  then show ?thesis
    using manifests_count [OF ms] vlq_decode_encode [OF at]
    by (simp add: si_parse_def si_serialize_def snap_vlq_decode_def vlq_encode_not_Nil)
qed

text \<open>The list of snapshots is read back from its bytes as the same map from heights to manifests, in the order of
  the heights; and a peer that parses these bytes as a message reads the same list.\<close>

theorem snapshots_info_roundtrip:
  assumes "distinct (map fst ms)" "\<forall>m \<in> set ms. length (snd m) = 32"
  shows "si_parse (si_serialize ms) = Some (Inr (sort_key fst ms)) \<and> si_get height (sort_key fst ms) = si_get height ms
       \<and> (length ms \<le> MAX_SNAPSHOTS_INFO_ENTRIES \<longrightarrow> snapshots_info_parse (si_serialize ms) = Inr (sort_key fst ms))"
proof -
  have ms: "manifests_wf ms"
    using assms by (simp add: manifests_wf_def)
  have "si_serialize ms = snapshots_info_serialize (sort_key fst ms)"
    by (simp add: si_serialize_def snapshots_info_serialize_def count_u64_def)
  then have "length ms \<le> MAX_SNAPSHOTS_INFO_ENTRIES \<longrightarrow> snapshots_info_parse (si_serialize ms) = Inr (sort_key fst ms)"
    using snapshots_info_parse_serialize [of "sort_key fst ms"] ms by (simp add: manifests_wf_def list_all_iff)
  moreover have "map_of (sort_key fst ms) = map_of ms"
    using ms manifests_wf_sort [of fst ms] by (intro map_of_same_set) (simp_all add: manifests_wf_def)
  ultimately show ?thesis
    using si_parse_serialize [OF ms] by (simp add: si_get_def)
qed

theorem snapshots_info_roundtrip_witness:
  "si_parse (si_serialize [(7, replicate 32 1), (3, replicate 32 2)]) = Some (Inr [(3, replicate 32 2), (7, replicate 32 1)])"
  using snapshots_info_roundtrip [of "[(7, replicate 32 1), (3, replicate 32 2)]"] by simp

subsection \<open>A plan without failures counts exactly\<close>

text \<open>Chunks are requested in batches of any size, and only requested chunks are delivered, any number of times.\<close>

inductive plan_run :: "bytes list \<Rightarrow> download_plan \<Rightarrow> bool" for ids where
  plan_start: "plan_run ids (plan_new now height root_hash tree_height ids)"
| plan_request: "plan_run ids p \<Longrightarrow> plan_run ids (snd (get_chunk_ids_to_download now n p))"
| plan_deliver: "plan_run ids p \<Longrightarrow> chunk_id \<in> set (take (pl_next_chunk_index p) ids) \<Longrightarrow>
    plan_run ids (snd (pl_mark_chunk_downloaded now chunk_id p))"

definition requested_open :: "download_plan \<Rightarrow> nat set" where
  "requested_open p = {k. k < pl_next_chunk_index p \<and> \<not> pl_downloaded p ! k}"

definition plan_ok :: "bytes list \<Rightarrow> download_plan \<Rightarrow> bool" where
  "plan_ok ids p \<longleftrightarrow> pl_expected_chunk_ids p = ids \<and> length (pl_downloaded p) = length ids
     \<and> pl_next_chunk_index p \<le> length ids \<and> pl_downloading_chunks p = card (requested_open p)
     \<and> (\<forall>k < length ids. pl_next_chunk_index p \<le> k \<longrightarrow> \<not> pl_downloaded p ! k)"

lemma take_chunks_effect:
  assumes "idx \<le> length expected" "length downloaded = length expected"
  shows "idx \<le> snd (take_chunks n expected downloaded idx) \<and> snd (take_chunks n expected downloaded idx) \<le> length expected
       \<and> length (fst (take_chunks n expected downloaded idx))
           = card {k. idx \<le> k \<and> k < snd (take_chunks n expected downloaded idx) \<and> \<not> downloaded ! k}"
  using assms
proof (induction n expected downloaded idx rule: take_chunks.induct)
  case (1 n expected downloaded idx)
  show ?case
  proof (cases "n = 0 \<or> length expected \<le> idx")
    case True
    then show ?thesis
      using 1(3) by (simp add: take_chunks.simps [of n expected downloaded idx])
  next
    case False
    then have less: "idx + 1 \<le> length expected" by simp
    show ?thesis
    proof (cases "downloaded ! idx")
      case True
      have "{k. idx \<le> k \<and> k < m \<and> \<not> downloaded ! k} = {k. idx + 1 \<le> k \<and> k < m \<and> \<not> downloaded ! k}" for m
        using True by (auto simp: Suc_le_eq nat_less_le)
      then show ?thesis
        using 1(1) [OF False True less] 1(4) False True by (simp add: take_chunks.simps [of n] Suc_le_eq)
    next
      case undone: False
      obtain cs stop where step: "take_chunks (n - 1) expected downloaded (idx + 1) = (cs, stop)"
        by (cases "take_chunks (n - 1) expected downloaded (idx + 1)")
      have rest: "idx + 1 \<le> stop" "stop \<le> length expected" "length cs = card {k. idx + 1 \<le> k \<and> k < stop \<and> \<not> downloaded ! k}"
        using 1(2) [OF False undone less] 1(4) step by simp_all
      have "{k. idx \<le> k \<and> k < stop \<and> \<not> downloaded ! k} = insert idx {k. idx + 1 \<le> k \<and> k < stop \<and> \<not> downloaded ! k}"
        using rest(1) undone by (auto simp: Suc_le_eq nat_less_le)
      then show ?thesis
        using False undone step rest by (simp add: take_chunks.simps [of n expected downloaded idx])
    qed
  qed
qed

lemma plan_ok_request:
  assumes "plan_ok ids p"
  shows "plan_ok ids (snd (get_chunk_ids_to_download now n p))"
proof -
  let ?next = "pl_next_chunk_index p"
  obtain cs stop where step: "take_chunks n ids (pl_downloaded p) ?next = (cs, stop)"
    by (cases "take_chunks n ids (pl_downloaded p) ?next")
  have p: "pl_expected_chunk_ids p = ids" "length (pl_downloaded p) = length ids" "?next \<le> length ids"
    "pl_downloading_chunks p = card (requested_open p)" "\<And>k. k < length ids \<Longrightarrow> ?next \<le> k \<Longrightarrow> \<not> pl_downloaded p ! k"
    using assms by (simp_all add: plan_ok_def)
  have stop: "?next \<le> stop" "stop \<le> length ids" "length cs = card {k. ?next \<le> k \<and> k < stop \<and> \<not> pl_downloaded p ! k}"
    using take_chunks_effect [OF p(3,2), of n] step by simp_all
  have "{k. k < stop \<and> \<not> pl_downloaded p ! k} = requested_open p \<union> {k. ?next \<le> k \<and> k < stop \<and> \<not> pl_downloaded p ! k}"
    using stop(1) by (auto simp: requested_open_def)
  moreover have "card (requested_open p \<union> {k. ?next \<le> k \<and> k < stop \<and> \<not> pl_downloaded p ! k})
      = card (requested_open p) + card {k. ?next \<le> k \<and> k < stop \<and> \<not> pl_downloaded p ! k}"
    by (rule card_Un_disjoint) (auto simp: requested_open_def)
  ultimately have "card {k. k < stop \<and> \<not> pl_downloaded p ! k} = pl_downloading_chunks p + length cs"
    using p(4) stop(3) by simp
  then show ?thesis
    using p(1,2,5) stop(1,2) step
    by (simp add: get_chunk_ids_to_download_def plan_ok_def requested_open_def update_time_def Let_def)
qed

lemma position_nth: "distinct xs \<Longrightarrow> k < length xs \<Longrightarrow> position (\<lambda>i. i = xs ! k) xs = Some k"
  by (induction xs arbitrary: k) (auto simp: nth_Cons split: nat.split)

lemma plan_ok_deliver:
  assumes "plan_ok ids p" "distinct ids" "chunk_id \<in> set (take (pl_next_chunk_index p) ids)"
  shows "plan_ok ids (snd (pl_mark_chunk_downloaded now chunk_id p))"
proof -
  have p: "pl_expected_chunk_ids p = ids" "length (pl_downloaded p) = length ids" "pl_next_chunk_index p \<le> length ids"
    "pl_downloading_chunks p = card (requested_open p)"
    using assms(1) by (simp_all add: plan_ok_def)
  obtain k where k: "k < pl_next_chunk_index p" "chunk_id = ids ! k"
    using assms(3) p(3) by (auto simp: in_set_conv_nth)
  then have pos: "position (\<lambda>i. i = chunk_id) ids = Some k"
    using position_nth [OF assms(2), of k] p(3) by simp
  show ?thesis
  proof (cases "pl_downloaded p ! k")
    case False
    let ?q = "snd (pl_mark_chunk_downloaded now chunk_id p)"
    have "requested_open ?q = requested_open p - {k}"
      using pos False p(1,2) k p(3)
      by (auto simp: requested_open_def pl_mark_chunk_downloaded_def update_time_def nth_list_update)
    moreover have "k \<in> requested_open p" "finite (requested_open p)"
      using False k by (simp_all add: requested_open_def)
    ultimately have "card (requested_open ?q) = pl_downloading_chunks p - 1"
      using p(4) by simp
    then show ?thesis
      using assms(1) pos False p(1,2) k by (auto simp: plan_ok_def pl_mark_chunk_downloaded_def update_time_def)
  qed (use assms(1) pos p(1) in \<open>simp add: pl_mark_chunk_downloaded_def\<close>)
qed

lemma plan_run_ok: "plan_run ids p \<Longrightarrow> distinct ids \<Longrightarrow> plan_ok ids p"
proof (induction rule: plan_run.induct)
  case (plan_start now height root_hash tree_height)
  show ?case
    by (simp add: plan_ok_def plan_new_def requested_open_def)
qed (simp_all add: plan_ok_request plan_ok_deliver)

text \<open>As long as no chunk fails, the counter of a download plan is exactly the number of chunks that have been requested
  and have not arrived, and the plan takes itself for complete exactly when no chunk is missing, however
  chunks are batched, in whatever order they arrive and however often.\<close>

theorem plan_counts_exactly:
  assumes "plan_run ids p" "distinct ids"
  shows "pl_downloading_chunks p = card {k. k < pl_next_chunk_index p \<and> \<not> pl_downloaded p ! k}
       \<and> (pl_is_fully_downloaded p \<longleftrightarrow> pending_chunk_ids p = [])"
proof -
  have p: "length (pl_expected_chunk_ids p) = length (pl_downloaded p)" "pl_next_chunk_index p \<le> length (pl_downloaded p)"
    "pl_downloading_chunks p = card (requested_open p)"
    using plan_run_ok [OF assms] by (simp_all add: plan_ok_def)
  have "map fst (filter (\<lambda>(i, d). \<not> d) (zip xs ys)) = [] \<longleftrightarrow> list_all id ys" if "length xs = length ys" for xs :: "bytes list" and ys
    using that by (induction xs ys rule: list_induct2) simp_all
  from this [OF p(1)] have "pending_chunk_ids p = [] \<longleftrightarrow> list_all id (pl_downloaded p)"
    by (simp add: pending_chunk_ids_def)
  moreover have "requested_open p = {}" if "list_all id (pl_downloaded p)"
    using that p(2) by (auto simp: requested_open_def list_all_length)
  ultimately show ?thesis
    using p(3) by (auto simp: pl_is_fully_downloaded_def requested_open_def)
qed

theorem plan_counts_exactly_witness:
  "pl_is_fully_downloaded (plan_new 0 0 [] 0 [[1], [2]]) \<longleftrightarrow> pending_chunk_ids (plan_new 0 0 [] 0 [[1], [2]]) = []"
  using plan_counts_exactly [OF plan_start, of "[[1], [2]]" 0 0 "[]" 0] by simp

subsection \<open>A failure loses count\<close>

lemma take_chunks_all:
  assumes "length downloaded = length expected" "\<forall>k < length expected. \<not> downloaded ! k" "idx \<le> length expected"
    and "length expected \<le> n + idx"
  shows "take_chunks n expected downloaded idx = (drop idx expected, length expected)"
  using assms
proof (induction n expected downloaded idx rule: take_chunks.induct)
  case (1 n expected downloaded idx)
  show ?case
  proof (cases "length expected \<le> idx")
    case True
    then show ?thesis
      using 1(5) by (simp add: take_chunks.simps [of n expected downloaded idx])
  next
    case False
    then have "n \<noteq> 0" "\<not> downloaded ! idx"
      using 1(4,6) by auto
    then show ?thesis
      using 1(2) [of] 1(3,4,6) False
      by (simp add: take_chunks.simps [of n expected downloaded idx] Cons_nth_drop_Suc)
  qed
qed

definition deliver :: "u64 \<Rightarrow> bytes list \<Rightarrow> download_plan \<Rightarrow> download_plan" where
  "deliver now cs p = fold (\<lambda>c. snd \<circ> pl_mark_chunk_downloaded now c) cs p"

definition delivered :: "download_plan \<Rightarrow> bytes list \<Rightarrow> download_plan \<Rightarrow> bool" where
  "delivered p cs q \<longleftrightarrow> pl_expected_chunk_ids q = pl_expected_chunk_ids p \<and> length (pl_downloaded q) = length (pl_downloaded p)
     \<and> pl_downloading_chunks q = pl_downloading_chunks p - length cs \<and> pl_next_chunk_index q = pl_next_chunk_index p
     \<and> (\<forall>k < length (pl_expected_chunk_ids p). pl_expected_chunk_ids p ! k \<in> set cs \<or> pl_downloaded p ! k \<longrightarrow> pl_downloaded q ! k)"

lemma deliver_all:
  assumes "distinct (pl_expected_chunk_ids p)" "length (pl_downloaded p) = length (pl_expected_chunk_ids p)" "distinct cs"
    and "set cs \<subseteq> set (pl_expected_chunk_ids p)"
    and "\<And>k. k < length (pl_expected_chunk_ids p) \<Longrightarrow> pl_expected_chunk_ids p ! k \<in> set cs \<Longrightarrow> \<not> pl_downloaded p ! k"
  shows "delivered p cs (deliver now cs p)"
  using assms
proof (induction cs arbitrary: p)
  case Nil
  then show ?case by (simp add: delivered_def deliver_def)
next
  case (Cons c cs)
  let ?ids = "pl_expected_chunk_ids p"
  obtain k where k: "k < length ?ids" "c = ?ids ! k"
    using Cons.prems(4) by (auto simp: in_set_conv_nth)
  have pos: "position (\<lambda>i. i = c) ?ids = Some k"
    using position_nth [OF Cons.prems(1), of k] k by simp
  have fresh: "\<not> pl_downloaded p ! k"
    using Cons.prems(5) [of k] k by simp
  define p1 where "p1 = snd (pl_mark_chunk_downloaded now c p)"
  have p1: "pl_expected_chunk_ids p1 = ?ids" "pl_downloaded p1 = (pl_downloaded p)[k := True]"
    "pl_downloading_chunks p1 = pl_downloading_chunks p - 1" "pl_next_chunk_index p1 = pl_next_chunk_index p"
    using pos fresh by (simp_all add: p1_def pl_mark_chunk_downloaded_def update_time_def)
  have undone: "\<not> pl_downloaded p1 ! j" if "j < length ?ids" "?ids ! j \<in> set cs" for j
    using Cons.prems(2,3) Cons.prems(5) [of j] that k by (auto simp: p1(2) nth_list_update)
  have "delivered p1 cs (deliver now cs p1)"
    by (rule Cons.IH) (use undone Cons.prems(1-4) p1(1,2) in auto)
  moreover have "pl_downloaded p1 ! j" if "j < length ?ids" "?ids ! j = c \<or> pl_downloaded p ! j" for j
    using that Cons.prems(1,2) k by (auto simp: p1(2) nth_list_update nth_eq_iff_index_eq)
  ultimately have "delivered p (c # cs) (deliver now cs p1)"
    using p1 by (auto simp: delivered_def)
  then show ?case
    by (simp add: deliver_def p1_def)
qed

text \<open>One failed chunk can make a download plan wait for ever: the failure of the first chunk moves the index of the
  next request back to it, so that chunks which are still on their way are requested and counted once
  more. When every chunk has arrived, none is pending and no request or delivery changes anything,
  yet the plan does not take itself for complete.\<close>

theorem failed_chunk_blocks_plan:
  fixes now :: u64 and height :: u32 and root_hash :: bytes and tree_height :: u8
  assumes "distinct (c # d # ids)"
  defines "plan \<equiv> plan_new now height root_hash tree_height (c # d # ids)"
  defines "n \<equiv> length (c # d # ids)"
  defines "asked \<equiv> snd (get_chunk_ids_to_download now n plan)"
  defines "again \<equiv> snd (get_chunk_ids_to_download now n (pl_mark_chunk_failed now c asked))"
  defines "q \<equiv> deliver now (c # d # ids) again"
  shows "pending_chunk_ids q = [] \<and> \<not> pl_is_fully_downloaded q
       \<and> (\<forall>now' i. pl_mark_chunk_downloaded now' i q = (False, q))
       \<and> (\<forall>now' k. get_chunk_ids_to_download now' k q = ([], q))"
proof -
  let ?ids = "c # d # ids"
  have plan: "pl_expected_chunk_ids plan = ?ids" "pl_downloaded plan = replicate n False" "pl_downloading_chunks plan = 0"
    "pl_next_chunk_index plan = 0"
    by (simp_all add: plan_def plan_new_def n_def)
  have all: "take_chunks n ?ids (replicate n False) 0 = (?ids, n)"
    using take_chunks_all [of "replicate n False" ?ids 0 n] by (simp add: n_def del: replicate_Suc)
  have asked: "pl_expected_chunk_ids asked = ?ids" "pl_downloaded asked = replicate n False" "pl_downloading_chunks asked = n"
    "pl_next_chunk_index asked = n"
    using plan all by (simp_all add: asked_def get_chunk_ids_to_download_def update_time_def n_def Let_def)
  have again: "pl_expected_chunk_ids again = ?ids" "pl_downloaded again = replicate n False"
    "pl_downloading_chunks again = n - 1 + n" "pl_next_chunk_index again = n"
    using asked all by (simp_all add: again_def pl_mark_chunk_failed_def get_chunk_ids_to_download_def update_time_def n_def Let_def)
  have "delivered again ?ids q"
    unfolding q_def by (rule deliver_all) (use again assms(1) in \<open>auto simp: n_def nth_Cons split: nat.splits\<close>)
  then have q': "pl_expected_chunk_ids q = ?ids" "length (pl_downloaded q) = n" "pl_downloading_chunks q = n - 1"
    "pl_next_chunk_index q = n" "\<forall>k < n. pl_downloaded q ! k"
    using nth_mem [of _ ?ids] again by (auto simp: delivered_def n_def)
  have "pl_mark_chunk_downloaded now' i q = (False, q)" for now' i
  proof (cases "i \<in> set ?ids")
    case True
    then obtain k where k: "k < n" "i = ?ids ! k"
      unfolding n_def by (metis in_set_conv_nth)
    then have "position (\<lambda>x. x = i) (pl_expected_chunk_ids q) = Some k"
      using position_nth [OF assms(1), of k] q'(1) by (simp only: n_def)
    then show ?thesis
      using q'(5) k(1) by (simp add: pl_mark_chunk_downloaded_def)
  next
    case False
    have "i \<notin> set xs \<Longrightarrow> position (\<lambda>x. x = i) xs = None" for xs :: "bytes list"
      by (induction xs) auto
    from this [OF False] have "position (\<lambda>x. x = i) (pl_expected_chunk_ids q) = None"
      using q'(1) by (simp only:)
    then show ?thesis
      by (simp add: pl_mark_chunk_downloaded_def)
  qed
  moreover have "get_chunk_ids_to_download now' k q = ([], q)" for now' k
    using q' by (simp add: get_chunk_ids_to_download_def take_chunks.simps n_def)
  moreover have "pending_chunk_ids q = []"
    using q' by (auto simp: pending_chunk_ids_def filter_empty_conv set_zip n_def)
  moreover have "\<not> pl_is_fully_downloaded q"
    using q' by (simp add: pl_is_fully_downloaded_def n_def)
  ultimately show ?thesis by blast
qed

theorem failed_chunk_blocks_plan_witness:
  "\<not> pl_is_fully_downloaded (deliver 0 [[1], [2]] (snd (get_chunk_ids_to_download 0 (length [[1 :: u8], [2]])
     (pl_mark_chunk_failed 0 [1] (snd (get_chunk_ids_to_download 0 (length [[1 :: u8], [2]]) (plan_new 0 0 [] 0 [[1], [2]])))))))"
proof -
  have "distinct [[1 :: u8], [2]]" by simp
  from failed_chunk_blocks_plan [OF this, of 0 0 "[]" 0] show ?thesis by blast
qed

subsection \<open>The store keeps what it lists\<close>

lemma be_u32_len_key: "length (chunk_key k) = 32"
  by (simp add: chunk_key_def DOWNLOADED_CHUNKS_PREFIX_def)

lemma snapshot_keys_distinct [simp]:
  "manifest_key i \<noteq> SNAPSHOTS_INFO_KEY" "SNAPSHOTS_INFO_KEY \<noteq> manifest_key i" "chunk_key k \<noteq> SNAPSHOTS_INFO_KEY"
  "SNAPSHOTS_INFO_KEY \<noteq> chunk_key k" "chunk_key k \<noteq> manifest_key i" "manifest_key i \<noteq> chunk_key k"
  "manifest_key i = manifest_key j \<longleftrightarrow> i = j"
  by (simp_all add: manifest_key_def SNAPSHOTS_INFO_KEY_def MANIFEST_PREFIX_def chunk_key_def DOWNLOADED_CHUNKS_PREFIX_def)

text \<open>The list that the store holds, in memory or in the database.\<close>

definition holds_list :: "snapshots_db \<Rightarrow> snapshots_info \<Rightarrow> bool" where
  "holds_list s ms \<longleftrightarrow> manifests_wf ms \<and> (sn_cached_info s = None \<or> sn_cached_info s = Some ms)
     \<and> (db_get (sn_storage s) CF_UtxoSnapshots SNAPSHOTS_INFO_KEY = Some (si_serialize ms)
        \<or> ms = [] \<and> db_get (sn_storage s) CF_UtxoSnapshots SNAPSHOTS_INFO_KEY = None)"

lemma si_serialize_sort [simp]: "manifests_wf ms \<Longrightarrow> si_serialize (sort_key fst ms) = si_serialize ms"
  by (simp add: si_serialize_def sort_key_id_if_sorted)

lemma holds_list_read:
  assumes "holds_list s ms"
  obtains ms' s' where "read_snapshots_info s = Some (Inr ms', s')" "holds_list s' ms'" "set ms' = set ms" "manifests_wf ms'"
    "sn_storage s' = sn_storage s" "sn_cached_info s' = Some ms'"
proof (cases "sn_cached_info s")
  case (Some c)
  then show ?thesis
    using assms that [of ms s] by (simp add: holds_list_def read_snapshots_info_def)
next
  case None
  show ?thesis
  proof (cases "db_get (sn_storage s) CF_UtxoSnapshots SNAPSHOTS_INFO_KEY")
    case none: None
    then have "ms = []" using assms by (simp add: holds_list_def)
    then show ?thesis
      using assms None none that [of "[]" "s\<lparr>sn_cached_info := Some []\<rparr>"] by (simp add: holds_list_def read_snapshots_info_def)
  next
    case (Some data)
    then have "data = si_serialize ms" using assms by (simp add: holds_list_def)
    then show ?thesis
      using assms None Some si_parse_serialize [of ms] that [of "sort_key fst ms" "s\<lparr>sn_cached_info := Some (sort_key fst ms)\<rparr>"]
      by (simp add: holds_list_def read_snapshots_info_def)
  qed
qed

lemma holds_list_reads:
  assumes "holds_list s ms" "read_snapshots_info s = Some (r, s')"
  shows "\<exists>ms'. r = Inr ms' \<and> set ms' = set ms \<and> manifests_wf ms'"
  using assms(1)
proof (rule holds_list_read)
  fix ms' s1
  assume "read_snapshots_info s = Some (Inr ms', s1)" "set ms' = set ms" "manifests_wf ms'"
  then show ?thesis using assms(2) by simp
qed

lemma holds_list_write: "manifests_wf ms \<Longrightarrow> holds_list (write_snapshots_info ms s) ms"
  by (simp add: holds_list_def write_snapshots_info_def db.get_put)

lemma holds_list_frame:
  "holds_list s ms \<Longrightarrow> sn_cached_info s' = sn_cached_info s \<Longrightarrow>
    db_get (sn_storage s') CF_UtxoSnapshots SNAPSHOTS_INFO_KEY = db_get (sn_storage s) CF_UtxoSnapshots SNAPSHOTS_INFO_KEY \<Longrightarrow> holds_list s' ms"
  by (simp add: holds_list_def)

lemma read_manifest_simps [simp]:
  "read_manifest i (write_snapshots_info ms s) = read_manifest i s"
  "read_manifest i (write_manifest j data s) = (if i = j then Some data else read_manifest i s)"
  "read_manifest i (delete_manifest j s) = (if i = j then None else read_manifest i s)"
  "read_manifest i (write_chunk k data s) = read_manifest i s"
  by (auto simp: read_manifest_def write_snapshots_info_def write_manifest_def delete_manifest_def write_chunk_def db.get_put db.get_del)

lemma delete_manifests:
  "sn_cached_info (fold (\<lambda>(height, i). delete_manifest i) xs s) = sn_cached_info s
   \<and> db_get (sn_storage (fold (\<lambda>(height, i). delete_manifest i) xs s)) CF_UtxoSnapshots SNAPSHOTS_INFO_KEY
       = db_get (sn_storage s) CF_UtxoSnapshots SNAPSHOTS_INFO_KEY
   \<and> read_manifest i (fold (\<lambda>(height, i). delete_manifest i) xs s) = (if i \<in> snd ` set xs then None else read_manifest i s)"
  by (induction xs arbitrary: s) (auto simp: delete_manifest_def db.get_del read_manifest_def)

lemma clear_chunks_get:
  "db_get (fold (\<lambda>k. db_delete CF_UtxoSnapshots (chunk_key k)) ks db) CF_UtxoSnapshots key
     = (if key \<in> chunk_key ` set ks then None else db_get db CF_UtxoSnapshots key)"
  by (induction ks arbitrary: db) (auto simp: db.get_del)

text \<open>
  The store in use: manifests are added under their hash, which no other listed snapshot has, old ones are
  pruned, chunks come and go, and the node restarts.
\<close>

inductive snap_run :: "snapshots_db \<Rightarrow> bool" where
  snap_start: "snap_run (snapshots_db_new db_empty)"
| snap_add: "snap_run s \<Longrightarrow> read_snapshots_info s = Some (Inr ms, s0) \<Longrightarrow> i \<notin> snd ` set ms \<Longrightarrow> length i = 32 \<Longrightarrow>
    add_snapshot height i data s = Some (r, s') \<Longrightarrow> snap_run s'"
| snap_prune: "snap_run s \<Longrightarrow> prune_snapshots keep s = Some (r, s') \<Longrightarrow> snap_run s'"
| snap_chunk: "snap_run s \<Longrightarrow> snap_run (write_chunk k data s)"
| snap_clear: "snap_run s \<Longrightarrow> snap_run (clear_chunks n s)"
| snap_restart: "snap_run s \<Longrightarrow> snap_run (snapshots_db_new (sn_storage s))"

definition snap_ok :: "snapshots_db \<Rightarrow> snapshots_info \<Rightarrow> bool" where
  "snap_ok s ms \<longleftrightarrow> holds_list s ms \<and> inj_on snd (set ms) \<and> (\<forall>i \<in> snd ` set ms. read_manifest i s \<noteq> None)"

lemma set_update_distinct:
  "distinct (map fst m) \<Longrightarrow> set (AList.update k v m) = insert (k, v) {x \<in> set m. fst x \<noteq> k}"
proof (induction m)
  case (Cons x m)
  have "set m = {y \<in> set m. fst y \<noteq> k}" if "k \<notin> fst ` set m"
    using that by auto
  with Cons show ?case by (cases x) auto
qed simp

lemma distinct_fst_key: "distinct (map fst ms) \<Longrightarrow> x \<in> set ms \<Longrightarrow> y \<in> set ms \<Longrightarrow> fst x = fst y \<Longrightarrow> x = y"
  by (metis distinct_map inj_onD)

lemma snap_ok_add:
  assumes "snap_ok s ms" "i \<notin> snd ` set ms" "length i = 32" "add_snapshot height i data s = Some (r, s')"
  shows "\<exists>ms'. snap_ok s' ms'"
proof -
  let ?w = "write_manifest i data s"
  have s: "holds_list s ms" "inj_on snd (set ms)" "\<And>j. j \<in> snd ` set ms \<Longrightarrow> read_manifest j s \<noteq> None"
    using assms(1) unfolding snap_ok_def by blast+
  have "holds_list ?w ms"
    by (rule holds_list_frame [OF s(1)]) (simp_all add: write_manifest_def db.get_put)
  then obtain ms' s1 where read: "read_snapshots_info ?w = Some (Inr ms', s1)" "set ms' = set ms" "manifests_wf ms'"
      "sn_storage s1 = sn_storage ?w"
    by (rule holds_list_read)
  let ?new = "si_with_manifest height i ms'"
  have s': "s' = write_snapshots_info ?new s1"
    using assms(4) read(1) by (simp add: add_snapshot_def)
  have new: "set ?new = insert (height, i) {x \<in> set ms. fst x \<noteq> height}"
    using set_update_distinct [of ms' height i] read(2,3) by (simp add: si_with_manifest_def manifests_wf_def)
  have "manifests_wf ?new"
    using read(2,3) assms(3) new by (auto simp: manifests_wf_def si_with_manifest_def distinct_update)
  moreover have "inj_on snd (set ?new)"
    using s(2) assms(2) unfolding new inj_on_def by (auto simp: image_iff)
  moreover have "read_manifest j s' = (if j = i then Some data else read_manifest j s)" for j
  proof -
    have "read_manifest j s1 = read_manifest j ?w"
      by (simp add: read_manifest_def read(4))
    then show ?thesis by (simp add: s')
  qed
  moreover have "j \<in> snd ` set ms" if "j \<in> snd ` set ?new" "j \<noteq> i" for j
    using that unfolding new by auto
  ultimately have "snap_ok s' ?new"
    using holds_list_write [of ?new s1] s(3) unfolding snap_ok_def s' by (metis option.simps(3))
  then show ?thesis ..
qed

text \<open>What is left after pruning.\<close>

definition pruned :: "nat \<Rightarrow> snapshots_db \<Rightarrow> snapshots_info \<Rightarrow> snapshots_db \<Rightarrow> snapshots_info \<Rightarrow> bool" where
  "pruned k s ms s' ms' \<longleftrightarrow> prune_snapshots k s = Some (Inr (), s') \<and> holds_list s' ms' \<and> set ms' \<subseteq> set ms
     \<and> length ms' = min k (length ms)
     \<and> (\<forall>i. read_manifest i s' = (if i \<in> snd ` (set ms - set ms') then None else read_manifest i s))
     \<and> (\<forall>x \<in> set ms - set ms'. \<forall>y \<in> set ms'. fst x < fst y)"

lemma newest_kept:
  assumes "manifests_wf es"
  defines "sorted_es \<equiv> sort_key fst es"
  shows "manifests_wf (drop n sorted_es)" "set es - set (drop n sorted_es) = set (take n sorted_es)"
    "x \<in> set (take n sorted_es) \<Longrightarrow> y \<in> set (drop n sorted_es) \<Longrightarrow> fst x < fst y"
proof -
  have wf: "distinct (map fst sorted_es)" "\<forall>m \<in> set sorted_es. length (snd m) = 32" "set sorted_es = set es"
    using assms manifests_wf_sort [of fst es] by (simp_all add: manifests_wf_def)
  have split: "distinct (map fst (take n sorted_es) @ map fst (drop n sorted_es))"
    using wf(1) by (simp flip: map_append)
  then show "manifests_wf (drop n sorted_es)"
    using wf(2) in_set_dropD [of _ n sorted_es] by (auto simp: manifests_wf_def)
  have "set (take n sorted_es) \<union> set (drop n sorted_es) = set es"
    unfolding wf(3) [symmetric] set_append [symmetric] append_take_drop_id ..
  moreover have "set (take n sorted_es) \<inter> set (drop n sorted_es) = {}"
    using split by auto
  ultimately show "set es - set (drop n sorted_es) = set (take n sorted_es)" by blast
  assume xy: "x \<in> set (take n sorted_es)" "y \<in> set (drop n sorted_es)"
  have "sorted (map fst (take n sorted_es) @ map fst (drop n sorted_es))"
    unfolding map_append [symmetric] append_take_drop_id by (simp add: sorted_es_def)
  then have "fst x \<le> fst y"
    using xy unfolding sorted_append by simp
  moreover have "fst x \<noteq> fst y"
    using split xy by (auto simp: disjoint_iff)
  ultimately show "fst x < fst y" by simp
qed

lemma prune_effect:
  assumes "snap_ok s ms"
  shows "\<exists>s' ms'. pruned k s ms s' ms'"
proof -
  have s: "holds_list s ms" "manifests_wf ms"
    using assms unfolding snap_ok_def holds_list_def by blast+
  obtain es s1 where read: "read_snapshots_info s = Some (Inr es, s1)" "holds_list s1 es" "set es = set ms" "manifests_wf es"
      "sn_storage s1 = sn_storage s" "sn_cached_info s1 = Some es"
    using s(1) by (rule holds_list_read)
  have len: "length es = length ms"
    using read(3,4) s(2) unfolding manifests_wf_def by (metis distinct_card distinct_map)
  have same: "read_manifest i s1 = read_manifest i s" for i
    by (simp add: read_manifest_def read(5))
  show ?thesis
  proof (cases "length es \<le> k")
    case True
    then have "pruned k s ms s1 es"
      using read(1-3) same len by (simp add: pruned_def prune_snapshots_def)
    then show ?thesis by blast
  next
    case False
    let ?n = "length es - k"
    let ?old = "take ?n (sort_key fst es)" and ?kept = "drop ?n (sort_key fst es)"
    let ?s' = "write_snapshots_info ?kept (fold (\<lambda>(height, i). delete_manifest i) ?old s1)"
    note kept = newest_kept [OF read(4), where n = ?n]
    have "prune_snapshots k s = Some (Inr (), ?s')"
      using read(1) False by (simp add: prune_snapshots_def Let_def)
    moreover have "read_manifest i ?s' = (if i \<in> snd ` (set ms - set ?kept) then None else read_manifest i s)" for i
      using delete_manifests [of ?old s1 i] same kept(2) read(3) by simp
    moreover have "\<forall>x \<in> set ms - set ?kept. \<forall>y \<in> set ?kept. fst x < fst y"
      using kept(2,3) read(3) by blast
    moreover have "set ?kept \<subseteq> set ms"
      using set_drop_subset [of ?n "sort_key fst es"] read(3) by simp
    ultimately have "pruned k s ms ?s' ?kept"
      using holds_list_write [OF kept(1)] len False unfolding pruned_def by simp
    then show ?thesis by blast
  qed
qed

lemma snap_ok_frame:
  assumes "snap_ok s ms" "sn_cached_info s' = None \<or> sn_cached_info s' = sn_cached_info s"
    and "\<And>i. db_get (sn_storage s') CF_UtxoSnapshots SNAPSHOTS_INFO_KEY = db_get (sn_storage s) CF_UtxoSnapshots SNAPSHOTS_INFO_KEY
           \<and> db_get (sn_storage s') CF_UtxoSnapshots (manifest_key i) = db_get (sn_storage s) CF_UtxoSnapshots (manifest_key i)"
  shows "snap_ok s' ms"
proof -
  have "holds_list s' ms"
    using assms unfolding snap_ok_def holds_list_def by metis
  then show ?thesis
    using assms(1,3) unfolding snap_ok_def read_manifest_def by simp
qed

lemma snap_run_ok: "snap_run s \<Longrightarrow> \<exists>ms. snap_ok s ms"
proof (induction rule: snap_run.induct)
  case snap_start
  show ?case
    by (rule exI [of _ "[]"]) (simp add: snap_ok_def holds_list_def snapshots_db_new_def manifests_wf_def db_get_def db_empty_def)
next
  case (snap_add s ms s0 i height data r s')
  then obtain ms' where ok: "snap_ok s ms'" by blast
  then have "holds_list s ms'" unfolding snap_ok_def by blast
  from holds_list_reads [OF this snap_add(2)] have "set ms = set ms'" by simp
  with snap_ok_add [OF ok _ snap_add(4,5)] snap_add(3) show ?case by simp
next
  case (snap_prune s keep r s')
  then obtain ms where ok: "snap_ok s ms" by blast
  from prune_effect [OF this, of keep] obtain s1 ms' where p: "pruned keep s ms s1 ms'" by blast
  have inj: "inj_on snd (set ms)" "\<forall>i \<in> snd ` set ms. read_manifest i s \<noteq> None"
    using ok unfolding snap_ok_def by blast+
  have sub: "set ms' \<subseteq> set ms"
    using p by (simp add: pruned_def)
  have "read_manifest i s1 \<noteq> None" if "i \<in> snd ` set ms'" for i
  proof -
    have "i \<notin> snd ` (set ms - set ms')"
      using that sub inj_onD [OF inj(1)] by blast
    then have "read_manifest i s1 = read_manifest i s"
      using p by (simp add: pruned_def)
    then show ?thesis
      using inj(2) that sub by auto
  qed
  moreover have "holds_list s1 ms'"
    using p by (simp add: pruned_def)
  ultimately have "snap_ok s1 ms'"
    using inj_on_subset [OF inj(1) sub] unfolding snap_ok_def by blast
  moreover have "s1 = s'"
    using p snap_prune(2) by (simp add: pruned_def)
  ultimately show ?case by blast
next
  case (snap_chunk s k data)
  then obtain ms where "snap_ok s ms" by blast
  then have "snap_ok (write_chunk k data s) ms"
    by (rule snap_ok_frame) (auto simp: write_chunk_def db.get_put)
  then show ?case ..
next
  case (snap_clear s n)
  then obtain ms where "snap_ok s ms" by blast
  then have "snap_ok (clear_chunks n s) ms"
    by (rule snap_ok_frame) (auto simp: clear_chunks_def clear_chunks_get image_iff)
  then show ?case ..
next
  case (snap_restart s)
  then obtain ms where "snap_ok s ms" by blast
  then have "snap_ok (snapshots_db_new (sn_storage s)) ms"
    by (rule snap_ok_frame) (simp_all add: snapshots_db_new_def)
  then show ?case ..
qed

text \<open>In every state of the store, after snapshots were added and pruned, chunks written and cleared and the node
  restarted, the list of snapshots can be read, has one entry for each height, and the manifest of every
  entry is there.\<close>

theorem listed_snapshots_readable:
  assumes "snap_run s"
  shows "\<exists>ms s'. read_snapshots_info s = Some (Inr ms, s') \<and> distinct (map fst ms)
       \<and> (\<forall>m \<in> set ms. read_manifest (snd m) s \<noteq> None)"
proof -
  obtain ms where ms: "snap_ok s ms"
    using snap_run_ok [OF assms] by blast
  then have "holds_list s ms" and stored: "\<forall>i \<in> snd ` set ms. read_manifest i s \<noteq> None"
    unfolding snap_ok_def by blast+
  obtain ms' s' where "read_snapshots_info s = Some (Inr ms', s')" "holds_list s' ms'" "set ms' = set ms" "manifests_wf ms'"
      "sn_storage s' = sn_storage s" "sn_cached_info s' = Some ms'"
    using \<open>holds_list s ms\<close> by (rule holds_list_read)
  with stored show ?thesis
    unfolding manifests_wf_def by (metis image_eqI)
qed

definition one_snapshot :: snapshots_db where
  "one_snapshot = write_snapshots_info [(5, replicate 32 9)]
     ((write_manifest (replicate 32 9) [1, 2] (snapshots_db_new db_empty))\<lparr>sn_cached_info := Some []\<rparr>)"

lemma one_snapshot_run: "snap_run one_snapshot"
proof (rule snap_add [OF snap_start, where i = "replicate 32 9" and ms = "[]" and height = 5 and data = "[1, 2]" and r = "Inr ()"])
  show "read_snapshots_info (snapshots_db_new db_empty) = Some (Inr [], (snapshots_db_new db_empty)\<lparr>sn_cached_info := Some []\<rparr>)"
    by (simp add: read_snapshots_info_def snapshots_db_new_def db_get_def db_empty_def)
  show "add_snapshot 5 (replicate 32 9) [1, 2] (snapshots_db_new db_empty) = Some (Inr (), one_snapshot)"
    by (simp add: add_snapshot_def read_snapshots_info_def write_manifest_def snapshots_db_new_def db.get_put
        one_snapshot_def si_with_manifest_def write_snapshots_info_def)
      (simp add: db_get_def db_empty_def si_with_manifest_def write_snapshots_info_def)
qed simp_all

theorem listed_snapshots_readable_witness:
  "\<exists>ms s'. read_snapshots_info one_snapshot = Some (Inr ms, s') \<and> distinct (map fst ms)"
  using listed_snapshots_readable [OF one_snapshot_run] by blast

text \<open>Pruning keeps the newest snapshots: as many as asked for are left, also after a restart, each with its manifest, the manifests of the
  others are deleted, and all of those were at lower heights.\<close>

theorem prune_keeps_newest:
  assumes "snap_run s" "read_snapshots_info s = Some (Inr ms, s0)"
  shows "\<exists>s' ms' s1. prune_snapshots k s = Some (Inr (), s')
       \<and> read_snapshots_info (snapshots_db_new (sn_storage s')) = Some (Inr ms', s1)
       \<and> set ms' \<subseteq> set ms \<and> length ms' = min k (length ms)
       \<and> (\<forall>x \<in> set ms'. read_manifest (snd x) s' = read_manifest (snd x) s)
       \<and> (\<forall>x \<in> set ms - set ms'. read_manifest (snd x) s' = None \<and> (\<forall>y \<in> set ms'. fst x < fst y))"
proof -
  obtain ms1 where ok: "snap_ok s ms1"
    using snap_run_ok [OF assms(1)] by blast
  then have s: "holds_list s ms1" "inj_on snd (set ms1)"
    unfolding snap_ok_def by blast+
  have ms: "set ms = set ms1" "manifests_wf ms" "manifests_wf ms1"
    using holds_list_reads [OF s(1) assms(2)] s(1) unfolding holds_list_def by blast+
  obtain s' ms' where p: "pruned k s ms1 s' ms'"
    using prune_effect [OF ok] by blast
  have "holds_list (snapshots_db_new (sn_storage s')) ms'"
    using p by (auto simp: pruned_def holds_list_def snapshots_db_new_def)
  then obtain ms3 s1 where again: "read_snapshots_info (snapshots_db_new (sn_storage s')) = Some (Inr ms3, s1)"
      "holds_list s1 ms3" "set ms3 = set ms'" "manifests_wf ms3" "sn_storage s1 = sn_storage (snapshots_db_new (sn_storage s'))"
      "sn_cached_info s1 = Some ms3"
    by (rule holds_list_read)
  have len: "length ms3 = length ms'" "length ms = length ms1"
    using again(3,4) ms p unfolding pruned_def holds_list_def manifests_wf_def by (metis distinct_card distinct_map)+
  have "snd x \<notin> snd ` (set ms1 - set ms')" if "x \<in> set ms'" for x
    using that p inj_onD [OF s(2)] unfolding pruned_def by blast
  then show ?thesis
    using p again(1,3) len ms unfolding pruned_def by (intro exI [of _ s'] exI [of _ ms3] exI [of _ s1]) simp
qed

theorem prune_keeps_newest_witness:
  "\<exists>s'. prune_snapshots 0 one_snapshot = Some (Inr (), s') \<and> read_manifest (replicate 32 9) s' = None"
proof -
  have "read_snapshots_info one_snapshot = Some (Inr [(5, replicate 32 9)], one_snapshot)"
    by (simp add: one_snapshot_def read_snapshots_info_def write_snapshots_info_def)
  from prune_keeps_newest [OF one_snapshot_run this, of 0] show ?thesis by auto
qed

end
