(* ===== verification/Index_Data.thy ===== *)
theory Index_Data
  imports Vlq Utf8 Containers "HOL-Library.Multiset"
begin

text \<open>
  The entries of the extra index and their bytes (\<open>crates/ergo-storage/src/indexer/\<close>: \<open>state.rs\<close>,
  \<open>balance.rs\<close>, \<open>indexed_box.rs\<close>, \<open>indexed_transaction.rs\<close>, \<open>indexed_address.rs\<close>, \<open>indexed_token.rs\<close>).
  Signed 64-bit integers are words that are compared as signed ones. The parsers index into the
  buffer without checks; an index out of range is \<open>None\<close>. Hash maps are association lists, and
  the order in which one is written is an argument. Strings are their UTF-8 bytes.
\<close>

declare map_of_eq_Some_iff [simp del] Some_eq_map_of_iff [simp del]

subsection \<open>Reading at a position\<close>

definition out_of_bounds :: network_error where
  "out_of_bounds = Panic ''index out of bounds''"

definition rd_bytes :: "nat \<Rightarrow> bytes \<Rightarrow> nat \<Rightarrow> network_error + bytes \<times> nat" where
  "rd_bytes n data pos =
     (if pos + n \<le> length data then Inr (subslice data pos (pos + n), pos + n) else Inl out_of_bounds)"

definition rd_u8 :: "bytes \<Rightarrow> nat \<Rightarrow> network_error + u8 \<times> nat" where
  "rd_u8 data pos = (if pos + 1 \<le> length data then Inr (data ! pos, pos + 1) else Inl out_of_bounds)"

definition rd_u16 :: "bytes \<Rightarrow> nat \<Rightarrow> network_error + u16 \<times> nat" where
  "rd_u16 data pos =
     (if pos + 2 \<le> length data then Inr (from_be_u16 (data ! pos) (data ! (pos + 1)), pos + 2) else Inl out_of_bounds)"

definition rd_u32 :: "bytes \<Rightarrow> nat \<Rightarrow> network_error + u32 \<times> nat" where
  "rd_u32 data pos =
     (if pos + 4 \<le> length data
      then Inr (from_be_u32 (data ! pos) (data ! (pos + 1)) (data ! (pos + 2)) (data ! (pos + 3)), pos + 4)
      else Inl out_of_bounds)"

definition rd_u64 :: "bytes \<Rightarrow> nat \<Rightarrow> network_error + u64 \<times> nat" where
  "rd_u64 data pos =
     (if pos + 8 \<le> length data then Inr (from_be_u64 (subslice data pos (pos + 8)), pos + 8) else Inl out_of_bounds)"

definition rd_id :: "bytes \<Rightarrow> nat \<Rightarrow> network_error + bytes \<times> nat" where
  "rd_id = rd_bytes 32"

text \<open>A flag byte that is 1 announces a value; any other byte means none.\<close>

definition rd_flag :: "(bytes \<Rightarrow> nat \<Rightarrow> network_error + 'a \<times> nat) \<Rightarrow> bytes \<Rightarrow> nat \<Rightarrow> network_error + 'a option \<times> nat" where
  "rd_flag rd data pos =
     rbind (rd_u8 data pos) (\<lambda>(flag, pos1).
       if flag = 1 then rbind (rd data pos1) (\<lambda>(x, pos2). Inr (Some x, pos2)) else Inr (None, pos1))"

definition wr_flag :: "('a \<Rightarrow> bytes) \<Rightarrow> 'a option \<Rightarrow> bytes" where
  "wr_flag wr v = (case v of Some x \<Rightarrow> 1 # wr x | None \<Rightarrow> [0])"

definition rd_token :: "bytes \<Rightarrow> nat \<Rightarrow> network_error + (bytes \<times> u64) \<times> nat" where
  "rd_token data pos =
     rbind (rd_id data pos) (\<lambda>(token_id, pos1). rbind (rd_u64 data pos1) (\<lambda>(amount, pos2). Inr ((token_id, amount), pos2)))"

definition wr_token :: "bytes \<times> u64 \<Rightarrow> bytes" where
  "wr_token t = fst t @ be_u64 (snd t)"

text \<open>The lists with a count of 16 or of 32 bits; the cast of the length wraps around.\<close>

definition rd_list16 :: "(bytes \<Rightarrow> nat \<Rightarrow> network_error + 'a \<times> nat) \<Rightarrow> bytes \<Rightarrow> nat \<Rightarrow> network_error + 'a list \<times> nat" where
  "rd_list16 rd data pos = rbind (rd_u16 data pos) (\<lambda>(count, pos1). read_n rd (unat count) data pos1)"

definition wr_list16 :: "('a \<Rightarrow> bytes) \<Rightarrow> 'a list \<Rightarrow> bytes" where
  "wr_list16 wr xs = be_u16 (of_nat (length xs)) @ concat (map wr xs)"

definition rd_list32 :: "(bytes \<Rightarrow> nat \<Rightarrow> network_error + 'a \<times> nat) \<Rightarrow> bytes \<Rightarrow> nat \<Rightarrow> network_error + 'a list \<times> nat" where
  "rd_list32 rd data pos = rbind (rd_u32 data pos) (\<lambda>(count, pos1). read_n rd (unat count) data pos1)"

definition wr_list32 :: "('a \<Rightarrow> bytes) \<Rightarrow> 'a list \<Rightarrow> bytes" where
  "wr_list32 wr xs = be_u32 (of_nat (length xs)) @ concat (map wr xs)"

text \<open>Bytes with their length, and optional strings, where the empty string stands for none.\<close>

definition rd_blob32 :: "bytes \<Rightarrow> nat \<Rightarrow> network_error + bytes \<times> nat" where
  "rd_blob32 data pos = rbind (rd_u32 data pos) (\<lambda>(len, pos1). rd_bytes (unat len) data pos1)"

definition wr_blob32 :: "bytes \<Rightarrow> bytes" where
  "wr_blob32 bs = be_u32 (of_nat (length bs)) @ bs"

definition rd_text :: "bytes \<Rightarrow> nat \<Rightarrow> network_error + bytes option \<times> nat" where
  "rd_text data pos =
     rbind (rd_u16 data pos) (\<lambda>(len, pos1).
       if 0 < len then rbind (rd_bytes (unat len) data pos1) (\<lambda>(bs, pos2). Inr (Some (from_utf8_lossy bs), pos2))
       else Inr (None, pos1))"

definition wr_text :: "bytes option \<Rightarrow> bytes" where
  "wr_text v = (case v of Some s \<Rightarrow> be_u16 (of_nat (length s)) @ s | None \<Rightarrow> be_u16 0)"

text \<open>The result of a parser: \<open>None\<close> when it panics.\<close>

definition parsed :: "network_error + 'a \<Rightarrow> (string + 'a) option" where
  "parsed r = (case r of Inl _ \<Rightarrow> None | Inr x \<Rightarrow> Some (Inr x))"

subsection \<open>The codecs of the readers\<close>

context pos_codec
begin

lemma read_back:
  assumes "wf x" "length data < usize_limit" "at_pos data pos (enc x @ rest)"
  shows "\<exists>pos'. dec data pos = Inr (x, pos') \<and> at_pos data pos' rest"
  using dec_enc [OF assms] at_pos_append [OF assms(3)] by blast

end

lemma at_pos_room: "at_pos data pos (xs @ rest) \<Longrightarrow> pos + length xs \<le> length data"
  using at_pos_length [of data pos "xs @ rest"] by simp

lemma rd_bytes_back: "at_pos data pos (bs @ rest) \<Longrightarrow> rd_bytes (length bs) data pos = Inr (bs, pos + length bs)"
  using at_pos_room [of data pos bs rest] by (simp add: rd_bytes_def at_pos_subslice)

interpretation id_codec: pos_codec "\<lambda>bs. bs" rd_id "\<lambda>bs. length bs = 32"
  by unfold_locales (metis rd_bytes_back rd_id_def)

interpretation u16_codec: pos_codec be_u16 rd_u16 "\<lambda>_. True"
proof
  fix x :: u16 and data pos rest
  assume at: "at_pos data pos (be_u16 x @ rest)"
  have "data ! (pos + k) = be_u16 x ! k" if "k < 2" for k
    using at_pos_nth [OF at, of k] that by (simp add: nth_append)
  from this [of 0] this [of 1] show "rd_u16 data pos = Inr (x, pos + length (be_u16 x))"
    using at_pos_room [OF at] by (simp add: rd_u16_def be_u16_def)
qed

interpretation u32_codec: pos_codec be_u32 rd_u32 "\<lambda>_. True"
proof
  fix x :: u32 and data pos rest
  assume at: "at_pos data pos (be_u32 x @ rest)"
  have "data ! (pos + k) = be_u32 x ! k" if "k < 4" for k
    using at_pos_nth [OF at, of k] that by (simp add: nth_append)
  from this [of 0] this [of 1] this [of 2] this [of 3] show "rd_u32 data pos = Inr (x, pos + length (be_u32 x))"
    using at_pos_room [OF at] by (simp add: rd_u32_def be_u32_def)
qed

interpretation u64_codec: pos_codec be_u64 rd_u64 "\<lambda>_. True"
proof
  fix x :: u64 and data pos rest
  assume at: "at_pos data pos (be_u64 x @ rest)"
  then show "rd_u64 data pos = Inr (x, pos + length (be_u64 x))"
    using at_pos_room [OF at] at_pos_subslice [OF at, of 8] from_be_u64_be [of x "[]"] by (simp add: rd_u64_def)
qed

lemma pos_codec_flag:
  assumes "pos_codec wr rd good"
  shows "pos_codec (wr_flag wr) (rd_flag rd) (pred_option good)"
proof
  fix v data pos rest
  assume v: "pred_option good v" "length data < usize_limit" "at_pos data pos (wr_flag wr v @ rest)"
  show "rd_flag rd data pos = Inr (v, pos + length (wr_flag wr v))"
  proof (cases v)
    case None
    then show ?thesis
      using v(3) at_pos_length [OF v(3)] by (simp add: rd_flag_def wr_flag_def rd_u8_def at_pos_hd)
  next
    case (Some x)
    then have at: "at_pos data pos (1 # wr x @ rest)" using v(3) by (simp add: wr_flag_def)
    then have "rd data (pos + 1) = Inr (x, pos + 1 + length (wr x))"
      using pos_codec.dec_enc [OF assms, of x data "pos + 1" rest] at_pos_Cons [OF at] v(1,2) Some by simp
    then show ?thesis
      using Some at at_pos_length [OF at] by (simp add: rd_flag_def wr_flag_def rd_u8_def at_pos_hd)
  qed
qed

lemma pos_codec_list16:
  assumes "pos_codec wr rd good"
  shows "pos_codec (wr_list16 wr) (rd_list16 rd) (\<lambda>xs. list_all good xs \<and> length xs < 2 ^ 16)"
proof
  fix xs data pos rest
  assume xs: "list_all good xs \<and> length xs < 2 ^ 16" "length data < usize_limit" "at_pos data pos (wr_list16 wr xs @ rest)"
  have at: "at_pos data pos (be_u16 (of_nat (length xs)) @ concat (map wr xs) @ rest)"
    using xs(3) by (simp add: wr_list16_def)
  from u16_codec.dec_enc [OF _ xs(2) at] pos_codec.read_n_concat [OF assms _ xs(2) at_pos_append [OF at]] xs(1)
  show "rd_list16 rd data pos = Inr (xs, pos + length (wr_list16 wr xs))"
    by (simp add: rd_list16_def wr_list16_def unat_of_nat)
qed

lemma pos_codec_list32:
  assumes "pos_codec wr rd good"
  shows "pos_codec (wr_list32 wr) (rd_list32 rd) (\<lambda>xs. list_all good xs \<and> length xs < 2 ^ 32)"
proof
  fix xs data pos rest
  assume xs: "list_all good xs \<and> length xs < 2 ^ 32" "length data < usize_limit" "at_pos data pos (wr_list32 wr xs @ rest)"
  have at: "at_pos data pos (be_u32 (of_nat (length xs)) @ concat (map wr xs) @ rest)"
    using xs(3) by (simp add: wr_list32_def)
  from u32_codec.dec_enc [OF _ xs(2) at] pos_codec.read_n_concat [OF assms _ xs(2) at_pos_append [OF at]] xs(1)
  show "rd_list32 rd data pos = Inr (xs, pos + length (wr_list32 wr xs))"
    by (simp add: rd_list32_def wr_list32_def unat_of_nat)
qed

text \<open>One value after another: the records are read like tuples of their fields.\<close>

definition rd_pair :: "(bytes \<Rightarrow> nat \<Rightarrow> network_error + 'a \<times> nat) \<Rightarrow> (bytes \<Rightarrow> nat \<Rightarrow> network_error + 'b \<times> nat) \<Rightarrow>
    bytes \<Rightarrow> nat \<Rightarrow> network_error + ('a \<times> 'b) \<times> nat" where
  "rd_pair d1 d2 data pos = rbind (d1 data pos) (\<lambda>(a, p). rbind (d2 data p) (\<lambda>(b, q). Inr ((a, b), q)))"

definition wr_pair :: "('a \<Rightarrow> bytes) \<Rightarrow> ('b \<Rightarrow> bytes) \<Rightarrow> 'a \<times> 'b \<Rightarrow> bytes" where
  "wr_pair e1 e2 x = e1 (fst x) @ e2 (snd x)"

lemma pos_codec_pair:
  assumes "pos_codec e1 d1 good1" "pos_codec e2 d2 good2"
  shows "pos_codec (wr_pair e1 e2) (rd_pair d1 d2) (\<lambda>x. good1 (fst x) \<and> good2 (snd x))"
proof
  fix x data pos rest
  assume x: "good1 (fst x) \<and> good2 (snd x)" "length data < usize_limit" "at_pos data pos (wr_pair e1 e2 x @ rest)"
  have at: "at_pos data pos (e1 (fst x) @ e2 (snd x) @ rest)"
    using x(3) by (simp add: wr_pair_def)
  from pos_codec.dec_enc [OF assms(1) _ x(2) at] pos_codec.dec_enc [OF assms(2) _ x(2) at_pos_append [OF at]] x(1)
  show "rd_pair d1 d2 data pos = Inr (x, pos + length (wr_pair e1 e2 x))"
    by (simp add: rd_pair_def wr_pair_def)
qed

lemma token_pair: "wr_token = wr_pair (\<lambda>i. i) be_u64" "rd_token = rd_pair rd_id rd_u64"
  by (simp_all add: fun_eq_iff wr_token_def wr_pair_def rd_token_def rd_pair_def)

interpretation token_codec: pos_codec wr_token rd_token "\<lambda>t. length (fst t) = 32 \<and> True"
  unfolding token_pair by (rule pos_codec_pair [OF id_codec.pos_codec_axioms u64_codec.pos_codec_axioms])

interpretation blob32_codec: pos_codec wr_blob32 rd_blob32 "\<lambda>bs. length bs < 2 ^ 32"
proof
  fix bs data pos rest
  assume bs: "length bs < 2 ^ 32" "length data < usize_limit" "at_pos data pos (wr_blob32 bs @ rest)"
  have at: "at_pos data pos (be_u32 (of_nat (length bs)) @ bs @ rest)"
    using bs(3) by (simp add: wr_blob32_def)
  from u32_codec.dec_enc [OF _ bs(2) at] rd_bytes_back [OF at_pos_append [OF at]] bs(1)
  show "rd_blob32 data pos = Inr (bs, pos + length (wr_blob32 bs))"
    by (simp add: rd_blob32_def wr_blob32_def unat_of_nat)
qed

text \<open>A string is read back when it is not empty and its length fits 16 bits.\<close>

interpretation text_codec: pos_codec wr_text rd_text "pred_option (\<lambda>s. utf8 s \<and> s \<noteq> [] \<and> length s < 2 ^ 16)"
proof
  fix v data pos rest
  assume v: "pred_option (\<lambda>s. utf8 s \<and> s \<noteq> [] \<and> length s < 2 ^ 16) v" "length data < usize_limit"
    "at_pos data pos (wr_text v @ rest)"
  show "rd_text data pos = Inr (v, pos + length (wr_text v))"
  proof (cases v)
    case None
    then show ?thesis
      using u16_codec.dec_enc [OF _ v(2), of pos 0 rest] v(3) by (simp add: rd_text_def wr_text_def)
  next
    case (Some s)
    then have s: "utf8 s" "s \<noteq> []" "length s < 2 ^ 16" and at: "at_pos data pos (be_u16 (of_nat (length s)) @ s @ rest)"
      using v(1,3) by (simp_all add: wr_text_def)
    have "unat (of_nat (length s) :: u16) = length s"
      using s(3) by (simp add: unat_of_nat)
    moreover from this have "0 < (of_nat (length s) :: u16)"
      using s(2) by (metis length_0_conv unat_0 word_gt_0)
    ultimately show ?thesis
      using u16_codec.dec_enc [OF _ v(2) at] rd_bytes_back [OF at_pos_append [OF at]] s(1) Some
      by (simp add: rd_text_def wr_text_def)
  qed
qed

subsection \<open>The state of the indexer\<close>

record indexer_state =
  ix_indexed_height :: u32
  ix_global_box_index :: u64
  ix_global_tx_index :: u64

definition indexer_state_default :: indexer_state where
  "indexer_state_default = \<lparr>ix_indexed_height = 0, ix_global_box_index = 0, ix_global_tx_index = 0\<rparr>"

definition ix_state_serialize :: "indexer_state \<Rightarrow> bytes" where
  "ix_state_serialize s = be_u32 (ix_indexed_height s) @ be_u64 (ix_global_box_index s) @ be_u64 (ix_global_tx_index s)"

definition ix_state_deserialize :: "bytes \<Rightarrow> string + indexer_state" where
  "ix_state_deserialize data =
     (if length data < 20 then Inl ''IndexerState data too short''
      else Inr \<lparr>ix_indexed_height = from_be_u32 (data ! 0) (data ! 1) (data ! 2) (data ! 3),
                ix_global_box_index = from_be_u64 (subslice data 4 12),
                ix_global_tx_index = from_be_u64 (subslice data 12 20)\<rparr>)"

subsection \<open>Balances\<close>

record balance_info =
  bi_nano_ergs :: u64
  bi_tokens :: "(bytes \<times> u64) list"

definition balance_new :: balance_info where
  "balance_new = \<lparr>bi_nano_ergs = 0, bi_tokens = []\<rparr>"

definition token_balance :: "bytes \<Rightarrow> balance_info \<Rightarrow> u64" where
  "token_balance i b = (case map_of (bi_tokens b) i of Some n \<Rightarrow> n | None \<Rightarrow> 0)"

definition balance_add :: "u64 \<Rightarrow> (bytes \<times> u64) list \<Rightarrow> balance_info \<Rightarrow> balance_info" where
  "balance_add nano_ergs tokens b =
     fold (\<lambda>(i, amount) b. b\<lparr>bi_tokens := AList.update i (token_balance i b + amount) (bi_tokens b)\<rparr>) tokens
       (b\<lparr>bi_nano_ergs := bi_nano_ergs b + nano_ergs\<rparr>)"

definition balance_subtract :: "u64 \<Rightarrow> (bytes \<times> u64) list \<Rightarrow> balance_info \<Rightarrow> balance_info" where
  "balance_subtract nano_ergs tokens b =
     fold (\<lambda>(i, amount) b. let entry = token_balance i b - amount in
            b\<lparr>bi_tokens := (if entry = 0 then AList.delete i (bi_tokens b) else AList.update i entry (bi_tokens b))\<rparr>) tokens
       (b\<lparr>bi_nano_ergs := bi_nano_ergs b - nano_ergs\<rparr>)"

definition balance_serialize :: "((bytes \<times> u64) list \<Rightarrow> (bytes \<times> u64) list) \<Rightarrow> balance_info \<Rightarrow> bytes" where
  "balance_serialize iter b =
     be_u64 (bi_nano_ergs b) @ be_u32 (of_nat (length (bi_tokens b))) @ concat (map wr_token (iter (bi_tokens b)))"

text \<open>The length is checked before the tokens are read, so that this parser does not panic.\<close>

definition balance_deserialize :: "bytes \<Rightarrow> (string + balance_info) option" where
  "balance_deserialize data =
     (if length data < 12 then Some (Inl ''BalanceInfo data too short'')
      else
        let nano_ergs = from_be_u64 (subslice data 0 8);
            token_count = unat (from_be_u32 (data ! 8) (data ! 9) (data ! 10) (data ! 11))
        in if length data < 12 + token_count * 40 then Some (Inl ''BalanceInfo data too short for tokens'')
           else parsed (rbind (read_n rd_token token_count data 12) (\<lambda>(tokens, _).
             Inr \<lparr>bi_nano_ergs = nano_ergs, bi_tokens = fold (\<lambda>(i, amount). AList.update i amount) tokens []\<rparr>)))"

subsection \<open>Boxes\<close>

record indexed_box =
  ib_box_id :: bytes
  ib_inclusion_height :: u32
  ib_spending_tx_id :: "bytes option"
  ib_spending_height :: "u32 option"
  ib_global_index :: u64
  ib_box_bytes :: bytes
  ib_value :: u64
  ib_ergo_tree_hash :: bytes
  ib_tokens :: "(bytes \<times> u64) list"

definition indexed_box_new :: "bytes \<Rightarrow> u32 \<Rightarrow> u64 \<Rightarrow> bytes \<Rightarrow> u64 \<Rightarrow> bytes \<Rightarrow> (bytes \<times> u64) list \<Rightarrow> indexed_box" where
  "indexed_box_new box_id height global_index box_bytes val tree_hash tokens =
     \<lparr>ib_box_id = box_id, ib_inclusion_height = height, ib_spending_tx_id = None, ib_spending_height = None,
      ib_global_index = global_index, ib_box_bytes = box_bytes, ib_value = val, ib_ergo_tree_hash = tree_hash,
      ib_tokens = tokens\<rparr>"

definition mark_spent :: "bytes \<Rightarrow> u32 \<Rightarrow> indexed_box \<Rightarrow> indexed_box" where
  "mark_spent tx_id height b = b\<lparr>ib_spending_tx_id := Some tx_id, ib_spending_height := Some height\<rparr>"

definition ib_is_spent :: "indexed_box \<Rightarrow> bool" where
  "ib_is_spent b = (ib_spending_tx_id b \<noteq> None)"

definition ib_serialize :: "indexed_box \<Rightarrow> bytes" where
  "ib_serialize b =
     ib_box_id b @ be_u32 (ib_inclusion_height b) @ wr_flag (\<lambda>i. i) (ib_spending_tx_id b)
     @ wr_flag be_u32 (ib_spending_height b) @ be_u64 (ib_global_index b) @ be_u64 (ib_value b) @ ib_ergo_tree_hash b
     @ wr_list32 wr_token (ib_tokens b) @ wr_blob32 (ib_box_bytes b)"

definition ib_deserialize :: "bytes \<Rightarrow> (string + indexed_box) option" where
  "ib_deserialize data =
     (if length data < 32 + 4 + 1 then Some (Inl ''IndexedErgoBox data too short'')
      else parsed (
        rbind (rd_id data 0) (\<lambda>(box_id, pos).
        rbind (rd_u32 data pos) (\<lambda>(height, pos).
        rbind (rd_flag rd_id data pos) (\<lambda>(spending_tx_id, pos).
        rbind (rd_flag rd_u32 data pos) (\<lambda>(spending_height, pos).
        rbind (rd_u64 data pos) (\<lambda>(global_index, pos).
        rbind (rd_u64 data pos) (\<lambda>(val, pos).
        rbind (rd_id data pos) (\<lambda>(tree_hash, pos).
        rbind (rd_list32 rd_token data pos) (\<lambda>(tokens, pos).
        rbind (rd_blob32 data pos) (\<lambda>(box_bytes, pos).
          Inr \<lparr>ib_box_id = box_id, ib_inclusion_height = height, ib_spending_tx_id = spending_tx_id,
               ib_spending_height = spending_height, ib_global_index = global_index, ib_box_bytes = box_bytes,
               ib_value = val, ib_ergo_tree_hash = tree_hash, ib_tokens = tokens\<rparr>)))))))))))"

subsection \<open>Transactions\<close>

record indexed_tx =
  it_tx_id :: bytes
  it_tx_index :: u16
  it_height :: u32
  it_size :: u32
  it_global_index :: u64
  it_input_indexes :: "u64 list"
  it_output_indexes :: "u64 list"
  it_data_inputs :: "bytes list"

definition it_serialize :: "indexed_tx \<Rightarrow> bytes" where
  "it_serialize t =
     it_tx_id t @ be_u16 (it_tx_index t) @ be_u32 (it_height t) @ be_u32 (it_size t) @ be_u64 (it_global_index t)
     @ wr_list16 be_u64 (it_input_indexes t) @ wr_list16 be_u64 (it_output_indexes t)
     @ wr_list16 (\<lambda>i. i) (it_data_inputs t)"

definition it_deserialize :: "bytes \<Rightarrow> (string + indexed_tx) option" where
  "it_deserialize data =
     (if length data < 32 + 2 + 4 + 4 + 8 + 2 + 2 + 2 then Some (Inl ''IndexedErgoTransaction data too short'')
      else parsed (
        rbind (rd_id data 0) (\<lambda>(tx_id, pos).
        rbind (rd_u16 data pos) (\<lambda>(tx_index, pos).
        rbind (rd_u32 data pos) (\<lambda>(height, pos).
        rbind (rd_u32 data pos) (\<lambda>(size, pos).
        rbind (rd_u64 data pos) (\<lambda>(global_index, pos).
        rbind (rd_list16 rd_u64 data pos) (\<lambda>(input_indexes, pos).
        rbind (rd_list16 rd_u64 data pos) (\<lambda>(output_indexes, pos).
        rbind (rd_list16 rd_id data pos) (\<lambda>(data_inputs, pos).
          Inr \<lparr>it_tx_id = tx_id, it_tx_index = tx_index, it_height = height, it_size = size, it_global_index = global_index,
               it_input_indexes = input_indexes, it_output_indexes = output_indexes, it_data_inputs = data_inputs\<rparr>))))))))))"

subsection \<open>Addresses\<close>

record indexed_address =
  ia_tree_hash :: bytes
  ia_tx_indexes :: "u64 list"
  ia_box_indexes :: "u64 list"
  ia_balance :: balance_info

definition indexed_address_new :: "bytes \<Rightarrow> indexed_address" where
  "indexed_address_new tree_hash = \<lparr>ia_tree_hash = tree_hash, ia_tx_indexes = [], ia_box_indexes = [], ia_balance = balance_new\<rparr>"

definition ia_add_tx :: "u64 \<Rightarrow> indexed_address \<Rightarrow> indexed_address" where
  "ia_add_tx i a = (if ia_tx_indexes a \<noteq> [] \<and> last (ia_tx_indexes a) = i then a else a\<lparr>ia_tx_indexes := ia_tx_indexes a @ [i]\<rparr>)"

text \<open>The first entry with the index is negated.\<close>

fun negate_first :: "u64 \<Rightarrow> u64 list \<Rightarrow> u64 list" where
  "negate_first i [] = []"
| "negate_first i (x # xs) = (if x = i then - x # xs else x # negate_first i xs)"

definition ia_add_box :: "u64 \<Rightarrow> u64 \<Rightarrow> (bytes \<times> u64) list \<Rightarrow> indexed_address \<Rightarrow> indexed_address" where
  "ia_add_box i val tokens a = a\<lparr>ia_box_indexes := ia_box_indexes a @ [i], ia_balance := balance_add val tokens (ia_balance a)\<rparr>"

definition ia_spend_box :: "u64 \<Rightarrow> u64 \<Rightarrow> (bytes \<times> u64) list \<Rightarrow> indexed_address \<Rightarrow> indexed_address" where
  "ia_spend_box i val tokens a =
     a\<lparr>ia_box_indexes := negate_first i (ia_box_indexes a), ia_balance := balance_subtract val tokens (ia_balance a)\<rparr>"

definition ia_unspent_boxes :: "indexed_address \<Rightarrow> u64 list" where
  "ia_unspent_boxes a = filter (\<lambda>i. 0 <s i) (ia_box_indexes a)"

definition ia_unspent_box_count :: "indexed_address \<Rightarrow> nat" where
  "ia_unspent_box_count a = length (filter (\<lambda>i. 0 <s i) (ia_box_indexes a))"

definition ia_serialize :: "((bytes \<times> u64) list \<Rightarrow> (bytes \<times> u64) list) \<Rightarrow> indexed_address \<Rightarrow> bytes" where
  "ia_serialize iter a =
     ia_tree_hash a @ wr_blob32 (balance_serialize iter (ia_balance a))
     @ wr_list32 be_u64 (ia_tx_indexes a) @ wr_list32 be_u64 (ia_box_indexes a)"

definition ia_deserialize :: "bytes \<Rightarrow> (string + indexed_address) option" where
  "ia_deserialize data =
     (if length data < 32 + 4 then Some (Inl ''IndexedErgoAddress data too short'')
      else case rbind (rd_id data 0) (\<lambda>(tree_hash, pos).
                rbind (rd_blob32 data pos) (\<lambda>(balance_bytes, pos). Inr (tree_hash, balance_bytes, pos))) of
             Inl _ \<Rightarrow> None
           | Inr (tree_hash, balance_bytes, pos) \<Rightarrow>
               (case balance_deserialize balance_bytes of
                  None \<Rightarrow> None
                | Some (Inl e) \<Rightarrow> Some (Inl e)
                | Some (Inr balance) \<Rightarrow>
                    parsed (
                      rbind (rd_list32 rd_u64 data pos) (\<lambda>(tx_indexes, pos).
                      rbind (rd_list32 rd_u64 data pos) (\<lambda>(box_indexes, pos).
                        Inr \<lparr>ia_tree_hash = tree_hash, ia_tx_indexes = tx_indexes, ia_box_indexes = box_indexes,
                             ia_balance = balance\<rparr>)))))"

subsection \<open>Tokens\<close>

record indexed_token =
  ik_token_id :: bytes
  ik_creation_box_id :: "bytes option"
  ik_amount :: "u64 option"
  ik_name :: "bytes option"
  ik_description :: "bytes option"
  ik_decimals :: "u8 option"
  ik_box_indexes :: "u64 list"

definition indexed_token_new :: "bytes \<Rightarrow> indexed_token" where
  "indexed_token_new token_id =
     \<lparr>ik_token_id = token_id, ik_creation_box_id = None, ik_amount = None, ik_name = None, ik_description = None,
      ik_decimals = None, ik_box_indexes = []\<rparr>"

definition with_creation_info :: "bytes \<Rightarrow> bytes \<Rightarrow> u64 \<Rightarrow> bytes \<Rightarrow> bytes \<Rightarrow> u8 \<Rightarrow> indexed_token" where
  "with_creation_info token_id creation_box_id amount name description decimals =
     \<lparr>ik_token_id = token_id, ik_creation_box_id = Some creation_box_id, ik_amount = Some amount, ik_name = Some name,
      ik_description = Some description, ik_decimals = Some decimals, ik_box_indexes = []\<rparr>"

definition ik_add_box :: "u64 \<Rightarrow> indexed_token \<Rightarrow> indexed_token" where
  "ik_add_box i t = t\<lparr>ik_box_indexes := ik_box_indexes t @ [i]\<rparr>"

definition ik_spend_box :: "u64 \<Rightarrow> indexed_token \<Rightarrow> indexed_token" where
  "ik_spend_box i t = t\<lparr>ik_box_indexes := negate_first i (ik_box_indexes t)\<rparr>"

definition add_emission :: "u64 \<Rightarrow> indexed_token \<Rightarrow> indexed_token" where
  "add_emission additional t =
     t\<lparr>ik_amount := Some ((case ik_amount t of Some n \<Rightarrow> n | None \<Rightarrow> 0) + additional)\<rparr>"

definition ik_unspent_box_count :: "indexed_token \<Rightarrow> nat" where
  "ik_unspent_box_count t = length (filter (\<lambda>i. 0 <s i) (ik_box_indexes t))"

definition ik_serialize :: "indexed_token \<Rightarrow> bytes" where
  "ik_serialize t =
     ik_token_id t @ wr_flag (\<lambda>i. i) (ik_creation_box_id t) @ wr_flag be_u64 (ik_amount t) @ wr_text (ik_name t)
     @ wr_text (ik_description t) @ wr_flag (\<lambda>d. [d]) (ik_decimals t) @ wr_list32 be_u64 (ik_box_indexes t)"

definition ik_deserialize :: "bytes \<Rightarrow> (string + indexed_token) option" where
  "ik_deserialize data =
     (if length data < 32 + 1 then Some (Inl ''IndexedToken data too short'')
      else parsed (
        rbind (rd_id data 0) (\<lambda>(token_id, pos).
        rbind (rd_flag rd_id data pos) (\<lambda>(creation_box_id, pos).
        rbind (rd_flag rd_u64 data pos) (\<lambda>(amount, pos).
        rbind (rd_text data pos) (\<lambda>(name, pos).
        rbind (rd_text data pos) (\<lambda>(description, pos).
        rbind (rd_flag rd_u8 data pos) (\<lambda>(decimals, pos).
        rbind (rd_list32 rd_u64 data pos) (\<lambda>(box_indexes, pos).
          Inr \<lparr>ik_token_id = token_id, ik_creation_box_id = creation_box_id, ik_amount = amount, ik_name = name,
               ik_description = description, ik_decimals = decimals, ik_box_indexes = box_indexes\<rparr>)))))))))"

subsection \<open>Entries are read back\<close>

interpretation flag_id_codec: pos_codec "wr_flag (\<lambda>i. i)" "rd_flag rd_id" "pred_option (\<lambda>i. length i = 32)"
  by (rule pos_codec_flag [OF id_codec.pos_codec_axioms])

interpretation flag_u32_codec: pos_codec "wr_flag be_u32" "rd_flag rd_u32" "pred_option (\<lambda>_. True)"
  by (rule pos_codec_flag [OF u32_codec.pos_codec_axioms])

interpretation flag_u64_codec: pos_codec "wr_flag be_u64" "rd_flag rd_u64" "pred_option (\<lambda>_. True)"
  by (rule pos_codec_flag [OF u64_codec.pos_codec_axioms])

interpretation u8_codec: pos_codec "\<lambda>d. [d]" rd_u8 "\<lambda>_. True"
  by unfold_locales (auto simp: rd_u8_def at_pos_hd dest: at_pos_length)

interpretation flag_u8_codec: pos_codec "wr_flag (\<lambda>d. [d])" "rd_flag rd_u8" "pred_option (\<lambda>_. True)"
  by (rule pos_codec_flag [OF u8_codec.pos_codec_axioms])

interpretation tokens_codec: pos_codec "wr_list32 wr_token" "rd_list32 rd_token"
  "\<lambda>ts. list_all (\<lambda>t. length (fst t) = 32 \<and> True) ts \<and> length ts < 2 ^ 32"
  by (rule pos_codec_list32 [OF token_codec.pos_codec_axioms])

interpretation indexes32_codec: pos_codec "wr_list32 be_u64" "rd_list32 rd_u64" "\<lambda>is. list_all (\<lambda>_. True) is \<and> length is < 2 ^ 32"
  by (rule pos_codec_list32 [OF u64_codec.pos_codec_axioms])

interpretation indexes16_codec: pos_codec "wr_list16 be_u64" "rd_list16 rd_u64" "\<lambda>is. list_all (\<lambda>_. True) is \<and> length is < 2 ^ 16"
  by (rule pos_codec_list16 [OF u64_codec.pos_codec_axioms])

interpretation ids16_codec: pos_codec "wr_list16 (\<lambda>i. i)" "rd_list16 rd_id" "\<lambda>is. list_all (\<lambda>i. length i = 32) is \<and> length is < 2 ^ 16"
  by (rule pos_codec_list16 [OF id_codec.pos_codec_axioms])

lemma list_all_True [simp]: "list_all (\<lambda>_. True) xs" "pred_option (\<lambda>_. True) v"
  by (simp_all add: list_all_iff option.pred_set)

definition indexed_box_wf :: "indexed_box \<Rightarrow> bool" where
  "indexed_box_wf b \<longleftrightarrow> length (ib_box_id b) = 32 \<and> pred_option (\<lambda>i. length i = 32) (ib_spending_tx_id b)
     \<and> length (ib_ergo_tree_hash b) = 32 \<and> list_all (\<lambda>t. length (fst t) = 32) (ib_tokens b) \<and> length (ib_tokens b) < 2 ^ 32
     \<and> length (ib_box_bytes b) < 2 ^ 32 \<and> length (ib_serialize b) < usize_limit"

lemmas box_fields_codec =
  pos_codec_pair [OF id_codec.pos_codec_axioms
  pos_codec_pair [OF u32_codec.pos_codec_axioms
  pos_codec_pair [OF flag_id_codec.pos_codec_axioms
  pos_codec_pair [OF flag_u32_codec.pos_codec_axioms
  pos_codec_pair [OF u64_codec.pos_codec_axioms
  pos_codec_pair [OF u64_codec.pos_codec_axioms
  pos_codec_pair [OF id_codec.pos_codec_axioms
  pos_codec_pair [OF tokens_codec.pos_codec_axioms blob32_codec.pos_codec_axioms]]]]]]]]

lemma indexed_box_read_back: "indexed_box_wf b \<Longrightarrow> ib_deserialize (ib_serialize b) = Some (Inr b)"
proof -
  assume b: "indexed_box_wf b"
  let ?data = "ib_serialize b"
  let ?fields = "(ib_box_id b, ib_inclusion_height b, ib_spending_tx_id b, ib_spending_height b, ib_global_index b,
    ib_value b, ib_ergo_tree_hash b, ib_tokens b, ib_box_bytes b)"
  have "37 \<le> length ?data"
    using b by (simp add: ib_serialize_def indexed_box_wf_def wr_flag_def split: option.split)
  then show ?thesis
    using pos_codec.dec_enc_whole [OF box_fields_codec, of ?fields] b
    by (auto simp: ib_deserialize_def ib_serialize_def parsed_def wr_pair_def rd_pair_def indexed_box_wf_def rbind_Inr_iff)
qed

definition indexed_tx_wf :: "indexed_tx \<Rightarrow> bool" where
  "indexed_tx_wf t \<longleftrightarrow> length (it_tx_id t) = 32 \<and> length (it_input_indexes t) < 2 ^ 16 \<and> length (it_output_indexes t) < 2 ^ 16
     \<and> list_all (\<lambda>i. length i = 32) (it_data_inputs t) \<and> length (it_data_inputs t) < 2 ^ 16
     \<and> length (it_serialize t) < usize_limit"

lemmas tx_fields_codec =
  pos_codec_pair [OF id_codec.pos_codec_axioms
  pos_codec_pair [OF u16_codec.pos_codec_axioms
  pos_codec_pair [OF u32_codec.pos_codec_axioms
  pos_codec_pair [OF u32_codec.pos_codec_axioms
  pos_codec_pair [OF u64_codec.pos_codec_axioms
  pos_codec_pair [OF indexes16_codec.pos_codec_axioms
  pos_codec_pair [OF indexes16_codec.pos_codec_axioms ids16_codec.pos_codec_axioms]]]]]]]

lemma indexed_tx_read_back: "indexed_tx_wf t \<Longrightarrow> it_deserialize (it_serialize t) = Some (Inr t)"
proof -
  assume t: "indexed_tx_wf t"
  let ?fields = "(it_tx_id t, it_tx_index t, it_height t, it_size t, it_global_index t, it_input_indexes t,
    it_output_indexes t, it_data_inputs t)"
  have "56 \<le> length (it_serialize t)"
    using t by (simp add: it_serialize_def indexed_tx_wf_def wr_list16_def)
  then show ?thesis
    using pos_codec.dec_enc_whole [OF tx_fields_codec, of ?fields] t
    by (auto simp: it_deserialize_def it_serialize_def parsed_def wr_pair_def rd_pair_def indexed_tx_wf_def rbind_Inr_iff)
qed

definition token_text_ok :: "bytes option \<Rightarrow> bool" where
  "token_text_ok = pred_option (\<lambda>s. utf8 s \<and> s \<noteq> [] \<and> length s < 2 ^ 16)"

definition indexed_token_wf :: "indexed_token \<Rightarrow> bool" where
  "indexed_token_wf t \<longleftrightarrow> length (ik_token_id t) = 32 \<and> pred_option (\<lambda>i. length i = 32) (ik_creation_box_id t)
     \<and> token_text_ok (ik_name t) \<and> token_text_ok (ik_description t) \<and> length (ik_box_indexes t) < 2 ^ 32
     \<and> length (ik_serialize t) < usize_limit"

lemmas token_fields_codec =
  pos_codec_pair [OF id_codec.pos_codec_axioms
  pos_codec_pair [OF flag_id_codec.pos_codec_axioms
  pos_codec_pair [OF flag_u64_codec.pos_codec_axioms
  pos_codec_pair [OF text_codec.pos_codec_axioms
  pos_codec_pair [OF text_codec.pos_codec_axioms
  pos_codec_pair [OF flag_u8_codec.pos_codec_axioms indexes32_codec.pos_codec_axioms]]]]]]

lemma indexed_token_read_back: "indexed_token_wf t \<Longrightarrow> ik_deserialize (ik_serialize t) = Some (Inr t)"
proof -
  assume t: "indexed_token_wf t"
  let ?fields = "(ik_token_id t, ik_creation_box_id t, ik_amount t, ik_name t, ik_description t, ik_decimals t, ik_box_indexes t)"
  have "33 \<le> length (ik_serialize t)"
    using t by (simp add: ik_serialize_def indexed_token_wf_def wr_flag_def split: option.split)
  then show ?thesis
    using pos_codec.dec_enc_whole [OF token_fields_codec, of ?fields] t
    by (auto simp: ik_deserialize_def ik_serialize_def parsed_def wr_pair_def rd_pair_def indexed_token_wf_def token_text_ok_def
        rbind_Inr_iff)
qed

text \<open>Balances are read back as the same map, with the tokens in the order they were written in.\<close>

definition balance_wf :: "balance_info \<Rightarrow> bool" where
  "balance_wf b \<longleftrightarrow> distinct (map fst (bi_tokens b)) \<and> (\<forall>t \<in> set (bi_tokens b). length (fst t) = 32)
     \<and> length (bi_tokens b) < 2 ^ 32"

lemma fold_update_fresh:
  "distinct (map fst (acc @ xs)) \<Longrightarrow> fold (\<lambda>(i, amount). AList.update i amount) xs acc = acc @ xs"
proof (induction xs arbitrary: acc)
  case (Cons x xs)
  then have "AList.update (fst x) (snd x) acc = acc @ [x]"
    by (cases x) (auto intro!: update_fresh simp: map_of_eq_None_iff)
  then show ?case
    using Cons.IH [of "acc @ [x]"] Cons.prems by (cases x) simp
qed simp

lemma balance_read_back:
  assumes "balance_wf b" "mset (iter (bi_tokens b)) = mset (bi_tokens b)"
  shows "balance_deserialize (balance_serialize iter b) = Some (Inr (b\<lparr>bi_tokens := iter (bi_tokens b)\<rparr>))"
proof -
  let ?ts = "iter (bi_tokens b)"
  let ?data = "balance_serialize iter b"
  have ts: "length ?ts = length (bi_tokens b)" "distinct (map fst ?ts)" "list_all (\<lambda>t. length (fst t) = 32 \<and> True) ?ts"
    using assms mset_eq_length [OF assms(2)] mset_eq_setD [OF assms(2)]
    by (simp_all add: balance_wf_def list_all_iff) (metis mset_map mset_eq_imp_distinct_iff)
  have len: "length (concat (map wr_token xs)) = 40 * length xs" if "list_all (\<lambda>t. length (fst t) = 32 \<and> True) xs" for xs
    using that by (induction xs) (simp_all add: wr_token_def)
  have small: "length (bi_tokens b) < 2 ^ 32"
    using assms(1) by (simp add: balance_wf_def)
  have lim: "length ?data < usize_limit"
    using len [OF ts(3)] ts(1) small by (simp add: balance_serialize_def usize_limit_def)
  have at: "at_pos ?data 0 (be_u64 (bi_nano_ergs b) @ be_u32 (of_nat (length (bi_tokens b))) @ concat (map wr_token ?ts) @ [])"
    by (simp add: balance_serialize_def at_pos_start)
  note at8 = at_pos_append [OF at]
  note at12 = at_pos_append [OF at8]
  have "rd_u64 ?data 0 = Inr (bi_nano_ergs b, 8)" "rd_u32 ?data 8 = Inr (of_nat (length (bi_tokens b)), 12)"
    using u64_codec.dec_enc [OF _ lim at] u32_codec.dec_enc [OF _ lim at8] by simp_all
  then have "from_be_u64 (subslice ?data 0 8) = bi_nano_ergs b"
    "unat (from_be_u32 (?data ! 8) (?data ! 9) (?data ! 10) (?data ! 11)) = length (bi_tokens b)"
    using small by (auto simp: rd_u64_def rd_u32_def unat_of_nat split: if_splits)
  moreover have "read_n rd_token (length (bi_tokens b)) ?data 12 = Inr (?ts, 12 + 40 * length (bi_tokens b))"
    using token_codec.read_n_concat [OF ts(3) lim, of 12 "[]"] at12 ts(1) len [OF ts(3)] by simp
  moreover have "length ?data = 12 + 40 * length (bi_tokens b)"
    using len [OF ts(3)] ts(1) by (simp add: balance_serialize_def)
  ultimately show ?thesis
    using fold_update_fresh [of "[]" ?ts] ts(2) by (simp add: balance_deserialize_def parsed_def Let_def)
qed

lemma wr_tokens_length:
  "list_all (\<lambda>t. length (fst t) = 32 \<and> True) xs \<Longrightarrow> length (concat (map wr_token xs)) = 40 * length xs"
  by (induction xs) (simp_all add: wr_token_def)

lemma balance_serialize_length:
  assumes "balance_wf b" "mset (iter (bi_tokens b)) = mset (bi_tokens b)"
  shows "length (balance_serialize iter b) = 12 + 40 * length (bi_tokens b)"
proof -
  have "list_all (\<lambda>t. length (fst t) = 32 \<and> True) (iter (bi_tokens b))"
    using assms mset_eq_setD [OF assms(2)] by (simp add: balance_wf_def list_all_iff)
  then show ?thesis
    using mset_eq_length [OF assms(2)] wr_tokens_length by (simp add: balance_serialize_def)
qed

definition indexed_address_wf :: "indexed_address \<Rightarrow> bool" where
  "indexed_address_wf a \<longleftrightarrow> length (ia_tree_hash a) = 32 \<and> balance_wf (ia_balance a) \<and> 12 + 40 * length (bi_tokens (ia_balance a)) < 2 ^ 32
     \<and> length (ia_tx_indexes a) < 2 ^ 32 \<and> length (ia_box_indexes a) < 2 ^ 32"

definition address_read_as :: "((bytes \<times> u64) list \<Rightarrow> (bytes \<times> u64) list) \<Rightarrow> indexed_address \<Rightarrow> indexed_address" where
  "address_read_as iter a = a\<lparr>ia_balance := (ia_balance a)\<lparr>bi_tokens := iter (bi_tokens (ia_balance a))\<rparr>\<rparr>"

lemma indexed_address_read_back:
  assumes "indexed_address_wf a" "length (ia_serialize iter a) < usize_limit"
    "mset (iter (bi_tokens (ia_balance a))) = mset (bi_tokens (ia_balance a))"
  shows "ia_deserialize (ia_serialize iter a) = Some (Inr (address_read_as iter a))"
proof -
  let ?data = "ia_serialize iter a"
  let ?bal = "balance_serialize iter (ia_balance a)"
  have wf: "length (ia_tree_hash a) = 32" "balance_wf (ia_balance a)" "length (ia_tx_indexes a) < 2 ^ 32"
    "length (ia_box_indexes a) < 2 ^ 32" and small: "length ?bal < 2 ^ 32"
    using assms(1) balance_serialize_length [of "ia_balance a" iter, OF _ assms(3)] by (simp_all add: indexed_address_wf_def)
  have at: "at_pos ?data 0 (ia_tree_hash a @ wr_blob32 ?bal @ wr_list32 be_u64 (ia_tx_indexes a) @ wr_list32 be_u64 (ia_box_indexes a) @ [])"
    by (simp add: ia_serialize_def at_pos_start)
  obtain p1 where p1: "rd_id ?data 0 = Inr (ia_tree_hash a, p1)"
      "at_pos ?data p1 (wr_blob32 ?bal @ wr_list32 be_u64 (ia_tx_indexes a) @ wr_list32 be_u64 (ia_box_indexes a) @ [])"
    using id_codec.read_back [OF wf(1) assms(2) at] by blast
  obtain p2 where p2: "rd_blob32 ?data p1 = Inr (?bal, p2)"
      "at_pos ?data p2 (wr_list32 be_u64 (ia_tx_indexes a) @ wr_list32 be_u64 (ia_box_indexes a) @ [])"
    using blob32_codec.read_back [OF small assms(2) p1(2)] by blast
  obtain p3 where p3: "rd_list32 rd_u64 ?data p2 = Inr (ia_tx_indexes a, p3)" "at_pos ?data p3 (wr_list32 be_u64 (ia_box_indexes a) @ [])"
    using indexes32_codec.read_back [OF _ assms(2) p2(2)] wf(3) by auto
  obtain p4 where p4: "rd_list32 rd_u64 ?data p3 = Inr (ia_box_indexes a, p4)"
    using indexes32_codec.read_back [OF _ assms(2) p3(2)] wf(4) by auto
  have "36 \<le> length ?data"
    using wf(1) by (simp add: ia_serialize_def wr_blob32_def)
  then show ?thesis
    using p1(1) p2(1) p3(1) p4 balance_read_back [of "ia_balance a" iter, OF wf(2) assms(3)]
    by (simp add: ia_deserialize_def parsed_def address_read_as_def)
qed

lemma indexer_state_read_back: "ix_state_deserialize (ix_state_serialize s) = Inr s"
proof -
  let ?data = "ix_state_serialize s"
  have at: "at_pos ?data 0 (be_u32 (ix_indexed_height s) @ be_u64 (ix_global_box_index s) @ be_u64 (ix_global_tx_index s) @ [])"
    by (simp add: ix_state_serialize_def at_pos_start)
  note at4 = at_pos_append [OF at]
  note at12 = at_pos_append [OF at4]
  have len: "length ?data = 20" and lim: "length ?data < usize_limit"
    by (simp_all add: ix_state_serialize_def usize_limit_def)
  have "rd_u32 ?data 0 = Inr (ix_indexed_height s, 4)" "rd_u64 ?data 4 = Inr (ix_global_box_index s, 12)"
    "rd_u64 ?data 12 = Inr (ix_global_tx_index s, 20)"
    using u32_codec.dec_enc [OF _ lim at] u64_codec.dec_enc [OF _ lim at4] u64_codec.dec_enc [OF _ lim at12] by simp_all
  then show ?thesis
    using len by (simp add: ix_state_deserialize_def rd_u32_def rd_u64_def numeral_2_eq_2 split: if_splits)
qed

end
