(* ===== verification/Indexer.thy ===== *)
theory Indexer
  imports Index_Data Storage
begin

text \<open>
  The extra indexer (\<open>crates/ergo-storage/src/indexer/mod.rs\<close>): the buffers of boxes, addresses,
  tokens and transactions, their lookups, and the flush to the database. The hash Blake2b-256 and the
  orders in which hash maps are visited are arguments. A parser that indexes out of range panics; a
  thread that asks for a read lock while it holds the write lock of the same (non-reentrant) lock
  waits for ever. Both are outcomes of an operation. Database calls are taken to succeed.
\<close>

declare map_of_eq_Some_iff [simp del] Some_eq_map_of_iff [simp del]

subsection \<open>Kinds and configuration\<close>

datatype extra_index_type = BoxIndexType | TransactionIndexType | AddressIndexType | TokenIndexType

definition extra_index_type_try_from :: "u8 \<Rightarrow> string + extra_index_type" where
  "extra_index_type_try_from v =
     (if v = 5 then Inr BoxIndexType
      else if v = 10 then Inr TransactionIndexType
      else if v = 15 then Inr AddressIndexType
      else if v = 35 then Inr TokenIndexType
      else Inl ''Unknown extra index type'')"

record indexer_config =
  xc_enabled :: bool
  xc_save_limit :: nat
  xc_segment_threshold :: nat

definition indexer_config_default :: indexer_config where
  "indexer_config_default = \<lparr>xc_enabled = False, xc_save_limit = 500, xc_segment_threshold = 512\<rparr>"

record indexer_env =
  xe_blake :: "bytes \<Rightarrow> bytes"
  xe_box_order :: "(bytes \<times> indexed_box) list \<Rightarrow> (bytes \<times> indexed_box) list"
  xe_address_order :: "(bytes \<times> indexed_address) list \<Rightarrow> (bytes \<times> indexed_address) list"
  xe_token_order :: "(bytes \<times> indexed_token) list \<Rightarrow> (bytes \<times> indexed_token) list"
  xe_balance_order :: "(bytes \<times> u64) list \<Rightarrow> (bytes \<times> u64) list"

datatype 'a outcome = Returns 'a | Panics | Blocks

fun then_do :: "'a outcome \<Rightarrow> ('a \<Rightarrow> 'b outcome) \<Rightarrow> 'b outcome" where
  "then_do (Returns x) f = f x"
| "then_do Panics f = Panics"
| "then_do Blocks f = Blocks"

text \<open>How the calling thread holds a lock. A read lock is granted unless the thread itself is the writer.\<close>

datatype lock_held = NotHeld | ReadHeld | WriteHeld

definition with_read_lock :: "lock_held \<Rightarrow> 'a outcome \<Rightarrow> 'a outcome" where
  "with_read_lock held body = (if held = WriteHeld then Blocks else body)"

record indexer =
  xi_config :: indexer_config
  xi_storage :: database
  xi_state :: indexer_state
  xi_boxes :: "(bytes \<times> indexed_box) list"
  xi_addresses :: "(bytes \<times> indexed_address) list"
  xi_tokens :: "(bytes \<times> indexed_token) list"
  xi_transactions :: "indexed_tx list"

definition indexer_new :: "database \<Rightarrow> indexer_config \<Rightarrow> indexer" where
  "indexer_new db c =
     \<lparr>xi_config = c, xi_storage = db, xi_state = indexer_state_default, xi_boxes = [], xi_addresses = [], xi_tokens = [],
      xi_transactions = []\<rparr>"

definition xi_is_enabled :: "indexer \<Rightarrow> bool" where
  "xi_is_enabled x = xc_enabled (xi_config x)"

definition indexed_height :: "indexer \<Rightarrow> u32" where
  "indexed_height x = ix_indexed_height (xi_state x)"

definition xi_should_flush :: "indexer \<Rightarrow> bool" where
  "xi_should_flush x = (xc_save_limit (xi_config x) \<le> length (xi_boxes x) + length (xi_transactions x))"

definition xi_clear_buffers :: "indexer \<Rightarrow> indexer" where
  "xi_clear_buffers x = x\<lparr>xi_boxes := [], xi_addresses := [], xi_tokens := [], xi_transactions := []\<rparr>"

definition xi_buffer_count :: "indexer \<Rightarrow> nat" where
  "xi_buffer_count x = length (xi_boxes x) + length (xi_transactions x) + length (xi_addresses x) + length (xi_tokens x)"

subsection \<open>Lookups\<close>

text \<open>What a stored value is read as: a value that does not parse counts as absent.\<close>

definition stored :: "(bytes \<Rightarrow> (string + 'a) option) \<Rightarrow> bytes option \<Rightarrow> 'a option outcome" where
  "stored deserialize v =
     (case v of
        None \<Rightarrow> Returns None
      | Some data \<Rightarrow>
          (case deserialize data of
             None \<Rightarrow> Panics
           | Some (Inl _) \<Rightarrow> Returns None
           | Some (Inr x) \<Rightarrow> Returns (Some x)))"

definition xi_get_box :: "indexer \<Rightarrow> bytes \<Rightarrow> indexed_box option outcome" where
  "xi_get_box x box_id =
     (case map_of (xi_boxes x) box_id of
        Some b \<Rightarrow> Returns (Some b)
      | None \<Rightarrow> stored ib_deserialize (db_get (xi_storage x) CF_ExtraIndex box_id))"

definition get_box_by_index :: "indexer \<Rightarrow> u64 \<Rightarrow> indexed_box option outcome" where
  "get_box_by_index x i =
     (case db_get (xi_storage x) CF_BoxIndex (be_u64 i) of
        None \<Rightarrow> Returns None
      | Some box_id \<Rightarrow> if length box_id = 32 then xi_get_box x box_id else Returns None)"

definition xi_get_transaction :: "indexer \<Rightarrow> bytes \<Rightarrow> indexed_tx option outcome" where
  "xi_get_transaction x tx_id =
     (case find (\<lambda>t. it_tx_id t = tx_id) (xi_transactions x) of
        Some t \<Rightarrow> Returns (Some t)
      | None \<Rightarrow> stored it_deserialize (db_get (xi_storage x) CF_ExtraIndex tx_id))"

text \<open>The lookups that an operation calls while it may hold the lock of the map they read first.\<close>

definition get_address_holding :: "lock_held \<Rightarrow> indexer \<Rightarrow> bytes \<Rightarrow> indexed_address option outcome" where
  "get_address_holding held x tree_hash =
     with_read_lock held
       (case map_of (xi_addresses x) tree_hash of
          Some a \<Rightarrow> Returns (Some a)
        | None \<Rightarrow> stored ia_deserialize (db_get (xi_storage x) CF_ExtraIndex tree_hash))"

definition get_address :: "indexer \<Rightarrow> bytes \<Rightarrow> indexed_address option outcome" where
  "get_address = get_address_holding NotHeld"

definition token_unique_id :: "indexer_env \<Rightarrow> bytes \<Rightarrow> bytes" where
  "token_unique_id e token_id = xe_blake e (token_id @ [116, 111, 107, 101, 110])"

definition hash_ergo_tree :: "indexer_env \<Rightarrow> bytes \<Rightarrow> bytes" where
  "hash_ergo_tree e tree = xe_blake e tree"

definition get_token_holding :: "lock_held \<Rightarrow> indexer_env \<Rightarrow> indexer \<Rightarrow> bytes \<Rightarrow> indexed_token option outcome" where
  "get_token_holding held e x token_id =
     (let unique_id = token_unique_id e token_id in
      with_read_lock held
        (case map_of (xi_tokens x) unique_id of
           Some t \<Rightarrow> Returns (Some t)
         | None \<Rightarrow> stored ik_deserialize (db_get (xi_storage x) CF_ExtraIndex unique_id)))"

definition get_token :: "indexer_env \<Rightarrow> indexer \<Rightarrow> bytes \<Rightarrow> indexed_token option outcome" where
  "get_token = get_token_holding NotHeld"

subsection \<open>Indexing\<close>

text \<open>The entry of a key, or a new one, changed in place.\<close>

definition change_entry :: "'k \<Rightarrow> 'v \<Rightarrow> ('v \<Rightarrow> 'v) \<Rightarrow> ('k \<times> 'v) list \<Rightarrow> ('k \<times> 'v) list" where
  "change_entry k new f m = AList.update k (f (case map_of m k of Some v \<Rightarrow> v | None \<Rightarrow> new)) m"

definition index_output :: "indexer_env \<Rightarrow> bytes \<Rightarrow> u32 \<Rightarrow> bytes \<Rightarrow> u64 \<Rightarrow> bytes \<Rightarrow> (bytes \<times> u64) list \<Rightarrow> indexer \<Rightarrow> u64 \<times> indexer" where
  "index_output e box_id height box_bytes val tree tokens x =
     (let global_index = ix_global_box_index (xi_state x);
          tree_hash = hash_ergo_tree e tree;
          b = indexed_box_new box_id height global_index box_bytes val tree_hash tokens
      in (global_index,
          x\<lparr>xi_boxes := AList.update box_id b (xi_boxes x),
            xi_addresses := change_entry tree_hash (indexed_address_new tree_hash) (ia_add_box global_index val tokens) (xi_addresses x),
            xi_tokens := fold (\<lambda>(token_id, amount).
                change_entry (token_unique_id e token_id) (indexed_token_new token_id) (ik_add_box global_index)) tokens (xi_tokens x),
            xi_state := (xi_state x)\<lparr>ix_global_box_index := global_index + 1\<rparr>\<rparr>))"

text \<open>
  \<open>spend_box\<close> keeps the write lock of the addresses (then of the tokens) while it looks for an entry
  that is not buffered through \<open>get_address\<close> (\<open>get_token\<close>).
\<close>

definition spend_in_address :: "indexed_box \<Rightarrow> indexer \<Rightarrow> indexer outcome" where
  "spend_in_address b x =
     (let spend = ia_spend_box (ib_global_index b) (ib_value b) (ib_tokens b);
          h = ib_ergo_tree_hash b
      in case map_of (xi_addresses x) h of
           Some a \<Rightarrow> Returns (x\<lparr>xi_addresses := AList.update h (spend a) (xi_addresses x)\<rparr>)
         | None \<Rightarrow>
             then_do (get_address_holding WriteHeld x h) (\<lambda>found.
               case found of
                 Some a \<Rightarrow> Returns (x\<lparr>xi_addresses := AList.update h (spend a) (xi_addresses x)\<rparr>)
               | None \<Rightarrow> Returns x))"

definition spend_in_token :: "indexer_env \<Rightarrow> u64 \<Rightarrow> bytes \<Rightarrow> indexer \<Rightarrow> indexer outcome" where
  "spend_in_token e i token_id x =
     (let unique_id = token_unique_id e token_id in
      case map_of (xi_tokens x) unique_id of
        Some t \<Rightarrow> Returns (x\<lparr>xi_tokens := AList.update unique_id (ik_spend_box i t) (xi_tokens x)\<rparr>)
      | None \<Rightarrow>
          then_do (get_token_holding WriteHeld e x token_id) (\<lambda>found.
            case found of
              Some t \<Rightarrow> Returns (x\<lparr>xi_tokens := AList.update unique_id (ik_spend_box i t) (xi_tokens x)\<rparr>)
            | None \<Rightarrow> Returns x))"

fun spend_in_tokens :: "indexer_env \<Rightarrow> u64 \<Rightarrow> (bytes \<times> u64) list \<Rightarrow> indexer \<Rightarrow> indexer outcome" where
  "spend_in_tokens e i [] x = Returns x"
| "spend_in_tokens e i ((token_id, amount) # ts) x = then_do (spend_in_token e i token_id x) (spend_in_tokens e i ts)"

definition spend_box :: "indexer_env \<Rightarrow> bytes \<Rightarrow> bytes \<Rightarrow> u32 \<Rightarrow> indexer \<Rightarrow> (u64 option \<times> indexer) outcome" where
  "spend_box e box_id spending_tx_id spending_height x =
     then_do (xi_get_box x box_id) (\<lambda>found.
       case found of
         None \<Rightarrow> Returns (None, x)
       | Some b \<Rightarrow>
           let x = x\<lparr>xi_boxes := AList.update box_id (mark_spent spending_tx_id spending_height b) (xi_boxes x)\<rparr> in
           then_do (spend_in_address b x) (\<lambda>x.
           then_do (spend_in_tokens e (ib_global_index b) (ib_tokens b) x) (\<lambda>x.
             Returns (Some (ib_global_index b), x))))"

definition index_transaction :: "bytes \<Rightarrow> u16 \<Rightarrow> u32 \<Rightarrow> u32 \<Rightarrow> u64 list \<Rightarrow> u64 list \<Rightarrow> bytes list \<Rightarrow> indexer \<Rightarrow> u64 \<times> indexer" where
  "index_transaction tx_id tx_index height bytes_len input_indexes output_indexes data_inputs x =
     (let global_index = ix_global_tx_index (xi_state x);
          t = \<lparr>it_tx_id = tx_id, it_tx_index = tx_index, it_height = height, it_size = bytes_len, it_global_index = global_index,
               it_input_indexes = input_indexes, it_output_indexes = output_indexes, it_data_inputs = data_inputs\<rparr>
      in (global_index,
          x\<lparr>xi_transactions := xi_transactions x @ [t],
            xi_state := (xi_state x)\<lparr>ix_global_tx_index := global_index + 1\<rparr>\<rparr>))"

definition register_token :: "indexer_env \<Rightarrow> bytes \<Rightarrow> bytes \<Rightarrow> u64 \<Rightarrow> bytes \<Rightarrow> bytes \<Rightarrow> u8 \<Rightarrow> indexer \<Rightarrow> indexer" where
  "register_token e token_id creation_box_id amount name description decimals x =
     (let unique_id = token_unique_id e token_id in
      x\<lparr>xi_tokens := AList.update unique_id
          (case map_of (xi_tokens x) unique_id of
             Some existing \<Rightarrow> add_emission amount existing
           | None \<Rightarrow> with_creation_info token_id creation_box_id amount name description decimals)
          (xi_tokens x)\<rparr>)"

subsection \<open>Flushing\<close>

definition indexer_state_key :: bytes where
  "indexer_state_key = [105, 110, 100, 101, 120, 101, 114, 95, 115, 116, 97, 116, 101]"

definition flush_box :: "bytes \<times> indexed_box \<Rightarrow> write_batch \<Rightarrow> write_batch" where
  "flush_box p batch =
     batch_put CF_BoxIndex (be_u64 (ib_global_index (snd p))) (fst p)
       (batch_put CF_ExtraIndex (fst p) (ib_serialize (snd p)) batch)"

definition flush_tx :: "indexed_tx \<Rightarrow> write_batch \<Rightarrow> write_batch" where
  "flush_tx t batch =
     batch_put CF_TxNumericIndex (be_u64 (it_global_index t)) (it_tx_id t)
       (batch_put CF_ExtraIndex (it_tx_id t) (it_serialize t) batch)"

definition flush_address :: "indexer_env \<Rightarrow> bytes \<times> indexed_address \<Rightarrow> write_batch \<Rightarrow> write_batch" where
  "flush_address e p = batch_put CF_ExtraIndex (fst p) (ia_serialize (xe_balance_order e) (snd p))"

definition flush_token :: "bytes \<times> indexed_token \<Rightarrow> write_batch \<Rightarrow> write_batch" where
  "flush_token p = batch_put CF_ExtraIndex (fst p) (ik_serialize (snd p))"

definition flush_batch :: "indexer_env \<Rightarrow> indexer \<Rightarrow> write_batch" where
  "flush_batch e x =
     (let batch = batch_put CF_Metadata indexer_state_key (ix_state_serialize (xi_state x)) batch_new;
          batch = fold flush_box (xe_box_order e (xi_boxes x)) batch;
          batch = fold flush_tx (xi_transactions x) batch;
          batch = fold (flush_address e) (xe_address_order e (xi_addresses x)) batch
      in fold flush_token (xe_token_order e (xi_tokens x)) batch)"

definition xi_flush :: "indexer_env \<Rightarrow> indexer \<Rightarrow> indexer" where
  "xi_flush e x = xi_clear_buffers (x\<lparr>xi_storage := db_write_batch (flush_batch e x) (xi_storage x)\<rparr>)"

definition set_indexed_height :: "u32 \<Rightarrow> indexer \<Rightarrow> indexer" where
  "set_indexed_height height x = x\<lparr>xi_state := (xi_state x)\<lparr>ix_indexed_height := height\<rparr>\<rparr>"

definition xi_load_state :: "indexer \<Rightarrow> indexer" where
  "xi_load_state x =
     (case db_get (xi_storage x) CF_Metadata indexer_state_key of
        None \<Rightarrow> x
      | Some data \<Rightarrow>
          (case ix_state_deserialize data of
             Inl _ \<Rightarrow> x
           | Inr s \<Rightarrow> x\<lparr>xi_state := s\<rparr>))"

definition maybe_flush :: "indexer_env \<Rightarrow> indexer \<Rightarrow> bool \<times> indexer" where
  "maybe_flush e x = (if xi_should_flush x then (True, xi_flush e x) else (False, x))"

subsection \<open>Balances\<close>

text \<open>What a box holds of a token.\<close>

definition amount_in :: "bytes \<Rightarrow> (bytes \<times> u64) list \<Rightarrow> u64" where
  "amount_in i tokens = sum_list (map snd (filter (\<lambda>t. fst t = i) tokens))"

lemma amount_in_simps [simp]:
  "amount_in i [] = 0"
  "amount_in i (t # ts) = (if fst t = i then snd t else 0) + amount_in i ts"
  by (simp_all add: amount_in_def)

lemma token_balance_update [simp]:
  "token_balance i (b\<lparr>bi_tokens := AList.update j n (bi_tokens b)\<rparr>) = (if i = j then n else token_balance i b)"
  by (simp add: token_balance_def update_conv')

lemma token_balance_delete [simp]:
  "token_balance i (b\<lparr>bi_tokens := AList.delete j (bi_tokens b)\<rparr>) = (if i = j then 0 else token_balance i b)"
  by (simp add: token_balance_def delete_conv')

lemma token_balance_ergs [simp]: "token_balance i (b\<lparr>bi_nano_ergs := n\<rparr>) = token_balance i b"
  by (simp add: token_balance_def)

lemma balance_add_ergs [simp]: "bi_nano_ergs (balance_add v tokens b) = bi_nano_ergs b + v"
proof -
  have "bi_nano_ergs (fold (\<lambda>(i, amount) b. b\<lparr>bi_tokens := AList.update i (token_balance i b + amount) (bi_tokens b)\<rparr>) tokens c)
      = bi_nano_ergs c" for c
    by (induction tokens arbitrary: c) (auto simp: case_prod_beta)
  then show ?thesis
    by (simp add: balance_add_def)
qed

lemma balance_add_token [simp]: "token_balance i (balance_add v tokens b) = token_balance i b + amount_in i tokens"
proof -
  have "token_balance i (fold (\<lambda>(i, amount) b. b\<lparr>bi_tokens := AList.update i (token_balance i b + amount) (bi_tokens b)\<rparr>) tokens c)
      = token_balance i c + amount_in i tokens" for c
    by (induction tokens arbitrary: c) (auto simp: case_prod_beta)
  then show ?thesis
    by (simp add: balance_add_def)
qed

lemma balance_subtract_ergs [simp]: "bi_nano_ergs (balance_subtract v tokens b) = bi_nano_ergs b - v"
proof -
  have "bi_nano_ergs (fold (\<lambda>(i, amount) b. let entry = token_balance i b - amount in
            b\<lparr>bi_tokens := (if entry = 0 then AList.delete i (bi_tokens b) else AList.update i entry (bi_tokens b))\<rparr>) tokens c)
      = bi_nano_ergs c" for c
    by (induction tokens arbitrary: c) (auto simp: case_prod_beta Let_def)
  then show ?thesis
    by (simp add: balance_subtract_def)
qed

lemma balance_subtract_token [simp]: "token_balance i (balance_subtract v tokens b) = token_balance i b - amount_in i tokens"
proof -
  have "token_balance i (fold (\<lambda>(i, amount) b. let entry = token_balance i b - amount in
            b\<lparr>bi_tokens := (if entry = 0 then AList.delete i (bi_tokens b) else AList.update i entry (bi_tokens b))\<rparr>) tokens c)
      = token_balance i c - amount_in i tokens" for c
  proof (induction tokens arbitrary: c)
    case (Cons t ts)
    then show ?case
      by (auto simp: case_prod_beta Let_def)
  qed simp
  then show ?thesis
    by (simp add: balance_subtract_def)
qed

subsection \<open>Indexing without a flush\<close>

text \<open>Calls that block application makes: new outputs get new identifiers, a box is spent once.\<close>

inductive indexing_step :: "indexer_env \<Rightarrow> indexer \<Rightarrow> indexer \<Rightarrow> bool" for e where
  new_output: "map_of (xi_boxes x) box_id = None \<Longrightarrow>
     indexing_step e x (snd (index_output e box_id height box_bytes val tree tokens x))"
| spent: "map_of (xi_boxes x) box_id = Some b \<Longrightarrow> \<not> ib_is_spent b \<Longrightarrow>
     spend_box e box_id tx_id height x = Returns (r, x') \<Longrightarrow> indexing_step e x x'"
| new_transaction: "indexing_step e x (snd (index_transaction tx_id tx_index height bytes_len inputs outputs data_inputs x))"
| block_done: "indexing_step e x (set_indexed_height height x)"

inductive indexed_from :: "indexer_env \<Rightarrow> indexer \<Rightarrow> indexer \<Rightarrow> bool" for e x where
  start: "indexed_from e x x"
| more: "indexed_from e x y \<Longrightarrow> indexing_step e y z \<Longrightarrow> indexed_from e x z"

text \<open>The sum of a quantity over the buffered boxes of a script that are not spent.\<close>

definition unspent_part :: "(indexed_box \<Rightarrow> u64) \<Rightarrow> bytes \<Rightarrow> indexed_box \<Rightarrow> u64" where
  "unspent_part f h b = (if ib_ergo_tree_hash b = h \<and> \<not> ib_is_spent b then f b else 0)"

definition unspent_sum :: "(indexed_box \<Rightarrow> u64) \<Rightarrow> bytes \<Rightarrow> indexer \<Rightarrow> u64" where
  "unspent_sum f h x = (\<Sum>b\<leftarrow>map snd (xi_boxes x). unspent_part f h b)"

definition balances_exact :: "indexer \<Rightarrow> bool" where
  "balances_exact x \<longleftrightarrow> (\<forall>h a. map_of (xi_addresses x) h = Some a \<longrightarrow>
     bi_nano_ergs (ia_balance a) = unspent_sum ib_value h x
     \<and> (\<forall>i. token_balance i (ia_balance a) = unspent_sum (\<lambda>b. amount_in i (ib_tokens b)) h x))"

definition entries_buffered :: "indexer_env \<Rightarrow> indexer \<Rightarrow> bool" where
  "entries_buffered e x \<longleftrightarrow> (\<forall>b \<in> snd ` set (xi_boxes x).
     map_of (xi_addresses x) (ib_ergo_tree_hash b) \<noteq> None
     \<and> (\<forall>t \<in> set (ib_tokens b). map_of (xi_tokens x) (token_unique_id e (fst t)) \<noteq> None))"

lemma sum_update_fresh:
  "map_of m k = None \<Longrightarrow> (\<Sum>v\<leftarrow>map snd (AList.update k w m). (g v :: u64)) = (\<Sum>v\<leftarrow>map snd m. g v) + g w"
  by (induction m) (auto split: if_splits simp: add.assoc)

lemma sum_update_known:
  "map_of m k = Some u \<Longrightarrow> (\<Sum>v\<leftarrow>map snd (AList.update k w m). (g v :: u64)) = (\<Sum>v\<leftarrow>map snd m. g v) - g u + g w"
  by (induction m) (auto split: if_splits)

lemma map_of_change_entry:
  "map_of (change_entry k new f m) k' = (if k' = k then Some (f (case map_of m k of Some v \<Rightarrow> v | None \<Rightarrow> new)) else map_of m k')"
  by (simp add: change_entry_def update_conv')

lemma fold_change_entry_known:
  "map_of m k \<noteq> None \<Longrightarrow> map_of (fold (\<lambda>(i, n). change_entry (u i) (w i) (f i)) ts m) k \<noteq> None"
  by (induction ts arbitrary: m) (auto simp: map_of_change_entry case_prod_beta)

lemma fold_change_entry_added:
  "t \<in> set ts \<Longrightarrow> map_of (fold (\<lambda>(i, n). change_entry (u i) (w i) (f i)) ts m) (u (fst t)) \<noteq> None"
proof (induction ts arbitrary: m)
  case (Cons x xs)
  then show ?case
    using fold_change_entry_known [of "change_entry (u (fst x)) (w (fst x)) (f (fst x)) m" "u (fst t)" u w f xs]
    unfolding case_prod_beta by (auto simp: map_of_change_entry)
qed simp

lemma spend_in_token_buffered:
  assumes "map_of (xi_tokens x) (token_unique_id e i) \<noteq> None"
  shows "\<exists>ts. spend_in_token e g i x = Returns (x\<lparr>xi_tokens := ts\<rparr>) \<and> dom (map_of ts) = dom (map_of (xi_tokens x))"
proof -
  obtain t where t: "map_of (xi_tokens x) (token_unique_id e i) = Some t"
    using assms by blast
  then have "dom (map_of (AList.update (token_unique_id e i) (ik_spend_box g t) (xi_tokens x))) = dom (map_of (xi_tokens x))"
    by (auto simp: update_conv')
  then show ?thesis
    using t by (intro exI [of _ "AList.update (token_unique_id e i) (ik_spend_box g t) (xi_tokens x)"]) (simp add: spend_in_token_def)
qed

lemma spend_in_tokens_buffered:
  assumes "\<forall>t \<in> set tokens. map_of (xi_tokens x) (token_unique_id e (fst t)) \<noteq> None"
  shows "\<exists>ts. spend_in_tokens e g tokens x = Returns (x\<lparr>xi_tokens := ts\<rparr>) \<and> dom (map_of ts) = dom (map_of (xi_tokens x))"
  using assms
proof (induction tokens arbitrary: x)
  case Nil
  then show ?case
    by (auto intro: exI [of _ "xi_tokens x"])
next
  case (Cons t tokens)
  obtain i n where t: "t = (i, n)"
    by (cases t)
  obtain ts1 where ts1: "spend_in_token e g i x = Returns (x\<lparr>xi_tokens := ts1\<rparr>)" "dom (map_of ts1) = dom (map_of (xi_tokens x))"
    using spend_in_token_buffered [of x e i g] Cons.prems t by auto
  have "\<forall>t \<in> set tokens. map_of (xi_tokens (x\<lparr>xi_tokens := ts1\<rparr>)) (token_unique_id e (fst t)) \<noteq> None"
    using Cons.prems ts1(2) by (auto simp: domIff set_eq_iff)
  from Cons.IH [OF this] show ?case
    using ts1 t by auto
qed

lemma spend_box_buffered:
  assumes "map_of (xi_boxes x) box_id = Some b" "map_of (xi_addresses x) (ib_ergo_tree_hash b) = Some a"
    "\<forall>t \<in> set (ib_tokens b). map_of (xi_tokens x) (token_unique_id e (fst t)) \<noteq> None"
  shows "\<exists>ts. spend_box e box_id tx_id height x = Returns (Some (ib_global_index b),
      x\<lparr>xi_boxes := AList.update box_id (mark_spent tx_id height b) (xi_boxes x),
        xi_addresses := AList.update (ib_ergo_tree_hash b) (ia_spend_box (ib_global_index b) (ib_value b) (ib_tokens b) a) (xi_addresses x),
        xi_tokens := ts\<rparr>)
    \<and> dom (map_of ts) = dom (map_of (xi_tokens x))"
proof -
  let ?y = "x\<lparr>xi_boxes := AList.update box_id (mark_spent tx_id height b) (xi_boxes x),
    xi_addresses := AList.update (ib_ergo_tree_hash b) (ia_spend_box (ib_global_index b) (ib_value b) (ib_tokens b) a) (xi_addresses x)\<rparr>"
  obtain ts where "spend_in_tokens e (ib_global_index b) (ib_tokens b) ?y = Returns (?y\<lparr>xi_tokens := ts\<rparr>)"
    "dom (map_of ts) = dom (map_of (xi_tokens x))"
    using spend_in_tokens_buffered [of "ib_tokens b" ?y e "ib_global_index b"] assms(3) by auto
  then show ?thesis
    using assms(1,2) by (intro exI [of _ ts]) (simp add: spend_box_def xi_get_box_def spend_in_address_def)
qed

lemma set_alist_update: "p \<in> set (AList.update k v m) \<Longrightarrow> p = (k, v) \<or> p \<in> set m"
  by (induction m) (auto split: if_splits)

lemma entries_bufferedD:
  assumes "entries_buffered e x" "b \<in> snd ` set (xi_boxes x)"
  shows "map_of (xi_addresses x) (ib_ergo_tree_hash b) \<noteq> None"
    "\<forall>t \<in> set (ib_tokens b). map_of (xi_tokens x) (token_unique_id e (fst t)) \<noteq> None"
  using assms unfolding entries_buffered_def by blast+

lemma unspent_sum_no_address:
  assumes "entries_buffered e x" "map_of (xi_addresses x) h = None"
  shows "unspent_sum f h x = 0"
proof -
  have "unspent_part f h b = 0" if "b \<in> snd ` set (xi_boxes x)" for b
    using entries_bufferedD(1) [OF assms(1) that] assms(2) by (auto simp: unspent_part_def)
  then have "map (unspent_part f h) (map snd (xi_boxes x)) = map (\<lambda>_. 0) (map snd (xi_boxes x))"
    by (intro map_cong) auto
  then show ?thesis
    unfolding unspent_sum_def by (metis sum_list_0)
qed

lemma unspent_sum_cong: "xi_boxes y = xi_boxes x \<Longrightarrow> unspent_sum f h y = unspent_sum f h x"
  by (simp add: unspent_sum_def)

definition indexer_inv :: "indexer_env \<Rightarrow> indexer \<Rightarrow> bool" where
  "indexer_inv e x \<longleftrightarrow> balances_exact x \<and> entries_buffered e x"

lemma indexer_inv_output:
  assumes "map_of (xi_boxes x) box_id = None" "indexer_inv e x"
  shows "indexer_inv e (snd (index_output e box_id height box_bytes val tree tokens x))" (is "indexer_inv e ?y")
proof -
  let ?h = "hash_ergo_tree e tree"
  let ?i = "ix_global_box_index (xi_state x)"
  let ?b = "indexed_box_new box_id height ?i box_bytes val ?h tokens"
  have boxes: "xi_boxes ?y = AList.update box_id ?b (xi_boxes x)"
    and addresses: "xi_addresses ?y = change_entry ?h (indexed_address_new ?h) (ia_add_box ?i val tokens) (xi_addresses x)"
    and toks: "xi_tokens ?y = fold (\<lambda>(i, n). change_entry (token_unique_id e i) (indexed_token_new i) (ik_add_box ?i)) tokens (xi_tokens x)"
    by (simp_all add: index_output_def Let_def)
  have sums: "unspent_sum f h ?y = unspent_sum f h x + (if h = ?h then f ?b else 0)" for f h
    unfolding unspent_sum_def boxes sum_update_fresh [OF assms(1)]
    by (simp add: unspent_part_def indexed_box_new_def ib_is_spent_def)
  have "bi_nano_ergs (ia_balance a) = unspent_sum ib_value h ?y
      \<and> (\<forall>i. token_balance i (ia_balance a) = unspent_sum (\<lambda>b. amount_in i (ib_tokens b)) h ?y)"
    if "map_of (xi_addresses ?y) h = Some a" for h a
    using that assms(2) unspent_sum_no_address [of e x h]
    by (auto simp: addresses map_of_change_entry sums indexer_inv_def balances_exact_def indexed_box_new_def ia_add_box_def
        indexed_address_new_def balance_new_def token_balance_def [of _ "\<lparr>bi_nano_ergs = 0, bi_tokens = []\<rparr>"]
        split: if_splits option.splits)
  then have "balances_exact ?y"
    by (simp add: balances_exact_def)
  moreover have "map_of (xi_addresses ?y) (ib_ergo_tree_hash b) \<noteq> None
      \<and> (\<forall>t \<in> set (ib_tokens b). map_of (xi_tokens ?y) (token_unique_id e (fst t)) \<noteq> None)"
    if "b \<in> snd ` set (xi_boxes ?y)" for b
  proof (cases "b = ?b")
    case True
    then show ?thesis
      using fold_change_entry_added [of _ tokens "token_unique_id e"]
      by (auto simp: addresses toks map_of_change_entry indexed_box_new_def)
  next
    case False
    then have "b \<in> snd ` set (xi_boxes x)"
      using that set_alist_update by (fastforce simp: boxes)
    then have "map_of (xi_addresses x) (ib_ergo_tree_hash b) \<noteq> None"
      "\<forall>t \<in> set (ib_tokens b). map_of (xi_tokens x) (token_unique_id e (fst t)) \<noteq> None"
      using assms(2) entries_bufferedD unfolding indexer_inv_def by blast+
    then show ?thesis
      unfolding addresses toks map_of_change_entry
      by (simp del: not_None_eq) (intro ballI fold_change_entry_known, blast)
  qed
  ultimately show ?thesis
    by (simp add: indexer_inv_def entries_buffered_def)
qed

lemma indexer_inv_spend:
  assumes "map_of (xi_boxes x) box_id = Some b" "\<not> ib_is_spent b" "indexer_inv e x"
    "spend_box e box_id tx_id height x = Returns (r, y)"
  shows "indexer_inv e y"
proof -
  let ?s = "mark_spent tx_id height b"
  have b: "b \<in> snd ` set (xi_boxes x)"
    using map_of_SomeD [OF assms(1)] by force
  then obtain a where a: "map_of (xi_addresses x) (ib_ergo_tree_hash b) = Some a"
    using assms(3) entries_bufferedD(1) unfolding indexer_inv_def by blast
  have "\<forall>t \<in> set (ib_tokens b). map_of (xi_tokens x) (token_unique_id e (fst t)) \<noteq> None"
    using assms(3) entries_bufferedD(2) b unfolding indexer_inv_def by blast
  from spend_box_buffered [OF assms(1) a this, of tx_id height] obtain ts where
    y: "y = x\<lparr>xi_boxes := AList.update box_id ?s (xi_boxes x),
        xi_addresses := AList.update (ib_ergo_tree_hash b) (ia_spend_box (ib_global_index b) (ib_value b) (ib_tokens b) a) (xi_addresses x),
        xi_tokens := ts\<rparr>" and ts: "dom (map_of ts) = dom (map_of (xi_tokens x))"
    using assms(4) by auto
  have sums: "unspent_sum f h y = unspent_sum f h x - (if h = ib_ergo_tree_hash b then f b else 0)" for f h
    using assms(2) sum_update_known [OF assms(1), of "unspent_part f h" ?s]
    by (simp add: unspent_sum_def y unspent_part_def mark_spent_def ib_is_spent_def)
  have "balances_exact y"
    using assms(3) a unfolding balances_exact_def sums
    by (auto simp: y update_conv' indexer_inv_def balances_exact_def ia_spend_box_def)
  moreover have "map_of (xi_addresses y) (ib_ergo_tree_hash c) \<noteq> None
      \<and> (\<forall>t \<in> set (ib_tokens c). map_of (xi_tokens y) (token_unique_id e (fst t)) \<noteq> None)"
    if "c \<in> snd ` set (xi_boxes y)" for c
  proof -
    have "c = ?s \<or> c \<in> snd ` set (xi_boxes x)"
      using that set_alist_update by (fastforce simp: y)
    moreover have "ib_ergo_tree_hash ?s = ib_ergo_tree_hash b" "ib_tokens ?s = ib_tokens b"
      by (simp_all add: mark_spent_def)
    ultimately obtain d where d: "d \<in> snd ` set (xi_boxes x)" "ib_ergo_tree_hash d = ib_ergo_tree_hash c" "ib_tokens d = ib_tokens c"
      using b by metis
    from assms(3) have "entries_buffered e x"
      by (simp add: indexer_inv_def)
    from entries_bufferedD [OF this d(1)] have "ib_ergo_tree_hash c \<in> dom (map_of (xi_addresses x))"
      "\<forall>t \<in> set (ib_tokens c). token_unique_id e (fst t) \<in> dom (map_of ts)"
      by (simp_all add: d(2,3) ts domIff)
    then show ?thesis
      by (auto simp: y update_conv')
  qed
  ultimately show ?thesis
    by (simp add: indexer_inv_def entries_buffered_def)
qed

lemma indexer_inv_step: "indexing_step e x y \<Longrightarrow> indexer_inv e x \<Longrightarrow> indexer_inv e y"
proof (induction rule: indexing_step.induct)
  case (new_transaction x tx_id tx_index height bytes_len inputs outputs data_inputs)
  then show ?case
    by (simp add: index_transaction_def Let_def indexer_inv_def balances_exact_def entries_buffered_def unspent_sum_def)
next
  case (block_done x height)
  then show ?case
    by (simp add: set_indexed_height_def indexer_inv_def balances_exact_def entries_buffered_def unspent_sum_def)
qed (auto intro: indexer_inv_output indexer_inv_spend)

lemma indexer_inv_new: "indexer_inv e (indexer_new db c)"
  by (simp add: indexer_inv_def balances_exact_def entries_buffered_def indexer_new_def)

lemma indexer_inv_reached: "indexed_from e x y \<Longrightarrow> indexer_inv e x \<Longrightarrow> indexer_inv e y"
  by (induction rule: indexed_from.induct) (auto intro: indexer_inv_step)

text \<open>C29: As long as nothing is flushed, every box that the indexer holds has its script's address beside
  it, whose nanoERG and tokens are exactly the sums (of 64-bit words) over the boxes of that script
  that are indexed and not spent; and spending the box returns its global index.
\<close>
theorem unflushed_balances_exact:
  assumes "indexed_from e (indexer_new db c) x" "map_of (xi_boxes x) box_id = Some b"
  shows "\<exists>a y. map_of (xi_addresses x) (ib_ergo_tree_hash b) = Some a
    \<and> bi_nano_ergs (ia_balance a) = unspent_sum ib_value (ib_ergo_tree_hash b) x
    \<and> (\<forall>i. token_balance i (ia_balance a) = unspent_sum (\<lambda>b. amount_in i (ib_tokens b)) (ib_ergo_tree_hash b) x)
    \<and> spend_box e box_id tx_id height x = Returns (Some (ib_global_index b), y)"
proof -
  have inv: "balances_exact x" "entries_buffered e x"
    using indexer_inv_reached [OF assms(1) indexer_inv_new] by (simp_all add: indexer_inv_def)
  have "b \<in> snd ` set (xi_boxes x)"
    using map_of_SomeD [OF assms(2)] by force
  from entries_bufferedD [OF inv(2) this] obtain a where a: "map_of (xi_addresses x) (ib_ergo_tree_hash b) = Some a"
    "\<forall>t \<in> set (ib_tokens b). map_of (xi_tokens x) (token_unique_id e (fst t)) \<noteq> None"
    by blast
  obtain y where "spend_box e box_id tx_id height x = Returns (Some (ib_global_index b), y)"
    using spend_box_buffered [OF assms(2) a, of tx_id height] by blast
  then show ?thesis
    using inv(1) a(1) by (simp add: balances_exact_def)
qed

definition example_index_env :: indexer_env where
  "example_index_env = \<lparr>xe_blake = take 32, xe_box_order = (\<lambda>m. m), xe_address_order = (\<lambda>m. m), xe_token_order = (\<lambda>m. m),
     xe_balance_order = (\<lambda>m. m)\<rparr>"

definition example_index :: indexer where
  "example_index = snd (index_output example_index_env (replicate 32 2) 1 [7] 60 (replicate 32 9) [(replicate 32 5, 4)]
     (snd (index_output example_index_env (replicate 32 1) 1 [7] 40 (replicate 32 9) [] (indexer_new db_empty indexer_config_default))))"

theorem unflushed_balances_exact_witness:
  "\<exists>a y. map_of (xi_addresses example_index) (replicate 32 9) = Some a \<and> bi_nano_ergs (ia_balance a) = 100
     \<and> spend_box example_index_env (replicate 32 2) (replicate 32 3) 2 example_index = Returns (Some 1, y)"
proof -
  let ?x0 = "indexer_new db_empty indexer_config_default"
  let ?x1 = "snd (index_output example_index_env (replicate 32 1) 1 [7] 40 (replicate 32 9) [] ?x0)"
  have "indexed_from example_index_env ?x0 ?x1"
    by (rule more [OF start new_output]) (simp add: indexer_new_def)
  then have r: "indexed_from example_index_env ?x0 example_index"
    unfolding example_index_def
    by (rule more [OF _ new_output]) (simp add: index_output_def indexer_new_def Let_def)
  obtain b where b: "map_of (xi_boxes example_index) (replicate 32 2) = Some b" "ib_ergo_tree_hash b = replicate 32 9"
    "ib_global_index b = 1"
    by (simp add: example_index_def index_output_def indexer_new_def Let_def hash_ergo_tree_def example_index_env_def
        indexed_box_new_def indexer_state_default_def)
  have "unspent_sum ib_value (replicate 32 9) example_index = 100"
    by (simp add: unspent_sum_def example_index_def index_output_def indexer_new_def Let_def hash_ergo_tree_def
        example_index_env_def indexed_box_new_def unspent_part_def ib_is_spent_def)
  then show ?thesis
    using unflushed_balances_exact [OF r b(1), of "replicate 32 3" 2] b(2,3) by auto
qed

subsection \<open>Flushes\<close>

lemma batch_lookup_fold_other:
  "(\<And>p b. p \<in> set xs \<Longrightarrow> batch_lookup (f p b) cf k = batch_lookup b cf k) \<Longrightarrow>
     batch_lookup (fold f xs b) cf k = batch_lookup b cf k"
  by (induction xs arbitrary: b) auto

lemma batch_lookup_fold_hit:
  assumes "p \<in> set xs" "\<And>b. batch_lookup (f p b) cf k = Some r"
    "\<And>q b. q \<in> set xs \<Longrightarrow> q \<noteq> p \<Longrightarrow> batch_lookup (f q b) cf k = batch_lookup b cf k"
  shows "batch_lookup (fold f xs b) cf k = Some r"
  using assms
proof (induction xs arbitrary: b)
  case (Cons x xs)
  show ?case
  proof (cases "p \<in> set xs")
    case True
    then show ?thesis
      using Cons by simp
  next
    case False
    then have "batch_lookup (fold f xs (f p b)) cf k = batch_lookup (f p b) cf k"
      using Cons.prems(3) by (intro batch_lookup_fold_other) auto
    then show ?thesis
      using False Cons.prems(1,2) by simp
  qed
qed simp

text \<open>
  What a flush needs to write every entry under a key of its own: the orders visit every entry, the
  identifiers of boxes and transactions, the hashes of scripts and the identifiers of tokens differ,
  and so do the global indexes of boxes.
\<close>

definition flushable :: "indexer_env \<Rightarrow> indexer \<Rightarrow> bool" where
  "flushable e x \<longleftrightarrow>
     set (xe_box_order e (xi_boxes x)) = set (xi_boxes x)
     \<and> set (xe_address_order e (xi_addresses x)) = set (xi_addresses x)
     \<and> set (xe_token_order e (xi_tokens x)) = set (xi_tokens x)
     \<and> (\<forall>m. mset (xe_balance_order e m) = mset m)
     \<and> distinct (map fst (xi_boxes x)) \<and> distinct (map fst (xi_addresses x)) \<and> distinct (map (ib_global_index \<circ> snd) (xi_boxes x))
     \<and> (\<forall>k \<in> fst ` set (xi_boxes x). k \<notin> it_tx_id ` set (xi_transactions x) \<and> k \<notin> fst ` set (xi_addresses x) \<and> k \<notin> fst ` set (xi_tokens x))
     \<and> (\<forall>k \<in> fst ` set (xi_addresses x). k \<notin> fst ` set (xi_tokens x))"

lemma lookup_flush_box:
  "batch_lookup (fold flush_box xs b) CF_ExtraIndex k = batch_lookup b CF_ExtraIndex k" if "k \<notin> fst ` set xs"
  using that by (intro batch_lookup_fold_other) (auto simp: flush_box_def)

lemma lookup_flush_tx:
  "k \<notin> it_tx_id ` set xs \<Longrightarrow> batch_lookup (fold flush_tx xs b) CF_ExtraIndex k = batch_lookup b CF_ExtraIndex k"
  "cf \<noteq> CF_ExtraIndex \<Longrightarrow> cf \<noteq> CF_TxNumericIndex \<Longrightarrow> batch_lookup (fold flush_tx xs b) cf k = batch_lookup b cf k"
  by (rule batch_lookup_fold_other, auto simp: flush_tx_def)+

lemma lookup_flush_address:
  "cf \<noteq> CF_ExtraIndex \<or> k \<notin> fst ` set xs \<Longrightarrow> batch_lookup (fold (flush_address e) xs b) cf k = batch_lookup b cf k"
  by (rule batch_lookup_fold_other) (auto simp: flush_address_def)

lemma lookup_flush_token:
  "cf \<noteq> CF_ExtraIndex \<or> k \<notin> fst ` set xs \<Longrightarrow> batch_lookup (fold flush_token xs b) cf k = batch_lookup b cf k"
  by (rule batch_lookup_fold_other) (auto simp: flush_token_def)

lemma be_u64_inject: "be_u64 i = be_u64 j \<longleftrightarrow> i = j"
  by (metis append_Nil2 from_be_u64_be)

lemma db_get_flush:
  "db_get (xi_storage (xi_flush e x)) cf k =
     (case batch_lookup (flush_batch e x) cf k of Some r \<Rightarrow> r | None \<Rightarrow> db_get (xi_storage x) cf k)"
  by (simp add: xi_flush_def xi_clear_buffers_def db_get_write_batch)

lemma flushableD:
  assumes "flushable e x"
  shows "set (xe_box_order e (xi_boxes x)) = set (xi_boxes x)"
    "set (xe_address_order e (xi_addresses x)) = set (xi_addresses x)"
    "set (xe_token_order e (xi_tokens x)) = set (xi_tokens x)"
    "distinct (map fst (xi_boxes x))" "distinct (map fst (xi_addresses x))" "distinct (map (ib_global_index \<circ> snd) (xi_boxes x))"
    "mset (xe_balance_order e m) = mset m"
  using assms by (simp_all only: flushable_def)

lemma flushable_keys:
  assumes "flushable e x"
  shows "\<forall>k \<in> fst ` set (xi_boxes x). k \<notin> it_tx_id ` set (xi_transactions x) \<and> k \<notin> fst ` set (xi_addresses x) \<and> k \<notin> fst ` set (xi_tokens x)"
    "\<forall>k \<in> fst ` set (xi_addresses x). k \<notin> fst ` set (xi_tokens x)"
  using assms unfolding flushable_def by - (elim conjE, assumption)+

lemma map_of_distinct_eq:
  "distinct (map fst m) \<Longrightarrow> map_of m k = Some v \<Longrightarrow> p \<in> set m \<Longrightarrow> fst p = k \<Longrightarrow> p = (k, v)"
  by (metis map_of_is_SomeI option.inject prod.collapse)

lemma flush_batch_box:
  assumes "flushable e x" "map_of (xi_boxes x) k = Some b"
  shows "batch_lookup (flush_batch e x) CF_ExtraIndex k = Some (Some (ib_serialize b))"
    "batch_lookup (flush_batch e x) CF_BoxIndex (be_u64 (ib_global_index b)) = Some (Some k)"
proof -
  note orders = flushableD(1-3) [OF assms(1)] and d = flushableD(4,6) [OF assms(1)]
  let ?xs = "xe_box_order e (xi_boxes x)"
  have p: "(k, b) \<in> set (xi_boxes x)"
    using assms(2) by (rule map_of_SomeD)
  then have "k \<in> fst ` set (xi_boxes x)"
    by force
  note others = bspec [OF flushable_keys(1) [OF assms(1)] this]
  have same: "fst q \<noteq> k" "ib_global_index (snd q) \<noteq> ib_global_index b" if "q \<in> set ?xs" "q \<noteq> (k, b)" for q
    using that map_of_distinct_eq [OF d(1) assms(2), of q] inj_onD [OF d(2) [unfolded distinct_map, THEN conjunct2], of q "(k, b)"] p
      orders(1) by auto
  have in_xs: "(k, b) \<in> set ?xs"
    using p orders(1) by simp
  have "batch_lookup (fold flush_box ?xs c) CF_ExtraIndex k = Some (Some (ib_serialize b))" for c
    by (rule batch_lookup_fold_hit [OF in_xs]) (simp_all add: flush_box_def same(1) [symmetric])
  then show "batch_lookup (flush_batch e x) CF_ExtraIndex k = Some (Some (ib_serialize b))"
    using others by (simp add: flush_batch_def Let_def lookup_flush_tx lookup_flush_address lookup_flush_token orders)
  have "batch_lookup (fold flush_box ?xs c) CF_BoxIndex (be_u64 (ib_global_index b)) = Some (Some k)" for c
    by (rule batch_lookup_fold_hit [OF in_xs]) (simp_all add: flush_box_def be_u64_inject same(2) [symmetric])
  then show "batch_lookup (flush_batch e x) CF_BoxIndex (be_u64 (ib_global_index b)) = Some (Some k)"
    by (simp add: flush_batch_def Let_def lookup_flush_tx lookup_flush_address lookup_flush_token)
qed

lemma flush_batch_address:
  assumes "flushable e x" "map_of (xi_addresses x) h = Some a"
  shows "batch_lookup (flush_batch e x) CF_ExtraIndex h = Some (Some (ia_serialize (xe_balance_order e) a))"
proof -
  note orders = flushableD(2,3) [OF assms(1)] and d = flushableD(5) [OF assms(1)]
  have p: "(h, a) \<in> set (xi_addresses x)"
    using assms(2) by (rule map_of_SomeD)
  then have in_xs: "(h, a) \<in> set (xe_address_order e (xi_addresses x))"
    using orders(1) by simp
  have "h \<in> fst ` set (xi_addresses x)"
    using p by force
  note others = bspec [OF flushable_keys(2) [OF assms(1)] this]
  have same: "fst q \<noteq> h" if "q \<in> set (xe_address_order e (xi_addresses x))" "q \<noteq> (h, a)" for q
    using that map_of_distinct_eq [OF d assms(2), of q] orders(1) by auto
  have "batch_lookup (fold (flush_address e) (xe_address_order e (xi_addresses x)) c) CF_ExtraIndex h
      = Some (Some (ia_serialize (xe_balance_order e) a))" for c
    by (rule batch_lookup_fold_hit [OF in_xs]) (simp_all add: flush_address_def same [symmetric])
  then show ?thesis
    using others by (simp add: flush_batch_def Let_def lookup_flush_token orders)
qed

lemma be_u64_length: "length (be_u64 i) = 8"
  by simp

lemma flush_empties: "xi_addresses (xi_flush e x) = []" "xi_tokens (xi_flush e x) = []" "xi_boxes (xi_flush e x) = []"
    "xi_transactions (xi_flush e x) = []" "xi_state (xi_flush e x) = xi_state x"
  by (simp_all add: xi_flush_def xi_clear_buffers_def)

lemma flushed_box:
  assumes "flushable e x" "map_of (xi_boxes x) k = Some b" "indexed_box_wf b" "length k = 32"
  shows "xi_get_box (xi_flush e x) k = Returns (Some b)"
    "get_box_by_index (xi_flush e x) (ib_global_index b) = Returns (Some b)"
proof -
  show "xi_get_box (xi_flush e x) k = Returns (Some b)"
    using flush_batch_box(1) [OF assms(1,2)] indexed_box_read_back [OF assms(3)]
    by (simp add: xi_get_box_def flush_empties db_get_flush stored_def)
  then show "get_box_by_index (xi_flush e x) (ib_global_index b) = Returns (Some b)"
    using flush_batch_box(2) [OF assms(1,2)] assms(4) by (simp add: get_box_by_index_def db_get_flush)
qed

lemma flushed_address:
  assumes "flushable e x" "map_of (xi_addresses x) h = Some a" "indexed_address_wf a"
    "length (ia_serialize (xe_balance_order e) a) < usize_limit"
  shows "get_address (xi_flush e x) h = Returns (Some (address_read_as (xe_balance_order e) a))"
  using flush_batch_address [OF assms(1,2)] indexed_address_read_back [OF assms(3,4) flushableD(7) [OF assms(1)]]
  by (simp add: get_address_def get_address_holding_def with_read_lock_def flush_empties db_get_flush stored_def)

lemma spend_box_unbuffered_address:
  assumes "xi_get_box x k = Returns (Some b)" "map_of (xi_addresses x) (ib_ergo_tree_hash b) = None"
  shows "spend_box e k tx_id height x = Blocks"
  using assms by (simp add: spend_box_def spend_in_address_def get_address_holding_def with_read_lock_def)

lemma address_read_as_same:
  assumes "balance_wf (ia_balance a)" "mset (iter (bi_tokens (ia_balance a))) = mset (bi_tokens (ia_balance a))"
  shows "token_balance i (ia_balance (address_read_as iter a)) = token_balance i (ia_balance a)"
proof -
  have d: "distinct (map fst (bi_tokens (ia_balance a)))"
    using assms(1) by (simp add: balance_wf_def)
  then have "distinct (map fst (iter (bi_tokens (ia_balance a))))"
    using assms(2) by (metis mset_map mset_eq_imp_distinct_iff)
  then have "map_of (iter (bi_tokens (ia_balance a))) = map_of (bi_tokens (ia_balance a))"
    using map_of_inject_set [OF _ d] mset_eq_setD [OF assms(2)] by blast
  then show ?thesis
    by (simp add: token_balance_def address_read_as_def)
qed

text \<open>C30: A flush changes nothing that the lookups of boxes and addresses return: a box whose entry fits
  its format is found under its identifier and from then on also under its global index, and an
  address is found with the same boxes, the same transactions and the same balances.
\<close>
theorem flush_keeps_lookups:
  assumes "flushable e x" "map_of (xi_boxes x) k = Some b" "indexed_box_wf b" "length k = 32"
    "map_of (xi_addresses x) h = Some a" "indexed_address_wf a" "length (ia_serialize (xe_balance_order e) a) < usize_limit"
  shows "xi_get_box (xi_flush e x) k = xi_get_box x k
    \<and> get_box_by_index (xi_flush e x) (ib_global_index b) = Returns (Some b)
    \<and> (\<exists>a'. get_address (xi_flush e x) h = Returns (Some a') \<and> ia_tree_hash a' = ia_tree_hash a
         \<and> ia_box_indexes a' = ia_box_indexes a \<and> ia_tx_indexes a' = ia_tx_indexes a
         \<and> bi_nano_ergs (ia_balance a') = bi_nano_ergs (ia_balance a)
         \<and> (\<forall>i. token_balance i (ia_balance a') = token_balance i (ia_balance a)))"
proof -
  let ?a = "address_read_as (xe_balance_order e) a"
  have "\<forall>i. token_balance i (ia_balance ?a) = token_balance i (ia_balance a)"
    using address_read_as_same flushableD(7) [OF assms(1)] assms(6) by (simp add: indexed_address_wf_def)
  moreover have "ia_tree_hash ?a = ia_tree_hash a" "ia_box_indexes ?a = ia_box_indexes a" "ia_tx_indexes ?a = ia_tx_indexes a"
    "bi_nano_ergs (ia_balance ?a) = bi_nano_ergs (ia_balance a)"
    by (simp_all add: address_read_as_def)
  ultimately show ?thesis
    using flushed_box [OF assms(1-4)] flushed_address [OF assms(1,5-7)] assms(2) by (simp add: xi_get_box_def)
qed

text \<open>C31: After a flush, marking a stored box as spent never returns: \<open>spend_box\<close> still holds the write lock
  of the addresses when it asks for the stored address, which needs the read lock of the same map.
\<close>
theorem spend_after_flush_blocks:
  assumes "flushable e x" "map_of (xi_boxes x) k = Some b" "indexed_box_wf b" "length k = 32"
  shows "spend_box e k tx_id height (xi_flush e x) = Blocks"
  using flushed_box(1) [OF assms] by (rule spend_box_unbuffered_address) (simp add: flush_empties)

lemma balance_add_tokens:
  "bi_tokens (fold (\<lambda>(i, amount) b. b\<lparr>bi_tokens := AList.update i (token_balance i b + amount) (bi_tokens b)\<rparr>) ts b)
     = fold (\<lambda>(i, amount) m. AList.update i ((case map_of m i of Some n \<Rightarrow> n | None \<Rightarrow> 0) + amount) m) ts (bi_tokens b)"
  by (induction ts arbitrary: b) (auto simp: token_balance_def)

lemma fold_update_wf:
  assumes "list_all (\<lambda>t. length (fst t) = 32) ts" "distinct (map fst m)" "\<forall>t \<in> set m. length (fst t) = 32"
  defines "r \<equiv> fold (\<lambda>(i, amount) m. AList.update i ((case map_of m i of Some n \<Rightarrow> n | None \<Rightarrow> 0) + (amount :: u64)) m) ts m"
  shows "distinct (map fst r) \<and> (\<forall>t \<in> set r. length (fst t) = (32 :: nat)) \<and> length r \<le> length m + length ts"
  using assms(1-3) unfolding r_def
proof (induction ts arbitrary: m)
  case (Cons t ts)
  let ?m = "AList.update (fst t) ((case map_of m (fst t) of Some n \<Rightarrow> n | None \<Rightarrow> 0) + snd t) m"
  have "distinct (map fst ?m)"
    using Cons.prems(2) by (rule distinct_update)
  moreover have "\<forall>t \<in> set ?m. length (fst t) = 32"
    using Cons.prems(1,3) set_alist_update by fastforce
  moreover have "length ?m \<le> Suc (length m)"
    by (induction m) auto
  ultimately show ?case
    using Cons.IH [of ?m] Cons.prems(1) by (simp add: case_prod_beta)
qed simp

lemma balance_add_wf:
  assumes "list_all (\<lambda>t. length (fst t) = 32) tokens" "length tokens < 2 ^ 26"
  shows "balance_wf (balance_add v tokens balance_new)" "length (bi_tokens (balance_add v tokens balance_new)) < 2 ^ 26"
proof -
  let ?r = "fold (\<lambda>(i, amount) m. AList.update i ((case map_of m i of Some n \<Rightarrow> n | None \<Rightarrow> 0) + amount) m) tokens []"
  have r: "bi_tokens (balance_add v tokens balance_new) = ?r"
    by (simp add: balance_add_def balance_add_tokens balance_new_def)
  have "distinct (map fst ?r) \<and> (\<forall>t \<in> set ?r. length (fst t) = 32) \<and> length ?r \<le> length tokens"
    using fold_update_wf [OF assms(1), of "[]"] by simp
  then show "balance_wf (balance_add v tokens balance_new)" "length (bi_tokens (balance_add v tokens balance_new)) < 2 ^ 26"
    using assms(2) by (simp_all add: balance_wf_def r)
qed

text \<open>An output that is indexed after a flush starts a new record of its script's address, and the next
  flush stores it over the old one: whatever was stored before, the address then has this box alone,
  and its balance is the value of this box.
\<close>
theorem output_after_flush_forgets_address:
  fixes e :: indexer_env and x :: indexer and box_id height box_bytes val tree tokens
  defines "z \<equiv> snd (index_output e box_id height box_bytes val tree tokens (xi_flush e x))"
  assumes "flushable e z" "length (hash_ergo_tree e tree) = 32" "list_all (\<lambda>t. length (fst t) = 32) tokens" "length tokens < 2 ^ 26"
  shows "\<exists>a. get_address (xi_flush e z) (hash_ergo_tree e tree) = Returns (Some a)
    \<and> ia_box_indexes a = [ix_global_box_index (xi_state x)] \<and> bi_nano_ergs (ia_balance a) = val"
proof -
  let ?h = "hash_ergo_tree e tree"
  let ?a = "ia_add_box (ix_global_box_index (xi_state x)) val tokens (indexed_address_new ?h)"
  have a: "ia_tree_hash ?a = ?h" "ia_tx_indexes ?a = []" "ia_box_indexes ?a = [ix_global_box_index (xi_state x)]"
    "ia_balance ?a = balance_add val tokens balance_new"
    by (simp_all add: ia_add_box_def indexed_address_new_def)
  note bal = balance_add_wf [OF assms(4,5), of val]
  have "map_of (xi_addresses z) ?h = Some ?a"
    by (simp add: z_def index_output_def Let_def flush_empties map_of_change_entry)
  moreover have "indexed_address_wf ?a"
    using bal assms(3) by (simp add: indexed_address_wf_def a)
  moreover have "length (ia_serialize (xe_balance_order e) ?a) < usize_limit"
    using bal balance_serialize_length [of _ "xe_balance_order e", OF bal(1) flushableD(7) [OF assms(2)]] assms(3)
    by (simp add: ia_serialize_def a wr_blob32_def wr_list32_def usize_limit_def)
  ultimately have "get_address (xi_flush e z) ?h = Returns (Some (address_read_as (xe_balance_order e) ?a))"
    by (rule flushed_address [OF assms(2)])
  moreover have "bi_nano_ergs (balance_add val tokens balance_new) = val"
    by (simp add: balance_new_def)
  ultimately show ?thesis
    by (simp add: address_read_as_def a)
qed

text \<open>Boxes of a script are found again after one flush, and forgotten by the second one.\<close>

definition example_box :: indexed_box where
  "example_box = indexed_box_new (replicate 32 2) 1 1 [7] 60 (replicate 32 9) [(replicate 32 5, 4)]"

lemma example_box_wf: "indexed_box_wf example_box"
  by (simp add: indexed_box_wf_def example_box_def indexed_box_new_def ib_serialize_def wr_flag_def wr_list32_def wr_blob32_def
      wr_token_def usize_limit_def)

lemma replicate_32_eq: "replicate 32 (a :: u8) = replicate 32 b \<longleftrightarrow> a = b"
  by (metis replicate_eq_replicate zero_neq_numeral)

lemma example_index_simps:
  "xi_boxes example_index = [(replicate 32 1, indexed_box_new (replicate 32 1) 1 0 [7] 40 (replicate 32 9) []), (replicate 32 2, example_box)]"
  "map fst (xi_addresses example_index) = [replicate 32 9]" "map fst (xi_tokens example_index) = [replicate 32 5]"
  "xi_transactions example_index = []" "ix_global_box_index (xi_state example_index) = 2"
  by (simp_all add: example_index_def index_output_def indexer_new_def Let_def hash_ergo_tree_def example_index_env_def replicate_32_eq
      indexer_state_default_def example_box_def change_entry_def token_unique_id_def)

lemma example_flushable: "flushable example_index_env example_index"
proof -
  have "fst ` set (xi_addresses example_index) = {replicate 32 9}" "fst ` set (xi_tokens example_index) = {replicate 32 5}"
    using example_index_simps(2,3) by (metis list.set_map list.simps(15) empty_set)+
  moreover have "distinct (map fst (xi_addresses example_index))"
    by (simp add: example_index_simps(2))
  ultimately show ?thesis
    by (simp add: flushable_def example_index_simps replicate_32_eq indexed_box_new_def example_box_def)
       (simp add: example_index_env_def)
qed

theorem spend_after_flush_blocks_witness:
  "spend_box example_index_env (replicate 32 2) (replicate 32 3) 2 (xi_flush example_index_env example_index) = Blocks"
  using spend_after_flush_blocks [OF example_flushable, of "replicate 32 2" example_box] example_box_wf
  by (simp add: example_index_simps replicate_32_eq)

lemma example_address:
  obtains a where "map_of (xi_addresses example_index) (replicate 32 9) = Some a" "indexed_address_wf a"
    "length (ia_serialize (\<lambda>m. m) a) < usize_limit" "ia_box_indexes a = [0, 1]"
proof
  let ?a = "ia_add_box 1 60 [(replicate 32 5, 4)] (ia_add_box 0 40 [] (indexed_address_new (replicate 32 9)))"
  show "map_of (xi_addresses example_index) (replicate 32 9) = Some ?a"
    by (simp add: example_index_def index_output_def indexer_new_def Let_def hash_ergo_tree_def example_index_env_def
        indexer_state_default_def map_of_change_entry)
  have bal: "bi_tokens (ia_balance ?a) = [(replicate 32 5, 4)]"
    by (simp add: ia_add_box_def indexed_address_new_def balance_add_def balance_new_def token_balance_def)
  then show "indexed_address_wf ?a"
    by (simp add: indexed_address_wf_def balance_wf_def) (simp add: ia_add_box_def indexed_address_new_def)
  show "length (ia_serialize (\<lambda>m. m) ?a) < usize_limit"
    using bal by (simp add: ia_serialize_def balance_serialize_def wr_blob32_def wr_list32_def wr_token_def usize_limit_def)
      (simp add: ia_add_box_def indexed_address_new_def)
  show "ia_box_indexes ?a = [0, 1]"
    by (simp add: ia_add_box_def indexed_address_new_def)
qed

theorem flush_keeps_lookups_witness:
  "get_box_by_index (xi_flush example_index_env example_index) 1 = Returns (Some example_box)
    \<and> (\<exists>a. get_address (xi_flush example_index_env example_index) (replicate 32 9) = Returns (Some a) \<and> ia_box_indexes a = [0, 1])"
proof -
  obtain a where a: "map_of (xi_addresses example_index) (replicate 32 9) = Some a" "indexed_address_wf a"
    "length (ia_serialize (xe_balance_order example_index_env) a) < usize_limit" "ia_box_indexes a = [0, 1]"
    using example_address by (auto simp: example_index_env_def)
  have "map_of (xi_boxes example_index) (replicate 32 2) = Some example_box"
    by (simp add: example_index_simps replicate_32_eq)
  from flush_keeps_lookups [OF example_flushable this example_box_wf _ a(1-3)] a(4) show ?thesis
    by (auto simp: example_box_def indexed_box_new_def)
qed

theorem output_after_flush_forgets_address_witness:
  "\<exists>a. get_address (xi_flush example_index_env
        (snd (index_output example_index_env (replicate 32 4) 2 [7] 5 (replicate 32 9) [] (xi_flush example_index_env example_index))))
      (replicate 32 9) = Returns (Some a) \<and> ia_box_indexes a = [2] \<and> bi_nano_ergs (ia_balance a) = 5"
proof -
  let ?z = "snd (index_output example_index_env (replicate 32 4) 2 [7] 5 (replicate 32 9) [] (xi_flush example_index_env example_index))"
  have h: "hash_ergo_tree example_index_env (replicate 32 9) = replicate 32 9"
    by (simp add: hash_ergo_tree_def example_index_env_def)
  have "flushable example_index_env ?z"
    by (simp add: flushable_def index_output_def Let_def flush_empties change_entry_def h replicate_32_eq)
       (simp add: example_index_env_def)
  from output_after_flush_forgets_address [OF this] show ?thesis
    by (simp add: h example_index_simps)
qed

end
