(* ===== verification/Emission.thy ===== *)
theory Emission
  imports Prelude
begin

text \<open>
  The emission schedule with re-emission after EIP-27
  (\<open>crates/ergo-consensus/src/reemission/rules.rs\<close> and \<open>settings.rs\<close>), on 64-bit words as in the
  source. Heights of blocks are 32-bit, and for them no product or sum of the schedule wraps:
  each function is shown to compute the value of the same formula over the naturals. From
  that follow the conservation of the emission between miner and contract, its bounds, and
  the exact relation between the closed form of the issued coins and the schedule it is the
  closed form of, in which the first block of each reduction epoch is counted at the reward
  of the epoch before.
\<close>

subsection \<open>Constants and settings\<close>

definition COINS_IN_ONE_ERG :: u64 where
  "COINS_IN_ONE_ERG = 1000000000"

definition INITIAL_REWARD :: u64 where
  "INITIAL_REWARD = 75 * COINS_IN_ONE_ERG"

definition REWARD_REDUCTION :: u64 where
  "REWARD_REDUCTION = 3 * COINS_IN_ONE_ERG"

definition REDUCTION_PERIOD :: u64 where
  "REDUCTION_PERIOD = 64800"

definition FIXED_RATE_PERIOD :: u64 where
  "FIXED_RATE_PERIOD = 525600"

definition MIN_REWARD :: u64 where
  "MIN_REWARD = 3 * COINS_IN_ONE_ERG"

definition TOTAL_SUPPLY :: u64 where
  "TOTAL_SUPPLY = 97739924 * COINS_IN_ONE_ERG"

record reemission_settings =
  check_reemission_rules :: bool
  emission_nft_id :: bytes
  reemission_token_id :: bytes
  reemission_nft_id :: bytes
  activation_height :: u32
  reemission_start_height :: u32
  injection_box_bytes :: "bytes option"

text \<open>The token identifiers of the main network are hexadecimal constants; they are arguments here.\<close>

definition settings_mainnet :: "bytes \<Rightarrow> bytes \<Rightarrow> bytes \<Rightarrow> reemission_settings" where
  "settings_mainnet emission_nft token nft =
     \<lparr>check_reemission_rules = True, emission_nft_id = emission_nft, reemission_token_id = token,
      reemission_nft_id = nft, activation_height = 777217, reemission_start_height = 2080800,
      injection_box_bytes = None\<rparr>"

definition settings_testnet :: reemission_settings where
  "settings_testnet =
     \<lparr>check_reemission_rules = True, emission_nft_id = replicate 32 0,
      reemission_token_id = replicate 32 0, reemission_nft_id = replicate 32 0,
      activation_height = 188001, reemission_start_height = 2080800, injection_box_bytes = None\<rparr>"

definition settings_disabled :: reemission_settings where
  "settings_disabled =
     \<lparr>check_reemission_rules = False, emission_nft_id = replicate 32 0,
      reemission_token_id = replicate 32 0, reemission_nft_id = replicate 32 0,
      activation_height = - 1, reemission_start_height = - 1, injection_box_bytes = None\<rparr>"

definition reemission_is_active :: "reemission_settings \<Rightarrow> u32 \<Rightarrow> bool" where
  "reemission_is_active s height = (check_reemission_rules s \<and> activation_height s \<le> height)"

definition can_claim_reemission :: "reemission_settings \<Rightarrow> u32 \<Rightarrow> bool" where
  "can_claim_reemission s height = (check_reemission_rules s \<and> reemission_start_height s \<le> height)"

record reemission_rules =
  rr_settings :: reemission_settings
  basic_charge_amount :: u64
  reemission_reward_per_block :: u64

definition rules_new :: "reemission_settings \<Rightarrow> reemission_rules" where
  "rules_new s =
     \<lparr>rr_settings = s, basic_charge_amount = 12 * COINS_IN_ONE_ERG,
      reemission_reward_per_block = 3 * COINS_IN_ONE_ERG\<rparr>"

subsection \<open>The schedule\<close>

definition emission_at_height :: "u64 \<Rightarrow> u64" where
  "emission_at_height height =
     (if height = 0 then 0
      else if height \<le> FIXED_RATE_PERIOD then INITIAL_REWARD
      else let blocks_after_fixed = height - FIXED_RATE_PERIOD;
               reduction_epochs = blocks_after_fixed div REDUCTION_PERIOD;
               reduction = reduction_epochs * REWARD_REDUCTION
           in if INITIAL_REWARD - MIN_REWARD \<le> reduction then MIN_REWARD
              else INITIAL_REWARD - reduction)"

definition reemission_for_height :: "reemission_rules \<Rightarrow> u32 \<Rightarrow> u64" where
  "reemission_for_height r height =
     (let emission = emission_at_height (ucast height);
          threshold = basic_charge_amount r + MIN_REWARD
      in if activation_height (rr_settings r) \<le> height \<and> threshold \<le> emission
         then basic_charge_amount r
         else if activation_height (rr_settings r) \<le> height \<and> MIN_REWARD < emission
         then emission - MIN_REWARD
         else 0)"

definition miner_reward_at_height :: "reemission_rules \<Rightarrow> u32 \<Rightarrow> u64" where
  "miner_reward_at_height r height =
     sat_sub_u64 (emission_at_height (ucast height)) (reemission_for_height r height)"

definition claimable_reemission_at_height :: "reemission_rules \<Rightarrow> u32 \<Rightarrow> u64" where
  "claimable_reemission_at_height r height =
     (if reemission_start_height (rr_settings r) \<le> height then reemission_reward_per_block r else 0)"

definition total_miner_income_at_height :: "reemission_rules \<Rightarrow> u32 \<Rightarrow> u64" where
  "total_miner_income_at_height r height =
     miner_reward_at_height r height + claimable_reemission_at_height r height"

definition issued_total :: "u64 \<Rightarrow> u64" where
  "issued_total height =
     (if height \<le> FIXED_RATE_PERIOD then height * INITIAL_REWARD
      else let fixed_period_total = FIXED_RATE_PERIOD * INITIAL_REWARD;
               blocks_after_fixed = height - FIXED_RATE_PERIOD;
               max_reduction_epochs = (INITIAL_REWARD - MIN_REWARD) div REWARD_REDUCTION;
               full_epochs = min (blocks_after_fixed div REDUCTION_PERIOD) max_reduction_epochs;
               blocks_in_full_epochs = full_epochs * REDUCTION_PERIOD;
               remaining_before_min =
                 (if full_epochs < max_reduction_epochs
                  then min (blocks_after_fixed - blocks_in_full_epochs) REDUCTION_PERIOD else 0);
               blocks_at_minimum =
                 sat_sub_u64 blocks_after_fixed
                   (max_reduction_epochs * REDUCTION_PERIOD + remaining_before_min);
               full_epochs_total =
                 (if 0 < full_epochs
                  then REDUCTION_PERIOD *
                    (full_epochs * INITIAL_REWARD - REWARD_REDUCTION * full_epochs * (full_epochs - 1) div 2)
                  else 0);
               partial_epoch_reward = INITIAL_REWARD - full_epochs * REWARD_REDUCTION;
               partial_epoch_total = remaining_before_min * partial_epoch_reward;
               minimum_total = blocks_at_minimum * MIN_REWARD
           in fixed_period_total + full_epochs_total + partial_epoch_total + minimum_total)"

definition issued_coins_after_height :: "u64 \<Rightarrow> u64" where
  "issued_coins_after_height height =
     (if height = 0 then 0 else min (issued_total height) TOTAL_SUPPLY)"

subsection \<open>The schedule over the naturals\<close>

lemmas emission_consts = COINS_IN_ONE_ERG_def INITIAL_REWARD_def REWARD_REDUCTION_def
  REDUCTION_PERIOD_def FIXED_RATE_PERIOD_def MIN_REWARD_def TOTAL_SUPPLY_def

definition emission_nat :: "nat \<Rightarrow> nat" where
  "emission_nat h =
     (if h = 0 then 0
      else if h \<le> 525600 then 75000000000
      else 75000000000 - 3000000000 * min 24 ((h - 525600) div 64800))"

lemma emission_at_height_nat:
  assumes "unat h < 2 ^ 32"
  shows "unat (emission_at_height h) = emission_nat (unat h)"
proof (cases "h \<le> FIXED_RATE_PERIOD")
  case True
  then show ?thesis
    by (auto simp: emission_at_height_def emission_nat_def emission_consts word_le_nat_alt unat_eq_zero)
next
  case False
  define q where "q = (unat h - 525600) div 64800"
  have big: "525600 < unat h"
    using False by (simp add: FIXED_RATE_PERIOD_def word_le_nat_alt)
  have blocks: "unat (h - 525600) = unat h - 525600"
    using big by (simp add: unat_sub word_le_nat_alt)
  have "q * 64800 \<le> unat h - 525600"
    unfolding q_def by (rule div_times_less_eq_dividend)
  then have small: "q < 2 ^ 17"
    using assms by simp
  have "unat ((h - 525600) div 64800) = q"
    by (simp add: unat_div_distrib blocks q_def)
  then have red: "unat ((h - 525600) div 64800 * 3000000000) = q * 3000000000"
    using small by (simp add: unat_word_ariths)
  have "h \<noteq> 0"
    using big by auto
  then have "emission_at_height h =
      (if 72000000000 \<le> (h - 525600) div 64800 * 3000000000 then 3000000000
       else 75000000000 - (h - 525600) div 64800 * 3000000000)"
    using False by (simp add: emission_at_height_def Let_def emission_consts)
  then show ?thesis
    using red big by (auto simp: word_le_nat_alt unat_sub emission_nat_def q_def [symmetric] min_def)
qed

lemma emission_nat_bounds: "0 < h \<Longrightarrow> 3000000000 \<le> emission_nat h" "emission_nat h \<le> 75000000000"
  by (auto simp: emission_nat_def)

subsection \<open>The closed form over the naturals\<close>

text \<open>What \<open>q\<close> full reduction epochs issue in the closed form.\<close>

definition epochs_nat :: "nat \<Rightarrow> nat" where
  "epochs_nat q = 64800 * (q * 75000000000 - 3000000000 * q * (q - 1) div 2)"

definition issued_after_fixed :: "nat \<Rightarrow> nat" where
  "issued_after_fixed k =
     (let q = min (k div 64800) 24; r = (if q < 24 then k - q * 64800 else 0)
      in epochs_nat q + r * (75000000000 - q * 3000000000) + (k - (1555200 + r)) * 3000000000)"

definition issued_nat :: "nat \<Rightarrow> nat" where
  "issued_nat h =
     (if h \<le> 525600 then h * 75000000000
      else 525600 * 75000000000 + issued_after_fixed (h - 525600))"

lemma epochs_nat_Suc:
  assumes "q < 24"
  shows "epochs_nat (Suc q) = epochs_nat q + 64800 * (75000000000 - q * 3000000000)"
proof -
  have "q \<in> {0..23}"
    using assms by simp
  then have "q \<in> set [0..<24]"
    by auto
  then show ?thesis
    by (auto simp: upt_rec epochs_nat_def)
qed

lemma issued_after_fixed_low:
  assumes "q < 24" "r < 64800"
  shows "issued_after_fixed (q * 64800 + r) = epochs_nat q + r * (75000000000 - q * 3000000000)"
proof -
  have "(q * 64800 + r) div 64800 = q"
    using assms by simp
  moreover have "q * 64800 + r - (1555200 + r) = 0"
    using assms by simp
  ultimately show ?thesis
    using assms by (simp add: issued_after_fixed_def min_def)
qed

lemma issued_after_fixed_high:
  assumes "1555200 \<le> k"
  shows "issued_after_fixed k = epochs_nat 24 + (k - 1555200) * 3000000000"
proof -
  have "24 \<le> k div 64800"
    using div_le_mono [OF assms, of 64800] by simp
  then show ?thesis
    by (simp add: issued_after_fixed_def min_def)
qed

text \<open>One block more: the reward of the block, and three coins too many where an epoch begins.\<close>

definition epoch_begins :: "nat \<Rightarrow> bool" where
  "epoch_begins h = (525600 < h \<and> (h - 525600) mod 64800 = 0 \<and> h - 525600 \<le> 1555200)"

lemma issued_after_fixed_Suc:
  "issued_after_fixed (Suc k) = issued_after_fixed k + emission_nat (525601 + k)
     + (if epoch_begins (525601 + k) then 3000000000 else 0)"
proof (cases "1555200 \<le> k")
  case True
  then have "24 \<le> Suc k div 64800"
    using div_le_mono [of 1555200 "Suc k" 64800] by simp
  then show ?thesis
    using True issued_after_fixed_high [of k] issued_after_fixed_high [of "Suc k"]
    by (simp add: emission_nat_def epoch_begins_def min_def Suc_diff_le)
next
  case False
  define q r where "q = k div 64800" and "r = k mod 64800"
  have k: "k = q * 64800 + r" and r: "r < 64800"
    by (simp_all add: q_def r_def)
  have q: "q < 24"
    using False by (simp add: q_def less_mult_imp_div_less)
  define a where "a = 75000000000 - Suc q * 3000000000"
  have reward: "75000000000 - q * 3000000000 = a + 3000000000"
    using q by (simp add: a_def)
  show ?thesis
  proof (cases "Suc r < 64800")
    case True
    have "Suc k div 64800 = q" "Suc k mod 64800 = Suc r"
      using True by (simp_all add: k)
    then show ?thesis
      using issued_after_fixed_low [OF q r] issued_after_fixed_low [OF q True] q
      by (simp add: k emission_nat_def epoch_begins_def)
  next
    case False
    then have Sk: "Suc k = Suc q * 64800"
      using r by (simp add: k)
    have next_epoch: "issued_after_fixed (Suc q * 64800) = epochs_nat (Suc q)"
    proof (cases "Suc q < 24")
      case True
      then show ?thesis
        using issued_after_fixed_low [of "Suc q" 0] by simp
    next
      case False
      then have "Suc q = 24"
        using q by simp
      then show ?thesis
        using issued_after_fixed_high [of "24 * 64800"] by simp
    qed
    have "r = 64799"
      using False r by simp
    then have "issued_after_fixed k = epochs_nat q + 64799 * (a + 3000000000)"
      using issued_after_fixed_low [OF q r] k by (simp add: reward)
    moreover have "emission_nat (525601 + k) = a"
      using Sk q by (simp add: emission_nat_def a_def)
    moreover have "epoch_begins (525601 + k)"
      using Sk q by (simp add: epoch_begins_def)
    ultimately show ?thesis
      using next_epoch epochs_nat_Suc [OF q] by (simp add: Sk reward)
  qed
qed

lemma issued_nat_Suc:
  "issued_nat (Suc h) = issued_nat h + emission_nat (Suc h)
     + (if epoch_begins (Suc h) then 3000000000 else 0)"
proof (cases "Suc h \<le> 525600")
  case True
  then show ?thesis
    by (simp add: issued_nat_def emission_nat_def epoch_begins_def)
next
  case False
  then obtain k where h: "h = 525600 + k"
    using le_Suc_ex by (metis not_less_eq_eq)
  have "issued_nat (525600 + k) = 525600 * 75000000000 + issued_after_fixed k"
    by (cases k) (simp_all add: issued_nat_def issued_after_fixed_def epochs_nat_def)
  then show ?thesis
    using issued_after_fixed_Suc [of k] by (simp add: h issued_nat_def)
qed

lemma unat_min: "unat (min a b :: u64) = min (unat a) (unat b)"
  by (simp add: min_def word_le_nat_alt)

lemma epochs_word:
  assumes "unat (q :: u64) \<le> 24"
  shows "unat (if 0 < q then 64800 * (q * 75000000000 - 3000000000 * q * (q - 1) div 2) else 0) =
    epochs_nat (unat q)"
proof -
  have "unat q \<in> set [0..<25]"
    using assms by auto
  moreover have "q = of_nat (unat q)"
    by simp
  ultimately have "q \<in> set (map of_nat [0..<25])"
    by (metis image_eqI set_map)
  then show ?thesis
    by (auto simp: upt_rec epochs_nat_def)
qed

lemma emission_values:
  "(525600 * 75000000000 :: u64) = 39420000000000000"
  "((75000000000 - 3000000000) div 3000000000 :: u64) = 24" "(24 * 64800 :: u64) = 1555200"
  "INITIAL_REWARD = 75000000000" "REWARD_REDUCTION = 3000000000" "MIN_REWARD = 3000000000"
  "REDUCTION_PERIOD = 64800" "FIXED_RATE_PERIOD = 525600"
  by (simp_all add: emission_consts)

lemma issued_total_nat:
  assumes "unat h < 2 ^ 32"
  shows "unat (issued_total h) = issued_nat (unat h)"
proof (cases "h \<le> FIXED_RATE_PERIOD")
  case True
  then have "unat h \<le> 525600"
    by (simp add: FIXED_RATE_PERIOD_def word_le_nat_alt)
  then show ?thesis
    using True by (simp add: issued_total_def issued_nat_def emission_consts unat_word_ariths)
next
  case False
  define k where "k = h - 525600"
  define q where "q = min (k div 64800) 24"
  define r where "r = (if q < 24 then min (k - q * 64800) 64800 else 0)"
  define m where "m = sat_sub_u64 k (1555200 + r)"
  have big: "525600 < unat h"
    using False by (simp add: FIXED_RATE_PERIOD_def word_le_nat_alt)
  have uk: "unat k = unat h - 525600"
    using big by (simp add: k_def unat_sub word_le_nat_alt)
  then have k_small: "unat k < 2 ^ 32"
    using assms by simp
  have uq: "unat q = min (unat k div 64800) 24"
    by (simp add: q_def unat_min unat_div_distrib)
  have fits: "unat q * 64800 \<le> unat k"
    unfolding uq by (rule order_trans [OF mult_right_mono div_times_less_eq_dividend]) simp_all
  have uq64800: "unat (q * 64800) = unat q * 64800"
    using uq by (simp add: unat_word_ariths)
  have rest: "unat k div 64800 < 24 \<Longrightarrow> unat k - unat k div 64800 * 64800 < 64800"
    by (simp add: minus_div_mult_eq_mod)
  have ur: "unat r = (if unat q < 24 then unat k - unat q * 64800 else 0)"
    using fits uq64800 rest uq
    by (auto simp: r_def word_less_nat_alt unat_min unat_sub word_le_nat_alt min_def)
  have r_small: "unat r \<le> 64800"
    using ur uq rest by (auto simp: min_def split: if_splits)
  have "unat (1555200 + r) = 1555200 + unat r"
    using r_small by (simp add: unat_word_ariths)
  then have um: "unat m = unat k - (1555200 + unat r)"
    by (simp add: m_def unat_sat_sub_u64)
  have reward: "unat (75000000000 - q * 3000000000) = 75000000000 - unat q * 3000000000"
  proof -
    have "unat (q * 3000000000) = unat q * 3000000000" "unat q \<le> 24"
      using uq by (simp_all add: unat_word_ariths)
    then show ?thesis
      by (simp add: unat_sub word_le_nat_alt)
  qed
  define e where "e = (if 0 < q then 64800 * (q * 75000000000 - 3000000000 * q * (q - 1) div 2) else 0)"
  have ue: "unat e = epochs_nat (unat q)"
    unfolding e_def using uq by (intro epochs_word) simp
  have e_small: "unat e \<le> 64800 * (24 * 75000000000)"
    unfolding ue epochs_nat_def
    by (intro mult_left_mono order_trans [OF diff_le_self] mult_right_mono) (simp_all add: uq)
  have "issued_total h = 39420000000000000 + e + r * (75000000000 - q * 3000000000) + m * 3000000000"
    using False
    by (simp only: issued_total_def Let_def emission_values if_False k_def q_def r_def m_def e_def)
  moreover have up: "unat (r * (75000000000 - q * 3000000000)) = unat r * (75000000000 - unat q * 3000000000)"
    and "unat r * (75000000000 - unat q * 3000000000) \<le> 64800 * 75000000000"
    and "unat (m * 3000000000) = unat m * 3000000000" and "unat m < 2 ^ 32"
  proof -
    show le: "unat r * (75000000000 - unat q * 3000000000) \<le> 64800 * 75000000000"
      by (rule mult_mono) (use r_small in auto)
    show "unat (r * (75000000000 - q * 3000000000)) = unat r * (75000000000 - unat q * 3000000000)"
      using le by (simp add: unat_word_ariths reward)
    show m: "unat m < 2 ^ 32"
      using um k_small by simp
    then show "unat (m * 3000000000) = unat m * 3000000000"
      by (simp add: unat_word_ariths)
  qed
  ultimately have "unat (issued_total h) = 39420000000000000 + epochs_nat (unat q)
      + unat r * (75000000000 - unat q * 3000000000) + unat m * 3000000000"
    using e_small by (simp add: unat_word_ariths ue)
  then show ?thesis
    using big by (simp add: issued_nat_def issued_after_fixed_def Let_def uk [symmetric] uq [symmetric]
        ur [symmetric] um)
qed

text \<open>
  The schedule does not fit the total supply: the closed form exceeds it, by more than the
  seventy-two coins it counts too many, before the emission has dropped to its minimum.
\<close>

lemma schedule_exceeds_supply:
  "unat TOTAL_SUPPLY + 72 * 10 ^ 9 < unat (issued_total 2080800)"
proof -
  have "issued_nat 2080800 = 102405600000000000"
    by (simp add: issued_nat_def issued_after_fixed_def epochs_nat_def)
  then show ?thesis
    using issued_total_nat [of 2080800] by (simp add: TOTAL_SUPPLY_def COINS_IN_ONE_ERG_def)
qed

subsection \<open>Properties of the schedule\<close>

text \<open>At every height the emission is split without loss: what the miner gets and what goes to
  the re-emission contract add up to the emission, the miner never gets less than three coins
  nor more than seventy-five, and before activation nothing is redirected.\<close>

theorem emission_conserved:
  assumes "0 < height"
  shows "unat (miner_reward_at_height (rules_new s) height) + unat (reemission_for_height (rules_new s) height)
      = unat (emission_at_height (ucast height))
    \<and> 3 * 10 ^ 9 \<le> unat (miner_reward_at_height (rules_new s) height)
    \<and> unat (emission_at_height (ucast height)) \<le> 75 * 10 ^ 9
    \<and> (height < activation_height s \<longrightarrow> reemission_for_height (rules_new s) height = 0)"
proof -
  define e where "e = emission_at_height (ucast height)"
  have h: "unat (ucast height :: u64) = unat height" "unat height < 2 ^ 32" "0 < unat height"
    using assms unsigned_less [of height, where 'a = nat]
    by (simp_all add: unsigned_ucast_eq take_bit_nat_eq_self word_less_nat_alt)
  have bounds: "3000000000 \<le> unat e" "unat e \<le> 75000000000"
    using emission_at_height_nat [of "ucast height"] emission_nat_bounds [of "unat height"] h
    by (simp_all add: e_def)
  have r: "reemission_for_height (rules_new s) height =
      (if activation_height s \<le> height \<and> 15000000000 \<le> e then 12000000000
       else if activation_height s \<le> height \<and> 3000000000 < e then e - 3000000000 else 0)"
    by (simp add: reemission_for_height_def rules_new_def Let_def e_def emission_consts)
  have "unat (reemission_for_height (rules_new s) height) + 3000000000 \<le> unat e"
    using bounds by (auto simp: r word_le_nat_alt word_less_nat_alt unat_sub)
  then show ?thesis
    using bounds by (auto simp: miner_reward_at_height_def unat_sat_sub_u64 e_def [symmetric] r)
qed

theorem emission_conserved_witness:
  "unat (miner_reward_at_height (rules_new settings_testnet) 200000)
     + unat (reemission_for_height (rules_new settings_testnet) 200000)
     = unat (emission_at_height (ucast (200000 :: u32)))"
  using emission_conserved [of 200000 settings_testnet] by simp

text \<open>The closed form of the issued coins grows by the reward of each block, except at the first
  block of each of the twenty-four reduction epochs, where it grows by three coins more than
  the block's reward: the closed form counts that block to the epoch before.\<close>

theorem issued_coins_step:
  assumes "unat h + 1 < 2 ^ 32"
  shows "unat (issued_total (h + 1)) =
    unat (issued_total h) + unat (emission_at_height (h + 1)) +
    (if epoch_begins (unat h + 1) then 3 * 10 ^ 9 else 0)"
proof -
  have "unat (h + 1) = Suc (unat h)"
    using assms by (simp add: unat_word_ariths)
  then show ?thesis
    using issued_total_nat [of h] issued_total_nat [of "h + 1"] emission_at_height_nat [of "h + 1"]
      issued_nat_Suc [of "unat h"] assms by simp
qed

theorem issued_coins_step_witness:
  "unat (issued_total 590400) = unat (issued_total 590399) + unat (emission_at_height 590400) + 3 * 10 ^ 9"
  using issued_coins_step [of 590399] by (simp add: epoch_begins_def)

end
