(* ===== verification/F64_Rounding.thy ===== *)
theory F64_Rounding
  imports F64
begin

text \<open>
  Bounds of rounded results: rounding is monotone towards every number that the format can represent,
  so sums and products of bounded integers stay finite and below the bound of the exact result.
\<close>

lemma pow2_powi: "pow2 e = 2 powi e"
  by (simp add: pow2_def power_int_def inverse_eq_divide power_one_over)

lemma pow2_add: "pow2 (a + b) = pow2 a * pow2 b"
  by (simp add: pow2_powi power_int_add)

lemma pow2_le_iff: "pow2 a \<le> pow2 b \<longleftrightarrow> a \<le> b"
  unfolding pow2_powi using power_int_increasing [of a b "2 :: rat"] power_int_strict_increasing [of b a "2 :: rat"]
  by (cases "a \<le> b") (simp_all add: not_le)

lemma pow2_nat: "pow2 (int n) = 2 ^ n"
  by (simp add: pow2_def)

lemma bitlen_lower:
  assumes "0 < n"
  shows "pow2 (bitlen n - 1) \<le> of_int n"
proof -
  have "1 \<le> bitlen n"
    using assms by (simp add: bitlen_alt_def)
  then have "pow2 (bitlen n - 1) = of_int (2 ^ nat (bitlen n - 1))"
    by (simp add: pow2_def)
  then show ?thesis
    using bitlen_bounds [OF assms] by (simp only: of_int_le_iff)
qed

lemma bitlen_upper:
  assumes "0 < n"
  shows "of_int n < pow2 (bitlen n)"
proof -
  have "pow2 (bitlen n) = of_int (2 ^ nat (bitlen n))"
    by (simp add: pow2_def bitlen_nonneg)
  then show ?thesis
    using bitlen_bounds [OF assms] by (simp only: of_int_less_iff)
qed

lemma f64_exponent_lower:
  assumes "0 < x"
  shows "pow2 (f64_exponent x) \<le> x"
proof -
  obtain n d where nd: "quotient_of x = (n, d)"
    by (cases "quotient_of x")
  then have d: "0 < d" and x: "x = of_int n / of_int d"
    using quotient_of_denom_pos quotient_of_div by blast+
  then have n: "0 < n"
    using assms by (simp add: zero_less_divide_iff)
  have "pow2 (bitlen n - bitlen d - 1) * pow2 (bitlen d) \<le> of_int n"
    using bitlen_lower [OF n] by (simp add: pow2_add [symmetric])
  moreover have "x * of_int d \<le> x * pow2 (bitlen d)"
    using bitlen_upper [OF d] assms by simp
  moreover have "x * of_int d = of_int n"
    using d x by simp
  ultimately have "pow2 (bitlen n - bitlen d - 1) * pow2 (bitlen d) \<le> x * pow2 (bitlen d)"
    by linarith
  then have "pow2 (bitlen n - bitlen d - 1) \<le> x"
    by (simp add: pow2_pos)
  then show ?thesis
    by (simp add: f64_exponent_def nd Let_def)
qed

lemma round_half_even_le: "y \<le> of_int n \<Longrightarrow> round_half_even y \<le> n"
proof -
  assume y: "y \<le> of_int n"
  then have "\<lfloor>y\<rfloor> \<le> n"
    by (metis floor_mono floor_of_int)
  moreover have "y = of_int \<lfloor>y\<rfloor>" if "\<lfloor>y\<rfloor> = n"
    using that y by linarith
  ultimately show ?thesis
    by (cases "\<lfloor>y\<rfloor> = n") (auto simp: round_half_even_def Let_def)
qed

lemma round_half_even_ge: "of_int n \<le> y \<Longrightarrow> n \<le> round_half_even y"
proof -
  assume "of_int n \<le> y"
  then have "n \<le> \<lfloor>y\<rfloor>"
    by (simp add: le_floor_iff)
  then show ?thesis
    by (auto simp: round_half_even_def Let_def)
qed

text \<open>The bound \<open>k * 2 ^ j\<close> is representable when no digit of the result is finer than \<open>2 ^ j\<close>.\<close>

lemma round_pos_le:
  assumes "0 \<le> x" "x \<le> of_int k * pow2 j" "x = 0 \<or> f64_exponent x - 52 \<le> j" "- 1074 \<le> j" "of_int k * pow2 j < 2 ^ 1024"
  shows "\<exists>q. round_pos x = Fin q \<and> 0 \<le> q \<and> q \<le> of_int k * pow2 j"
proof (cases "x = 0")
  case False
  define e where "e = max (f64_exponent x - 52) (- 1074)"
  define v where "v = of_int (round_half_even (x / pow2 e)) * pow2 e"
  have e: "e \<le> j"
    using assms(3,4) False by (simp add: e_def)
  then have j: "pow2 j = of_int (2 ^ nat (j - e)) * pow2 e"
    using pow2_add [of "j - e" e] by (simp add: pow2_def [of "j - e"])
  have "x / pow2 e \<le> of_int (k * 2 ^ nat (j - e))"
    using assms(2) by (simp add: j pow2_pos divide_le_eq mult.assoc)
  from round_half_even_le [OF this] have "v \<le> of_int (k * 2 ^ nat (j - e)) * pow2 e"
    unfolding v_def using pow2_pos [of e] by (simp only: of_int_le_iff mult_le_cancel_right_pos)
  then have v: "v \<le> of_int k * pow2 j"
    by (simp add: j mult.assoc)
  have "0 \<le> v"
    unfolding v_def using assms(1) pow2_pos [of e]
    by (intro mult_nonneg_nonneg) (auto intro!: round_half_even_nonneg divide_nonneg_nonneg)
  moreover have "round_pos x = Fin v"
    using False v assms(5) by (simp add: round_pos_def Let_def e_def [symmetric] v_def [symmetric])
  ultimately show ?thesis
    using v by blast
qed (use assms in \<open>simp add: round_pos_def\<close>)

lemma round_pos_ge:
  assumes "0 < x" "of_int k * pow2 j \<le> x" "f64_exponent x - 52 \<le> j" "- 1074 \<le> j" "round_pos x = Fin q"
  shows "of_int k * pow2 j \<le> q"
proof -
  define e where "e = max (f64_exponent x - 52) (- 1074)"
  have e: "e \<le> j"
    using assms(3,4) by (simp add: e_def)
  then have j: "pow2 j = of_int (2 ^ nat (j - e)) * pow2 e"
    using pow2_add [of "j - e" e] by (simp add: pow2_def [of "j - e"])
  have "of_int (k * 2 ^ nat (j - e)) \<le> x / pow2 e"
    using assms(2) by (simp add: j pow2_pos le_divide_eq mult.assoc)
  from round_half_even_ge [OF this] have "of_int (k * 2 ^ nat (j - e)) * pow2 e \<le> of_int (round_half_even (x / pow2 e)) * pow2 e"
    using pow2_pos [of e] by (simp only: of_int_le_iff mult_le_cancel_right_pos)
  moreover have "q = of_int (round_half_even (x / pow2 e)) * pow2 e"
    using assms(1,5) by (auto simp: round_pos_def Let_def e_def [symmetric] split: if_splits)
  ultimately show ?thesis
    by (simp add: j mult.assoc)
qed

text \<open>Values between zero and \<open>k * 2 ^ b\<close>, with a factor that fits 53 bits.\<close>

definition f64_upto :: "nat \<Rightarrow> nat \<Rightarrow> f64 \<Rightarrow> bool" where
  "f64_upto k b v \<longleftrightarrow> (\<exists>q. v = Fin q \<and> 0 \<le> q \<and> q \<le> of_nat k * 2 ^ b)"

lemma exponent_upto:
  assumes "0 < x" "x \<le> of_nat k * 2 ^ b" "k \<le> 2 ^ 52"
  shows "f64_exponent x - 52 \<le> int b"
proof -
  have "pow2 (f64_exponent x) \<le> x"
    by (rule f64_exponent_lower [OF assms(1)])
  also have "\<dots> \<le> 2 ^ 52 * 2 ^ b"
    using assms(2,3) by (meson mult_right_mono of_nat_le_numeral_power_cancel_iff order_trans zero_le_numeral zero_le_power)
  also have "\<dots> = pow2 (52 + int b)"
    using pow2_nat [of "52 + b"] by (simp add: power_add)
  finally show ?thesis
    by (simp add: pow2_le_iff)
qed

lemma round_upto:
  assumes "0 \<le> x" "x \<le> of_nat k * 2 ^ b" "k \<le> 2 ^ 52" "b \<le> 900"
  shows "f64_upto k b (round_f64 x)"
proof -
  have "of_nat k * (2 :: rat) ^ b \<le> 2 ^ 52 * 2 ^ 900"
    using assms(3,4) by (intro mult_mono power_increasing) (simp_all add: of_nat_le_numeral_power_cancel_iff)
  also have "\<dots> < 2 ^ 1024"
    by (simp only: power_add [symmetric]) simp
  finally have "of_int (int k) * pow2 (int b) < 2 ^ 1024"
    by (simp add: pow2_nat)
  moreover have "x = 0 \<or> f64_exponent x - 52 \<le> int b"
    using exponent_upto [OF _ assms(2,3)] assms(1) by force
  ultimately show ?thesis
    using round_pos_le [of x "int k" "int b"] assms(1,2) by (auto simp: f64_upto_def round_f64_def pow2_nat)
qed

lemma f64_of_nat_upto: "n \<le> k * 2 ^ b \<Longrightarrow> k \<le> 2 ^ 52 \<Longrightarrow> b \<le> 900 \<Longrightarrow> f64_upto k b (f64_of_nat n)"
  unfolding f64_of_nat_def f64_of_int_def
  by (rule round_upto) (simp_all, metis of_nat_le_iff of_nat_mult of_nat_numeral of_nat_power)

lemma f64_mul_upto:
  assumes "f64_upto k b v" "f64_upto l c w" "k * l \<le> 2 ^ 52" "b + c \<le> 900"
  shows "f64_upto (k * l) (b + c) (f64_mul v w)"
proof -
  obtain p q where pq: "v = Fin p" "w = Fin q" "0 \<le> p" "p \<le> of_nat k * 2 ^ b" "0 \<le> q" "q \<le> of_nat l * 2 ^ c"
    using assms(1,2) by (auto simp: f64_upto_def)
  have "p * q \<le> (of_nat k * 2 ^ b) * (of_nat l * 2 ^ c)"
    using pq by (intro mult_mono) auto
  also have "\<dots> = of_nat (k * l) * 2 ^ (b + c)"
    by (simp add: power_add)
  finally show ?thesis
    using round_upto [of "p * q" "k * l" "b + c"] pq assms(3,4) by simp
qed

lemma f64_add_upto:
  assumes "f64_upto k b v" "f64_upto l b w" "k + l \<le> 2 ^ 52" "b \<le> 900"
  shows "f64_upto (k + l) b (f64_add v w)"
proof -
  obtain p q where pq: "v = Fin p" "w = Fin q" "0 \<le> p" "p \<le> of_nat k * 2 ^ b" "0 \<le> q" "q \<le> of_nat l * 2 ^ b"
    using assms(1,2) by (auto simp: f64_upto_def)
  then show ?thesis
    using round_upto [of "p + q" "k + l" b] assms(3,4) by (simp add: algebra_simps)
qed

lemma f64_upto_mono: "f64_upto k b v \<Longrightarrow> k * 2 ^ b \<le> l * 2 ^ c \<Longrightarrow> f64_upto l c v"
proof -
  assume v: "f64_upto k b v" and kl: "k * 2 ^ b \<le> l * 2 ^ c"
  have "(of_nat (k * 2 ^ b) :: rat) \<le> of_nat (l * 2 ^ c)"
    using kl by (simp only: of_nat_le_iff)
  then have "of_nat k * (2 :: rat) ^ b \<le> of_nat l * 2 ^ c"
    by simp
  then show ?thesis
    using v order_trans unfolding f64_upto_def by blast
qed

lemma round_f64_bounded:
  assumes "\<bar>x\<bar> \<le> 2 ^ b" "b \<le> 900"
  shows "\<exists>q. round_f64 x = Fin q \<and> \<bar>q\<bar> \<le> 2 ^ b"
proof -
  have "f64_upto 1 b (round_f64 \<bar>x\<bar>)"
    using round_upto [of "\<bar>x\<bar>" 1 b] assms by simp
  then show ?thesis
    by (auto simp: f64_upto_def round_f64_def split: if_splits)
qed

text \<open>Integers up to \<open>2 ^ 52\<close> are bounds in both directions.\<close>

lemma round_int_bounds:
  assumes "of_nat m \<le> x" "x \<le> of_nat n" "n \<le> 2 ^ 52" "0 < m"
  shows "\<exists>q. round_f64 x = Fin q \<and> of_nat m \<le> q \<and> q \<le> of_nat n"
proof -
  have pos: "0 < x"
    using assms(1,4) by (meson less_le_trans of_nat_0_less_iff)
  obtain q where q: "round_f64 x = Fin q" "q \<le> of_nat n"
    using round_upto [of x n 0] assms(2,3) pos by (auto simp: f64_upto_def)
  moreover have "f64_exponent x - 52 \<le> 0"
    using exponent_upto [of x n 0] pos assms(2,3) by simp
  ultimately show ?thesis
    using round_pos_ge [of x "int m" 0 q] pos assms(1) by (auto simp: round_f64_def pow2_def)
qed

lemma round_nat_exact: "0 < m \<Longrightarrow> m \<le> 2 ^ 52 \<Longrightarrow> round_f64 (of_nat m) = Fin (of_nat m)"
  using round_int_bounds [of m "of_nat m" m] by auto

lemma round_f64_not_nan: "round_f64 x \<noteq> F64_NaN"
proof -
  have "round_pos y \<noteq> F64_NaN" for y
    by (simp add: round_pos_def Let_def)
  moreover have "f64_uminus v = F64_NaN \<longleftrightarrow> v = F64_NaN" for v
    by (cases v) simp_all
  ultimately show ?thesis
    by (simp add: round_f64_def)
qed

lemma exponent_nonneg:
  assumes "1 \<le> x"
  shows "0 \<le> f64_exponent x"
proof -
  obtain n d where nd: "quotient_of x = (n, d)"
    by (cases "quotient_of x")
  then have d: "0 < d" and x: "x = of_int n / of_int d"
    using quotient_of_denom_pos quotient_of_div by blast+
  then have n: "d \<le> n"
    using assms by (simp add: le_divide_eq)
  then have k: "bitlen d \<le> bitlen n"
    using d by (simp add: bitlen_def floorlog_mono nat_mono)
  have "\<not> x < pow2 0"
    using assms by (simp add: pow2_def)
  then show ?thesis
    using k by (cases "bitlen n = bitlen d") (auto simp: f64_exponent_def nd Let_def)
qed

end
