(* ===== verification/Difficulty.thy ===== *)
theory Difficulty
  imports Consensus F64_Rounding
begin

text \<open>
  The difficulty of the next block (\<open>crates/ergo-consensus/src/difficulty.rs\<close>): the least squares
  line through height and time of the recent headers in double precision, and the change of the target
  by the ratio of the wanted and the measured time per block. \<open>None\<close> is the panic of a remainder by
  zero, which only an epoch length of zero leads to.
\<close>

record header_for_difficulty =
  hfd_height :: u32
  hfd_timestamp :: u64
  hfd_n_bits :: u32

record difficulty_adjustment =
  da_target_interval_ms :: u64
  da_epoch_length :: u32
  da_use_epochs :: u32

definition BLOCK_INTERVAL_SECS :: u64 where "BLOCK_INTERVAL_SECS = 120"
definition EPOCH_LENGTH :: u32 where "EPOCH_LENGTH = 1024"
definition DIFFICULTY_EPOCHS :: u32 where "DIFFICULTY_EPOCHS = 8"
definition MAX_DIFFICULTY_CHANGE :: f64 where "MAX_DIFFICULTY_CHANGE = Fin 2"
definition GENESIS_N_BITS :: u32 where "GENESIS_N_BITS = 0x1f00ffff"

definition adjustment_new :: difficulty_adjustment where
  "adjustment_new =
     \<lparr>da_target_interval_ms = BLOCK_INTERVAL_SECS * 1000, da_epoch_length = EPOCH_LENGTH, da_use_epochs = DIFFICULTY_EPOCHS\<rparr>"

text \<open>The sums over the headers: of heights, of times, of their products and of squared heights.\<close>

record regression_sums =
  sum_x :: f64
  sum_y :: f64
  sum_xy :: f64
  sum_x2 :: f64

definition add_point :: "header_for_difficulty \<Rightarrow> regression_sums \<Rightarrow> regression_sums" where
  "add_point h s =
     (let x = f64_of_nat (unat (hfd_height h)); y = f64_of_nat (unat (hfd_timestamp h))
      in \<lparr>sum_x = f64_add (sum_x s) x, sum_y = f64_add (sum_y s) y,
          sum_xy = f64_add (sum_xy s) (f64_mul x y), sum_x2 = f64_add (sum_x2 s) (f64_mul x x)\<rparr>)"

definition no_points :: regression_sums where
  "no_points = \<lparr>sum_x = Fin 0, sum_y = Fin 0, sum_xy = Fin 0, sum_x2 = Fin 0\<rparr>"

definition F64_EPSILON :: f64 where
  "F64_EPSILON = Fin (1 / 2 ^ 52)"

fun f64_abs :: "f64 \<Rightarrow> f64" where
  "f64_abs (Fin x) = Fin \<bar>x\<bar>"
| "f64_abs F64_NInf = F64_PInf"
| "f64_abs v = v"

text \<open>
  The quotient of the wanted time and the slope. A slope of zero has the sign of the numerator times
  that of the denominator (a difference of equal numbers is the positive zero), and so has the infinite
  quotient.
\<close>

definition div_by_slope :: "f64 \<Rightarrow> f64 \<Rightarrow> f64 \<Rightarrow> f64" where
  "div_by_slope wanted numerator denominator =
     (let slope = f64_div numerator denominator
      in if slope = Fin 0 \<and> wanted \<noteq> Fin 0
         then inf_signed (f64_lt numerator (Fin 0) = f64_lt denominator (Fin 0))
         else f64_div wanted slope)"

definition adjusted_target :: "f64 \<Rightarrow> nat \<Rightarrow> nat" where
  "adjusted_target clamped current =
     (if f64_lt (Fin 1) clamped then current * 1000 div f64_to_u64 (f64_mul clamped (Fin 1000))
      else current * f64_to_u64 (f64_div (Fin 1000) clamped) div 1000)"

definition linear_regression_difficulty :: "difficulty_adjustment \<Rightarrow> header_for_difficulty list \<Rightarrow> consensus_error + u32" where
  "linear_regression_difficulty da headers =
     (let n = f64_of_nat (length headers) in
      if f64_lt n (Fin 2)
      then Inl (InvalidDifficulty (show_nat (length headers) @ '' headers'') ''at least 2 headers'')
      else
        let s = fold add_point headers no_points;
            denominator = f64_sub (f64_mul n (sum_x2 s)) (f64_mul (sum_x s) (sum_x s))
        in if f64_lt (f64_abs denominator) F64_EPSILON
           then Inl (InvalidDifficulty ''degenerate data'' ''non-degenerate header timestamps'')
           else
             let numerator = f64_sub (f64_mul n (sum_xy s)) (f64_mul (sum_x s) (sum_y s));
                 adjustment = div_by_slope (f64_of_nat (unat (da_target_interval_ms da))) numerator denominator;
                 clamped = f64_clamp (f64_div (Fin 1) MAX_DIFFICULTY_CHANGE) MAX_DIFFICULTY_CHANGE adjustment;
                 current_target = nbits_to_target (hfd_n_bits (last headers))
             in Inr (target_to_nbits (adjusted_target clamped current_target)))"

definition calculate_next_difficulty ::
  "difficulty_adjustment \<Rightarrow> header_for_difficulty list \<Rightarrow> u32 \<Rightarrow> (consensus_error + u32) option" where
  "calculate_next_difficulty da headers next_height =
     (if next_height \<le> da_epoch_length da
      then Some (Inr (if headers = [] then GENESIS_N_BITS else hfd_n_bits (hd headers)))
      else if da_epoch_length da = 0 then None
      else if next_height mod da_epoch_length da \<noteq> 0
      then Some (if headers = [] then Inl (InvalidDifficulty ''no headers'' ''at least one header'')
                 else Inr (hfd_n_bits (last headers)))
      else Some (linear_regression_difficulty da headers))"

definition calculate_required_difficulty :: "header_for_difficulty list \<Rightarrow> u32 \<Rightarrow> (consensus_error + u32) option" where
  "calculate_required_difficulty headers next_height = calculate_next_difficulty adjustment_new headers next_height"

subsection \<open>The sums stay finite\<close>

definition sums_upto :: "nat \<Rightarrow> regression_sums \<Rightarrow> bool" where
  "sums_upto k s \<longleftrightarrow> f64_upto k 32 (sum_x s) \<and> f64_upto k 64 (sum_y s) \<and> f64_upto k 96 (sum_xy s) \<and> f64_upto k 64 (sum_x2 s)"

lemma header_coordinates:
  "f64_upto 1 32 (f64_of_nat (unat (hfd_height h)))" "f64_upto 1 64 (f64_of_nat (unat (hfd_timestamp h)))"
proof -
  have "unat (hfd_height h) \<le> 1 * 2 ^ 32" "unat (hfd_timestamp h) \<le> 1 * 2 ^ 64"
    using unsigned_less [of "hfd_height h", where 'a = nat] unsigned_less [of "hfd_timestamp h", where 'a = nat] by simp_all
  then show "f64_upto 1 32 (f64_of_nat (unat (hfd_height h)))" "f64_upto 1 64 (f64_of_nat (unat (hfd_timestamp h)))"
    by (auto intro!: f64_of_nat_upto)
qed

lemma add_point_upto: "sums_upto k s \<Longrightarrow> k + 1 \<le> 2 ^ 52 \<Longrightarrow> sums_upto (k + 1) (add_point h s)"
  using header_coordinates [of h] f64_mul_upto [OF header_coordinates, of h h] f64_mul_upto [OF header_coordinates(1,1), of h h]
  by (auto simp: sums_upto_def add_point_def Let_def intro!: f64_add_upto [of _ _ _ 1, simplified])

lemma fold_add_point_upto:
  "sums_upto k s \<Longrightarrow> k + length hs \<le> 2 ^ 52 \<Longrightarrow> sums_upto (k + length hs) (fold add_point hs s)"
proof (induction hs arbitrary: k s)
  case (Cons h hs)
  then show ?case
    using Cons.IH [OF add_point_upto [OF Cons.prems(1), of h]] by simp
qed simp

lemma no_points_upto: "sums_upto 0 no_points"
  by (simp add: sums_upto_def no_points_def f64_upto_def)

lemma sub_finite:
  assumes "f64_upto k b v" "f64_upto k b w" "k \<le> 2 ^ 52" "b \<le> 840"
  shows "\<exists>q. f64_sub v w = Fin q"
proof -
  obtain p q where pq: "v = Fin p" "w = Fin q" "0 \<le> p" "p \<le> of_nat k * 2 ^ b" "0 \<le> q" "q \<le> of_nat k * 2 ^ b"
    using assms(1,2) by (auto simp: f64_upto_def)
  have "of_nat k * (2 :: rat) ^ b \<le> 2 ^ 52 * 2 ^ 840"
    using assms(3,4) by (intro mult_mono power_increasing) (simp_all add: of_nat_le_numeral_power_cancel_iff)
  also have "\<dots> \<le> 2 ^ 892"
    by (simp only: power_add [symmetric]) simp
  finally have "\<bar>p - q\<bar> \<le> 2 ^ 892"
    using pq by linarith
  from round_f64_bounded [OF this] show ?thesis
    using pq by (auto simp: f64_sub_def)
qed

lemma products_finite:
  assumes "sums_upto k s" "k \<le> 2 ^ 26"
  shows "\<exists>q. f64_sub (f64_mul (f64_of_nat k) (sum_x2 s)) (f64_mul (sum_x s) (sum_x s)) = Fin q"
    "\<exists>q. f64_sub (f64_mul (f64_of_nat k) (sum_xy s)) (f64_mul (sum_x s) (sum_y s)) = Fin q"
proof -
  have "k * k \<le> 2 ^ 26 * 2 ^ 26"
    using assms(2) by (intro mult_mono) auto
  then have kk: "k * k \<le> 2 ^ 52"
    by simp
  have n: "f64_upto k 0 (f64_of_nat k)"
    using assms(2) by (intro f64_of_nat_upto) auto
  note s = assms(1) [unfolded sums_upto_def]
  show "\<exists>q. f64_sub (f64_mul (f64_of_nat k) (sum_x2 s)) (f64_mul (sum_x s) (sum_x s)) = Fin q"
    using f64_mul_upto [OF n, of k 64] f64_mul_upto [of k 32 "sum_x s" k 32 "sum_x s"] s kk
    by (intro sub_finite [of "k * k" 64]) auto
  show "\<exists>q. f64_sub (f64_mul (f64_of_nat k) (sum_xy s)) (f64_mul (sum_x s) (sum_y s)) = Fin q"
    using f64_mul_upto [OF n, of k 96] f64_mul_upto [of k 32 "sum_x s" k 64 "sum_y s"] s kk
    by (intro sub_finite [of "k * k" 96]) auto
qed

subsection \<open>The change is bounded\<close>

lemma div_by_slope_not_nan:
  assumes "wanted = Fin w" "w \<noteq> 0" "denominator = Fin d" "d \<noteq> 0" "numerator = Fin m"
  shows "div_by_slope wanted numerator denominator \<noteq> F64_NaN"
proof (cases "f64_div numerator denominator")
  case F64_NaN
  then show ?thesis
    using assms(3-5) round_f64_not_nan by simp
next
  case (Fin q)
  then show ?thesis
    using assms(1,2) round_f64_not_nan by (auto simp: div_by_slope_def Let_def inf_signed_def)
qed (simp_all add: div_by_slope_def assms(1))

lemma clamp_half_two:
  assumes "adjustment \<noteq> F64_NaN"
  shows "\<exists>c. f64_clamp (Fin (1 / 2)) (Fin 2) adjustment = Fin c \<and> 1 / 2 \<le> c \<and> c \<le> 2"
proof (cases "f64_lt adjustment (Fin (1 / 2))")
  case True
  then show ?thesis
    by (intro exI [of _ "1 / 2"]) (simp add: f64_clamp_def)
next
  case False
  then show ?thesis
    using assms by (cases adjustment) (simp_all add: f64_clamp_def)
qed

lemma to_u64_bounds:
  assumes "of_nat m \<le> q" "q \<le> of_nat n" "n < 2 ^ 64"
  shows "m \<le> f64_to_u64 (Fin q)" "f64_to_u64 (Fin q) \<le> n"
proof -
  have "int m \<le> \<lfloor>q\<rfloor>" "\<lfloor>q\<rfloor> \<le> int n"
    using assms(1,2) by (metis floor_mono floor_of_nat)+
  then show "m \<le> f64_to_u64 (Fin q)" "f64_to_u64 (Fin q) \<le> n"
    using assms(3) by auto
qed

lemma adjusted_target_bounds:
  assumes "1 / 2 \<le> c" "c \<le> 2"
  shows "t div 2 \<le> adjusted_target (Fin c) t" "adjusted_target (Fin c) t \<le> 2 * t"
    "1 < c \<Longrightarrow> adjusted_target (Fin c) t \<le> t" "c \<le> 1 \<Longrightarrow> t \<le> adjusted_target (Fin c) t"
proof -
  have fast: "1000 \<le> f64_to_u64 (f64_mul (Fin c) (Fin 1000))" "f64_to_u64 (f64_mul (Fin c) (Fin 1000)) \<le> 2000" if "1 < c"
  proof -
    have "of_nat 1000 \<le> c * 1000" "c * 1000 \<le> of_nat 2000"
      using that assms(2) by simp_all
    then obtain q where "round_f64 (c * 1000) = Fin q" "of_nat 1000 \<le> q" "q \<le> of_nat 2000"
      using round_int_bounds [of 1000 "c * 1000" 2000] by auto
    then show "1000 \<le> f64_to_u64 (f64_mul (Fin c) (Fin 1000))" "f64_to_u64 (f64_mul (Fin c) (Fin 1000)) \<le> 2000"
      using to_u64_bounds [of 1000 q 2000] by (simp_all del: f64_to_u64.simps)
  qed
  have slow: "1000 \<le> f64_to_u64 (f64_div (Fin 1000) (Fin c))" "f64_to_u64 (f64_div (Fin 1000) (Fin c)) \<le> 2000" if "c \<le> 1"
  proof -
    have "1000 \<le> 1000 / c" "1000 / c \<le> 2000"
      using that assms by (simp_all add: field_simps)
    then obtain q where "round_f64 (1000 / c) = Fin q" "of_nat 1000 \<le> q" "q \<le> of_nat 2000"
      using round_int_bounds [of 1000 "1000 / c" 2000] by auto
    then show "1000 \<le> f64_to_u64 (f64_div (Fin 1000) (Fin c))" "f64_to_u64 (f64_div (Fin 1000) (Fin c)) \<le> 2000"
      using to_u64_bounds [of 1000 q 2000] assms by (simp_all del: f64_to_u64.simps)
  qed
  have down: "t div 2 \<le> t * 1000 div d" "t * 1000 div d \<le> t" if "1000 \<le> d" "d \<le> 2000" for d
  proof -
    have "t * 1000 div 2000 \<le> t * 1000 div d" "t * 1000 div d \<le> t * 1000 div 1000"
      using that by (intro div_le_mono2; simp)+
    then show "t div 2 \<le> t * 1000 div d" "t * 1000 div d \<le> t"
      by simp_all
  qed
  have up: "t \<le> t * m div 1000" "t * m div 1000 \<le> 2 * t" if "1000 \<le> m" "m \<le> 2000" for m
  proof -
    have "t * 1000 div 1000 \<le> t * m div 1000" "t * m div 1000 \<le> t * 2000 div 1000"
      using that by (intro div_le_mono mult_le_mono2; simp)+
    then show "t \<le> t * m div 1000" "t * m div 1000 \<le> 2 * t"
      by simp_all
  qed
  show "t div 2 \<le> adjusted_target (Fin c) t" "adjusted_target (Fin c) t \<le> 2 * t"
    using down [OF fast] up [OF slow] by (cases "1 < c"; simp add: adjusted_target_def; linarith)+
  show "1 < c \<Longrightarrow> adjusted_target (Fin c) t \<le> t" "c \<le> 1 \<Longrightarrow> t \<le> adjusted_target (Fin c) t"
    using down(2) [OF fast] up(1) [OF slow] by (simp_all add: adjusted_target_def)
qed

lemma f64_of_nat_pos:
  assumes "0 < n" "n < 2 ^ 64"
  shows "\<exists>q. f64_of_nat n = Fin q \<and> q \<noteq> 0"
proof -
  let ?x = "of_nat n :: rat"
  have "f64_upto 1 64 (f64_of_nat n)"
    using assms(2) by (intro f64_of_nat_upto) auto
  then obtain q where q: "f64_of_nat n = Fin q"
    by (auto simp: f64_upto_def)
  have x: "0 < ?x" "1 \<le> ?x"
    using assms(1) by simp_all
  have "\<exists>k j. of_int k * pow2 j \<le> ?x \<and> 0 < of_int k * pow2 j \<and> f64_exponent ?x - 52 \<le> j \<and> - 1074 \<le> j"
    using f64_exponent_lower [OF x(1)] pow2_pos exponent_nonneg [OF x(2)]
    by (intro exI [of _ 1] exI [of _ "f64_exponent ?x"]) auto
  then obtain k j where kj: "of_int k * pow2 j \<le> ?x" "0 < of_int k * pow2 j" "f64_exponent ?x - 52 \<le> j" "- 1074 \<le> j"
    by blast
  have "round_pos ?x = Fin q"
    using q by (simp add: f64_of_nat_def f64_of_int_def round_f64_def)
  from round_pos_ge [OF x(1) kj(1,3,4) this] kj(2) q show ?thesis
    by auto
qed

lemma half_exact: "round_f64 (1 / 2) = Fin (1 / 2)"
  by code_simp

text \<open>C35: A new difficulty moves the target by a factor of two at most, whatever heights and times the headers
  have: the regression never yields a NaN, and the target it encodes lies between half and twice the
  target of the last header. The block interval is positive and at most \<open>2 ^ 26\<close> headers are looked at.\<close>
theorem difficulty_change_bounded:
  assumes "linear_regression_difficulty da headers = Inr n_bits" "0 < da_target_interval_ms da" "length headers \<le> 2 ^ 26"
  shows "\<exists>target. n_bits = target_to_nbits target
    \<and> nbits_to_target (hfd_n_bits (last headers)) div 2 \<le> target \<and> target \<le> 2 * nbits_to_target (hfd_n_bits (last headers))"
proof -
  let ?s = "fold add_point headers no_points"
  let ?n = "f64_of_nat (length headers)"
  let ?d = "f64_sub (f64_mul ?n (sum_x2 ?s)) (f64_mul (sum_x ?s) (sum_x ?s))"
  let ?m = "f64_sub (f64_mul ?n (sum_xy ?s)) (f64_mul (sum_x ?s) (sum_y ?s))"
  let ?w = "f64_of_nat (unat (da_target_interval_ms da))"
  have "sums_upto (length headers) ?s"
    using fold_add_point_upto [OF no_points_upto, of headers] assms(3) by simp
  then obtain d m where d: "?d = Fin d" and m: "?m = Fin m"
    using products_finite [OF _ assms(3)] by blast
  have "\<not> f64_lt (f64_abs ?d) F64_EPSILON"
    using assms(1) by (auto simp: linear_regression_difficulty_def Let_def split: if_splits)
  then have "d \<noteq> 0"
    by (auto simp: d F64_EPSILON_def)
  moreover have "0 < unat (da_target_interval_ms da)" "unat (da_target_interval_ms da) < 2 ^ 64"
    using assms(2) unsigned_less [of "da_target_interval_ms da", where 'a = nat] by (simp_all add: unat_gt_0 word_gt_0)
  then obtain w where "?w = Fin w" "w \<noteq> 0"
    using f64_of_nat_pos by blast
  ultimately have "div_by_slope ?w ?m ?d \<noteq> F64_NaN"
    using div_by_slope_not_nan [OF _ _ d _ m] by blast
  then obtain c where c: "f64_clamp (Fin (1 / 2)) (Fin 2) (div_by_slope ?w ?m ?d) = Fin c" "1 / 2 \<le> c" "c \<le> 2"
    using clamp_half_two by blast
  have "f64_div (Fin 1) MAX_DIFFICULTY_CHANGE = Fin (1 / 2)"
    by (simp add: MAX_DIFFICULTY_CHANGE_def half_exact)
  then have "n_bits = target_to_nbits (adjusted_target (Fin c) (nbits_to_target (hfd_n_bits (last headers))))"
    using assms(1) c(1) by (auto simp: linear_regression_difficulty_def Let_def MAX_DIFFICULTY_CHANGE_def split: if_splits)
  then show ?thesis
    using adjusted_target_bounds(1,2) [OF c(2,3)] by blast
qed

definition fast_headers :: "header_for_difficulty list" where
  "fast_headers = [\<lparr>hfd_height = 0, hfd_timestamp = 0, hfd_n_bits = 0x1d00ffff\<rparr>,
     \<lparr>hfd_height = 1, hfd_timestamp = 1, hfd_n_bits = 0x1d00ffff\<rparr>]"

theorem difficulty_change_bounded_witness:
  "\<exists>n_bits target. linear_regression_difficulty adjustment_new fast_headers = Inr n_bits \<and> n_bits = target_to_nbits target
    \<and> nbits_to_target 0x1d00ffff div 2 \<le> target"
proof -
  let ?s = "fold add_point fast_headers no_points" and ?n = "f64_of_nat (length fast_headers)"
  have r: "round_f64 0 = Fin 0" "round_f64 1 = Fin 1" "round_f64 2 = Fin 2"
    using round_nat_exact [of 1] round_nat_exact [of 2] by (simp_all add: round_f64_def round_pos_def)
  have "f64_of_nat 0 = Fin 0" "f64_of_nat 1 = Fin 1" "f64_of_nat 2 = Fin 2"
    by (simp_all add: f64_of_nat_def f64_of_int_def r)
  then have "f64_lt ?n (Fin 2) = False" "sum_x ?s = Fin 1" "sum_x2 ?s = Fin 1" "?n = Fin 2"
    by (simp_all add: fast_headers_def add_point_def no_points_def r Let_def numeral_2_eq_2)
  moreover from this have "f64_lt (f64_abs (f64_sub (f64_mul ?n (sum_x2 ?s)) (f64_mul (sum_x ?s) (sum_x ?s)))) F64_EPSILON = False"
    by (simp add: f64_sub_def F64_EPSILON_def r)
  ultimately obtain n_bits where n: "linear_regression_difficulty adjustment_new fast_headers = Inr n_bits"
    by (simp add: linear_regression_difficulty_def Let_def)
  from difficulty_change_bounded [OF n] show ?thesis
    using n by (auto simp: adjustment_new_def BLOCK_INTERVAL_SECS_def fast_headers_def)
qed

end
