(* ===== verification/State_Manager.thy ===== *)
theory State_Manager
  imports History_Laws
begin

text \<open>
  The state manager of \<open>crates/ergo-state/src/manager.rs\<close>, which applies blocks to the history and the
  set of boxes together, one by one or in batches, rolls back, recovers at start-up and follows the
  voted parameters. Its state is one database with the two parts that are kept in memory.

  A batch of fresh blocks has the abstract effect of its changes one after the other, and whatever the
  manager went through, a restart reads back what it held in memory. When a block fails, or the set
  is rolled back, history and set part ways, as the last claims show.
\<close>

declare map_of_eq_Some_iff [simp del] Some_eq_map_of_iff [simp del]

subsection \<open>The manager\<close>

datatype state_root_verification = VSkip | VWarnOnly | VEnforce

record manager =
  sm_db :: database
  sm_utxo :: utxo_state
  sm_history :: history
  sm_verification :: state_root_verification
  sm_parameters :: chain_parameters

definition manager_with_verification :: "database \<Rightarrow> state_root_verification \<Rightarrow> manager" where
  "manager_with_verification db v =
     \<lparr>sm_db = db, sm_utxo = utxo_new, sm_history = history_new (- 1), sm_verification = v,
      sm_parameters = chain_parameters_default\<rparr>"

definition state_manager_new :: "database \<Rightarrow> manager" where
  "state_manager_new db = manager_with_verification db VWarnOnly"

definition set_verification_mode :: "state_root_verification \<Rightarrow> manager \<Rightarrow> manager" where
  "set_verification_mode v st = st\<lparr>sm_verification := v\<rparr>"

definition heights :: "manager \<Rightarrow> u32 \<times> u32" where
  "heights st = (us_height (sm_utxo st), hy_best_height (sm_history st))"

definition is_synced :: "manager \<Rightarrow> bool" where
  "is_synced st =
     (0 < hy_best_full_block_height (sm_history st)
      \<and> hy_best_full_block_height (sm_history st) = hy_best_height (sm_history st))"

text \<open>The two views of the manager that the parts work on.\<close>

definition sm_hist :: "manager \<Rightarrow> hist_state" where
  "sm_hist st = (sm_db st, sm_history st)"

definition sm_put_hist :: "hist_state \<Rightarrow> manager \<Rightarrow> manager" where
  "sm_put_hist h st = st\<lparr>sm_db := fst h, sm_history := snd h\<rparr>"

definition sm_boxes :: "manager \<Rightarrow> database \<times> utxo_state" where
  "sm_boxes st = (sm_db st, sm_utxo st)"

definition sm_put_boxes :: "database \<times> utxo_state \<Rightarrow> manager \<Rightarrow> manager" where
  "sm_put_boxes u st = st\<lparr>sm_db := fst u, sm_utxo := snd u\<rparr>"

subsection \<open>Parameters\<close>

text \<open>The parameters after the extension of a block at an epoch boundary; an empty map changes nothing.\<close>

definition params_after :: "u32 \<Rightarrow> extension \<Rightarrow> chain_parameters \<Rightarrow> chain_parameters" where
  "params_after height e params =
     (case parse_parameters e of
        Inl _ \<Rightarrow> params
      | Inr parsed \<Rightarrow> if list_all (\<lambda>i. parsed (of_nat i) = None) [0..<256] then params
                      else params_from_extension height parsed params)"

definition update_parameters_from_block :: "'b full_block \<Rightarrow> manager \<Rightarrow> manager" where
  "update_parameters_from_block b st =
     (if is_epoch_boundary (fb_height b)
      then st\<lparr>sm_parameters := params_after (fb_height b) (fb_extension b) (sm_parameters st)\<rparr> else st)"

text \<open>The block indexed at a height, when both reads succeed.\<close>

definition block_at :: "('b, 'x) hist_env_scheme \<Rightarrow> database \<Rightarrow> u32 \<Rightarrow> 'b full_block option" where
  "block_at henv db height =
     (case header_get_by_height henv db height of
        Inr (Some h) \<Rightarrow> (case get_full_block henv db (hd_id h) of Inr (Some b) \<Rightarrow> Some b | _ \<Rightarrow> None)
      | _ \<Rightarrow> None)"

definition update_parameters_for_height_range ::
  "('b, 'x) hist_env_scheme \<Rightarrow> u32 \<Rightarrow> u32 \<Rightarrow> manager \<Rightarrow> manager" where
  "update_parameters_for_height_range henv first_height last_height st =
     fold (\<lambda>height s.
       if is_epoch_boundary height
       then (case block_at henv (sm_db s) height of Some b \<Rightarrow> update_parameters_from_block b s | None \<Rightarrow> s)
       else s) (map of_nat [unat first_height ..< unat last_height + 1]) st"

text \<open>The loop of \<open>init_parameters_from_storage\<close>; \<open>epoch += epoch_length\<close> wraps, so it may not end.\<close>

partial_function (option) epochs_loop ::
  "('b, 'x) hist_env_scheme \<Rightarrow> database \<Rightarrow> u32 \<Rightarrow> u32 \<Rightarrow> chain_parameters \<Rightarrow> chain_parameters option" where
  "epochs_loop henv db most_recent epoch params =
     (if epoch \<le> most_recent
      then epochs_loop henv db most_recent (epoch + VOTING_EPOCH_LENGTH)
             (case block_at henv db epoch of Some b \<Rightarrow> params_after epoch (fb_extension b) params | None \<Rightarrow> params)
      else Some params)"

definition init_parameters_from_storage :: "('b, 'x) hist_env_scheme \<Rightarrow> manager \<Rightarrow> manager option" where
  "init_parameters_from_storage henv st =
     (let current_height = us_height (sm_utxo st);
          most_recent_epoch = (current_height div VOTING_EPOCH_LENGTH) * VOTING_EPOCH_LENGTH
      in if current_height = 0 \<or> most_recent_epoch = 0 then Some st
         else map_option (\<lambda>p. st\<lparr>sm_parameters := p\<rparr>)
                (epochs_loop henv (sm_db st) most_recent_epoch VOTING_EPOCH_LENGTH chain_parameters_default))"

subsection \<open>Recovery\<close>

fun any_box :: "('b, 'x) box_env_scheme \<Rightarrow> (bytes \<Rightarrow> state_error + 'b box_entry option) \<Rightarrow> 'b list \<Rightarrow> state_error + bool" where
  "any_box env lookup [] = Inr False"
| "any_box env lookup (b # bs) =
     rbind (lookup (box_id_of env b)) (\<lambda>r. case r of Some _ \<Rightarrow> Inr True | None \<Rightarrow> any_box env lookup bs)"

fun find_good_height ::
  "'b box_env \<Rightarrow> ('b, 'x) hist_env_scheme \<Rightarrow> database \<Rightarrow> u32 list \<Rightarrow> state_error + u32 option" where
  "find_good_height env henv db [] = Inr None"
| "find_good_height env henv db (h # hs) =
     (if h = 0 then find_good_height env henv db hs
      else rbind (header_get_by_height henv db h) (\<lambda>r.
        case r of
          None \<Rightarrow> find_good_height env henv db hs
        | Some hdr \<Rightarrow> rbind (get_transactions henv db (hd_id hdr)) (\<lambda>t.
            case t of
              None \<Rightarrow> find_good_height env henv db hs
            | Some txs \<Rightarrow>
                (case bt_txs txs of
                   [] \<Rightarrow> find_good_height env henv db hs
                 | coinbase # _ \<Rightarrow> rbind (any_box env (get_box env db) (tx_outputs coinbase)) (\<lambda>found.
                     if found then Inr (Some h) else find_good_height env henv db hs)))))"

definition rollback_to :: "'b box_env \<Rightarrow> u32 \<Rightarrow> manager \<Rightarrow> (state_error + unit) \<times> manager" where
  "rollback_to env height st =
     (let (r, u) = utxo_rollback env height (sm_boxes st) in (r, sm_put_boxes u st))"

definition check_and_recover ::
  "'b box_env \<Rightarrow> ('b, 'x) hist_env_scheme \<Rightarrow> manager \<Rightarrow> (state_error + unit) \<times> manager" where
  "check_and_recover env henv st =
     (let cur = us_height (sm_utxo st) in
      if cur = 0 then (Inr (), st)
      else case find_good_height env henv (sm_db st)
             (cur # map (sat_sub_u32 cur) [100, 500, 1000, 5000, 10000]) of
             Inl e \<Rightarrow> (Inl e, st)
           | Inr None \<Rightarrow> rollback_to env 1 st
           | Inr (Some good) \<Rightarrow>
               if good < cur then rollback_to env (sat_sub_u32 good 10) st else (Inr (), st))"

definition manager_init ::
  "'b box_env \<Rightarrow> ('b, 'x) hist_env_scheme \<Rightarrow> database \<Rightarrow> (state_error + manager) option" where
  "manager_init env henv db =
     (case check_and_recover env henv
             ((state_manager_new db)\<lparr>sm_utxo := utxo_init_from_storage db, sm_history := history_init db (- 1)\<rparr>) of
        (Inl e, _) \<Rightarrow> Some (Inl e)
      | (Inr _, st) \<Rightarrow> map_option Inr (init_parameters_from_storage henv st))"

subsection \<open>Blocks\<close>

text \<open>The comparison of the state root: \<open>None\<close> is a match or a root that is not computed yet.\<close>

definition root_mismatch :: "bytes \<Rightarrow> bytes \<Rightarrow> (bytes \<times> bytes) option" where
  "root_mismatch computed expected =
     (if computed = [] \<or> list_all (\<lambda>b. b = 0) computed then None
      else let expected_hash = (if length expected = 33 then take 32 expected else expected)
           in if computed \<noteq> expected_hash then Some (expected_hash, computed) else None)"

definition apply_block ::
  "'b box_env \<Rightarrow> ('b, 'x) hist_env_scheme \<Rightarrow> 'b full_block \<Rightarrow> 'b state_change \<Rightarrow> manager \<Rightarrow>
    (state_error + chain_selection) \<times> manager" where
  "apply_block env henv block ch st =
     (let height = fb_height block; cur = us_height (sm_utxo st) in
      if height \<noteq> cur + 1
      then (Inl (SE_InvalidTransition (''Expected height '' @ show_nat (unat (cur + 1)) @ '', got ''
              @ show_nat (unat height))), st)
      else case append_full_block henv block (sm_hist st) of
             (Inl e, h1) \<Rightarrow> (Inl e, sm_put_hist h1 st)
           | (Inr selection, h1) \<Rightarrow>
               let st1 = sm_put_hist h1 st in
               case apply_change env ch height (sm_boxes st1) of
                 (Inl e, u) \<Rightarrow> (Inl e, sm_put_boxes u st1)
               | (Inr _, u) \<Rightarrow>
                   let st2 = sm_put_boxes u st1 in
                   (case (if sm_verification st = VSkip then None
                          else root_mismatch (us_state_root (sm_utxo st2)) (hd_state_root (fb_header block))) of
                      None \<Rightarrow> (Inr selection, st2)
                    | Some (expected, computed) \<Rightarrow>
                        if sm_verification st = VEnforce
                        then (Inl (SE_StateRootMismatch height (hex_encode expected) (hex_encode computed)),
                              snd (rollback_to env cur st2))
                        else (Inr selection, st2)))"

text \<open>Headers go to the history.\<close>

definition on_history :: "('r \<times> hist_state) \<Rightarrow> manager \<Rightarrow> 'r \<times> manager" where
  "on_history res st = (fst res, sm_put_hist (snd res) st)"

definition apply_header :: "('b, 'x) hist_env_scheme \<Rightarrow> header \<Rightarrow> manager \<Rightarrow> (state_error + chain_selection) \<times> manager" where
  "apply_header henv h st = on_history (append_header henv h (sm_hist st)) st"

definition apply_header_with_bytes ::
  "('b, 'x) hist_env_scheme \<Rightarrow> header \<Rightarrow> bytes \<Rightarrow> manager \<Rightarrow> (state_error + chain_selection) \<times> manager" where
  "apply_header_with_bytes henv h raw_bytes st = on_history (append_header_with_bytes henv h raw_bytes (sm_hist st)) st"

definition apply_headers_batched ::
  "('b, 'x) hist_env_scheme \<Rightarrow> (header \<times> bytes) list \<Rightarrow> manager \<Rightarrow> (state_error + chain_selection) \<times> manager" where
  "apply_headers_batched henv headers st = on_history (append_headers_batched henv headers (sm_hist st)) st"

definition apply_state_change ::
  "'b box_env \<Rightarrow> 'b state_change \<Rightarrow> u32 \<Rightarrow> manager \<Rightarrow> (state_error + unit) \<times> manager" where
  "apply_state_change env ch height st =
     (let (r, u) = apply_change env ch height (sm_boxes st) in (r, sm_put_boxes u st))"

text \<open>The first block of a batch whose height is not the one expected.\<close>

fun non_contiguous :: "u32 \<Rightarrow> u32 list \<Rightarrow> (u32 \<times> u32) option" where
  "non_contiguous expected [] = None"
| "non_contiguous expected (h # hs) = (if h \<noteq> expected then Some (expected, h) else non_contiguous (expected + 1) hs)"

text \<open>The boxes of earlier blocks of the batch: those created and not spent since.\<close>

definition carry_boxes ::
  "'b box_env \<Rightarrow> 'b state_change \<Rightarrow> (bytes \<Rightarrow> 'b box_entry option) \<Rightarrow> bytes \<Rightarrow> 'b box_entry option" where
  "carry_boxes env ch boxes =
     fold (\<lambda>i m. m(i := None)) (sc_spent ch)
       (fold (\<lambda>e m. m(be_box_id env e \<mapsto> e)) (sc_created ch) boxes)"

fun batch_blocks ::
  "'b box_env \<Rightarrow> ('b, 'x) hist_env_scheme \<Rightarrow> database \<times> utxo_state \<Rightarrow> ('b full_block \<times> 'b state_change) list \<Rightarrow>
    nat \<Rightarrow> (bytes \<Rightarrow> 'b box_entry option) \<Rightarrow> write_batch \<Rightarrow> state_error + nat \<times> write_batch" where
  "batch_blocks env henv u [] d boxes batch = Inr (d, batch)"
| "batch_blocks env henv u ((block, ch) # rest) d boxes batch =
     rbind (add_block_to_batch henv block d batch) (\<lambda>(d1, batch1).
     rbind (add_change_to_batch_with_context env ch (fb_height block) boxes u batch1) (\<lambda>batch2.
       batch_blocks env henv u rest d1 (carry_boxes env ch boxes) batch2))"

definition apply_blocks_batched ::
  "'b box_env \<Rightarrow> ('b, 'x) hist_env_scheme \<Rightarrow> ('b full_block \<times> 'b state_change) list \<Rightarrow> manager \<Rightarrow>
    (state_error + chain_selection) \<times> manager" where
  "apply_blocks_batched env henv blocks st =
     (case blocks of
        [] \<Rightarrow> (Inr Ignored, st)
      | x # _ \<Rightarrow>
          let first_height = fb_height (fst x); last_block = fst (last blocks); cur = us_height (sm_utxo st);
              hy = sm_history st
          in if first_height \<noteq> cur + 1
             then (Inl (SE_InvalidTransition (''Expected first block at height '' @ show_nat (unat (cur + 1)) @ '', got ''
                     @ show_nat (unat first_height))), st)
             else (case non_contiguous first_height (map (\<lambda>b. fb_height (fst b)) blocks) of
                Some (expected, got) \<Rightarrow>
                  (Inl (SE_InvalidTransition (''Non-contiguous block: expected height '' @ show_nat (unat expected)
                     @ '', got '' @ show_nat (unat got))), st)
              | None \<Rightarrow>
                  (case batch_blocks env henv (sm_boxes st) blocks (parent_cumulative (sm_db st) (fb_header (fst x)))
                          (\<lambda>_. None) batch_new of
                     Inl e \<Rightarrow> (Inl e, st)
                   | Inr (d, batch) \<Rightarrow>
                       let better = hy_best_cumulative_difficulty hy < d;
                           batch1 = (if better then put_best_header (fb_id last_block) (fb_height last_block) d batch else batch);
                           batch2 = (if hy_best_full_block_height hy < fb_height last_block
                                     then put_best_full_block (fb_id last_block) (fb_height last_block) batch1 else batch1)
                       in (Inr (if better then Extended else Ignored),
                           st\<lparr>sm_db := db_write_batch batch2 (sm_db st),
                              sm_history := update_in_memory_state (fb_id last_block) (fb_height last_block) d hy,
                              sm_utxo := update_height_in_memory (fb_height last_block) (sm_utxo st)\<rparr>))))"

subsection \<open>A batch has the effect of its blocks one by one\<close>

definition block_serializable :: "('b, 'x) hist_env_scheme \<Rightarrow> 'b full_block \<Rightarrow> bool" where
  "block_serializable henv b \<longleftrightarrow>
     header_serialize henv (fb_header b) \<noteq> None \<and> list_all (\<lambda>tx. tx_serialize henv tx \<noteq> None) (bt_txs (fb_transactions b))"

lemma serialize_txs_total: "list_all (\<lambda>tx. tx_serialize henv tx \<noteq> None) txs \<Longrightarrow> \<exists>bs. serialize_txs henv txs = Inr bs"
  by (induction txs) auto

text \<open>The data of a block lie in other column families than the boxes.\<close>

lemma add_block_to_batch_total:
  assumes "block_serializable henv b"
  shows "\<exists>d' batch'. add_block_to_batch henv b d batch = Inr (d', batch')
     \<and> (\<forall>k. batch_lookup batch' CF_Utxo k = batch_lookup batch CF_Utxo k)"
proof -
  obtain hb bs where "header_serialize henv (fb_header b) = Some hb" "serialize_txs henv (bt_txs (fb_transactions b)) = Inr bs"
    using assms serialize_txs_total by (fastforce simp: block_serializable_def)
  then show ?thesis
    by (simp add: add_block_to_batch_def put_batched_def put_transactions_batched_def serialize_transactions_def Let_def
        put_with_bytes_batched_def store_cumulative_difficulty_def put_extension_batched_def put_ad_proofs_batched_def split: option.split)
qed

lemma carry_boxes_eq:
  "carry_boxes env ch boxes i =
     (if i \<in> set (sc_spent ch) then None
      else case created_in_block env ch i of Some e \<Rightarrow> Some e | None \<Rightarrow> boxes i)"
proof -
  have created: "fold (\<lambda>e m. m(be_box_id env e \<mapsto> e)) es m i =
      (case map_of (rev (map (\<lambda>e. (be_box_id env e, e)) es)) i of Some e \<Rightarrow> Some e | None \<Rightarrow> m i)" for es m
    by (induction es arbitrary: m) (auto simp: map_add_def split: option.split)
  have spent: "fold (\<lambda>i m. m(i := None)) is m i = (if i \<in> set is then None else m i)" for "is" and m :: "bytes \<Rightarrow> 'a box_entry option"
    by (induction "is" arbitrary: m) auto
  show ?thesis
    by (simp add: carry_boxes_def spent created created_in_block_def)
qed

text \<open>The boxes of the batch seen so far and those of the database make up the current set \<open>m\<close>.\<close>

definition carried :: "(bytes \<rightharpoonup> 'b box_entry) \<Rightarrow> (bytes \<Rightarrow> 'b box_entry option) \<Rightarrow> (bytes \<rightharpoonup> 'b box_entry) \<Rightarrow> bool" where
  "carried m0 boxes m \<longleftrightarrow> (\<forall>i \<in> dom m. (case boxes i of Some e \<Rightarrow> Some e | None \<Rightarrow> m0 i) = m i)"

lemma carried_step:
  assumes "carried m0 boxes m" "fresh_change env m ch"
  shows "carried m0 (carry_boxes env ch boxes) (spec_apply env ch m)"
proof -
  have "(case carry_boxes env ch boxes i of Some e \<Rightarrow> Some e | None \<Rightarrow> m0 i) = spec_apply env ch m i"
    if "i \<in> dom (spec_apply env ch m)" for i
  proof (cases "created_in_block env ch i")
    case None
    then have "i \<in> dom m" "i \<notin> set (sc_spent ch)" "spec_apply env ch m i = m i"
      using that by (auto simp: spec_apply_def map_add_def restrict_map_def split: if_splits)
    then show ?thesis
      using assms(1) None by (simp add: carry_boxes_eq carried_def)
  next
    case (Some e)
    then have "i \<notin> dom m"
      using created_in_blockD [OF Some] assms(2) by (auto simp: fresh_change_def)
    then have "i \<notin> set (sc_spent ch)"
      using assms(2) by (auto simp: fresh_change_def)
    with Some show ?thesis
      by (simp add: carry_boxes_eq spec_apply_def)
  qed
  then show ?thesis by (simp add: carried_def)
qed

lemma batch_blocks_ok:
  assumes "env_ok env" "holds_boxes env db m0"
    and "holds_boxes env (db_write_batch batch db) m" "carried m0 boxes m"
    and "fresh_changes env (map snd blocks) m" "list_all (\<lambda>x. block_serializable henv (fst x)) blocks"
  shows "\<exists>d' batch'. batch_blocks env henv (db, us) blocks d boxes batch = Inr (d', batch')
     \<and> holds_boxes env (db_write_batch batch' db) (fold (spec_apply env) (map snd blocks) m)"
  using assms(3-)
proof (induction blocks arbitrary: d boxes batch m)
  case (Cons x blocks)
  obtain b ch where x: "x = (b, ch)" by (cases x)
  have ok: "change_ok env ch" "fresh_change env m ch" "fresh_changes env (map snd blocks) (spec_apply env ch m)"
    using Cons.prems(3) by (simp_all add: x)
  obtain d1 batch1 where b1: "add_block_to_batch henv b d batch = Inr (d1, batch1)"
      "\<And>k. batch_lookup batch1 CF_Utxo k = batch_lookup batch CF_Utxo k"
    using add_block_to_batch_total [of henv b d batch] Cons.prems(4) by (auto simp: x)
  have "context_lookup env db boxes ch i = Inr (Some (the (m i))) \<and> entry_ok env (the (m i))" if i: "i \<in> set (sc_spent ch)" for i
  proof -
    obtain e where e: "m i = Some e"
      using ok(2) i by (auto simp: fresh_change_def)
    then have "created_in_block env ch i = None"
      using ok(2) by (auto simp: created_in_block_None fresh_change_def)
    moreover have "get_box env db i = Inr (m0 i)"
      using utxo_view_get [OF assms(1) holds_boxes_view(1) [OF assms(1,2)]] holds_boxes_view(2) [OF assms(1,2)] by simp
    moreover have "(case boxes i of Some e \<Rightarrow> Some e | None \<Rightarrow> m0 i) = Some e"
      using Cons.prems(2) e unfolding carried_def by (metis domI)
    moreover have "entry_ok env e"
      using Cons.prems(1) e by (simp add: holds_boxes_def)
    ultimately show ?thesis
      by (auto simp: context_lookup_def e split: option.splits)
  qed
  then obtain batch2 ub where b2: "add_change env db (context_lookup env db boxes ch) (us_sync_mode us) ch (fb_height b) batch1 = Inr batch2"
      "\<forall>cf k. \<not> index_cf cf \<longrightarrow> batch_lookup batch2 cf k =
        (case change_writes env ch (fb_height b) ub cf k of Some r \<Rightarrow> Some r | None \<Rightarrow> batch_lookup batch1 cf k)"
    using add_change_ok [OF ok(1), of "context_lookup env db boxes ch" "\<lambda>i. the (m i)"] by blast
  have "db_get (db_write_batch batch2 db) CF_Utxo i =
      (case change_writes env ch (fb_height b) ub CF_Utxo i of Some r \<Rightarrow> r | None \<Rightarrow> db_get (db_write_batch batch db) CF_Utxo i)" for i
    using b2(2) by (simp add: db_get_write_batch b1(2) split: option.split)
  from holds_boxes_spec_apply [OF Cons.prems(1) ok(1) this]
  have "holds_boxes env (db_write_batch batch2 db) (spec_apply env ch m)" .
  from Cons.IH [OF this carried_step [OF Cons.prems(2) ok(2)] ok(3)] Cons.prems(4) show ?case
    using b1(1) b2(1) by (simp add: x add_change_to_batch_with_context_def)
qed simp

lemma non_contiguous_None:
  "map fb_h bs = map (\<lambda>k. h + of_nat k) [0..<length bs] \<Longrightarrow> non_contiguous h (map fb_h bs) = None"
proof (induction bs arbitrary: h)
  case (Cons b bs)
  have "map (\<lambda>k. h + of_nat k) [0..<Suc (length bs)] = h # map (\<lambda>k. (h + 1) + of_nat k) [0..<length bs]"
    by (simp add: upt_conv_Cons map_Suc_upt [symmetric] comp_def add.assoc del: upt_Suc)
  with Cons show ?case by simp
qed simp

text \<open>Metadata do not touch the boxes.\<close>

lemma holds_boxes_metadata:
  "holds_boxes env (db_write_batch b db) m \<Longrightarrow>
     holds_boxes env (db_write_batch (put_best_header i h d b) db) m
     \<and> holds_boxes env (db_write_batch (put_best_full_block i h b) db) m"
  by (simp add: holds_boxes_def db_get_write_batch put_best_header_def put_best_full_block_def)

text \<open>C1: applying a batch of consecutive blocks, each of which spends boxes that exist and creates boxes
  that do not, succeeds and leaves the set of boxes and the height that applying their changes one
  after the other leaves; boxes may be spent in a later block of the batch than they are created.\<close>

theorem batched_blocks_as_sequential:
  assumes "env_ok env" "utxo_wf env (sm_db st)" "blocks \<noteq> []"
    and "fresh_changes env (map snd blocks) (utxo_view env (sm_db st))"
    and "map (\<lambda>x. fb_height (fst x)) blocks = map (\<lambda>k. us_height (sm_utxo st) + 1 + of_nat k) [0..<length blocks]"
    and "list_all (\<lambda>x. block_serializable henv (fst x)) blocks" "unat (us_height (sm_utxo st)) + length blocks < 2 ^ 32"
  shows "\<exists>selection st' db' us'. apply_blocks_batched env henv blocks st = (Inr selection, st')
     \<and> apply_changes env (map snd blocks) (sm_boxes st) = (Inr (), db', us')
     \<and> utxo_view env (sm_db st') = utxo_view env db' \<and> us_height (sm_utxo st') = us_height us'"
proof -
  let ?m = "utxo_view env (sm_db st)" and ?fold = "fold (spec_apply env) (map snd blocks) (utxo_view env (sm_db st))"
  have holds: "holds_boxes env (sm_db st) ?m"
    using view_holds_boxes [OF assms(1,2)] .
  then have start: "holds_boxes env (db_write_batch batch_new (sm_db st)) ?m" "carried ?m (\<lambda>_. None) ?m"
    by (simp_all add: holds_boxes_def db_get_write_batch carried_def)
  obtain x xs where blocks: "blocks = x # xs" using assms(3) by (cases blocks) auto
  obtain d batch where run: "batch_blocks env henv (sm_boxes st) blocks (parent_cumulative (sm_db st) (fb_header (fst x))) (\<lambda>_. None) batch_new = Inr (d, batch)"
      and boxes: "holds_boxes env (db_write_batch batch (sm_db st)) ?fold"
    using batch_blocks_ok [OF assms(1) holds start assms(4,6), of "sm_utxo st" "parent_cumulative (sm_db st) (fb_header (fst x))"]
    unfolding sm_boxes_def by blast
  have heights: "map fb_height (map fst blocks) = map (\<lambda>k. us_height (sm_utxo st) + 1 + of_nat k) [0..<length (map fst blocks)]"
    using assms(5) by (simp add: comp_def)
  have contiguous: "non_contiguous (us_height (sm_utxo st) + 1) (map (\<lambda>b. fb_height (fst b)) blocks) = None"
    using non_contiguous_None [OF heights] by (simp add: comp_def)
  have ends: "fb_height (fst x) = us_height (sm_utxo st) + 1" "fb_height (fst (last blocks)) = us_height (sm_utxo st) + of_nat (length blocks)"
  proof -
    show "fb_height (fst x) = us_height (sm_utxo st) + 1"
      using arg_cong [OF assms(5), of hd] by (simp add: blocks upt_conv_Cons del: upt_Suc)
    have "last (map (\<lambda>x. fb_height (fst x)) blocks) = us_height (sm_utxo st) + of_nat (length blocks)"
      unfolding assms(5) by (simp add: blocks)
    then show "fb_height (fst (last blocks)) = us_height (sm_utxo st) + of_nat (length blocks)"
      by (simp add: last_map assms(3))
  qed
  obtain db' where seq: "apply_changes env (map snd blocks) (sm_boxes st) =
        (Inr (), db', (sm_utxo st)\<lparr>us_height := us_height (sm_utxo st) + of_nat (length blocks)\<rparr>)"
      and seq_boxes: "holds_boxes env db' ?fold"
    using apply_changes_rollback [OF assms(1) holds assms(4)] assms(7) by (auto simp: sm_boxes_def)
  define st' where "st' = snd (apply_blocks_batched env henv blocks st)"
  have "\<exists>selection. apply_blocks_batched env henv blocks st = (Inr selection, st')"
    by (simp add: st'_def apply_blocks_batched_def blocks run [unfolded blocks] contiguous [unfolded blocks] ends(1) Let_def del: batch_blocks.simps non_contiguous.simps list.map)
  moreover have "holds_boxes env (sm_db st') ?fold" "us_height (sm_utxo st') = us_height (sm_utxo st) + of_nat (length blocks)"
    using boxes ends(2)
    by (simp_all add: st'_def apply_blocks_batched_def blocks run [unfolded blocks] contiguous [unfolded blocks] ends(1) Let_def
        update_height_in_memory_def holds_boxes_metadata del: batch_blocks.simps non_contiguous.simps list.map)
  ultimately show ?thesis
    using seq holds_boxes_view(2) [OF assms(1)] seq_boxes by fastforce
qed

theorem batched_blocks_as_sequential_witness:
  "\<exists>selection st' db' us'. apply_blocks_batched plain_env demo_env
       [(demo_block, \<lparr>sc_created = [plain_entry [7, 1]], sc_spent = []\<rparr>),
        (demo_block\<lparr>fb_header := demo_header\<lparr>hd_height := 2\<rparr>\<rparr>, \<lparr>sc_created = [plain_entry [8, 1]], sc_spent = [[7]]\<rparr>)]
       (state_manager_new db_empty) = (Inr selection, st')
     \<and> apply_changes plain_env [\<lparr>sc_created = [plain_entry [7, 1]], sc_spent = []\<rparr>, \<lparr>sc_created = [plain_entry [8, 1]], sc_spent = [[7]]\<rparr>]
       (db_empty, utxo_new) = (Inr (), db', us')
     \<and> utxo_view plain_env (sm_db st') = utxo_view plain_env db' \<and> us_height (sm_utxo st') = us_height us'"
proof -
  have "fresh_changes plain_env [\<lparr>sc_created = [plain_entry [7, 1]], sc_spent = []\<rparr>,
       \<lparr>sc_created = [plain_entry [8, 1]], sc_spent = [[7]]\<rparr>] (utxo_view plain_env db_empty)"
    using plain_entry_ok [of "[7, 1]"] plain_entry_ok [of "[8, 1]"]
    by (simp add: utxo_view_empty change_ok_def fresh_change_def spec_apply_def created_in_block_def be_box_id_def
      plain_env_def plain_entry_def)
  then show ?thesis
    using batched_blocks_as_sequential [OF plain_env_ok, of "state_manager_new db_empty"
        "[(demo_block, \<lparr>sc_created = [plain_entry [7, 1]], sc_spent = []\<rparr>),
          (demo_block\<lparr>fb_header := demo_header\<lparr>hd_height := 2\<rparr>\<rparr>, \<lparr>sc_created = [plain_entry [8, 1]], sc_spent = [[7]]\<rparr>)]" demo_env]
    by (simp add: state_manager_new_def manager_with_verification_def utxo_wf_empty sm_boxes_def utxo_new_def fb_height_def
        demo_block_def demo_header_def block_serializable_def demo_env_def bt_with_version_def)
qed

subsection \<open>A restart reads back what is in memory\<close>

text \<open>
  History and set of boxes keep their fields in memory and in the metadata of one database, each
  under keys of its own. An operation of one leaves the keys of the other alone.
\<close>

definition utxo_keys :: "string set" where
  "utxo_keys = {''utxo_height'', ''state_root''}"

lemma utxo_keys_disjoint: "utxo_keys \<inter> history_keys = {}"
  by (simp add: utxo_keys_def history_keys_def)

definition utxo_persisted :: "database \<times> utxo_state \<Rightarrow> bool" where
  "utxo_persisted u \<longleftrightarrow> us_height (utxo_init_from_storage (fst u)) = us_height (snd u)
     \<and> us_state_root (utxo_init_from_storage (fst u)) = us_state_root (snd u)"

lemma utxo_persisted_iff:
  "utxo_persisted (db, us) \<longleftrightarrow> meta_u32 db ''utxo_height'' 0 = us_height us
     \<and> (case meta_get db ''state_root'' of None \<Rightarrow> replicate 32 0 | Some r \<Rightarrow> r) = us_state_root us"
  by (auto simp: utxo_persisted_def utxo_init_from_storage_def meta_u32_def meta_get_def utxo_new_def Let_def split: option.splits)

lemma utxo_persisted_cong: "utxo_persisted (db, us) \<Longrightarrow> same_meta utxo_keys db db' \<Longrightarrow> utxo_persisted (db', us)"
  by (simp add: utxo_persisted_iff same_meta_def utxo_keys_def meta_u32_def)

lemma utxo_persisted_height:
  assumes "utxo_persisted (db, us)" "meta_get db' ''utxo_height'' = Some (be_u32 h)" "meta_get db' ''state_root'' = meta_get db ''state_root''"
  shows "utxo_persisted (db', us\<lparr>us_height := h\<rparr>)"
  using assms meta_u32_of [OF assms(2)] by (simp add: utxo_persisted_iff)

lemma spend_loop_meta:
  "spend_loop env db lookup skip ids acc = Inr acc' \<Longrightarrow> batch_lookup (fst acc') CF_Metadata k = batch_lookup (fst acc) CF_Metadata k"
  by (induction ids arbitrary: acc) (auto simp: res_simps lookup_unindex_box split: option.splits if_splits)

lemma create_loop_meta:
  "create_loop env db skip es acc = Inr acc' \<Longrightarrow> batch_lookup (fst acc') CF_Metadata k = batch_lookup (fst acc) CF_Metadata k"
  by (induction es arbitrary: acc) (auto simp: res_simps lookup_index_box Let_def split: if_splits)

lemma unmake_loop_meta:
  "unmake_loop env db ids b = Inr b' \<Longrightarrow> batch_lookup b' CF_Metadata k = batch_lookup b CF_Metadata k"
  by (induction ids arbitrary: b) (auto simp: res_simps lookup_unindex_box Let_def split: option.splits)

lemma add_change_meta:
  assumes "add_change env db lookup skip ch h b = Inr b'"
  shows "batch_lookup b' CF_Metadata k = (if k = bstr ''utxo_height'' then Some (Some (be_u32 h)) else batch_lookup b CF_Metadata k)"
  using assms by (auto simp: add_change_def res_simps dest!: spend_loop_meta [where k = k] create_loop_meta [where k = k])

lemma add_change_meta_free:
  assumes "add_change env db lookup skip ch h b = Inr b'" "''utxo_height'' \<notin> keys"
  shows "meta_free keys b' = meta_free keys b"
  using assms(2) by (auto simp: meta_free_def add_change_meta [OF assms(1)])

lemma apply_change_persisted:
  assumes "utxo_persisted u"
  shows "utxo_persisted (snd (apply_change env ch h u)) \<and> same_meta history_keys (fst u) (fst (snd (apply_change env ch h u)))"
proof -
  obtain db us where u: "u = (db, us)" by (cases u)
  show ?thesis
  proof (cases "add_change env db (get_box env db) (us_sync_mode us) ch h batch_new")
    case (Inl e)
    then show ?thesis using assms by (simp add: u apply_change_def)
  next
    case (Inr b)
    note meta = add_change_meta [OF Inr]
    have "meta_free history_keys b"
      using add_change_meta_free [OF Inr, of history_keys] by (simp add: history_keys_def)
    moreover have "utxo_persisted (db_write_batch b db, us\<lparr>us_height := h\<rparr>)"
      using assms by (auto intro!: utxo_persisted_height [of db] simp: u meta_get_def db_get_write_batch meta)
    ultimately show ?thesis
      using Inr by (simp add: u apply_change_def same_meta_write)
  qed
qed

lemma apply_change_with_proof_persisted:
  assumes "utxo_persisted u"
  shows "utxo_persisted (snd (apply_change_with_proof env penv ch h p u))
     \<and> same_meta history_keys (fst u) (fst (snd (apply_change_with_proof env penv ch h p u)))"
proof -
  obtain r db us where run: "apply_change env ch h u = (r, db, us)" by (metis prod.exhaust)
  have ok: "utxo_persisted (db, us)" "same_meta history_keys (fst u) db"
    using apply_change_persisted [OF assms, of env ch h] by (simp_all add: run)
  let ?db = "\<lambda>root. db_write_batch (batch_put CF_Metadata (bstr ''state_root'') root batch_new) db"
  have "utxo_persisted (?db root, us\<lparr>us_state_root := root\<rparr>)" for root
    using ok(1) by (simp add: utxo_persisted_iff meta_u32_def meta_get_def db_get_write_batch)
  moreover have "same_meta history_keys (fst u) (?db root)" for root
    using ok(2) by (rule same_meta_trans) (auto intro!: same_meta_write simp: meta_free_def history_keys_def)
  ultimately show ?thesis
    using assms ok by (auto simp: apply_change_with_proof_def run split: sum.split option.split prod.split)
qed

lemma rollback_one_block_meta: "same_meta keys db (snd (rollback_one_block env h db))"
proof -
  have "meta_free keys (batch_delete CF_UndoData (be_u32 h) b2)"
    if "unmake_loop env db ids batch_new = Inr b1" "create_loop env db skip es (b1, []) = Inr (b2, acc)" for ids b1 skip es b2 acc
    using unmake_loop_meta [OF that(1)] create_loop_meta [OF that(2)] by (simp add: meta_free_def)
  then show ?thesis
    by (auto simp: rollback_one_block_def res_simps intro!: same_meta_write split: option.split sum.split)
qed

lemma rollback_loop_meta: "same_meta keys db (snd (rollback_loop env n h db))"
proof (induction n arbitrary: h db)
  case (Suc n)
  obtain r db1 where run: "rollback_one_block env h db = (r, db1)" by fastforce
  then show ?case
    using Suc.IH same_meta_trans rollback_one_block_meta [of keys db env h]
    by (cases r) (auto simp: run)
qed simp

lemma utxo_rollback_persisted:
  assumes "utxo_persisted u"
  shows "utxo_persisted (snd (utxo_rollback env h u)) \<and> same_meta history_keys (fst u) (fst (snd (utxo_rollback env h u)))"
proof -
  obtain db us where u: "u = (db, us)" by (cases u)
  obtain r db1 where run: "rollback_loop env (unat (us_height us) - unat h) (us_height us) db = (r, db1)" by fastforce
  have same: "same_meta keys db db1" for keys
    using rollback_loop_meta [of keys db env "unat (us_height us) - unat h" "us_height us"] by (simp add: run)
  let ?db = "db_write_batch (batch_put CF_Metadata (bstr ''utxo_height'') (be_u32 h) batch_new) db1"
  have "utxo_persisted (?db, us\<lparr>us_height := h\<rparr>)"
    using assms same [of utxo_keys]
    by (intro utxo_persisted_height [of db]) (simp_all add: u meta_get_def db_get_write_batch same_meta_def utxo_keys_def)
  moreover have "same_meta history_keys db ?db"
    using same by (rule same_meta_trans) (auto intro!: same_meta_write simp: meta_free_def history_keys_def)
  ultimately show ?thesis
    using assms run same utxo_persisted_cong [of db us db1] by (auto simp: u utxo_rollback_def Let_def split: sum.split)
qed

text \<open>The whole manager: both parts are those that the database holds.\<close>

definition manager_persisted :: "manager \<Rightarrow> bool" where
  "manager_persisted st \<longleftrightarrow> persisted (sm_hist st) \<and> utxo_persisted (sm_boxes st)"

lemma manager_put_hist:
  assumes "manager_persisted st" "persisted h" "same_meta utxo_keys (sm_db st) (fst h)"
  shows "manager_persisted (sm_put_hist h st)"
  using assms utxo_persisted_cong [of "sm_db st" "sm_utxo st" "fst h"]
  by (simp add: manager_persisted_def sm_hist_def sm_put_hist_def sm_boxes_def)

lemma manager_put_boxes:
  assumes "manager_persisted st" "utxo_persisted u \<and> same_meta history_keys (sm_db st) (fst u)"
  shows "manager_persisted (sm_put_boxes u st)"
  using assms persisted_cong [of "sm_db st" "sm_history st" "fst u"]
  by (simp add: manager_persisted_def sm_hist_def sm_put_boxes_def sm_boxes_def)

lemma manager_boxes: "manager_persisted st \<Longrightarrow> utxo_persisted (sm_boxes st)"
  by (simp add: manager_persisted_def)

lemma sm_boxes_fst [simp]: "fst (sm_boxes st) = sm_db st" "fst (sm_hist st) = sm_db st"
  by (simp_all add: sm_boxes_def sm_hist_def)

lemma manager_apply_change:
  "manager_persisted st \<Longrightarrow> manager_persisted (sm_put_boxes (snd (apply_change env ch h (sm_boxes st))) st)"
  using apply_change_persisted [OF manager_boxes, of st env ch h] by (simp add: manager_put_boxes)

lemma manager_rollback: "manager_persisted st \<Longrightarrow> manager_persisted (snd (rollback_to env h st))"
  using utxo_rollback_persisted [OF manager_boxes, of st env h] by (simp add: rollback_to_def case_prod_beta manager_put_boxes)

lemma manager_append_full_block:
  "manager_persisted st \<Longrightarrow> length (fb_id b) = 32 \<Longrightarrow> manager_persisted (sm_put_hist (snd (append_full_block henv b (sm_hist st))) st)"
  using same_meta_append_full_block [OF utxo_keys_disjoint, of "sm_hist st" henv b]
  by (intro manager_put_hist persisted_append_full_block) (simp_all add: manager_persisted_def)

lemma manager_apply_block:
  assumes "manager_persisted st" "length (fb_id b) = 32"
  shows "manager_persisted (snd (apply_block env henv b ch st))"
proof -
  obtain r h1 where h: "append_full_block henv b (sm_hist st) = (r, h1)"
    by (cases "append_full_block henv b (sm_hist st)")
  let ?st1 = "sm_put_hist h1 st"
  obtain r2 u where u: "apply_change env ch (fb_height b) (sm_boxes ?st1) = (r2, u)"
    by (cases "apply_change env ch (fb_height b) (sm_boxes ?st1)")
  let ?st2 = "sm_put_boxes u ?st1"
  have 1: "manager_persisted ?st1"
    using manager_append_full_block [OF assms, of henv] by (simp add: h)
  then have 2: "manager_persisted ?st2"
    using manager_apply_change [of ?st1 env ch "fb_height b"] by (simp add: u)
  then have "manager_persisted (snd (rollback_to env (us_height (sm_utxo st)) ?st2))"
    by (rule manager_rollback)
  with 1 2 have "manager_persisted (snd (apply_block env henv b ch st))" if height: "fb_height b = us_height (sm_utxo st) + 1"
    using assms(1) u by (auto simp: apply_block_def Let_def h height split: sum.split option.split)
  with assms(1) show ?thesis by (cases "fb_height b = us_height (sm_utxo st) + 1") (simp_all add: apply_block_def Let_def)
qed

lemma batch_blocks_meta:
  "batch_blocks env henv u blocks d boxes batch = Inr (d', batch') \<Longrightarrow>
     (''utxo_height'' \<notin> keys \<longrightarrow> meta_free keys batch' = meta_free keys batch)
     \<and> (blocks \<noteq> [] \<longrightarrow> batch_lookup batch' CF_Metadata (bstr ''utxo_height'') = Some (Some (be_u32 (fb_height (fst (last blocks))))))"
proof (induction blocks arbitrary: d boxes batch)
  case (Cons x rest)
  obtain block ch where x: "x = (block, ch)" by (cases x)
  obtain d1 batch1 batch2 where 1: "add_block_to_batch henv block d batch = Inr (d1, batch1)"
    and 2: "add_change_to_batch_with_context env ch (fb_height block) boxes u batch1 = Inr batch2"
    and rest: "batch_blocks env henv u rest d1 (carry_boxes env ch boxes) batch2 = Inr (d', batch')"
    using Cons.prems by (auto simp: x res_simps)
  obtain db us where u: "u = (db, us)" by (cases u)
  note add = 2 [unfolded add_change_to_batch_with_context_def u prod.case]
  show ?case
    using Cons.IH [OF rest] meta_free_add_block [OF 1, of keys] add_change_meta_free [OF add, of keys] add_change_meta [OF add] rest
    by (auto simp: x)
qed simp

lemma update_in_memory_finalize:
  "snd (finalize_block_batch batch i height d (db, hy)) =
     (db_write_batch (if hy_best_full_block_height hy < height
        then put_best_full_block i height (if hy_best_cumulative_difficulty hy < d then put_best_header i height d batch else batch)
        else if hy_best_cumulative_difficulty hy < d then put_best_header i height d batch else batch) db,
      update_in_memory_state i height d hy)"
  by (simp add: finalize_block_batch_def update_in_memory_state_def Let_def set_best_header_def)

lemma meta_get_finalize:
  assumes "key \<notin> history_keys"
  shows "meta_get (fst (snd (finalize_block_batch batch i height d s))) key = meta_get (db_write_batch batch (fst s)) key"
  using assms
  by (simp add: finalize_block_batch_def Let_def meta_get_def db_get_write_batch put_best_header_def put_best_full_block_def history_keys_def)

lemma manager_apply_blocks_batched:
  assumes "manager_persisted st" "\<forall>x \<in> set blocks. length (fb_id (fst x)) = 32"
  shows "manager_persisted (snd (apply_blocks_batched env henv blocks st))"
proof (cases "blocks = [] \<or> snd (apply_blocks_batched env henv blocks st) = st")
  case True
  then show ?thesis using assms(1) by (auto simp: apply_blocks_batched_def)
next
  case False
  then obtain x xs where blocks: "blocks = x # xs" by (cases blocks) auto
  define b where "b = fst (last blocks)"
  obtain d batch where run: "batch_blocks env henv (sm_boxes st) blocks (parent_cumulative (sm_db st) (fb_header (fst x))) (\<lambda>_. None) batch_new = Inr (d, batch)"
    using False by (fastforce simp: blocks apply_blocks_batched_def Let_def split: if_splits option.splits sum.splits)
  define h where "h = snd (finalize_block_batch batch (fb_id b) (fb_height b) d (sm_db st, sm_history st))"
  have st': "snd (apply_blocks_batched env henv blocks st) =
      st\<lparr>sm_db := fst h, sm_history := snd h, sm_utxo := update_height_in_memory (fb_height b) (sm_utxo st)\<rparr>"
    using False run by (auto simp: blocks h_def b_def update_in_memory_finalize apply_blocks_batched_def Let_def split: option.splits if_splits)
  have meta: "meta_free history_keys batch" "meta_free {''state_root''} batch"
      "batch_lookup batch CF_Metadata (bstr ''utxo_height'') = Some (Some (be_u32 (fb_height b)))"
    using batch_blocks_meta [OF run] by (simp_all add: history_keys_def b_def blocks)
  have "length (fb_id b) = 32"
    using assms(2) last_in_set [of blocks] by (simp add: blocks b_def)
  then have "persisted h"
    using assms(1) meta(1) unfolding h_def by (intro persisted_finalize) (simp_all add: manager_persisted_def sm_hist_def)
  moreover have "meta_get (fst h) ''utxo_height'' = Some (be_u32 (fb_height b))"
      "meta_get (fst h) ''state_root'' = meta_get (sm_db st) ''state_root''"
    using meta(2,3) unfolding h_def
    by (subst meta_get_finalize; simp add: history_keys_def meta_get_def db_get_write_batch meta_free_def)+
  then have "utxo_persisted (fst h, update_height_in_memory (fb_height b) (sm_utxo st))"
    using manager_boxes [OF assms(1)] unfolding update_height_in_memory_def sm_boxes_def by (intro utxo_persisted_height)
  ultimately show ?thesis
    by (simp add: st' manager_persisted_def sm_hist_def sm_boxes_def)
qed

text \<open>
  The states a manager goes through. Every operation of the manager is a step, whatever it returns,
  and so are those of its two parts that it does not call itself: the pruning and the mark of the
  history, a batch of blocks that is finalised directly, a change with a proof, the sync mode, and
  a restart. Identifiers have 32 bytes.
\<close>

inductive block_batch :: "('b, 'x) hist_env_scheme \<Rightarrow> write_batch \<Rightarrow> bool" for henv where
  empty: "block_batch henv batch_new"
| add: "block_batch henv batch \<Longrightarrow> add_block_to_batch henv b d batch = Inr (d', batch') \<Longrightarrow> block_batch henv batch'"

inductive manager_reachable :: "'b box_env \<Rightarrow> ('b, 'x) hist_env_scheme \<Rightarrow> 'p prover_env \<Rightarrow> manager \<Rightarrow> bool" for env henv penv where
  start: "manager_reachable env henv penv ((manager_with_verification db_empty v)\<lparr>sm_history := history_new keep\<rparr>)"
| restart: "manager_reachable env henv penv st \<Longrightarrow> manager_init env henv (sm_db st) = Some (Inr st') \<Longrightarrow>
    manager_reachable env henv penv st'"
| header: "manager_reachable env henv penv st \<Longrightarrow> length (hd_id h) = 32 \<Longrightarrow>
    manager_reachable env henv penv (snd (apply_header henv h st))"
| header_with_bytes: "manager_reachable env henv penv st \<Longrightarrow> length (hd_id h) = 32 \<Longrightarrow>
    manager_reachable env henv penv (snd (apply_header_with_bytes henv h raw st))"
| headers: "manager_reachable env henv penv st \<Longrightarrow> \<forall>x \<in> set hs. length (hd_id (fst x)) = 32 \<Longrightarrow>
    manager_reachable env henv penv (snd (apply_headers_batched henv hs st))"
| block: "manager_reachable env henv penv st \<Longrightarrow> length (fb_id b) = 32 \<Longrightarrow>
    manager_reachable env henv penv (snd (apply_block env henv b ch st))"
| blocks: "manager_reachable env henv penv st \<Longrightarrow> \<forall>x \<in> set bs. length (fb_id (fst x)) = 32 \<Longrightarrow>
    manager_reachable env henv penv (snd (apply_blocks_batched env henv bs st))"
| change: "manager_reachable env henv penv st \<Longrightarrow> manager_reachable env henv penv (snd (apply_state_change env ch h st))"
| rollback: "manager_reachable env henv penv st \<Longrightarrow> manager_reachable env henv penv (snd (rollback_to env h st))"
| verification: "manager_reachable env henv penv st \<Longrightarrow> manager_reachable env henv penv (set_verification_mode v st)"
| parameters: "manager_reachable env henv penv st \<Longrightarrow>
    manager_reachable env henv penv (update_parameters_for_height_range henv h1 h2 st)"
| full_block: "manager_reachable env henv penv st \<Longrightarrow> length (fb_id b) = 32 \<Longrightarrow>
    manager_reachable env henv penv (sm_put_hist (snd (append_full_block henv b (sm_hist st))) st)"
| finalized: "manager_reachable env henv penv st \<Longrightarrow> block_batch henv batch \<Longrightarrow> length i = 32 \<Longrightarrow>
    manager_reachable env henv penv (sm_put_hist (snd (finalize_block_batch batch i h d (sm_hist st))) st)"
| synced: "manager_reachable env henv penv st \<Longrightarrow>
    manager_reachable env henv penv (sm_put_hist (set_headers_chain_synced flag (sm_hist st)) st)"
| prune: "manager_reachable env henv penv st \<Longrightarrow>
    manager_reachable env henv penv (sm_put_hist (snd (update_best_full_block_pruning henv hdr (sm_hist st))) st)"
| proved_change: "manager_reachable env henv penv st \<Longrightarrow>
    manager_reachable env henv penv (sm_put_boxes (snd (apply_change_with_proof env penv ch h prover (sm_boxes st))) st)"
| sync_mode: "manager_reachable env henv penv st \<Longrightarrow>
    manager_reachable env henv penv (st\<lparr>sm_utxo := utxo_set_sync_mode flag (sm_utxo st)\<rparr>)"

lemma block_batch_meta_free: "block_batch henv batch \<Longrightarrow> meta_free keys batch"
  by (induction rule: block_batch.induct) (simp_all add: meta_free_add_block)

lemma manager_persisted_cong:
  assumes "manager_persisted st" "sm_db st' = sm_db st" "sm_history st' = sm_history st"
    and "us_height (sm_utxo st') = us_height (sm_utxo st)" "us_state_root (sm_utxo st') = us_state_root (sm_utxo st)"
  shows "manager_persisted st'"
  using assms by (simp add: manager_persisted_def sm_hist_def sm_boxes_def utxo_persisted_def)

lemma manager_hist_step:
  assumes "manager_persisted st" "persisted (sm_hist st) \<Longrightarrow> persisted h" "same_meta utxo_keys (sm_db st) (fst h)"
  shows "manager_persisted (sm_put_hist h st)"
  using assms by (intro manager_put_hist) (auto simp: manager_persisted_def)

lemma manager_parameters:
  "manager_persisted st \<Longrightarrow> manager_persisted (update_parameters_for_height_range henv h1 h2 st)"
proof -
  have step: "manager_persisted (update_parameters_from_block b s)" if "manager_persisted s" for b :: "'a full_block" and s
    using that by (auto simp: update_parameters_from_block_def intro: manager_persisted_cong)
  have "manager_persisted (fold (\<lambda>height s.
       if is_epoch_boundary height
       then (case block_at henv (sm_db s) height of Some b \<Rightarrow> update_parameters_from_block b s | None \<Rightarrow> s)
       else s) hs st)" if "manager_persisted st" for hs st
    using that by (induction hs arbitrary: st) (simp_all add: step split: option.split)
  then show "manager_persisted st \<Longrightarrow> manager_persisted (update_parameters_for_height_range henv h1 h2 st)"
    by (simp add: update_parameters_for_height_range_def)
qed

lemma manager_restart:
  assumes "manager_init env henv db = Some (Inr st')"
  shows "manager_persisted st'"
proof -
  define st where "st = (state_manager_new db)\<lparr>sm_utxo := utxo_init_from_storage db, sm_history := history_init db (- 1)\<rparr>"
  have st: "manager_persisted st"
    by (simp add: st_def manager_persisted_def sm_hist_def sm_boxes_def state_manager_new_def manager_with_verification_def
        persisted_init utxo_persisted_def)
  obtain r st1 where run: "check_and_recover env henv st = (r, st1)"
    by (cases "check_and_recover env henv st")
  have "manager_persisted (snd (check_and_recover env henv st))"
    using st by (simp add: check_and_recover_def Let_def manager_rollback del: find_good_height.simps split: sum.split option.split)
  then have "manager_persisted st1" by (simp add: run)
  moreover have "init_parameters_from_storage henv st1 = Some st'"
    using assms run unfolding manager_init_def st_def [symmetric] by (auto split: sum.splits)
  ultimately show ?thesis
    by (auto simp: init_parameters_from_storage_def Let_def split: if_splits intro: manager_persisted_cong)
qed

lemma manager_reachable_persisted: "manager_reachable env henv penv st \<Longrightarrow> manager_persisted st"
proof (induction rule: manager_reachable.induct)
  case (start v keep)
  then show ?case
    by (simp add: manager_persisted_def sm_hist_def sm_boxes_def manager_with_verification_def persisted_start
        utxo_persisted_iff meta_u32_def utxo_new_def)
next
  case (restart st st')
  then show ?case using manager_restart by blast
next
  case (header st h)
  then show ?case
    by (simp add: apply_header_def on_history_def append_header_def manager_hist_step persisted_append_header
        same_meta_append_header [OF utxo_keys_disjoint, of "sm_hist st", simplified])
next
  case (header_with_bytes st h raw)
  then show ?case
    by (simp add: apply_header_with_bytes_def on_history_def append_header_with_bytes_def manager_hist_step persisted_append_header
        same_meta_append_header [OF utxo_keys_disjoint, of "sm_hist st", simplified])
next
  case (headers st hs)
  then show ?case
    by (simp add: apply_headers_batched_def on_history_def manager_hist_step persisted_append_headers_batched
        same_meta_append_headers_batched [OF utxo_keys_disjoint, of hs "sm_hist st", simplified])
next
  case (change st ch h)
  then show ?case by (simp add: apply_state_change_def case_prod_beta manager_apply_change)
next
  case (verification st v)
  then show ?case by (auto simp: set_verification_mode_def intro: manager_persisted_cong)
next
  case (finalized st batch i h d)
  then show ?case
    by (simp add: manager_hist_step persisted_finalize block_batch_meta_free
        same_meta_finalize [OF utxo_keys_disjoint, of _ "sm_hist st", simplified])
next
  case (synced st flag)
  then show ?case
    by (simp add: manager_hist_step persisted_set_synced same_meta_set_synced [OF utxo_keys_disjoint, of "sm_hist st", simplified])
next
  case (prune st hdr)
  then show ?case
    by (simp add: manager_hist_step persisted_prune same_meta_prune [OF utxo_keys_disjoint, of "sm_hist st", simplified])
next
  case (proved_change st ch h prover)
  then show ?case
    using apply_change_with_proof_persisted [OF manager_boxes, of st env penv ch h prover] by (simp add: manager_put_boxes)
next
  case (sync_mode st flag)
  then show ?case by (auto simp: utxo_set_sync_mode_def intro: manager_persisted_cong)
qed (simp_all add: manager_apply_block manager_apply_blocks_batched manager_rollback manager_parameters manager_append_full_block)

text \<open>C7: whatever a manager went through, headers and blocks one by one or in batches, changes of the set
  of boxes, rollbacks, pruning, synchronisation marks and earlier restarts, also when some of them
  failed, a restart reads back exactly the fields that the history held in memory, and the height
  and the root of the set of boxes.\<close>

theorem history_survives_restart:
  assumes "manager_reachable env henv penv st"
  shows "history_init (sm_db st) (hy_blocks_to_keep (sm_history st)) = sm_history st
     \<and> us_height (utxo_init_from_storage (sm_db st)) = us_height (sm_utxo st)
     \<and> us_state_root (utxo_init_from_storage (sm_db st)) = us_state_root (sm_utxo st)"
  using manager_reachable_persisted [OF assms]
  by (simp add: manager_persisted_def persisted_def utxo_persisted_def sm_hist_def sm_boxes_def)

text \<open>A run with a batch of one block, then a block of the wrong height.\<close>

definition demo_run :: manager where
  "demo_run = snd (apply_block plain_env demo_env demo_block \<lparr>sc_created = [], sc_spent = []\<rparr>
     (snd (apply_blocks_batched plain_env demo_env [(demo_block, \<lparr>sc_created = [plain_entry [7, 1]], sc_spent = []\<rparr>)]
       (manager_with_verification db_empty VEnforce))))"

theorem history_survives_restart_witness:
  "history_init (sm_db demo_run) (hy_blocks_to_keep (sm_history demo_run)) = sm_history demo_run
     \<and> us_height (utxo_init_from_storage (sm_db demo_run)) = us_height (sm_utxo demo_run)"
proof -
  have start: "manager_reachable plain_env demo_env penv (manager_with_verification db_empty VEnforce)" for penv :: "unit prover_env"
    using manager_reachable.start [of plain_env demo_env penv "- 1" VEnforce] by (simp add: manager_with_verification_def)
  have "length (fb_id demo_block) = 32"
    by (simp add: demo_block_def demo_header_def fb_id_def)
  then have "manager_reachable plain_env demo_env penv demo_run" for penv :: "unit prover_env"
    unfolding demo_run_def by (intro manager_reachable.block manager_reachable.blocks start) simp_all
  from history_survives_restart [OF this] show ?thesis by simp
qed

subsection \<open>Where history and set part ways\<close>

lemma append_full_block_stores:
  assumes "block_serializable henv b"
  shows "\<exists>selection db' hy'. append_full_block henv b (db, hy) = (Inr selection, (db', hy'))
     \<and> db_get db' CF_Utxo = db_get db CF_Utxo
     \<and> hy_best_full_block_id hy' = (if hy_best_full_block_height hy < fb_height b then Some (fb_id b) else hy_best_full_block_id hy)
     \<and> hy_best_full_block_height hy' = (if hy_best_full_block_height hy < fb_height b then fb_height b else hy_best_full_block_height hy)"
proof -
  obtain d batch where "add_block_to_batch henv b (parent_cumulative db (fb_header b)) batch_new = Inr (d, batch)"
      "\<forall>k. batch_lookup batch CF_Utxo k = batch_lookup batch_new CF_Utxo k"
    using add_block_to_batch_total [OF assms] by blast
  then show ?thesis
    by (simp add: append_full_block_def finalize_block_batch_def Let_def fun_eq_iff db_get_write_batch put_best_header_def
        put_best_full_block_def set_best_header_def set_best_full_block_def)
qed

text \<open>C17: a block whose change spends a box that does not exist is rejected by \<open>apply_block\<close>, but only after
  the history has stored it: the set of boxes and its height are as before, while the rejected block is
  the best full block.\<close>

theorem failed_block_becomes_best_full_block:
  assumes "env_ok env" "utxo_wf env (sm_db st)" "block_serializable henv b"
    and "fb_height b = us_height (sm_utxo st) + 1" "hy_best_full_block_height (sm_history st) < fb_height b"
    and "find (\<lambda>i. utxo_view env (sm_db st) i = None) (sc_spent ch) = Some i"
  shows "\<exists>st'. apply_block env henv b ch st = (Inl (SE_BoxNotFound (hex_encode i)), st')
     \<and> hy_best_full_block_id (sm_history st') = Some (fb_id b) \<and> hy_best_full_block_height (sm_history st') = fb_height b
     \<and> utxo_view env (sm_db st') = utxo_view env (sm_db st) \<and> sm_utxo st' = sm_utxo st"
proof -
  obtain selection db' hy' where append: "append_full_block henv b (sm_db st, sm_history st) = (Inr selection, (db', hy'))"
      and utxo: "db_get db' CF_Utxo = db_get (sm_db st) CF_Utxo"
      and best: "hy_best_full_block_id hy' = Some (fb_id b)" "hy_best_full_block_height hy' = fb_height b"
    using append_full_block_stores [OF assms(3), of "sm_db st" "sm_history st"] assms(5) by auto
  have wf: "utxo_wf env db'" and view: "utxo_view env db' = utxo_view env (sm_db st)"
    using assms(2) utxo by (simp_all add: utxo_wf_def utxo_view_def get_box_def fun_eq_iff)
  have "find (\<lambda>i. get_box env db' i = Inr None) (sc_spent ch) = Some i"
    using assms(6) by (simp add: utxo_view_get [OF assms(1) wf] view)
  then have "add_change env db' (get_box env db') (us_sync_mode (sm_utxo st)) ch (fb_height b) batch_new = Inl (SE_BoxNotFound (hex_encode i))"
    by (rule add_change_missing) (simp add: utxo_view_get [OF assms(1) wf])
  then show ?thesis
    using append best view assms(4)
    by (simp add: apply_block_def Let_def sm_hist_def sm_put_hist_def sm_boxes_def sm_put_boxes_def apply_change_def)
qed

theorem failed_block_becomes_best_full_block_witness:
  "\<exists>st'. apply_block plain_env demo_env demo_block \<lparr>sc_created = [], sc_spent = [[7]]\<rparr> (state_manager_new db_empty)
       = (Inl (SE_BoxNotFound (hex_encode [7])), st')
     \<and> hy_best_full_block_id (sm_history st') = Some (replicate 32 9) \<and> us_height (sm_utxo st') = 0"
  using failed_block_becomes_best_full_block [OF plain_env_ok, of "state_manager_new db_empty" demo_env demo_block
      "\<lparr>sc_created = [], sc_spent = [[7]]\<rparr>" "[7]"]
  by (auto simp: state_manager_new_def manager_with_verification_def utxo_wf_empty utxo_view_empty utxo_new_def fb_height_def fb_id_def
      demo_block_def demo_header_def block_serializable_def demo_env_def bt_with_version_def history_new_def)

lemma utxo_rollback_Inr:
  assumes "utxo_rollback env h u = (Inr (), u')"
  shows "h < us_height (snd u)" "us_height (snd u') = h"
  using assms by (auto simp: utxo_rollback_def Let_def not_le split: prod.splits if_splits sum.splits)

text \<open>After a rollback of a synchronised node, the block of the new chain at the next height is applied,
  but the best full block stays the one that was rolled back, since only a greater height replaces it.\<close>

theorem rolled_back_block_stays_best:
  assumes "rollback_to env h st = (Inr (), st1)" "hy_best_full_block_height (sm_history st) = us_height (sm_utxo st)"
    and "apply_block env henv b ch st1 = (Inr selection, st2)"
  shows "fb_height b = h + 1 \<and> us_height (sm_utxo st2) = h + 1
     \<and> hy_best_full_block_id (sm_history st2) = hy_best_full_block_id (sm_history st)
     \<and> hy_best_full_block_height (sm_history st2) = hy_best_full_block_height (sm_history st)"
proof -
  obtain u where u: "utxo_rollback env h (sm_boxes st) = (Inr (), u)" "st1 = sm_put_boxes u st"
    using assms(1) by (auto simp: rollback_to_def split: prod.splits)
  have h: "h < us_height (sm_utxo st)" "us_height (sm_utxo st1) = h" and hy: "sm_history st1 = sm_history st"
    using utxo_rollback_Inr [OF u(1)] by (simp_all add: u(2) sm_boxes_def sm_put_boxes_def)
  have height: "fb_height b = h + 1"
    using assms(3) h(2) by (auto simp: apply_block_def Let_def split: if_splits)
  obtain sel db' hy' where append: "append_full_block henv b (sm_db st1, sm_history st1) = (Inr sel, (db', hy'))"
    using assms(3) height h(2)
    by (auto simp: apply_block_def Let_def sm_hist_def split: prod.splits sum.splits)
  have "\<not> us_height (sm_utxo st) < h + 1"
    using h(1) inc_le by (simp add: not_less)
  then have best: "hy_best_full_block_id hy' = hy_best_full_block_id (sm_history st)"
      "hy_best_full_block_height hy' = hy_best_full_block_height (sm_history st)"
    using append assms(2) height hy
    by (auto simp: append_full_block_def finalize_block_batch_def Let_def set_best_header_def split: sum.splits if_splits)
  obtain db2 us2 where "apply_change env ch (fb_height b) (db', sm_utxo st1) = (Inr (), db2, us2)"
    using assms(3) height h(2) append
    by (auto simp: apply_block_def Let_def sm_hist_def sm_put_hist_def sm_boxes_def split: prod.splits sum.splits)
  moreover from this have "us_height us2 = h + 1"
    by (auto simp: apply_change_def height split: sum.splits)
  ultimately show ?thesis
    using assms(3) height h(2) append best
    by (auto simp: apply_block_def Let_def sm_hist_def sm_put_hist_def sm_boxes_def sm_put_boxes_def split: if_splits option.splits)
qed

lemma demo_block_serializable: "block_serializable demo_env demo_block"
  by (simp add: block_serializable_def demo_env_def demo_block_def bt_with_version_def)

text \<open>A node at height 1 whose best full block is the block with identifier \<open>[1]\<close>.\<close>

definition at_height_1 :: manager where
  "at_height_1 = (sm_put_boxes (snd (apply_changes plain_env [\<lparr>sc_created = [], sc_spent = []\<rparr>] (db_empty, utxo_new))) (state_manager_new db_empty))
     \<lparr>sm_history := (history_new (- 1))\<lparr>hy_best_full_block_id := Some [1], hy_best_full_block_height := 1\<rparr>,
      sm_verification := VSkip\<rparr>"

theorem rolled_back_block_stays_best_witness:
  "\<exists>st1 selection st2. rollback_to plain_env 0 at_height_1 = (Inr (), st1)
     \<and> apply_block plain_env demo_env demo_block \<lparr>sc_created = [], sc_spent = []\<rparr> st1 = (Inr selection, st2)
     \<and> us_height (sm_utxo st2) = 1 \<and> hy_best_full_block_id (sm_history st2) = Some [1] \<and> fb_id demo_block = replicate 32 9"
proof -
  let ?ch = "\<lparr>sc_created = [], sc_spent = []\<rparr> :: bytes state_change"
  have empty: "holds_boxes plain_env db_empty (\<lambda>_. None)"
    using view_holds_boxes [OF plain_env_ok utxo_wf_empty] by (simp add: utxo_view_empty)
  have "fresh_changes plain_env [?ch] (\<lambda>_. None)"
    by (simp add: change_ok_def fresh_change_def)
  from apply_changes_rollback [OF plain_env_ok empty this, of utxo_new]
  obtain db' d' where run: "apply_changes plain_env [?ch] (db_empty, utxo_new) = (Inr (), db', utxo_new\<lparr>us_height := 1\<rparr>)"
      "rollback_loop plain_env 1 1 db' = (Inr (), d')" "holds_boxes plain_env d' (\<lambda>_. None)"
    by (auto simp: utxo_new_def)
  obtain st1 where roll: "rollback_to plain_env 0 at_height_1 = (Inr (), st1)" and boxes: "holds_boxes plain_env (sm_db st1) (\<lambda>_. None)"
      and st1: "sm_utxo st1 = utxo_new" "sm_history st1 = sm_history at_height_1" "sm_verification st1 = VSkip"
    using run by (simp add: at_height_1_def rollback_to_def utxo_rollback_def Let_def sm_boxes_def sm_put_boxes_def
        holds_boxes_def db_get_write_batch utxo_new_def del: rollback_loop.simps apply_changes.simps)
  obtain sel db1 hy1 where append: "append_full_block demo_env demo_block (sm_db st1, sm_history st1) = (Inr sel, (db1, hy1))"
      "db_get db1 CF_Utxo = db_get (sm_db st1) CF_Utxo"
    using append_full_block_stores [OF demo_block_serializable] by blast
  then have "holds_boxes plain_env db1 (\<lambda>_. None)"
    using boxes by (simp add: holds_boxes_def)
  then obtain db2 where "apply_change plain_env ?ch 1 (db1, utxo_new) = (Inr (), db2, utxo_new\<lparr>us_height := 1\<rparr>)"
    using apply_change_ok [OF plain_env_ok, of db1 "\<lambda>_. None" ?ch 1 utxo_new] by (auto simp: change_ok_def)
  then obtain st2 where applied: "apply_block plain_env demo_env demo_block ?ch st1 = (Inr sel, st2)"
    using append(1) st1 by (simp add: apply_block_def Let_def sm_hist_def sm_put_hist_def sm_boxes_def sm_put_boxes_def
        fb_height_def demo_block_def demo_header_def utxo_new_def)
  show ?thesis
    using rolled_back_block_stays_best [OF roll _ applied] roll applied run(1)
    by (auto simp: at_height_1_def sm_put_boxes_def utxo_new_def history_new_def fb_id_def demo_block_def demo_header_def)
qed

end
