(* ===== verification/Mining.thy ===== *)
theory Mining
  imports Emission Difficulty Mempool State_Manager
begin

text \<open>
  Mining (\<open>crates/ergo-mining/src/\<close>): rewards (\<open>coinbase.rs\<close>), block candidates
  (\<open>candidate.rs\<close>), the solver of the proof of work (\<open>solver.rs\<close>), the nonces of a worker
  (\<open>worker.rs\<close>) and the miner that hands out candidates and takes solutions (\<open>miner.rs\<close>). The clock,
  the random numbers, the address decoder and the serialised form of a public key are arguments; the
  threads themselves and the select loop that waits for them are not modelled.
\<close>

datatype mining_error =
    NoRewardAddress
  | InvalidSolution string
  | CandidateFailed string
  | ME_State state_error
  | ME_Consensus consensus_error
  | ME_Mempool mempool_error

definition MAX_TRANSACTIONS_PER_BLOCK :: nat where "MAX_TRANSACTIONS_PER_BLOCK = 1000"

subsection \<open>Rewards\<close>

record emission_params =
  initial_reward :: u64
  blocks_per_year :: u32
  fixed_rate_years :: u32
  yearly_reduction :: u64
  min_reward :: u64

definition emission_params_default :: emission_params where
  "emission_params_default =
     \<lparr>initial_reward = 75 * 1000000000, blocks_per_year = 262800, fixed_rate_years = 2, yearly_reduction = 3 * 1000000000,
      min_reward = 3 * 1000000000\<rparr>"

text \<open>\<open>None\<close>: the division by a year without blocks panics.\<close>

definition reward_at_height :: "emission_params \<Rightarrow> u32 \<Rightarrow> u64 option" where
  "reward_at_height p height =
     (let fixed_blocks = fixed_rate_years p * blocks_per_year p in
      if height \<le> fixed_blocks then Some (initial_reward p)
      else if blocks_per_year p = 0 then None
      else let years_after_fixed = (height - fixed_blocks) div blocks_per_year p;
               reduction = ucast years_after_fixed * yearly_reduction p
           in Some (max (sat_sub_u64 (initial_reward p) reduction) (min_reward p)))"

datatype network_prefix = Mainnet | Testnet

record coinbase_builder =
  cb_reemission_rules :: reemission_rules
  cb_network :: network_prefix

text \<open>The settings of the main network, with its token identifiers as an argument.\<close>

definition coinbase_new :: "reemission_settings \<Rightarrow> network_prefix \<Rightarrow> coinbase_builder" where
  "coinbase_new mainnet network =
     \<lparr>cb_reemission_rules = rules_new (case network of Mainnet \<Rightarrow> mainnet | Testnet \<Rightarrow> settings_testnet), cb_network = network\<rparr>"

definition coinbase_with_reemission :: "reemission_settings \<Rightarrow> network_prefix \<Rightarrow> coinbase_builder" where
  "coinbase_with_reemission settings network = \<lparr>cb_reemission_rules = rules_new settings, cb_network = network\<rparr>"

record reward_box =
  rb_value :: u64
  rb_ergo_tree :: bytes
  rb_creation_height :: u32

text \<open>\<open>script_of\<close> decodes an address to its script, \<open>value_ok\<close> is the check of the box value; both with their error texts.\<close>

definition build_reward_box ::
  "(network_prefix \<Rightarrow> string \<Rightarrow> string + bytes) \<Rightarrow> (u64 \<Rightarrow> string option) \<Rightarrow> coinbase_builder \<Rightarrow> u32 \<Rightarrow> string \<Rightarrow> u64
     \<Rightarrow> mining_error + reward_box" where
  "build_reward_box script_of value_ok b height reward_address total_fees =
     (let block_reward = miner_reward_at_height (cb_reemission_rules b) height;
          total_reward = block_reward + total_fees
      in case script_of (cb_network b) reward_address of
           Inl e \<Rightarrow> Inl (CandidateFailed e)
         | Inr ergo_tree \<Rightarrow>
             (case value_ok total_reward of
                Some e \<Rightarrow> Inl (CandidateFailed (''Invalid box value: '' @ e))
              | None \<Rightarrow> Inr \<lparr>rb_value = total_reward, rb_ergo_tree = ergo_tree, rb_creation_height = height\<rparr>))"

definition calculate_reward :: "coinbase_builder \<Rightarrow> u32 \<Rightarrow> u64 \<Rightarrow> u64" where
  "calculate_reward b height total_fees = miner_reward_at_height (cb_reemission_rules b) height + total_fees"

definition calculate_total_reward :: "reemission_settings \<Rightarrow> u32 \<Rightarrow> u64 \<Rightarrow> u64" where
  "calculate_total_reward mainnet height total_fees = miner_reward_at_height (rules_new mainnet) height + total_fees"

definition block_reward_at_height :: "reemission_settings \<Rightarrow> u32 \<Rightarrow> u64" where
  "block_reward_at_height mainnet height = miner_reward_at_height (rules_new mainnet) height"

subsection \<open>Candidates\<close>

record block_candidate =
  bc_parent_id :: "bytes option"
  bc_height :: u32
  bc_timestamp :: u64
  bc_n_bits :: u32
  bc_transactions_root :: bytes
  bc_state_root :: bytes
  bc_extension_hash :: bytes
  bc_header_bytes :: bytes
  bc_transaction_ids :: "bytes list"
  bc_reward :: u64

record candidate_generator =
  cg_reward_address :: "string option"
  cg_cached_candidate :: "block_candidate option"

definition generator_new :: candidate_generator where
  "generator_new = \<lparr>cg_reward_address = None, cg_cached_candidate = None\<rparr>"

definition set_reward_address :: "string \<Rightarrow> candidate_generator \<Rightarrow> candidate_generator" where
  "set_reward_address address g = g\<lparr>cg_reward_address := Some address, cg_cached_candidate := None\<rparr>"

definition invalidate :: "candidate_generator \<Rightarrow> candidate_generator" where
  "invalidate g = g\<lparr>cg_cached_candidate := None\<rparr>"

text \<open>The headers of the last eight epochs that can be read; a height that cannot be read is left out.\<close>

definition headers_for_diff :: "('b, 'x) hist_env_scheme \<Rightarrow> database \<Rightarrow> u32 \<Rightarrow> header_for_difficulty list" where
  "headers_for_diff env db next_height =
     List.map_filter (\<lambda>height.
       case header_get_by_height env db (of_nat height) of
         Inr (Some h) \<Rightarrow> Some \<lparr>hfd_height = hd_height h, hfd_timestamp = hd_timestamp h, hfd_n_bits = hd_n_bits h\<rparr>
       | _ \<Rightarrow> None)
     [unat (sat_sub_u32 next_height (8 * 1024)) ..< unat next_height]"

text \<open>The epoch length of the calculator is not zero, so that it does not panic.\<close>

definition calculate_difficulty :: "('b, 'x) hist_env_scheme \<Rightarrow> database \<Rightarrow> u32 \<Rightarrow> u32" where
  "calculate_difficulty env db next_height =
     (let headers = headers_for_diff env db next_height in
      if headers = [] then GENESIS_N_BITS
      else case calculate_next_difficulty adjustment_new headers next_height of
             Some (Inr n_bits) \<Rightarrow> n_bits
           | _ \<Rightarrow> hfd_n_bits (last headers))"

definition compute_transactions_root :: "(bytes \<Rightarrow> bytes) \<Rightarrow> bytes list \<Rightarrow> bytes" where
  "compute_transactions_root blake tx_ids = (if tx_ids = [] then replicate 32 0 else blake (concat tx_ids))"

definition compute_extension_hash :: bytes where
  "compute_extension_hash = replicate 32 0"

text \<open>Exactly 32 bytes: cut, or filled with zeros.\<close>

definition to_32 :: "bytes \<Rightarrow> bytes" where
  "to_32 bs = (if 32 \<le> length bs then take 32 bs else bs @ replicate (32 - length bs) 0)"

definition serialize_header_for_mining :: "bytes option \<Rightarrow> u32 \<Rightarrow> u64 \<Rightarrow> u32 \<Rightarrow> bytes \<Rightarrow> bytes \<Rightarrow> bytes \<Rightarrow> bytes" where
  "serialize_header_for_mining parent_id height timestamp n_bits transactions_root state_root extension_hash =
     [2] @ (case parent_id of Some parent \<Rightarrow> parent | None \<Rightarrow> replicate 32 0)
     @ replicate 32 0
     @ to_32 state_root
     @ to_32 transactions_root
     @ be_u64 timestamp @ be_u32 n_bits @ be_u32 height
     @ to_32 extension_hash
     @ replicate 3 0"

definition generate :: "('b, 'x) hist_env_scheme \<Rightarrow> reemission_settings \<Rightarrow> u64 \<Rightarrow> manager \<Rightarrow> mempool \<Rightarrow> candidate_generator
    \<Rightarrow> (mining_error + block_candidate) \<times> candidate_generator" where
  "generate env mainnet now st mp g =
     (case cg_reward_address g of
        None \<Rightarrow> (Inl NoRewardAddress, g)
      | Some _ \<Rightarrow>
          let (_, header_height) = heights st;
              best_header = hy_best_header_id (sm_history st);
              state_root = us_state_root (sm_utxo st);
              new_height = header_height + 1;
              mempool_txs = get_by_fee mp MAX_TRANSACTIONS_PER_BLOCK;
              tx_ids = map ptx_id mempool_txs;
              total_fees = sum_list (map ptx_fee mempool_txs);
              total_reward = block_reward_at_height mainnet new_height + total_fees;
              n_bits = calculate_difficulty env (sm_db st) new_height;
              transactions_root = compute_transactions_root (blake_hash env) tx_ids;
              extension_hash = compute_extension_hash;
              header_bytes = serialize_header_for_mining best_header new_height now n_bits transactions_root state_root extension_hash;
              candidate = \<lparr>bc_parent_id = best_header, bc_height = new_height, bc_timestamp = now, bc_n_bits = n_bits,
                bc_transactions_root = transactions_root, bc_state_root = state_root, bc_extension_hash = extension_hash,
                bc_header_bytes = header_bytes, bc_transaction_ids = tx_ids, bc_reward = total_reward\<rparr>
          in (Inr candidate, g\<lparr>cg_cached_candidate := Some candidate\<rparr>))"

text \<open>The age of a cached candidate is a difference of words, which wraps when the clock went backwards.\<close>

definition get_or_generate :: "('b, 'x) hist_env_scheme \<Rightarrow> reemission_settings \<Rightarrow> u64 \<Rightarrow> manager \<Rightarrow> mempool \<Rightarrow> candidate_generator
    \<Rightarrow> (mining_error + block_candidate) \<times> candidate_generator" where
  "get_or_generate env mainnet now st mp g =
     (case cg_cached_candidate g of
        Some cached \<Rightarrow>
          if bc_height cached = snd (heights st) + 1 \<and> now - bc_timestamp cached < 30000 then (Inr cached, g)
          else generate env mainnet now st mp g
      | None \<Rightarrow> generate env mainnet now st mp g)"

subsection \<open>The solver\<close>

definition solver_k :: u32 where "solver_k = 32"

definition solver_msg :: "(bytes \<Rightarrow> bytes) \<Rightarrow> bytes \<Rightarrow> bytes \<Rightarrow> bytes" where
  "solver_msg blake header_bytes nonce = blake (header_bytes @ nonce)"

definition solver_seed :: "(bytes \<Rightarrow> bytes) \<Rightarrow> bytes \<Rightarrow> bytes \<Rightarrow> bytes" where
  "solver_seed blake msg pk = blake (msg @ pk)"

definition solver_indices :: "(bytes \<Rightarrow> bytes) \<Rightarrow> bytes \<Rightarrow> u32 \<Rightarrow> u32 list" where
  "solver_indices blake seed n =
     map (\<lambda>i. let h = blake (seed @ be_u32 (of_nat i)) in from_be_u32 (h ! 0) (h ! 1) (h ! 2) (h ! 3) mod n) [0..<unat solver_k]"

text \<open>The sum is accumulated in the loop.\<close>

definition solver_f_sum :: "(bytes \<Rightarrow> bytes) \<Rightarrow> u32 list \<Rightarrow> bytes \<Rightarrow> bytes \<Rightarrow> bytes" where
  "solver_f_sum blake indices msg pk =
     to_bytes_be (foldl (\<lambda>acc idx. acc + from_bytes_be (blake (be_u32 idx @ msg @ pk))) 0 indices)"

definition solver_hit :: "(bytes \<Rightarrow> bytes) \<Rightarrow> bytes \<Rightarrow> bytes" where
  "solver_hit blake f_sum = blake f_sum"

text \<open>A solution: the miner's key, given by the result of its serialisation, and the nonce.\<close>

record autolykos_solution =
  as_miner_pk :: "string + bytes"
  as_nonce :: bytes

definition try_nonce :: "(bytes \<Rightarrow> bytes) \<Rightarrow> bytes \<Rightarrow> bytes \<Rightarrow> nat \<Rightarrow> u32 \<Rightarrow> bytes \<Rightarrow> string + bytes \<Rightarrow> autolykos_solution option" where
  "try_nonce blake header_bytes nonce target n pk_bytes miner_pk =
     (let msg = solver_msg blake header_bytes nonce;
          seed = solver_seed blake msg pk_bytes;
          indices = solver_indices blake seed n;
          f_sum = solver_f_sum blake indices msg pk_bytes;
          hit = solver_hit blake f_sum
      in if from_bytes_be hit \<le> target then Some \<lparr>as_miner_pk = miner_pk, as_nonce = nonce\<rparr> else None)"

text \<open>The loops: the solution, if any, and the number of attempts added to the counter.\<close>

fun batch_loop :: "(u64 \<Rightarrow> autolykos_solution option) \<Rightarrow> u64 \<Rightarrow> nat \<Rightarrow> nat \<Rightarrow> (autolykos_solution \<times> nat) option" where
  "batch_loop try_at start_nonce offset 0 = None"
| "batch_loop try_at start_nonce offset (Suc n) =
     (case try_at (start_nonce + of_nat offset) of
        Some s \<Rightarrow> Some (s, offset + 1)
      | None \<Rightarrow> batch_loop try_at start_nonce (offset + 1) n)"

definition try_solve_batch ::
  "(bytes \<Rightarrow> bytes) \<Rightarrow> bytes \<Rightarrow> u32 \<Rightarrow> u32 \<Rightarrow> string + bytes \<Rightarrow> u64 \<Rightarrow> u64 \<Rightarrow> autolykos_solution option \<times> u64" where
  "try_solve_batch blake header_bytes n_bits height miner_pk start_nonce batch_size =
     (case miner_pk of
        Inl _ \<Rightarrow> (None, 0)
      | Inr pk_bytes \<Rightarrow>
          (case batch_loop (\<lambda>nonce. try_nonce blake header_bytes (be_u64 nonce) (nbits_to_target n_bits) (n_for_height height) pk_bytes miner_pk)
                  start_nonce 0 (unat batch_size) of
             Some (s, attempts) \<Rightarrow> (Some s, of_nat attempts)
           | None \<Rightarrow> (None, batch_size)))"

datatype solve_end = Cancelled | Exhausted | Found autolykos_solution nat

text \<open>The flag is looked at before every thousandth attempt; \<open>cancelled\<close> tells what it then says.\<close>

fun solve_loop :: "(u64 \<Rightarrow> autolykos_solution option) \<Rightarrow> (nat \<Rightarrow> bool) \<Rightarrow> u64 \<Rightarrow> nat \<Rightarrow> nat \<Rightarrow> solve_end" where
  "solve_loop try_at cancelled start_nonce attempt 0 = Exhausted"
| "solve_loop try_at cancelled start_nonce attempt (Suc n) =
     (if attempt mod 1000 = 0 \<and> cancelled attempt then Cancelled
      else case try_at (start_nonce + of_nat attempt) of
             Some s \<Rightarrow> Found s (attempt + 1)
           | None \<Rightarrow> solve_loop try_at cancelled start_nonce (attempt + 1) n)"

definition try_solve ::
  "(bytes \<Rightarrow> bytes) \<Rightarrow> bytes \<Rightarrow> u32 \<Rightarrow> u32 \<Rightarrow> string + bytes \<Rightarrow> u64 \<Rightarrow> (nat \<Rightarrow> bool) \<Rightarrow> u64 \<Rightarrow> autolykos_solution option \<times> u64" where
  "try_solve blake header_bytes n_bits height miner_pk max_attempts cancelled start_nonce =
     (case miner_pk of
        Inl _ \<Rightarrow> (None, 0)
      | Inr pk_bytes \<Rightarrow>
          (case solve_loop (\<lambda>nonce. try_nonce blake header_bytes (be_u64 nonce) (nbits_to_target n_bits) (n_for_height height) pk_bytes miner_pk)
                  cancelled start_nonce 0 (unat max_attempts) of
             Found s attempts \<Rightarrow> (Some s, of_nat attempts)
           | Cancelled \<Rightarrow> (None, 0)
           | Exhausted \<Rightarrow> (None, max_attempts)))"

definition solver_verify :: "(bytes \<Rightarrow> bytes) \<Rightarrow> bytes \<Rightarrow> autolykos_solution \<Rightarrow> u32 \<Rightarrow> u32 \<Rightarrow> bool" where
  "solver_verify blake header_bytes solution n_bits height =
     (case verify_solution blake autolykos_new header_bytes (as_nonce solution) (as_miner_pk solution) (nbits_to_target n_bits) height of
        Inr valid \<Rightarrow> valid
      | Inl _ \<Rightarrow> False)"

subsection \<open>The nonces of a worker\<close>

definition WORKER_BATCH_SIZE :: u64 where "WORKER_BATCH_SIZE = 10000"
definition MAX_NONCE_PARTITIONS :: u64 where "MAX_NONCE_PARTITIONS = 256"

definition partition_size :: u64 where
  "partition_size = (- 1) div MAX_NONCE_PARTITIONS"

definition worker_nonce_offset :: "u64 \<Rightarrow> u64 \<Rightarrow> u64" where
  "worker_nonce_offset worker_id random =
     (let partition = worker_id mod MAX_NONCE_PARTITIONS;
          base_offset = partition * partition_size;
          random_offset = random mod (partition_size div 2)
      in base_offset + random_offset)"

record mining_task =
  mt_header_bytes :: bytes
  mt_n_bits :: u32
  mt_height :: u32
  mt_miner_pk :: "string + bytes"
  mt_created_at :: u64

record found_solution =
  fs_solution :: autolykos_solution
  fs_task :: mining_task
  fs_worker_id :: nat
  fs_hashes_computed :: u64

record worker =
  wk_id :: nat
  wk_nonce_offset :: u64
  wk_hash_count :: u64
  wk_local_nonce :: u64

text \<open>A worker that starts on a task, and one batch of it: what it sends, and its counters afterwards.\<close>

definition worker_take_task :: "worker \<Rightarrow> worker" where
  "worker_take_task w = w\<lparr>wk_local_nonce := wk_nonce_offset w + wk_hash_count w\<rparr>"

definition worker_batch :: "(bytes \<Rightarrow> bytes) \<Rightarrow> mining_task \<Rightarrow> worker \<Rightarrow> found_solution option \<times> worker" where
  "worker_batch blake task w =
     (let (result, batch_hashes) =
        try_solve_batch blake (mt_header_bytes task) (mt_n_bits task) (mt_height task) (mt_miner_pk task) (wk_local_nonce w) WORKER_BATCH_SIZE
      in case result of
           Some s \<Rightarrow>
             (Some \<lparr>fs_solution = s, fs_task = task, fs_worker_id = wk_id w, fs_hashes_computed = batch_hashes\<rparr>,
              w\<lparr>wk_hash_count := wk_hash_count w + batch_hashes\<rparr>)
         | None \<Rightarrow>
             (None, w\<lparr>wk_hash_count := wk_hash_count w + WORKER_BATCH_SIZE, wk_local_nonce := wk_local_nonce w + WORKER_BATCH_SIZE\<rparr>))"

definition reset_hash_count :: "worker \<Rightarrow> u64 \<times> worker" where
  "reset_hash_count w = (wk_hash_count w, w\<lparr>wk_hash_count := 0\<rparr>)"

subsection \<open>The miner\<close>

definition CANDIDATE_REFRESH_SECS :: u64 where "CANDIDATE_REFRESH_SECS = 30"

record miner_config =
  mc_internal_mining :: bool
  mc_external_mining :: bool
  mc_reward_address :: string
  mc_threads :: nat
  mc_network :: network_prefix

definition miner_config_default :: miner_config where
  "miner_config_default =
     \<lparr>mc_internal_mining = False, mc_external_mining = True, mc_reward_address = [], mc_threads = 0, mc_network = Mainnet\<rparr>"

definition effective_threads :: "nat \<Rightarrow> miner_config \<Rightarrow> nat" where
  "effective_threads num_cpus c = (if mc_threads c = 0 then max num_cpus 1 else mc_threads c)"

record mining_stats =
  ms_candidates_generated :: u64
  ms_solutions_received :: u64
  ms_valid_solutions :: u64
  ms_invalid_solutions :: u64
  ms_blocks_mined :: u64
  ms_hash_rate :: f64
  ms_total_hashes :: u64

definition mining_stats_default :: mining_stats where
  "mining_stats_default =
     \<lparr>ms_candidates_generated = 0, ms_solutions_received = 0, ms_valid_solutions = 0, ms_invalid_solutions = 0,
      ms_blocks_mined = 0, ms_hash_rate = Fin 0, ms_total_hashes = 0\<rparr>"

text \<open>The instant of the last rate calculation is a reading of the clock in nanoseconds.\<close>

record miner =
  mi_config :: miner_config
  mi_generator :: candidate_generator
  mi_enabled :: bool
  mi_internal_running :: bool
  mi_current_candidate :: "block_candidate option"
  mi_stats :: mining_stats
  mi_hash_count :: u64
  mi_last_rate_calc :: nat

definition miner_new :: "nat \<Rightarrow> miner_config \<Rightarrow> candidate_generator \<Rightarrow> miner" where
  "miner_new now config g =
     \<lparr>mi_config = config,
      mi_generator = (if mc_reward_address config \<noteq> [] then set_reward_address (mc_reward_address config) g else g),
      mi_enabled = False, mi_internal_running = False, mi_current_candidate = None, mi_stats = mining_stats_default,
      mi_hash_count = 0, mi_last_rate_calc = now\<rparr>"

definition miner_start :: "miner \<Rightarrow> miner" where
  "miner_start m = m\<lparr>mi_enabled := True\<rparr>"

definition miner_stop :: "miner \<Rightarrow> miner" where
  "miner_stop m = m\<lparr>mi_enabled := False, mi_internal_running := False\<rparr>"

definition get_candidate :: "('b, 'x) hist_env_scheme \<Rightarrow> reemission_settings \<Rightarrow> u64 \<Rightarrow> manager \<Rightarrow> mempool \<Rightarrow> miner
    \<Rightarrow> (mining_error + block_candidate) \<times> miner" where
  "get_candidate env mainnet now st mp m =
     (if \<not> mi_enabled m then (Inl (CandidateFailed ''Mining not enabled''), m)
      else case get_or_generate env mainnet now st mp (mi_generator m) of
             (Inl e, g) \<Rightarrow> (Inl e, m\<lparr>mi_generator := g\<rparr>)
           | (Inr candidate, g) \<Rightarrow>
               (Inr candidate, m\<lparr>mi_generator := g, mi_current_candidate := Some candidate,
                  mi_stats := (mi_stats m)\<lparr>ms_candidates_generated := ms_candidates_generated (mi_stats m) + 1\<rparr>\<rparr>))"

definition submit_solution :: "(bytes \<Rightarrow> bytes) \<Rightarrow> autolykos_solution \<Rightarrow> miner \<Rightarrow> (mining_error + bool) \<times> miner" where
  "submit_solution blake solution m =
     (if \<not> mi_enabled m then (Inl (CandidateFailed ''Mining not enabled''), m)
      else
        let m = m\<lparr>mi_stats := (mi_stats m)\<lparr>ms_solutions_received := ms_solutions_received (mi_stats m) + 1\<rparr>\<rparr> in
        case mi_current_candidate m of
          None \<Rightarrow> (Inl (InvalidSolution ''No current candidate''), m)
        | Some candidate \<Rightarrow>
            (case verify_solution blake autolykos_new (bc_header_bytes candidate) (as_nonce solution) (as_miner_pk solution)
                    (nbits_to_target (bc_n_bits candidate)) (bc_height candidate) of
               Inl e \<Rightarrow> (Inl (ME_Consensus e), m)
             | Inr True \<Rightarrow>
                 (Inr True, m\<lparr>mi_stats := (mi_stats m)\<lparr>ms_valid_solutions := ms_valid_solutions (mi_stats m) + 1,
                                                    ms_blocks_mined := ms_blocks_mined (mi_stats m) + 1\<rparr>,
                              mi_generator := invalidate (mi_generator m), mi_current_candidate := None\<rparr>)
             | Inr False \<Rightarrow>
                 (Inr False, m\<lparr>mi_stats := (mi_stats m)\<lparr>ms_invalid_solutions := ms_invalid_solutions (mi_stats m) + 1\<rparr>\<rparr>)))"

definition miner_set_reward_address :: "string \<Rightarrow> miner \<Rightarrow> miner" where
  "miner_set_reward_address address m = m\<lparr>mi_generator := set_reward_address address (mi_generator m)\<rparr>"

definition on_new_block :: "miner \<Rightarrow> miner" where
  "on_new_block m = m\<lparr>mi_generator := invalidate (mi_generator m), mi_current_candidate := None\<rparr>"

text \<open>\<open>Duration::as_secs_f64\<close> of a number of nanoseconds.\<close>

definition as_secs_f64 :: "nat \<Rightarrow> f64" where
  "as_secs_f64 nanos = f64_add (f64_of_nat (nanos div 10 ^ 9)) (f64_div (f64_of_nat (nanos mod 10 ^ 9)) (Fin (10 ^ 9)))"

definition update_hash_rate :: "nat \<Rightarrow> u64 \<Rightarrow> miner \<Rightarrow> miner" where
  "update_hash_rate now new_hashes m =
     (let hashes = mi_hash_count m + new_hashes;
          elapsed = now - mi_last_rate_calc m;
          m = m\<lparr>mi_hash_count := hashes, mi_stats := (mi_stats m)\<lparr>ms_total_hashes := hashes\<rparr>\<rparr>
      in if 100 * 10 ^ 6 \<le> elapsed
         then m\<lparr>mi_stats := (mi_stats m)\<lparr>ms_hash_rate := f64_div (f64_of_nat (unat new_hashes)) (as_secs_f64 elapsed)\<rparr>,
                mi_last_rate_calc := now\<rparr>
         else m)"

text \<open>What an address of the miner decodes to: a public key, or a script of another kind.\<close>

datatype decoded_address = P2Pk "string + bytes" | OtherAddress

definition get_miner_pk :: "(network_prefix \<Rightarrow> string \<Rightarrow> string + decoded_address) \<Rightarrow> miner \<Rightarrow> mining_error + (string + bytes)" where
  "get_miner_pk decode m =
     (case cg_reward_address (mi_generator m) of
        None \<Rightarrow> Inl NoRewardAddress
      | Some address \<Rightarrow>
          (case decode (mc_network (mi_config m)) address of
             Inl e \<Rightarrow> Inl (CandidateFailed (''Invalid reward address: '' @ e))
           | Inr (P2Pk pk) \<Rightarrow> Inr pk
           | Inr OtherAddress \<Rightarrow> Inl (CandidateFailed ''Reward address must be a P2PK address for mining'')))"

text \<open>The start of internal mining, up to the loop: the key the workers mine for, or the error.\<close>

definition begin_internal_mining ::
  "(network_prefix \<Rightarrow> string \<Rightarrow> string + decoded_address) \<Rightarrow> miner \<Rightarrow> (mining_error + (string + bytes)) \<times> miner" where
  "begin_internal_mining decode m =
     (if \<not> mc_internal_mining (mi_config m) then (Inl (CandidateFailed ''Internal mining not enabled in config''), m)
      else if mi_internal_running m then (Inl (CandidateFailed ''Internal mining already running''), m)
      else let m = m\<lparr>mi_internal_running := True\<rparr> in (get_miner_pk decode m, m))"

definition candidate_task :: "string + bytes \<Rightarrow> block_candidate \<Rightarrow> mining_task" where
  "candidate_task pk c =
     \<lparr>mt_header_bytes = bc_header_bytes c, mt_n_bits = bc_n_bits c, mt_height = bc_height c, mt_miner_pk = pk, mt_created_at = bc_timestamp c\<rparr>"

definition handle_found_solution :: "(bytes \<Rightarrow> bytes) \<Rightarrow> found_solution \<Rightarrow> block_candidate \<Rightarrow> miner \<Rightarrow> bool \<times> miner" where
  "handle_found_solution blake found candidate m =
     (if mt_height (fs_task found) \<noteq> bc_height candidate then (False, m)
      else case submit_solution blake (fs_solution found) m of
             (Inr valid, m) \<Rightarrow> (valid, m)
           | (Inl _, m) \<Rightarrow> (False, m))"

subsection \<open>The solver and the verifier\<close>

lemma foldl_sum: "foldl (\<lambda>acc x. acc + f x) (a :: nat) xs = a + sum_list (map f xs)"
  by (induction xs arbitrary: a) simp_all

lemma solver_hash_chain:
  "solver_hit blake (solver_f_sum blake (solver_indices blake (solver_seed blake (solver_msg blake hb nonce) pk) n) (solver_msg blake hb nonce) pk)
   = calculate_hit blake (calculate_f_sum blake
       (generate_indices blake autolykos_new (calculate_seed blake (calculate_msg blake hb nonce) pk) n) (calculate_msg blake hb nonce) pk)"
  by (simp add: solver_hit_def calculate_hit_def solver_f_sum_def calculate_f_sum_def foldl_sum solver_indices_def generate_indices_def
      solver_seed_def calculate_seed_def solver_msg_def calculate_msg_def autolykos_new_def solver_k_def AUTOLYKOS_K_def)

text \<open>What the verifier says of a nonce.\<close>

definition nonce_valid :: "(bytes \<Rightarrow> bytes) \<Rightarrow> bytes \<Rightarrow> u32 \<Rightarrow> u32 \<Rightarrow> bytes \<Rightarrow> u64 \<Rightarrow> bool" where
  "nonce_valid blake hb n_bits height pk nonce \<longleftrightarrow>
     verify_solution blake autolykos_new hb (be_u64 nonce) (Inr pk) (nbits_to_target n_bits) height = Inr True"

lemma try_nonce_verifies:
  "try_nonce blake hb (be_u64 nonce) (nbits_to_target n_bits) (n_for_height height) pk (Inr pk) =
     (if nonce_valid blake hb n_bits height pk nonce then Some \<lparr>as_miner_pk = Inr pk, as_nonce = be_u64 nonce\<rparr> else None)"
  unfolding try_nonce_def Let_def solver_hash_chain by (simp add: nonce_valid_def verify_solution_def Let_def)

lemma batch_loop_first:
  "batch_loop try_at start offset n =
     (case find (\<lambda>k. try_at (start + of_nat k) \<noteq> None) [offset..<offset + n] of
        Some k \<Rightarrow> Some (the (try_at (start + of_nat k)), k + 1)
      | None \<Rightarrow> None)"
proof (induction n arbitrary: offset)
  case (Suc n)
  have "[offset..<offset + Suc n] = offset # [Suc offset..<Suc offset + n]"
    using upt_conv_Cons [of offset "offset + Suc n"] by simp
  then show ?case
    using Suc.IH [of "Suc offset"] by (auto split: option.split)
qed simp

lemma find_upt_first:
  "find P [0..<n] = Some k \<Longrightarrow> k < n \<and> P k \<and> (\<forall>j < k. \<not> P j)"
  by (auto simp: find_Some_iff less_diff_conv)

lemma batch_loop_nonces:
  "batch_loop (\<lambda>nonce. try_nonce blake hb (be_u64 nonce) (nbits_to_target n_bits) (n_for_height height) pk (Inr pk)) start 0 n =
     (case find (\<lambda>k. nonce_valid blake hb n_bits height pk (start + of_nat k)) [0..<n] of
        None \<Rightarrow> None
      | Some k \<Rightarrow> Some (\<lparr>as_miner_pk = Inr pk, as_nonce = be_u64 (start + of_nat k)\<rparr>, k + 1))"
proof (cases "find (\<lambda>k. nonce_valid blake hb n_bits height pk (start + of_nat k)) [0..<n]")
  case None
  then show ?thesis
    by (simp add: batch_loop_first try_nonce_verifies)
next
  case (Some k)
  with find_upt_first [OF Some] show ?thesis
    by (simp add: batch_loop_first try_nonce_verifies)
qed

lemma try_solve_batch_eq:
  "try_solve_batch blake hb n_bits height (Inr pk) start size' =
     (case find (\<lambda>k. nonce_valid blake hb n_bits height pk (start + of_nat k)) [0..<unat size'] of
        None \<Rightarrow> (None, size')
      | Some k \<Rightarrow> (Some \<lparr>as_miner_pk = Inr pk, as_nonce = be_u64 (start + of_nat k)\<rparr>, of_nat (k + 1)))"
  unfolding try_solve_batch_def sum.case batch_loop_nonces
  by (cases "find (\<lambda>k. nonce_valid blake hb n_bits height pk (start + of_nat k)) [0..<unat size']") simp_all

lemma solved_verifies:
  "nonce_valid blake hb n_bits height pk nonce \<Longrightarrow> solver_verify blake hb \<lparr>as_miner_pk = Inr pk, as_nonce = be_u64 nonce\<rparr> n_bits height"
  by (simp add: solver_verify_def nonce_valid_def)

lemma try_solve_batch_verifies:
  assumes "try_solve_batch blake hb n_bits height (Inr pk) start size' = (Some s, tried)"
  shows "solver_verify blake hb s n_bits height"
proof (cases "find (\<lambda>k. nonce_valid blake hb n_bits height pk (start + of_nat k)) [0..<unat size']")
  case None
  then show ?thesis
    using assms by (simp add: try_solve_batch_eq)
next
  case (Some k)
  then show ?thesis
    using assms solved_verifies find_upt_first [OF Some] by (auto simp: try_solve_batch_eq)
qed

text \<open>C34: The solver and the verifier agree: a batch returns the first nonce of its range that the verifier
  accepts, as a solution that the verifier accepts, and reports the number of nonces tried; without a
  solution the verifier accepts no nonce of the range.\<close>
theorem solver_agrees_with_verifier:
  "case try_solve_batch blake hb n_bits height (Inr pk) start batch_size of
     (Some s, tried) \<Rightarrow> \<exists>k < unat batch_size. as_nonce s = be_u64 (start + of_nat k) \<and> solver_verify blake hb s n_bits height
        \<and> (\<forall>j < k. \<not> nonce_valid blake hb n_bits height pk (start + of_nat j)) \<and> tried = of_nat (k + 1)
   | (None, tried) \<Rightarrow> (\<forall>j < unat batch_size. \<not> nonce_valid blake hb n_bits height pk (start + of_nat j)) \<and> tried = batch_size"
proof (cases "find (\<lambda>k. nonce_valid blake hb n_bits height pk (start + of_nat k)) [0..<unat batch_size]")
  case None
  then have "\<forall>j < unat batch_size. \<not> nonce_valid blake hb n_bits height pk (start + of_nat j)"
    by (simp add: find_None_iff)
  with None show ?thesis
    by (simp add: try_solve_batch_eq)
next
  case (Some k)
  from find_upt_first [OF Some] Some show ?thesis
    by (auto simp: try_solve_batch_eq solved_verifies)
qed

text \<open>With a hash that is always zero every nonce is valid.\<close>

definition zero_hash :: "bytes \<Rightarrow> bytes" where
  "zero_hash _ = replicate 32 0"

lemma zero_hash_valid: "nonce_valid zero_hash hb n_bits height pk nonce"
proof -
  have "from_bytes_be (replicate 32 0) = 0"
    by (simp add: from_bytes_be_def numeral_eq_Suc)
  then show ?thesis
    by (simp add: nonce_valid_def verify_solution_def Let_def calculate_hit_def zero_hash_def)
qed

lemma zero_hash_first:
  "0 < batch_size \<Longrightarrow> find (\<lambda>k. nonce_valid zero_hash hb n_bits height pk (start + of_nat k)) [0..<unat batch_size] = Some 0"
  by (subst upt_conv_Cons) (simp_all add: zero_hash_valid word_gt_0 unat_gt_0)

lemma zero_hash_solves:
  assumes "0 < batch_size"
  shows "try_solve_batch zero_hash hb n_bits height (Inr pk) start batch_size = (Some \<lparr>as_miner_pk = Inr pk, as_nonce = be_u64 start\<rparr>, 1)"
  unfolding try_solve_batch_eq zero_hash_first [OF assms] by simp

theorem solver_agrees_with_verifier_witness:
  "\<exists>s tried. try_solve_batch zero_hash [] 0x1f00ffff 1 (Inr []) 5 10 = (Some s, tried) \<and> tried = 1 \<and> solver_verify zero_hash [] s 0x1f00ffff 1"
proof -
  obtain s tried where r: "try_solve_batch zero_hash [] 0x1f00ffff 1 (Inr []) 5 10 = (Some s, tried)" "tried = 1"
    by (simp add: zero_hash_solves)
  then show ?thesis
    using solver_agrees_with_verifier [where blake = zero_hash and hb = "[]" and n_bits = "0x1f00ffff" and height = 1 and pk = "[]"
        and start = 5 and batch_size = 10] by auto
qed

text \<open>A block is mined once: what a worker finds for the current candidate is accepted, counted as one block
  and clears the candidate, and no further solution is accepted until there is a new candidate.\<close>
theorem found_solution_mines_once:
  assumes "worker_batch blake (candidate_task (Inr pk) c) w = (Some found, w')" "mi_enabled m" "mi_current_candidate m = Some c"
  shows "\<exists>m'. handle_found_solution blake found c m = (True, m')
    \<and> ms_blocks_mined (mi_stats m') = ms_blocks_mined (mi_stats m) + 1
    \<and> mi_current_candidate m' = None \<and> cg_cached_candidate (mi_generator m') = None
    \<and> (\<forall>s c' f. fst (submit_solution blake s m') = Inl (InvalidSolution ''No current candidate'')
         \<and> fst (handle_found_solution blake f c' m') = False)"
proof -
  let ?t = "candidate_task (Inr pk) c"
  obtain s tried where s: "try_solve_batch blake (bc_header_bytes c) (bc_n_bits c) (bc_height c) (Inr pk) (wk_local_nonce w) WORKER_BATCH_SIZE
      = (Some s, tried)" and f: "fs_solution found = s" "fs_task found = ?t"
    using assms(1) by (auto simp: worker_batch_def candidate_task_def split: prod.splits option.splits)
  have "verify_solution blake autolykos_new (bc_header_bytes c) (as_nonce s) (as_miner_pk s) (nbits_to_target (bc_n_bits c)) (bc_height c) = Inr True"
    using try_solve_batch_verifies [OF s] by (auto simp: solver_verify_def split: sum.splits)
  then show ?thesis
    using assms(2,3) f by (auto simp: handle_found_solution_def submit_solution_def Let_def candidate_task_def invalidate_def)
qed

text \<open>Every nonce is a solution when the target is the highest one.\<close>

definition easy_candidate :: block_candidate where
  "easy_candidate = \<lparr>bc_parent_id = None, bc_height = 1, bc_timestamp = 0, bc_n_bits = 0x1f00ffff, bc_transactions_root = [],
     bc_state_root = [], bc_extension_hash = [], bc_header_bytes = [], bc_transaction_ids = [], bc_reward = 0\<rparr>"

definition easy_worker :: worker where
  "easy_worker = \<lparr>wk_id = 0, wk_nonce_offset = 5, wk_hash_count = 0, wk_local_nonce = 5\<rparr>"

definition easy_miner :: miner where
  "easy_miner = (miner_start (miner_new 0 miner_config_default generator_new))\<lparr>mi_current_candidate := Some easy_candidate\<rparr>"

theorem found_solution_mines_once_witness:
  "\<exists>found w' m'. worker_batch zero_hash (candidate_task (Inr []) easy_candidate) easy_worker = (Some found, w')
    \<and> handle_found_solution zero_hash found easy_candidate easy_miner = (True, m') \<and> ms_blocks_mined (mi_stats m') = 1"
proof -
  obtain found w' where w: "worker_batch zero_hash (candidate_task (Inr []) easy_candidate) easy_worker = (Some found, w')"
    by (simp add: worker_batch_def candidate_task_def zero_hash_solves WORKER_BATCH_SIZE_def)
  have "mi_enabled easy_miner" "mi_current_candidate easy_miner = Some easy_candidate" "ms_blocks_mined (mi_stats easy_miner) = 0"
    by (simp_all add: easy_miner_def miner_start_def miner_new_def mining_stats_default_def)
  with found_solution_mines_once [OF w this(1,2)] w show ?thesis
    by auto
qed

lemma inputs_disjoint:
  assumes "pool_inv mp" "mp_get mp k = Some t" "mp_get mp k' = Some t'" "k \<noteq> k'"
  shows "set (ptx_inputs t) \<inter> set (ptx_inputs t') = {}"
proof (rule equals0I)
  fix i
  assume "i \<in> set (ptx_inputs t) \<inter> set (ptx_inputs t')"
  moreover have "get_spending_tx mp i = Some j \<longleftrightarrow> (\<exists>t. mp_get mp j = Some t \<and> i \<in> set (ptx_inputs t))" for j
    using assms(1) by (simp add: pool_inv_def index_inv_def)
  ultimately have "get_spending_tx mp i = Some k" "get_spending_tx mp i = Some k'"
    using assms(2,3) by blast+
  then show False
    using assms(4) by simp
qed

text \<open>What goes into a candidate fits together: it builds on the best header, and its transactions are pooled,
  all different, at most a thousand, no two of them spend the same box, and the reward is that of the
  height and the fees of exactly these transactions.\<close>
theorem candidate_transactions_compatible:
  assumes "pool_reachable penv config mp" "max_size config < 2 ^ 63" "generate env mainnet now st mp g = (Inr c, g')"
  shows "\<exists>txs. bc_transaction_ids c = map ptx_id txs \<and> distinct (map ptx_id txs) \<and> length txs \<le> 1000
    \<and> (\<forall>t \<in> set txs. mp_get mp (ptx_id t) = Some t)
    \<and> (\<forall>t \<in> set txs. \<forall>t' \<in> set txs. t \<noteq> t' \<longrightarrow> set (ptx_inputs t) \<inter> set (ptx_inputs t') = {})
    \<and> bc_reward c = block_reward_at_height mainnet (bc_height c) + sum_list (map ptx_fee txs)
    \<and> bc_parent_id c = hy_best_header_id (sm_history st) \<and> bc_height c = hy_best_height (sm_history st) + 1"
proof -
  have ok: "pool_ok mp"
    using pool_reachable_ok [OF assms(1,2)] by blast
  then have inv: "pool_inv mp"
    by (simp add: pool_ok_def)
  let ?txs = "get_by_weight mp 1000"
  have pooled: "mp_get mp (ptx_id t) = Some t" if "t \<in> set ?txs" for t
    using that pooled_id [OF inv] by (auto simp: get_by_weight_def List.map_filter_def)
  have ids: "map ptx_id ?txs = map w_tx_id (take 1000 (mp_weight_order mp))"
  proof -
    have "ptx_id (the (mp_get mp (w_tx_id w))) = w_tx_id w" if "w \<in> set (take 1000 (mp_weight_order mp))" for w
      using order_pooled [OF inv in_set_takeD [OF that]] pooled_id [OF inv] by (metis option.sel)
    then show ?thesis
      by (simp add: get_by_weight_eq [OF inv])
  qed
  have "distinct (take 1000 (mp_weight_order mp))"
    using inv wtx.sorted_distinct by (auto simp: pool_inv_def reg_inv_def intro: distinct_take)
  then have "distinct (map ptx_id ?txs)"
    unfolding ids distinct_map using order_keys(2) [OF inv] by (meson in_set_takeD inj_on_subset subsetI)
  moreover have "set (ptx_inputs t) \<inter> set (ptx_inputs t') = {}" if t: "t \<in> set ?txs" "t' \<in> set ?txs" "t \<noteq> t'" for t t'
  proof -
    have "ptx_id t \<noteq> ptx_id t'"
      using pooled t by (metis option.inject)
    then show ?thesis
      using inputs_disjoint [OF inv pooled [OF t(1)] pooled [OF t(2)]] by blast
  qed
  moreover have "length ?txs \<le> 1000"
    by (simp add: get_by_weight_eq [OF inv])
  moreover have "bc_transaction_ids c = map ptx_id ?txs" "bc_parent_id c = hy_best_header_id (sm_history st)"
    "bc_height c = hy_best_height (sm_history st) + 1"
    "bc_reward c = block_reward_at_height mainnet (bc_height c) + sum_list (map ptx_fee ?txs)"
    using assms(3) by (auto simp: generate_def Let_def heights_def get_by_fee_def MAX_TRANSACTIONS_PER_BLOCK_def split: option.splits)
  ultimately show ?thesis
    using pooled by blast
qed

definition mining_manager :: manager where
  "mining_manager = state_manager_new db_empty"

definition idle_env :: "unit hist_env" where
  "idle_env = \<lparr>tx_parse = (\<lambda>_. None), tx_serialize = (\<lambda>_. None), get_u32 = (\<lambda>_. None), blake_hash = id,
     merkle_root = (\<lambda>_. []), header_serialize = (\<lambda>_. None), header_parse = (\<lambda>_. None)\<rparr>"

theorem candidate_transactions_compatible_witness:
  "\<exists>c g'. generate idle_env settings_testnet 0 mining_manager sample_pool (set_reward_address ''a'' generator_new) = (Inr c, g')
    \<and> distinct (bc_transaction_ids c) \<and> bc_height c = 1"
proof -
  obtain c g' where c: "generate idle_env settings_testnet 0 mining_manager sample_pool (set_reward_address ''a'' generator_new) = (Inr c, g')"
    by (simp add: generate_def set_reward_address_def generator_new_def Let_def heights_def)
  have "bc_height c = hy_best_height (sm_history mining_manager) + 1" "distinct (bc_transaction_ids c)"
    using candidate_transactions_compatible [OF sample_pool_reachable _ c] by (auto simp: sample_config_def)
  then show ?thesis
    using c by (simp add: mining_manager_def state_manager_new_def manager_with_verification_def history_new_def)
qed

subsection \<open>Nonces of different workers\<close>

lemma partition_size_nat: "unat partition_size = 2 ^ 56 - 1"
  by (simp add: partition_size_def MAX_NONCE_PARTITIONS_def)

lemma worker_nonce_offset_nat:
  "\<exists>r < 2 ^ 55 - 1. unat (worker_nonce_offset worker_id random) = (unat worker_id mod 256) * (2 ^ 56 - 1) + r"
proof -
  let ?r = "unat (random mod (partition_size div 2))"
  have half: "partition_size div 2 = 2 ^ 55 - 1"
    by (simp add: partition_size_def MAX_NONCE_PARTITIONS_def)
  have r: "?r < 2 ^ 55 - 1"
    unfolding half by (simp add: unat_mod)
  have i: "unat (worker_id mod MAX_NONCE_PARTITIONS) = unat worker_id mod 256"
    by (simp add: MAX_NONCE_PARTITIONS_def unat_mod)
  have b: "(unat worker_id mod 256) * (2 ^ 56 - 1) \<le> 255 * (2 ^ 56 - 1)"
    using mod_less_divisor [of 256 "unat worker_id"] by (intro mult_right_mono) linarith+
  then have m: "unat (worker_id mod MAX_NONCE_PARTITIONS * partition_size) = (unat worker_id mod 256) * (2 ^ 56 - 1)"
    by (simp add: unat_mult_lem [THEN iffD1] i partition_size_nat)
  have "unat (worker_nonce_offset worker_id random) = (unat worker_id mod 256) * (2 ^ 56 - 1) + ?r"
    unfolding worker_nonce_offset_def Let_def
    by (subst unat_add_lem [THEN iffD1]) (use b r m in \<open>simp_all\<close>)
  then show ?thesis
    using r by blast
qed

text \<open>Workers in different partitions try different nonces of a task, whatever their random offsets are, as
  long as each has tried fewer than \<open>2 ^ 55\<close> nonces.\<close>
theorem worker_nonces_disjoint:
  assumes "unat i mod 256 \<noteq> unat j mod 256" "a < 2 ^ 55" "b < 2 ^ 55"
  shows "worker_nonce_offset i random + of_nat a \<noteq> worker_nonce_offset j random' + of_nat b"
proof
  assume eq: "worker_nonce_offset i random + of_nat a = worker_nonce_offset j random' + of_nat b"
  obtain r where r: "r < 2 ^ 55 - 1" "unat (worker_nonce_offset i random) = (unat i mod 256) * (2 ^ 56 - 1) + r"
    using worker_nonce_offset_nat by blast
  obtain s where s: "s < 2 ^ 55 - 1" "unat (worker_nonce_offset j random') = (unat j mod 256) * (2 ^ 56 - 1) + s"
    using worker_nonce_offset_nat by blast
  have small: "k mod 256 * (2 ^ 56 - 1) + t + c < 2 ^ 64" if "t < 2 ^ 55 - 1" "c < 2 ^ 55" for k t c :: nat
  proof -
    have "k mod 256 * (2 ^ 56 - 1) \<le> 255 * (2 ^ 56 - 1 :: nat)"
      using mod_less_divisor [of 256 k] by (intro mult_right_mono) linarith+
    with that show ?thesis
      by simp
  qed
  have plus: "unat (x + of_nat c) = unat x + c" if "unat x + c < 2 ^ 64" for x :: u64 and c
    using that by (simp add: unat_word_ariths unat_of_nat)
  from eq have "unat i mod 256 * (2 ^ 56 - 1) + (r + a) = unat j mod 256 * (2 ^ 56 - 1) + (s + b)"
    using arg_cong [OF eq, of unat] plus [of "worker_nonce_offset i random" a] plus [of "worker_nonce_offset j random'" b]
      small [OF r(1) assms(2)] small [OF s(1) assms(3)] r(2) s(2) by (simp add: add.assoc)
  then have "(unat i mod 256 * (2 ^ 56 - 1) + (r + a)) div (2 ^ 56 - 1) = (unat j mod 256 * (2 ^ 56 - 1) + (s + b)) div (2 ^ 56 - 1)"
    by (rule arg_cong)
  moreover have "(k * (2 ^ 56 - 1) + t) div (2 ^ 56 - 1) = k" if "t < 2 ^ 56 - 1" for k t :: nat
    using that by simp
  ultimately show False
    using assms r(1) s(1) by simp
qed

theorem worker_nonces_disjoint_witness:
  "worker_nonce_offset 0 7 + of_nat 3 \<noteq> worker_nonce_offset 1 9 + of_nat 4"
  by (rule worker_nonces_disjoint) simp_all

text \<open>A start of internal mining that fails for want of a usable reward address leaves the running flag set:
  after the address has been corrected, every further start is refused as already running, until
  mining is stopped.\<close>
theorem failed_start_blocks_mining:
  assumes "mc_internal_mining (mi_config m)" "\<not> mi_internal_running m" "get_miner_pk decode m = Inl e"
  defines "m' \<equiv> snd (begin_internal_mining decode m)"
  shows "fst (begin_internal_mining decode m) = Inl e
    \<and> fst (begin_internal_mining decode' (miner_set_reward_address address (miner_start m'))) = Inl (CandidateFailed ''Internal mining already running'')
    \<and> fst (begin_internal_mining decode' (miner_set_reward_address address (miner_start (miner_stop m')))) \<noteq> Inl (CandidateFailed ''Internal mining already running'')"
proof -
  have m': "m' = m\<lparr>mi_internal_running := True\<rparr>"
    using assms(1,2) by (simp add: m'_def begin_internal_mining_def Let_def)
  have "get_miner_pk decode (m\<lparr>mi_internal_running := True\<rparr>) = get_miner_pk decode m"
    by (simp add: get_miner_pk_def cong: option.case_cong)
  then have first: "fst (begin_internal_mining decode m) = Inl e"
    using assms(1-3) by (simp add: begin_internal_mining_def Let_def)
  have again: "fst (begin_internal_mining decode' (miner_set_reward_address address (miner_start m'))) = Inl (CandidateFailed ''Internal mining already running'')"
    using assms(1) by (simp add: begin_internal_mining_def Let_def m' miner_set_reward_address_def miner_start_def)
  have "get_miner_pk d x \<noteq> Inl (CandidateFailed ''Internal mining already running'')" for d x
    by (auto simp: get_miner_pk_def split: option.split sum.split decoded_address.split)
  then have "fst (begin_internal_mining decode' (miner_set_reward_address address (miner_start (miner_stop m'))))
      \<noteq> Inl (CandidateFailed ''Internal mining already running'')"
    using assms(1) by (simp add: begin_internal_mining_def Let_def m' miner_set_reward_address_def miner_start_def miner_stop_def)
  with first again show ?thesis
    by blast
qed

theorem failed_start_blocks_mining_witness:
  "fst (begin_internal_mining (\<lambda>_ _. Inr OtherAddress)
      (miner_new 0 (miner_config_default\<lparr>mc_internal_mining := True\<rparr>) generator_new)) = Inl NoRewardAddress"
  by (rule conjunct1 [OF failed_start_blocks_mining])
    (simp_all add: miner_new_def miner_config_default_def get_miner_pk_def generator_new_def)

end
