(* ===== verification/Workers.thy ===== *)
theory Workers
  imports Mining
begin

text \<open>
  The pool of mining workers (\<open>crates/ergo-mining/src/worker.rs\<close>) as a step relation: the worker
  threads, the watch channel that holds the current task and the bounded channel of solutions. A step is
  what one thread does between two accesses to shared state, so that the runs are the interleavings of
  the threads and of the coordinator (\<open>miner.rs\<close>). Sleeping has no effect on the state.
\<close>

subsection \<open>Workers and the pool\<close>

text \<open>
  Where a worker is in its loop: before the look at its running flag, before it takes the task, before
  the checks of the inner loop, before a batch, and while it sends what it found.
\<close>

datatype worker_phase =
    Looking
  | Taking
  | Checking mining_task
  | Trying mining_task
  | Sending found_solution
  | Ended

record pool_worker =
  pw_worker :: worker
  pw_running :: bool
  pw_seen :: nat
  pw_phase :: worker_phase

text \<open>The version of the watch channel counts what was sent into it.\<close>

record worker_pool =
  wp_workers :: "pool_worker list"
  wp_task :: "mining_task option"
  wp_version :: nat
  wp_solutions :: "found_solution list"
  wp_capacity :: nat
  wp_receiver_dropped :: bool
  wp_running :: bool

definition worker_spawn :: "nat \<Rightarrow> u64 \<Rightarrow> pool_worker" where
  "worker_spawn i random =
     \<lparr>pw_worker = \<lparr>wk_id = i, wk_nonce_offset = worker_nonce_offset (of_nat i) random, wk_hash_count = 0, wk_local_nonce = 0\<rparr>,
      pw_running = True, pw_seen = 0, pw_phase = Looking\<rparr>"

text \<open>One random number for each worker. A channel without capacity panics.\<close>

definition pool_new :: "u64 list \<Rightarrow> worker_pool option" where
  "pool_new randoms =
     (if randoms = [] then None
      else Some \<lparr>wp_workers = map (\<lambda>i. worker_spawn i (randoms ! i)) [0..<length randoms], wp_task = None, wp_version = 0,
                 wp_solutions = [], wp_capacity = length randoms * 2, wp_receiver_dropped = False, wp_running = True\<rparr>)"

definition set_phase :: "nat \<Rightarrow> pool_worker \<Rightarrow> worker_pool \<Rightarrow> worker_pool" where
  "set_phase i w p = p\<lparr>wp_workers := (wp_workers p)[i := w]\<rparr>"

text \<open>The next step of worker \<open>i\<close>; \<open>None\<close> when it waits for room in the channel or has ended.\<close>

definition worker_step :: "(bytes \<Rightarrow> bytes) \<Rightarrow> nat \<Rightarrow> worker_pool \<Rightarrow> worker_pool option" where
  "worker_step blake i p =
     (let w = wp_workers p ! i in
      case pw_phase w of
        Looking \<Rightarrow> Some (set_phase i (w\<lparr>pw_phase := if pw_running w then Taking else Ended\<rparr>) p)
      | Taking \<Rightarrow>
          (case wp_task p of
             None \<Rightarrow> Some (set_phase i (w\<lparr>pw_seen := wp_version p, pw_phase := Looking\<rparr>) p)
           | Some task \<Rightarrow>
               Some (set_phase i (w\<lparr>pw_seen := wp_version p, pw_worker := worker_take_task (pw_worker w), pw_phase := Checking task\<rparr>) p))
      | Checking task \<Rightarrow>
          Some (set_phase i (w\<lparr>pw_phase := if \<not> pw_running w \<or> pw_seen w \<noteq> wp_version p then Looking else Trying task\<rparr>) p)
      | Trying task \<Rightarrow>
          (case worker_batch blake task (pw_worker w) of
             (Some found, w') \<Rightarrow> Some (set_phase i (w\<lparr>pw_worker := w', pw_phase := Sending found\<rparr>) p)
           | (None, w') \<Rightarrow> Some (set_phase i (w\<lparr>pw_worker := w', pw_phase := Checking task\<rparr>) p))
      | Sending found \<Rightarrow>
          if wp_receiver_dropped p then Some (set_phase i (w\<lparr>pw_phase := Ended\<rparr>) p)
          else if wp_capacity p \<le> length (wp_solutions p) then None
          else Some ((set_phase i (w\<lparr>pw_phase := Looking\<rparr>) p)\<lparr>wp_solutions := wp_solutions p @ [found]\<rparr>)
      | Ended \<Rightarrow> None)"

text \<open>What the coordinator does.\<close>

definition broadcast_task :: "mining_task \<Rightarrow> worker_pool \<Rightarrow> worker_pool" where
  "broadcast_task task p = p\<lparr>wp_task := Some task, wp_version := wp_version p + 1\<rparr>"

definition clear_task :: "worker_pool \<Rightarrow> worker_pool" where
  "clear_task p = p\<lparr>wp_task := None, wp_version := wp_version p + 1\<rparr>"

definition try_recv_solution :: "worker_pool \<Rightarrow> found_solution option \<times> worker_pool" where
  "try_recv_solution p =
     (case wp_solutions p of
        [] \<Rightarrow> (None, p)
      | found # rest \<Rightarrow> (Some found, p\<lparr>wp_solutions := rest\<rparr>))"

definition total_hash_count :: "worker_pool \<Rightarrow> u64" where
  "total_hash_count p = sum_list (map (wk_hash_count \<circ> pw_worker) (wp_workers p))"

definition reset_hash_counts :: "worker_pool \<Rightarrow> u64 \<times> worker_pool" where
  "reset_hash_counts p =
     (sum_list (map (fst \<circ> reset_hash_count \<circ> pw_worker) (wp_workers p)),
      p\<lparr>wp_workers := map (\<lambda>w. w\<lparr>pw_worker := snd (reset_hash_count (pw_worker w))\<rparr>) (wp_workers p)\<rparr>)"

definition worker_stop :: "pool_worker \<Rightarrow> pool_worker" where
  "worker_stop w = w\<lparr>pw_running := False\<rparr>"

definition pool_stop :: "worker_pool \<Rightarrow> worker_pool" where
  "pool_stop p = p\<lparr>wp_running := False, wp_workers := map worker_stop (wp_workers p)\<rparr>"

text \<open>A shutdown stops the workers and then waits for each of them, with the receiver kept until the end.\<close>

definition all_ended :: "worker_pool \<Rightarrow> bool" where
  "all_ended p \<longleftrightarrow> (\<forall>w \<in> set (wp_workers p). pw_phase w = Ended)"

text \<open>A pool that is dropped without a shutdown: the workers are told to stop, the channels are closed.\<close>

definition pool_drop :: "worker_pool \<Rightarrow> worker_pool" where
  "pool_drop p = (pool_stop p)\<lparr>wp_receiver_dropped := True\<rparr>"

inductive workers_step :: "(bytes \<Rightarrow> bytes) \<Rightarrow> worker_pool \<Rightarrow> worker_pool \<Rightarrow> bool" for blake where
  step_worker: "i < length (wp_workers p) \<Longrightarrow> worker_step blake i p = Some p' \<Longrightarrow> workers_step blake p p'"
| step_broadcast: "workers_step blake p (broadcast_task task p)"
| step_clear: "workers_step blake p (clear_task p)"
| step_recv: "workers_step blake p (snd (try_recv_solution p))"
| step_reset: "workers_step blake p (snd (reset_hash_counts p))"
| step_stop: "workers_step blake p (pool_stop p)"
| step_drop: "workers_step blake p (pool_drop p)"

inductive pool_run :: "(bytes \<Rightarrow> bytes) \<Rightarrow> worker_pool \<Rightarrow> worker_pool \<Rightarrow> bool" for blake p0 where
  pool_start: "pool_run blake p0 p0"
| pool_next: "pool_run blake p0 p \<Longrightarrow> workers_step blake p p' \<Longrightarrow> pool_run blake p0 p'"

text \<open>The workers alone, in the order of a schedule; a worker that cannot step is passed over.\<close>

definition scheduled :: "(bytes \<Rightarrow> bytes) \<Rightarrow> nat \<Rightarrow> worker_pool \<Rightarrow> worker_pool" where
  "scheduled blake i p =
     (if i < length (wp_workers p) then case worker_step blake i p of Some p' \<Rightarrow> p' | None \<Rightarrow> p else p)"

definition worker_steps :: "(bytes \<Rightarrow> bytes) \<Rightarrow> nat list \<Rightarrow> worker_pool \<Rightarrow> worker_pool" where
  "worker_steps blake schedule p = fold (scheduled blake) schedule p"

subsection \<open>What the workers send\<close>

definition found_ok :: "(bytes \<Rightarrow> bytes) \<Rightarrow> found_solution \<Rightarrow> bool" where
  "found_ok blake f \<longleftrightarrow>
     is_ok (mt_miner_pk (fs_task f)) \<and> as_miner_pk (fs_solution f) = mt_miner_pk (fs_task f)
     \<and> solver_verify blake (mt_header_bytes (fs_task f)) (fs_solution f) (mt_n_bits (fs_task f)) (mt_height (fs_task f))"

lemma worker_batch_found:
  assumes "worker_batch blake task w = (Some found, w')"
  shows "found_ok blake found \<and> fs_worker_id found = wk_id w \<and> wk_id w' = wk_id w \<and> fs_task found = task"
proof -
  obtain s tried where s: "try_solve_batch blake (mt_header_bytes task) (mt_n_bits task) (mt_height task) (mt_miner_pk task) (wk_local_nonce w) WORKER_BATCH_SIZE
      = (Some s, tried)" and f: "fs_solution found = s" "fs_task found = task" "fs_worker_id found = wk_id w" "wk_id w' = wk_id w"
    using assms by (auto simp: worker_batch_def split: prod.splits option.splits)
  then obtain pk where pk: "mt_miner_pk task = Inr pk"
    by (cases "mt_miner_pk task") (simp_all add: try_solve_batch_def)
  moreover have "as_miner_pk s = Inr pk"
    using s by (auto simp: pk try_solve_batch_eq split: option.splits)
  ultimately show ?thesis
    using try_solve_batch_verifies s f by (auto simp: found_ok_def is_ok_def)
qed

lemma worker_batch_none: "worker_batch blake task w = (None, w') \<Longrightarrow> wk_id w' = wk_id w"
  by (auto simp: worker_batch_def split: prod.splits option.splits)

text \<open>The workers keep their places, and what is sent or about to be sent is a solution of its task.\<close>

definition workers_ok :: "(bytes \<Rightarrow> bytes) \<Rightarrow> worker_pool \<Rightarrow> bool" where
  "workers_ok blake p \<longleftrightarrow>
     wp_capacity p = 2 * length (wp_workers p) \<and> length (wp_solutions p) \<le> wp_capacity p
     \<and> (\<forall>i < length (wp_workers p). wk_id (pw_worker (wp_workers p ! i)) = i)
     \<and> (\<forall>f \<in> set (wp_solutions p). found_ok blake f \<and> fs_worker_id f < length (wp_workers p))
     \<and> (\<forall>i < length (wp_workers p). \<forall>f. pw_phase (wp_workers p ! i) = Sending f \<longrightarrow> found_ok blake f \<and> fs_worker_id f < length (wp_workers p))"

lemma workers_okI [intro]:
  assumes "wp_capacity p = 2 * length (wp_workers p)" "length (wp_solutions p) \<le> wp_capacity p"
    "\<And>i. i < length (wp_workers p) \<Longrightarrow> wk_id (pw_worker (wp_workers p ! i)) = i"
    "\<And>f. f \<in> set (wp_solutions p) \<Longrightarrow> found_ok blake f \<and> fs_worker_id f < length (wp_workers p)"
    "\<And>i f. i < length (wp_workers p) \<Longrightarrow> pw_phase (wp_workers p ! i) = Sending f \<Longrightarrow> found_ok blake f \<and> fs_worker_id f < length (wp_workers p)"
  shows "workers_ok blake p"
  using assms by (simp add: workers_ok_def)

lemma workers_okD:
  assumes "workers_ok blake p"
  shows "wp_capacity p = 2 * length (wp_workers p)" "length (wp_solutions p) \<le> wp_capacity p"
    "i < length (wp_workers p) \<Longrightarrow> wk_id (pw_worker (wp_workers p ! i)) = i"
    "f \<in> set (wp_solutions p) \<Longrightarrow> found_ok blake f \<and> fs_worker_id f < length (wp_workers p)"
    "i < length (wp_workers p) \<Longrightarrow> pw_phase (wp_workers p ! i) = Sending f \<Longrightarrow> found_ok blake f \<and> fs_worker_id f < length (wp_workers p)"
  using assms by (auto simp: workers_ok_def)

lemma set_phase_fields [simp]:
  "length (wp_workers (set_phase i w p)) = length (wp_workers p)" "wp_solutions (set_phase i w p) = wp_solutions p"
  "wp_capacity (set_phase i w p) = wp_capacity p" "wp_receiver_dropped (set_phase i w p) = wp_receiver_dropped p"
  "wp_workers (set_phase i w p) = (wp_workers p)[i := w]"
  by (simp_all add: set_phase_def)

text \<open>Replacing one worker keeps the pool in order when what it is about to send is.\<close>

lemma workers_ok_replace:
  assumes ok: "workers_ok blake p" and "wk_id (pw_worker w) = i"
    "\<And>f. pw_phase w = Sending f \<Longrightarrow> found_ok blake f \<and> fs_worker_id f < length (wp_workers p)"
  shows "workers_ok blake (set_phase i w p)"
proof
  show "wk_id (pw_worker (wp_workers (set_phase i w p) ! j)) = j" if "j < length (wp_workers (set_phase i w p))" for j
    using that assms(2) workers_okD(3) [OF ok] by (cases "j = i") simp_all
  show "found_ok blake f \<and> fs_worker_id f < length (wp_workers (set_phase i w p))"
    if "j < length (wp_workers (set_phase i w p))" "pw_phase (wp_workers (set_phase i w p) ! j) = Sending f" for j f
    using that assms(3) workers_okD(5) [OF ok] by (cases "j = i") simp_all
qed (use workers_okD [OF ok] in simp_all)

lemma worker_step_keeps:
  assumes ok: "workers_ok blake p" and i: "i < length (wp_workers p)" and s: "worker_step blake i p = Some p'"
  shows "workers_ok blake p'"
proof -
  let ?w = "wp_workers p ! i"
  note id = workers_okD(3) [OF ok i]
  show ?thesis
  proof (cases "pw_phase ?w")
    case (Trying task)
    obtain r w' where b: "worker_batch blake task (pw_worker ?w) = (r, w')"
      by (cases "worker_batch blake task (pw_worker ?w)")
    show ?thesis
    proof (cases r)
      case None
      then have p': "p' = set_phase i (?w\<lparr>pw_worker := w', pw_phase := Checking task\<rparr>) p"
        using s Trying b by (simp add: worker_step_def Let_def)
      show ?thesis
        unfolding p' by (rule workers_ok_replace [OF ok]) (use worker_batch_none b None id in auto)
    next
      case (Some found)
      then have p': "p' = set_phase i (?w\<lparr>pw_worker := w', pw_phase := Sending found\<rparr>) p"
        using s Trying b by (simp add: worker_step_def Let_def)
      show ?thesis
        unfolding p' by (rule workers_ok_replace [OF ok]) (use worker_batch_found b Some id i in auto)
    qed
  next
    case (Sending found)
    have ready: "workers_ok blake (set_phase i (?w\<lparr>pw_phase := ph\<rparr>) p)" if "ph = Looking \<or> ph = Ended" for ph
      by (rule workers_ok_replace [OF ok]) (use id that in auto)
    show ?thesis
    proof (cases "wp_receiver_dropped p")
      case True
      then show ?thesis
        using s Sending ready by (auto simp: worker_step_def Let_def)
    next
      case False
      then have p': "p' = (set_phase i (?w\<lparr>pw_phase := Looking\<rparr>) p)\<lparr>wp_solutions := wp_solutions p @ [found]\<rparr>" "length (wp_solutions p) < wp_capacity p"
        using s Sending by (auto simp: worker_step_def Let_def split: if_splits)
      show ?thesis
        using workers_okD [OF ready [of Looking]] workers_okD(5) [OF ok i Sending] p'(2) unfolding p'(1) by (intro workers_okI) auto
    qed
  qed (use s id in \<open>auto simp: worker_step_def Let_def worker_take_task_def split: option.splits if_splits intro!: workers_ok_replace [OF ok]\<close>)
qed

lemma workers_step_keeps:
  assumes "workers_step blake p p'" "workers_ok blake p"
  shows "workers_ok blake p'"
  using assms
proof (cases rule: workers_step.cases)
  case (step_worker i)
  then show ?thesis
    using worker_step_keeps [OF assms(2)] by blast
next
  case step_recv
  then show ?thesis
    using workers_okD [OF assms(2)] by (auto simp: try_recv_solution_def workers_ok_def split: list.splits)
qed (use workers_okD [OF assms(2)] in
  \<open>auto simp: workers_ok_def broadcast_task_def clear_task_def reset_hash_counts_def reset_hash_count_def pool_stop_def pool_drop_def worker_stop_def\<close>)

lemma pool_new_ok: "pool_new randoms = Some p0 \<Longrightarrow> workers_ok blake p0"
  by (auto simp: pool_new_def workers_ok_def worker_spawn_def split: if_splits)

lemma pool_run_keeps: "pool_run blake p0 p \<Longrightarrow> workers_ok blake p0 \<Longrightarrow> workers_ok blake p"
  by (induction rule: pool_run.induct) (auto intro: workers_step_keeps)

text \<open>C32: In every interleaving of the worker threads and the coordinator, each solution that waits in the channel
  carries the miner's key of the task it is for and is accepted by the verifier for that task, comes from
  a worker of the pool, and at most twice as many wait as there are workers.\<close>
theorem queued_solutions_verify:
  assumes "pool_new randoms = Some p0" "pool_run blake p0 p"
  shows "length (wp_solutions p) \<le> 2 * length randoms
    \<and> list_all (\<lambda>f. as_miner_pk (fs_solution f) = mt_miner_pk (fs_task f) \<and> fs_worker_id f < length (wp_workers p)
         \<and> solver_verify blake (mt_header_bytes (fs_task f)) (fs_solution f) (mt_n_bits (fs_task f)) (mt_height (fs_task f))) (wp_solutions p)"
proof -
  have "length (wp_workers p) = length randoms"
    using assms(2)
  proof (induction rule: pool_run.induct)
    case pool_start
    then show ?case
      using assms(1) by (auto simp: pool_new_def split: if_splits)
  next
    case (pool_next p p')
    from pool_next(2,3) show ?case
      by (cases rule: workers_step.cases)
        (auto simp: worker_step_def Let_def broadcast_task_def clear_task_def try_recv_solution_def reset_hash_counts_def pool_stop_def pool_drop_def
         split: worker_phase.splits option.splits prod.splits if_splits list.splits)
  qed
  moreover have "workers_ok blake p"
    using assms pool_run_keeps pool_new_ok by blast
  ultimately show ?thesis
    by (auto simp: workers_ok_def found_ok_def list_all_iff)
qed

theorem queued_solutions_verify_witness:
  "\<exists>p0. pool_new [7] = Some p0 \<and> length (wp_solutions (broadcast_task (candidate_task (Inr []) easy_candidate) p0)) \<le> 2"
proof -
  obtain p0 where p0: "pool_new [7] = Some p0"
    by (simp add: pool_new_def)
  have "pool_run zero_hash p0 (broadcast_task (candidate_task (Inr []) easy_candidate) p0)"
    by (rule pool_next [OF pool_start step_broadcast])
  from queued_solutions_verify [OF p0 this] p0 show ?thesis
    by simp
qed

subsection \<open>The end of the workers\<close>

text \<open>How many steps a stopped worker has left at most, and whether it may still send something.\<close>

fun phase_rank :: "worker_phase \<Rightarrow> nat" where
  "phase_rank Ended = 0"
| "phase_rank Looking = 1"
| "phase_rank (Checking _) = 2"
| "phase_rank (Sending _) = 2"
| "phase_rank Taking = 3"
| "phase_rank (Trying _) = 3"

fun may_send :: "worker_phase \<Rightarrow> nat" where
  "may_send (Trying _) = 1"
| "may_send (Sending _) = 1"
| "may_send _ = 0"

lemma may_send_le: "may_send ph \<le> Suc 0"
  by (cases ph) simp_all

lemma may_send_member:
  "i < length ws \<Longrightarrow> may_send (pw_phase (ws ! i)) \<le> sum_list (map (may_send \<circ> pw_phase) ws)"
  by (intro member_le_sum_list) auto

lemma may_send_sum: "sum_list (map (may_send \<circ> pw_phase) ws) \<le> length ws"
  using may_send_le by (induction ws) (auto intro: add_le_mono [of _ "Suc 0", simplified])

definition draining :: "worker_pool \<Rightarrow> bool" where
  "draining p \<longleftrightarrow> (\<forall>w \<in> set (wp_workers p). \<not> pw_running w)
     \<and> sum_list (map (may_send \<circ> pw_phase) (wp_workers p)) + length (wp_solutions p) \<le> wp_capacity p"

lemma draining_replace:
  assumes "draining p" "i < length (wp_workers p)" "\<not> pw_running w"
    "may_send (pw_phase w) + extra \<le> may_send (pw_phase (wp_workers p ! i))"
  shows "(\<forall>w' \<in> set (wp_workers (set_phase i w p)). \<not> pw_running w')
    \<and> sum_list (map (may_send \<circ> pw_phase) (wp_workers (set_phase i w p))) + (length (wp_solutions p) + extra) \<le> wp_capacity p"
proof -
  show ?thesis
    using may_send_member [OF assms(2)] assms set_update_subset_insert [of "wp_workers p" i w] by (auto simp: draining_def map_update sum_list_update)
qed

lemma scheduled_drains:
  assumes d: "draining p" and i: "i < length (wp_workers p)"
  shows "draining (scheduled blake i p) \<and> length (wp_workers (scheduled blake i p)) = length (wp_workers p)
    \<and> phase_rank (pw_phase (wp_workers (scheduled blake i p) ! i)) \<le> phase_rank (pw_phase (wp_workers p ! i)) - 1
    \<and> (\<forall>j. j \<noteq> i \<longrightarrow> wp_workers (scheduled blake i p) ! j = wp_workers p ! j)"
proof -
  let ?w = "wp_workers p ! i"
  have r: "\<not> pw_running ?w"
    using d i by (simp add: draining_def)
  have replace: "draining (set_phase i w p)" if "\<not> pw_running w" "may_send (pw_phase w) \<le> may_send (pw_phase ?w)" for w
    using draining_replace [OF d i that(1), of 0] that(2) by (simp add: draining_def)
  show ?thesis
  proof (cases "pw_phase ?w")
    case (Trying task)
    then show ?thesis
      using r i by (auto simp: scheduled_def worker_step_def Let_def split: prod.split option.split intro!: replace)
  next
    case (Sending f)
    have "1 \<le> sum_list (map (may_send \<circ> pw_phase) (wp_workers p))"
      using may_send_member [OF i] Sending by simp
    then have room: "length (wp_solutions p) < wp_capacity p"
      using d by (simp add: draining_def)
    have "draining ((set_phase i (?w\<lparr>pw_phase := Looking\<rparr>) p)\<lparr>wp_solutions := wp_solutions p @ [f]\<rparr>)"
      using draining_replace [OF d i, of "?w\<lparr>pw_phase := Looking\<rparr>" 1] r Sending by (simp add: draining_def)
    then show ?thesis
      using r i Sending room by (auto simp: scheduled_def worker_step_def Let_def intro!: replace)
  next
    case Taking
    then show ?thesis
      using r i by (auto simp: scheduled_def worker_step_def Let_def split: option.split intro!: replace)
  qed (use r i d in \<open>auto simp: scheduled_def worker_step_def Let_def intro!: replace\<close>)
qed

lemma worker_steps_drain:
  assumes "draining p"
  shows "length (wp_workers (worker_steps blake schedule p)) = length (wp_workers p)
    \<and> (\<forall>i < length (wp_workers p). phase_rank (pw_phase (wp_workers (worker_steps blake schedule p) ! i))
         \<le> phase_rank (pw_phase (wp_workers p ! i)) - count_list schedule i)"
  using assms
proof (induction schedule arbitrary: p)
  case (Cons k schedule)
  show ?case
  proof (cases "k < length (wp_workers p)")
    case True
    note step = scheduled_drains [OF Cons.prems True, of blake]
    show ?thesis
      using Cons.IH [of "scheduled blake k p"] step by (fastforce simp: worker_steps_def)
  next
    case False
    then show ?thesis
      using Cons.IH [OF Cons.prems] by (auto simp: worker_steps_def scheduled_def)
  qed
qed (simp add: worker_steps_def)

text \<open>A shutdown ends when the channel is at most half full: however the threads are scheduled, each worker has ended
  after three of its steps, also in the middle of a batch or of a send.\<close>
theorem stopped_workers_end:
  assumes "pool_new randoms = Some p0" "pool_run blake p0 p" "length (wp_solutions p) \<le> length (wp_workers p)"
    and fair: "\<And>i. i < length (wp_workers p) \<Longrightarrow> 3 \<le> count_list schedule i"
  shows "all_ended (worker_steps blake schedule (pool_stop p))"
proof -
  have ok: "workers_ok blake p"
    using assms(1,2) pool_run_keeps pool_new_ok by blast
  have d: "draining (pool_stop p)"
    using may_send_sum [of "wp_workers (pool_stop p)"] assms(3) workers_okD(1) [OF ok]
    by (simp add: draining_def pool_stop_def worker_stop_def)
  have rank0: "phase_rank ph = 0 \<Longrightarrow> ph = Ended" and rank3: "phase_rank ph \<le> 3" for ph
    by (cases ph; simp)+
  have "pw_phase (wp_workers (worker_steps blake schedule (pool_stop p)) ! i) = Ended" if "i < length (wp_workers p)" for i
    using worker_steps_drain [OF d, of blake schedule] fair [OF that] that rank3 [of "pw_phase (wp_workers (pool_stop p) ! i)"]
    by (intro rank0) (fastforce simp: pool_stop_def)
  then show ?thesis
    using worker_steps_drain [OF d, of blake schedule] by (auto simp: all_ended_def in_set_conv_nth pool_stop_def)
qed

theorem stopped_workers_end_witness:
  "\<exists>p0. pool_new [7] = Some p0 \<and> all_ended (worker_steps zero_hash [0, 0, 0] (pool_stop (broadcast_task (candidate_task (Inr []) easy_candidate) p0)))"
proof -
  obtain p0 where p0: "pool_new [7] = Some p0"
    by (simp add: pool_new_def)
  have "pool_run zero_hash p0 (broadcast_task (candidate_task (Inr []) easy_candidate) p0)"
    by (rule pool_next [OF pool_start step_broadcast])
  from stopped_workers_end [OF p0 this, of "[0, 0, 0]"] p0 show ?thesis
    by (auto simp: pool_new_def broadcast_task_def)
qed

text \<open>C33: A shutdown can wait for ever: nobody takes solutions out of the channel while it waits for the workers, so a
  worker that has found one while the channel is full never ends, however the threads are scheduled.\<close>
theorem full_channel_blocks_shutdown:
  assumes "i < length (wp_workers p)" "pw_phase (wp_workers p ! i) = Sending found"
    "wp_capacity p \<le> length (wp_solutions p)" "\<not> wp_receiver_dropped p"
  shows "\<not> all_ended (worker_steps blake schedule (pool_stop p))"
proof -
  define stuck where "stuck q \<longleftrightarrow> i < length (wp_workers q) \<and> pw_phase (wp_workers q ! i) = Sending found
    \<and> wp_capacity q \<le> length (wp_solutions q) \<and> \<not> wp_receiver_dropped q" for q :: worker_pool
  have "stuck (scheduled blake k q)" if "stuck q" for k q
    using that by (cases "k = i") (auto simp: stuck_def scheduled_def worker_step_def Let_def split: worker_phase.split option.split prod.split)
  then have "stuck q \<Longrightarrow> stuck (worker_steps blake schedule q)" for q
    unfolding worker_steps_def by (induction schedule arbitrary: q) simp_all
  moreover have "stuck (pool_stop p)"
    using assms by (simp add: stuck_def pool_stop_def worker_stop_def)
  ultimately have "stuck (worker_steps blake schedule (pool_stop p))"
    by blast
  then show ?thesis
    using nth_mem by (fastforce simp: stuck_def all_ended_def)
qed

lemma worker_steps_run: "pool_run blake p0 p \<Longrightarrow> pool_run blake p0 (worker_steps blake schedule p)"
proof (induction schedule arbitrary: p)
  case (Cons i schedule)
  have "pool_run blake p0 (scheduled blake i p)"
    using Cons.prems by (auto simp: scheduled_def split: option.split intro: pool_next step_worker)
  then show ?case
    using Cons.IH by (simp add: worker_steps_def)
qed (simp add: worker_steps_def)

text \<open>A lone worker with an easy task fills the channel, as it starts over on the task it has solved.\<close>

definition lone_pool :: "u64 \<Rightarrow> u64 \<Rightarrow> nat \<Rightarrow> worker_phase \<Rightarrow> found_solution list \<Rightarrow> worker_pool" where
  "lone_pool hashes nonce seen ph sols =
     \<lparr>wp_workers = [\<lparr>pw_worker = \<lparr>wk_id = 0, wk_nonce_offset = worker_nonce_offset 0 7, wk_hash_count = hashes, wk_local_nonce = nonce\<rparr>,
        pw_running = True, pw_seen = seen, pw_phase = ph\<rparr>],
      wp_task = Some (candidate_task (Inr []) easy_candidate), wp_version = 1, wp_solutions = sols, wp_capacity = 2,
      wp_receiver_dropped = False, wp_running = True\<rparr>"

lemma lone_pool_finds:
  "\<exists>hashes' nonce' f. worker_steps zero_hash [0, 0, 0, 0] (lone_pool hashes nonce seen Looking sols) = lone_pool hashes' nonce' 1 (Sending f) sols"
proof -
  let ?nonce = "worker_nonce_offset 0 7 + hashes" and ?t = "candidate_task (Inr []) easy_candidate"
  have "scheduled zero_hash 0 (lone_pool hashes nonce seen Looking sols) = lone_pool hashes nonce seen Taking sols"
    "scheduled zero_hash 0 (lone_pool hashes nonce seen Taking sols) = lone_pool hashes ?nonce 1 (Checking ?t) sols"
    "scheduled zero_hash 0 (lone_pool hashes ?nonce 1 (Checking ?t) sols) = lone_pool hashes ?nonce 1 (Trying ?t) sols"
    by (simp_all add: scheduled_def worker_step_def lone_pool_def set_phase_def worker_take_task_def)
  moreover have "\<exists>hashes' nonce' f. scheduled zero_hash 0 (lone_pool hashes ?nonce 1 (Trying ?t) sols) = lone_pool hashes' nonce' 1 (Sending f) sols"
    by (simp add: scheduled_def worker_step_def lone_pool_def set_phase_def worker_batch_def candidate_task_def zero_hash_solves WORKER_BATCH_SIZE_def)
  ultimately show ?thesis
    by (simp add: worker_steps_def)
qed

lemma lone_pool_sends:
  "length sols < 2 \<Longrightarrow> worker_steps zero_hash [0] (lone_pool hashes nonce seen (Sending f) sols) = lone_pool hashes nonce seen Looking (sols @ [f])"
  by (simp add: worker_steps_def scheduled_def worker_step_def lone_pool_def set_phase_def)

lemma lone_pool_reached:
  assumes p0: "pool_new [7] = Some p0"
  shows "\<exists>hashes nonce f sols. pool_run zero_hash p0 (lone_pool hashes nonce 1 (Sending f) sols) \<and> length sols = 2"
proof -
  have found: "\<exists>hashes nonce f. pool_run zero_hash p0 (lone_pool hashes nonce 1 (Sending f) sols)"
    if "pool_run zero_hash p0 (lone_pool h n k Looking sols)" for h n k sols
    using worker_steps_run [OF that, of "[0, 0, 0, 0]"] lone_pool_finds [of h n k sols] by metis
  have sent: "\<exists>hashes nonce k f. pool_run zero_hash p0 (lone_pool hashes nonce k Looking (sols @ [f]))"
    if "pool_run zero_hash p0 (lone_pool h n k Looking sols)" "length sols < 2" for h n k sols
    using found [OF that(1)] worker_steps_run lone_pool_sends [OF that(2)] by metis
  have "broadcast_task (candidate_task (Inr []) easy_candidate) p0 = lone_pool 0 0 0 Looking []"
    using p0 by (auto simp: pool_new_def broadcast_task_def lone_pool_def worker_spawn_def)
  then have "pool_run zero_hash p0 (lone_pool 0 0 0 Looking [])"
    using pool_next [OF pool_start step_broadcast] by metis
  then obtain h n k f where "pool_run zero_hash p0 (lone_pool h n k Looking [f])"
    using sent [of 0 0 0 "[]"] by auto
  then obtain h n k f' where "pool_run zero_hash p0 (lone_pool h n k Looking [f, f'])"
    using sent [of h n k "[f]"] by auto
  then show ?thesis
    using found by fastforce
qed

theorem full_channel_blocks_shutdown_witness:
  "\<exists>p0 p. pool_new [7] = Some p0 \<and> pool_run zero_hash p0 p \<and> \<not> all_ended (worker_steps zero_hash [0, 0, 0, 0, 0, 0] (pool_stop p))"
proof -
  obtain p0 where p0: "pool_new [7] = Some p0"
    by (simp add: pool_new_def)
  obtain hashes nonce f sols where run: "pool_run zero_hash p0 (lone_pool hashes nonce 1 (Sending f) sols)" "length sols = 2"
    using lone_pool_reached [OF p0] by blast
  have "\<not> all_ended (worker_steps zero_hash [0, 0, 0, 0, 0, 0] (pool_stop (lone_pool hashes nonce 1 (Sending f) sols)))"
    by (rule full_channel_blocks_shutdown [of 0 _ f]) (simp_all add: lone_pool_def run(2))
  then show ?thesis
    using p0 run(1) by blast
qed

end
