(* ===== verification/Tracker.thy ===== *)
theory Tracker
  imports Utxo "HOL-Library.Multiset"
begin

text \<open>
  The box tracker of the wallet (\<open>crates/ergo-wallet/src/tracker.rs\<close>). The hash map of boxes is an
  association list and \<open>order\<close> the order in which it is visited. What a tracker holds is the multiset of
  its boxes, which the operations change as an abstract collection would; the balance is the sum over it.
\<close>

subsection \<open>Boxes, balances and the tracker\<close>

record wallet_box =
  wb_box_id :: bytes
  wb_value :: u64
  wb_tokens :: "(bytes \<times> u64) list"
  wb_creation_height :: u32
  wb_address :: string
  wb_pending_spent :: bool

record wallet_balance =
  wl_total_erg :: u64
  wl_confirmed_erg :: u64
  wl_pending_erg :: u64
  wl_tokens :: "bytes \<Rightarrow> u64 option"

definition wallet_balance_default :: wallet_balance where
  "wallet_balance_default = \<lparr>wl_total_erg = 0, wl_confirmed_erg = 0, wl_pending_erg = 0, wl_tokens = Map.empty\<rparr>"

record box_tracker =
  bt_addresses :: "string set"
  bt_boxes :: "(string \<times> wallet_box list) list"
  bt_scanned_height :: u32

type_synonym box_order = "(string \<times> wallet_box list) list \<Rightarrow> (string \<times> wallet_box list) list"

definition tracker_new :: box_tracker where
  "tracker_new = \<lparr>bt_addresses = {}, bt_boxes = [], bt_scanned_height = 0\<rparr>"

definition track_address_str :: "string \<Rightarrow> box_tracker \<Rightarrow> box_tracker" where
  "track_address_str address tr =
     (if address \<in> bt_addresses tr then tr
      else tr\<lparr>bt_addresses := insert address (bt_addresses tr), bt_boxes := AList.update address [] (bt_boxes tr)\<rparr>)"

definition track_address :: "bytes \<Rightarrow> box_tracker \<Rightarrow> box_tracker" where
  "track_address address tr = track_address_str (hex_encode address) tr"

definition is_tracked :: "box_tracker \<Rightarrow> string \<Rightarrow> bool" where
  "is_tracked tr address = (address \<in> bt_addresses tr)"

definition current_height :: "utxo_state \<Rightarrow> u32" where
  "current_height st = us_height st"

definition get_boxes_for_address :: "box_tracker \<Rightarrow> string \<Rightarrow> wallet_box list" where
  "get_boxes_for_address tr address = (case map_of (bt_boxes tr) address of Some boxes \<Rightarrow> boxes | None \<Rightarrow> [])"

definition get_unspent :: "box_order \<Rightarrow> box_tracker \<Rightarrow> wallet_box list" where
  "get_unspent order tr = filter (\<lambda>b. \<not> wb_pending_spent b) (concat (map snd (order (bt_boxes tr))))"

definition add_to_tokens :: "bytes \<times> u64 \<Rightarrow> (bytes \<Rightarrow> u64 option) \<Rightarrow> bytes \<Rightarrow> u64 option" where
  "add_to_tokens t tokens = tokens(fst t \<mapsto> (case tokens (fst t) of Some n \<Rightarrow> n | None \<Rightarrow> 0) + snd t)"

definition add_to_balance :: "wallet_box \<Rightarrow> wallet_balance \<Rightarrow> wallet_balance" where
  "add_to_balance b bal =
     bal\<lparr>wl_total_erg := wl_total_erg bal + wb_value b, wl_confirmed_erg := wl_confirmed_erg bal + wb_value b,
         wl_tokens := fold add_to_tokens (wb_tokens b) (wl_tokens bal)\<rparr>"

definition tracker_balance :: "box_order \<Rightarrow> box_tracker \<Rightarrow> wallet_balance" where
  "tracker_balance order tr = fold add_to_balance (get_unspent order tr) wallet_balance_default"

text \<open>A scan looks at no block; it only remembers the height, and returns the number of blocks it passed over.\<close>

definition tracker_scan :: "utxo_state \<Rightarrow> box_tracker \<Rightarrow> u32 \<times> box_tracker" where
  "tracker_scan st tr =
     (let height = current_height st; last_scanned = bt_scanned_height tr in
      if height \<le> last_scanned then (0, tr)
      else (height - last_scanned, tr\<lparr>bt_scanned_height := height\<rparr>))"

fun mark_first :: "bytes \<Rightarrow> wallet_box list \<Rightarrow> wallet_box list" where
  "mark_first box_id [] = []"
| "mark_first box_id (b # bs) =
     (if wb_box_id b = box_id then b\<lparr>wb_pending_spent := True\<rparr> # bs else b # mark_first box_id bs)"

text \<open>The first box with the identifier, in the order of the map.\<close>

definition tracker_mark_spent :: "box_order \<Rightarrow> bytes \<Rightarrow> box_tracker \<Rightarrow> box_tracker" where
  "tracker_mark_spent order box_id tr =
     (case find (\<lambda>(_, bs). box_id \<in> set (map wb_box_id bs)) (order (bt_boxes tr)) of
        None \<Rightarrow> tr
      | Some (address, bs) \<Rightarrow> tr\<lparr>bt_boxes := AList.update address (mark_first box_id bs) (bt_boxes tr)\<rparr>)"

definition tracker_add_box :: "string \<Rightarrow> wallet_box \<Rightarrow> box_tracker \<Rightarrow> box_tracker" where
  "tracker_add_box address b tr =
     (case map_of (bt_boxes tr) address of
        Some bs \<Rightarrow> tr\<lparr>bt_boxes := AList.update address (bs @ [b]) (bt_boxes tr)\<rparr>
      | None \<Rightarrow>
          tr\<lparr>bt_boxes := AList.update address [b] (bt_boxes tr), bt_addresses := insert address (bt_addresses tr)\<rparr>)"

definition tracker_remove_spent :: "bytes list \<Rightarrow> box_tracker \<Rightarrow> box_tracker" where
  "tracker_remove_spent box_ids tr =
     tr\<lparr>bt_boxes := map (\<lambda>(address, bs). (address, filter (\<lambda>b. wb_box_id b \<notin> set box_ids) bs)) (bt_boxes tr)\<rparr>"

definition tracker_clear :: "box_tracker \<Rightarrow> box_tracker" where
  "tracker_clear tr = tracker_new"

subsection \<open>What a tracker holds\<close>

definition held :: "box_tracker \<Rightarrow> wallet_box multiset" where
  "held tr = mset (concat (map snd (bt_boxes tr)))"

definition tracker_ok :: "box_tracker \<Rightarrow> bool" where
  "tracker_ok tr \<longleftrightarrow> distinct (map fst (bt_boxes tr)) \<and> fst ` set (bt_boxes tr) = bt_addresses tr"

text \<open>What the wallet relies on: tracking an address only adds it, and loses no box.\<close>

locale address_book =
  fixes track :: "'a \<Rightarrow> 's \<Rightarrow> 's" and tracked :: "'s \<Rightarrow> 'a \<Rightarrow> bool" and holdings :: "'s \<Rightarrow> 'h" and good :: "'s \<Rightarrow> bool"
  assumes tracked_track: "tracked (track a s) b \<longleftrightarrow> b = a \<or> tracked s b"
    and holdings_track: "good s \<Longrightarrow> holdings (track a s) = holdings s"
    and good_track: "good s \<Longrightarrow> good (track a s)"
begin

lemma track_all:
  "tracked (fold track as s) b \<longleftrightarrow> b \<in> set as \<or> tracked s b"
  "good s \<Longrightarrow> holdings (fold track as s) = holdings s \<and> good (fold track as s)"
  by (induction as arbitrary: s) (auto simp: tracked_track holdings_track good_track)

end

lemma held_update:
  assumes "distinct (map fst m)" "map_of m a = Some bs"
  shows "mset (concat (map snd (AList.update a bs' m))) + mset bs = mset (concat (map snd m)) + mset bs'"
  using assms
proof (induction m)
  case (Cons kv m)
  then show ?case
    by (cases kv) (auto split: if_splits)
qed simp

lemma held_fresh:
  "map_of m a = None \<Longrightarrow> mset (concat (map snd (AList.update a bs m))) = mset (concat (map snd m)) + mset bs"
  by (simp add: update_fresh)

lemma keys_update: "fst ` set (AList.update a bs m) = insert a (fst ` set m)"
  using dom_update [of a bs m] by (simp add: dom_map_of_conv_image_fst)

lemma tracker_ok_update:
  "tracker_ok tr \<Longrightarrow> bt_addresses tr' = insert a (bt_addresses tr) \<Longrightarrow> bt_boxes tr' = AList.update a bs (bt_boxes tr) \<Longrightarrow> tracker_ok tr'"
  by (simp add: tracker_ok_def keys_update distinct_update)

lemma tracker_ok_lookup: "tracker_ok tr \<Longrightarrow> map_of (bt_boxes tr) a = None \<longleftrightarrow> a \<notin> bt_addresses tr"
  by (simp add: tracker_ok_def map_of_eq_None_iff)

interpretation bt: address_book track_address_str is_tracked held tracker_ok
proof
  fix a b :: string and tr :: box_tracker
  show "is_tracked (track_address_str a tr) b \<longleftrightarrow> b = a \<or> is_tracked tr b"
    by (auto simp: is_tracked_def track_address_str_def)
  assume ok: "tracker_ok tr"
  show "held (track_address_str a tr) = held tr"
    using tracker_ok_lookup [OF ok, of a] by (simp add: held_def track_address_str_def held_fresh)
  show "tracker_ok (track_address_str a tr)"
    using ok by (auto simp: track_address_str_def intro: tracker_ok_update)
qed

lemma add_box_held:
  assumes ok: "tracker_ok tr"
  shows "tracker_ok (tracker_add_box a b tr) \<and> held (tracker_add_box a b tr) = add_mset b (held tr)"
proof (cases "map_of (bt_boxes tr) a")
  case None
  then show ?thesis
    using tracker_ok_update [OF ok, of _ a "[b]"] by (simp add: tracker_add_box_def held_def held_fresh)
next
  case (Some bs)
  then have "a \<in> bt_addresses tr"
    using tracker_ok_lookup [OF ok, of a] by auto
  moreover have "distinct (map fst (bt_boxes tr))"
    using ok by (simp add: tracker_ok_def)
  ultimately show ?thesis
    using Some held_update [of "bt_boxes tr" a bs "bs @ [b]"] tracker_ok_update [OF ok, of _ a "bs @ [b]"]
    by (simp add: tracker_add_box_def held_def insert_absorb)
qed

lemma remove_spent_held:
  assumes "tracker_ok tr"
  shows "tracker_ok (tracker_remove_spent ids tr) \<and> held (tracker_remove_spent ids tr) = filter_mset (\<lambda>b. wb_box_id b \<notin> set ids) (held tr)"
proof -
  have "mset (concat (map (\<lambda>x. filter P (snd x)) m)) = filter_mset P (mset (concat (map snd m)))" for P and m :: "(string \<times> wallet_box list) list"
    by (induction m) auto
  moreover have "distinct (map fst (bt_boxes tr))" "fst ` set (bt_boxes tr) = bt_addresses tr"
    using assms by (simp_all add: tracker_ok_def)
  ultimately show ?thesis
    by (simp add: tracker_ok_def tracker_remove_spent_def held_def case_prod_unfold comp_def image_image)
qed

lemma mark_first_held:
  "box_id \<in> set (map wb_box_id bs) \<Longrightarrow> \<exists>b \<in> set bs. wb_box_id b = box_id
     \<and> mset (mark_first box_id bs) = add_mset (b\<lparr>wb_pending_spent := True\<rparr>) (mset bs - {#b#})"
  by (induction bs) (auto simp: add_mset_commute)

lemma mark_spent_held:
  assumes ok: "tracker_ok tr" and order: "\<And>m. mset (order m) = mset m"
  shows "tracker_ok (tracker_mark_spent order box_id tr)
    \<and> (if box_id \<in># image_mset wb_box_id (held tr)
       then \<exists>b. b \<in># held tr \<and> wb_box_id b = box_id
         \<and> held (tracker_mark_spent order box_id tr) = add_mset (b\<lparr>wb_pending_spent := True\<rparr>) (held tr - {#b#})
       else tracker_mark_spent order box_id tr = tr)"
proof -
  have d: "distinct (map fst (bt_boxes tr))"
    using ok by (simp add: tracker_ok_def)
  have same: "set (order (bt_boxes tr)) = set (bt_boxes tr)"
    using order by (metis set_mset_mset)
  show ?thesis
  proof (cases "find (\<lambda>(_, bs). box_id \<in> set (map wb_box_id bs)) (order (bt_boxes tr))")
    case None
    then have "box_id \<notin># image_mset wb_box_id (held tr)"
      by (fastforce simp: find_None_iff same held_def)
    then show ?thesis
      using None ok by (simp add: tracker_mark_spent_def)
  next
    case (Some entry)
    then obtain a bs where e: "entry = (a, bs)" "(a, bs) \<in> set (bt_boxes tr)" "box_id \<in> set (map wb_box_id bs)"
      using nth_mem by (cases entry) (fastforce simp: find_Some_iff same [symmetric])
    then have look: "map_of (bt_boxes tr) a = Some bs"
      using d by (simp add: map_of_eq_Some_iff)
    obtain b where b: "b \<in> set bs" "wb_box_id b = box_id"
      "mset (mark_first box_id bs) = add_mset (b\<lparr>wb_pending_spent := True\<rparr>) (mset bs - {#b#})"
      using mark_first_held [OF e(3)] by blast
    have t: "tracker_mark_spent order box_id tr = tr\<lparr>bt_boxes := AList.update a (mark_first box_id bs) (bt_boxes tr)\<rparr>"
      using Some e(1) by (simp add: tracker_mark_spent_def)
    have sub: "mset bs \<subseteq># held tr" and inb: "b \<in># held tr"
      using e(2) b(1) by (auto simp: held_def dest!: split_list)
    have "held (tracker_mark_spent order box_id tr) + mset bs = held tr + mset (mark_first box_id bs)"
      using held_update [OF d look] by (simp add: t held_def)
    also have "\<dots> = add_mset (b\<lparr>wb_pending_spent := True\<rparr>) (held tr - {#b#}) + mset bs"
      using b(1) inb by (simp add: b(3) multiset_eq_iff)
    finally have "held (tracker_mark_spent order box_id tr) = add_mset (b\<lparr>wb_pending_spent := True\<rparr>) (held tr - {#b#})"
      by simp
    moreover have "tracker_ok (tracker_mark_spent order box_id tr)"
      using tracker_ok_update [OF ok, of _ a "mark_first box_id bs"] tracker_ok_lookup [OF ok, of a] look
      by (simp add: t insert_absorb)
    moreover have "box_id \<in># image_mset wb_box_id (held tr)"
      using inb b(2) by auto
    ultimately show ?thesis
      using inb b(2) by auto
  qed
qed

subsection \<open>The balance\<close>

definition unspent :: "box_tracker \<Rightarrow> wallet_box multiset" where
  "unspent tr = filter_mset (\<lambda>b. \<not> wb_pending_spent b) (held tr)"

definition held_tokens :: "bytes \<Rightarrow> wallet_box \<Rightarrow> u64" where
  "held_tokens i b = sum_list (map snd (filter (\<lambda>t. fst t = i) (wb_tokens b)))"

definition or_zero :: "u64 option \<Rightarrow> u64" where
  "or_zero r = (case r of Some n \<Rightarrow> n | None \<Rightarrow> 0)"

lemma or_zero_simps [simp]: "or_zero None = 0" "or_zero (Some n) = n"
  by (simp_all add: or_zero_def)

lemma fold_add_to_tokens:
  "or_zero (fold add_to_tokens ts m i) = or_zero (m i) + sum_list (map snd (filter (\<lambda>t. fst t = i) ts))"
  by (induction ts arbitrary: m) (auto simp: add_to_tokens_def or_zero_def add.assoc split: option.split)

lemma fold_add_to_balance:
  "wl_total_erg (fold add_to_balance bs bal) = wl_total_erg bal + sum_list (map wb_value bs)"
  "wl_confirmed_erg (fold add_to_balance bs bal) = wl_confirmed_erg bal + sum_list (map wb_value bs)"
  "wl_pending_erg (fold add_to_balance bs bal) = wl_pending_erg bal"
  "or_zero (wl_tokens (fold add_to_balance bs bal) i) = or_zero (wl_tokens bal i) + sum_list (map (held_tokens i) bs)"
  by (induction bs arbitrary: bal) (simp_all add: add_to_balance_def fold_add_to_tokens held_tokens_def add.assoc)

lemma get_unspent_mset:
  assumes "\<And>m. mset (order m) = mset m"
  shows "mset (get_unspent order tr) = unspent tr"
proof -
  have sum: "mset (concat (map snd m)) = \<Sum>\<^sub># (image_mset (mset \<circ> snd) (mset m))" for m :: "(string \<times> wallet_box list) list"
    by (induction m) simp_all
  then have "mset (concat (map snd (order m))) = mset (concat (map snd m))" for m
    unfolding sum assms ..
  then show ?thesis
    by (simp add: get_unspent_def unspent_def held_def)
qed

lemma tracker_balance_sums:
  assumes "\<And>m. mset (order m) = mset m"
  shows "wl_total_erg (tracker_balance order tr) = \<Sum>\<^sub># (image_mset wb_value (unspent tr))
    \<and> wl_confirmed_erg (tracker_balance order tr) = wl_total_erg (tracker_balance order tr)
    \<and> wl_pending_erg (tracker_balance order tr) = 0
    \<and> or_zero (wl_tokens (tracker_balance order tr) i) = \<Sum>\<^sub># (image_mset (held_tokens i) (unspent tr))"
proof -
  have "sum_list (map f (get_unspent order tr)) = \<Sum>\<^sub># (image_mset f (unspent tr))" for f :: "wallet_box \<Rightarrow> u64"
    using get_unspent_mset [OF assms, of tr] by (metis mset_map sum_mset_sum_list)
  then show ?thesis
    by (simp add: tracker_balance_def fold_add_to_balance wallet_balance_default_def)
qed

text \<open>The tracker implements a collection of boxes: in whatever order its hash map is visited, tracking an address
  changes no box, an added box is one more, removal takes away exactly the boxes named, marking changes
  one box with the identifier, and the balance sums values and tokens over all boxes that are not marked.\<close>
theorem tracker_refines_holdings:
  assumes "tracker_ok tr" "\<And>m. mset (order m) = mset m"
  shows "tracker_ok (track_address_str a tr) \<and> held (track_address_str a tr) = held tr
    \<and> tracker_ok (tracker_add_box a b tr) \<and> held (tracker_add_box a b tr) = add_mset b (held tr)
    \<and> tracker_ok (tracker_remove_spent ids tr)
    \<and> held (tracker_remove_spent ids tr) = filter_mset (\<lambda>b. wb_box_id b \<notin> set ids) (held tr)
    \<and> tracker_ok (tracker_mark_spent order i tr)
    \<and> (if i \<in># image_mset wb_box_id (held tr)
       then \<exists>b. b \<in># held tr \<and> wb_box_id b = i
         \<and> held (tracker_mark_spent order i tr) = add_mset (b\<lparr>wb_pending_spent := True\<rparr>) (held tr - {#b#})
       else tracker_mark_spent order i tr = tr)
    \<and> wl_total_erg (tracker_balance order tr) = \<Sum>\<^sub># (image_mset wb_value (unspent tr))
    \<and> or_zero (wl_tokens (tracker_balance order tr) t) = \<Sum>\<^sub># (image_mset (held_tokens t) (unspent tr))"
proof -
  show ?thesis
    using bt.holdings_track [OF assms(1), of a] bt.good_track [OF assms(1), of a] add_box_held [OF assms(1), of a b]
      remove_spent_held [OF assms(1), of ids] mark_spent_held [OF assms(1), of order i, OF assms(2)] tracker_balance_sums [of order tr t, OF assms(2)]
    by (elim conjE) (intro conjI; assumption)
qed

definition sample_box :: wallet_box where
  "sample_box = \<lparr>wb_box_id = [1], wb_value = 5, wb_tokens = [([9], 2)], wb_creation_height = 1, wb_address = ''a'', wb_pending_spent = False\<rparr>"

theorem tracker_refines_holdings_witness:
  "wl_total_erg (tracker_balance rev (tracker_add_box ''a'' sample_box tracker_new)) = 5"
proof -
  have ok: "tracker_ok (tracker_add_box ''a'' sample_box tracker_new)"
    by (simp add: tracker_ok_def tracker_add_box_def tracker_new_def)
  have "wl_total_erg (tracker_balance rev (tracker_add_box ''a'' sample_box tracker_new))
      = \<Sum>\<^sub># (image_mset wb_value (unspent (tracker_add_box ''a'' sample_box tracker_new)))"
    using tracker_refines_holdings [OF ok, of rev] by simp
  then show ?thesis
    by (simp add: unspent_def held_def tracker_add_box_def tracker_new_def sample_box_def)
qed

end
