(* ===== verification/Keystore.thy ===== *)
theory Keystore
  imports Tracker Consensus
begin

text \<open>
  The key store of the wallet (\<open>crates/ergo-wallet/src/keystore.rs\<close>, \<open>error.rs\<close>). The cryptography
  (Argon2id, AES-256-GCM, BIP32 and BIP39), the JSON of the file and the file system are arguments; the
  store itself, what it keeps in memory and what it writes are modelled. The file at the path of the
  store is part of its state. A panic is an error value of its own.
\<close>

datatype wallet_error =
    NotInitialized
  | WalletLocked
  | InvalidPassword
  | InvalidMnemonic string
  | KeyDerivation string
  | WE_InsufficientFunds u64 u64
  | AddressNotFound string
  | WE_TxBuild string
  | WE_Signing string
  | WE_State state_error
  | WE_Io string
  | WalletPanic string

datatype wallet_network = WMainnet | WTestnet

subsection \<open>Keys\<close>

definition ENCRYPTION_VERSION :: u8 where "ENCRYPTION_VERSION = 1"

record encrypted_key =
  ek_version :: u8
  ek_encrypted_seed :: bytes
  ek_salt :: string
  ek_nonce :: bytes
  ek_memory_cost :: u32
  ek_time_cost :: u32
  ek_parallelism :: u32

record 'p derived_key =
  dk_secret_key :: bytes
  dk_path :: 'p
  dk_address :: bytes
  dk_address_str :: string

text \<open>
  The third-party code: \<open>'m\<close> are master keys, \<open>'x\<close> extended keys, \<open>'p\<close> parsed paths. A write to the file
  returns its error, if any, and what the file then holds.
\<close>

record ('m, 'x, 'p) wallet_env =
  we_to_seed :: "nat list \<Rightarrow> string \<Rightarrow> bytes"
  we_derive_master :: "bytes \<Rightarrow> string + 'm"
  we_parse_path :: "string \<Rightarrow> string + 'p"
  we_derive :: "'m \<Rightarrow> 'p \<Rightarrow> string + 'x"
  we_secret_key :: "'x \<Rightarrow> bytes"
  we_address :: "'x \<Rightarrow> string + bytes"
  we_to_base58 :: "wallet_network \<Rightarrow> bytes \<Rightarrow> string"
  we_argon2_params :: "u32 \<Rightarrow> u32 \<Rightarrow> u32 \<Rightarrow> string option"
  we_argon2 :: "u32 \<Rightarrow> u32 \<Rightarrow> u32 \<Rightarrow> string \<Rightarrow> string \<Rightarrow> string + bytes"
  we_encrypt :: "bytes \<Rightarrow> bytes \<Rightarrow> bytes \<Rightarrow> string + bytes"
  we_decrypt :: "bytes \<Rightarrow> bytes \<Rightarrow> bytes \<Rightarrow> bytes option"
  we_to_json :: "encrypted_key \<Rightarrow> string + string"
  we_from_json :: "string \<Rightarrow> string + encrypted_key"
  we_write :: "string \<Rightarrow> string option \<Rightarrow> string option \<times> string option"
  we_read_error :: "string option"

record ('m, 'p) keystore =
  ks_path :: bool
  ks_file :: "string option"
  ks_encrypted :: "encrypted_key option"
  ks_seed :: "bytes option"
  ks_master_key :: "'m option"
  ks_network :: wallet_network
  ks_derived_keys :: "'p derived_key list"

definition keystore_with_network :: "wallet_network \<Rightarrow> ('m, 'p) keystore" where
  "keystore_with_network network =
     \<lparr>ks_path = False, ks_file = None, ks_encrypted = None, ks_seed = None, ks_master_key = None, ks_network = network, ks_derived_keys = []\<rparr>"

definition keystore_new :: "('m, 'p) keystore" where
  "keystore_new = keystore_with_network WMainnet"

text \<open>A store backed by a file, with what is in the file.\<close>

definition keystore_with_path_and_network :: "string option \<Rightarrow> wallet_network \<Rightarrow> ('m, 'p) keystore" where
  "keystore_with_path_and_network file network =
     \<lparr>ks_path = True, ks_file = file, ks_encrypted = None, ks_seed = None, ks_master_key = None, ks_network = network, ks_derived_keys = []\<rparr>"

definition keystore_with_path :: "string option \<Rightarrow> ('m, 'p) keystore" where
  "keystore_with_path file = keystore_with_path_and_network file WMainnet"

definition ks_is_initialized :: "('m, 'p) keystore \<Rightarrow> bool" where
  "ks_is_initialized ks = (ks_encrypted ks \<noteq> None)"

definition ks_is_unlocked :: "('m, 'p) keystore \<Rightarrow> bool" where
  "ks_is_unlocked ks = (ks_seed ks \<noteq> None)"

definition derive_key_argon2id :: "('m, 'x, 'p) wallet_env \<Rightarrow> string \<Rightarrow> string \<Rightarrow> u32 \<Rightarrow> u32 \<Rightarrow> u32 \<Rightarrow> wallet_error + bytes" where
  "derive_key_argon2id env password salt memory_cost time_cost parallelism =
     (case we_argon2_params env memory_cost time_cost parallelism of
        Some e \<Rightarrow> Inl (KeyDerivation (''Invalid Argon2 params: '' @ e))
      | None \<Rightarrow>
          (case we_argon2 env memory_cost time_cost parallelism password salt of
             Inl e \<Rightarrow> Inl (KeyDerivation (''Argon2id failed: '' @ e))
           | Inr key \<Rightarrow> Inr key))"

text \<open>The salt and the nonce are random. A cipher is made from any key of 32 bytes.\<close>

definition encrypt_and_store_seed ::
  "('m, 'x, 'p) wallet_env \<Rightarrow> string \<Rightarrow> bytes \<Rightarrow> bytes \<Rightarrow> string \<Rightarrow> ('m, 'p) keystore \<Rightarrow> (wallet_error + unit) \<times> ('m, 'p) keystore" where
  "encrypt_and_store_seed env salt nonce seed password ks =
     (case derive_key_argon2id env password salt 65536 3 4 of
        Inl e \<Rightarrow> (Inl e, ks)
      | Inr key \<Rightarrow>
          (case we_encrypt env key nonce seed of
             Inl e \<Rightarrow> (Inl (KeyDerivation (''Encryption failed: '' @ e)), ks)
           | Inr encrypted_seed \<Rightarrow>
               let encrypted = \<lparr>ek_version = ENCRYPTION_VERSION, ek_encrypted_seed = encrypted_seed, ek_salt = salt, ek_nonce = nonce,
                     ek_memory_cost = 65536, ek_time_cost = 3, ek_parallelism = 4\<rparr>;
                   ks = ks\<lparr>ks_encrypted := Some encrypted\<rparr>
               in if ks_path ks
                  then case we_to_json env encrypted of
                         Inl e \<Rightarrow> (Inl (WE_Io e), ks)
                       | Inr json \<Rightarrow>
                           (case we_write env json (ks_file ks) of
                              (Some e, file) \<Rightarrow> (Inl (WE_Io e), ks\<lparr>ks_file := file\<rparr>)
                            | (None, file) \<Rightarrow> (Inr (), ks\<lparr>ks_file := file\<rparr>))
                  else (Inr (), ks)))"

definition initialize_from_seed ::
  "('m, 'x, 'p) wallet_env \<Rightarrow> string \<Rightarrow> bytes \<Rightarrow> bytes \<Rightarrow> string \<Rightarrow> ('m, 'p) keystore \<Rightarrow> (wallet_error + unit) \<times> ('m, 'p) keystore" where
  "initialize_from_seed env salt nonce seed encryption_password ks =
     (case we_derive_master env seed of
        Inl e \<Rightarrow> (Inl (KeyDerivation (''Failed to derive master key: '' @ e)), ks)
      | Inr master \<Rightarrow>
          (case encrypt_and_store_seed env salt nonce seed encryption_password ks of
             (Inl e, ks) \<Rightarrow> (Inl e, ks)
           | (Inr _, ks) \<Rightarrow> (Inr (), ks\<lparr>ks_seed := Some seed, ks_master_key := Some master\<rparr>)))"

text \<open>A phrase is the list of its code points; words are separated by Unicode white space.\<close>

definition is_white :: "nat \<Rightarrow> bool" where
  "is_white c \<longleftrightarrow> 9 \<le> c \<and> c \<le> 13 \<or> 8192 \<le> c \<and> c \<le> 8202 \<or> c \<in> {32, 133, 160, 5760, 8232, 8233, 8239, 8287, 12288}"

fun split_white :: "nat list \<Rightarrow> nat list \<Rightarrow> nat list list" where
  "split_white word [] = [word]"
| "split_white word (c # cs) = (if is_white c then word # split_white [] cs else split_white (word @ [c]) cs)"

definition word_count :: "nat list \<Rightarrow> nat" where
  "word_count phrase = length (filter (\<lambda>w. w \<noteq> []) (split_white [] phrase))"

definition initialize_from_mnemonic ::
  "('m, 'x, 'p) wallet_env \<Rightarrow> string \<Rightarrow> bytes \<Rightarrow> nat list \<Rightarrow> string \<Rightarrow> string \<Rightarrow> ('m, 'p) keystore \<Rightarrow> (wallet_error + unit) \<times> ('m, 'p) keystore" where
  "initialize_from_mnemonic env salt nonce mnemonic mnemonic_password encryption_password ks =
     (let n = word_count mnemonic in
      if n \<notin> {12, 15, 18, 21, 24}
      then (Inl (InvalidMnemonic (''Invalid word count: '' @ show_nat n @ ''. Expected 12, 15, 18, 21, or 24 words.'')), ks)
      else
        let seed = we_to_seed env mnemonic mnemonic_password in
        case we_derive_master env seed of
          Inl e \<Rightarrow> (Inl (KeyDerivation (''Failed to derive master key: '' @ e)), ks)
        | Inr master \<Rightarrow>
            (case encrypt_and_store_seed env salt nonce seed encryption_password ks of
               (Inl e, ks) \<Rightarrow> (Inl e, ks)
             | (Inr _, ks) \<Rightarrow> (Inr (), ks\<lparr>ks_seed := Some seed, ks_master_key := Some master\<rparr>)))"

definition ks_load :: "('m, 'x, 'p) wallet_env \<Rightarrow> ('m, 'p) keystore \<Rightarrow> (wallet_error + unit) \<times> ('m, 'p) keystore" where
  "ks_load env ks =
     (if \<not> ks_path ks then (Inl (WE_Io ''No path set''), ks)
      else case ks_file ks of
             None \<Rightarrow> (Inl NotInitialized, ks)
           | Some json \<Rightarrow>
               (case we_read_error env of
                  Some e \<Rightarrow> (Inl (WE_Io e), ks)
                | None \<Rightarrow>
                    (case we_from_json env json of
                       Inl e \<Rightarrow> (Inl (WE_Io e), ks)
                     | Inr encrypted \<Rightarrow> (Inr (), ks\<lparr>ks_encrypted := Some encrypted\<rparr>))))"

text \<open>A nonce that does not have 12 bytes makes \<open>Nonce::from_slice\<close> panic.\<close>

definition ks_unlock :: "('m, 'x, 'p) wallet_env \<Rightarrow> string \<Rightarrow> ('m, 'p) keystore \<Rightarrow> (wallet_error + unit) \<times> ('m, 'p) keystore" where
  "ks_unlock env password ks =
     (case ks_encrypted ks of
        None \<Rightarrow> (Inl NotInitialized, ks)
      | Some encrypted \<Rightarrow>
          (case derive_key_argon2id env password (ek_salt encrypted) (ek_memory_cost encrypted) (ek_time_cost encrypted) (ek_parallelism encrypted) of
             Inl e \<Rightarrow> (Inl e, ks)
           | Inr key \<Rightarrow>
               if length (ek_nonce encrypted) \<noteq> 12 then (Inl (WalletPanic ''nonce length''), ks)
               else case we_decrypt env key (ek_nonce encrypted) (ek_encrypted_seed encrypted) of
                      None \<Rightarrow> (Inl InvalidPassword, ks)
                    | Some seed \<Rightarrow>
                        if length seed \<noteq> 64 then (Inl InvalidPassword, ks)
                        else case we_derive_master env seed of
                               Inl _ \<Rightarrow> (Inl InvalidPassword, ks)
                             | Inr master \<Rightarrow> (Inr (), ks\<lparr>ks_seed := Some seed, ks_master_key := Some master\<rparr>)))"

definition ks_lock :: "('m, 'p) keystore \<Rightarrow> ('m, 'p) keystore" where
  "ks_lock ks = ks\<lparr>ks_seed := None, ks_master_key := None, ks_derived_keys := []\<rparr>"

definition seed_of :: "('m, 'p) keystore \<Rightarrow> wallet_error + bytes" where
  "seed_of ks = (case ks_seed ks of Some seed \<Rightarrow> Inr seed | None \<Rightarrow> Inl WalletLocked)"

definition master_key :: "('m, 'p) keystore \<Rightarrow> wallet_error + 'm" where
  "master_key ks = (case ks_master_key ks of Some master \<Rightarrow> Inr master | None \<Rightarrow> Inl WalletLocked)"

text \<open>The key of a master key at a path.\<close>

definition key_at :: "('m, 'x, 'p) wallet_env \<Rightarrow> wallet_network \<Rightarrow> 'm \<Rightarrow> string \<Rightarrow> wallet_error + 'p derived_key" where
  "key_at env network master path =
     (case we_parse_path env path of
        Inl e \<Rightarrow> Inl (KeyDerivation (''Invalid derivation path '' @ [CHR 0x27] @ path @ [CHR 0x27] @ '': '' @ e))
      | Inr parsed \<Rightarrow>
          (case we_derive env master parsed of
             Inl e \<Rightarrow> Inl (KeyDerivation (''Failed to derive key at '' @ path @ '': '' @ e))
           | Inr derived \<Rightarrow>
               (case we_address env derived of
                  Inl e \<Rightarrow> Inl (KeyDerivation (''Failed to get public key: '' @ e))
                | Inr address \<Rightarrow>
                    Inr \<lparr>dk_secret_key = we_secret_key env derived, dk_path = parsed, dk_address = address,
                         dk_address_str = we_to_base58 env network address\<rparr>)))"

definition derive_key :: "('m, 'x, 'p) wallet_env \<Rightarrow> ('m, 'p) keystore \<Rightarrow> string \<Rightarrow> wallet_error + 'p derived_key" where
  "derive_key env ks path = rbind (master_key ks) (\<lambda>master. key_at env (ks_network ks) master path)"

definition index_path :: "u32 \<Rightarrow> u32 \<Rightarrow> string" where
  "index_path account index =
     ''m/44'' @ [CHR 0x27] @ ''/429'' @ [CHR 0x27] @ ''/'' @ show_nat (unat account) @ [CHR 0x27] @ ''/0/'' @ show_nat (unat index)"

definition derive_key_for_index :: "('m, 'x, 'p) wallet_env \<Rightarrow> ('m, 'p) keystore \<Rightarrow> u32 \<Rightarrow> u32 \<Rightarrow> wallet_error + 'p derived_key" where
  "derive_key_for_index env ks account index = derive_key env ks (index_path account index)"

fun derive_from :: "(u32 \<Rightarrow> wallet_error + 'k) \<Rightarrow> u32 \<Rightarrow> nat \<Rightarrow> wallet_error + 'k list" where
  "derive_from derive index 0 = Inr []"
| "derive_from derive index (Suc n) =
     rbind (derive index) (\<lambda>key. rbind (derive_from derive (index + 1) n) (\<lambda>keys. Inr (key # keys)))"

definition derive_keys :: "('m, 'x, 'p) wallet_env \<Rightarrow> ('m, 'p) keystore \<Rightarrow> u32 \<Rightarrow> u32 \<Rightarrow> u32 \<Rightarrow> wallet_error + 'p derived_key list" where
  "derive_keys env ks account start_index n = derive_from (derive_key_for_index env ks account) start_index (unat n)"

definition cache_derived_key :: "'p derived_key \<Rightarrow> ('m, 'p) keystore \<Rightarrow> ('m, 'p) keystore" where
  "cache_derived_key key ks = ks\<lparr>ks_derived_keys := ks_derived_keys ks @ [key]\<rparr>"

definition find_secret_key :: "('m, 'p) keystore \<Rightarrow> bytes \<Rightarrow> bytes option" where
  "find_secret_key ks address = map_option dk_secret_key (find (\<lambda>k. dk_address k = address) (ks_derived_keys ks))"

definition find_secret_key_by_str :: "('m, 'p) keystore \<Rightarrow> string \<Rightarrow> bytes option" where
  "find_secret_key_by_str ks address = map_option dk_secret_key (find (\<lambda>k. dk_address_str k = address) (ks_derived_keys ks))"

end
