(* ===== verification/Wallet.thy ===== *)
theory Wallet
  imports Keystore
begin

text \<open>
  The wallet (\<open>crates/ergo-wallet/src/wallet.rs\<close>): the key store and the tracker composed, with the
  addresses that are derived in advance. The salt and the nonce of an encryption and the random numbers
  of a phrase are arguments, as is the error of the creation of the data directory, if there is one.
\<close>

subsection \<open>The wallet\<close>

text \<open>The directory and the file name of the configuration say which file the key store is backed by.\<close>

record wallet_config =
  wc_pre_generate :: nat
  wc_default_account :: u32
  wc_network :: wallet_network

definition wallet_config_default :: wallet_config where
  "wallet_config_default = \<lparr>wc_pre_generate = 20, wc_default_account = 0, wc_network = WMainnet\<rparr>"

definition wallet_config_testnet :: wallet_config where
  "wallet_config_testnet = wallet_config_default\<lparr>wc_network := WTestnet\<rparr>"

record wallet_status =
  wst_initialized :: bool
  wst_unlocked :: bool
  wst_height :: u32
  wst_address_count :: nat
  wst_network :: wallet_network

record ('m, 'p) wallet =
  w_config :: wallet_config
  w_keystore :: "('m, 'p) keystore"
  w_tracker :: box_tracker
  w_next_index :: u32

definition wallet_new :: "wallet_config \<Rightarrow> string option \<Rightarrow> ('m, 'p) wallet" where
  "wallet_new config file =
     \<lparr>w_config = config, w_keystore = keystore_with_path_and_network file (wc_network config), w_tracker = tracker_new, w_next_index = 0\<rparr>"

definition take_key :: "'p derived_key \<Rightarrow> ('m, 'p) wallet \<Rightarrow> ('m, 'p) wallet" where
  "take_key key w =
     w\<lparr>w_keystore := cache_derived_key key (w_keystore w), w_tracker := track_address_str (dk_address_str key) (w_tracker w)\<rparr>"

text \<open>An error in the middle leaves the keys that were derived before it in the cache.\<close>

fun generate_loop :: "('m, 'x, 'p) wallet_env \<Rightarrow> u32 \<Rightarrow> nat \<Rightarrow> ('m, 'p) wallet \<Rightarrow> (wallet_error + unit) \<times> ('m, 'p) wallet" where
  "generate_loop env index 0 w = (Inr (), w)"
| "generate_loop env index (Suc n) w =
     (case derive_key_for_index env (w_keystore w) (wc_default_account (w_config w)) index of
        Inl e \<Rightarrow> (Inl e, w)
      | Inr key \<Rightarrow> generate_loop env (index + 1) n (take_key key w))"

definition generate_addresses :: "('m, 'x, 'p) wallet_env \<Rightarrow> nat \<Rightarrow> ('m, 'p) wallet \<Rightarrow> (wallet_error + unit) \<times> ('m, 'p) wallet" where
  "generate_addresses env n w =
     (case generate_loop env (w_next_index w) n w of
        (Inl e, w') \<Rightarrow> (Inl e, w')
      | (Inr _, w') \<Rightarrow> (Inr (), w'\<lparr>w_next_index := w_next_index w + of_nat n\<rparr>))"

definition wallet_init ::
  "('m, 'x, 'p) wallet_env \<Rightarrow> string option \<Rightarrow> string \<Rightarrow> bytes \<Rightarrow> nat list \<Rightarrow> string \<Rightarrow> string \<Rightarrow> ('m, 'p) wallet
     \<Rightarrow> (wallet_error + nat list) \<times> ('m, 'p) wallet" where
  "wallet_init env dir_error salt nonce mnemonic mnemonic_password encryption_password w =
     (if ks_is_initialized (w_keystore w) then (Inl (WE_TxBuild ''Wallet already initialized''), w)
      else case dir_error of
             Some e \<Rightarrow> (Inl (WE_Io e), w)
           | None \<Rightarrow>
               (case initialize_from_mnemonic env salt nonce mnemonic mnemonic_password encryption_password (w_keystore w) of
                  (Inl e, ks) \<Rightarrow> (Inl e, w\<lparr>w_keystore := ks\<rparr>)
                | (Inr _, ks) \<Rightarrow>
                    (case generate_addresses env (wc_pre_generate (w_config w)) (w\<lparr>w_keystore := ks\<rparr>) of
                       (Inl e, w) \<Rightarrow> (Inl e, w)
                     | (Inr _, w) \<Rightarrow> (Inr mnemonic, w))))"

definition WORDS :: "string list" where
  "WORDS =
    [''abandon'', ''ability'', ''able'', ''about'', ''above'', ''absent'', ''absorb'', ''abstract'', ''absurd'', ''abuse'',
      ''access'', ''accident'', ''account'', ''accuse'', ''achieve'', ''acid'', ''acoustic'', ''acquire'', ''across'', ''act'',
      ''action'', ''actor'', ''actress'', ''actual'', ''adapt'', ''add'', ''addict'', ''address'', ''adjust'', ''admit'',
      ''adult'', ''advance'', ''advice'', ''aerobic'', ''affair'', ''afford'', ''afraid'', ''again'', ''age'', ''agent'',
      ''agree'', ''ahead'', ''aim'', ''air'', ''airport'', ''aisle'', ''alarm'', ''album'', ''alcohol'', ''alert'', ''alien'',
      ''all'', ''alley'', ''allow'', ''almost'', ''alone'', ''alpha'', ''already'', ''also'', ''alter'', ''always'',
      ''amateur'', ''amazing'', ''among'', ''amount'', ''amused'', ''analyst'', ''anchor'', ''ancient'', ''anger'', ''angle'',
      ''angry'', ''animal'', ''ankle'', ''announce'', ''annual'', ''another'', ''answer'', ''antenna'', ''antique'',
      ''anxiety'', ''any'', ''apart'', ''apology'', ''appear'', ''apple'', ''approve'', ''april'', ''arch'', ''arctic'',
      ''area'', ''arena'', ''argue'', ''arm'', ''armed'', ''armor'', ''army'', ''around'', ''arrange'', ''arrest'']"

fun join_words :: "string list \<Rightarrow> string" where
  "join_words [] = []"
| "join_words [w] = w"
| "join_words (w # ws) = w @ '' '' @ join_words ws"

text \<open>The twelve random numbers of a phrase; a phrase as the list of its code points.\<close>

definition generate_random_mnemonic :: "(nat \<Rightarrow> nat) \<Rightarrow> nat list" where
  "generate_random_mnemonic random =
     map of_char (join_words (map (\<lambda>i. WORDS ! (random i mod length WORDS)) [0..<12]))"

definition wallet_init_new ::
  "('m, 'x, 'p) wallet_env \<Rightarrow> string option \<Rightarrow> string \<Rightarrow> bytes \<Rightarrow> (nat \<Rightarrow> nat) \<Rightarrow> string \<Rightarrow> ('m, 'p) wallet
     \<Rightarrow> (wallet_error + nat list) \<times> ('m, 'p) wallet" where
  "wallet_init_new env dir_error salt nonce random encryption_password w =
     wallet_init env dir_error salt nonce (generate_random_mnemonic random) [] encryption_password w"

definition wallet_load :: "('m, 'x, 'p) wallet_env \<Rightarrow> ('m, 'p) wallet \<Rightarrow> (wallet_error + unit) \<times> ('m, 'p) wallet" where
  "wallet_load env w = (let (r, ks) = ks_load env (w_keystore w) in (r, w\<lparr>w_keystore := ks\<rparr>))"

definition wallet_unlock :: "('m, 'x, 'p) wallet_env \<Rightarrow> string \<Rightarrow> ('m, 'p) wallet \<Rightarrow> (wallet_error + unit) \<times> ('m, 'p) wallet" where
  "wallet_unlock env password w =
     (case ks_unlock env password (w_keystore w) of
        (Inl e, ks) \<Rightarrow> (Inl e, w\<lparr>w_keystore := ks\<rparr>)
      | (Inr _, ks) \<Rightarrow> generate_addresses env (wc_pre_generate (w_config w)) (w\<lparr>w_keystore := ks\<rparr>))"

definition wallet_lock :: "('m, 'p) wallet \<Rightarrow> ('m, 'p) wallet" where
  "wallet_lock w = w\<lparr>w_keystore := ks_lock (w_keystore w), w_next_index := 0\<rparr>"

definition wallet_status_of :: "utxo_state \<Rightarrow> ('m, 'p) wallet \<Rightarrow> wallet_status" where
  "wallet_status_of st w =
     \<lparr>wst_initialized = ks_is_initialized (w_keystore w), wst_unlocked = ks_is_unlocked (w_keystore w), wst_height = current_height st,
      wst_address_count = length (ks_derived_keys (w_keystore w)), wst_network = wc_network (w_config w)\<rparr>"

text \<open>Most operations first look whether the wallet is unlocked.\<close>

definition unlocked :: "('m, 'p) wallet \<Rightarrow> wallet_error + 'a \<Rightarrow> wallet_error + 'a" where
  "unlocked w r = (if ks_is_unlocked (w_keystore w) then r else Inl WalletLocked)"


definition wallet_addresses :: "('m, 'p) wallet \<Rightarrow> wallet_error + string list" where
  "wallet_addresses w = unlocked w (Inr (map dk_address_str (ks_derived_keys (w_keystore w))))"

definition derived_keys :: "('m, 'p) wallet \<Rightarrow> wallet_error + 'p derived_key list" where
  "derived_keys w = unlocked w (Inr (ks_derived_keys (w_keystore w)))"

definition new_address :: "('m, 'x, 'p) wallet_env \<Rightarrow> ('m, 'p) wallet \<Rightarrow> (wallet_error + string) \<times> ('m, 'p) wallet" where
  "new_address env w =
     (case unlocked w (derive_key_for_index env (w_keystore w) (wc_default_account (w_config w)) (w_next_index w)) of
        Inl e \<Rightarrow> (Inl e, w)
      | Inr key \<Rightarrow> (Inr (dk_address_str key), (take_key key w)\<lparr>w_next_index := w_next_index w + 1\<rparr>))"


definition get_secret_key :: "('m, 'p) wallet \<Rightarrow> string \<Rightarrow> wallet_error + bytes" where
  "get_secret_key w address =
     unlocked w (case find_secret_key_by_str (w_keystore w) address of
                   Some key \<Rightarrow> Inr key
                 | None \<Rightarrow> Inl (AddressNotFound address))"

definition get_all_secret_keys :: "('m, 'p) wallet \<Rightarrow> wallet_error + bytes list" where
  "get_all_secret_keys w = unlocked w (Inr (map dk_secret_key (ks_derived_keys (w_keystore w))))"

definition get_unspent_boxes :: "box_order \<Rightarrow> ('m, 'p) wallet \<Rightarrow> wallet_error + wallet_box list" where
  "get_unspent_boxes order w = unlocked w (Inr (get_unspent order (w_tracker w)))"

subsection \<open>Runs of a wallet\<close>

text \<open>
  What is relied on of the third-party code: keys have 32 bytes, a seed has 64, what is encrypted is
  decrypted with the same key, the JSON of the file is read back, and a write without an error leaves
  what was written. Nothing is asked of a decryption with another key: AES-256-GCM does not commit to
  its key, so that a file may open under a second password to a second seed.
\<close>

definition wallet_laws :: "('m, 'x, 'p) wallet_env \<Rightarrow> bool" where
  "wallet_laws env \<longleftrightarrow>
     (\<forall>a b c password salt key. we_argon2 env a b c password salt = Inr key \<longrightarrow> length key = 32)
     \<and> (\<forall>mnemonic password. length (we_to_seed env mnemonic password) = 64)
     \<and> (\<forall>key nonce seed ct. length key = 32 \<longrightarrow> we_encrypt env key nonce seed = Inr ct \<longrightarrow> we_decrypt env key nonce ct = Some seed)
     \<and> (\<forall>e json. we_to_json env e = Inr json \<longrightarrow> we_from_json env json = Inr e)
     \<and> (\<forall>json old new. we_write env json old = (None, new) \<longrightarrow> new = Some json)"

lemma wallet_lawsD:
  assumes "wallet_laws env"
  shows "we_argon2 env a b c password salt = Inr key \<Longrightarrow> length key = 32"
    "length (we_to_seed env mnemonic password) = 64"
    "length key = 32 \<Longrightarrow> we_encrypt env key nonce seed = Inr ct \<Longrightarrow> we_decrypt env key nonce ct = Some seed"
    "we_to_json env e = Inr json \<Longrightarrow> we_from_json env json = Inr e"
    "we_write env json old = (None, new) \<Longrightarrow> new = Some json"
  using assms by (simp_all add: wallet_laws_def)


text \<open>
  The seeds that a password opens the encrypted key to, and the master keys of these seeds. The keys in
  the cache come from the present master key, or, when an unlocked wallet is unlocked again, from one
  of those that the encrypted key opens to.
\<close>

definition opens :: "('m, 'x, 'p) wallet_env \<Rightarrow> ('m, 'p) keystore \<Rightarrow> string \<Rightarrow> bytes \<Rightarrow> bool" where
  "opens env ks password seed \<longleftrightarrow>
     (\<exists>e key. ks_encrypted ks = Some e
        \<and> derive_key_argon2id env password (ek_salt e) (ek_memory_cost e) (ek_time_cost e) (ek_parallelism e) = Inr key
        \<and> we_decrypt env key (ek_nonce e) (ek_encrypted_seed e) = Some seed)"

definition file_masters :: "('m, 'x, 'p) wallet_env \<Rightarrow> ('m, 'p) keystore \<Rightarrow> 'm set" where
  "file_masters env ks = {master. \<exists>password seed. opens env ks password seed \<and> we_derive_master env seed = Inr master}"

definition masters_of :: "bool \<Rightarrow> ('m, 'x, 'p) wallet_env \<Rightarrow> ('m, 'p) keystore \<Rightarrow> 'm set" where
  "masters_of again env ks = (if again then file_masters env ks else set_option (ks_master_key ks))"

definition keys_of :: "bool \<Rightarrow> ('m, 'x, 'p) wallet_env \<Rightarrow> ('m, 'p) keystore \<Rightarrow> string set \<Rightarrow> bool" where
  "keys_of again env ks addresses \<longleftrightarrow>
     (ks_master_key ks = None \<longrightarrow> ks_derived_keys ks = [])
     \<and> (\<forall>k \<in> set (ks_derived_keys ks). dk_address_str k \<in> addresses
          \<and> (\<exists>master \<in> masters_of again env ks. \<exists>path. key_at env (ks_network ks) master path = Inr k))"

definition seed_ok :: "('m, 'x, 'p) wallet_env \<Rightarrow> ('m, 'p) keystore \<Rightarrow> bool" where
  "seed_ok env ks \<longleftrightarrow>
     (case ks_seed ks of
        None \<Rightarrow> ks_master_key ks = None
      | Some seed \<Rightarrow> (\<exists>master. ks_master_key ks = Some master \<and> we_derive_master env seed = Inr master)
          \<and> (\<exists>password. opens env ks password seed))"

definition wallet_ok :: "bool \<Rightarrow> ('m, 'x, 'p) wallet_env \<Rightarrow> ('m, 'p) wallet \<Rightarrow> bool" where
  "wallet_ok again env w \<longleftrightarrow>
     tracker_ok (w_tracker w) \<and> seed_ok env (w_keystore w) \<and> keys_of again env (w_keystore w) (bt_addresses (w_tracker w))"





lemma tracked_insert: "bt_addresses (track_address_str a tr) = insert a (bt_addresses tr)"
  using bt.tracked_track [of a tr] by (auto simp: is_tracked_def)




lemma wallet_ok_index [simp]: "wallet_ok again env (w\<lparr>w_next_index := i\<rparr>) = wallet_ok again env w"
  by (simp add: wallet_ok_def)



lemma encrypt_and_store_opens:
  assumes laws: "wallet_laws env" and s: "encrypt_and_store_seed env salt nonce seed password ks = (Inr (), ks')"
  shows "\<exists>e key. ks_encrypted ks' = Some e \<and> ek_nonce e = nonce \<and> we_decrypt env key nonce (ek_encrypted_seed e) = Some seed
    \<and> derive_key_argon2id env password (ek_salt e) (ek_memory_cost e) (ek_time_cost e) (ek_parallelism e) = Inr key
    \<and> (ks_path ks \<longrightarrow> (\<exists>json. ks' = ks\<lparr>ks_encrypted := Some e, ks_file := Some json\<rparr> \<and> we_from_json env json = Inr e))"
proof -
  obtain key ct where k: "derive_key_argon2id env password salt 65536 3 4 = Inr key" and ct: "we_encrypt env key nonce seed = Inr ct"
    using s by (auto simp: encrypt_and_store_seed_def split: sum.splits)
  have "length key = 32"
    using k wallet_lawsD(1) [OF laws] by (auto simp: derive_key_argon2id_def split: option.splits sum.splits)
  then have "we_decrypt env key nonce ct = Some seed"
    using wallet_lawsD(3) [OF laws _ ct] by blast
  then show ?thesis
    using s k ct wallet_lawsD(4,5) [OF laws]
    by (auto simp: encrypt_and_store_seed_def Let_def split: sum.splits prod.splits option.splits if_splits; metis)
qed






subsection \<open>Addresses derived in advance\<close>

lemma derive_ignores_cache:
  "derive_key_for_index env (w_keystore (take_key key w)) = derive_key_for_index env (w_keystore w)"
  "w_config (take_key key w) = w_config w"
  by (simp_all add: fun_eq_iff derive_key_for_index_def derive_key_def master_key_def take_key_def cache_derived_key_def)

lemma generate_loop_derives:
  "generate_loop env index n w = (Inr (), w') \<longleftrightarrow>
     (\<exists>keys. derive_from (derive_key_for_index env (w_keystore w) (wc_default_account (w_config w))) index n = Inr keys \<and> w' = fold take_key keys w)"
proof (induction n arbitrary: index w)
  case (Suc n)
  show ?case
  proof (cases "derive_key_for_index env (w_keystore w) (wc_default_account (w_config w)) index")
    case (Inr key)
    show ?thesis
      using Suc [of "index + 1" "take_key key w"] Inr
      by (cases "derive_from (derive_key_for_index env (w_keystore w) (wc_default_account (w_config w))) (index + 1) n") (simp_all add: derive_ignores_cache)
  qed simp
qed auto

lemma fold_take_key:
  "w_keystore (fold take_key keys w) = (w_keystore w)\<lparr>ks_derived_keys := ks_derived_keys (w_keystore w) @ keys\<rparr>"
  "w_tracker (fold take_key keys w) = fold track_address_str (map dk_address_str keys) (w_tracker w)"
  "w_config (fold take_key keys w) = w_config w"
  "w_next_index (fold take_key keys w) = w_next_index w"
  by (induction keys arbitrary: w) (simp_all add: take_key_def cache_derived_key_def)

lemma track_tracked: "set as \<subseteq> bt_addresses tr \<Longrightarrow> fold track_address_str as tr = tr"
  by (induction as) (simp_all add: track_address_str_def)

lemma take_key_index: "take_key key (w\<lparr>w_next_index := i\<rparr>) = (take_key key w)\<lparr>w_next_index := i\<rparr>"
  by (cases w) (simp add: take_key_def)

lemma fold_take_key_index: "fold take_key keys (w\<lparr>w_next_index := i\<rparr>) = (fold take_key keys w)\<lparr>w_next_index := i\<rparr>"
  by (induction keys arbitrary: w) (simp_all add: take_key_index)

text \<open>What a successful initialisation has done, and that the password opens the store again.\<close>

lemma wallet_init_done:
  assumes laws: "wallet_laws env" and nonce: "length nonce = 12"
    and init: "wallet_init env dir_error salt nonce mnemonic mnemonic_password password (wallet_new config file) = (Inr phrase, w)"
  obtains e json seed master keys where
    "w = fold take_key keys ((wallet_new config (Some json))\<lparr>w_keystore := (keystore_with_path_and_network (Some json) (wc_network config))
        \<lparr>ks_encrypted := Some e, ks_seed := Some seed, ks_master_key := Some master\<rparr>, w_next_index := of_nat (wc_pre_generate config)\<rparr>)"
    "we_from_json env json = Inr e"
    "\<And>ks. ks_encrypted ks = Some e \<Longrightarrow> ks_unlock env password ks = (Inr (), ks\<lparr>ks_seed := Some seed, ks_master_key := Some master\<rparr>)"
    "\<And>ks. ks_master_key ks = Some master \<Longrightarrow> ks_network ks = wc_network config \<Longrightarrow>
        derive_from (derive_key_for_index env ks (wc_default_account config)) 0 (wc_pre_generate config) = Inr keys"
    "encrypt_and_store_seed env salt nonce seed password (keystore_with_path_and_network file (wc_network config))
      = (Inr (), (keystore_with_path_and_network file (wc_network config))\<lparr>ks_encrypted := Some e, ks_file := Some json\<rparr>)"
    "we_to_seed env mnemonic mnemonic_password = seed" "we_derive_master env seed = Inr master"
    "word_count mnemonic \<in> {12, 15, 18, 21, 24}" "dir_error = None"
proof -
  let ?ks = "keystore_with_path_and_network file (wc_network config)"
  let ?seed = "we_to_seed env mnemonic mnemonic_password"
  obtain master ks' where m: "we_derive_master env ?seed = Inr master"
    and enc: "encrypt_and_store_seed env salt nonce ?seed password ?ks = (Inr (), ks')"
    and gen: "generate_addresses env (wc_pre_generate config) ((wallet_new config file)\<lparr>w_keystore := ks'\<lparr>ks_seed := Some ?seed, ks_master_key := Some master\<rparr>\<rparr>) = (Inr (), w)"
    using init by (auto simp: wallet_init_def wallet_new_def initialize_from_mnemonic_def Let_def split: if_splits option.splits sum.splits prod.splits)
  obtain e key json where e: "ks_encrypted ks' = Some e" "ek_nonce e = nonce" "we_decrypt env key nonce (ek_encrypted_seed e) = Some ?seed"
      "derive_key_argon2id env password (ek_salt e) (ek_memory_cost e) (ek_time_cost e) (ek_parallelism e) = Inr key"
      "ks' = ?ks\<lparr>ks_encrypted := Some e, ks_file := Some json\<rparr>" "we_from_json env json = Inr e"
    using encrypt_and_store_opens [OF laws enc] by (auto simp: keystore_with_path_and_network_def)
  let ?w = "(wallet_new config file)\<lparr>w_keystore := ks'\<lparr>ks_seed := Some ?seed, ks_master_key := Some master\<rparr>\<rparr>"
  obtain w' where w': "generate_loop env 0 (wc_pre_generate config) ?w = (Inr (), w')" "w = w'\<lparr>w_next_index := of_nat (wc_pre_generate config)\<rparr>"
    using gen by (auto simp: generate_addresses_def wallet_new_def split: prod.splits sum.splits)
  then obtain keys where keys: "derive_from (derive_key_for_index env (w_keystore ?w) (wc_default_account config)) 0 (wc_pre_generate config) = Inr keys"
      "w' = fold take_key keys ?w"
    by (auto simp: generate_loop_derives wallet_new_def)
  show thesis
  proof (rule that)
    show "w = fold take_key keys ((wallet_new config (Some json))\<lparr>w_keystore := (keystore_with_path_and_network (Some json) (wc_network config))
        \<lparr>ks_encrypted := Some e, ks_seed := Some ?seed, ks_master_key := Some master\<rparr>, w_next_index := of_nat (wc_pre_generate config)\<rparr>)"
      by (simp add: w'(2) keys(2) fold_take_key_index [symmetric] e(5) wallet_new_def keystore_with_path_and_network_def)
    show "ks_unlock env password ks = (Inr (), ks\<lparr>ks_seed := Some ?seed, ks_master_key := Some master\<rparr>)" if "ks_encrypted ks = Some e" for ks :: "('a, 'c) keystore"
      using that e(2-4) m nonce wallet_lawsD(2) [OF laws] by (simp add: ks_unlock_def)
    have "derive_key_for_index env ks = derive_key_for_index env (w_keystore ?w)" if "ks_master_key ks = Some master" "ks_network ks = wc_network config" for ks :: "('a, 'c) keystore"
      using that e(5) by (simp add: fun_eq_iff derive_key_for_index_def derive_key_def master_key_def keystore_with_path_and_network_def)
    then show "derive_from (derive_key_for_index env ks (wc_default_account config)) 0 (wc_pre_generate config) = Inr keys"
      if "ks_master_key ks = Some master" "ks_network ks = wc_network config" for ks :: "('a, 'c) keystore"
      using that keys(1) by simp
    show "word_count mnemonic \<in> {12, 15, 18, 21, 24}" "dir_error = None"
      using init by (auto simp: wallet_init_def wallet_new_def keystore_with_path_and_network_def initialize_from_mnemonic_def Let_def ks_is_initialized_def
          split: if_splits option.splits)
  qed (use e(5,6) enc m in simp_all)
qed

subsection \<open>Restart, lock and unlock\<close>

text \<open>C37: A wallet survives a restart: after a successful initialisation, a new process that loads the file and unlocks it with
  the same password is in the very state that the initialisation left, with the same seed, keys and addresses.\<close>
theorem restart_restores_wallet:
  assumes "wallet_laws env" "we_read_error env = None" "length nonce = 12"
    "wallet_init env dir_error salt nonce mnemonic mnemonic_password password (wallet_new config file) = (Inr phrase, w)"
  shows "\<exists>w1. wallet_load env (wallet_new config (ks_file (w_keystore w))) = (Inr (), w1)
    \<and> \<not> ks_is_unlocked (w_keystore w1) \<and> wallet_unlock env password w1 = (Inr (), w)"
proof -
  obtain e json seed master keys where w: "w = fold take_key keys ((wallet_new config (Some json))\<lparr>w_keystore := (keystore_with_path_and_network (Some json) (wc_network config))
        \<lparr>ks_encrypted := Some e, ks_seed := Some seed, ks_master_key := Some master\<rparr>, w_next_index := of_nat (wc_pre_generate config)\<rparr>)"
    and json: "we_from_json env json = Inr e"
    and unlock: "\<And>ks. ks_encrypted ks = Some e \<Longrightarrow> ks_unlock env password ks = (Inr (), ks\<lparr>ks_seed := Some seed, ks_master_key := Some master\<rparr>)"
    and keys: "\<And>ks. ks_master_key ks = Some master \<Longrightarrow> ks_network ks = wc_network config \<Longrightarrow>
        derive_from (derive_key_for_index env ks (wc_default_account config)) 0 (wc_pre_generate config) = Inr keys"
    by (rule wallet_init_done [OF assms(1,3,4)]) (rule that; assumption)
  let ?ks1 = "(keystore_with_path_and_network (Some json) (wc_network config))\<lparr>ks_encrypted := Some e\<rparr>"
  let ?w1 = "(wallet_new config (Some json))\<lparr>w_keystore := ?ks1\<rparr>"
  let ?w2 = "?w1\<lparr>w_keystore := ?ks1\<lparr>ks_seed := Some seed, ks_master_key := Some master\<rparr>\<rparr>"
  have stored: "ks_file (w_keystore w) = Some json"
    by (simp add: w fold_take_key keystore_with_path_and_network_def)
  have "wallet_load env (wallet_new config (Some json)) = (Inr (), ?w1)"
    using assms(2) json by (simp add: wallet_load_def ks_load_def wallet_new_def keystore_with_path_and_network_def)
  moreover have "generate_loop env 0 (wc_pre_generate config) ?w2 = (Inr (), fold take_key keys ?w2)"
    using keys [of "w_keystore ?w2"] by (simp add: generate_loop_derives wallet_new_def keystore_with_path_and_network_def)
  then have "generate_addresses env (wc_pre_generate config) ?w2 = (Inr (), (fold take_key keys ?w2)\<lparr>w_next_index := of_nat (wc_pre_generate config)\<rparr>)"
    by (simp add: generate_addresses_def wallet_new_def)
  then have "wallet_unlock env password ?w1 = (Inr (), w)"
    using unlock [of ?ks1] unfolding w fold_take_key_index [symmetric] by (simp add: wallet_unlock_def wallet_new_def)
  moreover have "\<not> ks_is_unlocked ?ks1"
    by (simp add: ks_is_unlocked_def keystore_with_path_and_network_def)
  ultimately show ?thesis
    unfolding stored by simp
qed

text \<open>C38: An address made by \<open>new_address\<close> is lost when the wallet is locked: after unlocking with the same password the
  addresses are again only those derived at the start, and the key of the new address is not found, while
  the tracker still counts the boxes of this address in the balance.\<close>
theorem unlock_forgets_new_addresses:
  assumes "wallet_laws env" "length nonce = 12"
    "wallet_init env dir_error salt nonce mnemonic mnemonic_password password (wallet_new config file) = (Inr phrase, w)"
    "new_address env w = (Inr a, w1)" and fresh: "a \<notin> set (map dk_address_str (ks_derived_keys (w_keystore w)))"
    and funded: "w1' = w1\<lparr>w_tracker := tracker_add_box a b (w_tracker w1)\<rparr>"
  shows "\<exists>w2. wallet_unlock env password (wallet_lock w1') = (Inr (), w2) \<and> wallet_addresses w2 = wallet_addresses w
    \<and> get_secret_key w2 a = Inl (AddressNotFound a) \<and> w_tracker w2 = w_tracker w1'
    \<and> get_unspent_boxes order w2 = get_unspent_boxes order w1'"
proof -
  obtain e json seed master keys where w: "w = fold take_key keys ((wallet_new config (Some json))\<lparr>w_keystore := (keystore_with_path_and_network (Some json) (wc_network config))
        \<lparr>ks_encrypted := Some e, ks_seed := Some seed, ks_master_key := Some master\<rparr>, w_next_index := of_nat (wc_pre_generate config)\<rparr>)"
    and unlock: "\<And>ks. ks_encrypted ks = Some e \<Longrightarrow> ks_unlock env password ks = (Inr (), ks\<lparr>ks_seed := Some seed, ks_master_key := Some master\<rparr>)"
    and keys: "\<And>ks. ks_master_key ks = Some master \<Longrightarrow> ks_network ks = wc_network config \<Longrightarrow>
        derive_from (derive_key_for_index env ks (wc_default_account config)) 0 (wc_pre_generate config) = Inr keys"
    by (rule wallet_init_done [OF assms(1-3)]) (rule that; assumption)
  obtain key where k: "dk_address_str key = a" "w1 = (take_key key w)\<lparr>w_next_index := w_next_index w + 1\<rparr>"
    using assms(4) by (auto simp: new_address_def split: sum.splits)
  let ?w = "wallet_lock w1'"
  let ?w2 = "?w\<lparr>w_keystore := (w_keystore ?w)\<lparr>ks_seed := Some seed, ks_master_key := Some master\<rparr>\<rparr>"
  have conf: "w_config ?w = config" "w_next_index ?w = 0" "ks_encrypted (w_keystore ?w) = Some e" "ks_network (w_keystore ?w) = wc_network config"
    "ks_derived_keys (w_keystore ?w) = []"
    by (simp_all add: wallet_lock_def ks_lock_def funded k(2) take_key_def cache_derived_key_def w fold_take_key wallet_new_def keystore_with_path_and_network_def)
  have tracker: "w_tracker ?w = tracker_add_box a b (track_address_str a (w_tracker w))"
    by (simp add: wallet_lock_def funded k take_key_def)
  have "set (map dk_address_str keys) \<subseteq> bt_addresses (w_tracker w)"
    using bt.track_all(1) [of "map dk_address_str keys" tracker_new] by (auto simp: w fold_take_key wallet_new_def is_tracked_def)
  then have tracked: "fold track_address_str (map dk_address_str keys) (w_tracker ?w) = w_tracker ?w"
    by (intro track_tracked) (auto simp: tracker tracker_add_box_def tracked_insert split: option.split)
  have "generate_loop env 0 (wc_pre_generate config) ?w2 = (Inr (), fold take_key keys ?w2)"
    using keys [of "w_keystore ?w2"] conf by (simp add: generate_loop_derives)
  then have "wallet_unlock env password ?w = (Inr (), (fold take_key keys ?w2)\<lparr>w_next_index := of_nat (wc_pre_generate config)\<rparr>)"
    using unlock [OF conf(3)] conf(1,2) by (simp add: wallet_unlock_def generate_addresses_def)
  moreover have "find (\<lambda>k. dk_address_str k = a) keys = None"
    using fresh by (auto simp: find_None_iff w fold_take_key)
  ultimately show ?thesis
    using conf(5) tracked
    by (auto simp: fold_take_key wallet_addresses_def get_secret_key_def get_unspent_boxes_def unlocked_def ks_is_unlocked_def find_secret_key_by_str_def w
        wallet_new_def keystore_with_path_and_network_def funded k(2) wallet_lock_def take_key_def cache_derived_key_def)
qed

text \<open>An initialisation that fails only because the file cannot be written leaves a wallet that answers as initialised:
  it cannot be initialised again and its password opens it, but after a restart there is no wallet, and the
  seed of the addresses it showed was never returned to the user.\<close>
theorem failed_init_only_in_memory:
  assumes "wallet_laws env" "length nonce = 12"
    "wallet_init env dir_error salt nonce mnemonic mnemonic_password password (wallet_new config None) = (Inr phrase, w)"
    and env': "env' = env\<lparr>we_write := \<lambda>_ file. (Some err, file)\<rparr>"
    and failed: "wallet_init env' dir_error salt nonce mnemonic mnemonic_password password (wallet_new config None) = (r, w')"
  shows "r = Inl (WE_Io err) \<and> fst (wallet_init env' d s n m p q w') = Inl (WE_TxBuild ''Wallet already initialized'')
    \<and> (\<exists>w2. wallet_unlock env' password w' = (Inr (), w2) \<and> wallet_addresses w2 = wallet_addresses w)
    \<and> fst (wallet_load env' (wallet_new config (ks_file (w_keystore w')))) = Inl NotInitialized"
proof -
  let ?ks = "keystore_with_path_and_network None (wc_network config)"
  obtain e json seed master keys where w: "w = fold take_key keys ((wallet_new config (Some json))\<lparr>w_keystore := (keystore_with_path_and_network (Some json) (wc_network config))
        \<lparr>ks_encrypted := Some e, ks_seed := Some seed, ks_master_key := Some master\<rparr>, w_next_index := of_nat (wc_pre_generate config)\<rparr>)"
    and unlock: "\<And>ks. ks_encrypted ks = Some e \<Longrightarrow> ks_unlock env password ks = (Inr (), ks\<lparr>ks_seed := Some seed, ks_master_key := Some master\<rparr>)"
    and keys: "\<And>ks. ks_master_key ks = Some master \<Longrightarrow> ks_network ks = wc_network config \<Longrightarrow>
        derive_from (derive_key_for_index env ks (wc_default_account config)) 0 (wc_pre_generate config) = Inr keys"
    and enc: "encrypt_and_store_seed env salt nonce seed password ?ks = (Inr (), ?ks\<lparr>ks_encrypted := Some e, ks_file := Some json\<rparr>)"
    and rest: "we_to_seed env mnemonic mnemonic_password = seed" "we_derive_master env seed = Inr master"
      "word_count mnemonic \<in> {12, 15, 18, 21, 24}" "dir_error = None"
    by (rule wallet_init_done [OF assms(1-3)]) (rule that; assumption)
  have enc': "encrypt_and_store_seed env' salt nonce seed password ?ks = (Inl (WE_Io err), ?ks\<lparr>ks_encrypted := Some e\<rparr>)"
    using enc by (auto simp: env' encrypt_and_store_seed_def derive_key_argon2id_def keystore_with_path_and_network_def Let_def
        split: sum.splits option.splits prod.splits)
  have init': "r = Inl (WE_Io err)" "w' = (wallet_new config None)\<lparr>w_keystore := ?ks\<lparr>ks_encrypted := Some e\<rparr>\<rparr>"
    using failed enc' rest
    by (auto simp: wallet_init_def wallet_new_def keystore_with_path_and_network_def ks_is_initialized_def initialize_from_mnemonic_def Let_def env')
  let ?w2 = "w'\<lparr>w_keystore := (w_keystore w')\<lparr>ks_seed := Some seed, ks_master_key := Some master\<rparr>\<rparr>"
  have "key_at env' = key_at env" "derive_key_argon2id env' = derive_key_argon2id env"
    by (simp_all add: env' fun_eq_iff key_at_def derive_key_argon2id_def split: sum.split option.split)
  then have same: "derive_key_for_index env' = derive_key_for_index env" "ks_unlock env' = ks_unlock env"
    by (simp_all add: env' fun_eq_iff derive_key_for_index_def derive_key_def ks_unlock_def split: sum.split option.split)
  have "generate_loop env' 0 (wc_pre_generate config) ?w2 = (Inr (), fold take_key keys ?w2)"
    using keys [of "w_keystore ?w2"] by (simp add: generate_loop_derives same init'(2) wallet_new_def keystore_with_path_and_network_def)
  then have "wallet_unlock env' password w' = (Inr (), (fold take_key keys ?w2)\<lparr>w_next_index := of_nat (wc_pre_generate config)\<rparr>)"
    using unlock [of "w_keystore w'"] by (simp add: wallet_unlock_def generate_addresses_def same init'(2) wallet_new_def)
  moreover have "wallet_addresses ((fold take_key keys ?w2)\<lparr>w_next_index := of_nat (wc_pre_generate config)\<rparr>) = wallet_addresses w"
    by (simp add: w wallet_addresses_def unlocked_def ks_is_unlocked_def fold_take_key init'(2) wallet_new_def keystore_with_path_and_network_def)
  ultimately show ?thesis
    using init' by (auto simp: wallet_init_def wallet_load_def ks_load_def ks_is_initialized_def wallet_new_def keystore_with_path_and_network_def)
qed

subsection \<open>Generated phrases\<close>

lemma WORDS_length: "length WORDS = 100"
  by (simp add: WORDS_def)

lemma WORDS_letters: "\<forall>w \<in> set WORDS. w \<noteq> [] \<and> set w \<subseteq> set ''abcdefghijklmnopqrstuvwxyz''"
  by (simp add: WORDS_def)

lemma letters_not_white: "c \<in> set ''abcdefghijklmnopqrstuvwxyz'' \<Longrightarrow> \<not> is_white (of_char c)"
  by (auto simp: is_white_def)

lemma split_white_word: "\<forall>c \<in> set w. \<not> is_white c \<Longrightarrow> split_white acc (w @ rest) = split_white (acc @ w) rest"
  by (induction w arbitrary: acc) simp_all

lemma split_white_words:
  "ws \<noteq> [] \<Longrightarrow> set ws \<subseteq> set WORDS \<Longrightarrow> split_white [] (map of_char (join_words ws)) = map (map of_char) ws"
proof (induction ws rule: join_words.induct)
  case (2 w)
  then show ?case
    using split_white_word [of "map of_char w" "[]" "[]"] WORDS_letters letters_not_white by (auto simp: subset_iff)
next
  case (3 w v ws)
  have "\<forall>c \<in> set (map of_char w). \<not> is_white c"
    using 3 WORDS_letters letters_not_white by (auto simp: subset_iff)
  moreover have "is_white (of_char (CHR '' ''))"
    by (simp add: is_white_def)
  ultimately show ?case
    using 3 by (simp add: split_white_word)
qed simp

lemma generated_word_count: "word_count (generate_random_mnemonic random) = 12"
proof -
  let ?ws = "map (\<lambda>i. WORDS ! (random i mod length WORDS)) [0..<12]"
  have member: "WORDS ! (k mod length WORDS) \<in> set WORDS" for k
    by (rule nth_mem) (simp add: WORDS_length)
  then have "split_white [] (generate_random_mnemonic random) = map (map of_char) ?ws"
    unfolding generate_random_mnemonic_def by (intro split_white_words) auto
  moreover have "filter (\<lambda>w. w \<noteq> []) (map (map of_char :: string \<Rightarrow> nat list) ?ws) = map (map of_char) ?ws"
    using member WORDS_letters by (intro filter_True) auto
  ultimately have "word_count (generate_random_mnemonic random) = length (map (map of_char :: string \<Rightarrow> nat list) ?ws)"
    by (simp only: word_count_def)
  then show ?thesis
    by simp
qed

text \<open>A generated phrase always has the twelve words that an initialisation asks for, but there are at most
  \<open>100 ^ 12\<close> such phrases, fewer than \<open>2 ^ 80\<close>, where the code promises 128 bits of entropy.\<close>
theorem generated_mnemonic_entropy:
  "word_count (generate_random_mnemonic random) = 12
    \<and> finite (range generate_random_mnemonic) \<and> card (range generate_random_mnemonic) < 2 ^ 80"
proof -
  let ?all = "{ws. set ws \<subseteq> set WORDS \<and> length ws = 12}"
  have member: "WORDS ! (k mod length WORDS) \<in> set WORDS" for k
    by (rule nth_mem) (simp add: WORDS_length)
  then have all: "map (\<lambda>i. WORDS ! (r i mod length WORDS)) [0..<12] \<in> ?all" for r :: "nat \<Rightarrow> nat"
    by auto
  have sub: "range generate_random_mnemonic \<subseteq> (\<lambda>ws. map of_char (join_words ws)) ` ?all"
    using all by (auto simp: generate_random_mnemonic_def)
  have fin: "finite ?all"
    by (rule finite_lists_length_eq) simp
  have "card (range generate_random_mnemonic) \<le> card ?all"
    by (rule order_trans [OF card_mono [OF finite_imageI [OF fin] sub] card_image_le [OF fin]])
  also have "\<dots> = card (set WORDS) ^ 12"
    by (rule card_lists_length_eq) simp
  also have "\<dots> \<le> 100 ^ 12"
    using card_length [of WORDS] by (intro power_mono) (simp_all add: WORDS_length)
  also have "\<dots> < (2 :: nat) ^ 80"
    by simp
  finally show ?thesis
    using generated_word_count finite_subset [OF sub finite_imageI [OF fin]] by blast
qed

subsection \<open>A concrete wallet\<close>

text \<open>A key is a password filled up with zeros, a ciphertext is the key and the seed, the key at a path is the path.\<close>

definition chars_of :: "bytes \<Rightarrow> string" where
  "chars_of bs = map (\<lambda>b. char_of (unat b)) bs"

definition bytes_of :: "string \<Rightarrow> bytes" where
  "bytes_of s = map (\<lambda>c. of_nat (of_char c)) s"

definition toy_env :: "(bytes, string, string) wallet_env" where
  "toy_env =
     \<lparr>we_to_seed = (\<lambda>mnemonic _. take 64 (map of_nat mnemonic @ replicate 64 0)),
      we_derive_master = (\<lambda>seed. Inr seed), we_parse_path = (\<lambda>path. Inr path), we_derive = (\<lambda>_ path. Inr path),
      we_secret_key = bytes_of, we_address = (\<lambda>x. Inr (bytes_of x)), we_to_base58 = (\<lambda>_ bs. chars_of bs),
      we_argon2_params = (\<lambda>_ _ _. None), we_argon2 = (\<lambda>_ _ _ password _. Inr (take 32 (bytes_of password @ replicate 32 0))),
      we_encrypt = (\<lambda>key _ seed. Inr (key @ seed)),
      we_decrypt = (\<lambda>key _ ct. if length key = 32 \<and> take 32 ct = key then Some (drop 32 ct) else None),
      we_to_json = (\<lambda>e. if ek_version e = 1 \<and> length (ek_salt e) = 22 \<and> length (ek_nonce e) = 12
                           \<and> ek_memory_cost e = 65536 \<and> ek_time_cost e = 3 \<and> ek_parallelism e = 4
                        then Inr (ek_salt e @ chars_of (ek_nonce e) @ chars_of (ek_encrypted_seed e)) else Inl ''unsupported''),
      we_from_json = (\<lambda>json. Inr \<lparr>ek_version = 1, ek_encrypted_seed = bytes_of (drop 34 json), ek_salt = take 22 json,
                        ek_nonce = bytes_of (take 12 (drop 22 json)), ek_memory_cost = 65536, ek_time_cost = 3, ek_parallelism = 4\<rparr>),
      we_write = (\<lambda>json _. (None, Some json)), we_read_error = None\<rparr>"

lemma bytes_of_chars_of [simp]: "bytes_of (chars_of bs) = bs"
proof -
  have "of_nat (unat b mod 256) = b" for b :: u8
    using unsigned_less [of b, where 'a = nat] by simp
  then show ?thesis
    by (simp add: bytes_of_def chars_of_def comp_def of_char_of)
qed

lemma length_chars_of [simp]: "length (chars_of bs) = length bs"
  by (simp add: chars_of_def)

lemma toy_laws: "wallet_laws toy_env"
  by (auto simp: wallet_laws_def toy_env_def split: if_splits)

definition toy_phrase :: "nat list" where
  "toy_phrase = generate_random_mnemonic (\<lambda>_. 0)"

definition toy_config :: wallet_config where
  "toy_config = \<lparr>wc_pre_generate = 1, wc_default_account = 0, wc_network = WMainnet\<rparr>"

definition toy_init :: "string option \<Rightarrow> (wallet_error + nat list) \<times> (bytes, string) wallet" where
  "toy_init stored = wallet_init toy_env None (replicate 22 CHR ''s'') (replicate 12 0) toy_phrase [] ''pw'' (wallet_new toy_config stored)"

lemma toy_key:
  "ks_master_key ks = Some master \<Longrightarrow> \<exists>key. derive_key_for_index toy_env ks account index = Inr key \<and> dk_address_str key = chars_of (bytes_of (index_path account index))"
  by (simp add: derive_key_for_index_def derive_key_def master_key_def key_at_def toy_env_def)

lemma toy_init_done:
  "\<exists>w key. toy_init stored = (Inr toy_phrase, w) \<and> ks_derived_keys (w_keystore w) = [key] \<and> dk_address_str key = chars_of (bytes_of (index_path 0 0))
    \<and> ks_master_key (w_keystore w) \<noteq> None \<and> w_next_index w = 1 \<and> w_config w = toy_config \<and> ks_is_unlocked (w_keystore w)"
proof -
  have wc: "word_count toy_phrase = 12"
    using generated_word_count by (simp add: toy_phrase_def)
  show ?thesis
    by (simp add: toy_init_def wallet_init_def wallet_new_def toy_config_def keystore_with_path_and_network_def ks_is_initialized_def
        initialize_from_mnemonic_def wc encrypt_and_store_seed_def derive_key_argon2id_def toy_env_def Let_def ENCRYPTION_VERSION_def
        generate_addresses_def derive_key_for_index_def derive_key_def master_key_def key_at_def take_key_def cache_derived_key_def ks_is_unlocked_def)
qed


theorem restart_restores_wallet_witness:
  "\<exists>w w1. toy_init None = (Inr toy_phrase, w) \<and> wallet_load toy_env (wallet_new toy_config (ks_file (w_keystore w))) = (Inr (), w1)
    \<and> wallet_unlock toy_env ''pw'' w1 = (Inr (), w)"
proof -
  obtain w where w: "toy_init None = (Inr toy_phrase, w)"
    using toy_init_done by blast
  have "we_read_error toy_env = None" "length (replicate 12 0 :: bytes) = 12"
    by (simp_all add: toy_env_def)
  from restart_restores_wallet [OF toy_laws this w [unfolded toy_init_def]] w show ?thesis
    by blast
qed

theorem unlock_forgets_new_addresses_witness:
  "\<exists>w a w1 w2. toy_init None = (Inr toy_phrase, w) \<and> new_address toy_env w = (Inr a, w1)
    \<and> wallet_unlock toy_env ''pw'' (wallet_lock (w1\<lparr>w_tracker := tracker_add_box a sample_box (w_tracker w1)\<rparr>)) = (Inr (), w2)
    \<and> get_secret_key w2 a = Inl (AddressNotFound a)"
proof -
  obtain w key where w: "toy_init None = (Inr toy_phrase, w)" "ks_derived_keys (w_keystore w) = [key]"
      "dk_address_str key = chars_of (bytes_of (index_path 0 0))" "ks_master_key (w_keystore w) \<noteq> None" "w_next_index w = 1"
      "w_config w = toy_config" "ks_is_unlocked (w_keystore w)"
    using toy_init_done by blast
  obtain key' where k': "derive_key_for_index toy_env (w_keystore w) 0 1 = Inr key'" "dk_address_str key' = chars_of (bytes_of (index_path 0 1))"
    using w(4) toy_key by blast
  obtain w1 where new: "new_address toy_env w = (Inr (dk_address_str key'), w1)"
    using w(5-7) k'(1) by (simp add: new_address_def unlocked_def toy_config_def)
  have "bytes_of (index_path 0 0) \<noteq> bytes_of (index_path 0 1)"
    by (simp add: index_path_def bytes_of_def show_nat.simps digit_char_def)
  then have fresh: "dk_address_str key' \<notin> set (map dk_address_str (ks_derived_keys (w_keystore w)))"
    using w(2,3) k'(2) by (auto dest: arg_cong [of _ _ bytes_of])
  have "length (replicate 12 0 :: bytes) = 12"
    by simp
  from unlock_forgets_new_addresses [OF toy_laws this w(1) [unfolded toy_init_def] new fresh refl, of sample_box] w(1) new show ?thesis
    by blast
qed

theorem failed_init_only_in_memory_witness:
  "\<exists>r w' :: (bytes, string) wallet. wallet_init (toy_env\<lparr>we_write := \<lambda>_ stored. (Some ''full'', stored)\<rparr>) None (replicate 22 CHR ''s'') (replicate 12 0) toy_phrase [] ''pw''
      (wallet_new toy_config None) = (r, w') \<and> r = Inl (WE_Io ''full'')"
proof -
  obtain w where w: "toy_init None = (Inr toy_phrase, w)"
    using toy_init_done by blast
  obtain r w' where f: "wallet_init (toy_env\<lparr>we_write := \<lambda>_ stored. (Some ''full'', stored)\<rparr>) None (replicate 22 CHR ''s'') (replicate 12 0) toy_phrase [] ''pw''
      (wallet_new toy_config None) = (r, w')"
    by (cases "wallet_init (toy_env\<lparr>we_write := \<lambda>_ stored. (Some ''full'', stored)\<rparr>) None (replicate 22 CHR ''s'') (replicate 12 0) toy_phrase [] ''pw''
      (wallet_new toy_config None)")
  have "length (replicate 12 0 :: bytes) = 12"
    by simp
  from failed_init_only_in_memory [OF toy_laws this w [unfolded toy_init_def] refl f] f show ?thesis
    by blast
qed

end
