(* ===== verification/Tx_Builder.thy ===== *)
theory Tx_Builder
  imports Keystore
begin

text \<open>
  The transaction builder of the wallet (\<open>crates/ergo-wallet/src/tx_builder.rs\<close>). Addresses, box values,
  the selection of boxes and the final assembly are calls of \<open>ergo_lib\<close> and so arguments, with the texts
  of their errors; the order of the checks and the amounts that are asked for are modelled.
\<close>

definition WALLET_MIN_BOX_VALUE :: u64 where "WALLET_MIN_BOX_VALUE = 1000000"
definition DEFAULT_FEE :: u64 where "DEFAULT_FEE = 1000000"

datatype tx_build_error =
    TB_InsufficientFunds u64 u64
  | TB_InsufficientTokens string
  | TB_BoxSelection string
  | TB_TxBuilder string
  | TB_BoxCandidate string
  | TB_Signing string
  | TB_TxContext string
  | TB_Wallet string
  | TB_ScriptParsing string
  | TB_InvalidAddress string
  | TB_InvalidAmount string
  | TB_NoInputs
  | TB_NoChangeAddress

type_synonym token = "bytes \<times> u64"

record ('a, 'b, 's, 'c, 't) builder_env =
  te_parse_address :: "wallet_network \<Rightarrow> string \<Rightarrow> string + 'a"
  te_box_value :: "u64 \<Rightarrow> string option"
  te_script :: "'a \<Rightarrow> string + bytes"
  te_candidate :: "u64 \<Rightarrow> bytes \<Rightarrow> u32 \<Rightarrow> token list \<Rightarrow> string + 'c"
  te_select :: "'b list \<Rightarrow> u64 \<Rightarrow> token list \<Rightarrow> string + 's"
  te_build :: "'s \<Rightarrow> 'c list \<Rightarrow> u32 \<Rightarrow> u64 \<Rightarrow> 'a \<Rightarrow> string + 't"

record payment_request =
  pr_recipient :: string
  pr_amount :: u64
  pr_tokens :: "token list"

definition payment_request_new :: "string \<Rightarrow> u64 \<Rightarrow> payment_request" where
  "payment_request_new recipient amount = \<lparr>pr_recipient = recipient, pr_amount = amount, pr_tokens = []\<rparr>"

definition with_tokens :: "token list \<Rightarrow> payment_request \<Rightarrow> payment_request" where
  "with_tokens tokens r = r\<lparr>pr_tokens := tokens\<rparr>"

record 'b tx_builder =
  tb_network :: wallet_network
  tb_current_height :: u32
  tb_fee :: u64
  tb_inputs :: "'b list"
  tb_outputs :: "payment_request list"
  tb_change_address :: "string option"

definition tx_builder_new :: "wallet_network \<Rightarrow> u32 \<Rightarrow> 'b tx_builder" where
  "tx_builder_new network height =
     \<lparr>tb_network = network, tb_current_height = height, tb_fee = DEFAULT_FEE, tb_inputs = [], tb_outputs = [], tb_change_address = None\<rparr>"

definition set_fee :: "u64 \<Rightarrow> 'b tx_builder \<Rightarrow> 'b tx_builder" where
  "set_fee fee b = b\<lparr>tb_fee := fee\<rparr>"

definition set_inputs :: "'b list \<Rightarrow> 'b tx_builder \<Rightarrow> 'b tx_builder" where
  "set_inputs boxes b = b\<lparr>tb_inputs := boxes\<rparr>"

definition add_output :: "payment_request \<Rightarrow> 'b tx_builder \<Rightarrow> 'b tx_builder" where
  "add_output request b = b\<lparr>tb_outputs := tb_outputs b @ [request]\<rparr>"

definition add_outputs :: "payment_request list \<Rightarrow> 'b tx_builder \<Rightarrow> 'b tx_builder" where
  "add_outputs requests b = b\<lparr>tb_outputs := tb_outputs b @ requests\<rparr>"

definition set_change_address :: "string \<Rightarrow> 'b tx_builder \<Rightarrow> 'b tx_builder" where
  "set_change_address address b = b\<lparr>tb_change_address := Some address\<rparr>"

definition total_output_amount :: "'b tx_builder \<Rightarrow> u64" where
  "total_output_amount b = sum_list (map pr_amount (tb_outputs b))"

definition parse_address :: "('a, 'b, 's, 'c, 't) builder_env \<Rightarrow> 'b tx_builder \<Rightarrow> string \<Rightarrow> tx_build_error + 'a" where
  "parse_address env b address =
     (case te_parse_address env (tb_network b) address of
        Inl e \<Rightarrow> Inl (TB_InvalidAddress (address @ '': '' @ e))
      | Inr a \<Rightarrow> Inr a)"

definition output_candidate :: "('a, 'b, 's, 'c, 't) builder_env \<Rightarrow> 'b tx_builder \<Rightarrow> payment_request \<Rightarrow> tx_build_error + 'c" where
  "output_candidate env b r =
     rbind (parse_address env b (pr_recipient r)) (\<lambda>address.
       case te_box_value env (pr_amount r) of
         Some e \<Rightarrow> Inl (TB_InvalidAmount e)
       | None \<Rightarrow>
           (case te_script env address of
              Inl e \<Rightarrow> Inl (TB_ScriptParsing e)
            | Inr script \<Rightarrow>
                (case te_candidate env (pr_amount r) script (tb_current_height b) (pr_tokens r) of
                   Inl e \<Rightarrow> Inl (TB_BoxCandidate e)
                 | Inr c \<Rightarrow> Inr c)))"

fun output_candidates :: "('a, 'b, 's, 'c, 't) builder_env \<Rightarrow> 'b tx_builder \<Rightarrow> payment_request list \<Rightarrow> tx_build_error + 'c list" where
  "output_candidates env b [] = Inr []"
| "output_candidates env b (r # rs) =
     rbind (output_candidate env b r) (\<lambda>c. rbind (output_candidates env b rs) (\<lambda>cs. Inr (c # cs)))"

definition build_output_candidates :: "('a, 'b, 's, 'c, 't) builder_env \<Rightarrow> 'b tx_builder \<Rightarrow> tx_build_error + 'c list" where
  "build_output_candidates env b = output_candidates env b (tb_outputs b)"

definition tx_build :: "('a, 'b, 's, 'c, 't) builder_env \<Rightarrow> 'b tx_builder \<Rightarrow> tx_build_error + 't" where
  "tx_build env b =
     (if tb_inputs b = [] then Inl TB_NoInputs
      else case tb_change_address b of
        None \<Rightarrow> Inl TB_NoChangeAddress
      | Some change \<Rightarrow>
          rbind (parse_address env b change) (\<lambda>change_address.
            let total_needed = total_output_amount b + tb_fee b;
                needed_tokens = concat (map pr_tokens (tb_outputs b))
            in case te_box_value env total_needed of
                 Some e \<Rightarrow> Inl (TB_InvalidAmount e)
               | None \<Rightarrow>
                   (case te_select env (tb_inputs b) total_needed needed_tokens of
                      Inl e \<Rightarrow> Inl (TB_BoxSelection e)
                    | Inr selection \<Rightarrow>
                        rbind (build_output_candidates env b) (\<lambda>candidates.
                          case te_box_value env (tb_fee b) of
                            Some e \<Rightarrow> Inl (TB_InvalidAmount e)
                          | None \<Rightarrow>
                              (case te_build env selection candidates (tb_current_height b) (tb_fee b) change_address of
                                 Inl e \<Rightarrow> Inl (TB_TxBuilder e)
                               | Inr tx \<Rightarrow> Inr tx)))))"

definition create_send_tx ::
  "('a, 'b, 's, 'c, 't) builder_env \<Rightarrow> 'b list \<Rightarrow> string \<Rightarrow> u64 \<Rightarrow> string \<Rightarrow> u32 \<Rightarrow> wallet_network \<Rightarrow> tx_build_error + 't" where
  "create_send_tx env from_boxes to_address amount change_address height network =
     tx_build env (set_change_address change_address (add_output (payment_request_new to_address amount)
       (set_inputs from_boxes (tx_builder_new network height))))"

text \<open>
  A transaction that is built has inputs and a change address, one candidate for every request in the
  same order, and the selection was asked for the amounts and the fee; these are summed on words of 64
  bits, so that the sum is the true one only below \<open>2 ^ 64\<close>.
\<close>

lemma output_candidates_all:
  "output_candidates env b rs = Inr cs \<Longrightarrow> list_all2 (\<lambda>r c. output_candidate env b r = Inr c) rs cs"
proof (induction rs arbitrary: cs)
  case (Cons r rs)
  then show ?case
    by (cases "output_candidate env b r"; cases "output_candidates env b rs") auto
qed simp

lemma tx_build_ok:
  assumes "tx_build env b = Inr tx"
  shows "\<exists>change address selection candidates. tb_inputs b \<noteq> [] \<and> tb_change_address b = Some change
    \<and> te_parse_address env (tb_network b) change = Inr address
    \<and> te_select env (tb_inputs b) (total_output_amount b + tb_fee b) (concat (map pr_tokens (tb_outputs b))) = Inr selection
    \<and> list_all2 (\<lambda>r c. output_candidate env b r = Inr c) (tb_outputs b) candidates
    \<and> te_build env selection candidates (tb_current_height b) (tb_fee b) address = Inr tx"
proof -
  obtain change address where c: "tb_inputs b \<noteq> []" "tb_change_address b = Some change" "te_parse_address env (tb_network b) change = Inr address"
    using assms by (auto simp: tx_build_def parse_address_def split: if_splits option.splits sum.splits)
  then obtain selection where s: "te_select env (tb_inputs b) (total_output_amount b + tb_fee b) (concat (map pr_tokens (tb_outputs b))) = Inr selection"
    using assms by (auto simp: tx_build_def parse_address_def Let_def split: option.splits sum.splits)
  then obtain candidates where "build_output_candidates env b = Inr candidates"
    using assms c by (cases "build_output_candidates env b") (auto simp: tx_build_def parse_address_def Let_def split: option.splits)
  then show ?thesis
    using assms c s output_candidates_all [of env b "tb_outputs b" candidates]
    by (auto simp: tx_build_def parse_address_def Let_def build_output_candidates_def split: option.splits sum.splits)
qed

lemma total_output_amount_nat:
  assumes "(\<Sum>r \<leftarrow> tb_outputs b. unat (pr_amount r)) < 2 ^ 64"
  shows "unat (total_output_amount b) = (\<Sum>r \<leftarrow> tb_outputs b. unat (pr_amount r))"
proof -
  have "unat (sum_list (map pr_amount rs)) = (\<Sum>r \<leftarrow> rs. unat (pr_amount r)) mod 2 ^ 64" for rs
    by (induction rs) (simp_all add: unat_word_ariths mod_add_right_eq)
  then have "unat (total_output_amount b) = (\<Sum>r \<leftarrow> tb_outputs b. unat (pr_amount r)) mod 2 ^ 64"
    by (simp add: total_output_amount_def)
  also have "\<dots> = (\<Sum>r \<leftarrow> tb_outputs b. unat (pr_amount r))"
    using assms by (rule mod_less)
  finally show ?thesis .
qed

end
