(* ===== verification/Scans.thy ===== *)
theory Scans
  imports Utxo "HOL-Library.Sublist"
begin

text \<open>
  Scans of external applications (\<open>crates/ergo-storage/src/scan/\<close>): the predicates, the registered scans
  and the boxes they track, over the storage of \<open>Storage\<close>. The JSON form of scans and boxes (serde) is an
  argument. Texts are their UTF-8 bytes; the identifier of a scan is a signed word of 16 bits.
\<close>

subsection \<open>Predicates\<close>

datatype scanning_predicate =
    ContainsAsset bytes
  | RegEquals u8 bytes
  | RegContains u8 bytes
  | PAnd "scanning_predicate list"
  | POr "scanning_predicate list"

text \<open>\<open>windows\<close>: all contiguous parts of a length.\<close>

definition contains_slice :: "bytes \<Rightarrow> bytes \<Rightarrow> bool" where
  "contains_slice haystack needle =
     (if needle = [] then True
      else if length haystack < length needle then False
      else list_ex (\<lambda>i. take (length needle) (drop i haystack) = needle) [0..<length haystack - length needle + 1])"

fun predicate_matches :: "(bytes \<times> u64) list \<Rightarrow> (u8 \<Rightarrow> bytes option) \<Rightarrow> scanning_predicate \<Rightarrow> bool" where
  "predicate_matches tokens registers (ContainsAsset asset_id) = list_ex (\<lambda>t. fst t = asset_id) tokens"
| "predicate_matches tokens registers (RegEquals reg_id v) = (case registers reg_id of Some w \<Rightarrow> w = v | None \<Rightarrow> False)"
| "predicate_matches tokens registers (RegContains reg_id v) = (case registers reg_id of Some w \<Rightarrow> contains_slice w v | None \<Rightarrow> False)"
| "predicate_matches tokens registers (PAnd args) = list_all (predicate_matches tokens registers) args"
| "predicate_matches tokens registers (POr args) = list_ex (predicate_matches tokens registers) args"

subsection \<open>Scans and their boxes\<close>

type_synonym scan_id = "16 word"

datatype scan_wallet_interaction = InteractionOff | InteractionShared | InteractionForced

definition interaction_to_byte :: "scan_wallet_interaction \<Rightarrow> u8" where
  "interaction_to_byte i = (case i of InteractionOff \<Rightarrow> - 1 | InteractionShared \<Rightarrow> - 2 | InteractionForced \<Rightarrow> - 3)"

definition interaction_from_byte :: "u8 \<Rightarrow> scan_wallet_interaction" where
  "interaction_from_byte b =
     (if b = - 1 then InteractionOff else if b = - 2 then InteractionShared else if b = - 3 then InteractionForced else InteractionOff)"

definition interacts_with_wallet :: "scan_wallet_interaction \<Rightarrow> bool" where
  "interacts_with_wallet i = (i = InteractionShared \<or> i = InteractionForced)"

definition MAX_SCAN_NAME_LENGTH :: nat where "MAX_SCAN_NAME_LENGTH = 255"

record scan =
  sc_scan_id :: scan_id
  sc_scan_name :: bytes
  sc_tracking_rule :: scanning_predicate
  sc_wallet_interaction :: scan_wallet_interaction
  sc_remove_offchain :: bool

record scan_request =
  sq_scan_name :: bytes
  sq_tracking_rule :: scanning_predicate
  sq_wallet_interaction :: "scan_wallet_interaction option"
  sq_remove_offchain :: "bool option"

definition to_scan :: "scan_request \<Rightarrow> scan_id \<Rightarrow> bytes + scan" where
  "to_scan request i =
     (if MAX_SCAN_NAME_LENGTH < length (sq_scan_name request) then Inl (bstr ''Scan name too long: '' @ sq_scan_name request)
      else Inr \<lparr>sc_scan_id = i, sc_scan_name = sq_scan_name request, sc_tracking_rule = sq_tracking_rule request,
        sc_wallet_interaction = (case sq_wallet_interaction request of Some w \<Rightarrow> w | None \<Rightarrow> InteractionShared),
        sc_remove_offchain = (case sq_remove_offchain request of Some r \<Rightarrow> r | None \<Rightarrow> True)\<rparr>)"

record scan_box =
  sb_box_id :: bytes
  sb_scan_ids :: "scan_id list"
  sb_spent :: bool
  sb_spending_tx_id :: "bytes option"
  sb_spending_height :: "u32 option"
  sb_inclusion_height :: u32
  sb_confirmations_num :: u32
  sb_box_data :: bytes

definition scan_box_new :: "bytes \<Rightarrow> scan_id list \<Rightarrow> u32 \<Rightarrow> u32 \<Rightarrow> bytes \<Rightarrow> scan_box" where
  "scan_box_new box_id scan_ids inclusion_height confirmations_num box_data =
     \<lparr>sb_box_id = box_id, sb_scan_ids = scan_ids, sb_spent = False, sb_spending_tx_id = None, sb_spending_height = None,
      sb_inclusion_height = inclusion_height, sb_confirmations_num = confirmations_num, sb_box_data = box_data\<rparr>"

definition scan_box_mark_spent :: "bytes \<Rightarrow> u32 \<Rightarrow> scan_box \<Rightarrow> scan_box" where
  "scan_box_mark_spent spending_tx_id spending_height b =
     b\<lparr>sb_spent := True, sb_spending_tx_id := Some spending_tx_id, sb_spending_height := Some spending_height\<rparr>"

text \<open>\<open>serde_json\<close>: a value that it cannot write becomes no bytes at all.\<close>

record scan_env =
  se_scan_json :: "scan \<Rightarrow> bytes"
  se_scan_parse :: "bytes \<Rightarrow> scan option"
  se_box_json :: "scan_box \<Rightarrow> bytes"
  se_box_parse :: "bytes \<Rightarrow> scan_box option"

subsection \<open>The storage of scans\<close>

record scan_storage =
  ss_db :: database
  ss_scans :: "(scan_id \<times> scan) list"
  ss_next_scan_id :: scan_id

text \<open>Scans in the order of the keys; a value that cannot be read is left out. Identifiers compare as signed words.\<close>

definition load_scan :: "scan \<Rightarrow> (scan_id \<times> scan) list \<times> scan_id \<Rightarrow> (scan_id \<times> scan) list \<times> scan_id" where
  "load_scan s acc =
     (AList.update (sc_scan_id s) s (fst acc), if sint (snd acc) < sint (sc_scan_id s) then sc_scan_id s else snd acc)"

definition load_scans :: "scan_env \<Rightarrow> scan_storage \<Rightarrow> scan_storage" where
  "load_scans env ss =
     (let (scans, max_id) = fold load_scan (List.map_filter (\<lambda>(_, v). se_scan_parse env v) (db_iter (ss_db ss) CF_Scans)) (ss_scans ss, 0)
      in ss\<lparr>ss_scans := scans, ss_next_scan_id := max_id + 1\<rparr>)"

definition scan_storage_new :: "scan_env \<Rightarrow> database \<Rightarrow> scan_storage" where
  "scan_storage_new env db = load_scans env \<lparr>ss_db = db, ss_scans = [], ss_next_scan_id = 1\<rparr>"

text \<open>A request that is refused has used up its identifier.\<close>

definition scan_register :: "scan_env \<Rightarrow> scan_request \<Rightarrow> scan_storage \<Rightarrow> (bytes + scan) \<times> scan_storage" where
  "scan_register env request ss =
     (let i = ss_next_scan_id ss; ss = ss\<lparr>ss_next_scan_id := i + 1\<rparr> in
      case to_scan request i of
        Inl e \<Rightarrow> (Inl e, ss)
      | Inr s \<Rightarrow>
          (Inr s, ss\<lparr>ss_db := db_put CF_Scans (be_u16 i) (se_scan_json env s) (ss_db ss), ss_scans := AList.update i s (ss_scans ss)\<rparr>))"

definition remove_scan_box :: "scan_env \<Rightarrow> scan_id \<Rightarrow> bytes \<times> bytes \<Rightarrow> write_batch \<Rightarrow> write_batch" where
  "remove_scan_box env i kv batch =
     (case se_box_parse env (snd kv) of
        None \<Rightarrow> batch
      | Some b \<Rightarrow>
          if i \<in> set (sb_scan_ids b)
          then let ids = filter (\<lambda>j. j \<noteq> i) (sb_scan_ids b) in
               if ids = [] then batch_delete CF_ScanBoxes (fst kv) batch
               else batch_put CF_ScanBoxes (fst kv) (se_box_json env (b\<lparr>sb_scan_ids := ids\<rparr>)) batch
          else batch)"

definition remove_scan_boxes :: "scan_env \<Rightarrow> scan_id \<Rightarrow> database \<Rightarrow> database" where
  "remove_scan_boxes env i db = db_write_batch (fold (remove_scan_box env i) (db_iter db CF_ScanBoxes) batch_new) db"

definition scan_deregister :: "scan_env \<Rightarrow> scan_id \<Rightarrow> scan_storage \<Rightarrow> (bytes + unit) \<times> scan_storage" where
  "scan_deregister env i ss =
     (if map_of (ss_scans ss) i = None then (Inl (bstr (''Scan '' @ show_int (sint i) @ '' not found'')), ss)
      else
        let db = db_delete CF_Scans (be_u16 i) (ss_db ss);
            db = remove_scan_boxes env i db
        in (Inr (), ss\<lparr>ss_db := db, ss_scans := AList.delete i (ss_scans ss)\<rparr>))"

text \<open>\<open>order\<close> is the order in which the hash map is visited.\<close>

definition scan_list_all :: "((scan_id \<times> scan) list \<Rightarrow> (scan_id \<times> scan) list) \<Rightarrow> scan_storage \<Rightarrow> scan list" where
  "scan_list_all order ss = map snd (order (ss_scans ss))"

definition scan_get :: "scan_storage \<Rightarrow> scan_id \<Rightarrow> scan option" where
  "scan_get ss i = map_of (ss_scans ss) i"

definition scan_box_key :: "bytes \<Rightarrow> bytes" where
  "scan_box_key box_id = box_id"

definition scan_add_box :: "scan_env \<Rightarrow> scan_box \<Rightarrow> scan_storage \<Rightarrow> scan_storage" where
  "scan_add_box env b ss = ss\<lparr>ss_db := db_put CF_ScanBoxes (scan_box_key (sb_box_id b)) (se_box_json env b) (ss_db ss)\<rparr>"

definition add_box_to_scans :: "scan_env \<Rightarrow> bytes \<Rightarrow> scan_id list \<Rightarrow> u32 \<Rightarrow> u32 \<Rightarrow> bytes \<Rightarrow> scan_storage \<Rightarrow> scan_storage" where
  "add_box_to_scans env box_id scan_ids inclusion_height confirmations_num box_data ss =
     scan_add_box env (scan_box_new box_id scan_ids inclusion_height confirmations_num box_data) ss"

definition scan_get_box :: "scan_env \<Rightarrow> scan_storage \<Rightarrow> bytes \<Rightarrow> scan_box option" where
  "scan_get_box env ss box_id =
     (case db_get (ss_db ss) CF_ScanBoxes (scan_box_key box_id) of Some data \<Rightarrow> se_box_parse env data | None \<Rightarrow> None)"

definition stored_boxes :: "scan_env \<Rightarrow> scan_storage \<Rightarrow> scan_box list" where
  "stored_boxes env ss = List.map_filter (\<lambda>(_, v). se_box_parse env v) (db_iter (ss_db ss) CF_ScanBoxes)"

definition get_unspent_scan_boxes :: "scan_env \<Rightarrow> scan_storage \<Rightarrow> scan_id \<Rightarrow> scan_box list" where
  "get_unspent_scan_boxes env ss i = filter (\<lambda>b. \<not> sb_spent b \<and> i \<in> set (sb_scan_ids b)) (stored_boxes env ss)"

definition get_spent_scan_boxes :: "scan_env \<Rightarrow> scan_storage \<Rightarrow> scan_id \<Rightarrow> scan_box list" where
  "get_spent_scan_boxes env ss i = filter (\<lambda>b. sb_spent b \<and> i \<in> set (sb_scan_ids b)) (stored_boxes env ss)"

definition stop_tracking :: "scan_env \<Rightarrow> scan_id \<Rightarrow> bytes \<Rightarrow> scan_storage \<Rightarrow> scan_storage" where
  "stop_tracking env i box_id ss =
     (case scan_get_box env ss box_id of
        None \<Rightarrow> ss
      | Some b \<Rightarrow>
          let ids = filter (\<lambda>j. j \<noteq> i) (sb_scan_ids b); key = scan_box_key box_id in
          if ids = [] then ss\<lparr>ss_db := db_delete CF_ScanBoxes key (ss_db ss)\<rparr>
          else ss\<lparr>ss_db := db_put CF_ScanBoxes key (se_box_json env (b\<lparr>sb_scan_ids := ids\<rparr>)) (ss_db ss)\<rparr>)"

definition mark_scan_box_spent :: "scan_env \<Rightarrow> bytes \<Rightarrow> bytes \<Rightarrow> u32 \<Rightarrow> scan_storage \<Rightarrow> scan_storage" where
  "mark_scan_box_spent env box_id spending_tx_id spending_height ss =
     (case scan_get_box env ss box_id of
        None \<Rightarrow> ss
      | Some b \<Rightarrow> ss\<lparr>ss_db := db_put CF_ScanBoxes (scan_box_key box_id)
                              (se_box_json env (scan_box_mark_spent spending_tx_id spending_height b)) (ss_db ss)\<rparr>)"

text \<open>The height and the created boxes are not looked at.\<close>

definition scan_process_block :: "scan_env \<Rightarrow> u32 \<Rightarrow> (bytes \<times> bytes) list \<Rightarrow> bytes list \<Rightarrow> bytes \<Rightarrow> scan_storage \<Rightarrow> scan_storage" where
  "scan_process_block env height created_boxes spent_box_ids spending_tx_id ss =
     fold (\<lambda>box_id ss. if scan_get_box env ss box_id \<noteq> None then mark_scan_box_spent env box_id spending_tx_id 0 ss else ss) spent_box_ids ss"

subsection \<open>Predicates\<close>

text \<open>The search for a slice finds exactly the contiguous sublists.\<close>

lemma contains_slice_sublist: "contains_slice haystack needle \<longleftrightarrow> sublist needle haystack"
proof
  assume "contains_slice haystack needle"
  then consider "needle = []" | i where "take (length needle) (drop i haystack) = needle"
    by (auto simp: contains_slice_def list_ex_iff simp del: upt_Suc split: if_splits)
  then show "sublist needle haystack"
  proof cases
    case (2 i)
    have "haystack = take i haystack @ needle @ drop (length needle) (drop i haystack)"
      by (metis 2 append_take_drop_id)
    then show ?thesis
      by (metis sublist_appendI)
  qed simp
next
  assume "sublist needle haystack"
  then obtain ps ss where h: "haystack = ps @ needle @ ss"
    by (auto simp: sublist_def)
  then have "length ps \<in> set [0..<length haystack - length needle + 1]" "take (length needle) (drop (length ps) haystack) = needle"
    by simp_all
  then have "list_ex (\<lambda>i. take (length needle) (drop i haystack) = needle) [0..<length haystack - length needle + 1]"
    unfolding list_ex_iff by blast
  moreover have "\<not> length haystack < length needle"
    by (simp add: h)
  ultimately show "contains_slice haystack needle"
    by (simp add: contains_slice_def del: upt_Suc)
qed

lemma interaction_roundtrip: "interaction_from_byte (interaction_to_byte i) = i"
  by (cases i) (simp_all add: interaction_from_byte_def interaction_to_byte_def)

subsection \<open>What the storage holds\<close>

text \<open>Boxes are read back from their JSON.\<close>

definition boxes_read_back :: "scan_env \<Rightarrow> bool" where
  "boxes_read_back env \<longleftrightarrow> (\<forall>b. se_box_parse env (se_box_json env b) = Some b)"

lemma box_read_back [simp]: "boxes_read_back env \<Longrightarrow> se_box_parse env (se_box_json env b) = Some b"
  by (simp add: boxes_read_back_def)

lemma db_get_put_del [simp]:
  "db_get (db_put cf k v db) cf' k' = (if cf' = cf \<and> k' = k then Some v else db_get db cf' k')"
  "db_get (db_delete cf k db) cf' k' = (if cf' = cf \<and> k' = k then None else db_get db cf' k')"
  by (simp_all add: db.get_put db.get_del)

lemma stored_boxes_get:
  assumes "db_ok (ss_db ss)"
  shows "b \<in> set (stored_boxes env ss) \<longleftrightarrow> (\<exists>k. scan_get_box env ss k = Some b)"
proof -
  have "b \<in> set (stored_boxes env ss) \<longleftrightarrow> (\<exists>kv \<in> set (db_iter (ss_db ss) CF_ScanBoxes). se_box_parse env (snd kv) = Some b)"
    by (force simp: stored_boxes_def List.map_filter_def image_iff)
  also have "\<dots> \<longleftrightarrow> (\<exists>k v. db_get (ss_db ss) CF_ScanBoxes k = Some v \<and> se_box_parse env v = Some b)"
    unfolding db_iter_get [OF assms, symmetric] by force
  finally show ?thesis
    by (auto simp: scan_get_box_def scan_box_key_def split: option.splits)
qed

lemma remove_scan_boxes_lookup:
  "distinct (map fst kvs) \<Longrightarrow> batch_lookup (fold (remove_scan_box env i) kvs batch) CF_ScanBoxes k =
     (case map_of kvs k of
        None \<Rightarrow> batch_lookup batch CF_ScanBoxes k
      | Some v \<Rightarrow>
          (case se_box_parse env v of
             None \<Rightarrow> batch_lookup batch CF_ScanBoxes k
           | Some b \<Rightarrow>
               if i \<in> set (sb_scan_ids b)
               then let ids = filter (\<lambda>j. j \<noteq> i) (sb_scan_ids b) in
                    if ids = [] then Some None else Some (Some (se_box_json env (b\<lparr>sb_scan_ids := ids\<rparr>)))
               else batch_lookup batch CF_ScanBoxes k))"
proof (induction kvs arbitrary: batch)
  case (Cons kv kvs)
  show ?case
  proof (cases "fst kv = k")
    case True
    then have "map_of kvs k = None"
      using Cons.prems by (auto simp: map_of_eq_None_iff)
    then show ?thesis
      using Cons True by (cases kv) (auto simp: remove_scan_box_def Let_def split: option.split)
  next
    case False
    then have "batch_lookup (remove_scan_box env i kv batch) CF_ScanBoxes k = batch_lookup batch CF_ScanBoxes k"
      by (simp add: remove_scan_box_def Let_def split: option.split)
    then show ?thesis
      using Cons False by (cases kv) (simp split: option.split)
  qed
qed simp

lemma remove_scan_boxes_other:
  "cf \<noteq> CF_ScanBoxes \<Longrightarrow> batch_lookup (fold (remove_scan_box env i) kvs batch) cf k = batch_lookup batch cf k"
  by (induction kvs arbitrary: batch) (simp_all add: remove_scan_box_def Let_def split: option.split)

lemma db_ok_distinct: "db_ok db \<Longrightarrow> distinct (map fst (db_iter db cf))"
  using strict_sorted_iff by (auto simp: db_ok_def kv_sorted_def db_iter_def)

text \<open>What becomes of the box under a key when a scan is removed.\<close>

definition without_scan :: "scan_id \<Rightarrow> scan_box \<Rightarrow> scan_box option" where
  "without_scan i b =
     (let ids = filter (\<lambda>j. j \<noteq> i) (sb_scan_ids b) in
      if i \<in> set (sb_scan_ids b) \<and> ids = [] then None else Some (b\<lparr>sb_scan_ids := ids\<rparr>))"

lemma removed_box:
  assumes "boxes_read_back env" "db_ok (ss_db ss)"
  shows "scan_get_box env (ss\<lparr>ss_db := remove_scan_boxes env i (ss_db ss)\<rparr>) k = Option.bind (scan_get_box env ss k) (without_scan i)"
proof -
  have get: "map_of (db_iter (ss_db ss) CF_ScanBoxes) k = db_get (ss_db ss) CF_ScanBoxes k"
    by (simp add: db_iter_def db_get_def)
  show ?thesis
  proof (cases "db_get (ss_db ss) CF_ScanBoxes k")
    case None
    then show ?thesis
      using assms by (simp add: scan_get_box_def scan_box_key_def remove_scan_boxes_def db_get_write_batch
          remove_scan_boxes_lookup [OF db_ok_distinct] get)
  next
    case (Some v)
    have keep: "filter (\<lambda>j. j \<noteq> i) (sb_scan_ids b) = sb_scan_ids b" if "i \<notin> set (sb_scan_ids b)" for b :: scan_box
      using that by (auto intro: filter_True)
    show ?thesis
      using assms Some by (auto simp: scan_get_box_def scan_box_key_def remove_scan_boxes_def db_get_write_batch
          remove_scan_boxes_lookup [OF db_ok_distinct] get without_scan_def Let_def keep split: option.split)
  qed
qed

text \<open>C39: Deregistering a scan removes exactly this scan: it is gone from the registry, no box is tracked for it any more, a
  box of other scans keeps all its data and its other scans, and a box of this scan alone is dropped.\<close>
theorem deregister_exact:
  assumes "boxes_read_back env" "db_ok (ss_db ss)" "scan_get ss i = Some s" "scan_deregister env i ss = (r, ss')"
  shows "r = Inr () \<and> scan_get ss' = (scan_get ss)(i := None) \<and> db_get (ss_db ss') CF_Scans (be_u16 i) = None
    \<and> get_unspent_scan_boxes env ss' i = [] \<and> get_spent_scan_boxes env ss' i = []
    \<and> scan_get_box env ss' k = Option.bind (scan_get_box env ss k) (without_scan i)"
proof -
  let ?db = "db_delete CF_Scans (be_u16 i) (ss_db ss)"
  have ss': "r = Inr ()" "ss' = ss\<lparr>ss_db := remove_scan_boxes env i ?db, ss_scans := AList.delete i (ss_scans ss)\<rparr>"
    using assms(3,4) by (auto simp: scan_deregister_def scan_get_def Let_def)
  have ok: "db_ok ?db"
    using assms(2) by (rule db_ok_delete)
  have box: "scan_get_box env ss' k = Option.bind (scan_get_box env ss k) (without_scan i)" for k
    using removed_box [OF assms(1), of "ss\<lparr>ss_db := ?db\<rparr>" i k] ok by (simp add: ss'(2) scan_get_box_def)
  have "i \<notin> set (sb_scan_ids b)" if b: "b \<in> set (stored_boxes env ss')" for b
  proof -
    have "db_ok (ss_db ss')"
      using ok by (simp add: ss'(2) remove_scan_boxes_def db_ok_write_batch)
    then obtain k where "scan_get_box env ss' k = Some b"
      using b by (auto simp: stored_boxes_get [OF \<open>db_ok (ss_db ss')\<close>])
    then have "Option.bind (scan_get_box env ss k) (without_scan i) = Some b"
      by (simp only: box)
    then obtain b0 where "without_scan i b0 = Some b"
      by (auto simp: bind_eq_Some_conv)
    then show ?thesis
      by (auto simp: without_scan_def Let_def split: if_splits)
  qed
  then have "get_unspent_scan_boxes env ss' i = []" "get_spent_scan_boxes env ss' i = []"
    by (auto simp: get_unspent_scan_boxes_def get_spent_scan_boxes_def filter_empty_conv)
  moreover have "db_get (ss_db ss') CF_Scans (be_u16 i) = None"
    by (simp add: ss'(2) remove_scan_boxes_def db_get_write_batch remove_scan_boxes_other)
  moreover have "scan_get ss' = (scan_get ss)(i := None)"
    by (simp add: ss'(2) scan_get_def fun_eq_iff delete_conv')
  ultimately show ?thesis
    using ss'(1) box by simp
qed

subsection \<open>Restart\<close>

text \<open>The operations on the storage; what is registered is a scan whose JSON is read back.\<close>

inductive scan_run :: "scan_env \<Rightarrow> scan_storage \<Rightarrow> bool" for env where
  scans_start: "scan_run env (scan_storage_new env db_empty)"
| scans_register: "scan_run env ss \<Longrightarrow> (\<And>s. to_scan request (ss_next_scan_id ss) = Inr s \<Longrightarrow> se_scan_parse env (se_scan_json env s) = Some s)
    \<Longrightarrow> scan_run env (snd (scan_register env request ss))"
| scans_deregister: "scan_run env ss \<Longrightarrow> scan_run env (snd (scan_deregister env i ss))"
| scans_add_box: "scan_run env ss \<Longrightarrow> scan_run env (scan_add_box env b ss)"
| scans_stop: "scan_run env ss \<Longrightarrow> scan_run env (stop_tracking env i box_id ss)"
| scans_block: "scan_run env ss \<Longrightarrow> scan_run env (scan_process_block env height created spent tx ss)"
| scans_restart: "scan_run env ss \<Longrightarrow> scan_run env (scan_storage_new env (ss_db ss))"

definition scans_ok :: "scan_env \<Rightarrow> scan_storage \<Rightarrow> bool" where
  "scans_ok env ss \<longleftrightarrow> db_ok (ss_db ss)
     \<and> (\<forall>k. db_get (ss_db ss) CF_Scans k \<noteq> None \<longrightarrow> (\<exists>i. k = be_u16 i))
     \<and> (\<forall>i. db_get (ss_db ss) CF_Scans (be_u16 i) = map_option (se_scan_json env) (scan_get ss i))
     \<and> (\<forall>i s. scan_get ss i = Some s \<longrightarrow> sc_scan_id s = i \<and> se_scan_parse env (se_scan_json env s) = Some s)"

lemma be_u16_inj: "be_u16 i = be_u16 j \<Longrightarrow> i = j"
  unfolding be_u16_def by (metis from_be_u16_be list.inject)

lemma find_append: "find P (xs @ ys) = (case find P xs of Some x \<Rightarrow> Some x | None \<Rightarrow> find P ys)"
  by (induction xs) simp_all

lemma fold_load_scan:
  "map_of (fst (fold load_scan l acc)) i = (case find (\<lambda>s. sc_scan_id s = i) (rev l) of Some s \<Rightarrow> Some s | None \<Rightarrow> map_of (fst acc) i)"
proof (induction l arbitrary: acc)
  case (Cons s l)
  then show ?case
    by (cases "find (\<lambda>s. sc_scan_id s = i) (rev l)")
      (auto simp: load_scan_def update_conv' find_append)
qed simp

lemma fold_load_max:
  "sint (snd acc) \<le> sint (snd (fold load_scan l acc)) \<and> (\<forall>s \<in> set l. sint (sc_scan_id s) \<le> sint (snd (fold load_scan l acc)))
    \<and> snd (fold load_scan l acc) \<in> insert (snd acc) (sc_scan_id ` set l)"
proof (induction l arbitrary: acc)
  case (Cons s l)
  from Cons.IH [of "load_scan s acc"] show ?case
    by (auto simp: load_scan_def split: if_splits)
qed simp

lemma stored_scans:
  assumes "scans_ok env ss"
  shows "s \<in> set (List.map_filter (\<lambda>(_, v). se_scan_parse env v) (db_iter (ss_db ss) CF_Scans)) \<longleftrightarrow> scan_get ss (sc_scan_id s) = Some s"
proof -
  have ok: "db_ok (ss_db ss)" and keys: "\<And>k. db_get (ss_db ss) CF_Scans k \<noteq> None \<Longrightarrow> \<exists>i. k = be_u16 i"
    and vals: "\<And>i. db_get (ss_db ss) CF_Scans (be_u16 i) = map_option (se_scan_json env) (scan_get ss i)"
    and rb: "\<And>i s. scan_get ss i = Some s \<Longrightarrow> sc_scan_id s = i \<and> se_scan_parse env (se_scan_json env s) = Some s"
    using assms by (simp_all add: scans_ok_def)
  have "s \<in> set (List.map_filter (\<lambda>(_, v). se_scan_parse env v) (db_iter (ss_db ss) CF_Scans))
      \<longleftrightarrow> (\<exists>kv \<in> set (db_iter (ss_db ss) CF_Scans). se_scan_parse env (snd kv) = Some s)"
    by (force simp: List.map_filter_def image_iff)
  also have "\<dots> \<longleftrightarrow> (\<exists>k v. db_get (ss_db ss) CF_Scans k = Some v \<and> se_scan_parse env v = Some s)"
    unfolding db_iter_get [OF ok, symmetric] by force
  also have "\<dots> \<longleftrightarrow> (\<exists>i s'. scan_get ss i = Some s' \<and> se_scan_parse env (se_scan_json env s') = Some s)"
    (is "?l \<longleftrightarrow> ?r")
  proof
    assume ?l
    then obtain i v where "db_get (ss_db ss) CF_Scans (be_u16 i) = Some v" "se_scan_parse env v = Some s"
      using keys by (metis option.discI)
    then show ?r
      by (auto simp: vals)
  next
    assume ?r
    then show ?l
      by (metis option.simps(9) vals)
  qed
  also have "\<dots> \<longleftrightarrow> scan_get ss (sc_scan_id s) = Some s"
    using rb by fastforce
  finally show ?thesis .
qed

lemma loaded_scans:
  assumes "scans_ok env ss"
  shows "scan_get (scan_storage_new env (ss_db ss)) = scan_get ss"
proof
  fix i
  let ?l = "List.map_filter (\<lambda>(_, v). se_scan_parse env v) (db_iter (ss_db ss) CF_Scans)"
  have "scan_get (scan_storage_new env (ss_db ss)) i = find (\<lambda>s. sc_scan_id s = i) (rev ?l)"
    by (simp add: scan_storage_new_def load_scans_def scan_get_def case_prod_unfold Let_def fold_load_scan split: option.split)
  also have "\<dots> = scan_get ss i"
  proof (cases "find (\<lambda>s. sc_scan_id s = i) (rev ?l)")
    case None
    then have "\<forall>s \<in> set ?l. sc_scan_id s \<noteq> i"
      by (auto simp: find_None_iff)
    then have "scan_get ss i \<noteq> Some s" for s
      using stored_scans [OF assms, of s] assms by (auto simp: scans_ok_def)
    then have "scan_get ss i = None"
      by (cases "scan_get ss i") blast+
    then show ?thesis
      using None by simp
  next
    case (Some s)
    then have "s \<in> set ?l" "sc_scan_id s = i"
      by (auto simp: find_Some_iff) (metis nth_mem set_rev length_rev)
    then show ?thesis
      using Some stored_scans [OF assms] by simp
  qed
  finally show "scan_get (scan_storage_new env (ss_db ss)) i = scan_get ss i" .
qed

lemma scans_ok_boxes:
  assumes "scans_ok env ss" "\<And>k. db_get db CF_Scans k = db_get (ss_db ss) CF_Scans k" "db_ok db"
  shows "scans_ok env (ss\<lparr>ss_db := db\<rparr>)"
  using assms by (simp add: scans_ok_def scan_get_def)

lemma scans_ok_put: "scans_ok env ss \<Longrightarrow> scans_ok env (ss\<lparr>ss_db := db_put CF_ScanBoxes k v (ss_db ss)\<rparr>)"
  by (rule scans_ok_boxes) (auto simp: scans_ok_def db_ok_put)

lemma scans_ok_delete: "scans_ok env ss \<Longrightarrow> scans_ok env (ss\<lparr>ss_db := db_delete CF_ScanBoxes k (ss_db ss)\<rparr>)"
  by (rule scans_ok_boxes) (auto simp: scans_ok_def db_ok_delete)

lemma scans_ok_add_box: "scans_ok env ss \<Longrightarrow> scans_ok env (scan_add_box env b ss)"
  by (simp add: scan_add_box_def scans_ok_put)

lemma scans_ok_stop: "scans_ok env ss \<Longrightarrow> scans_ok env (stop_tracking env i box_id ss)"
  by (simp add: stop_tracking_def Let_def scans_ok_put scans_ok_delete split: option.split)

lemma scans_ok_mark: "scans_ok env ss \<Longrightarrow> scans_ok env (mark_scan_box_spent env box_id tx height ss)"
  by (simp add: mark_scan_box_spent_def scans_ok_put split: option.split)

lemma scans_ok_block: "scans_ok env ss \<Longrightarrow> scans_ok env (scan_process_block env height created spent tx ss)"
  unfolding scan_process_block_def by (induction spent arbitrary: ss) (simp_all add: scans_ok_mark)

lemma scans_ok_register:
  assumes "scans_ok env ss" "\<And>s. to_scan request (ss_next_scan_id ss) = Inr s \<Longrightarrow> se_scan_parse env (se_scan_json env s) = Some s"
  shows "scans_ok env (snd (scan_register env request ss))"
proof (cases "to_scan request (ss_next_scan_id ss)")
  case (Inl e)
  then show ?thesis
    using assms(1) by (simp add: scan_register_def scans_ok_def scan_get_def)
next
  case (Inr s)
  then have "sc_scan_id s = ss_next_scan_id ss"
    by (auto simp: to_scan_def split: if_splits)
  then show ?thesis
    using assms Inr be_u16_inj by (auto simp: scan_register_def Let_def scans_ok_def scan_get_def update_conv' db_ok_put split: if_splits)
qed

lemma scans_ok_deregister:
  assumes ok: "scans_ok env ss"
  shows "scans_ok env (snd (scan_deregister env i ss))"
proof -
  let ?ss = "ss\<lparr>ss_db := db_delete CF_Scans (be_u16 i) (ss_db ss), ss_scans := AList.delete i (ss_scans ss)\<rparr>"
  have "scans_ok env ?ss"
    using ok be_u16_inj by (auto simp: scans_ok_def scan_get_def delete_conv' db_ok_delete split: if_splits)
  then have "scans_ok env (?ss\<lparr>ss_db := remove_scan_boxes env i (ss_db ?ss)\<rparr>)"
    by (rule scans_ok_boxes)
      (use \<open>scans_ok env ?ss\<close> in \<open>simp_all add: remove_scan_boxes_def db_get_write_batch remove_scan_boxes_other scans_ok_def db_ok_write_batch\<close>)
  then have "scans_ok env (ss\<lparr>ss_db := remove_scan_boxes env i (db_delete CF_Scans (be_u16 i) (ss_db ss)), ss_scans := AList.delete i (ss_scans ss)\<rparr>)"
    by (cases ss) simp
  then show ?thesis
    using ok by (simp add: scan_deregister_def Let_def)
qed

lemma scans_ok_restart:
  assumes "scans_ok env ss"
  shows "scans_ok env (scan_storage_new env (ss_db ss))"
proof -
  have "ss_db (scan_storage_new env (ss_db ss)) = ss_db ss"
    by (simp add: scan_storage_new_def load_scans_def case_prod_unfold Let_def)
  then show ?thesis
    using assms by (simp add: scans_ok_def loaded_scans [OF assms])
qed

lemma scan_run_ok: "scan_run env ss \<Longrightarrow> scans_ok env ss"
proof (induction rule: scan_run.induct)
  case scans_start
  have "scans_ok env \<lparr>ss_db = db_empty, ss_scans = [], ss_next_scan_id = 1\<rparr>"
    by (simp add: scans_ok_def scan_get_def db_ok_empty) (simp add: db_get_def db_empty_def)
  from scans_ok_restart [OF this] show ?case
    by simp
qed (simp_all add: scans_ok_register scans_ok_deregister scans_ok_add_box scans_ok_stop scans_ok_block scans_ok_restart)

lemma sint_plus_one:
  fixes w :: scan_id
  assumes "w \<noteq> 32767"
  shows "sint (w + 1) = sint w + 1"
proof -
  have "sint w \<noteq> sint (32767 :: scan_id)"
    using assms signed_word_eqI by blast
  then have "- (2 ^ 15) \<le> sint w + 1" "sint w + 1 < 2 ^ 15"
    using sint_greater_eq [of w] sint_less [of w] by simp_all
  then show ?thesis
    by (simp add: sint_word_ariths signed_take_bit_int_eq_self)
qed

text \<open>Registered scans survive a restart: after any operations, also earlier restarts, a new storage over the same database has
  the same scans under the same identifiers, and unless the last identifier 32767 is taken the next
  registration gets an identifier that no scan has.\<close>
theorem scans_survive_restart:
  assumes "scan_run env ss"
  shows "scan_get (scan_storage_new env (ss_db ss)) = scan_get ss
    \<and> (scan_get ss 32767 \<noteq> None \<or> scan_get ss (ss_next_scan_id (scan_storage_new env (ss_db ss))) = None)"
proof -
  note ok = scan_run_ok [OF assms]
  let ?l = "List.map_filter (\<lambda>(_, v). se_scan_parse env v) (db_iter (ss_db ss) CF_Scans)"
  let ?max = "snd (fold load_scan ?l ([], 0))"
  have next_id: "ss_next_scan_id (scan_storage_new env (ss_db ss)) = ?max + 1"
    by (simp add: scan_storage_new_def load_scans_def case_prod_unfold Let_def)
  have max: "sint (sc_scan_id s) \<le> sint ?max" if "s \<in> set ?l" for s
    using that fold_load_max [of "([], 0)" ?l] by blast
  have used: "?max = 0 \<or> (\<exists>s \<in> set ?l. ?max = sc_scan_id s)"
    using fold_load_max [of "([], 0)" ?l] by auto
  have "scan_get ss (?max + 1) = None" if free: "scan_get ss 32767 = None"
  proof (rule ccontr)
    assume "scan_get ss (?max + 1) \<noteq> None"
    then obtain s where s: "scan_get ss (?max + 1) = Some s"
      by blast
    then have "sc_scan_id s = ?max + 1"
      using ok by (simp add: scans_ok_def)
    then have le: "sint (?max + 1) \<le> sint ?max"
      using s stored_scans [OF ok, of s] max by metis
    have "?max \<noteq> 32767"
      using used free stored_scans [OF ok] by auto
    then have "sint (?max + 1) = sint ?max + 1"
      by (rule sint_plus_one)
    then show False
      using le by simp
  qed
  then show ?thesis
    using loaded_scans [OF ok] next_id by (cases "scan_get ss 32767") simp_all
qed

subsection \<open>Blocks\<close>

lemma get_box_mark:
  "boxes_read_back env \<Longrightarrow> scan_get_box env (mark_scan_box_spent env k tx h ss) k' =
     (if k' = k then map_option (scan_box_mark_spent tx h) (scan_get_box env ss k) else scan_get_box env ss k')"
  by (auto simp: mark_scan_box_spent_def scan_get_box_def scan_box_key_def split: option.split)

lemma get_box_block:
  assumes "boxes_read_back env"
  shows "scan_get_box env (scan_process_block env height created spent tx ss) k =
     (if k \<in> set spent then map_option (scan_box_mark_spent tx 0) (scan_get_box env ss k) else scan_get_box env ss k)"
proof -
  let ?f = "\<lambda>box_id ss. if scan_get_box env ss box_id \<noteq> None then mark_scan_box_spent env box_id tx 0 ss else ss"
  have step: "scan_get_box env (?f i ss) k = (if i = k then map_option (scan_box_mark_spent tx 0) (scan_get_box env ss k) else scan_get_box env ss k)" for i ss
    using assms by (cases "scan_get_box env ss i") (auto simp: get_box_mark)
  have twice: "scan_box_mark_spent tx 0 (scan_box_mark_spent tx 0 b) = scan_box_mark_spent tx 0 b" for b :: scan_box
    by (simp add: scan_box_mark_spent_def)
  have "scan_get_box env (fold ?f spent ss) k =
      (if k \<in> set spent then map_option (scan_box_mark_spent tx 0) (scan_get_box env ss k) else scan_get_box env ss k)"
  proof (induction spent arbitrary: ss)
    case (Cons i spent)
    then show ?case
      using step [where i = i and ss = ss] by (auto simp: option.map_comp comp_def twice simp del: not_None_eq)
  qed simp
  then show ?thesis
    by (simp add: scan_process_block_def)
qed

text \<open>A block marks exactly the tracked boxes it spends, with the transaction given, but records the height 0 for each of them
  whatever the height of the block is, and tracks no box that the block creates.\<close>
theorem block_marks_at_height_zero:
  assumes "boxes_read_back env"
  shows "scan_get_box env (scan_process_block env height created spent tx ss) k =
    (case scan_get_box env ss k of
       None \<Rightarrow> None
     | Some b \<Rightarrow> Some (if k \<in> set spent then b\<lparr>sb_spent := True, sb_spending_tx_id := Some tx, sb_spending_height := Some 0\<rparr> else b))"
  using get_box_block [OF assms, of height created spent tx ss k] by (simp add: scan_box_mark_spent_def split: option.split)

text \<open>Adding a box again replaces its record: the other scans and the mark that it is spent are gone.\<close>

lemma adding_again_forgets:
  "boxes_read_back env \<Longrightarrow> scan_get_box env (add_box_to_scans env k ids height conf data ss) k = Some (scan_box_new k ids height conf data)"
  by (simp add: add_box_to_scans_def scan_add_box_def scan_get_box_def scan_box_key_def scan_box_new_def)

subsection \<open>A concrete storage\<close>

text \<open>Byte strings written with a mark before each byte, so that they end by themselves.\<close>

definition w_str :: "bytes \<Rightarrow> bytes" where
  "w_str bs = concat (map (\<lambda>b. [1, b]) bs) @ [0]"

fun r_str :: "bytes \<Rightarrow> (bytes \<times> bytes) option" where
  "r_str (m # b # rest) = (if m = 1 then map_option (apfst (Cons b)) (r_str rest) else Some ([], b # rest))"
| "r_str [m] = Some ([], [])"
| "r_str [] = None"

lemma r_str_w_str [simp]: "r_str (w_str bs @ rest) = Some (bs, rest)"
  by (induction bs) (cases rest; simp add: w_str_def)+

fun r_pairs :: "bytes \<Rightarrow> scan_id list" where
  "r_pairs (a # b # rest) = from_be_u16 a b # r_pairs rest"
| "r_pairs _ = []"

lemma r_pairs_be [simp]: "r_pairs (concat (map be_u16 ids)) = ids"
  by (induction ids) (simp_all add: be_u16_def)

definition w_opt :: "bytes option \<Rightarrow> bytes" where
  "w_opt r = (case r of None \<Rightarrow> [] | Some bs \<Rightarrow> 1 # bs)"

definition r_opt :: "bytes \<Rightarrow> bytes option" where
  "r_opt bs = (case bs of [] \<Rightarrow> None | _ # rest \<Rightarrow> Some rest)"

lemma r_opt_w_opt [simp]: "r_opt (w_opt r) = r"
  by (simp add: r_opt_def w_opt_def split: option.split)

definition r_u32 :: "bytes \<Rightarrow> u32" where
  "r_u32 bs = from_be_u32 (bs ! 0) (bs ! 1) (bs ! 2) (bs ! 3)"

lemma r_u32_be [simp]: "r_u32 (be_u32 w) = w"
  by (simp add: r_u32_def be_u32_def)

definition w_box :: "scan_box \<Rightarrow> bytes" where
  "w_box b = w_str (sb_box_id b) @ w_str (concat (map be_u16 (sb_scan_ids b))) @ w_str (w_opt (sb_spending_tx_id b))
     @ w_str (w_opt (map_option be_u32 (sb_spending_height b))) @ w_str (be_u32 (sb_inclusion_height b))
     @ w_str (be_u32 (sb_confirmations_num b)) @ w_str (sb_box_data b) @ [if sb_spent b then 1 else 0]"

definition r_box :: "bytes \<Rightarrow> scan_box option" where
  "r_box bs =
     Option.bind (r_str bs) (\<lambda>(box_id, bs). Option.bind (r_str bs) (\<lambda>(ids, bs). Option.bind (r_str bs) (\<lambda>(tx, bs).
     Option.bind (r_str bs) (\<lambda>(height, bs). Option.bind (r_str bs) (\<lambda>(incl, bs). Option.bind (r_str bs) (\<lambda>(conf, bs).
     Option.bind (r_str bs) (\<lambda>(data, bs).
       Some \<lparr>sb_box_id = box_id, sb_scan_ids = r_pairs ids, sb_spent = (bs = [1]), sb_spending_tx_id = r_opt tx,
         sb_spending_height = map_option r_u32 (r_opt height), sb_inclusion_height = r_u32 incl, sb_confirmations_num = r_u32 conf,
         sb_box_data = data\<rparr>)))))))"

text \<open>Scans without a name for one asset, which are given by their identifiers.\<close>

definition asset_scan :: "scan_id \<Rightarrow> scan" where
  "asset_scan i = \<lparr>sc_scan_id = i, sc_scan_name = [], sc_tracking_rule = ContainsAsset [7], sc_wallet_interaction = InteractionShared,
     sc_remove_offchain = True\<rparr>"

definition asset_request :: scan_request where
  "asset_request = \<lparr>sq_scan_name = [], sq_tracking_rule = ContainsAsset [7], sq_wallet_interaction = None, sq_remove_offchain = None\<rparr>"

definition sample_scan_env :: scan_env where
  "sample_scan_env = \<lparr>se_scan_json = (\<lambda>s. be_u16 (sc_scan_id s)), se_scan_parse = (\<lambda>bs. Some (asset_scan (from_be_u16 (bs ! 0) (bs ! 1)))),
     se_box_json = w_box, se_box_parse = r_box\<rparr>"

lemma sample_read_back: "boxes_read_back sample_scan_env"
proof -
  have "r_box (w_box b) = Some b" for b
    by (simp add: r_box_def w_box_def option.map_comp comp_def option.map_ident)
  then show ?thesis
    by (simp add: boxes_read_back_def sample_scan_env_def)
qed

definition sample_scans :: scan_storage where
  "sample_scans = snd (scan_register sample_scan_env asset_request (scan_storage_new sample_scan_env db_empty))"

lemma sample_scans_eq:
  "scan_get sample_scans 1 = Some (asset_scan 1)" "ss_db sample_scans = db_put CF_Scans (be_u16 1) (be_u16 1) db_empty" "ss_next_scan_id sample_scans = 2"
  by (simp_all add: sample_scans_def scan_register_def scan_storage_new_def load_scans_def db_iter_def db_empty_def Let_def List.map_filter_def
      to_scan_def asset_request_def asset_scan_def scan_get_def MAX_SCAN_NAME_LENGTH_def sample_scan_env_def)

lemma sample_scans_run: "scan_run sample_scan_env sample_scans"
  unfolding sample_scans_def
  by (intro scans_register scans_start)
    (auto simp: to_scan_def asset_request_def sample_scan_env_def asset_scan_def be_u16_def MAX_SCAN_NAME_LENGTH_def split: if_splits)

theorem deregister_exact_witness:
  "\<exists>ss'. scan_deregister sample_scan_env 1 sample_scans = (Inr (), ss') \<and> scan_get ss' 1 = None"
proof -
  obtain r ss' where d: "scan_deregister sample_scan_env 1 sample_scans = (r, ss')"
    by (cases "scan_deregister sample_scan_env 1 sample_scans")
  have "db_ok (ss_db sample_scans)"
    using scan_run_ok [OF sample_scans_run] by (simp add: scans_ok_def)
  from deregister_exact [OF sample_read_back this sample_scans_eq(1) d] d show ?thesis
    by simp
qed

theorem scans_survive_restart_witness:
  "scan_get (scan_storage_new sample_scan_env (ss_db sample_scans)) 1 = Some (asset_scan 1)"
  using scans_survive_restart [OF sample_scans_run] sample_scans_eq(1) by simp

theorem block_marks_at_height_zero_witness:
  "\<exists>b. scan_get_box sample_scan_env (scan_process_block sample_scan_env 700 [] [[5]] [8] (add_box_to_scans sample_scan_env [5] [1] 600 0 [] sample_scans)) [5] = Some b
    \<and> sb_spending_height b = Some 0"
  using block_marks_at_height_zero [OF sample_read_back, of 700 "[]" "[[5]]" "[8]" "add_box_to_scans sample_scan_env [5] [1] 600 0 [] sample_scans" "[5]"]
  by (simp add: adding_again_forgets sample_read_back)

end
