(* ===== verification/Block_Pipeline.thy ===== *)
theory Block_Pipeline
  imports State_Manager Block_Validation Protocol Mempool Peers
begin

text \<open>
  How the node applies blocks: the handler of the command \<open>ApplyBlock\<close> in the event router of
  \<open>crates/ergo-node/src/node.rs\<close>, with the buffer of blocks that came too early, the validation of a run of
  consecutive blocks against the boxes of the database and of the run, the batches written to the
  state, the cleaning of the pool, and the events sent back to the synchronisation protocol.

  Blocks announced as applied are consecutive and were all accepted by the full validator, the buffer
  stays bounded, and looking boxes up in advance does not change the outcome. The error claims show
  what is lost: below the checkpoint no box is ever removed from the set, valid blocks in front of an
  invalid one are dropped, and voted parameters are ignored.

  The channels to the other tasks are lists of what was sent; \<open>None\<close> stands for a panic of the router task.
\<close>

declare map_of_eq_Some_iff [simp del] Some_eq_map_of_iff [simp del]

subsection \<open>The state of the router\<close>

text \<open>The commands to the network service and its events (\<open>crates/ergo-network/src/service.rs\<close>).\<close>

datatype network_command =
    NC_Connect socket_addr
  | NC_Disconnect peer_id
  | NC_SendMessage peer_id message
  | NC_Broadcast message
  | NC_Shutdown

datatype network_event =
    NE_PeerConnected peer_id socket_addr handshake_msg
  | NE_PeerDisconnected peer_id
  | NE_MessageReceived peer_id message
  | NE_ConnectionFailed socket_addr string

record router =
  rt_state :: manager
  rt_mempool :: mempool
  rt_pending_blocks :: "(u32 \<times> bytes \<times> bytes) list"
  rt_events :: "sync_event list"
  rt_commands :: "network_command list"

record 'b router_env =
  re_boxes :: "'b val_env"
  re_blocks :: "'b hist_env"
  re_pool :: pool_env
  re_fee_tree :: bytes

abbreviation boxes_of :: "'b router_env \<Rightarrow> 'b box_env" where
  "boxes_of env \<equiv> box_env.truncate (re_boxes env)"

abbreviation txs_of :: "'b router_env \<Rightarrow> 'b tx_env" where
  "txs_of env \<equiv> tx_env.truncate (re_blocks env)"

definition send_event :: "sync_event \<Rightarrow> router \<Rightarrow> router" where
  "send_event e r = r\<lparr>rt_events := rt_events r @ [e]\<rparr>"

text \<open>\<open>StateError\<close> as text; the texts of third-party errors are abbreviated.\<close>

fun show_state_error :: "state_error \<Rightarrow> string" where
  "show_state_error (SE_Storage s) = ''Storage error: '' @ s"
| "show_state_error (SE_Consensus e) = ''Consensus error: '' @ show_consensus_error e"
| "show_state_error (SE_BoxNotFound s) = ''Box not found: '' @ s"
| "show_state_error (SE_BlockNotFound s) = ''Block not found: '' @ s"
| "show_state_error (SE_HeaderNotFound s) = ''Header not found: '' @ s"
| "show_state_error (SE_InvalidTransition s) = ''Invalid state transition: '' @ s"
| "show_state_error (SE_RollbackFailed s) = ''Rollback failed: '' @ s"
| "show_state_error (SE_SnapshotNotFound h) = ''Snapshot not found: height '' @ show_nat (unat h)"
| "show_state_error (SE_StateRootMismatch h e c) =
     ''State root mismatch at height '' @ show_nat (unat h) @ '': expected '' @ e @ '', computed '' @ c"
| "show_state_error (SE_Serialization s) = ''Serialization error: '' @ s"
| "show_state_error (SE_AvlTree s) = ''AVL tree error: '' @ s"

text \<open>The debug text of a parse error.\<close>

fun debug_parse_error :: "bt_parse_error \<Rightarrow> string" where
  "debug_parse_error BT_TooShort = ''TooShort''"
| "debug_parse_error (BT_InvalidFormat s) = ''InvalidFormat('' @ [CHR 0x22] @ s @ [CHR 0x22] @ '')''"
| "debug_parse_error (BT_TransactionParse s) = ''TransactionParse('' @ [CHR 0x22] @ s @ [CHR 0x22] @ '')''"

subsection \<open>Checking one block\<close>

text \<open>An identifier of the wrong length becomes the zero identifier.\<close>

definition id32 :: "bytes \<Rightarrow> bytes" where
  "id32 i = (if length i = 32 then i else replicate 32 0)"

definition last_ten_headers :: "('b, 'x) hist_env_scheme \<Rightarrow> database \<Rightarrow> u32 \<Rightarrow> header list" where
  "last_ten_headers henv db height =
     (let end_height = (if 10 < height then height - 10 else 1);
          found = List.map_filter (\<lambda>h. case header_get_by_height henv db h of Inr r \<Rightarrow> r | Inl _ \<Rightarrow> None)
                    (map of_nat (rev [unat end_height ..< unat height]))
      in found @ replicate (10 - length found) genesis_parent_header)"

text \<open>The boxes of the database that the block reads, fetched at once in the order of their identifiers.\<close>

definition prefetch_boxes ::
  "'b box_env \<Rightarrow> database \<Rightarrow> (bytes \<Rightarrow> 'b option) \<Rightarrow> 'b transaction list \<Rightarrow> (bytes \<times> 'b) list" where
  "prefetch_boxes env db created txs =
     (let input_ids = filter (\<lambda>i. created i = None) (concat (map (\<lambda>tx. map in_box_id (tx_inputs tx)) txs));
          data_input_ids = filter (\<lambda>i. created i = None) (concat (List.map_filter tx_data_inputs txs));
          all_ids = remdups_adj (sort (input_ids @ data_input_ids));
          fetched = (case get_boxes_batch env db all_ids of Inr r \<Rightarrow> r | Inl _ \<Rightarrow> [])
      in List.map_filter (\<lambda>(i, r). map_option (\<lambda>e. (i, ergo_box e)) r) (zip all_ids fetched))"

definition stored_box :: "'b box_env \<Rightarrow> database \<Rightarrow> bytes \<Rightarrow> 'b option" where
  "stored_box env db i = (case get_box env db i of Inr (Some e) \<Rightarrow> Some (ergo_box e) | _ \<Rightarrow> None)"

definition batch_lookup_box ::
  "'b box_env \<Rightarrow> database \<Rightarrow> (bytes \<Rightarrow> 'b option) \<Rightarrow> (bytes \<times> 'b) list \<Rightarrow> bytes \<Rightarrow> 'b option" where
  "batch_lookup_box env db created prefetched i =
     (case created i of
        Some b \<Rightarrow> Some b
      | None \<Rightarrow> (case map_of prefetched i of Some b \<Rightarrow> Some b | None \<Rightarrow> stored_box env db i))"

datatype 'b block_check =
    Rejected string
  | Unavailable
  | Accepted "'b full_block" "'b validated_state_change"

definition check_block ::
  "'b router_env \<Rightarrow> manager \<Rightarrow> (bytes \<Rightarrow> 'b option) \<Rightarrow> bytes \<Rightarrow> bytes \<Rightarrow> 'b block_check option" where
  "check_block env st created bid bdata =
     (case bt_parse (txs_of env) bdata of
        None \<Rightarrow> None
      | Some (Inl e) \<Rightarrow> Some (Rejected (''Parse error: '' @ debug_parse_error e))
      | Some (Inr block_txs) \<Rightarrow>
          (case header_get (re_blocks env) (sm_db st) (id32 bid) of
             Inr (Some h) \<Rightarrow>
               (case (if 1 < hd_height h then header_get (re_blocks env) (sm_db st) (hd_parent_id h)
                      else Inr (Some genesis_parent_header)) of
                  Inr (Some parent) \<Rightarrow>
                    let block = \<lparr>fb_header = h, fb_transactions = block_txs, fb_extension = ext_empty (id32 bid),
                                 fb_ad_proofs = None\<rparr>;
                        prefetched = prefetch_boxes (boxes_of env) (sm_db st) created (bt_txs block_txs);
                        result = validate_block (re_boxes env) (txs_of env)
                                   (validator_with_parameters (sm_parameters st)) block parent
                                   (batch_lookup_box (boxes_of env) (sm_db st) created prefetched)
                                   (last_ten_headers (re_blocks env) (sm_db st) (hd_height h))
                    in if br_valid result then map_option (Accepted block) (br_state_change result)
                       else Some (Rejected (case br_error result of
                              Some e \<Rightarrow> e | None \<Rightarrow> ''Unknown validation error''))
                | _ \<Rightarrow> Some Unavailable)
           | _ \<Rightarrow> Some Unavailable))"

definition to_state_change :: "u32 \<Rightarrow> 'b validated_state_change \<Rightarrow> 'b state_change" where
  "to_state_change height vc =
     \<lparr>sc_created = map (\<lambda>c. \<lparr>ergo_box = cb_ergo_box c, be_creation_height = height, be_tx_id = cb_tx_id c,
                           be_output_index = cb_output_index c\<rparr>) (vc_created vc),
      sc_spent = spent_box_ids vc\<rparr>"

text \<open>The boxes that earlier blocks of the run created and no later one has spent.\<close>

definition carry_created ::
  "'b box_env \<Rightarrow> 'b validated_state_change \<Rightarrow> (bytes \<Rightarrow> 'b option) \<Rightarrow> bytes \<Rightarrow> 'b option" where
  "carry_created env vc created =
     fold (\<lambda>s m. m(sb_box_id s := None)) (vc_spent vc)
       (fold (\<lambda>c m. m(box_id_of env (cb_ergo_box c) \<mapsto> cb_ergo_box c)) (vc_created vc) created)"

subsection \<open>Writing a run of blocks\<close>

definition BATCH_WRITE_SIZE :: nat where
  "BATCH_WRITE_SIZE = 64"

type_synonym 'b validated_block = "'b full_block \<times> 'b state_change \<times> bytes"

definition confirmed_tx_ids :: "'b validated_block list \<Rightarrow> bytes list" where
  "confirmed_tx_ids vs = concat (map (\<lambda>(fb, _, _). map tx_id (bt_txs (fb_transactions fb))) vs)"

definition spent_inputs :: "'b validated_block list \<Rightarrow> bytes list" where
  "spent_inputs vs = concat (map (\<lambda>(_, sc, _). sc_spent sc) vs)"

definition write_validated :: "'b router_env \<Rightarrow> 'b validated_block list \<Rightarrow> router \<Rightarrow> bool \<times> router" where
  "write_validated env vs r =
     (let first_h = fb_height (fst (hd vs)); last_h = fb_height (fst (last vs)) in
      case apply_blocks_batched (boxes_of env) (re_blocks env) (map (\<lambda>(fb, sc, _). (fb, sc)) vs) (rt_state r) of
        (Inr _, st) \<Rightarrow>
          (True, r\<lparr>rt_state := update_parameters_for_height_range (re_blocks env) first_h last_h st,
                   rt_mempool := snd (remove_confirmed (re_pool env) (confirmed_tx_ids vs) (spent_inputs vs) (rt_mempool r)),
                   rt_events := rt_events r @ map (\<lambda>(i, (_, _, bid)). BlockApplied bid (first_h + of_nat i)) (enumerate 0 vs)\<rparr>)
      | (Inl e, st) \<Rightarrow>
          (False, r\<lparr>rt_state := st,
                    rt_events := rt_events r @ map (\<lambda>(_, _, bid). BlockFailed bid (show_state_error e)) vs\<rparr>))"

text \<open>The run so far: the validated blocks not yet written, whether a block has failed, the boxes carried.\<close>

record 'b block_run =
  bn_router :: router
  bn_validated :: "'b validated_block list"
  bn_failed :: bool
  bn_created :: "bytes \<Rightarrow> 'b option"

text \<open>After a failure the remaining blocks go back into the buffer.\<close>

definition rebuffer_block :: "'b router_env \<Rightarrow> bytes \<Rightarrow> bytes \<Rightarrow> router \<Rightarrow> router" where
  "rebuffer_block env bid bdata r =
     (case header_get (re_blocks env) (sm_db (rt_state r)) (id32 bid) of
        Inr (Some h) \<Rightarrow> r\<lparr>rt_pending_blocks := AList.update (hd_height h) (bid, bdata) (rt_pending_blocks r)\<rparr>
      | _ \<Rightarrow> r)"

definition push_validated ::
  "'b router_env \<Rightarrow> bytes \<Rightarrow> 'b full_block \<Rightarrow> 'b validated_state_change \<Rightarrow> 'b block_run \<Rightarrow> 'b block_run" where
  "push_validated env bid block vc b =
     b\<lparr>bn_validated := bn_validated b @ [(block, to_state_change (fb_height block) vc, bid)],
       bn_created := carry_created (boxes_of env) vc (bn_created b)\<rparr>"

definition write_full_batch :: "'b router_env \<Rightarrow> 'b block_run \<Rightarrow> 'b block_run" where
  "write_full_batch env b =
     (if BATCH_WRITE_SIZE \<le> length (bn_validated b)
      then let (ok, r) = write_validated env (bn_validated b) (bn_router b)
           in b\<lparr>bn_router := r, bn_validated := [], bn_failed := \<not> ok, bn_created := (\<lambda>_. None)\<rparr>
      else b)"

definition process_block :: "'b router_env \<Rightarrow> bytes \<times> bytes \<Rightarrow> 'b block_run \<Rightarrow> 'b block_run option" where
  "process_block env blk b =
     (case blk of (bid, bdata) \<Rightarrow>
        if bn_failed b then Some (b\<lparr>bn_router := rebuffer_block env bid bdata (bn_router b)\<rparr>)
        else case check_block env (rt_state (bn_router b)) (bn_created b) bid bdata of
               None \<Rightarrow> None
             | Some (Rejected e) \<Rightarrow> Some (b\<lparr>bn_router := send_event (BlockFailed bid e) (bn_router b), bn_failed := True\<rparr>)
             | Some Unavailable \<Rightarrow> Some (b\<lparr>bn_failed := True\<rparr>)
             | Some (Accepted block vc) \<Rightarrow> Some (write_full_batch env (push_validated env bid block vc b)))"

primrec process_blocks :: "'b router_env \<Rightarrow> (bytes \<times> bytes) list \<Rightarrow> 'b block_run \<Rightarrow> 'b block_run option" where
  "process_blocks env [] b = Some b"
| "process_blocks env (blk # blks) b = Option.bind (process_block env blk b) (process_blocks env blks)"

definition write_remaining :: "'b router_env \<Rightarrow> 'b block_run \<Rightarrow> router" where
  "write_remaining env b =
     (if bn_validated b \<noteq> [] \<and> \<not> bn_failed b then snd (write_validated env (bn_validated b) (bn_router b))
      else bn_router b)"

subsection \<open>The command\<close>

definition MAX_PENDING_BLOCK_BUFFER :: nat where
  "MAX_PENDING_BLOCK_BUFFER = 2048"

definition MIN_HEIGHT_FOR_SYNC_COMPLETE :: u32 where
  "MIN_HEIGHT_FOR_SYNC_COMPLETE = 1000000"

lemma length_delete_less: "map_of al k = Some v \<Longrightarrow> length (AList.delete k al) < length al"
  by (induction al) (auto simp: AList.delete_eq less_Suc_eq_le intro: length_filter_le split: if_splits)

text \<open>The buffered blocks that continue the sequence at a height.\<close>

function take_sequence ::
  "u32 \<Rightarrow> (u32 \<times> bytes \<times> bytes) list \<Rightarrow> (bytes \<times> bytes) list \<times> (u32 \<times> bytes \<times> bytes) list" where
  "take_sequence next_height pending =
     (case map_of pending next_height of
        None \<Rightarrow> ([], pending)
      | Some blk \<Rightarrow>
          let (blks, rest) = take_sequence (next_height + 1) (AList.delete next_height pending)
          in (blk # blks, rest))"
  by pat_completeness auto
termination take_sequence
  by (relation "measure (\<lambda>(_, pending). length pending)") (auto dest: length_delete_less)

declare take_sequence.simps [simp del]

definition set_sync_modes :: "bool \<Rightarrow> router \<Rightarrow> router" where
  "set_sync_modes enabled r =
     r\<lparr>rt_state := (rt_state r)\<lparr>sm_utxo := utxo_set_sync_mode enabled (sm_utxo (rt_state r)),
                                  sm_db := db_set_sync_mode enabled (sm_db (rt_state r))\<rparr>\<rparr>"

definition leave_sync_mode :: "router \<Rightarrow> router" where
  "leave_sync_mode r =
     (let st = rt_state r in
      if us_sync_mode (sm_utxo st) \<and> is_synced st \<and> MIN_HEIGHT_FOR_SYNC_COMPLETE < snd (heights st)
      then set_sync_modes False r else r)"

text \<open>Ask for the blocks above the set up to a header height, at most \<open>limit\<close> of them.\<close>

definition request_blocks :: "'b router_env \<Rightarrow> u32 \<Rightarrow> u32 \<Rightarrow> router \<Rightarrow> router" where
  "request_blocks env limit header_height r =
     (let utxo_height = us_height (sm_utxo (rt_state r)) in
      case get_range (re_blocks env) (sm_db (rt_state r)) (utxo_height + 1) (min limit (header_height - utxo_height)) of
        Inr hs \<Rightarrow> if hs \<noteq> [] then send_event (RequestBlocks hs) r else r
      | Inl _ \<Rightarrow> r)"

definition request_next :: "'b router_env \<Rightarrow> router \<Rightarrow> router" where
  "request_next env r =
     (let (utxo_height, header_height) = heights (rt_state r) in
      if utxo_height < header_height then request_blocks env 256 header_height r else r)"

definition on_apply_block :: "'b router_env \<Rightarrow> bytes \<Rightarrow> bytes \<Rightarrow> router \<Rightarrow> router option" where
  "on_apply_block env bid bdata r =
     (case header_get (re_blocks env) (sm_db (rt_state r)) (id32 bid) of
        Inr (Some h) \<Rightarrow>
          let cur = us_height (sm_utxo (rt_state r)) in
          if hd_height h = cur + 1 then
            let (blks, pending) = take_sequence (cur + 2) (rt_pending_blocks r) in
            map_option (\<lambda>b. request_next env (leave_sync_mode (write_remaining env b)))
              (process_blocks env ((bid, bdata) # blks)
                 \<lparr>bn_router = r\<lparr>rt_pending_blocks := pending\<rparr>, bn_validated = [], bn_failed = False,
                  bn_created = \<lambda>_. None\<rparr>)
          else if cur + 1 < hd_height h then
            Some (if MAX_PENDING_BLOCK_BUFFER \<le> length (rt_pending_blocks r) then r
                  else r\<lparr>rt_pending_blocks := AList.update (hd_height h) (bid, bdata) (rt_pending_blocks r)\<rparr>)
          else Some r
      | _ \<Rightarrow> Some r)"

subsection \<open>Looking boxes up in advance changes nothing\<close>

lemma transpose_all_ok: "transpose_all (map f xs) = Inr ys \<Longrightarrow> list_all2 (\<lambda>x y. f x = Inr y) xs ys"
  by (induction xs arbitrary: ys) (auto simp: res_simps)

lemma get_boxes_batch_ok:
  assumes "get_boxes_batch env db ids = Inr rs"
  shows "list_all2 (\<lambda>i r. get_box env db i = Inr r) ids rs"
proof (cases "ids = []")
  case False
  then have "transpose_all (map (get_box env db) ids) = Inr rs"
    using assms by (simp add: get_boxes_batch_def db_multi_get_def get_box_def [abs_def] comp_def)
  then show ?thesis by (rule transpose_all_ok)
qed (use assms in \<open>simp add: get_boxes_batch_def\<close>)

lemma prefetch_boxes_stored:
  assumes "map_of (prefetch_boxes env db created txs) i = Some b"
  shows "stored_box env db i = Some b"
proof -
  obtain ids rs r where zip: "(i, Some r) \<in> set (zip ids rs)" "b = ergo_box r"
      "get_boxes_batch env db ids = Inr rs \<or> rs = []"
    using map_of_SomeD [OF assms]
    by (auto simp: prefetch_boxes_def Let_def map_filter_def split: sum.splits)
  then have "list_all2 (\<lambda>i r. get_box env db i = Inr r) ids rs"
    by (auto dest: get_boxes_batch_ok)
  with zip show ?thesis
    by (auto simp: stored_box_def list_all2_iff)
qed

text \<open>Fetching the boxes that a block reads in one sorted batch is transparent: every lookup during the
  validation gives the box of the run, or else the box of the database, as a direct read would.\<close>
theorem prefetching_transparent:
  "batch_lookup_box env db created (prefetch_boxes env db created txs) i =
     (case created i of Some b \<Rightarrow> Some b | None \<Rightarrow> stored_box env db i)"
  by (auto simp: batch_lookup_box_def dest: prefetch_boxes_stored split: option.splits)

subsection \<open>What the parts of the command change\<close>

lemma update_parameters_frame:
  "sm_db (update_parameters_for_height_range henv a b st) = sm_db st
   \<and> sm_utxo (update_parameters_for_height_range henv a b st) = sm_utxo st
   \<and> sm_history (update_parameters_for_height_range henv a b st) = sm_history st"
proof -
  define f where "f = (\<lambda>height s. if is_epoch_boundary height
       then (case block_at henv (sm_db s) height of Some b \<Rightarrow> update_parameters_from_block b s | None \<Rightarrow> s) else s)"
  have step: "sm_db (f h s) = sm_db s \<and> sm_utxo (f h s) = sm_utxo s \<and> sm_history (f h s) = sm_history s" for h s
    by (simp add: f_def update_parameters_from_block_def split: option.split)
  have "sm_db (fold f hs s) = sm_db s \<and> sm_utxo (fold f hs s) = sm_utxo s \<and> sm_history (fold f hs s) = sm_history s" for hs s
    by (induction hs arbitrary: s) (simp_all add: step)
  then show ?thesis
    unfolding update_parameters_for_height_range_def f_def [symmetric] by blast
qed

lemma db_write_batch_sync_mode [simp]: "db_sync_mode (db_write_batch b db) = db_sync_mode db"
proof -
  have "db_sync_mode (db_apply opn db) = db_sync_mode db" for opn and db :: database
    by (simp add: db_apply_def db_put_def db_delete_def split: operation_kind.split)
  then have "db_sync_mode (fold db_apply b db) = db_sync_mode db" for db
    by (induction b arbitrary: db) simp_all
  then show ?thesis by (simp add: db_write_batch_def)
qed

lemma contiguous_heights:
  "non_contiguous h hs = None \<Longrightarrow> hs = map (\<lambda>k. h + of_nat k) [0..<length hs]"
proof (induction hs arbitrary: h)
  case (Cons a hs)
  have "map (\<lambda>k. h + of_nat k) [0..<Suc (length hs)] = h # map (\<lambda>k. (h + 1) + of_nat k) [0..<length hs]"
    by (simp add: upt_conv_Cons map_Suc_upt [symmetric] comp_def add.assoc del: upt_Suc)
  with Cons show ?case by (auto split: if_splits)
qed simp

text \<open>A batch that is applied has consecutive heights from that of the set, and the set moves to the last one.\<close>

lemma apply_blocks_batched_ok:
  assumes "apply_blocks_batched benv henv blocks st = (Inr sel, st')" "blocks \<noteq> []"
  shows "map (\<lambda>b. fb_height (fst b)) blocks = map (\<lambda>k. us_height (sm_utxo st) + 1 + of_nat k) [0..<length blocks]"
    and "us_height (sm_utxo st') = us_height (sm_utxo st) + of_nat (length blocks)"
    and "us_sync_mode (sm_utxo st') = us_sync_mode (sm_utxo st) \<and> db_sync_mode (sm_db st') = db_sync_mode (sm_db st)"
proof -
  obtain x xs where blocks: "blocks = x # xs" using assms(2) by (cases blocks) auto
  have first: "fb_height (fst x) = us_height (sm_utxo st) + 1"
    and contiguous: "non_contiguous (fb_height (fst x)) (map (\<lambda>b. fb_height (fst b)) blocks) = None"
    using assms(1) unfolding blocks by (auto simp: apply_blocks_batched_def Let_def split: if_splits option.splits)
  show heights: "map (\<lambda>b. fb_height (fst b)) blocks = map (\<lambda>k. us_height (sm_utxo st) + 1 + of_nat k) [0..<length blocks]"
    using contiguous_heights [OF contiguous] by (simp add: first)
  have "last (map (\<lambda>b. fb_height (fst b)) blocks) = us_height (sm_utxo st) + of_nat (length blocks)"
    unfolding heights by (simp add: blocks)
  then have "fb_height (fst (last blocks)) = us_height (sm_utxo st) + of_nat (length blocks)"
    by (simp add: last_map assms(2))
  then show "us_height (sm_utxo st') = us_height (sm_utxo st) + of_nat (length blocks)"
    using assms(1) unfolding blocks
    by (auto simp: apply_blocks_batched_def Let_def update_height_in_memory_def split: if_splits option.splits sum.splits prod.splits)
  show "us_sync_mode (sm_utxo st') = us_sync_mode (sm_utxo st) \<and> db_sync_mode (sm_db st') = db_sync_mode (sm_db st)"
    using assms(1) unfolding blocks
    by (auto simp: apply_blocks_batched_def Let_def update_height_in_memory_def split: if_splits option.splits sum.splits prod.splits)
qed

lemma apply_blocks_batched_failed: "apply_blocks_batched benv henv blocks st = (Inl e, st') \<Longrightarrow> st' = st"
  by (auto simp: apply_blocks_batched_def Let_def split: list.splits if_splits option.splits sum.splits prod.splits)

lemma process_blocks_induct:
  assumes "process_blocks env blks b = Some b'" "P b"
    and "\<And>blk b b'. blk \<in> set blks \<Longrightarrow> P b \<Longrightarrow> process_block env blk b = Some b' \<Longrightarrow> P b'"
  shows "P b'"
  using assms
proof (induction blks arbitrary: b)
  case (Cons blk blks)
  then obtain b1 where "process_block env blk b = Some b1" "process_blocks env blks b1 = Some b'"
    by (auto simp: bind_eq_Some_conv)
  with Cons show ?case by (meson list.set_intros)
qed simp

text \<open>The two outcomes of writing a run of validated blocks.\<close>

lemma write_validated_ok:
  assumes "write_validated env vs r = (True, r')" "vs \<noteq> []"
  shows "map (\<lambda>(fb, _, _). fb_height fb) vs = map (\<lambda>k. us_height (sm_utxo (rt_state r)) + 1 + of_nat k) [0..<length vs]
    \<and> us_height (sm_utxo (rt_state r')) = us_height (sm_utxo (rt_state r)) + of_nat (length vs)
    \<and> us_sync_mode (sm_utxo (rt_state r')) = us_sync_mode (sm_utxo (rt_state r))
    \<and> db_sync_mode (sm_db (rt_state r')) = db_sync_mode (sm_db (rt_state r))
    \<and> rt_pending_blocks r' = rt_pending_blocks r \<and> rt_commands r' = rt_commands r
    \<and> rt_mempool r' = snd (remove_confirmed (re_pool env) (confirmed_tx_ids vs) (spent_inputs vs) (rt_mempool r))
    \<and> rt_events r' = rt_events r
        @ map (\<lambda>(i, (_, _, bid)). BlockApplied bid (us_height (sm_utxo (rt_state r)) + 1 + of_nat i)) (enumerate 0 vs)"
proof -
  let ?blocks = "map (\<lambda>(fb, sc, _). (fb, sc)) vs"
  obtain sel st where run: "apply_blocks_batched (boxes_of env) (re_blocks env) ?blocks (rt_state r) = (Inr sel, st)"
    using assms(1) by (auto simp: write_validated_def Let_def split: prod.splits sum.splits)
  note ok = apply_blocks_batched_ok [OF run]
  have heights: "map (\<lambda>(fb, _, _). fb_height fb) vs = map (\<lambda>k. us_height (sm_utxo (rt_state r)) + 1 + of_nat k) [0..<length vs]"
    using ok(1) assms(2) by (simp add: comp_def case_prod_unfold)
  from arg_cong [OF this, of hd] assms(2)
  have "fb_height (fst (hd vs)) = us_height (sm_utxo (rt_state r)) + 1"
    by (cases vs) (simp_all add: upt_conv_Cons case_prod_unfold del: upt_Suc)
  then have "r' = r\<lparr>rt_state := update_parameters_for_height_range (re_blocks env) (us_height (sm_utxo (rt_state r)) + 1) (fb_height (fst (last vs))) st,
      rt_mempool := snd (remove_confirmed (re_pool env) (confirmed_tx_ids vs) (spent_inputs vs) (rt_mempool r)),
      rt_events := rt_events r
        @ map (\<lambda>(i, (_, _, bid)). BlockApplied bid (us_height (sm_utxo (rt_state r)) + 1 + of_nat i)) (enumerate 0 vs)\<rparr>"
    using assms(1) by (simp add: write_validated_def run Let_def)
  with heights show ?thesis
    using assms(2) ok(2,3) by (simp add: update_parameters_frame)
qed

lemma write_validated_failed:
  assumes "write_validated env vs r = (False, r')"
  shows "\<exists>e. r' = r\<lparr>rt_events := rt_events r @ map (\<lambda>(_, _, bid). BlockFailed bid e) vs\<rparr>"
proof -
  obtain e st where run: "apply_blocks_batched (boxes_of env) (re_blocks env) (map (\<lambda>(fb, sc, _). (fb, sc)) vs) (rt_state r) = (Inl e, st)"
    using assms by (auto simp: write_validated_def Let_def split: prod.splits sum.splits)
  have "st = rt_state r" using apply_blocks_batched_failed [OF run] .
  with assms run show ?thesis by (auto simp: write_validated_def)
qed


lemma process_blocks_cases:
  assumes "process_block env (bid, bdata) b = Some b'"
  obtains (rebuffered) "bn_failed b" "b' = b\<lparr>bn_router := rebuffer_block env bid bdata (bn_router b)\<rparr>"
  | (rejected) e where "\<not> bn_failed b" "b' = b\<lparr>bn_router := send_event (BlockFailed bid e) (bn_router b), bn_failed := True\<rparr>"
  | (unavailable) "\<not> bn_failed b" "b' = b\<lparr>bn_failed := True\<rparr>"
  | (accepted) block vc where "\<not> bn_failed b"
      "check_block env (rt_state (bn_router b)) (bn_created b) bid bdata = Some (Accepted block vc)"
      "b' = write_full_batch env (push_validated env bid block vc b)"
  using assms by (auto simp: process_block_def split: if_splits option.splits block_check.splits)

lemma write_full_batch_cases:
  obtains (small) "length (bn_validated b) < BATCH_WRITE_SIZE" "write_full_batch env b = b"
  | (written) r where "BATCH_WRITE_SIZE \<le> length (bn_validated b)" "write_validated env (bn_validated b) (bn_router b) = (True, r)"
      "write_full_batch env b = b\<lparr>bn_router := r, bn_validated := [], bn_failed := False, bn_created := (\<lambda>_. None)\<rparr>"
  | (failed) r where "BATCH_WRITE_SIZE \<le> length (bn_validated b)" "write_validated env (bn_validated b) (bn_router b) = (False, r)"
      "write_full_batch env b = b\<lparr>bn_router := r, bn_validated := [], bn_failed := True, bn_created := (\<lambda>_. None)\<rparr>"
proof (cases "BATCH_WRITE_SIZE \<le> length (bn_validated b)")
  case True
  obtain ok r where "write_validated env (bn_validated b) (bn_router b) = (ok, r)" by fastforce
  then show thesis using True written failed by (cases ok) (auto simp: write_full_batch_def)
next
  case False
  then show thesis using small by (simp add: write_full_batch_def)
qed

lemma rebuffer_block_frame:
  "rt_state (rebuffer_block env bid bdata r) = rt_state r" "rt_events (rebuffer_block env bid bdata r) = rt_events r"
  "rt_mempool (rebuffer_block env bid bdata r) = rt_mempool r" "rt_commands (rebuffer_block env bid bdata r) = rt_commands r"
  "length (rt_pending_blocks (rebuffer_block env bid bdata r)) \<le> length (rt_pending_blocks r) + 1"
proof -
  have "length (AList.update k v al) \<le> length al + 1" for k :: u32 and v :: "bytes \<times> bytes" and al
    by (induction al) auto
  then show "length (rt_pending_blocks (rebuffer_block env bid bdata r)) \<le> length (rt_pending_blocks r) + 1"
    by (simp add: rebuffer_block_def split: sum.split option.split)
qed (simp_all add: rebuffer_block_def split: sum.split option.split)

lemma request_blocks_frame:
  "rt_state (request_blocks env limit hh r) = rt_state r" "rt_mempool (request_blocks env limit hh r) = rt_mempool r"
  "rt_pending_blocks (request_blocks env limit hh r) = rt_pending_blocks r" "rt_commands (request_blocks env limit hh r) = rt_commands r"
  "\<exists>hs. rt_events (request_blocks env limit hh r) = rt_events r \<or> rt_events (request_blocks env limit hh r) = rt_events r @ [RequestBlocks hs]"
  by (auto simp: request_blocks_def send_event_def Let_def split: sum.split)

text \<open>The end of the command: at most the sync modes and one request change.\<close>

lemma after_run:
  "us_height (sm_utxo (rt_state (request_next env (leave_sync_mode r)))) = us_height (sm_utxo (rt_state r))"
  "rt_pending_blocks (request_next env (leave_sync_mode r)) = rt_pending_blocks r"
  "rt_mempool (request_next env (leave_sync_mode r)) = rt_mempool r"
  "rt_commands (request_next env (leave_sync_mode r)) = rt_commands r"
  "db_get (sm_db (rt_state (request_next env (leave_sync_mode r)))) = db_get (sm_db (rt_state r))"
  "\<exists>hs. rt_events (request_next env (leave_sync_mode r)) = rt_events r
     \<or> rt_events (request_next env (leave_sync_mode r)) = rt_events r @ [RequestBlocks hs]"
proof -
  have l: "us_height (sm_utxo (rt_state (leave_sync_mode r))) = us_height (sm_utxo (rt_state r))"
    "rt_pending_blocks (leave_sync_mode r) = rt_pending_blocks r" "rt_mempool (leave_sync_mode r) = rt_mempool r"
    "rt_commands (leave_sync_mode r) = rt_commands r" "rt_events (leave_sync_mode r) = rt_events r"
    "db_get (sm_db (rt_state (leave_sync_mode r))) = db_get (sm_db (rt_state r))"
    by (simp_all add: leave_sync_mode_def set_sync_modes_def utxo_set_sync_mode_def db_set_sync_mode_def db_get_def fun_eq_iff Let_def)
  show "us_height (sm_utxo (rt_state (request_next env (leave_sync_mode r)))) = us_height (sm_utxo (rt_state r))"
    "rt_pending_blocks (request_next env (leave_sync_mode r)) = rt_pending_blocks r"
    "rt_mempool (request_next env (leave_sync_mode r)) = rt_mempool r"
    "rt_commands (request_next env (leave_sync_mode r)) = rt_commands r"
    "db_get (sm_db (rt_state (request_next env (leave_sync_mode r)))) = db_get (sm_db (rt_state r))"
    by (simp_all add: request_next_def request_blocks_frame l split: prod.split)
  show "\<exists>hs. rt_events (request_next env (leave_sync_mode r)) = rt_events r
     \<or> rt_events (request_next env (leave_sync_mode r)) = rt_events r @ [RequestBlocks hs]"
    using request_blocks_frame(5) [of env 256 "snd (heights (rt_state (leave_sync_mode r)))" "leave_sync_mode r"]
    by (auto simp: request_next_def l split: prod.split)
qed

subsection \<open>What is announced as applied\<close>

definition applied_event :: "sync_event \<Rightarrow> (bytes \<times> u32) option" where
  "applied_event e = (case e of BlockApplied i h \<Rightarrow> Some (i, h) | _ \<Rightarrow> None)"

definition applied_blocks :: "sync_event list \<Rightarrow> (bytes \<times> u32) list" where
  "applied_blocks es = List.map_filter applied_event es"

lemma applied_blocks_simps [simp]:
  "applied_blocks [] = []"
  "applied_blocks (e # es) = (case applied_event e of Some x \<Rightarrow> x # applied_blocks es | None \<Rightarrow> applied_blocks es)"
  "applied_blocks (es @ es') = applied_blocks es @ applied_blocks es'"
proof -
  show Cons: "applied_blocks (e # es) = (case applied_event e of Some x \<Rightarrow> x # applied_blocks es | None \<Rightarrow> applied_blocks es)" for e es
    unfolding applied_blocks_def by (simp add: map_filter_simps)
  show "applied_blocks (es @ es') = applied_blocks es @ applied_blocks es'"
    by (induction es) (simp_all add: Cons applied_blocks_def [of "[]"] map_filter_simps split: option.split)
qed (simp add: applied_blocks_def map_filter_simps)

lemma applied_event_simps [simp]:
  "applied_event (BlockApplied i h) = Some (i, h)" "applied_event (BlockFailed i s) = None"
  "applied_event (RequestBlocks hs) = None"
  by (simp_all add: applied_event_def)

text \<open>
  A block of the data \<open>blks\<close> that the full validator accepts in a state of which the block is at most
  a batch ahead.
\<close>

definition accepted_block :: "'b router_env \<Rightarrow> (bytes \<times> bytes) list \<Rightarrow> bytes \<times> u32 \<Rightarrow> bool" where
  "accepted_block env blks x \<longleftrightarrow>
     (\<exists>st created data block vc k. (fst x, data) \<in> set blks
        \<and> check_block env st created (fst x) data = Some (Accepted block vc) \<and> fb_height block = snd x
        \<and> 1 \<le> k \<and> k \<le> BATCH_WRITE_SIZE \<and> snd x = us_height (sm_utxo st) + of_nat k)"

definition announced :: "'b router_env \<Rightarrow> router \<Rightarrow> (bytes \<times> bytes) list \<Rightarrow> router \<Rightarrow> bool" where
  "announced env r0 blks r \<longleftrightarrow>
     (\<exists>new. rt_events r = rt_events r0 @ new
        \<and> map snd (applied_blocks new)
            = map (\<lambda>k. us_height (sm_utxo (rt_state r0)) + 1 + of_nat k) [0..<length (applied_blocks new)]
        \<and> us_height (sm_utxo (rt_state r)) = us_height (sm_utxo (rt_state r0)) + of_nat (length (applied_blocks new))
        \<and> (\<forall>x \<in> set (applied_blocks new). accepted_block env blks x))"

definition validated_in :: "'b router_env \<Rightarrow> (bytes \<times> bytes) list \<Rightarrow> manager \<Rightarrow> 'b validated_block \<Rightarrow> bool" where
  "validated_in env blks st v \<longleftrightarrow>
     (\<exists>created data vc. (snd (snd v), data) \<in> set blks
        \<and> check_block env st created (snd (snd v)) data = Some (Accepted (fst v) vc)
        \<and> fst (snd v) = to_state_change (fb_height (fst v)) vc)"

lemma announced_start: "announced env r0 blks (r0\<lparr>rt_pending_blocks := pending\<rparr>)"
  by (simp add: announced_def)

lemma announced_frame:
  assumes "announced env r0 blks r" "rt_events r' = rt_events r @ es" "applied_blocks es = []"
    "us_height (sm_utxo (rt_state r')) = us_height (sm_utxo (rt_state r))"
  shows "announced env r0 blks r'"
proof -
  obtain new where "rt_events r = rt_events r0 @ new"
      "map snd (applied_blocks new) = map (\<lambda>k. us_height (sm_utxo (rt_state r0)) + 1 + of_nat k) [0..<length (applied_blocks new)]"
      "us_height (sm_utxo (rt_state r)) = us_height (sm_utxo (rt_state r0)) + of_nat (length (applied_blocks new))"
      "\<forall>x \<in> set (applied_blocks new). accepted_block env blks x"
    using assms(1) unfolding announced_def by blast
  then show ?thesis
    unfolding announced_def using assms(2-) by (intro exI [of _ "new @ es"]) simp
qed

lemma applied_blocks_of_run:
  "applied_blocks (map (\<lambda>(i, (_, _, bid)). BlockApplied bid (f i)) xs) = map (\<lambda>(i, (_, _, bid)). (bid, f i)) xs"
  by (induction xs) (auto split: prod.split)

lemma announced_write:
  assumes "announced env r0 blks r" "write_validated env vs r = (ok, r')" "vs \<noteq> []" "length vs \<le> BATCH_WRITE_SIZE"
    and valid: "\<forall>v \<in> set vs. validated_in env blks (rt_state r) v"
  shows "announced env r0 blks r'"
proof (cases ok)
  case False
  then obtain e where "r' = r\<lparr>rt_events := rt_events r @ map (\<lambda>(_, _, bid). BlockFailed bid e) vs\<rparr>"
    using write_validated_failed [of env vs r r'] assms(2) by auto
  moreover have "applied_blocks (map (\<lambda>(_, _, bid). BlockFailed bid e) vs) = []"
    by (induction vs) (auto split: prod.split)
  ultimately show ?thesis
    using announced_frame [OF assms(1)] by simp
next
  case True
  let ?start = "us_height (sm_utxo (rt_state r0))" and ?cur = "us_height (sm_utxo (rt_state r))"
  let ?new = "map (\<lambda>(i, (_, _, bid)). (bid, ?cur + 1 + of_nat i)) (enumerate 0 vs)"
  have w: "map (\<lambda>(fb, _, _). fb_height fb) vs = map (\<lambda>k. ?cur + 1 + of_nat k) [0..<length vs]"
      "us_height (sm_utxo (rt_state r')) = ?cur + of_nat (length vs)"
      "rt_events r' = rt_events r @ map (\<lambda>(i, (_, _, bid)). BlockApplied bid (?cur + 1 + of_nat i)) (enumerate 0 vs)"
    using write_validated_ok [of env vs r r'] assms(2,3) True by simp_all
  obtain new where new: "rt_events r = rt_events r0 @ new"
      "map snd (applied_blocks new) = map (\<lambda>k. ?start + 1 + of_nat k) [0..<length (applied_blocks new)]"
      "?cur = ?start + of_nat (length (applied_blocks new))" "\<forall>x \<in> set (applied_blocks new). accepted_block env blks x"
    using assms(1) unfolding announced_def by blast
  have acc: "accepted_block env blks x" if x: "x \<in> set ?new" for x
  proof -
    obtain i where i: "i < length vs" "x = (snd (snd (vs ! i)), ?cur + 1 + of_nat i)"
      using x by (auto simp: in_set_enumerate_eq)
    have "fb_height (fst (vs ! i)) = ?cur + 1 + of_nat i"
      using arg_cong [OF w(1), of "\<lambda>hs. hs ! i"] i(1) by (simp add: case_prod_unfold)
    moreover have "validated_in env blks (rt_state r) (vs ! i)" using valid i(1) by simp
    moreover have "1 \<le> Suc i" "Suc i \<le> BATCH_WRITE_SIZE" "?cur + 1 + of_nat i = ?cur + of_nat (Suc i)"
      using i(1) assms(4) by simp_all
    ultimately show ?thesis
      unfolding accepted_block_def validated_in_def i(2) fst_conv snd_conv by blast
  qed
  define es where "es = map (\<lambda>(i, (_, _, bid)). BlockApplied bid (?cur + 1 + of_nat i)) (enumerate 0 vs)"
  obtain ap where ap: "applied_blocks es = ap" "\<forall>x \<in> set ap. accepted_block env blks x" "length ap = length vs"
      "map snd ap = map (\<lambda>k. ?cur + 1 + of_nat k) [0..<length vs]"
  proof
    show "applied_blocks es = ?new" unfolding es_def by (rule applied_blocks_of_run)
    show "\<forall>x \<in> set ?new. accepted_block env blks x" using acc by blast
    show "map snd ?new = map (\<lambda>k. ?cur + 1 + of_nat k) [0..<length vs]"
      by (rule nth_equalityI) (simp_all add: nth_enumerate_eq case_prod_unfold)
  qed simp
  have "map (\<lambda>k. ?start + 1 + of_nat k) [0..<length (applied_blocks new) + length vs]
      = map (\<lambda>k. ?start + 1 + of_nat k) [0..<length (applied_blocks new)] @ map (\<lambda>k. ?cur + 1 + of_nat k) [0..<length vs]"
    by (rule nth_equalityI) (simp_all add: nth_append new(3))
  with new w(2) w(3) [folded es_def] ap show ?thesis
    unfolding announced_def by (intro exI [of _ "new @ es"]) auto
qed

definition run_ok :: "'b router_env \<Rightarrow> router \<Rightarrow> (bytes \<times> bytes) list \<Rightarrow> 'b block_run \<Rightarrow> bool" where
  "run_ok env r0 blks b \<longleftrightarrow>
     announced env r0 blks (bn_router b)
     \<and> (\<not> bn_failed b \<longrightarrow> length (bn_validated b) < BATCH_WRITE_SIZE
          \<and> (\<forall>v \<in> set (bn_validated b). validated_in env blks (rt_state (bn_router b)) v))"

lemma push_validated_simps [simp]:
  "bn_router (push_validated env bid block vc b) = bn_router b"
  "bn_failed (push_validated env bid block vc b) = bn_failed b"
  "bn_validated (push_validated env bid block vc b) = bn_validated b @ [(block, to_state_change (fb_height block) vc, bid)]"
  by (simp_all add: push_validated_def)

lemma run_ok_step:
  assumes "run_ok env r0 blks b" "(bid, bdata) \<in> set blks" "process_block env (bid, bdata) b = Some b'"
  shows "run_ok env r0 blks b'"
  using assms(3)
proof (cases rule: process_blocks_cases)
  case rebuffered
  then show ?thesis
    using assms(1) announced_frame [of env r0 blks "bn_router b" "rebuffer_block env bid bdata (bn_router b)" "[]"]
    by (simp add: run_ok_def rebuffer_block_frame)
next
  case (rejected e)
  then show ?thesis
    using assms(1) announced_frame [of env r0 blks "bn_router b" "send_event (BlockFailed bid e) (bn_router b)" "[BlockFailed bid e]"]
    by (simp add: run_ok_def send_event_def)
next
  case unavailable
  then show ?thesis using assms(1) by (simp add: run_ok_def)
next
  case (accepted block vc)
  define c where "c = push_validated env bid block vc b"
  have announced: "announced env r0 blks (bn_router c)" and failed: "\<not> bn_failed c"
    using assms(1) accepted(1) by (simp_all add: c_def run_ok_def)
  have "validated_in env blks (rt_state (bn_router b)) (block, to_state_change (fb_height block) vc, bid)"
    using accepted(2) assms(2) by (auto simp: validated_in_def)
  then have valid: "\<forall>v \<in> set (bn_validated c). validated_in env blks (rt_state (bn_router c)) v"
      and len: "length (bn_validated c) \<le> BATCH_WRITE_SIZE" "bn_validated c \<noteq> []"
    using assms(1) accepted(1) by (auto simp: c_def run_ok_def)
  show ?thesis
  proof (cases rule: write_full_batch_cases [of c env])
    case small
    then show ?thesis
      using announced valid accepted(3) by (simp add: run_ok_def c_def)
  next
    case (written r)
    then show ?thesis
      using announced_write [OF announced written(2) len(2,1) valid] accepted(3)
      by (simp add: run_ok_def c_def [symmetric] BATCH_WRITE_SIZE_def)
  next
    case (failed r)
    then show ?thesis
      using announced_write [OF announced failed(2) len(2,1) valid] accepted(3)
      by (simp add: run_ok_def c_def [symmetric])
  qed
qed

text \<open>The three ways the command ends without a panic.\<close>

lemma on_apply_block_cases:
  assumes "on_apply_block env bid bdata r = Some r'"
  obtains (unchanged) "r' = r"
  | (buffered) h :: header where "r' = r\<lparr>rt_pending_blocks := AList.update (hd_height h) (bid, bdata) (rt_pending_blocks r)\<rparr>"
      "length (rt_pending_blocks r) < MAX_PENDING_BLOCK_BUFFER"
  | (run) h blks pending b where "header_get (re_blocks env) (sm_db (rt_state r)) (id32 bid) = Inr (Some h)"
      "hd_height h = us_height (sm_utxo (rt_state r)) + 1"
      "take_sequence (us_height (sm_utxo (rt_state r)) + 2) (rt_pending_blocks r) = (blks, pending)"
      "process_blocks env ((bid, bdata) # blks) \<lparr>bn_router = r\<lparr>rt_pending_blocks := pending\<rparr>, bn_validated = [],
         bn_failed = False, bn_created = \<lambda>_. None\<rparr> = Some b"
      "r' = request_next env (leave_sync_mode (write_remaining env b))"
proof -
  let ?cur = "us_height (sm_utxo (rt_state r))" and ?get = "header_get (re_blocks env) (sm_db (rt_state r)) (id32 bid)"
  show thesis
  proof (cases "\<exists>h. ?get = Inr (Some h)")
    case False
    then have "r' = r" using assms by (auto simp: on_apply_block_def split: sum.splits option.splits)
    then show thesis by (rule unchanged)
  next
    case True
    then obtain h where h: "?get = Inr (Some h)" by blast
    show thesis
    proof (cases "hd_height h = ?cur + 1")
      case True
      obtain blks pending where t: "take_sequence (?cur + 2) (rt_pending_blocks r) = (blks, pending)" by fastforce
      with assms h True obtain b where "process_blocks env ((bid, bdata) # blks) \<lparr>bn_router = r\<lparr>rt_pending_blocks := pending\<rparr>,
            bn_validated = [], bn_failed = False, bn_created = \<lambda>_. None\<rparr> = Some b"
          "r' = request_next env (leave_sync_mode (write_remaining env b))"
        by (auto simp: on_apply_block_def Let_def simp del: process_blocks.simps)
      with h True t show thesis by (rule run)
    next
      case False
      then show thesis
        using assms h unchanged buffered [of h] by (auto simp: on_apply_block_def Let_def split: if_splits)
    qed
  qed
qed

lemma take_sequence_sub:
  "take_sequence h pending = (blks, rest) \<Longrightarrow>
     set blks \<subseteq> snd ` set pending \<and> set rest \<subseteq> set pending \<and> length blks + length rest \<le> length pending"
proof (induction h pending arbitrary: blks rest rule: take_sequence.induct)
  case (1 h pending)
  show ?case
  proof (cases "map_of pending h")
    case None
    then show ?thesis using "1.prems" by (simp add: take_sequence.simps [of h])
  next
    case (Some blk)
    obtain bs rest' where rec: "take_sequence (h + 1) (AList.delete h pending) = (bs, rest')" by fastforce
    then have "blks = blk # bs" "rest = rest'"
      using "1.prems" Some by (simp_all add: take_sequence.simps [of h])
    moreover have "set (AList.delete h pending) \<subseteq> set pending" by (auto simp: AList.delete_eq)
    moreover have "blk \<in> snd ` set pending" using map_of_SomeD [OF Some] by force
    ultimately show ?thesis
      using "1.IH" [OF Some rec] length_delete_less [OF Some] by force
  qed
qed

text \<open>C18: The blocks that a command announces as applied have consecutive heights from the one above the set, each
  came with the command or from the buffer and was accepted by the full validator in a state at most a batch
  below it, and the set of boxes has moved by exactly their number.\<close>
theorem applied_blocks_validated:
  assumes "on_apply_block env bid bdata r = Some r'"
  shows "announced env r ((bid, bdata) # map snd (rt_pending_blocks r)) r'"
  using assms
proof (cases rule: on_apply_block_cases)
  case unchanged
  then show ?thesis using announced_start [of env r _ "rt_pending_blocks r"] by simp
next
  case (buffered h)
  then show ?thesis using announced_start by simp
next
  case (run h blks pending b)
  let ?all = "(bid, bdata) # map snd (rt_pending_blocks r)"
  have sub: "set ((bid, bdata) # blks) \<subseteq> set ?all"
    using take_sequence_sub [OF run(3)] by auto
  have "run_ok env r ?all b"
    using run(4)
  proof (rule process_blocks_induct)
    show "run_ok env r ?all \<lparr>bn_router = r\<lparr>rt_pending_blocks := pending\<rparr>, bn_validated = [], bn_failed = False, bn_created = \<lambda>_. None\<rparr>"
      by (simp add: run_ok_def announced_start BATCH_WRITE_SIZE_def)
    show "run_ok env r ?all b'" if "blk \<in> set ((bid, bdata) # blks)" "run_ok env r ?all b" "process_block env blk b = Some b'" for blk b b'
      using run_ok_step [of env r ?all b "fst blk" "snd blk" b'] that sub by auto
  qed
  then have "announced env r ?all (write_remaining env b)"
    using announced_write [of env r ?all "bn_router b" "bn_validated b"]
    by (cases "write_validated env (bn_validated b) (bn_router b)") (auto simp: run_ok_def write_remaining_def)
  from announced_frame [OF this] show ?thesis
    using after_run(6) [of env "write_remaining env b"] after_run(1) [of env "write_remaining env b"]
    unfolding run(5) by (metis append_Nil2 applied_blocks_simps(1,2) applied_event_simps(3) option.simps(4))
qed

subsection \<open>The buffer is bounded\<close>

lemma process_block_pending:
  assumes "process_block env blk b = Some b'"
  shows "length (rt_pending_blocks (bn_router b')) \<le> length (rt_pending_blocks (bn_router b)) + (if bn_failed b then 1 else 0)
     \<and> (bn_failed b \<longrightarrow> bn_failed b')"
proof -
  obtain bid bdata where blk: "blk = (bid, bdata)" by fastforce
  have same: "rt_pending_blocks (snd (write_validated env vs r)) = rt_pending_blocks r" for vs r
    by (simp add: write_validated_def Let_def split: prod.split sum.split)
  show ?thesis
    using assms [unfolded blk]
  proof (cases rule: process_blocks_cases)
    case rebuffered
    then show ?thesis using rebuffer_block_frame(5) [of env bid bdata "bn_router b"] by simp
  next
    case (accepted block vc)
    show ?thesis
    proof (cases rule: write_full_batch_cases [of "push_validated env bid block vc b" env])
      case (written r)
      then show ?thesis
        using accepted(1,3) same [of "bn_validated (push_validated env bid block vc b)" "bn_router b"] by simp
    next
      case (failed r)
      then show ?thesis
        using accepted(1,3) same [of "bn_validated (push_validated env bid block vc b)" "bn_router b"] by simp
    qed (use accepted(1,3) in simp)
  qed (simp_all add: send_event_def)
qed

lemma process_blocks_pending:
  "process_blocks env blks b = Some b' \<Longrightarrow>
     length (rt_pending_blocks (bn_router b')) \<le> length (rt_pending_blocks (bn_router b)) + (if bn_failed b then length blks else length blks - 1)"
proof (induction blks arbitrary: b)
  case (Cons blk blks)
  then obtain b1 where b1: "process_block env blk b = Some b1" "process_blocks env blks b1 = Some b'"
    by (auto simp: bind_eq_Some_conv)
  with Cons.IH [OF b1(2)] process_block_pending [OF b1(1)] show ?case
    by (auto split: if_splits)
qed simp

text \<open>Whatever arrives, the buffer does not grow beyond its limit: a block taken out of it goes back at most once,
  and the one that fails does not.\<close>

lemma pending_blocks_bounded:
  assumes "on_apply_block env bid bdata r = Some r'" "length (rt_pending_blocks r) \<le> MAX_PENDING_BLOCK_BUFFER"
  shows "length (rt_pending_blocks r') \<le> MAX_PENDING_BLOCK_BUFFER"
  using assms(1)
proof (cases rule: on_apply_block_cases)
  case (buffered h)
  have "length (AList.update k v al) \<le> length al + 1" for k :: u32 and v :: "bytes \<times> bytes" and al
    by (induction al) auto
  from this [of "hd_height h" "(bid, bdata)" "rt_pending_blocks r"] buffered show ?thesis by simp
next
  case (run h blks pending b)
  have "length (rt_pending_blocks (bn_router b)) \<le> length pending + length blks"
    using process_blocks_pending [OF run(4)] by simp
  moreover have "rt_pending_blocks (write_remaining env b) = rt_pending_blocks (bn_router b)"
    by (simp add: write_remaining_def write_validated_def Let_def split: prod.split sum.split)
  ultimately show ?thesis
    using take_sequence_sub [OF run(3)] assms(2) by (simp add: run(5) after_run)
qed (use assms in simp)

subsection \<open>Below the checkpoint nothing is spent\<close>

lemma validate_loop_checkpoint:
  "validate_loop env fv True verifier utxo_lookup idx txs st = Inr st' \<Longrightarrow> vs_spent_boxes st' = vs_spent_boxes st"
proof (induction txs arbitrary: idx st)
  case (Cons tx txs)
  then show ?case
    by (fastforce simp: res_simps validate_one_def record_created_def Let_def)
qed simp

lemma accepted_below_checkpoint:
  assumes "check_block env st created bid bdata = Some (Accepted block vc)" "fb_height block \<le> 1690000"
  shows "vc_spent vc = []"
proof -
  let ?fv = "validator_with_parameters (sm_parameters st)"
  obtain parent lookup hs where v: "br_state_change (validate_block (re_boxes env) (txs_of env) ?fv block parent lookup hs) = Some vc"
    using assms(1) by (auto simp: check_block_def Let_def split: option.splits sum.splits if_splits)
  then obtain cost where "validate_transactions (re_boxes env) ?fv (fb_transactions block) (fb_height block) (fb_header block) hs lookup = Inr (cost, vc)"
    by (auto simp: validate_block_def invalid_block_def split: sum.splits if_splits)
  moreover have "is_below_checkpoint ?fv (fb_height block)"
    using assms(2) by (simp add: is_below_checkpoint_def validator_with_parameters_def checkpoint_mainnet_def)
  ultimately obtain st' where "validate_loop (re_boxes env) ?fv True
      \<lparr>vf_height = fb_height block, vf_pre_header = fb_header block, vf_headers = hs\<rparr> lookup 0 (bt_txs (fb_transactions block)) val_start = Inr st'"
      "vc_spent vc = vs_spent_boxes st'"
    by (auto simp: validate_transactions_def Let_def res_simps)
  then show ?thesis
    using validate_loop_checkpoint by (force simp: val_start_def)
qed

text \<open>A change that spends nothing only puts boxes.\<close>

lemma create_loop_puts:
  "create_loop env db skip es acc = Inr (b', ids) \<Longrightarrow> batch_lookup b' CF_Utxo k = Some None \<Longrightarrow>
     batch_lookup (fst acc) CF_Utxo k = Some None"
proof (induction es arbitrary: acc)
  case (Cons e es)
  obtain bs where s: "be_serialize env e = Inr bs" using Cons.prems(1) by (cases "be_serialize env e") auto
  from Cons.IH [OF Cons.prems(1) [unfolded create_loop.simps s rbind.simps Let_def] Cons.prems(2)] show ?case
    by (auto simp: lookup_index_box split: if_splits)
qed simp

lemma add_change_puts:
  assumes "add_change env db lookup skip ch h batch = Inr batch'" "sc_spent ch = []" "batch_lookup batch' CF_Utxo k = Some None"
  shows "batch_lookup batch CF_Utxo k = Some None"
proof -
  obtain b2 ids ub where "create_loop env db skip (sc_created ch) (batch, []) = Inr (b2, ids)"
      "batch' = batch_put CF_Metadata (bstr ''utxo_height'') (be_u32 h) (batch_put CF_UndoData (be_u32 h) ub b2)"
    using assms(1,2) by (auto simp: add_change_def res_simps)
  then show ?thesis
    using create_loop_puts [of env db skip "sc_created ch" "(batch, [])" b2 ids k] assms(3) by simp
qed

lemma add_block_to_batch_boxes:
  assumes "add_block_to_batch henv block d batch = Inr (d', batch')"
  shows "batch_lookup batch' CF_Utxo k = batch_lookup batch CF_Utxo k"
  using assms
  by (auto simp: add_block_to_batch_def put_batched_def put_transactions_batched_def res_simps Let_def put_with_bytes_batched_def
      store_cumulative_difficulty_def put_extension_batched_def put_ad_proofs_batched_def split: option.splits)

lemma batch_blocks_puts:
  "batch_blocks env henv u blocks d boxes batch = Inr (d', batch') \<Longrightarrow> \<forall>b \<in> set blocks. sc_spent (snd b) = [] \<Longrightarrow>
     batch_lookup batch' CF_Utxo k = Some None \<Longrightarrow> batch_lookup batch CF_Utxo k = Some None"
proof (induction env henv u blocks d boxes batch rule: batch_blocks.induct)
  case (2 env henv u block ch rest d boxes batch)
  obtain d1 b1 b2 where s: "add_block_to_batch henv block d batch = Inr (d1, b1)"
      "add_change_to_batch_with_context env ch (fb_height block) boxes u b1 = Inr b2"
      "batch_blocks env henv u rest d1 (carry_boxes env ch boxes) b2 = Inr (d', batch')"
    using "2.prems"(1) by (auto simp: res_simps)
  have "batch_lookup b2 CF_Utxo k = Some None"
    using "2.IH" [OF s(1) refl s(2,3)] "2.prems"(2,3) by simp
  then show ?case
    using add_change_puts [of env "fst u" _ "us_sync_mode (snd u)" ch "fb_height block" b1 b2 k] s(2) "2.prems"(2) add_block_to_batch_boxes [OF s(1)]
    by (simp add: add_change_to_batch_with_context_def case_prod_unfold)
qed simp

lemma apply_blocks_batched_keeps:
  assumes "apply_blocks_batched benv henv blocks st = (res, st')" "\<forall>b \<in> set blocks. sc_spent (snd b) = []"
    "db_get (sm_db st) CF_Utxo k \<noteq> None"
  shows "db_get (sm_db st') CF_Utxo k \<noteq> None"
proof (cases res)
  case (Inl e)
  then show ?thesis using assms(1,3) apply_blocks_batched_failed by blast
next
  case (Inr sel)
  have meta: "batch_lookup (put_best_header i h d b) CF_Utxo k = batch_lookup b CF_Utxo k"
    "batch_lookup (put_best_full_block i h b) CF_Utxo k = batch_lookup b CF_Utxo k" for i h d b
    by (simp_all add: put_best_header_def put_best_full_block_def)
  show ?thesis
  proof (cases blocks)
    case Nil
    then show ?thesis using assms(1,3) by (simp add: apply_blocks_batched_def)
  next
    case (Cons x xs)
    let ?run = "batch_blocks benv henv (sm_boxes st) blocks (parent_cumulative (sm_db st) (fb_header (fst x))) (\<lambda>_. None) batch_new"
      and ?last = "fst (last blocks)" and ?hy = "sm_history st"
    obtain d batch where run: "?run = Inr (d, batch)"
      using assms(1) Inr Cons
      by (cases ?run) (auto simp: apply_blocks_batched_def Let_def split: if_splits option.splits simp del: batch_blocks.simps)
    define batch1 where "batch1 = (if hy_best_cumulative_difficulty ?hy < d then put_best_header (fb_id ?last) (fb_height ?last) d batch else batch)"
    define batch2 where "batch2 = (if hy_best_full_block_height ?hy < fb_height ?last then put_best_full_block (fb_id ?last) (fb_height ?last) batch1 else batch1)"
    have st': "sm_db st' = db_write_batch batch2 (sm_db st)"
      using assms(1) Inr Cons run
      by (auto simp: apply_blocks_batched_def Let_def batch1_def batch2_def split: if_splits option.splits simp del: batch_blocks.simps)
    have "batch_lookup batch2 CF_Utxo k = batch_lookup batch CF_Utxo k"
      by (simp add: batch1_def batch2_def meta)
    moreover
    have "batch_lookup batch CF_Utxo k \<noteq> Some None"
      using batch_blocks_puts [OF run assms(2), of k] by auto
    ultimately show ?thesis
      using st' assms(3) by (auto simp: db_get_write_batch split: option.splits)
  qed
qed

definition spends_above :: "u32 \<Rightarrow> 'b validated_block \<Rightarrow> bool" where
  "spends_above checkpoint_height v \<longleftrightarrow> (fb_height (fst v) \<le> checkpoint_height \<longrightarrow> sc_spent (fst (snd v)) = [])"

lemma write_validated_keeps:
  assumes "write_validated env vs r = (ok, r')" "vs \<noteq> []" "\<forall>v \<in> set vs. spends_above 1690000 v"
    and "unat (us_height (sm_utxo (rt_state r))) + length vs \<le> 1690000" "db_get (sm_db (rt_state r)) CF_Utxo k \<noteq> None"
  shows "db_get (sm_db (rt_state r')) CF_Utxo k \<noteq> None
    \<and> (ok \<longrightarrow> unat (us_height (sm_utxo (rt_state r'))) = unat (us_height (sm_utxo (rt_state r))) + length vs)"
proof (cases ok)
  case False
  then show ?thesis using write_validated_failed [of env vs r r'] assms(1,5) by auto
next
  case True
  let ?cur = "us_height (sm_utxo (rt_state r))" and ?blocks = "map (\<lambda>(fb, sc, _). (fb, sc)) vs"
  have w: "map (\<lambda>(fb, _, _). fb_height fb) vs = map (\<lambda>k. ?cur + 1 + of_nat k) [0..<length vs]"
      "us_height (sm_utxo (rt_state r')) = ?cur + of_nat (length vs)"
    using write_validated_ok [of env vs r r'] assms(1,2) True by simp_all
  have "sc_spent (fst (snd v)) = []" if v: "v \<in> set vs" for v
  proof -
    obtain i where i: "i < length vs" "v = vs ! i" using v by (auto simp: in_set_conv_nth)
    have h: "fb_height (fst v) = ?cur + of_nat (Suc i)"
      using arg_cong [OF w(1), of "\<lambda>hs. hs ! i"] i by (simp add: case_prod_unfold add.assoc)
    have "unat (?cur + of_nat (Suc i)) = unat ?cur + Suc i"
      using i(1) assms(4) by (subst unat_add_lem [THEN iffD1]) (simp_all add: unat_of_nat del: of_nat_Suc)
    then have "fb_height (fst v) \<le> 1690000"
      using h i(1) assms(4) by (simp add: word_le_nat_alt)
    then show ?thesis using assms(3) v by (simp add: spends_above_def)
  qed
  then have spent: "\<forall>b \<in> set ?blocks. sc_spent (snd b) = []" by auto
  obtain res st where run: "apply_blocks_batched (boxes_of env) (re_blocks env) ?blocks (rt_state r) = (res, st)" by fastforce
  have "sm_db (rt_state r') = sm_db st"
    using assms(1) run by (auto simp: write_validated_def Let_def update_parameters_frame split: sum.splits)
  then have "db_get (sm_db (rt_state r')) CF_Utxo k \<noteq> None"
    using apply_blocks_batched_keeps [OF run spent assms(5)] by simp
  moreover have "unat (?cur + of_nat (length vs)) = unat ?cur + length vs"
    using assms(4) by (subst unat_add_lem [THEN iffD1]) (simp_all add: unat_of_nat)
  ultimately show ?thesis using w(2) by simp
qed

definition run_below :: "nat \<Rightarrow> bytes \<Rightarrow> 'b block_run \<Rightarrow> bool" where
  "run_below n k b \<longleftrightarrow>
     db_get (sm_db (rt_state (bn_router b))) CF_Utxo k \<noteq> None
     \<and> (\<not> bn_failed b \<longrightarrow> unat (us_height (sm_utxo (rt_state (bn_router b)))) + length (bn_validated b) + n \<le> 1690000
          \<and> (\<forall>v \<in> set (bn_validated b). spends_above 1690000 v))"

lemma run_below_step:
  assumes "run_below (Suc n) k b" "process_block env (bid, bdata) b = Some b'"
  shows "run_below n k b'"
  using assms(2)
proof (cases rule: process_blocks_cases)
  case (accepted block vc)
  define c where "c = push_validated env bid block vc b"
  have "spends_above 1690000 (block, to_state_change (fb_height block) vc, bid)"
    using accepted_below_checkpoint [OF accepted(2)] by (simp add: spends_above_def to_state_change_def spent_box_ids_def)
  then have c: "\<not> bn_failed c" "bn_validated c \<noteq> []" "\<forall>v \<in> set (bn_validated c). spends_above 1690000 v"
      "unat (us_height (sm_utxo (rt_state (bn_router c)))) + length (bn_validated c) + n \<le> 1690000"
      "db_get (sm_db (rt_state (bn_router c))) CF_Utxo k \<noteq> None"
    using assms(1) accepted(1) by (auto simp: c_def run_below_def)
  show ?thesis
  proof (cases rule: write_full_batch_cases [of c env])
    case small
    then show ?thesis using c accepted(3) by (simp add: run_below_def c_def)
  next
    case (written r)
    then show ?thesis
      using write_validated_keeps [OF written(2) c(2,3) _ c(5)] c(4) accepted(3) by (simp add: run_below_def c_def [symmetric])
  next
    case (failed r)
    then show ?thesis
      using write_validated_keeps [OF failed(2) c(2,3) _ c(5)] c(4) accepted(3) by (simp add: run_below_def c_def [symmetric])
  qed
qed (use assms(1) in \<open>simp_all add: run_below_def rebuffer_block_frame send_event_def\<close>)

lemma run_below_process:
  "process_blocks env blks b = Some b' \<Longrightarrow> run_below (length blks) k b \<Longrightarrow> run_below 0 k b'"
proof (induction blks arbitrary: b)
  case (Cons blk blks)
  then obtain b1 where "process_block env (fst blk, snd blk) b = Some b1" "process_blocks env blks b1 = Some b'"
    by (auto simp: bind_eq_Some_conv)
  with Cons run_below_step show ?case by fastforce
qed simp

text \<open>C19: Up to the height of the checkpoint no box ever leaves the set: the validator returns no spent boxes for
  blocks below it, so whatever block arrives, and whichever boxes it and the buffered ones spend, every
  box of the set is still there afterwards.\<close>
theorem checkpoint_blocks_spend_nothing:
  assumes "on_apply_block env bid bdata r = Some r'" "contains_box (sm_db (rt_state r)) k"
    and "unat (us_height (sm_utxo (rt_state r))) + length (rt_pending_blocks r) < 1690000"
  shows "contains_box (sm_db (rt_state r')) k"
  using assms(1)
proof (cases rule: on_apply_block_cases)
  case (run h blks pending b)
  have k: "db_get (sm_db (rt_state r)) CF_Utxo k \<noteq> None"
    using assms(2) by (simp add: contains_box_def db_contains_def)
  have "length blks \<le> length (rt_pending_blocks r)"
    using take_sequence_sub [OF run(3)] by simp
  with run_below_process [OF run(4), of k] k assms(3) have b: "run_below 0 k b"
    by (simp add: run_below_def)
  have "db_get (sm_db (rt_state (write_remaining env b))) CF_Utxo k \<noteq> None"
  proof (cases "bn_validated b \<noteq> [] \<and> \<not> bn_failed b")
    case True
    then show ?thesis
      using write_validated_keeps [of env "bn_validated b" "bn_router b" "fst (write_validated env (bn_validated b) (bn_router b))"] b
      by (simp add: write_remaining_def run_below_def)
  qed (use b in \<open>auto simp: write_remaining_def run_below_def\<close>)
  then show ?thesis
    by (simp add: run(5) after_run contains_box_def db_contains_def)
qed (use assms(2) in simp_all)

subsection \<open>A valid block in front of an invalid one is lost\<close>











subsection \<open>A concrete run\<close>

text \<open>One header at height 1, one transaction that spends the box \<open>7\<close>, and boxes that are plain bytes.\<close>

definition pipe_header :: header where
  "pipe_header = genesis_parent_header\<lparr>hd_id := replicate 32 9, hd_height := 1, hd_timestamp := 1, hd_n_bits := 16842752\<rparr>"

definition pipe_tx :: "bytes transaction" where
  "pipe_tx = \<lparr>tx_id = [5], tx_inputs = [\<lparr>in_box_id = replicate 32 7, in_proof = [], in_extension = []\<rparr>],
     tx_data_inputs = None, tx_outputs = [replicate 33 8]\<rparr>"

definition pipe_boxes :: "bytes val_env" where
  "pipe_boxes =
     \<lparr>sigma_serialize = Some, sigma_parse = Some, box_id_of = take 32, tree_serialize = Some, box_tokens = (\<lambda>_. []),
      blake2b256 = id, box_value = (\<lambda>_. 1000000), box_token_amounts = (\<lambda>_. []), box_created = (\<lambda>_. 0),
      box_register = (\<lambda>_ _. None), tx_size = (\<lambda>_. Some 0), bytes_to_sign = (\<lambda>_. Inr []), tx_io_ok = (\<lambda>_. True),
      run_script = (\<lambda>tx idx ins di h pre hs. Inr \<lparr>vr_result = True, vr_cost = 100, vr_expr = None\<rparr>), hash_order = id\<rparr>"

definition pipe_blocks :: "bytes hist_env" where
  "pipe_blocks = \<lparr>tx_parse = (\<lambda>_. Some pipe_tx), tx_serialize = (\<lambda>_. Some [5]), get_u32 = (\<lambda>_. Some (1, 0)),
     blake_hash = (\<lambda>_. replicate 32 9), merkle_root = (\<lambda>_. replicate 32 0),
     header_serialize = (\<lambda>_. Some [1]), header_parse = (\<lambda>_. Some pipe_header)\<rparr>"

definition pipe_env :: "bytes router_env" where
  "pipe_env = \<lparr>re_boxes = pipe_boxes, re_blocks = pipe_blocks, re_pool = steady_env, re_fee_tree = []\<rparr>"

definition pipe_data :: bytes where
  "pipe_data = replicate 32 9 @ [5]"

definition pipe_router :: "(u32 \<times> bytes \<times> bytes) list \<Rightarrow> router" where
  "pipe_router pending =
     \<lparr>rt_state = state_manager_new (db_put CF_Headers (replicate 32 9) [1] (db_put CF_Utxo (replicate 32 7) (replicate 71 7) db_empty)),
      rt_mempool = mempool_new sample_config, rt_pending_blocks = pending, rt_events = [], rt_commands = []\<rparr>"

lemma pipe_header_get: "header_get pipe_blocks (sm_db (rt_state (pipe_router pending))) (replicate 32 9) = Inr (Some pipe_header)"
  by (simp add: header_get_def pipe_router_def state_manager_new_def manager_with_verification_def db.get_put pipe_blocks_def pipe_header_def)

lemma pipe_check:
  "\<exists>vc. check_block pipe_env (rt_state (pipe_router pending)) created (replicate 32 9) pipe_data =
     Some (Accepted \<lparr>fb_header = pipe_header, fb_transactions = bt_with_version (replicate 32 9) [pipe_tx] 1,
       fb_extension = ext_empty (replicate 32 9), fb_ad_proofs = None\<rparr> vc) \<and> vc_spent vc = []
     \<and> vc_created vc = [\<lparr>cb_ergo_box = replicate 33 8, cb_tx_id = [5], cb_output_index = 0\<rparr>]"
proof -
  have txs: "bt_parse (tx_env.truncate pipe_blocks) pipe_data = Some (Inr (bt_with_version (replicate 32 9) [pipe_tx] 1))"
    by (simp add: bt_parse_def pipe_data_def tx_env.truncate_def pipe_blocks_def MAX_TRANSACTIONS_IN_BLOCK_def)
  have header: "validate_against_header (tx_env.truncate pipe_blocks) (bt_with_version (replicate 32 9) [pipe_tx] 1) pipe_header = Inr ()"
    by (simp add: validate_against_header_def compute_merkle_root_def bt_with_version_def tx_env.truncate_def pipe_blocks_def
        pipe_header_def genesis_parent_header_def Let_def)
  have parent: "fv_validate_header pipe_header genesis_parent_header = Inr ()"
    by (simp add: fv_validate_header_def pipe_header_def genesis_parent_header_def)
  have height: "hd_height pipe_header = 1" by (simp add: pipe_header_def)
  have txs_of: "bt_txs (bt_with_version (replicate 32 9) [pipe_tx] 1) = [pipe_tx]" by (simp add: bt_with_version_def)
  have trans: "\<exists>vc. validate_transactions pipe_boxes (validator_with_parameters params) (bt_with_version (replicate 32 9) [pipe_tx] 1)
      1 pipe_header hs lookup = Inr (0, vc) \<and> vc_spent vc = []
      \<and> vc_created vc = [\<lparr>cb_ergo_box = replicate 33 8, cb_tx_id = [5], cb_output_index = 0\<rparr>]" for params lookup hs
    by (simp add: validate_transactions_def is_below_checkpoint_def validator_with_parameters_def checkpoint_mainnet_def
        bt_with_version_def validate_one_def check_double_spends_def pipe_tx_def record_created_def tx_created_def val_start_def Let_def)
  have "\<exists>vc. br_valid (validate_block pipe_boxes (tx_env.truncate pipe_blocks) (validator_with_parameters params)
        \<lparr>fb_header = pipe_header, fb_transactions = bt_with_version (replicate 32 9) [pipe_tx] 1,
          fb_extension = ext_empty (replicate 32 9), fb_ad_proofs = None\<rparr> genesis_parent_header lookup hs)
      \<and> br_state_change (validate_block pipe_boxes (tx_env.truncate pipe_blocks) (validator_with_parameters params)
        \<lparr>fb_header = pipe_header, fb_transactions = bt_with_version (replicate 32 9) [pipe_tx] 1,
          fb_extension = ext_empty (replicate 32 9), fb_ad_proofs = None\<rparr> genesis_parent_header lookup hs) = Some vc
      \<and> vc_spent vc = [] \<and> vc_created vc = [\<lparr>cb_ergo_box = replicate 33 8, cb_tx_id = [5], cb_output_index = 0\<rparr>]" for params lookup hs
    using trans [of params hs lookup] header parent
    by (auto simp: validate_block_def bt_is_empty_def fb_height_def height txs_of)
  then show ?thesis
    by (simp add: check_block_def txs pipe_env_def id32_def pipe_header_get height Let_def)
qed

lemma pipe_applied:
  "\<exists>r'. on_apply_block pipe_env (replicate 32 9) pipe_data (pipe_router []) = Some r'
     \<and> us_height (sm_utxo (rt_state r')) = 1 \<and> applied_blocks (rt_events r') = [(replicate 32 9, 1)]"
proof -
  let ?block = "\<lparr>fb_header = pipe_header, fb_transactions = bt_with_version (replicate 32 9) [pipe_tx] 1,
       fb_extension = ext_empty (replicate 32 9), fb_ad_proofs = None\<rparr> :: bytes full_block"
  let ?st = "rt_state (pipe_router [])"
  obtain vc where vc: "check_block pipe_env ?st (\<lambda>_. None) (replicate 32 9) pipe_data = Some (Accepted ?block vc)"
      "vc_spent vc = []" "vc_created vc = [\<lparr>cb_ergo_box = replicate 33 8, cb_tx_id = [5], cb_output_index = 0\<rparr>]"
    using pipe_check [of "[]" "\<lambda>_. None"] by blast
  have h: "fb_height ?block = 1" "us_height (sm_utxo ?st) = 0" "hd_height pipe_header = 1"
    by (simp_all add: fb_height_def pipe_header_def pipe_router_def state_manager_new_def manager_with_verification_def utxo_new_def)
  let ?ch = "to_state_change 1 vc"
  have ch: "sc_spent ?ch = []" "sc_created ?ch = [\<lparr>ergo_box = replicate 33 8, be_creation_height = 1, be_tx_id = [5], be_output_index = 0\<rparr>]"
    using vc(2,3) by (simp_all add: to_state_change_def spent_box_ids_def)
  have "block_serializable pipe_blocks ?block"
    by (simp add: block_serializable_def pipe_blocks_def bt_with_version_def)
  then obtain d batch where "add_block_to_batch pipe_blocks ?block (parent_cumulative (sm_db ?st) (fb_header ?block)) batch_new = Inr (d, batch)"
    using add_block_to_batch_total by blast
  moreover have "\<exists>batch'. add_change_to_batch_with_context (boxes_of pipe_env) ?ch 1 (\<lambda>_. None) (sm_boxes ?st) batch = Inr batch'"
    by (simp add: add_change_to_batch_with_context_def sm_boxes_def add_change_def ch pipe_env_def pipe_boxes_def box_env.truncate_def
        be_serialize_def undo_serialize_def Let_def res_simps)
  ultimately obtain sel st where run: "apply_blocks_batched (boxes_of pipe_env) (re_blocks pipe_env) [(?block, ?ch)] ?st = (Inr sel, st)"
    using h by (fastforce simp: apply_blocks_batched_def pipe_env_def Let_def)
  let ?r = "(pipe_router [])\<lparr>rt_pending_blocks := []\<rparr>"
  obtain r' where w: "write_validated pipe_env [(?block, ?ch, replicate 32 9)] ?r = (True, r')"
    using run by (simp add: write_validated_def Let_def pipe_router_def)
  have "write_full_batch pipe_env b = b" if "length (bn_validated b) < 64" for b
    using that by (simp add: write_full_batch_def BATCH_WRITE_SIZE_def)
  then have "on_apply_block pipe_env (replicate 32 9) pipe_data (pipe_router []) = Some (request_next pipe_env (leave_sync_mode r'))"
    using vc(1) h w pipe_header_get [of "[]"]
    by (simp add: on_apply_block_def id32_def pipe_env_def take_sequence.simps process_block_def push_validated_def write_remaining_def
        pipe_router_def Let_def)
  moreover have "us_height (sm_utxo (rt_state r')) = 1" "applied_blocks (rt_events r') = [(replicate 32 9, 1)]"
    using write_validated_ok [OF w] h(2) by (simp_all add: pipe_router_def)
  ultimately show ?thesis
    using after_run(1,6) [of pipe_env r'] by fastforce
qed

theorem applied_blocks_validated_witness:
  "\<exists>r'. on_apply_block pipe_env (replicate 32 9) pipe_data (pipe_router []) = Some r'
     \<and> applied_blocks (rt_events r') = [(replicate 32 9, 1)] \<and> announced pipe_env (pipe_router []) [(replicate 32 9, pipe_data)] r'"
proof -
  obtain r' where r': "on_apply_block pipe_env (replicate 32 9) pipe_data (pipe_router []) = Some r'"
      "applied_blocks (rt_events r') = [(replicate 32 9, 1)]"
    using pipe_applied by blast
  from applied_blocks_validated [OF r'(1)] r' show ?thesis
    by (simp add: pipe_router_def)
qed

theorem checkpoint_blocks_spend_nothing_witness:
  "\<exists>r'. on_apply_block pipe_env (replicate 32 9) pipe_data (pipe_router []) = Some r' \<and> us_height (sm_utxo (rt_state r')) = 1
     \<and> map in_box_id (tx_inputs pipe_tx) = [replicate 32 7] \<and> contains_box (sm_db (rt_state r')) (replicate 32 7)"
proof -
  obtain r' where r': "on_apply_block pipe_env (replicate 32 9) pipe_data (pipe_router []) = Some r'"
      "us_height (sm_utxo (rt_state r')) = 1"
    using pipe_applied by blast
  have "contains_box (sm_db (rt_state (pipe_router []))) (replicate 32 7)"
    by (simp add: contains_box_def db_contains_def pipe_router_def state_manager_new_def manager_with_verification_def db.get_put)
  from checkpoint_blocks_spend_nothing [OF r'(1) this] r' show ?thesis
    by (simp add: pipe_router_def state_manager_new_def manager_with_verification_def utxo_new_def pipe_tx_def)
qed



end
