(* ===== verification/Router.thy ===== *)
theory Router
  imports Block_Pipeline
begin

text \<open>
  The event router of \<open>crates/ergo-node/src/node.rs\<close>: the task between the network service and the
  synchronisation protocol. It forwards messages, answers \<open>GetPeers\<close>, keeps the addresses for
  reconnection, stores headers and extensions, applies blocks (\<open>Block_Pipeline\<close>) and pools transactions.

  In all its runs the maps of the router agree, its buffer is bounded, the pool is consistent and the
  two switches of the sync mode are equal. The error claims: a transaction without valid proofs enters
  the pool under any identifier and keeps the genuine one out, and the limit on connection attempts does
  not hold.

  Readings of the clock, the room in the bounded channel and the orders of hash containers are fields
  of \<open>event_env\<close>, one value per handled event.
\<close>

declare map_of_eq_Some_iff [simp del] Some_eq_map_of_iff [simp del]

subsection \<open>Reconnection\<close>

record reconnect_info =
  rc_addr :: socket_addr
  rc_attempts :: u32
  rc_last_attempt :: nat
  rc_next_attempt :: nat

definition MAX_RECONNECT_ATTEMPTS :: u32 where
  "MAX_RECONNECT_ATTEMPTS = 10"

definition reconnect_new :: "(nat \<Rightarrow> nat) \<Rightarrow> socket_addr \<Rightarrow> reconnect_info" where
  "reconnect_new clk addr = \<lparr>rc_addr = addr, rc_attempts = 0, rc_last_attempt = clk 0, rc_next_attempt = clk 1\<rparr>"

definition backoff_duration :: "reconnect_info \<Rightarrow> nat" where
  "backoff_duration i =
     min (min (2 ^ 64 - 1) (5 * 2 ^ unat (min (rc_attempts i) 6))) 300 * 10 ^ 9"

definition mark_failed :: "(nat \<Rightarrow> nat) \<Rightarrow> reconnect_info \<Rightarrow> reconnect_info" where
  "mark_failed clk i =
     (let i1 = i\<lparr>rc_attempts := rc_attempts i + 1, rc_last_attempt := clk 0\<rparr>
      in i1\<lparr>rc_next_attempt := clk 1 + backoff_duration i1\<rparr>)"

definition can_attempt :: "nat \<Rightarrow> reconnect_info \<Rightarrow> bool" where
  "can_attempt now i = (rc_next_attempt i \<le> now)"

definition reconnect_reset :: "reconnect_info \<Rightarrow> reconnect_info" where
  "reconnect_reset i = i\<lparr>rc_attempts := 0\<rparr>"

subsection \<open>The state of the task\<close>

record event_router =
  er_router :: router
  er_peer_addresses :: "(peer_id \<times> socket_addr) list"
  er_peer_handshakes :: "(peer_id \<times> handshake_msg) list"
  er_reconnect_queue :: "(socket_addr \<times> reconnect_info) list"
  er_discovered_peers :: "socket_addr list"

record event_env =
  ev_now :: "nat \<Rightarrow> nat"
  ev_wall_ms :: u64
  ev_room :: "nat \<Rightarrow> bool"
  ev_peer_iter :: "(peer_id \<times> socket_addr) list \<Rightarrow> (peer_id \<times> socket_addr) list"
  ev_queue_iter :: "(socket_addr \<times> reconnect_info) list \<Rightarrow> (socket_addr \<times> reconnect_info) list"
  ev_addr_iter :: "socket_addr list \<Rightarrow> socket_addr list"

definition min_connections :: nat where
  "min_connections = 3"

definition max_router_connections :: nat where
  "max_router_connections = 25"

definition on_router :: "(router \<Rightarrow> router) \<Rightarrow> event_router \<Rightarrow> event_router" where
  "on_router f r = r\<lparr>er_router := f (er_router r)\<rparr>"

definition send_network :: "network_command \<Rightarrow> event_router \<Rightarrow> event_router" where
  "send_network c = on_router (\<lambda>r. r\<lparr>rt_commands := rt_commands r @ [c]\<rparr>)"

text \<open>\<open>try_send\<close> drops the event when the channel is full; \<open>send\<close> waits for room.\<close>

definition try_send :: "event_env \<Rightarrow> sync_event \<Rightarrow> event_router \<Rightarrow> bool \<times> event_router" where
  "try_send ev e r =
     (if ev_room ev (length (rt_events (er_router r))) then (True, on_router (send_event e) r) else (False, r))"

subsection \<open>Messages of peers\<close>

primrec send_modifiers :: "event_env \<Rightarrow> peer_id \<Rightarrow> u8 \<Rightarrow> modifier_item list \<Rightarrow> event_router \<Rightarrow> event_router" where
  "send_modifiers ev peer type_id [] r = r"
| "send_modifiers ev peer type_id (m # ms) r =
     (let (ok, r1) = try_send ev (ModifierReceived peer type_id (mi_id m) (mi_data m)) r
      in if ok then send_modifiers ev peer type_id ms r1 else r1)"

definition peer_specs_for :: "event_env \<Rightarrow> peer_id \<Rightarrow> event_router \<Rightarrow> peer_spec list" where
  "peer_specs_for ev peer r =
     take 20 (List.map_filter
       (\<lambda>(i, addr). map_option (\<lambda>h. peer_spec_new (hm_agent_name h) (hm_version h) (hm_node_name h)
                                  (Some \<lparr>da_ip = fst addr, da_port = snd addr\<rparr>))
                      (map_of (er_peer_handshakes r) i))
       (filter (\<lambda>(i, addr). i \<noteq> peer) (ev_peer_iter ev (er_peer_addresses r))))"

definition note_discovered :: "peer_spec \<Rightarrow> event_router \<Rightarrow> event_router" where
  "note_discovered spec r =
     (case ps_declared_addr spec of
        None \<Rightarrow> r
      | Some d \<Rightarrow>
          let addr = (da_ip d, da_port d) in
          if addr \<in> snd ` set (er_peer_addresses r) then r
          else r\<lparr>er_discovered_peers := List.insert addr (er_discovered_peers r)\<rparr>)"

fun handle_message :: "event_env \<Rightarrow> peer_id \<Rightarrow> message \<Rightarrow> event_router \<Rightarrow> event_router" where
  "handle_message ev peer (MSyncInfo info) r = snd (try_send ev (SyncInfoReceived peer info) r)"
| "handle_message ev peer (MInv announced_ids) r = snd (try_send ev (InvReceived peer announced_ids) r)"
| "handle_message ev peer (MModifier md) r = send_modifiers ev peer (md_type_id md) (md_modifiers md) r"
| "handle_message ev peer MGetPeers r =
     (if peer_specs_for ev peer r \<noteq> [] then send_network (NC_SendMessage peer (MPeers (peer_specs_for ev peer r))) r
      else r)"
| "handle_message ev peer (MPeers ps) r = fold note_discovered ps r"
| "handle_message ev peer m r = r"

subsection \<open>Events of the network\<close>

fun on_network_event :: "event_env \<Rightarrow> network_event \<Rightarrow> event_router \<Rightarrow> event_router" where
  "on_network_event ev (NE_PeerConnected peer addr handshake) r =
     (let r1 = r\<lparr>er_peer_addresses := AList.update peer addr (er_peer_addresses r),
                 er_peer_handshakes := AList.update peer handshake (er_peer_handshakes r),
                 er_reconnect_queue := AList.delete addr (er_reconnect_queue r),
                 er_discovered_peers := removeAll addr (er_discovered_peers r)\<rparr>
      in on_router (send_event (PeerConnected peer)) (send_network (NC_SendMessage peer MGetPeers) r1))"
| "on_network_event ev (NE_PeerDisconnected peer) r =
     (let r1 = (case map_of (er_peer_addresses r) peer of
                  None \<Rightarrow> r
                | Some addr \<Rightarrow>
                    r\<lparr>er_peer_addresses := AList.delete peer (er_peer_addresses r),
                      er_reconnect_queue :=
                        (if map_of (er_reconnect_queue r) addr = None
                         then AList.update addr (reconnect_new (ev_now ev) addr) (er_reconnect_queue r)
                         else er_reconnect_queue r)\<rparr>)
      in on_router (send_event (PeerDisconnected peer))
           (r1\<lparr>er_peer_handshakes := AList.delete peer (er_peer_handshakes r1)\<rparr>))"
| "on_network_event ev (NE_MessageReceived peer m) r = handle_message ev peer m r"
| "on_network_event ev (NE_ConnectionFailed addr e) r =
     r\<lparr>er_reconnect_queue :=
         (case map_of (er_reconnect_queue r) addr of
            Some info \<Rightarrow> AList.update addr (mark_failed (ev_now ev) info) (er_reconnect_queue r)
          | None \<Rightarrow> AList.update addr (mark_failed (\<lambda>k. ev_now ev (k + 2)) (reconnect_new (ev_now ev) addr))
                      (er_reconnect_queue r))\<rparr>"

subsection \<open>Timers\<close>

definition on_tick_interval :: "event_env \<Rightarrow> event_router \<Rightarrow> event_router" where
  "on_tick_interval ev r = snd (try_send ev Tick r)"

definition on_block_sync :: "'b router_env \<Rightarrow> u32 \<Rightarrow> event_router \<Rightarrow> event_router" where
  "on_block_sync env protocol_header_height r =
     (let (utxo_height, db_header_height) = heights (rt_state (er_router r));
          header_height = max db_header_height protocol_header_height
      in if utxo_height < header_height \<and> 0 < header_height
         then on_router (request_blocks env 512 header_height) r else r)"

text \<open>One pass over the queue: the addresses given up and those to connect to now.\<close>

primrec retry_pass ::
  "(nat \<Rightarrow> nat) \<Rightarrow> nat \<Rightarrow> (socket_addr \<times> reconnect_info) list \<Rightarrow> socket_addr list \<times> socket_addr list" where
  "retry_pass clk k [] = ([], [])"
| "retry_pass clk k (x # xs) =
     (let (given_up, due) = retry_pass clk (k + 1) xs in
      if MAX_RECONNECT_ATTEMPTS \<le> rc_attempts (snd x) then (fst x # given_up, due)
      else if can_attempt (clk k) (snd x) then (given_up, fst x # due)
      else (given_up, due))"

definition retry_queue :: "event_env \<Rightarrow> event_router \<Rightarrow> event_router" where
  "retry_queue ev r =
     (let (given_up, due) = retry_pass (ev_now ev) 0 (ev_queue_iter ev (er_reconnect_queue r));
          r1 = fold (\<lambda>addr. send_network (NC_Connect addr)) due r
      in r1\<lparr>er_reconnect_queue := fold AList.delete given_up (er_reconnect_queue r1)\<rparr>)"

definition try_discovered :: "event_env \<Rightarrow> event_router \<Rightarrow> event_router" where
  "try_discovered ev r =
     fold (\<lambda>addr q. send_network (NC_Connect addr) (q\<lparr>er_discovered_peers := removeAll addr (er_discovered_peers q)\<rparr>))
       (take 3 (filter (\<lambda>a. map_of (er_reconnect_queue r) a = None)
          (filter (\<lambda>a. a \<notin> snd ` set (er_peer_addresses r)) (ev_addr_iter ev (er_discovered_peers r))))) r"

definition on_reconnect_interval :: "event_env \<Rightarrow> event_router \<Rightarrow> event_router" where
  "on_reconnect_interval ev r =
     (let connected_count = length (er_peer_addresses r);
          r1 = (if connected_count < min_connections then retry_queue ev r else r)
      in if connected_count < max_router_connections \<and> er_discovered_peers r1 \<noteq> [] then try_discovered ev r1 else r1)"

subsection \<open>Commands of the protocol\<close>

definition store_result :: "(state_error + chain_selection) \<times> manager \<Rightarrow> router \<Rightarrow> store_reply \<times> router" where
  "store_result res r =
     (case res of
        (Inr _, st) \<Rightarrow> (Stored, r\<lparr>rt_state := st\<rparr>)
      | (Inl e, st) \<Rightarrow> (StoreFailed (show_state_error e), r\<lparr>rt_state := st\<rparr>))"

definition on_store_header :: "'b router_env \<Rightarrow> header \<Rightarrow> bytes \<Rightarrow> router \<Rightarrow> store_reply \<times> router" where
  "on_store_header env h raw_bytes r = store_result (apply_header_with_bytes (re_blocks env) h raw_bytes (rt_state r)) r"

definition enter_sync_mode :: "router \<Rightarrow> router" where
  "enter_sync_mode r =
     (let (utxo_height, header_height) = heights (rt_state r) in
      if \<not> us_sync_mode (sm_utxo (rt_state r)) \<and> utxo_height + 1000 < header_height then set_sync_modes True r else r)"

definition on_store_headers_batch :: "'b router_env \<Rightarrow> (header \<times> bytes) list \<Rightarrow> router \<Rightarrow> store_reply \<times> router" where
  "on_store_headers_batch env headers r =
     (if headers = [] then (Stored, r)
      else case store_result (apply_headers_batched (re_blocks env) headers (rt_state r)) r of
             (Stored, r1) \<Rightarrow> (Stored, enter_sync_mode r1)
           | res \<Rightarrow> res)"

text \<open>The miner fee is paid by outputs with the fee proposition.\<close>

definition fee_of :: "'b router_env \<Rightarrow> 'b transaction \<Rightarrow> u64" where
  "fee_of env tx =
     sum_list (map (box_value (re_boxes env))
       (filter (\<lambda>o1. tree_serialize (re_boxes env) o1 = Some (re_fee_tree env)) (tx_outputs tx)))"

definition input_boxes_of :: "'b router_env \<Rightarrow> router \<Rightarrow> 'b transaction \<Rightarrow> 'b list option" where
  "input_boxes_of env r tx = those (map (\<lambda>i. stored_box (boxes_of env) (sm_db (rt_state r)) (in_box_id i)) (tx_inputs tx))"

definition pooled_of :: "'b router_env \<Rightarrow> u64 \<Rightarrow> bytes \<Rightarrow> bytes \<Rightarrow> 'b transaction \<Rightarrow> pooled_transaction" where
  "pooled_of env arrival_time i data tx =
     \<lparr>ptx_id = i, ptx_bytes = data, ptx_fee = fee_of env tx, ptx_inputs = map in_box_id (tx_inputs tx),
      ptx_outputs = map (box_id_of (re_boxes env)) (tx_outputs tx), ptx_arrival_time = arrival_time,
      ptx_estimated_cost = None\<rparr>"

definition pool_transaction :: "'b router_env \<Rightarrow> pooled_transaction \<Rightarrow> router \<Rightarrow> router option" where
  "pool_transaction env ptx r =
     (case mp_add (re_pool env) ptx (rt_mempool r) of
        None \<Rightarrow> None
      | Some (Inl e, mp) \<Rightarrow> Some (r\<lparr>rt_mempool := mp\<rparr>)
      | Some (Inr _, mp) \<Rightarrow>
          Some (r\<lparr>rt_mempool := mp,
                  rt_commands := rt_commands r @
                    [NC_Broadcast (MInv \<lparr>inv_type_id = modifier_to_byte MT_Transaction, inv_ids = [ptx_id ptx]\<rparr>)]\<rparr>))"

definition on_add_transaction :: "'b router_env \<Rightarrow> u64 \<Rightarrow> bytes \<Rightarrow> bytes \<Rightarrow> router \<Rightarrow> router option" where
  "on_add_transaction env arrival_time i data r =
     (case tx_parse (re_blocks env) data of
        None \<Rightarrow> Some r
      | Some tx \<Rightarrow>
          (case input_boxes_of env r tx of
             None \<Rightarrow> Some r
           | Some input_boxes \<Rightarrow>
               if isl (validate_data_inputs_exist tx (stored_box (boxes_of env) (sm_db (rt_state r)))) then Some r
               else if isl (validate_erg_conservation (re_boxes env) tx input_boxes) then Some r
               else if isl (validate_token_conservation (re_boxes env) tx input_boxes False) then Some r
               else pool_transaction env (pooled_of env arrival_time i data tx) r))"

definition on_store_extension :: "bytes \<Rightarrow> router \<Rightarrow> router option" where
  "on_store_extension data r =
     (case ext_parse data of
        None \<Rightarrow> None
      | Some (Inl e) \<Rightarrow> Some r
      | Some (Inr e) \<Rightarrow> Some (r\<lparr>rt_state := (rt_state r)\<lparr>sm_db := put_extension e (sm_db (rt_state r))\<rparr>\<rparr>))"

text \<open>The reply goes back to the protocol, which waits for it after storing headers.\<close>

fun on_sync_command ::
  "'b router_env \<Rightarrow> event_env \<Rightarrow> sync_command \<Rightarrow> event_router \<Rightarrow> (store_reply option \<times> event_router) option" where
  "on_sync_command env ev (SendToPeer peer m) r = Some (None, send_network (NC_SendMessage peer m) r)"
| "on_sync_command env ev (Broadcast m) r = Some (None, send_network (NC_Broadcast m) r)"
| "on_sync_command env ev (StoreHeader h raw_bytes) r =
     (let (reply, q) = on_store_header env h raw_bytes (er_router r) in Some (Some reply, r\<lparr>er_router := q\<rparr>))"
| "on_sync_command env ev (StoreHeadersBatch headers) r =
     (let (reply, q) = on_store_headers_batch env headers (er_router r) in Some (Some reply, r\<lparr>er_router := q\<rparr>))"
| "on_sync_command env ev (ApplyBlock i data) r =
     map_option (\<lambda>q. (None, r\<lparr>er_router := q\<rparr>)) (on_apply_block env i data (er_router r))"
| "on_sync_command env ev (AddTransaction i data peer) r =
     map_option (\<lambda>q. (None, r\<lparr>er_router := q\<rparr>)) (on_add_transaction env (ev_wall_ms ev) i data (er_router r))"
| "on_sync_command env ev (StoreExtension i data) r =
     map_option (\<lambda>q. (None, r\<lparr>er_router := q\<rparr>)) (on_store_extension data (er_router r))"

subsection \<open>Start\<close>

text \<open>What \<open>start_networking\<close> sets up from the stored state before the router runs.\<close>

definition far_behind :: "manager \<Rightarrow> bool" where
  "far_behind st =
     (let (utxo_height, header_height) = heights st in
      utxo_height + 1000 < header_height \<or> utxo_height = 0 \<and> 0 < header_height)"

definition HEADER_IDS_TO_LOAD :: u32 where
  "HEADER_IDS_TO_LOAD = 50000"

definition start_offsets :: "u32 list" where
  "start_offsets = [0, 16, 128, 512]"

definition start_v2_headers :: "'b hist_env \<Rightarrow> manager \<Rightarrow> u32 \<Rightarrow> header list" where
  "start_v2_headers henv st header_height =
     List.map_filter (\<lambda>offset.
       let target_height = sat_sub_u32 header_height offset in
       if 0 < target_height
       then (case get_range henv (sm_db st) target_height 1 of Inr (h # _) \<Rightarrow> Some h | _ \<Rightarrow> None)
       else None) start_offsets"

definition start_locator :: "'b hist_env \<Rightarrow> manager \<Rightarrow> bytes list \<Rightarrow> bytes list option" where
  "start_locator henv st ids =
     map_option (\<lambda>r. case r of Inr locator \<Rightarrow> locator | Inl e \<Rightarrow> take 21 (rev ids))
       (get_header_locator henv (sm_hist st))"

definition init_sync_protocol :: "'b hist_env \<Rightarrow> manager \<Rightarrow> sync_protocol option" where
  "init_sync_protocol henv st =
     (let p = protocol_new sync_config_default; header_height = snd (heights st) in
      if 0 < header_height
      then let p1 = sp_set_height header_height p;
               start_height = max (sat_sub_u32 header_height HEADER_IDS_TO_LOAD) 1;
               count = header_height - start_height + 1
           in case get_ids_range (sm_db st) start_height count of
                Inr (i # ids) \<Rightarrow>
                  map_option (\<lambda>locator. init_from_stored_headers (i # ids) locator (start_v2_headers henv st header_height) p1)
                    (start_locator henv st (i # ids))
              | _ \<Rightarrow> Some p1
      else Some p)"

definition start_router :: "socket_addr list \<Rightarrow> manager \<Rightarrow> event_router" where
  "start_router known_peers st =
     (let r = \<lparr>rt_state = st, rt_mempool = mempool_with_defaults, rt_pending_blocks = [], rt_events = [],
               rt_commands = map NC_Connect known_peers\<rparr>
      in \<lparr>er_router = (if far_behind st then set_sync_modes True r else r), er_peer_addresses = [],
          er_peer_handshakes = [], er_reconnect_queue = [], er_discovered_peers = []\<rparr>)"

subsection \<open>All runs\<close>

text \<open>One turn of the loop of the task.\<close>

inductive router_step :: "'b router_env \<Rightarrow> event_router \<Rightarrow> event_router \<Rightarrow> bool" for env where
  rs_network: "router_step env r (on_network_event ev e r)"
| rs_command: "on_sync_command env ev c r = Some (reply, r') \<Longrightarrow> router_step env r r'"
| rs_tick: "router_step env r (on_tick_interval ev r)"
| rs_block_sync: "router_step env r (on_block_sync env protocol_height r)"
| rs_reconnect: "router_step env r (on_reconnect_interval ev r)"

inductive router_run :: "'b router_env \<Rightarrow> manager \<Rightarrow> event_router \<Rightarrow> bool" for env st where
  run_start: "router_run env st (start_router known_peers st)"
| run_step: "router_run env st r \<Longrightarrow> router_step env r r' \<Longrightarrow> router_run env st r'"

definition core_ok :: "router \<Rightarrow> bool" where
  "core_ok r \<longleftrightarrow>
     length (rt_pending_blocks r) \<le> MAX_PENDING_BLOCK_BUFFER \<and> pool_ok (rt_mempool r)
     \<and> us_sync_mode (sm_utxo (rt_state r)) = db_sync_mode (sm_db (rt_state r))"

definition queue_ok :: "(socket_addr \<times> reconnect_info) list \<Rightarrow> bool" where
  "queue_ok q \<longleftrightarrow> distinct (map fst q) \<and> (\<forall>(addr, i) \<in> set q. rc_addr i = addr)"

definition maps_ok :: "event_router \<Rightarrow> bool" where
  "maps_ok r \<longleftrightarrow>
     distinct (map fst (er_peer_addresses r)) \<and> distinct (map fst (er_peer_handshakes r))
     \<and> fst ` set (er_peer_addresses r) = fst ` set (er_peer_handshakes r)
     \<and> queue_ok (er_reconnect_queue r) \<and> distinct (er_discovered_peers r)"

text \<open>Applying a block keeps the pool consistent and the switches equal.\<close>

definition calm :: "router \<Rightarrow> bool" where
  "calm r \<longleftrightarrow> pool_ok (rt_mempool r) \<and> us_sync_mode (sm_utxo (rt_state r)) = db_sync_mode (sm_db (rt_state r))"

lemma pool_ok_confirmed: "pool_ok mp \<Longrightarrow> pool_ok (snd (remove_confirmed env ids spent mp))"
  using pool_ok_fold by (simp add: remove_confirmed_state)

lemma calm_write:
  assumes "calm r" "write_validated env vs r = (ok, r')" "vs \<noteq> []"
  shows "calm r'"
proof (cases ok)
  case True
  then show ?thesis
    using write_validated_ok [of env vs r r'] assms pool_ok_confirmed by (simp add: calm_def)
next
  case False
  then show ?thesis
    using write_validated_failed [of env vs r r'] assms by (auto simp: calm_def)
qed

lemma calm_process_block:
  assumes "process_block env blk b = Some b'" "calm (bn_router b)"
  shows "calm (bn_router b')"
proof -
  obtain bid bdata where blk: "blk = (bid, bdata)" by fastforce
  show ?thesis
    using assms(1) [unfolded blk]
  proof (cases rule: process_blocks_cases)
    case rebuffered
    then show ?thesis using assms(2) by (simp add: calm_def rebuffer_block_frame)
  next
    case (accepted block vc)
    let ?c = "push_validated env bid block vc b"
    show ?thesis
    proof (cases rule: write_full_batch_cases [of ?c env])
      case (written r)
      then show ?thesis using calm_write [OF _ written(2)] accepted(3) assms(2) by simp
    next
      case (failed r)
      then show ?thesis using calm_write [OF _ failed(2)] accepted(3) assms(2) by simp
    qed (use accepted(3) assms(2) in simp)
  qed (use assms(2) in \<open>simp_all add: calm_def send_event_def\<close>)
qed

lemma calm_apply_block:
  assumes "on_apply_block env bid bdata r = Some r'" "calm r"
  shows "calm r'"
  using assms(1)
proof (cases rule: on_apply_block_cases)
  case (run h blks pending b)
  have "calm (bn_router b)"
    using run(4)
  proof (rule process_blocks_induct)
    show "calm (bn_router b')" if "calm (bn_router b)" "process_block env blk b = Some b'" for blk b b'
      using calm_process_block that by blast
  qed (use assms(2) in \<open>simp add: calm_def\<close>)
  then have w: "calm (write_remaining env b)"
    using calm_write [of "bn_router b" env "bn_validated b"]
    by (cases "write_validated env (bn_validated b) (bn_router b)") (auto simp: write_remaining_def)
  have "calm (leave_sync_mode q)" if "calm q" for q
    using that by (simp add: calm_def leave_sync_mode_def set_sync_modes_def utxo_set_sync_mode_def db_set_sync_mode_def Let_def)
  moreover have "calm (request_next env q)" if "calm q" for q
    using that by (simp add: calm_def request_next_def request_blocks_frame split: prod.split)
  ultimately show ?thesis using w run(5) by blast
qed (use assms(2) in \<open>simp_all add: calm_def\<close>)

text \<open>Storing headers and pooling transactions.\<close>

lemma db_put_sync_mode [simp]: "db_sync_mode (db_put cf k v db) = db_sync_mode db"
  by (simp add: db_put_def)

lemma store_header_sync_mode: "store_header henv h raw_bytes db = Inr db' \<Longrightarrow> db_sync_mode db' = db_sync_mode db"
  by (auto simp: store_header_def put_with_bytes_def header_put_def res_simps split: option.splits)

lemma append_header_sync_mode:
  "db_sync_mode (fst (snd (append_header_internal henv h raw_bytes s))) = db_sync_mode (fst s)"
  by (auto simp: append_header_internal_def Let_def store_header_sync_mode split: sum.split)

lemma append_headers_sync_mode:
  "db_sync_mode (fst (snd (append_headers_batched henv hs s))) = db_sync_mode (fst s)"
  by (auto simp: append_headers_batched_def Let_def split: list.split sum.split)

lemma length_update_le: "length (AList.update k v al) \<le> length al + 1"
  by (induction al) auto

lemma core_apply_block: "on_apply_block env i data r = Some r' \<Longrightarrow> core_ok r \<Longrightarrow> core_ok r'"
  using calm_apply_block pending_blocks_bounded unfolding core_ok_def calm_def by blast

lemma core_store_result:
  assumes "core_ok r" "store_result res r = (reply, r')"
    "us_sync_mode (sm_utxo (snd res)) = db_sync_mode (sm_db (snd res))"
  shows "core_ok r'"
  using assms by (cases "fst res") (auto simp: store_result_def core_ok_def split: prod.splits)

lemma core_store_header:
  assumes "core_ok r" "on_store_header env h raw_bytes r = (reply, r')"
  shows "core_ok r'"
  using assms(1) assms(2) [unfolded on_store_header_def]
  by (rule core_store_result)
    (use assms(1) in \<open>simp add: core_ok_def apply_header_with_bytes_def on_history_def sm_put_hist_def
        append_header_with_bytes_def append_header_sync_mode sm_hist_def\<close>)

lemma core_enter_sync_mode: "core_ok r \<Longrightarrow> core_ok (enter_sync_mode r)"
  by (simp add: core_ok_def enter_sync_mode_def set_sync_modes_def utxo_set_sync_mode_def db_set_sync_mode_def split: prod.split)

lemma core_store_headers_batch:
  assumes "core_ok r" "on_store_headers_batch env headers r = (reply, r')"
  shows "core_ok r'"
proof (cases "headers = []")
  case False
  obtain reply1 r1 where res: "store_result (apply_headers_batched (re_blocks env) headers (rt_state r)) r = (reply1, r1)"
    by fastforce
  have "core_ok r1"
    using assms(1) res
    by (rule core_store_result)
      (use assms(1) in \<open>simp add: core_ok_def apply_headers_batched_def on_history_def sm_put_hist_def append_headers_sync_mode sm_hist_def\<close>)
  then show ?thesis
    using assms(2) False res core_enter_sync_mode by (auto simp: on_store_headers_batch_def split: store_reply.splits)
qed (use assms in \<open>simp add: on_store_headers_batch_def\<close>)

lemma mp_add_ok: "pool_ok mp \<Longrightarrow> mp_add env ptx mp = Some (res, mp') \<Longrightarrow> pool_ok mp'"
  using mp_add_rejects [of ptx mp _ env] mp_add_accepts [of mp ptx env] by (cases "add_check ptx mp") auto

lemma core_add_transaction:
  assumes "core_ok r" "on_add_transaction env t i data r = Some r'"
  shows "core_ok r'"
proof -
  have pool: "core_ok q" if "pool_transaction env ptx r = Some q" for ptx q
    using that assms(1) mp_add_ok by (fastforce simp: pool_transaction_def core_ok_def split: option.splits sum.splits)
  show ?thesis
    using assms pool by (auto simp: on_add_transaction_def split: option.splits if_splits)
qed

lemma core_store_extension: "core_ok r \<Longrightarrow> on_store_extension data r = Some r' \<Longrightarrow> core_ok r'"
  by (auto simp: on_store_extension_def core_ok_def put_extension_def split: option.splits sum.splits)

text \<open>Sending changes neither the core nor the maps.\<close>

lemma core_send: "core_ok (er_router (send_network c r)) = core_ok (er_router r)"
  "core_ok (er_router (snd (try_send ev e r))) = core_ok (er_router r)"
  "core_ok (send_event e q) = core_ok q"
  by (simp_all add: send_network_def on_router_def try_send_def core_ok_def send_event_def)

lemma maps_send: "maps_ok (send_network c r) = maps_ok r" "maps_ok (snd (try_send ev e r)) = maps_ok r" "maps_ok (on_router f r) = maps_ok r"
  by (simp_all add: send_network_def on_router_def try_send_def maps_ok_def)

lemma send_modifiers_ok:
  "core_ok (er_router (send_modifiers ev peer t ms r)) = core_ok (er_router r) \<and> maps_ok (send_modifiers ev peer t ms r) = maps_ok r"
  by (induction ms arbitrary: r)
    (simp_all add: core_send maps_send Let_def try_send_def on_router_def core_ok_def maps_ok_def send_event_def)

lemma note_discovered_ok:
  "er_router (note_discovered spec r) = er_router r \<and> (maps_ok r \<longrightarrow> maps_ok (note_discovered spec r))"
  by (auto simp: note_discovered_def maps_ok_def Let_def distinct_insert split: option.split)

lemma handle_message_ok:
  "core_ok (er_router (handle_message ev peer m r)) = core_ok (er_router r) \<and> (maps_ok r \<longrightarrow> maps_ok (handle_message ev peer m r))"
proof (cases m)
  case (MPeers ps)
  have "er_router (fold note_discovered ps r) = er_router r \<and> (maps_ok r \<longrightarrow> maps_ok (fold note_discovered ps r))"
    by (induction ps arbitrary: r) (simp_all add: note_discovered_ok)
  then show ?thesis by (simp add: MPeers)
qed (simp_all add: core_send maps_send send_modifiers_ok)

lemma map_of_None_fst: "map_of xs k = None \<longleftrightarrow> k \<notin> fst ` set xs"
  by (simp add: map_of_eq_None_iff)

lemma set_update_sub: "set (AList.update k v al) \<subseteq> insert (k, v) (set al)"
  by (induction al) auto

lemma queue_update: "queue_ok q \<Longrightarrow> rc_addr info = addr \<Longrightarrow> queue_ok (AList.update addr info q)"
  using set_update_sub [of addr info q] by (auto simp: queue_ok_def distinct_update)

lemma queue_delete: "queue_ok q \<Longrightarrow> queue_ok (AList.delete addr q)"
  by (auto simp: queue_ok_def AList.delete_eq distinct_map_filter)

lemma queue_delete_all: "queue_ok q \<Longrightarrow> queue_ok (fold AList.delete addrs q)"
  by (induction addrs arbitrary: q) (simp_all add: queue_delete)

lemma rc_addr_simps [simp]: "rc_addr (reconnect_new clk addr) = addr" "rc_addr (mark_failed clk i) = rc_addr i"
  by (simp_all add: reconnect_new_def mark_failed_def Let_def)

lemma fst_delete: "fst ` set (AList.delete k al) = fst ` set al - {k}"
  by (auto simp: AList.delete_eq image_iff)

lemma fst_update: "fst ` set (AList.update k v al) = insert k (fst ` set al)"
  by (induction al) auto

lemma network_event_ok:
  assumes "core_ok (er_router r)" "maps_ok r"
  shows "core_ok (er_router (on_network_event ev e r)) \<and> maps_ok (on_network_event ev e r)"
proof (cases e)
  case (NE_PeerConnected peer addr handshake)
  let ?r = "r\<lparr>er_peer_addresses := AList.update peer addr (er_peer_addresses r),
      er_peer_handshakes := AList.update peer handshake (er_peer_handshakes r),
      er_reconnect_queue := AList.delete addr (er_reconnect_queue r),
      er_discovered_peers := removeAll addr (er_discovered_peers r)\<rparr>"
  have "maps_ok ?r"
    using assms(2) queue_delete [of "er_reconnect_queue r" addr]
    by (simp add: maps_ok_def distinct_update fst_update distinct_removeAll)
  then show ?thesis
    using assms(1) by (simp add: NE_PeerConnected maps_send) (simp add: core_send on_router_def send_network_def core_ok_def send_event_def)
next
  case (NE_PeerDisconnected peer)
  let ?gone = "\<lambda>q. q\<lparr>er_peer_handshakes := AList.delete peer (er_peer_handshakes q)\<rparr>"
  have dist: "distinct (map fst (AList.delete peer al))" if "distinct (map fst al)" for al :: "(bytes \<times> 'a) list"
    using that by (simp add: AList.delete_eq distinct_map_filter)
  have core: "core_ok (er_router (on_network_event ev e r))"
    using assms(1)
    by (simp add: NE_PeerDisconnected Let_def on_router_def core_send split: option.split)
  have "maps_ok (?gone (case map_of (er_peer_addresses r) peer of
                  None \<Rightarrow> r
                | Some addr \<Rightarrow>
                    r\<lparr>er_peer_addresses := AList.delete peer (er_peer_addresses r),
                      er_reconnect_queue :=
                        (if map_of (er_reconnect_queue r) addr = None
                         then AList.update addr (reconnect_new (ev_now ev) addr) (er_reconnect_queue r)
                         else er_reconnect_queue r)\<rparr>))"
  proof (cases "map_of (er_peer_addresses r) peer")
    case None
    then have "peer \<notin> fst ` set (er_peer_handshakes r)"
      using assms(2) by (simp add: map_of_None_fst maps_ok_def)
    then have "fst ` set (AList.delete peer (er_peer_handshakes r)) = fst ` set (er_peer_handshakes r)"
      unfolding fst_delete by blast
    then show ?thesis
      using assms(2) None by (simp add: maps_ok_def AList.delete_eq distinct_map_filter)
  next
    case (Some addr)
    let ?q = "if map_of (er_reconnect_queue r) addr = None
        then AList.update addr (reconnect_new (ev_now ev) addr) (er_reconnect_queue r) else er_reconnect_queue r"
    have "queue_ok ?q"
      using assms(2) queue_update [of "er_reconnect_queue r" "reconnect_new (ev_now ev) addr" addr]
      by (simp add: maps_ok_def)
    then show ?thesis
      using assms(2) Some by (simp add: maps_ok_def fst_delete) (simp add: AList.delete_eq distinct_map_filter)
  qed
  then show ?thesis using core by (simp add: NE_PeerDisconnected Let_def maps_send)
next
  case (NE_MessageReceived peer m)
  then show ?thesis using assms handle_message_ok [of ev peer m r] by simp
next
  case (NE_ConnectionFailed addr err)
  let ?q = "er_reconnect_queue r"
  have queue: "queue_ok ?q" using assms(2) by (simp add: maps_ok_def)
  then have "rc_addr info = addr" if "map_of ?q addr = Some info" for info
    using map_of_SomeD [OF that] by (auto simp: queue_ok_def)
  then have "queue_ok (er_reconnect_queue (on_network_event ev e r))"
    using queue queue_update [of ?q _ addr] by (simp add: NE_ConnectionFailed split: option.split)
  then show ?thesis using assms by (simp add: NE_ConnectionFailed maps_ok_def)
qed

lemma fold_send:
  "er_router (fold (\<lambda>addr. send_network (NC_Connect addr)) addrs r)
     = (er_router r)\<lparr>rt_commands := rt_commands (er_router r) @ map NC_Connect addrs\<rparr>"
  "er_reconnect_queue (fold (\<lambda>addr. send_network (NC_Connect addr)) addrs r) = er_reconnect_queue r"
  "maps_ok (fold (\<lambda>addr. send_network (NC_Connect addr)) addrs r) = maps_ok r"
  by (induction addrs arbitrary: r) (simp_all add: send_network_def on_router_def maps_send [unfolded send_network_def on_router_def])

lemma retry_queue_ok:
  assumes "core_ok (er_router r)" "maps_ok r"
  shows "core_ok (er_router (retry_queue ev r)) \<and> maps_ok (retry_queue ev r)"
proof -
  obtain given_up due where p: "retry_pass (ev_now ev) 0 (ev_queue_iter ev (er_reconnect_queue r)) = (given_up, due)" by fastforce
  let ?r = "fold (\<lambda>addr. send_network (NC_Connect addr)) due r"
  have "maps_ok ?r" using assms(2) by (simp add: fold_send)
  then have "maps_ok (?r\<lparr>er_reconnect_queue := fold AList.delete given_up (er_reconnect_queue ?r)\<rparr>)"
    by (simp add: maps_ok_def queue_delete_all)
  then show ?thesis
    using assms(1) by (simp add: retry_queue_def p Let_def fold_send core_ok_def)
qed

lemma try_discovered_ok:
  assumes "core_ok (er_router r)" "maps_ok r"
  shows "core_ok (er_router (try_discovered ev r)) \<and> maps_ok (try_discovered ev r)"
proof -
  let ?step = "\<lambda>addr q. send_network (NC_Connect addr) (q\<lparr>er_discovered_peers := removeAll addr (er_discovered_peers q)\<rparr>)"
  have step: "core_ok (er_router (?step a q)) \<and> maps_ok (?step a q)" if "core_ok (er_router q) \<and> maps_ok q" for a q
    using that by (simp add: core_send maps_send) (simp add: maps_ok_def distinct_removeAll)
  have "core_ok (er_router (fold ?step addrs q)) \<and> maps_ok (fold ?step addrs q)" if "core_ok (er_router q) \<and> maps_ok q" for addrs q
    using that
  proof (induction addrs arbitrary: q)
    case (Cons a addrs)
    from Cons.IH [OF step [OF Cons.prems]] show ?case by simp
  qed simp
  then show ?thesis using assms unfolding try_discovered_def by blast
qed

lemma maps_router: "maps_ok (r\<lparr>er_router := q\<rparr>) = maps_ok r"
  by (simp add: maps_ok_def)

lemma sync_command_ok:
  assumes "on_sync_command env ev c r = Some (reply, r')" "core_ok (er_router r)" "maps_ok r"
  shows "core_ok (er_router r') \<and> maps_ok r'"
proof (cases c)
  case (StoreHeader h raw_bytes)
  obtain rep q where s: "on_store_header env h raw_bytes (er_router r) = (rep, q)" by fastforce
  then show ?thesis
    using core_store_header [OF assms(2) s] assms(1,3) by (auto simp: StoreHeader maps_router)
next
  case (StoreHeadersBatch headers)
  obtain rep q where s: "on_store_headers_batch env headers (er_router r) = (rep, q)" by fastforce
  then show ?thesis
    using core_store_headers_batch [OF assms(2) s] assms(1,3) by (auto simp: StoreHeadersBatch maps_router)
next
  case (ApplyBlock i data)
  then show ?thesis using core_apply_block [OF _ assms(2)] assms(1,3) by (auto simp: maps_router)
next
  case (AddTransaction i data peer)
  then show ?thesis using core_add_transaction [OF assms(2)] assms(1,3) by (auto simp: maps_router)
next
  case (StoreExtension i data)
  then show ?thesis using core_store_extension [OF assms(2)] assms(1,3) by (auto simp: maps_router)
qed (use assms in \<open>auto simp: core_send maps_send\<close>)

lemma router_step_ok:
  assumes "router_step env r r'" "core_ok (er_router r)" "maps_ok r"
  shows "core_ok (er_router r') \<and> maps_ok r'"
  using assms
proof cases
  case (rs_network ev e)
  then show ?thesis using network_event_ok assms(2,3) by simp
next
  case (rs_command ev c reply)
  then show ?thesis using sync_command_ok assms(2,3) by blast
next
  case (rs_tick ev)
  then show ?thesis using assms(2,3) core_send maps_send by (simp add: on_tick_interval_def)
next
  case (rs_block_sync protocol_height)
  have "core_ok (request_blocks env 512 h (er_router r)) = core_ok (er_router r)" for h
    by (simp add: core_ok_def request_blocks_frame)
  then show ?thesis
    using assms(2,3) rs_block_sync maps_send by (simp add: on_block_sync_def on_router_def Let_def maps_ok_def split: prod.split)
next
  case (rs_reconnect ev)
  then show ?thesis
    using assms(2,3) retry_queue_ok try_discovered_ok by (simp add: on_reconnect_interval_def Let_def)
qed

text \<open>C21: In every run of the router the maps of addresses and handshakes have the same peers and no peer twice, the
  queue for reconnection holds each address once under its own key, the buffer of early blocks stays
  within its limit, the pool stays consistent and within its limits, and the sync mode of the set of boxes
  and of the database are switched together.\<close>
theorem router_consistent:
  assumes "router_run env st r" "us_sync_mode (sm_utxo st) = db_sync_mode (sm_db st)"
  shows "core_ok (er_router r) \<and> maps_ok r"
  using assms
proof (induction rule: router_run.induct)
  case (run_start known_peers)
  have "pool_ok mempool_with_defaults"
    unfolding mempool_with_defaults_def by (rule pool_ok_new) (simp add: default_config_def DEFAULT_MAX_SIZE_def)
  then show ?case
    using run_start by (simp add: start_router_def core_ok_def maps_ok_def queue_ok_def Let_def set_sync_modes_def utxo_set_sync_mode_def db_set_sync_mode_def)
next
  case (run_step r r')
  then show ?case using router_step_ok by blast
qed

subsection \<open>Transactions without proofs\<close>

text \<open>No input of the transaction has a proof that its script accepts.\<close>

definition unproved :: "'b router_env \<Rightarrow> 'b transaction \<Rightarrow> bool" where
  "unproved env tx \<longleftrightarrow>
     (\<forall>idx ins ds height pre hs.
        case run_script (re_boxes env) tx idx ins ds height pre hs of Inl e \<Rightarrow> True | Inr v \<Rightarrow> \<not> vr_result v)"

definition passes_pool_checks :: "'b router_env \<Rightarrow> router \<Rightarrow> 'b transaction \<Rightarrow> bool" where
  "passes_pool_checks env r tx \<longleftrightarrow>
     (\<exists>ins. input_boxes_of env r tx = Some ins
        \<and> \<not> isl (validate_data_inputs_exist tx (stored_box (boxes_of env) (sm_db (rt_state r))))
        \<and> \<not> isl (validate_erg_conservation (re_boxes env) tx ins)
        \<and> \<not> isl (validate_token_conservation (re_boxes env) tx ins False))"

lemma add_transaction_pools:
  assumes "tx_parse (re_blocks env) data = Some tx" "passes_pool_checks env r tx"
  shows "on_add_transaction env t i data r = pool_transaction env (pooled_of env t i data tx) r"
  using assms by (auto simp: on_add_transaction_def passes_pool_checks_def)

text \<open>What spends a box that a pooled transaction spends is refused and changes nothing.\<close>

lemma add_transaction_conflicts:
  assumes pool: "pool_ok (rt_mempool r)" "mp_get (rt_mempool r) k = Some ptx" "b \<in> set (ptx_inputs ptx)"
    and tx: "tx_parse (re_blocks env) data = Some tx" "b \<in> in_box_id ` set (tx_inputs tx)"
  shows "on_add_transaction env t i data r = Some r"
proof -
  let ?ptx = "pooled_of env t i data tx"
  have "get_spending_tx (rt_mempool r) b = Some k"
    using pool by (auto simp: pool_ok_def pool_inv_def index_inv_def)
  then have "is_input_spent (rt_mempool r) b"
    by (simp add: is_input_spent_def get_spending_tx_def)
  then have "find (is_input_spent (rt_mempool r)) (ptx_inputs ?ptx) \<noteq> None"
    using tx(2) by (auto simp: find_None_iff pooled_of_def)
  then have "add_check ?ptx (rt_mempool r) \<noteq> None"
    by (simp add: add_check_def Let_def)
  then obtain e where "add_check ?ptx (rt_mempool r) = Some e" by blast
  then have "mp_add (re_pool env) ?ptx (rt_mempool r) = Some (Inl e, rt_mempool r)"
    by (rule mp_add_rejects)
  then have "pool_transaction env ?ptx r = Some r"
    by (simp add: pool_transaction_def)
  then show ?thesis
    using tx(1) by (simp add: on_add_transaction_def split: option.split)
qed

text \<open>C22: A transaction that spends the boxes of others without any proof, announced under any free identifier, enters
  the pool when it conserves values and tokens, and is broadcast; from then on no other transaction
  that spends one of these boxes, such as the one of their owner, is admitted.\<close>
theorem forged_transaction_excludes_genuine:
  assumes "pool_ok (rt_mempool r)" "mp_len (rt_mempool r) < max_transactions (mp_config (rt_mempool r))"
    "pool_bytes (rt_mempool r) + length data \<le> max_size (mp_config (rt_mempool r))"
    and "tx_parse (re_blocks env) data = Some tx" "unproved env tx" "passes_pool_checks env r tx"
    "add_check (pooled_of env t i data tx) (rt_mempool r) = None"
    and "tx_parse (re_blocks env) data' = Some genuine"
    "in_box_id ` set (tx_inputs tx) \<inter> in_box_id ` set (tx_inputs genuine) \<noteq> {}"
  shows "\<exists>r'. on_add_transaction env t i data r = Some r'
    \<and> mp_get (rt_mempool r') = (mp_get (rt_mempool r))(i \<mapsto> pooled_of env t i data tx)
    \<and> rt_commands r' = rt_commands r @ [NC_Broadcast (MInv \<lparr>inv_type_id = 2, inv_ids = [i]\<rparr>)]
    \<and> (\<forall>t' i'. on_add_transaction env t' i' data' r' = Some r')"
proof -
  let ?ptx = "pooled_of env t i data tx" and ?mp = "rt_mempool r"
  have ptx: "ptx_id ?ptx = i" "ptx_bytes ?ptx = data" "ptx_inputs ?ptx = map in_box_id (tx_inputs tx)"
    by (simp_all add: pooled_of_def)
  obtain q ks where q: "mp_add (re_pool env) ?ptx ?mp = Some (Inr (), q)" "pool_ok q"
      "mp_get q = ((mp_get ?mp)(i \<mapsto> ?ptx)) |` (- set ks)"
      "ks \<noteq> [] \<longrightarrow> max_transactions (mp_config ?mp) \<le> mp_len ?mp \<or> max_size (mp_config ?mp) < pool_bytes ?mp + length data"
    using mp_add_accepts [OF assms(1,7), of "re_pool env"] unfolding ptx by blast
  have "ks = []" using q(4) assms(2,3) by auto
  then have get: "mp_get q = (mp_get ?mp)(i \<mapsto> ?ptx)"
    using q(3) by (simp add: restrict_map_def fun_upd_def)
  let ?r = "r\<lparr>rt_mempool := q, rt_commands := rt_commands r @ [NC_Broadcast (MInv \<lparr>inv_type_id = 2, inv_ids = [i]\<rparr>)]\<rparr>"
  have run: "on_add_transaction env t i data r = Some ?r"
    using add_transaction_pools [OF assms(4,6)] q(1) by (simp add: pool_transaction_def ptx)
  obtain b where b: "b \<in> set (ptx_inputs ?ptx)" "b \<in> in_box_id ` set (tx_inputs genuine)"
    using assms(9) unfolding ptx by auto
  have "on_add_transaction env t' i' data' ?r = Some ?r" for t' i'
    by (rule add_transaction_conflicts [where k = i and ptx = ?ptx]) (use q(2) get b assms(8) in simp_all)
  then show ?thesis using run get by (intro exI [of _ ?r]) simp
qed

subsection \<open>Attempts to reconnect\<close>

text \<open>How often a connection to an address was requested.\<close>

definition connects :: "socket_addr \<Rightarrow> event_router \<Rightarrow> nat" where
  "connects addr r = length (filter (\<lambda>c. c = NC_Connect addr) (rt_commands (er_router r)))"

lemma retry_pass_simps:
  "fst (retry_pass clk k (x # xs)) =
     (if MAX_RECONNECT_ATTEMPTS \<le> rc_attempts (snd x) then [fst x] else []) @ fst (retry_pass clk (k + 1) xs)"
  "snd (retry_pass clk k (x # xs)) =
     (if rc_attempts (snd x) < MAX_RECONNECT_ATTEMPTS \<and> can_attempt (clk k) (snd x) then [fst x] else [])
       @ snd (retry_pass clk (k + 1) xs)"
  by (simp_all add: Let_def not_less [symmetric] split: prod.split)

lemma retry_pass_due:
  assumes "rc_attempts info < MAX_RECONNECT_ATTEMPTS" "\<forall>k. can_attempt (clk k) info"
  shows "(addr, info) \<in> set q \<Longrightarrow> addr \<in> set (snd (retry_pass clk k q))"
proof (induction q arbitrary: k)
  case (Cons x q)
  then show ?case using assms by (cases "x = (addr, info)") (simp_all add: retry_pass_simps del: retry_pass.simps)
qed simp

lemma retry_pass_given_up:
  "set (fst (retry_pass clk k q)) = {addr. \<exists>info. (addr, info) \<in> set q \<and> MAX_RECONNECT_ATTEMPTS \<le> rc_attempts info}"
proof (induction q arbitrary: k)
  case (Cons x q)
  then show ?case
    by (cases x) (auto simp: retry_pass_simps simp del: retry_pass.simps)
qed simp

lemma map_of_delete_all:
  "map_of (fold AList.delete addrs q) addr = (if addr \<in> set addrs then None else map_of q addr)"
  by (induction addrs arbitrary: q) (simp_all add: delete_conv')

lemma try_discovered_frame:
  "er_reconnect_queue (try_discovered ev r) = er_reconnect_queue r"
  "er_peer_addresses (try_discovered ev r) = er_peer_addresses r"
  "connects addr r \<le> connects addr (try_discovered ev r)"
proof -
  let ?step = "\<lambda>addr q. send_network (NC_Connect addr) (q\<lparr>er_discovered_peers := removeAll addr (er_discovered_peers q)\<rparr>)"
  have "er_reconnect_queue (fold ?step addrs q) = er_reconnect_queue q \<and> er_peer_addresses (fold ?step addrs q) = er_peer_addresses q
      \<and> connects addr q \<le> connects addr (fold ?step addrs q)" for addrs q
  proof (induction addrs arbitrary: q)
    case (Cons a addrs)
    from Cons.IH [of "?step a q"] show ?case
      by (auto simp: send_network_def on_router_def connects_def)
  qed simp
  then show "er_reconnect_queue (try_discovered ev r) = er_reconnect_queue r"
    "er_peer_addresses (try_discovered ev r) = er_peer_addresses r" "connects addr r \<le> connects addr (try_discovered ev r)"
    unfolding try_discovered_def by blast+
qed

lemma reconnect_interval_pass:
  fixes ev :: event_env
  assumes "length (er_peer_addresses r) < 3" "set (ev_queue_iter ev (er_reconnect_queue r)) = set (er_reconnect_queue r)"
    "distinct (map fst (er_reconnect_queue r))" "map_of (er_reconnect_queue r) addr = Some info"
  defines "r' \<equiv> on_reconnect_interval ev r"
  shows "er_peer_addresses r' = er_peer_addresses r"
    "rc_attempts info < 10 \<Longrightarrow> \<forall>k. rc_next_attempt info \<le> ev_now ev k \<Longrightarrow>
       connects addr r < connects addr r' \<and> map_of (er_reconnect_queue r') addr = Some info"
    "10 \<le> rc_attempts info \<Longrightarrow> map_of (er_reconnect_queue r') addr = None"
proof -
  let ?q = "ev_queue_iter ev (er_reconnect_queue r)"
  obtain given_up due where p: "retry_pass (ev_now ev) 0 ?q = (given_up, due)" by fastforce
  have mem: "(addr, i) \<in> set ?q \<longleftrightarrow> i = info" for i
    using assms(2-4) by (metis map_of_SomeD map_of_eq_Some_iff option.inject)
  have given: "addr \<in> set given_up \<longleftrightarrow> 10 \<le> rc_attempts info"
    using retry_pass_given_up [of "ev_now ev" 0 ?q] mem by (auto simp: p MAX_RECONNECT_ATTEMPTS_def)
  have addrs: "er_peer_addresses (fold (\<lambda>a. send_network (NC_Connect a)) xs q) = er_peer_addresses q" for xs q
    by (induction xs arbitrary: q) (simp_all add: send_network_def on_router_def)
  have retry: "er_peer_addresses (retry_queue ev r) = er_peer_addresses r"
      "map_of (er_reconnect_queue (retry_queue ev r)) addr = (if 10 \<le> rc_attempts info then None else Some info)"
      "connects addr (retry_queue ev r) = connects addr r + length (filter (\<lambda>a. a = addr) due)"
    using assms(4) given
    by (simp_all add: retry_queue_def p addrs fold_send map_of_delete_all connects_def filter_map comp_def)
  have r': "r' = (if length (er_peer_addresses r) < max_router_connections \<and> er_discovered_peers (retry_queue ev r) \<noteq> []
      then try_discovered ev (retry_queue ev r) else retry_queue ev r)"
    using assms(1) by (simp add: r'_def on_reconnect_interval_def min_connections_def Let_def)
  show "er_peer_addresses r' = er_peer_addresses r"
    using retry(1) by (simp add: r' try_discovered_frame)
  show "map_of (er_reconnect_queue r') addr = None" if "10 \<le> rc_attempts info"
    using retry(2) that by (simp add: r' try_discovered_frame)
  show "connects addr r < connects addr r' \<and> map_of (er_reconnect_queue r') addr = Some info"
    if "rc_attempts info < 10" "\<forall>k. rc_next_attempt info \<le> ev_now ev k"
  proof -
    have "addr \<in> set due"
      using retry_pass_due [of info "ev_now ev" addr ?q 0] mem that by (simp add: p MAX_RECONNECT_ATTEMPTS_def can_attempt_def)
    then have "connects addr r < connects addr (retry_queue ev r)"
      using retry(3) by (auto simp: filter_empty_conv)
    then show ?thesis
      using retry(2) that(1) try_discovered_frame(3) [of addr "retry_queue ev r" ev]
      by (auto simp: r' try_discovered_frame(1) not_le intro: less_le_trans)
  qed
qed

lemma reconnect_interval_ok:
  "core_ok (er_router r) \<Longrightarrow> maps_ok r \<Longrightarrow> core_ok (er_router (on_reconnect_interval ev r)) \<and> maps_ok (on_reconnect_interval ev r)"
  using retry_queue_ok try_discovered_ok by (simp add: on_reconnect_interval_def Let_def)

text \<open>C23: The limit of ten attempts is not final: while a connection attempt is pending every pass requests another one, so
  two are open after two passes; when the tenth failure has been counted and the address has been given up, the failure
  of the other attempt puts it back into the queue as new.\<close>
theorem given_up_peer_retried:
  assumes "core_ok (er_router r)" "maps_ok r" "length (er_peer_addresses r) < 3"
    "map_of (er_reconnect_queue r) addr = Some info" "rc_attempts info = 9"
    and "\<forall>ev \<in> {ev1, ev2, ev4}. \<forall>q. set (ev_queue_iter ev q) = set q"
    and "\<forall>ev \<in> {ev1, ev2}. \<forall>k. rc_next_attempt info \<le> ev_now ev k"
    and "r2 = on_reconnect_interval ev2 (on_reconnect_interval ev1 r)"
    "r4 = on_reconnect_interval ev4 (on_network_event ev3 (NE_ConnectionFailed addr e) r2)"
  shows "connects addr r + 2 \<le> connects addr r2 \<and> map_of (er_reconnect_queue r4) addr = None
    \<and> map_option rc_attempts (map_of (er_reconnect_queue (on_network_event ev5 (NE_ConnectionFailed addr e') r4)) addr) = Some 1"
proof -
  let ?r1 = "on_reconnect_interval ev1 r"
  define r3 where "r3 = on_network_event ev3 (NE_ConnectionFailed addr e) r2"
  have iter: "set (ev_queue_iter ev q) = set q" if "ev \<in> {ev1, ev2, ev4}" for ev q
    using assms(6) that by blast
  have dist: "distinct (map fst (er_reconnect_queue q))" if "maps_ok q" for q
    using that by (simp add: maps_ok_def queue_ok_def)
  have one: "er_peer_addresses ?r1 = er_peer_addresses r" "connects addr r < connects addr ?r1"
      "map_of (er_reconnect_queue ?r1) addr = Some info" "core_ok (er_router ?r1)" "maps_ok ?r1"
    using reconnect_interval_pass [OF assms(3) iter dist [OF assms(2)] assms(4), of ev1] assms(5,7)
      reconnect_interval_ok [OF assms(1,2)] by simp_all
  have two: "er_peer_addresses r2 = er_peer_addresses r" "connects addr ?r1 < connects addr r2"
      "map_of (er_reconnect_queue r2) addr = Some info" "core_ok (er_router r2)" "maps_ok r2"
    using reconnect_interval_pass [OF _ iter dist [OF one(5)] one(3), of ev2] assms(3,5,7) one(1)
      reconnect_interval_ok [OF one(4,5)] by (simp_all add: assms(8))
  have "maps_ok r3" using network_event_ok [OF two(4,5)] unfolding r3_def by blast
  moreover have "er_peer_addresses r3 = er_peer_addresses r"
      "map_of (er_reconnect_queue r3) addr = Some (mark_failed (ev_now ev3) info)"
    using two(1,3) by (simp_all add: r3_def update_conv')
  moreover note three = calculation
  have "rc_attempts (mark_failed (ev_now ev3) info) = 10"
    using assms(5) by (simp add: mark_failed_def Let_def)
  then have "map_of (er_reconnect_queue r4) addr = None"
    using reconnect_interval_pass(3) [OF _ iter dist [OF three(1)] three(3), of ev4] three(2) assms(3)
    unfolding assms(9) r3_def [symmetric] by simp
  then show ?thesis
    using one(2) two(2) by (simp add: mark_failed_def reconnect_new_def Let_def update_conv')
qed

subsection \<open>A restart resumes\<close>

lemma ids_loop_all:
  "\<forall>h \<in> set hs. db_get db CF_HeaderChain (be_u32 h) = Some (f h) \<and> length (f h) = 32 \<Longrightarrow>
     get_ids_range_loop db hs = Inr (map f hs)"
  by (induction hs) simp_all

lemma set_lru_fold:
  "length ids + length xs \<le> cap \<Longrightarrow> set ids \<union> set xs \<subseteq> set (fold (lru_put cap) ids xs)"
proof (induction ids arbitrary: xs)
  case (Cons i ids)
  have le: "length ids + length (i # removeAll i xs) \<le> cap"
    using Cons.prems length_removeAll_less_eq [of i xs] unfolding list.size by linarith
  then have "lru_put cap i xs = i # removeAll i xs"
    unfolding lru_put_def by (intro take_all) linarith
  moreover note le
  ultimately show ?case using Cons.IH [of "i # removeAll i xs"] by auto
qed simp

lemma start_locator_some: "\<exists>locator. start_locator henv st ids = Some locator"
proof (cases "hy_best_height (snd (sm_hist st)) = 0")
  case False
  then have "1 \<le> hy_best_height (snd (sm_hist st))" by (simp add: word_le_nat_alt word_unat_eq_iff)
  from locator_stepping [OF this, of "[]" henv "fst (sm_hist st)"] False show ?thesis
    by (auto simp: start_locator_def get_header_locator_def)
qed (simp add: start_locator_def get_header_locator_def)

text \<open>The heights whose identifiers are read at the start.\<close>

lemma start_range:
  fixes best :: u32
  assumes "0 < best" "unat best < 2 ^ 32 - 1" and start: "start = max (sat_sub_u32 best HEADER_IDS_TO_LOAD) 1"
  shows "height_range start (best - start + 1) = map of_nat [unat start ..< unat best + 1]"
    and "unat start = max (unat best - 50000) 1" "unat start \<le> unat best"
proof -
  have "unat (max a b) = max (unat a) (unat b)" for a b :: u32
    by (simp add: max_def word_le_nat_alt)
  then show s: "unat start = max (unat best - 50000) 1"
    by (simp add: start unat_sat_sub_u32 HEADER_IDS_TO_LOAD_def)
  moreover have "0 < unat best" using assms(1) by (simp add: word_less_nat_alt)
  ultimately show le: "unat start \<le> unat best" by simp
  have "unat (best - start) = unat best - unat start"
    using le by (simp add: unat_sub word_le_nat_alt)
  then have "unat (best - start + 1) = unat best - unat start + 1"
    using assms(2) by (subst unat_add_lem [THEN iffD1]) simp_all
  then show "height_range start (best - start + 1) = map of_nat [unat start ..< unat best + 1]"
    using assms(2) le by (simp add: height_range_def)
qed

text \<open>When every height up to the best header has its identifier in the index, a start ends and the protocol knows the
  best height and the last identifiers.\<close>

lemma start_resumes:
  assumes best: "hy_best_height (sm_history st) = best" "0 < best" "unat best < 2 ^ 32 - 1"
    and ids: "\<And>h. 1 \<le> h \<Longrightarrow> h \<le> best \<Longrightarrow> db_get (sm_db st) CF_HeaderChain (be_u32 h) = Some (ids h) \<and> length (ids h) = 32"
  obtains p where "init_sync_protocol henv st = Some p" "best_header_height p = best"
    "\<And>h. 1 \<le> h \<Longrightarrow> h \<le> best \<Longrightarrow> unat best \<le> unat h + 50000 \<Longrightarrow> ids h \<in> set (sp_stored_headers p)"
proof -
  let ?start = "max (sat_sub_u32 best HEADER_IDS_TO_LOAD) 1" and ?p = "protocol_new sync_config_default"
  let ?hs = "height_range ?start (best - ?start + 1)"
  note range = start_range [OF best(2,3) refl]
  have mem: "h \<in> set ?hs \<longleftrightarrow> unat ?start \<le> unat h \<and> unat h \<le> unat best" for h
  proof
    assume "unat ?start \<le> unat h \<and> unat h \<le> unat best"
    then have "unat h \<in> set [unat ?start ..< unat best + 1]" by (simp add: less_Suc_eq_le del: upt_Suc)
    then show "h \<in> set ?hs" unfolding range(1) set_map by (rule image_eqI [rotated]) simp
  next
    assume "h \<in> set ?hs"
    then obtain n where "h = of_nat n" "unat ?start \<le> n" "n \<le> unat best" unfolding range(1) by auto
    moreover have "n < 2 ^ 32" using calculation(3) best(3) by simp
    ultimately show "unat ?start \<le> unat h \<and> unat h \<le> unat best" by (simp add: unat_of_nat)
  qed
  have "1 \<le> unat ?start" using range(2) by simp
  then have "\<forall>h \<in> set ?hs. db_get (sm_db st) CF_HeaderChain (be_u32 h) = Some (ids h) \<and> length (ids h) = 32"
    using ids mem by (auto simp: word_le_nat_alt)
  then have loaded: "get_ids_range (sm_db st) ?start (best - ?start + 1) = Inr (map ids ?hs)"
    unfolding get_ids_range_def by (rule ids_loop_all)
  have "best \<in> set ?hs" using mem range(3) by simp
  then obtain i rest where cons: "map ids ?hs = i # rest" by (cases ?hs) auto
  obtain locator where loc: "start_locator henv st (map ids ?hs) = Some locator" using start_locator_some by blast
  let ?p1 = "sp_set_height best ?p"
  define p where "p = init_from_stored_headers (map ids ?hs) locator (start_v2_headers henv st best) ?p1"
  have init: "init_sync_protocol henv st = Some p"
    using best(1,2) loaded loc by (simp add: init_sync_protocol_def heights_def Let_def cons p_def)
  have len: "length (map ids ?hs) \<le> 50001"
    using range by simp
  have height: "best_header_height p = best"
    by (simp add: p_def init_from_stored_headers_def best_header_height_def sp_set_height_def protocol_new_def
        header_chain_new_def chain_height_def sy_set_height_def check_sync_status_def Let_def)
  have "sp_stored_headers p = fold (lru_put STORED_HEADERS_CACHE_SIZE) (map ids ?hs) [replicate 32 0]"
    using len by (simp add: p_def init_from_stored_headers_def cons sp_set_height_def protocol_new_def STORED_HEADERS_CACHE_SIZE_def Let_def)
  then have "ids ` set ?hs \<subseteq> set (sp_stored_headers p)"
    using set_lru_fold [of "map ids ?hs" "[replicate 32 0]" STORED_HEADERS_CACHE_SIZE] len
    by (simp add: STORED_HEADERS_CACHE_SIZE_def)
  moreover have "h \<in> set ?hs" if "1 \<le> h" "h \<le> best" "unat best \<le> unat h + 50000" for h
    using that mem range(2) by (simp add: word_le_nat_alt)
  ultimately show thesis using that init height by blast
qed

subsection \<open>Concrete runs\<close>

definition quiet_event :: event_env where
  "quiet_event = \<lparr>ev_now = id, ev_wall_ms = 0, ev_room = (\<lambda>_. True), ev_peer_iter = id, ev_queue_iter = id, ev_addr_iter = id\<rparr>"

definition quiet_manager :: manager where
  "quiet_manager = rt_state (pipe_router [])"

lemma quiet_manager_modes: "us_sync_mode (sm_utxo quiet_manager) = db_sync_mode (sm_db quiet_manager)"
  by (simp add: quiet_manager_def pipe_router_def state_manager_new_def manager_with_verification_def utxo_new_def db_empty_def)

theorem router_consistent_witness:
  "\<exists>r. router_run pipe_env quiet_manager r \<and> er_peer_addresses r = [([1], (V4 10 0 0 1, 9030))]
     \<and> core_ok (er_router r) \<and> maps_ok r"
proof -
  let ?e = "NE_PeerConnected [1] (V4 10 0 0 1, 9030) \<lparr>hm_agent_name = [], hm_version = (5, 0, 0), hm_node_name = [],
    hm_declared_addr = None, hm_features = []\<rparr>"
  let ?r = "on_network_event quiet_event ?e (start_router [] quiet_manager)"
  have run: "router_run pipe_env quiet_manager ?r"
    by (rule run_step [OF run_start rs_network])
  have "er_peer_addresses ?r = [([1], (V4 10 0 0 1, 9030))]"
    by (simp add: start_router_def send_network_def on_router_def Let_def)
  then show ?thesis
    using router_consistent [OF run quiet_manager_modes] run by blast
qed

text \<open>The proof is the whole data of the transaction, and no script accepts any proof.\<close>

definition forged_tx :: "bytes \<Rightarrow> bytes transaction" where
  "forged_tx data = pipe_tx\<lparr>tx_inputs := [\<lparr>in_box_id = replicate 32 7, in_proof = data, in_extension = []\<rparr>]\<rparr>"

definition forged_env :: "bytes router_env" where
  "forged_env = pipe_env\<lparr>re_boxes := pipe_boxes\<lparr>run_script := \<lambda>tx idx ins ds h pre hs. Inl ''false''\<rparr>,
     re_blocks := pipe_blocks\<lparr>tx_parse := \<lambda>data. Some (forged_tx data)\<rparr>\<rparr>"

lemma forged_stored:
  "stored_box (boxes_of forged_env) (sm_db (rt_state (pipe_router []))) (replicate 32 7) = Some (replicate 33 7)"
proof -
  have "db_get (sm_db (rt_state (pipe_router []))) CF_Utxo (replicate 32 7) = Some (replicate 71 7)"
    by (simp add: pipe_router_def state_manager_new_def manager_with_verification_def db.get_put)
  then show ?thesis
    by (simp add: stored_box_def get_box_def be_deserialize_def forged_env_def pipe_boxes_def box_env.truncate_def)
qed

lemma forged_passes: "passes_pool_checks forged_env (pipe_router []) (forged_tx data)"
proof -
  have "input_boxes_of forged_env (pipe_router []) (forged_tx data) = Some [replicate 33 7]"
    by (simp add: input_boxes_of_def forged_tx_def pipe_tx_def forged_stored)
  then show ?thesis
    unfolding passes_pool_checks_def
    by (simp add: forged_tx_def pipe_tx_def validate_data_inputs_exist_def validate_erg_conservation_def
        validate_token_conservation_def forged_env_def pipe_boxes_def collect_tokens_def Let_def)
qed

theorem forged_transaction_excludes_genuine_witness:
  "\<exists>r'. on_add_transaction forged_env 0 [1] [0, 0] (pipe_router []) = Some r' \<and> mp_contains (rt_mempool r') [1]
     \<and> on_add_transaction forged_env 0 [2] [3, 3] r' = Some r'"
proof -
  let ?r = "pipe_router []"
  have pool: "rt_mempool ?r = mempool_new sample_config" by (simp add: pipe_router_def)
  have parse: "tx_parse (re_blocks forged_env) d = Some (forged_tx d)" for d by (simp add: forged_env_def)
  have "unproved forged_env (forged_tx [0, 0])" by (simp add: unproved_def forged_env_def)
  moreover have "add_check (pooled_of forged_env 0 [1] [0, 0] (forged_tx [0, 0])) (rt_mempool ?r) = None"
    by (simp add: pool pooled_of_def add_check_def mempool_new_def sample_config_def mp_contains_def f64_ratio_not_neg
        forged_tx_def is_input_spent_def)
  moreover have "pool_ok (rt_mempool ?r)" "mp_len (rt_mempool ?r) < max_transactions (mp_config (rt_mempool ?r))"
      "pool_bytes (rt_mempool ?r) + length [0 :: u8, 0] \<le> max_size (mp_config (rt_mempool ?r))"
    unfolding pool by (rule pool_ok_new) (simp_all add: sample_config_def mempool_new_def mp_len_def pool_bytes_def)
  moreover have "in_box_id ` set (tx_inputs (forged_tx [0, 0])) \<inter> in_box_id ` set (tx_inputs (forged_tx [3, 3])) \<noteq> {}"
    by (simp add: forged_tx_def)
  ultimately obtain r' where r': "on_add_transaction forged_env 0 [1] [0, 0] ?r = Some r'"
      "mp_get (rt_mempool r') = (mp_get (rt_mempool ?r))([1] \<mapsto> pooled_of forged_env 0 [1] [0, 0] (forged_tx [0, 0]))"
      "\<forall>t' i'. on_add_transaction forged_env t' i' [3, 3] r' = Some r'"
    using forged_transaction_excludes_genuine [OF _ _ _ parse _ forged_passes _ parse, of "[0, 0]" 0 "[1]" "[3, 3]"] by blast
  then show ?thesis by (auto simp: mp_contains_def mp_get_def fun_eq_iff)
qed

text \<open>A router with one peer to reconnect to, that has failed nine times.\<close>

definition waiting_router :: event_router where
  "waiting_router =
     \<lparr>er_router = pipe_router [], er_peer_addresses = [], er_peer_handshakes = [],
      er_reconnect_queue = [((V4 10 0 0 1, 9030), \<lparr>rc_addr = (V4 10 0 0 1, 9030), rc_attempts = 9, rc_last_attempt = 0, rc_next_attempt = 0\<rparr>)],
      er_discovered_peers = []\<rparr>"

theorem given_up_peer_retried_witness:
  "connects (V4 10 0 0 1, 9030) waiting_router + 2
      \<le> connects (V4 10 0 0 1, 9030) (on_reconnect_interval quiet_event (on_reconnect_interval quiet_event waiting_router))"
proof -
  have "core_ok (er_router waiting_router)"
    by (simp add: waiting_router_def core_ok_def pipe_router_def pool_ok_new sample_config_def state_manager_new_def
        manager_with_verification_def utxo_new_def db_put_def db_empty_def)
  moreover have "maps_ok waiting_router"
    by (simp add: waiting_router_def maps_ok_def queue_ok_def)
  moreover have "map_of (er_reconnect_queue waiting_router) (V4 10 0 0 1, 9030) =
      Some \<lparr>rc_addr = (V4 10 0 0 1, 9030), rc_attempts = 9, rc_last_attempt = 0, rc_next_attempt = 0\<rparr>"
      "length (er_peer_addresses waiting_router) < 3"
    by (simp_all add: waiting_router_def)
  moreover have "\<forall>ev \<in> {quiet_event, quiet_event, quiet_event}. \<forall>q. set (ev_queue_iter ev q) = set q"
      "\<forall>ev \<in> {quiet_event, quiet_event}. \<forall>k. 0 \<le> ev_now ev k"
    by (simp_all add: quiet_event_def)
  ultimately show ?thesis
    using given_up_peer_retried [OF _ _ _ _ _ _ _ refl refl, of waiting_router "(V4 10 0 0 1, 9030)"] by simp
qed

end
