(* ===== verification/Spec2Isabelle.thy ===== *)
theory Spec2Isabelle
  imports Codec Mempool Peers Nipopow Block_Validation Protocol_Laws Snapshots Indexer Workers Wallet
    Tx_Builder Scans Router
begin

text \<open>
  \<^bold>\<open>A verification of the Ergo node in Rust.\<close>

  The node keeps a copy of the Ergo block chain. Peers send it messages over TCP; from them it builds a
  chain of headers with the most proof of work, downloads the blocks of this chain, validates them
  against the set of unspent boxes and applies them to it. Around this core are the pool of
  unconfirmed transactions, mining, a wallet and the indexes for applications. This development models
  the crates under \<open>src/crates/\<close> and proves what they guarantee, and where they do not do what their
  comments say.

  \<^bold>\<open>How the parts interact.\<close> Bytes from a peer are cut into frames (\<open>Codec\<close>) and decoded (\<open>Messages\<close>). The
  synchronisation protocol (\<open>Protocol\<close>) handles each event: it tells the downloader (\<open>Download\<close>) and the
  synchroniser (\<open>Sync\<close>) what to fetch and sends commands: headers to store (\<open>History\<close>), blocks to apply
  (\<open>State_Manager\<close> over \<open>Block_Validation\<close>, \<open>History\<close> and \<open>Utxo\<close>), transactions to pool (\<open>Mempool\<close>). The router (\<open>Router\<close>) carries them out.
  All persistent state is one key-value store with column families (\<open>Storage\<close>). The miner takes the best
  header and the best transactions of the pool (\<open>Mining\<close>, \<open>Workers\<close>); the wallet watches addresses
  (\<open>Wallet\<close>), the extra index and the scans serve applications (\<open>Indexer\<close>, \<open>Scans\<close>).

  \<^bold>\<open>Theories and sources.\<close> Each theory models the files named here; a definition has the name of the Rust
  item unless that clashes with a name of HOL or of another theory, and then carries a prefix
  (\<open>mp_add\<close> is \<open>Mempool::add\<close>, \<open>ks_lock\<close> is \<open>KeyStore::lock\<close>).

  \<^item> \<open>Prelude\<close>, \<open>Containers\<close>: machine integers as words, \<open>Result\<close> as a sum with \<open>rbind\<close> for the question mark,
    byte buffers with a position, hash maps as association lists. \<open>F64\<close>, \<open>F64_Rounding\<close>: the IEEE doubles
    that orderings, scores and the difficulty rest on, with monotone rounding.
  \<^item> \<open>Vlq\<close>, \<open>Utf8\<close>, \<open>Handshake\<close>, \<open>Messages\<close>, \<open>Codec\<close>: \<open>ergo-network/src/\<close> \<open>message.rs\<close>, \<open>handshake.rs\<close>, \<open>codec.rs\<close>.
    Parsers return a value and the position after it, or an error, or a panic as an error of its own.
  \<^item> \<open>Scoring\<close>, \<open>Peers\<close>: \<open>penalties.rs\<close>, \<open>scoring.rs\<close>, \<open>peer.rs\<close>, \<open>decline.rs\<close> of the same crate.
  \<^item> \<open>Mempool_Order\<close>, \<open>Mempool\<close>: \<open>ergo-mempool/src/\<close> \<open>ordering.rs\<close>, \<open>pool.rs\<close>. The record \<open>mempool\<close> has the
    maps of the struct and a counter of clock readings.
  \<^item> \<open>Consensus\<close>, \<open>Emission\<close>, \<open>Nipopow\<close>, \<open>Difficulty\<close>: \<open>ergo-consensus/src/\<close> errors, compact targets, costs, voted
    parameters, re-emission, proofs of proof-of-work and the difficulty of the next block.
  \<^item> \<open>Blocks\<close>, \<open>Validation\<close>, \<open>Block_Validation\<close>: \<open>block.rs\<close>, \<open>validation.rs\<close>, \<open>tx_validation.rs\<close>,
    \<open>block_validation.rs\<close>: the sections of a block, the stateless checks, conservation, the loop over the
    transactions of a block.
  \<^item> \<open>Storage\<close>, \<open>Utxo\<close>, \<open>Utxo_Laws\<close>, \<open>History\<close>, \<open>History_Laws\<close>, \<open>State_Manager\<close>, \<open>Snapshots\<close>:
    \<open>ergo-storage/src/\<close> and \<open>ergo-state/src/\<close>. The state of an operation is the database together with
    the fields that the struct keeps in memory; operations return a result and the new state.
  \<^item> \<open>Download\<close>, \<open>Sync\<close>, \<open>Protocol\<close>, \<open>Protocol_Laws\<close>: \<open>ergo-sync/src/\<close>. \<open>handle_event\<close> composes all handlers;
    commands are appended to the list \<open>sp_commands\<close> of the state.
  \<^item> \<open>Index_Data\<close>, \<open>Indexer\<close>, \<open>Scans\<close>: \<open>ergo-storage/src/indexer/\<close> and \<open>ergo-storage/src/scan/\<close>. An operation of
    the indexer that would wait for a lock it holds has the outcome \<open>Blocks\<close>.
  \<^item> \<open>Mining\<close>, \<open>Workers\<close>: \<open>ergo-mining/src/\<close>. \<open>Workers\<close> is a step relation over all interleavings of the worker
    threads and the coordinator; each atomic access to shared state is one step.
  \<^item> \<open>Tracker\<close>, \<open>Keystore\<close>, \<open>Wallet\<close>, \<open>Tx_Builder\<close>: \<open>ergo-wallet/src/\<close>.

  \<^item> \<open>Block_Pipeline\<close>, \<open>Router\<close>: \<open>ergo-node/src/node.rs\<close>: how the node applies a run of blocks, and every branch of the task
    between network and protocol. What the task sends is appended to \<open>rt_events\<close> and \<open>rt_commands\<close>.

  \<^bold>\<open>What the lemmas show.\<close> Every component with state has an invariant and a relation of reachable states
  (\<open>pool_reachable\<close>, \<open>manager_reachable\<close>, \<open>wallet_run\<close>, \<open>scan_run\<close>, \<open>pool_run\<close> and the like) in which each operation is a step; the
  invariant is proved for each operation and then for all runs. Codecs are instances of two locales,
  \<open>pos_codec\<close> for values read at a position and \<open>framing\<close> for streams, and their round trips come from the
  lemmas of these. The database is an instance of \<open>kv_store\<close>, the pool of \<open>keyed_removal\<close>, its order of
  \<open>key_order\<close>, the tracker of \<open>address_book\<close>. Abstract specifications: the set of boxes as a partial map with
  \<open>spec_apply\<close> (\<open>Utxo_Laws\<close>), a batch as its blocks one after the other (\<open>State_Manager\<close>, \<open>History_Laws\<close>),
  lookups before and after a flush (\<open>Indexer\<close>), the tracker as a multiset of boxes (\<open>Tracker\<close>), the protocol
  as operations of its parts (\<open>Protocol_Laws\<close>), the solver as a search (\<open>Mining\<close>). The properties of kind
  \<open>error\<close> are theorems on inputs for which the code does not do what it means to.

  \<^bold>\<open>Bounds and fuel.\<close> Integers keep the width of the source and wrap as in the release build; lengths of
  buffers are natural numbers, bounded by the address space where the code converts them. Loops that
  may not end are partial functions into \<open>option\<close> (\<open>locator_loop\<close>, \<open>epochs_loop\<close>, \<open>evict_while\<close>), and the claims
  on them prove that they return. The only fuel is that of \<open>store_descendants\<close>: the code recurses through
  the waiting headers, each level removes one from the map, and
  \<open>Protocol_Laws.store_descendants_terminates\<close> shows that one more than their number is enough and that
  more changes nothing. Round trips are stated for bodies below \<open>2 ^ 58\<close> bytes, where no count or
  length overflows; frames carry ten megabytes at most.

  \<^bold>\<open>Parameters.\<close> Hash functions, the clock, random numbers, the iteration order of hash maps and sets, the
  codecs of boxes, transactions and headers, the script interpreter, key derivation, ciphers, JSON and
  the file system are arguments (the records \<open>message_env\<close>, \<open>box_env\<close>, \<open>tx_env\<close>, \<open>hist_env\<close>, \<open>val_env\<close>,
  \<open>sync_env\<close>, \<open>pool_env\<close>, \<open>wallet_env\<close> and others). What is assumed of them is a named hypothesis of the
  theorems that need it, such as that a stored box is read back or that decryption with the same key undoes encryption,
  and each has a concrete instance in the witness of the theorem.

  \<^bold>\<open>Not modelled.\<close> The sockets and tasks of \<open>ergo-network/src/\<close> \<open>service.rs\<close>, \<open>connection.rs\<close>, \<open>discovery.rs\<close>; the
  HTTP server \<open>ergo-api/src/\<close>, whose handlers format the state of the parts above; the configuration file and
  the command line in \<open>ergo-node/src/\<close>; the tests. The operations of the database are taken to succeed, so
  the error paths for a failing disk are left out; a single operation of a struct that is protected by
  a lock is taken as atomic, except in \<open>Workers\<close> and where \<open>Indexer\<close> follows the locks.
\<close>

end
